(* ===== verification/Prelude.thy ===== *)
theory Prelude
  imports Main "HOL-Library.Word" "HOL-Library.Sublist"
begin

text \<open>
  Shared vocabulary of the development: the machine integers of the Rust sources, its
  saturating arithmetic on \<open>u64\<close>/\<open>usize\<close>, the \<open>?\<close> operator on results, and the part of
  \<open>str\<close> the components use.  A Rust \<open>str\<close> is its UTF-8 byte sequence, so a \<^typ>\<open>string\<close>
  (a list of 8-bit \<^typ>\<open>char\<close>) is exactly that sequence and \<open>str::len\<close> is \<^term>\<open>length\<close>.
\<close>

section \<open>Machine integers\<close>

type_synonym u8 = "8 word"
type_synonym u16 = "16 word"
type_synonym u32 = "32 word"
type_synonym u64 = "64 word"

named_theorems rust_defs \<open>definitions of the arithmetic and result helpers\<close>
named_theorems str_simps \<open>evaluation of the string helpers\<close>

lemma unat_u8_lt [simp]: "unat (b :: u8) < 256"
  using unsigned_less [of b] by simp

lemma unat_u16_lt [simp]: "unat (b :: u16) < 65536"
  using unsigned_less [of b] by simp

lemma unat_u32_lt [simp]: "unat (b :: u32) < 256 ^ 4"
  using unsigned_less [of b] by simp

lemma unat_u64_lt [simp]: "unat (b :: u64) < 256 ^ 8"
  using unsigned_less [of b] by simp

text \<open>
  \<open>usize\<close> and \<open>u64\<close> quantities that only meet saturating or comparing operations are
  natural numbers; the ceiling \<open>u64_max\<close> appears where the code saturates.  Subtraction on
  \<^typ>\<open>nat\<close> stops at zero, which is \<open>saturating_sub\<close>.
\<close>

definition u64_max :: nat where
  "u64_max = 2 ^ 64 - 1"

definition sat_add :: "nat \<Rightarrow> nat \<Rightarrow> nat" where
  "sat_add a b = min (a + b) u64_max"

definition sat_mul :: "nat \<Rightarrow> nat \<Rightarrow> nat" where
  "sat_mul a b = min (a * b) u64_max"

definition clamp :: "nat \<Rightarrow> nat \<Rightarrow> nat \<Rightarrow> nat" where
  "clamp x lo hi = (if x < lo then lo else if hi < x then hi else x)"

declare sat_add_def [rust_defs] sat_mul_def [rust_defs] clamp_def [rust_defs]

lemma sat_add_exact: "a + b \<le> u64_max \<Longrightarrow> sat_add a b = a + b"
  by (simp add: sat_add_def)

lemma sat_mul_exact: "a * b \<le> u64_max \<Longrightarrow> sat_mul a b = a * b"
  by (simp add: sat_mul_def)

lemma sat_add_le [simp]: "sat_add a b \<le> a + b"
  by (simp add: sat_add_def)

lemma sat_add_bound [simp]: "sat_add a b \<le> u64_max"
  by (simp add: sat_add_def)

lemma sat_mul_mono: "a \<le> c \<Longrightarrow> b \<le> d \<Longrightarrow> sat_mul a b \<le> sat_mul c d"
  by (simp add: sat_mul_def mult_le_mono min.coboundedI1)

lemma clamp_range: "lo \<le> hi \<Longrightarrow> lo \<le> clamp x lo hi \<and> clamp x lo hi \<le> hi"
  by (simp add: clamp_def)

section \<open>Results\<close>

text \<open>\<open>Inl\<close> is \<open>Err\<close>, \<open>Inr\<close> is \<open>Ok\<close>; \<open>and_then\<close> is the \<open>?\<close> operator.\<close>

definition and_then :: "'e + 'a \<Rightarrow> ('a \<Rightarrow> 'e + 'b) \<Rightarrow> 'e + 'b" where
  "and_then r f = (case r of Inl e \<Rightarrow> Inl e | Inr x \<Rightarrow> f x)"

lemma and_then_simps [simp]:
  "and_then (Inl e) f = Inl e"
  "and_then (Inr x) f = f x"
  by (simp_all add: and_then_def)

lemma and_then_Inr_iff: "and_then r f = Inr y \<longleftrightarrow> (\<exists>x. r = Inr x \<and> f x = Inr y)"
  by (cases r) simp_all

lemma and_then_Inl_iff:
  "and_then r f = Inl e \<longleftrightarrow> r = Inl e \<or> (\<exists>x. r = Inr x \<and> f x = Inl e)"
  by (cases r) auto

definition ensure :: "bool \<Rightarrow> 'e \<Rightarrow> 'e + unit" where
  "ensure b e = (if b then Inr () else Inl e)"

lemma ensure_simps [simp]:
  "ensure True e = Inr ()"
  "ensure False e = Inl e"
  by (simp_all add: ensure_def)

lemma ensure_Inr_iff [simp]: "ensure b e = Inr u \<longleftrightarrow> b"
  by (simp add: ensure_def)

definition is_ok :: "'e + 'a \<Rightarrow> bool" where
  "is_ok r = (case r of Inl _ \<Rightarrow> False | Inr _ \<Rightarrow> True)"

lemma is_ok_simps [simp]: "is_ok (Inl e) = False" "is_ok (Inr x) = True"
  by (simp_all add: is_ok_def)

section \<open>Association lists\<close>

text \<open>A \<open>HashMap\<close> or a directory of files is a list of pairs with distinct keys.\<close>

definition al_put :: "'k \<Rightarrow> 'v \<Rightarrow> ('k \<times> 'v) list \<Rightarrow> ('k \<times> 'v) list" where
  "al_put k v kvs = (k, v) # filter (\<lambda>(k', _). k' \<noteq> k) kvs"

definition al_del :: "'k \<Rightarrow> ('k \<times> 'v) list \<Rightarrow> ('k \<times> 'v) list" where
  "al_del k kvs = filter (\<lambda>(k', _). k' \<noteq> k) kvs"

lemma map_of_al [simp]:
  "map_of (al_put k v kvs) = (map_of kvs)(k \<mapsto> v)"
  "map_of (al_del k kvs) = (map_of kvs)(k := None)"
proof -
  have "map_of (filter (\<lambda>(k', _). k' \<noteq> k) kvs) x = (if x = k then None else map_of kvs x)" for x
    by (induction kvs) auto
  then show "map_of (al_put k v kvs) = (map_of kvs)(k \<mapsto> v)"
    "map_of (al_del k kvs) = (map_of kvs)(k := None)"
    by (auto simp: al_put_def al_del_def)
qed

lemma distinct_al_filter: "distinct (map fst kvs) \<Longrightarrow> distinct (map fst (filter P kvs))"
  by (induction kvs) auto

lemma distinct_al [simp]:
  "distinct (map fst kvs) \<Longrightarrow> distinct (map fst (al_put k v kvs))"
  "distinct (map fst kvs) \<Longrightarrow> distinct (map fst (al_del k kvs))"
  by (auto simp: al_put_def al_del_def distinct_al_filter)

lemma length_al [simp]:
  "length (al_put k v kvs) \<le> Suc (length kvs)" "length (al_del k kvs) \<le> length kvs"
  by (simp_all add: al_put_def al_del_def)

section \<open>Codecs\<close>

text \<open>
  A partial codec: both directions may reject, and each undoes the other.  Then encodings are
  unambiguous and what the decoder accepts is exactly what the encoder produces.
\<close>

locale codec =
  fixes enc :: "'a \<Rightarrow> 'e + 'b"
    and dec :: "'b \<Rightarrow> 'f + 'a"
  assumes dec_enc: "enc x = Inr b \<Longrightarrow> dec b = Inr x"
    and enc_dec: "dec b = Inr x \<Longrightarrow> enc x = Inr b"
begin

lemma enc_iff_dec: "enc x = Inr b \<longleftrightarrow> dec b = Inr x"
  using dec_enc enc_dec by blast

lemma enc_inj: "enc x = Inr b \<Longrightarrow> enc y = Inr b \<Longrightarrow> x = y"
  by (metis dec_enc sum.inject(2))

lemma dec_inj: "dec b = Inr x \<Longrightarrow> dec c = Inr x \<Longrightarrow> b = c"
  by (metis enc_dec sum.inject(2))

lemma accepted_iff_encoded: "is_ok (dec b) \<longleftrightarrow> (\<exists>x. enc x = Inr b)"
  by (cases "dec b") (auto simp: enc_iff_dec)

end

end
