(* ===== verification/Rust_Str.thy ===== *)
theory Rust_Str
  imports Prelude "HOL-Library.Char_ord"
begin

text \<open>
  The operations of Rust's \<open>str\<close> that the components call, on the UTF-8 byte sequence.
  ASCII operations look at single bytes; \<open>trim\<close> and \<open>split_whitespace\<close> recognise the
  byte sequences of the code points with the Unicode \<open>White_Space\<close> property, which is what
  \<open>char::is_whitespace\<close> tests.
\<close>

section \<open>Bytes and ASCII case\<close>

definition code :: "char \<Rightarrow> nat" where
  "code c = of_char c"

definition LF :: char where "LF = char_of (10::nat)"
definition CR :: char where "CR = char_of (13::nat)"

lemma LF_neq_CR [simp]: "LF \<noteq> CR" "CR \<noteq> LF"
  by (simp_all add: LF_def CR_def)

lemma LF_CR_lit: "LF = CHR 0x0A" "CR = CHR 0x0D"
  by (simp_all add: LF_def CR_def char_of_def bit_numeral_rec bit_Suc_0_iff)

lemma lit_neq_LF_CR [simp]:
  "CHR '' '' \<noteq> LF" "CHR ''+'' \<noteq> LF" "CHR ''-'' \<noteq> LF" "CHR ''@'' \<noteq> LF"
  "CHR '' '' \<noteq> CR" "CHR ''+'' \<noteq> CR" "CHR ''-'' \<noteq> CR" "CHR ''@'' \<noteq> CR"
  by (simp_all add: LF_CR_lit)

definition is_ascii_digit :: "char \<Rightarrow> bool" where
  "is_ascii_digit c = (CHR ''0'' \<le> c \<and> c \<le> CHR ''9'')"

definition is_ascii_alphanumeric :: "char \<Rightarrow> bool" where
  "is_ascii_alphanumeric c =
     (is_ascii_digit c \<or> (CHR ''A'' \<le> c \<and> c \<le> CHR ''Z'') \<or> (CHR ''a'' \<le> c \<and> c \<le> CHR ''z''))"

definition ascii_lower :: "char \<Rightarrow> char" where
  "ascii_lower c = (if CHR ''A'' \<le> c \<and> c \<le> CHR ''Z'' then char_of (code c + 32) else c)"

definition to_ascii_lowercase :: "string \<Rightarrow> string" where
  "to_ascii_lowercase s = map ascii_lower s"

definition eq_ignore_ascii_case :: "string \<Rightarrow> string \<Rightarrow> bool" where
  "eq_ignore_ascii_case a b = (to_ascii_lowercase a = to_ascii_lowercase b)"

section \<open>Prefixes, suffixes, substrings\<close>

fun strip_prefix :: "string \<Rightarrow> string \<Rightarrow> string option" where
  "strip_prefix s [] = Some s"
| "strip_prefix [] (p # ps) = None"
| "strip_prefix (c # cs) (p # ps) = (if c = p then strip_prefix cs ps else None)"

definition starts_with :: "string \<Rightarrow> string \<Rightarrow> bool" where
  "starts_with s p = (strip_prefix s p \<noteq> None)"

definition ends_with :: "string \<Rightarrow> string \<Rightarrow> bool" where
  "ends_with s p = starts_with (rev s) (rev p)"

fun contains :: "string \<Rightarrow> string \<Rightarrow> bool" where
  "contains [] p = (p = [])"
| "contains (c # cs) p = (starts_with (c # cs) p \<or> contains cs p)"

lemma strip_prefix_Some_iff: "strip_prefix s p = Some r \<longleftrightarrow> s = p @ r"
  by (induction s p rule: strip_prefix.induct) auto

lemma strip_prefix_append [simp]: "strip_prefix (p @ r) p = Some r"
  by (simp add: strip_prefix_Some_iff)

lemma starts_with_iff: "starts_with s p \<longleftrightarrow> (\<exists>r. s = p @ r)"
  unfolding starts_with_def by (metis not_Some_eq strip_prefix_Some_iff)

lemma ends_with_iff: "ends_with s p \<longleftrightarrow> (\<exists>r. s = r @ p)"
  unfolding ends_with_def starts_with_iff by (metis rev_append rev_rev_ident)

lemma contains_iff: "contains s p \<longleftrightarrow> (\<exists>a b. s = a @ p @ b)"
proof (induction s p rule: contains.induct)
  case (1 p)
  show ?case by simp
next
  case (2 c cs p)
  show ?case
  proof
    assume "contains (c # cs) p"
    then show "\<exists>a b. c # cs = a @ p @ b"
      using 2 by (metis append_Cons append_Nil contains.simps(2) starts_with_iff)
  next
    assume "\<exists>a b. c # cs = a @ p @ b"
    then obtain a b where ab: "c # cs = a @ p @ b" by blast
    show "contains (c # cs) p"
    proof (cases a)
      case Nil
      with ab have "starts_with (c # cs) p" unfolding starts_with_iff by auto
      then show ?thesis by simp
    next
      case (Cons x a')
      with ab 2 show ?thesis by auto
    qed
  qed
qed

section \<open>Splitting\<close>

text \<open>\<open>split_on c s\<close> is \<open>s.split(c)\<close>: the pieces between occurrences, never an empty list.\<close>

fun split_on :: "char \<Rightarrow> string \<Rightarrow> string list" where
  "split_on c [] = [[]]"
| "split_on c (x # xs) =
     (if x = c then [] # split_on c xs
      else (case split_on c xs of [] \<Rightarrow> [[x]] | p # ps \<Rightarrow> (x # p) # ps))"

text \<open>\<open>split_terminator\<close> drops the empty piece after a final separator.\<close>

definition split_terminator :: "char \<Rightarrow> string \<Rightarrow> string list" where
  "split_terminator c s =
     (let ps = split_on c s in if last ps = [] then butlast ps else ps)"

definition strip_suffix_cr :: "string \<Rightarrow> string" where
  "strip_suffix_cr s = (if s \<noteq> [] \<and> last s = CR then butlast s else s)"

text \<open>
  \<open>str::lines\<close>: lines end at a line feed, which is removed with one carriage return before
  it; a last line without a line feed is kept as it is.
\<close>

definition lines :: "string \<Rightarrow> string list" where
  "lines s =
     (let ps = split_on LF s
      in map strip_suffix_cr (butlast ps) @ (if last ps = [] then [] else [last ps]))"

fun join :: "string \<Rightarrow> string list \<Rightarrow> string" where
  "join sep [] = []"
| "join sep [x] = x"
| "join sep (x # y # xs) = x @ sep @ join sep (y # xs)"

lemma split_on_not_Nil [simp]: "split_on c s \<noteq> []"
  by (induction s) (auto split: list.splits)

lemma join_Cons: "xs \<noteq> [] \<Longrightarrow> join sep (x # xs) = x @ sep @ join sep xs"
  by (cases xs) simp_all

lemma join_split_on: "join [c] (split_on c s) = s"
proof (induction s)
  case Nil
  show ?case by simp
next
  case (Cons x xs)
  obtain p ps where ps: "split_on c xs = p # ps"
    by (cases "split_on c xs") auto
  with Cons show ?case
    by (cases ps) (auto simp: join_Cons)
qed

lemma split_on_no_sep: "c \<notin> set p \<Longrightarrow> split_on c p = [p]"
  by (induction p) auto

lemma split_on_append: "c \<notin> set p \<Longrightarrow> split_on c (p @ c # s) = p # split_on c s"
  by (induction p) auto

lemma split_on_join:
  "ps \<noteq> [] \<Longrightarrow> \<forall>p \<in> set ps. c \<notin> set p \<Longrightarrow> split_on c (join [c] ps) = ps"
proof (induction ps rule: list_nonempty_induct)
  case (single p)
  then show ?case by (simp add: split_on_no_sep)
next
  case (cons p ps)
  then show ?case by (simp add: join_Cons split_on_append)
qed

lemma split_on_pieces: "p \<in> set (split_on c s) \<Longrightarrow> c \<notin> set p"
  by (induction s arbitrary: p) (auto split: if_splits list.splits)

section \<open>White space\<close>

text \<open>Bytes of the white-space character a sequence starts with; 0 when it starts with none.\<close>

definition ws_len :: "string \<Rightarrow> nat" where
  "ws_len s = (case s of [] \<Rightarrow> 0
     | a # r \<Rightarrow>
       if code a \<in> {9, 10, 11, 12, 13, 32} then 1
       else (case r of [] \<Rightarrow> 0
         | b # r' \<Rightarrow>
           if code a = 0xC2 \<and> code b \<in> {0x85, 0xA0} then 2
           else (case r' of [] \<Rightarrow> 0
             | d # _ \<Rightarrow>
               if code a = 0xE1 \<and> code b = 0x9A \<and> code d = 0x80 then 3
               else if code a = 0xE2 \<and> code b = 0x80 \<and>
                  (0x80 \<le> code d \<and> code d \<le> 0x8A \<or> code d \<in> {0xA8, 0xA9, 0xAF}) then 3
               else if code a = 0xE2 \<and> code b = 0x81 \<and> code d = 0x9F then 3
               else if code a = 0xE3 \<and> code b = 0x80 \<and> code d = 0x80 then 3
               else 0)))"

definition ws_len_end :: "string \<Rightarrow> nat" where
  "ws_len_end r =
     (if ws_len (rev (take 1 r)) = 1 then 1
      else if ws_len (rev (take 2 r)) = 2 then 2
      else if ws_len (rev (take 3 r)) = 3 then 3 else 0)"

lemma ws_len_Nil [simp]: "ws_len [] = 0" "ws_len_end [] = 0"
  by (simp_all add: ws_len_def ws_len_end_def)

function trim_start :: "string \<Rightarrow> string" where
  "trim_start s = (if ws_len s = 0 then s else trim_start (drop (ws_len s) s))"
  by pat_completeness auto
termination
proof (relation "measure length")
  fix s :: string
  assume "ws_len s \<noteq> 0"
  then show "(drop (ws_len s) s, s) \<in> measure length"
    by (cases s) auto
qed simp

function trim_end_rev :: "string \<Rightarrow> string" where
  "trim_end_rev r = (if ws_len_end r = 0 then r else trim_end_rev (drop (ws_len_end r) r))"
  by pat_completeness auto
termination
proof (relation "measure length")
  fix s :: string
  assume "ws_len_end s \<noteq> 0"
  then show "(drop (ws_len_end s) s, s) \<in> measure length"
    by (cases s) auto
qed simp

declare trim_start.simps [simp del] trim_end_rev.simps [simp del]

definition trim_end :: "string \<Rightarrow> string" where
  "trim_end s = rev (trim_end_rev (rev s))"

definition trim :: "string \<Rightarrow> string" where
  "trim s = trim_end (trim_start s)"

text \<open>\<open>split_whitespace\<close>: the maximal runs of non-white-space bytes; \<open>acc\<close> is the run read so far.\<close>

function split_ws :: "string \<Rightarrow> string \<Rightarrow> string list" where
  "split_ws acc s =
     (if s = [] then (if acc = [] then [] else [rev acc])
      else if ws_len s = 0 then split_ws (hd s # acc) (tl s)
      else (if acc = [] then [] else [rev acc]) @ split_ws [] (drop (ws_len s) s))"
  by pat_completeness auto
termination
  by (relation "measure (\<lambda>(acc, s). length s)") auto

declare split_ws.simps [simp del]

definition split_whitespace :: "string \<Rightarrow> string list" where
  "split_whitespace s = split_ws [] s"

lemma trim_start_suffix: "\<exists>p. s = p @ trim_start s"
proof (induction s rule: trim_start.induct)
  case (1 s)
  show ?case
  proof (cases "ws_len s = 0")
    case True
    then show ?thesis by (simp add: trim_start.simps [of s])
  next
    case False
    with 1 obtain p where "drop (ws_len s) s = p @ trim_start (drop (ws_len s) s)"
      by blast
    with False show ?thesis
      by (metis append.assoc append_take_drop_id trim_start.simps)
  qed
qed

lemma trim_end_rev_suffix: "\<exists>p. s = p @ trim_end_rev s"
proof (induction s rule: trim_end_rev.induct)
  case (1 s)
  show ?case
  proof (cases "ws_len_end s = 0")
    case True
    then show ?thesis by (simp add: trim_end_rev.simps [of s])
  next
    case False
    with 1 obtain p where "drop (ws_len_end s) s = p @ trim_end_rev (drop (ws_len_end s) s)"
      by blast
    with False show ?thesis
      by (metis append.assoc append_take_drop_id trim_end_rev.simps)
  qed
qed

lemma trim_subset: "set (trim s) \<subseteq> set s"
proof -
  have "set (trim_start s) \<subseteq> set s"
    using trim_start_suffix [of s] by (metis Un_upper2 set_append)
  moreover have "set (trim_end_rev r) \<subseteq> set r" for r
    using trim_end_rev_suffix [of r] by (metis Un_upper2 set_append)
  ultimately show ?thesis
    unfolding trim_def trim_end_def by (metis set_rev subset_trans)
qed

text \<open>Trimming removes bytes of white space only; in particular it keeps every ASCII printable byte.\<close>

lemma ws_len_bytes:
  assumes "c \<in> set (take (ws_len s) s)"
  shows "\<not> (33 \<le> code c \<and> code c < 128)"
proof (cases s)
  case Nil
  with assms show ?thesis by simp
next
  case (Cons a r)
  note a = this
  show ?thesis
  proof (cases r)
    case Nil
    with a assms show ?thesis by (auto simp: ws_len_def split: if_splits)
  next
    case (Cons b r')
    with a assms show ?thesis
      by (cases r') (auto simp: ws_len_def numeral_3_eq_3 split: if_splits)
  qed
qed

lemma trim_start_keeps:
  "c \<in> set s \<Longrightarrow> 33 \<le> code c \<Longrightarrow> code c < 128 \<Longrightarrow> c \<in> set (trim_start s)"
proof (induction s rule: trim_start.induct)
  case (1 s)
  show ?case
  proof (cases "ws_len s = 0")
    case True
    with 1 show ?thesis by (simp add: trim_start.simps [of s])
  next
    case False
    from 1(3,4) have "c \<notin> set (take (ws_len s) s)" using ws_len_bytes by blast
    with 1(2) have "c \<in> set (drop (ws_len s) s)"
      by (metis Un_iff append_take_drop_id set_append)
    with 1 False show ?thesis by (simp add: trim_start.simps [of s])
  qed
qed

lemma ws_len_end_bytes:
  assumes "c \<in> set (take (ws_len_end r) r)"
  shows "\<not> (33 \<le> code c \<and> code c < 128)"
proof -
  have "ws_len_end r = 0 \<or> (\<exists>k. ws_len_end r = k \<and> ws_len (rev (take k r)) = k)"
    by (simp add: ws_len_end_def)
  then show ?thesis
  proof
    assume "\<exists>k. ws_len_end r = k \<and> ws_len (rev (take k r)) = k"
    then obtain k where k: "ws_len_end r = k" "ws_len (rev (take k r)) = k" by blast
    let ?t = "rev (take k r)"
    from k assms have "c \<in> set (take (ws_len ?t) ?t)"
      by (metis length_rev length_take min.cobounded2 set_rev take_all)
    then show ?thesis by (rule ws_len_bytes)
  qed (use assms in simp)
qed

lemma trim_end_rev_keeps:
  "c \<in> set s \<Longrightarrow> 33 \<le> code c \<Longrightarrow> code c < 128 \<Longrightarrow> c \<in> set (trim_end_rev s)"
proof (induction s rule: trim_end_rev.induct)
  case (1 s)
  show ?case
  proof (cases "ws_len_end s = 0")
    case True
    with 1 show ?thesis by (simp add: trim_end_rev.simps [of s])
  next
    case False
    from 1(3,4) have "c \<notin> set (take (ws_len_end s) s)" using ws_len_end_bytes by blast
    with 1(2) have "c \<in> set (drop (ws_len_end s) s)"
      by (metis Un_iff append_take_drop_id set_append)
    with 1 False show ?thesis by (simp add: trim_end_rev.simps [of s])
  qed
qed

lemma trim_keeps:
  "c \<in> set s \<Longrightarrow> 33 \<le> code c \<Longrightarrow> code c < 128 \<Longrightarrow> c \<in> set (trim s)"
  by (simp add: trim_def trim_end_def trim_start_keeps trim_end_rev_keeps)

section \<open>Replacing and parsing\<close>

definition replace_char :: "char \<Rightarrow> char \<Rightarrow> string \<Rightarrow> string" where
  "replace_char a b s = map (\<lambda>c. if c = a then b else c) s"

text \<open>\<open>s.replace("\r\n", "\n")\<close> and \<open>s.replace('\n', "\r\n")\<close>.\<close>

fun normalize_crlf :: "string \<Rightarrow> string" where
  "normalize_crlf (a # b # s) =
     (if a = CR \<and> b = LF then LF # normalize_crlf s else a # normalize_crlf (b # s))"
| "normalize_crlf s = s"

definition expand_crlf :: "string \<Rightarrow> string" where
  "expand_crlf s = concat (map (\<lambda>c. if c = LF then [CR, LF] else [c]) s)"

text \<open>\<open>str::parse::<usize>()\<close>: an optional plus sign, at least one digit, no overflow.\<close>

fun digits_value :: "nat \<Rightarrow> string \<Rightarrow> nat option" where
  "digits_value acc [] = Some acc"
| "digits_value acc (c # cs) =
     (if is_ascii_digit c \<and> acc * 10 + (code c - 48) \<le> u64_max
      then digits_value (acc * 10 + (code c - 48)) cs else None)"

definition parse_usize :: "string \<Rightarrow> nat option" where
  "parse_usize s =
     (let d = (case s of c # cs \<Rightarrow> if c = CHR ''+'' then cs else s | [] \<Rightarrow> s)
      in if d = [] then None else digits_value 0 d)"

section \<open>Text made of terminated lines\<close>

definition clean_line :: "string \<Rightarrow> bool" where
  "clean_line s = (LF \<notin> set s \<and> (s = [] \<or> last s \<noteq> CR))"

definition terminated :: "string \<Rightarrow> string list \<Rightarrow> string" where
  "terminated eol ls = concat (map (\<lambda>l. l @ eol) ls)"

lemma terminated_simps [simp]:
  "terminated eol [] = []"
  "terminated eol (l # ls) = l @ eol @ terminated eol ls"
  by (simp_all add: terminated_def)

lemma split_on_terminated:
  "\<forall>l \<in> set ls. LF \<notin> set l \<Longrightarrow> LF \<notin> set cr \<Longrightarrow>
   split_on LF (terminated (cr @ [LF]) ls) = map (\<lambda>l. l @ cr) ls @ [[]]"
proof (induction ls)
  case (Cons l ls)
  then show ?case
    using split_on_append [of LF "l @ cr" "terminated (cr @ [LF]) ls"] by simp
qed simp

lemma clean_line_strip [simp]:
  "clean_line l \<Longrightarrow> strip_suffix_cr l = l"
  "strip_suffix_cr (l @ [CR]) = l"
  by (auto simp: clean_line_def strip_suffix_cr_def)

lemma lines_terminated:
  assumes "\<forall>l \<in> set ls. clean_line l" and "eol \<in> {[LF], [CR, LF]}"
  shows "lines (terminated eol ls) = ls"
proof -
  obtain cr where cr: "eol = cr @ [LF]" "cr = [] \<or> cr = [CR]"
    using assms(2) by force
  then have "LF \<notin> set cr" by auto
  with cr(1) assms(1) have split: "split_on LF (terminated eol ls) = map (\<lambda>l. l @ cr) ls @ [[]]"
    using split_on_terminated [of ls cr] by (simp add: clean_line_def)
  from cr(2) assms(1) have "map strip_suffix_cr (map (\<lambda>l. l @ cr) ls) = ls"
    by (auto simp: map_idI)
  with split show ?thesis by (simp add: lines_def)
qed

lemma split_on_append_sep: "split_on c (x @ c # y) = split_on c x @ split_on c y"
proof (induction x)
  case (Cons d x)
  then show ?case by (cases "split_on c x") auto
qed simp

lemma split_on_snoc:
  "d \<noteq> c \<Longrightarrow> split_on c (a @ [d]) = butlast (split_on c a) @ [last (split_on c a) @ [d]]"
proof (induction a)
  case (Cons e a)
  then show ?case by (cases "split_on c a") auto
qed simp

lemma contains_crlf_terminated:
  assumes "\<forall>l \<in> set ls. clean_line l" and "eol \<in> {[LF], [CR, LF]}" and "ls \<noteq> []"
  shows "contains (terminated eol ls) [CR, LF] \<longleftrightarrow> eol = [CR, LF]"
proof
  assume "contains (terminated eol ls) [CR, LF]"
  then obtain a b where ab: "terminated eol ls = (a @ [CR]) @ LF # b"
    unfolding contains_iff by auto
  show "eol = [CR, LF]"
  proof (rule ccontr)
    assume "eol \<noteq> [CR, LF]"
    with assms(2) have "eol = [] @ [LF]" by simp
    then have "ls @ [[]] = split_on LF (a @ [CR]) @ split_on LF b"
      using split_on_terminated [of ls "[]"] assms(1) ab split_on_append_sep [of LF "a @ [CR]" b]
      by (simp add: clean_line_def)
    then have "last (split_on LF (a @ [CR])) \<in> set (ls @ [[]])"
      by (metis UnCI last_in_set set_append split_on_not_Nil)
    with assms(1) show False
      by (auto simp: split_on_snoc clean_line_def)
  qed
next
  assume "eol = [CR, LF]"
  with assms(3) show "contains (terminated eol ls) [CR, LF]"
    unfolding contains_iff by (cases ls) auto
qed

lemma ends_with_terminated:
  "ls \<noteq> [] \<Longrightarrow> eol \<in> {[LF], [CR, LF]} \<Longrightarrow> ends_with (terminated eol ls) [LF]"
  unfolding ends_with_iff by (cases ls rule: rev_cases) (auto simp: terminated_def)

lemma join_terminated: "ls \<noteq> [] \<Longrightarrow> join eol ls @ eol = terminated eol ls"
  by (induction eol ls rule: join.induct) simp_all

lemma join_eq_Nil: "eol \<noteq> [] \<Longrightarrow> join eol ls = [] \<longleftrightarrow> ls = [] \<or> ls = [[]]"
  by (cases "(eol, ls)" rule: join.cases) auto

definition trim_end_cr :: "string \<Rightarrow> string" where
  "trim_end_cr s = rev (dropWhile (\<lambda>c. c = CR) (rev s))"

lemma clean_line_trim_cr [simp]: "clean_line l \<Longrightarrow> trim_end_cr l = l"
  by (cases l rule: rev_cases) (auto simp: clean_line_def trim_end_cr_def)

lemma clean_line_Cons [simp]: "clean_line (c # s) \<longleftrightarrow> c \<noteq> LF \<and> (s = [] \<longrightarrow> c \<noteq> CR) \<and> clean_line s"
  by (auto simp: clean_line_def)

lemma trim_end_cr_snoc [simp]: "trim_end_cr (l @ [CR]) = trim_end_cr l"
  by (simp add: trim_end_cr_def)

lemma split_terminator_terminated:
  assumes "\<forall>l \<in> set ls. clean_line l" and "eol \<in> {[LF], [CR, LF]}"
  shows "map trim_end_cr (split_terminator LF (terminated eol ls)) = ls"
proof -
  obtain cr where cr: "eol = cr @ [LF]" "cr = [] \<or> cr = [CR]"
    using assms(2) by force
  then have "LF \<notin> set cr" by auto
  with cr(1) assms(1) have "split_terminator LF (terminated eol ls) = map (\<lambda>l. l @ cr) ls"
    using split_on_terminated [of ls cr] by (simp add: clean_line_def split_terminator_def)
  with cr(2) assms(1) show ?thesis
    by (auto simp: map_idI)
qed

section \<open>Digits\<close>

lemma digits_value_exact:
  "\<forall>c \<in> set d. is_ascii_digit c \<Longrightarrow> foldl (\<lambda>a c. a * 10 + (code c - 48)) acc d \<le> u64_max \<Longrightarrow>
   digits_value acc d = Some (foldl (\<lambda>a c. a * 10 + (code c - 48)) acc d)"
proof (induction d arbitrary: acc)
  case (Cons c d)
  have mono: "b \<le> foldl (\<lambda>a c. a * 10 + (code c - 48)) b e" for b and e :: string
  proof (induction e arbitrary: b)
    case (Cons x e)
    then show ?case
      using order_trans [OF _ Cons [of "b * 10 + (code x - 48)"], of b] by simp
  qed simp
  from Cons.prems(2) have "acc * 10 + (code c - 48) \<le> u64_max"
    using mono [of "acc * 10 + (code c - 48)" d] by simp
  with Cons show ?case by simp
qed simp

lemma ws_len_printable [simp]:
  assumes "33 \<le> code c" "code c < 128"
  shows "ws_len (c # s) = 0"
  using assms by (auto simp: ws_len_def split: list.splits)

lemma is_ascii_digit_code: "is_ascii_digit c \<longleftrightarrow> 48 \<le> code c \<and> code c \<le> 57"
  by (simp add: is_ascii_digit_def less_eq_char_def code_def)

lemma split_ws_word:
  "\<forall>c \<in> set d. 33 \<le> code c \<and> code c < 128 \<Longrightarrow>
   split_ws acc (d @ s) = split_ws (rev d @ acc) s"
proof (induction d arbitrary: acc)
  case (Cons c d)
  then show ?case by (subst split_ws.simps) simp
qed simp

lemma split_ws_flush:
  "acc \<noteq> [] \<Longrightarrow> split_ws acc (CHR '' '' # s) = rev acc # split_ws [] s"
  by (subst split_ws.simps) (simp add: ws_len_def code_def)

lemma split_whitespace_word:
  "d \<noteq> [] \<Longrightarrow> \<forall>c \<in> set d. 33 \<le> code c \<and> code c < 128 \<Longrightarrow>
   split_whitespace (d @ CHR '' '' # s) = d # split_whitespace s"
  by (simp add: split_whitespace_def split_ws_word split_ws_flush)


section \<open>Characters\<close>

text \<open>\<open>str::chars\<close>, each character as its bytes: a byte that is not a continuation byte starts one.\<close>

definition is_continuation :: "char \<Rightarrow> bool" where
  "is_continuation c = (128 \<le> code c \<and> code c < 192)"

function chars_of :: "string \<Rightarrow> string list" where
  "chars_of [] = []"
| "chars_of (c # cs) = (c # takeWhile is_continuation cs) # chars_of (dropWhile is_continuation cs)"
  by pat_completeness auto
termination
  by (relation "measure length") (auto simp: le_imp_less_Suc length_dropWhile_le)

lemma concat_chars_of [simp]: "concat (chars_of s) = s"
  by (induction s rule: chars_of.induct) simp_all

lemma split_run:
  "\<forall>x \<in> set a. P x \<Longrightarrow> b = [] \<or> \<not> P (hd b) \<Longrightarrow>
   takeWhile P (a @ b) = a \<and> dropWhile P (a @ b) = b"
  by (induction a) (cases b; simp)+

lemma chars_of_take:
  "chars_of (concat (take n (chars_of s))) = take n (chars_of s)"
proof (induction s arbitrary: n rule: chars_of.induct)
  case (2 c cs)
  show ?case
  proof (cases n)
    case (Suc m)
    let ?r = "concat (take m (chars_of (dropWhile is_continuation cs)))"
    have hd: "?r = [] \<or> \<not> is_continuation (hd ?r)"
    proof (cases "dropWhile is_continuation cs")
      case (Cons d ds)
      then have "\<not> is_continuation d" by (metis hd_dropWhile list.distinct(1) list.sel(1))
      with Cons show ?thesis by (cases m) auto
    next
      case Nil
      show ?thesis unfolding Nil by simp
    qed
    have all: "\<forall>x \<in> set (takeWhile is_continuation cs). is_continuation x"
      using set_takeWhileD by fast
    have "takeWhile is_continuation (takeWhile is_continuation cs @ ?r) = takeWhile is_continuation cs"
      "dropWhile is_continuation (takeWhile is_continuation cs @ ?r) = ?r"
      using split_run [OF all hd] by simp_all
    with Suc 2 [of m] show ?thesis by simp
  qed simp
qed simp

end
