(* ===== verification/Json.thy ===== *)
theory Json
  imports Rust_Str
begin

text \<open>
  The \<open>serde_json::Value\<close> type and the accessors the sources use on it, and the compact
  text \<open>serde_json\<close> writes for strings and unsigned integers.  An object is the list of its
  members; \<open>get\<close> finds the first one with the key.  A number that is not an integer is
  kept as its text, since the components only ask whether it is an unsigned integer.
\<close>

section \<open>Values\<close>

datatype json =
    JNull
  | JBool bool
  | JInt int
  | JFloat string
  | JStr string
  | JArr "json list"
  | JObj "(string \<times> json) list"

definition jget :: "json \<Rightarrow> string \<Rightarrow> json option" where
  "jget v k = (case v of JObj kvs \<Rightarrow> map_of kvs k | _ \<Rightarrow> None)"

definition as_str :: "json \<Rightarrow> string option" where
  "as_str v = (case v of JStr s \<Rightarrow> Some s | _ \<Rightarrow> None)"

definition as_bool :: "json \<Rightarrow> bool option" where
  "as_bool v = (case v of JBool b \<Rightarrow> Some b | _ \<Rightarrow> None)"

definition as_u64 :: "json \<Rightarrow> nat option" where
  "as_u64 v = (case v of JInt i \<Rightarrow> if 0 \<le> i \<and> i \<le> int u64_max then Some (nat i) else None
                       | _ \<Rightarrow> None)"

definition as_array :: "json \<Rightarrow> json list option" where
  "as_array v = (case v of JArr xs \<Rightarrow> Some xs | _ \<Rightarrow> None)"

definition as_object :: "json \<Rightarrow> (string \<times> json) list option" where
  "as_object v = (case v of JObj kvs \<Rightarrow> Some kvs | _ \<Rightarrow> None)"

text \<open>\<open>v.get(k).and_then(Value::as_str)\<close> and its companions.\<close>

definition get_str :: "json \<Rightarrow> string \<Rightarrow> string option" where
  "get_str v k = Option.bind (jget v k) as_str"

definition get_u64 :: "json \<Rightarrow> string \<Rightarrow> nat option" where
  "get_u64 v k = Option.bind (jget v k) as_u64"

definition get_bool :: "json \<Rightarrow> string \<Rightarrow> bool option" where
  "get_bool v k = Option.bind (jget v k) as_bool"

definition get_array :: "json \<Rightarrow> string \<Rightarrow> json list option" where
  "get_array v k = Option.bind (jget v k) as_array"

definition obj_remove :: "string \<Rightarrow> (string \<times> json) list \<Rightarrow> (string \<times> json) list" where
  "obj_remove k kvs = filter (\<lambda>(k', _). k' \<noteq> k) kvs"

definition obj_insert :: "string \<Rightarrow> json \<Rightarrow> (string \<times> json) list \<Rightarrow> (string \<times> json) list" where
  "obj_insert k v kvs = (k, v) # obj_remove k kvs"

lemma map_of_obj_remove [simp]:
  "map_of (obj_remove k kvs) k' = (if k' = k then None else map_of kvs k')"
  by (induction kvs) (auto simp: obj_remove_def)

lemma map_of_obj_insert [simp]:
  "map_of (obj_insert k v kvs) k' = (if k' = k then Some v else map_of kvs k')"
  by (simp add: obj_insert_def)

section \<open>Compact text of strings and numbers\<close>

definition hex_digit :: "nat \<Rightarrow> char" where
  "hex_digit n = (if n < 10 then char_of (48 + n) else char_of (87 + n))"

text \<open>\<open>serde_json\<close> escapes the quote, the backslash and the bytes below \<open>0x20\<close>.\<close>

definition esc_byte :: "char \<Rightarrow> string" where
  "esc_byte c =
     (if c = CHR 0x22 then [CHR 0x5C, CHR 0x22]
      else if c = CHR 0x5C then [CHR 0x5C, CHR 0x5C]
      else if c = CHR 0x08 then [CHR 0x5C, CHR ''b'']
      else if c = CHR 0x09 then [CHR 0x5C, CHR ''t'']
      else if c = CHR 0x0A then [CHR 0x5C, CHR ''n'']
      else if c = CHR 0x0C then [CHR 0x5C, CHR ''f'']
      else if c = CHR 0x0D then [CHR 0x5C, CHR ''r'']
      else if code c < 32 then
        [CHR 0x5C, CHR ''u'', CHR ''0'', CHR ''0'', hex_digit (code c div 16), hex_digit (code c mod 16)]
      else [c])"

definition json_string :: "string \<Rightarrow> string" where
  "json_string s = CHR 0x22 # concat (map esc_byte s) @ [CHR 0x22]"

fun decimal :: "nat \<Rightarrow> string" where
  "decimal n = (if n < 10 then [char_of (48 + n)] else decimal (n div 10) @ [char_of (48 + n mod 10)])"

declare decimal.simps [simp del]

section \<open>Self-delimiting encodings\<close>

text \<open>
  An encoding is self-delimiting when whatever follows it cannot change how it reads.  The
  binding of the signing payloads rests on this for their variable parts.
\<close>

locale self_delimiting =
  fixes enc :: "'a \<Rightarrow> string"
  assumes delim: "enc a @ x = enc b @ y \<Longrightarrow> a = b \<and> x = y"
begin

lemma enc_inj: "enc a = enc b \<Longrightarrow> a = b"
  using delim [of a "[]" b "[]"] by simp

lemma append_eq_iff: "enc a @ x = enc b @ y \<longleftrightarrow> a = b \<and> x = y"
  using delim by blast

lemma concat_map_inj: "length as = length bs \<Longrightarrow> concat (map enc as) @ x = concat (map enc bs) @ y
    \<Longrightarrow> as = bs \<and> x = y"
  by (induction as bs rule: list_induct2) (auto dest: delim)

end

text \<open>Reading one escaped byte back.\<close>

definition hex_value :: "char \<Rightarrow> nat" where
  "hex_value c = (if code c < 58 then code c - 48 else code c - 87)"

definition read_esc :: "string \<Rightarrow> char \<times> string" where
  "read_esc s =
     (if hd s = CHR 0x5C then
        (let d = s ! 1 in
         if d = CHR ''b'' then (CHR 0x08, drop 2 s)
         else if d = CHR ''t'' then (CHR 0x09, drop 2 s)
         else if d = CHR ''n'' then (CHR 0x0A, drop 2 s)
         else if d = CHR ''f'' then (CHR 0x0C, drop 2 s)
         else if d = CHR ''r'' then (CHR 0x0D, drop 2 s)
         else if d = CHR ''u'' then (char_of (16 * hex_value (s ! 4) + hex_value (s ! 5)), drop 6 s)
         else (d, drop 2 s))
      else (hd s, tl s))"

lemma hex_value_digit: "n < 16 \<Longrightarrow> hex_value (hex_digit n) = n"
  by (auto simp: hex_value_def hex_digit_def code_def of_char_of)

lemma code_lt_256: "code c < 256"
  unfolding code_def by simp

lemma char_of_code [simp]: "char_of (code c) = c"
  by (simp add: code_def)

lemma read_esc_esc [simp]: "read_esc (esc_byte c @ x) = (c, x)"
proof -
  have "16 * (code c div 16) + code c mod 16 = code c" by simp
  moreover have "code c < 32 \<Longrightarrow> code c div 16 < 16 \<and> code c mod 16 < 16" by auto
  ultimately show ?thesis
    by (auto simp: read_esc_def esc_byte_def Let_def hex_value_digit)
qed

lemma esc_byte_quote [simp]: "esc_byte c \<noteq> CHR 0x22 # r" "CHR 0x22 # r \<noteq> esc_byte c"
  by (auto simp: esc_byte_def split: if_splits)

lemma esc_byte_not_Nil [simp]: "esc_byte c \<noteq> []"
  by (simp add: esc_byte_def)

lemma esc_bytes_delim:
  "concat (map esc_byte a) @ CHR 0x22 # x = concat (map esc_byte b) @ CHR 0x22 # y \<Longrightarrow> a = b \<and> x = y"
proof (induction a arbitrary: b)
  case Nil
  then show ?case
    by (cases b) (auto simp: Cons_eq_append_conv)
next
  case (Cons c a)
  show ?case
  proof (cases b)
    case Nil
    with Cons.prems show ?thesis
      by (auto simp: append_eq_Cons_conv)
  next
    case (Cons d b')
    let ?u = "concat (map esc_byte a) @ CHR 0x22 # x"
    let ?v = "concat (map esc_byte b') @ CHR 0x22 # y"
    from Cons.prems Cons have "read_esc (esc_byte c @ ?u) = read_esc (esc_byte d @ ?v)"
      by simp
    then have "c = d" and "?u = ?v" by simp_all
    with Cons.IH [of b'] Cons show ?thesis by simp
  qed
qed

interpretation jstr: self_delimiting json_string
  by unfold_locales (auto simp: json_string_def dest: esc_bytes_delim)

text \<open>Reading a decimal number back.\<close>

definition value_of :: "string \<Rightarrow> nat" where
  "value_of s = foldl (\<lambda>a c. a * 10 + (code c - 48)) 0 s"

lemma value_of_decimal [simp]: "value_of (decimal n) = n"
proof (induction n rule: decimal.induct)
  case (1 n)
  have d: "m < 10 \<Longrightarrow> code (char_of (48 + m)) - 48 = m" for m
    by (simp add: code_def of_char_of)
  show ?case
  proof (cases "n < 10")
    case True
    then show ?thesis by (subst decimal.simps) (simp add: value_of_def d)
  next
    case False
    with 1 have "value_of (decimal (n div 10)) = n div 10" by simp
    with False show ?thesis by (subst decimal.simps) (simp add: value_of_def d)
  qed
qed

lemma decimal_digits: "c \<in> set (decimal n) \<Longrightarrow> is_ascii_digit c"
proof (induction n rule: decimal.induct)
  case (1 n)
  have d: "m < 10 \<Longrightarrow> is_ascii_digit (char_of (48 + m))" for m :: nat
    by (simp add: is_ascii_digit_def less_eq_char_def of_char_of)
  show ?case
    using 1 by (cases "n < 10") (auto simp: decimal.simps [of n] d split: if_splits)
qed

lemma decimal_not_Nil [simp]: "decimal n \<noteq> []"
  by (subst decimal.simps) simp

lemma parse_usize_decimal:
  assumes "n \<le> u64_max"
  shows "parse_usize (decimal n) = Some n"
proof -
  have digits: "\<forall>c \<in> set (decimal n). is_ascii_digit c"
    using decimal_digits by blast
  obtain c cs where d: "decimal n = c # cs" by (cases "decimal n") auto
  with digits have "c \<noteq> CHR ''+''" by (auto simp: is_ascii_digit_code code_def)
  moreover have "digits_value 0 (decimal n) = Some n"
    using digits_value_exact [OF digits, of 0] value_of_decimal [of n] assms
    by (simp add: value_of_def)
  ultimately show ?thesis using d by (simp add: parse_usize_def)
qed

text \<open>A number is delimited by the byte after it, a comma or a closing brace.\<close>

lemma digits_then_sep:
  "\<not> is_ascii_digit k \<Longrightarrow>
   \<forall>c \<in> set a. is_ascii_digit c \<Longrightarrow> \<forall>c \<in> set b. is_ascii_digit c \<Longrightarrow>
   a @ k # x = b @ k # y \<Longrightarrow> a = b \<and> x = y"
proof (induction a arbitrary: b)
  case Nil
  then show ?case by (cases b) auto
next
  case (Cons c a)
  then show ?case by (cases b) auto
qed

lemma decimal_delim:
  "\<not> is_ascii_digit k \<Longrightarrow> decimal a @ k # x = decimal b @ k # y \<longleftrightarrow> a = b \<and> x = y"
  using digits_then_sep [of k "decimal a" "decimal b" x y] decimal_digits value_of_decimal
  by metis

definition number_then :: "char \<Rightarrow> nat \<Rightarrow> string" where
  "number_then k n = decimal n @ [k]"

interpretation jnum: self_delimiting "number_then CHR '',''"
  by unfold_locales (simp add: number_then_def decimal_delim is_ascii_digit_def)

interpretation jend: self_delimiting "number_then CHR ''}''"
  by unfold_locales (simp add: number_then_def decimal_delim is_ascii_digit_def)

section \<open>Structs\<close>

text \<open>
  What a derived \<open>Serialize\<close> writes for a struct: its fields in declaration order, each
  with the text of its value.
\<close>

definition json_member :: "string \<times> string \<Rightarrow> string" where
  "json_member kv = json_string (fst kv) @ '':'' @ snd kv"

definition json_struct :: "(string \<times> string) list \<Rightarrow> string" where
  "json_struct kvs = ''{'' @ join '','' (map json_member kvs) @ ''}''"

definition json_opt_field :: "string \<Rightarrow> string option \<Rightarrow> (string \<times> string) list" where
  "json_opt_field k v = (case v of None \<Rightarrow> [] | Some s \<Rightarrow> [(k, json_string s)])"

text \<open>Rewriting an equation of two structs field by field.\<close>

lemma struct_eqs:
  "json_string a @ x = json_string b @ y \<longleftrightarrow> a = b \<and> x = y"
  "decimal m @ CHR '','' # x = decimal n @ CHR '','' # y \<longleftrightarrow> m = n \<and> x = y"
  "decimal m @ CHR ''}'' # x = decimal n @ CHR ''}'' # y \<longleftrightarrow> m = n \<and> x = y"
  "json_string a = json_string b \<longleftrightarrow> a = b"
  "decimal m = decimal n \<longleftrightarrow> m = n"
  using jstr.append_eq_iff jnum.append_eq_iff [of m x n y] jend.append_eq_iff [of m x n y]
  by (auto simp: number_then_def dest: jstr.enc_inj arg_cong [of _ _ value_of])

lemma string_end_eqs:
  "json_string a = json_string b @ z \<longleftrightarrow> a = b \<and> z = []"
  "json_string b @ z = json_string a \<longleftrightarrow> a = b \<and> z = []"
  using jstr.append_eq_iff [of a "[]" b z] by auto

lemma unat_eqs: "unat v = unat w \<longleftrightarrow> v = (w :: 'w::len word)"
  by (simp flip: word_unat_eq_iff)

lemmas struct_unfold = json_struct_def json_member_def

end
