(* ===== verification/Operations.thy ===== *)
theory Operations
  imports Prelude
begin

text \<open>
  Operations on a state that may fail: on an error the state reached so far is kept, which is what
  \<open>?\<close> does in a function that has written already.
\<close>

type_synonym ('s, 'e, 'a) op = "'s \<Rightarrow> ('e + 'a) \<times> 's"

definition op_return :: "'a \<Rightarrow> ('s, 'e, 'a) op" where
  "op_return x = (\<lambda>st. (Inr x, st))"

definition op_fail :: "'e \<Rightarrow> ('s, 'e, 'a) op" where
  "op_fail e = (\<lambda>st. (Inl e, st))"

definition op_bind :: "('s, 'e, 'a) op \<Rightarrow> ('a \<Rightarrow> ('s, 'e, 'b) op) \<Rightarrow> ('s, 'e, 'b) op" where
  "op_bind m f = (\<lambda>st. case m st of (Inl e, st') \<Rightarrow> (Inl e, st') | (Inr x, st') \<Rightarrow> f x st')"

definition op_reads :: "('s \<Rightarrow> 'e + 'a) \<Rightarrow> ('s, 'e, 'a) op" where
  "op_reads f = (\<lambda>st. (f st, st))"

definition op_check :: "bool \<Rightarrow> 'e \<Rightarrow> ('s, 'e, unit) op" where
  "op_check b e = (if b then op_return () else op_fail e)"

text \<open>A pure step, the result of an operation as a value, and another error for it.\<close>

definition op_lift :: "'e + 'a \<Rightarrow> ('s, 'e, 'a) op" where
  "op_lift r = (\<lambda>st. (r, st))"

definition op_try :: "('s, 'e, 'a) op \<Rightarrow> ('s, 'f, 'e + 'a) op" where
  "op_try m = (\<lambda>st. case m st of (r, st') \<Rightarrow> (Inr r, st'))"

definition op_map_err :: "('e \<Rightarrow> 'f) \<Rightarrow> ('s, 'e, 'a) op \<Rightarrow> ('s, 'f, 'a) op" where
  "op_map_err f m = (\<lambda>st. case m st of (r, st') \<Rightarrow> (map_sum f id r, st'))"

fun op_for :: "('x \<Rightarrow> 'a \<Rightarrow> ('s, 'e, 'a) op) \<Rightarrow> 'x list \<Rightarrow> 'a \<Rightarrow> ('s, 'e, 'a) op" where
  "op_for body [] acc = op_return acc"
| "op_for body (x # xs) acc = op_bind (body x acc) (op_for body xs)"

text \<open>Evaluating a sequence of operations, one at a time.\<close>

lemma op_bind_Inr: "m st = (Inr x, st') \<Longrightarrow> op_bind m f st = f x st'"
  by (simp add: op_bind_def)

lemma op_bind_cases:
  assumes "op_bind m f d = (r, d')"
  obtains e where "m d = (Inl e, d')" "r = Inl e"
  | x d1 where "m d = (Inr x, d1)" "f x d1 = (r, d')"
  using assms by (auto simp: op_bind_def split: prod.split_asm sum.split_asm)

lemma op_bind_Inl: "m st = (Inl e, st') \<Longrightarrow> op_bind m f st = (Inl e, st')"
  by (simp add: op_bind_def)

lemma op_bind_reads:
  "op_bind (op_reads g) f st = (case g st of Inl e \<Rightarrow> (Inl e, st) | Inr x \<Rightarrow> f x st)"
  by (simp add: op_bind_def op_reads_def)

lemma op_bind_return: "op_bind (op_return x) f = f x"
  by (simp add: op_bind_def op_return_def)

lemma op_bind_fail: "op_bind (op_fail e) f = op_fail e"
  by (simp add: op_bind_def op_fail_def)

lemma op_bind_check: "op_bind (op_check b e) f = (if b then f () else op_fail e)"
  by (simp add: op_check_def op_bind_return op_bind_fail)

lemma op_bind_assoc: "op_bind (op_bind m f) g = op_bind m (\<lambda>x. op_bind (f x) g)"
  by (intro ext) (simp add: op_bind_def split: prod.split sum.split)

lemma op_bind_case_prod:
  "op_bind (case p of (x, y) \<Rightarrow> g x y) f = (case p of (x, y) \<Rightarrow> op_bind (g x y) f)"
  by (simp split: prod.split)

lemmas op_evals = op_bind_Inr op_bind_Inl op_bind_reads op_bind_return op_bind_fail op_bind_check
  op_return_def op_fail_def op_reads_def Let_def

text \<open>
  \<open>runs P m Q\<close>: started where \<open>P\<close> holds, \<open>m\<close> ends where \<open>Q\<close> holds of its result, an error
  included.
\<close>

definition runs ::
    "('s \<Rightarrow> bool) \<Rightarrow> ('s, 'e, 'a) op \<Rightarrow> ('e + 'a \<Rightarrow> 's \<Rightarrow> bool) \<Rightarrow> bool" where
  "runs P m Q = (\<forall>st. P st \<longrightarrow> (case m st of (r, st') \<Rightarrow> Q r st'))"

lemma runsI: "(\<And>st r st'. P st \<Longrightarrow> m st = (r, st') \<Longrightarrow> Q r st') \<Longrightarrow> runs P m Q"
  by (auto simp: runs_def split: prod.split)

lemma runsD: "runs P m Q \<Longrightarrow> P st \<Longrightarrow> m st = (r, st') \<Longrightarrow> Q r st'"
  by (fastforce simp: runs_def)

lemma runs_pre: "runs P m Q \<Longrightarrow> (\<And>st. P' st \<Longrightarrow> P st) \<Longrightarrow> runs P' m Q"
  by (auto simp: runs_def)

lemma runs_post: "runs P m Q \<Longrightarrow> (\<And>r st. Q r st \<Longrightarrow> Q' r st) \<Longrightarrow> runs P m Q'"
  by (fastforce simp: runs_def)

lemma runs_bind:
  assumes "runs P m (\<lambda>r st. case r of Inl e \<Rightarrow> Q (Inl e) st | Inr x \<Rightarrow> M x st)"
    and "\<And>x. runs (M x) (f x) Q"
  shows "runs P (op_bind m f) Q"
  using assms by (fastforce simp: runs_def op_bind_def split: prod.splits sum.splits)

lemma runs_return: "runs (Q (Inr x)) (op_return x) Q"
  by (simp add: runs_def op_return_def)

lemma runs_fail: "runs (Q (Inl e)) (op_fail e) Q"
  by (simp add: runs_def op_fail_def)

lemma runs_reads: "runs (\<lambda>st. Q (f st) st) (op_reads f) Q"
  by (simp add: runs_def op_reads_def)

lemma runs_check: "runs (\<lambda>st. if b then Q (Inr ()) st else Q (Inl e) st) (op_check b e) Q"
  by (simp add: runs_def op_check_def op_return_def op_fail_def)

text \<open>An operation that only reads.\<close>

definition read_only :: "('s, 'e, 'a) op \<Rightarrow> bool" where
  "read_only m = (\<forall>st. snd (m st) = st)"

lemma read_only [intro, simp]:
  "read_only (op_return x)" "read_only (op_fail e)" "read_only (op_reads f)" "read_only (op_check b e)"
  by (simp_all add: read_only_def op_return_def op_fail_def op_reads_def op_check_def)

lemma read_only_bind: "read_only m \<Longrightarrow> (\<And>x. read_only (f x)) \<Longrightarrow> read_only (op_bind m f)"
  by (auto simp: read_only_def op_bind_def split: prod.split sum.split) (metis snd_conv)+

end
