(* ===== verification/Harness_Model.thy ===== *)
theory Harness_Model
  imports Json Operations "HOL-Library.List_Lexorder" "HOL-Library.Char_ord"
begin

text \<open>
  Tasks of the workspace harness: the data of \<open>harness/model.rs\<close> and the store of
  \<open>harness/store.rs\<close>.  The store is the directory of one workspace: a file per task, the state
  file with its list of active tasks, event and operation logs, change sets, and the modification
  times the code compares; \<open>hs_outcomes\<close> is the queue of task outcomes.  An operation
  (\<open>Operations\<close>) leaves what it wrote before failing behind; \<open>io_left\<close> is the number of writes that
  still succeed (\<open>None\<close>: all of them), so an interrupted operation is part of the model.
\<close>

section \<open>Data\<close>

datatype TaskStatus =
    Active | Paused | Verifying | Failed | FailedFinal | Completed | CompletedUnverified | RolledBack

definition is_writable :: "TaskStatus \<Rightarrow> bool" where
  "is_writable s = (s \<in> {Active, Paused, Verifying, Failed})"

definition occupies_current_task_slot :: "TaskStatus \<Rightarrow> bool" where
  "occupies_current_task_slot s = (s \<in> {Active, Verifying, Failed})"

definition can_transition_to :: "TaskStatus \<Rightarrow> TaskStatus \<Rightarrow> bool" where
  "can_transition_to s next_status =
     (case s of
        Active \<Rightarrow> next_status \<in> {Paused, Verifying, Failed, CompletedUnverified}
      | Paused \<Rightarrow> next_status = Active
      | Verifying \<Rightarrow> next_status \<in> {Completed, CompletedUnverified, Failed}
      | Failed \<Rightarrow> next_status \<in> {Active, FailedFinal, RolledBack}
      | _ \<Rightarrow> False)"

fun status_json :: "TaskStatus \<Rightarrow> string" where
  "status_json Active = ''active''"
| "status_json Paused = ''paused''"
| "status_json Verifying = ''verifying''"
| "status_json Failed = ''failed''"
| "status_json FailedFinal = ''failed_final''"
| "status_json Completed = ''completed''"
| "status_json CompletedUnverified = ''completed_unverified''"
| "status_json RolledBack = ''rolled_back''"

type_synonym path = "string list"

record BaselineEntry =
  be_path :: string
  be_exists :: bool
  be_is_binary :: bool
  be_sha256 :: string
  be_bytes :: nat

record ProjectBaseline =
  pb_branch :: "string option"
  pb_head :: "string option"
  pb_worktree_fingerprint :: string
  pb_entries :: "BaselineEntry list"
  pb_captured_at :: string

record TaskSession =
  ts_id :: string
  ts_workspace_id :: string
  ts_scope_id :: "string option"
  ts_scope_root :: "path option"
  ts_objective :: string
  ts_status :: TaskStatus
  ts_baseline :: ProjectBaseline
  ts_expected_fingerprint :: string
  ts_completed_steps :: "string list"
  ts_pending_steps :: "string list"
  ts_latest_change_id :: "string option"
  ts_latest_verification_id :: "string option"
  ts_created_at :: string
  ts_updated_at :: string

record ReasonRecord =
  rr_text :: string
  rr_source :: string

record FileChangeRecord =
  fc_path :: string
  fc_status :: string
  fc_before_sha256 :: "string option"
  fc_after_sha256 :: "string option"

record HarnessEvent =
  he_id :: string
  he_task_id :: string
  he_operation_id :: string
  he_kind :: string
  he_tool_name :: "string option"
  he_input_summary :: json
  he_result_summary :: json
  he_reason :: "ReasonRecord option"
  he_affected_files :: "FileChangeRecord list"
  he_created_at :: string

record OperationRecord =
  op_id :: string
  op_workspace_id :: string
  op_task_id :: "string option"
  op_tool :: string
  op_kind :: string
  op_input_summary :: json
  op_result_summary :: json
  op_reason :: "string option"
  op_affected_files :: "FileChangeRecord list"
  op_created_at :: string

record ChangeSet =
  cs_id :: string
  cs_task_id :: string
  cs_objective :: string
  cs_reason :: ReasonRecord
  cs_files :: "FileChangeRecord list"
  cs_command_ids :: "string list"
  cs_verification_ids :: "string list"
  cs_risks :: "string list"
  cs_created_at :: string

record WorkspaceHarnessState =
  wh_schema_version :: nat
  wh_active_task_id :: "string option"
  wh_active_task_ids :: "(string \<times> string) list option"
  wh_recent_task_ids :: "string list"
  wh_updated_at :: string

definition SCHEMA_VERSION :: nat where "SCHEMA_VERSION = 1"

text \<open>How a task ended, for the knowledge base (\<open>knowledge/model.rs\<close>).\<close>

datatype KnowledgeTaskOutcome = VerifiedSuccess | UnverifiedSuccess | Failure | OutcomeRolledBack

section \<open>The store\<close>

datatype harness_error =
    InvalidArgument string
  | TaskAlreadyActive string
  | InvalidTaskTransition TaskStatus TaskStatus
  | ChangeNotFound string
  | ChangeTaskMismatch
  | TaskStateRequired
  | RollbackNotVerified
  | BaselineStale
  | FileChangedExternally
  | StoreIoFailed

record HarnessStore =
  hs_tasks :: "(string \<times> TaskSession) list"
  hs_state :: "WorkspaceHarnessState option"
  hs_events :: "(string \<times> HarnessEvent list) list"
  hs_changes :: "(string \<times> ChangeSet) list"
  hs_operations :: "OperationRecord list"
  hs_outcomes :: "(string \<times> KnowledgeTaskOutcome) list"
  state_modified :: "nat option"
  tasks_modified :: "nat option"
  clock :: nat
  tick :: nat
  io_left :: "nat option"

text \<open>Operations on the store, and \<open>?\<close> on them.\<close>

type_synonym 'a harness_op = "HarnessStore \<Rightarrow> (harness_error + 'a) \<times> HarnessStore"

text \<open>A write that may fail; the clock advances by \<open>tick\<close> with each one.\<close>

definition op_write :: "(HarnessStore \<Rightarrow> HarnessStore) \<Rightarrow> unit harness_op" where
  "op_write f = (\<lambda>st.
     if io_left st = Some 0 then (Inl StoreIoFailed, st)
     else (Inr (), f (st\<lparr>clock := clock st + tick st,
                         io_left := map_option (\<lambda>n. n - 1) (io_left st)\<rparr>)))"

definition save_task :: "TaskSession \<Rightarrow> unit harness_op" where
  "save_task t = op_write (\<lambda>st. st\<lparr>hs_tasks := al_put (ts_id t) t (hs_tasks st),
                                     tasks_modified := Some (clock st)\<rparr>)"

definition load_task :: "string \<Rightarrow> TaskSession harness_op" where
  "load_task task_id = op_reads (\<lambda>st.
     case map_of (hs_tasks st) task_id of Some t \<Rightarrow> Inr t | None \<Rightarrow> Inl StoreIoFailed)"

definition load_workspace_state :: "WorkspaceHarnessState option harness_op" where
  "load_workspace_state = op_reads (\<lambda>st. Inr (hs_state st))"

definition store_save_workspace_state :: "WorkspaceHarnessState \<Rightarrow> unit harness_op" where
  "store_save_workspace_state s =
     op_write (\<lambda>st. st\<lparr>hs_state := Some s, state_modified := Some (clock st)\<rparr>)"

definition workspace_state_covers_task_entries :: "HarnessStore \<Rightarrow> bool" where
  "workspace_state_covers_task_entries st =
     (case (state_modified st, tasks_modified st) of
        (Some s, Some t) \<Rightarrow> s > t
      | (Some _, None) \<Rightarrow> True
      | _ \<Rightarrow> False)"

definition save_change :: "ChangeSet \<Rightarrow> unit harness_op" where
  "save_change c = op_write (\<lambda>st. st\<lparr>hs_changes := al_put (cs_id c) c (hs_changes st)\<rparr>)"

definition load_change :: "string \<Rightarrow> ChangeSet harness_op" where
  "load_change change_id = op_reads (\<lambda>st.
     case map_of (hs_changes st) change_id of Some c \<Rightarrow> Inr c | None \<Rightarrow> Inl (ChangeNotFound change_id))"

text \<open>\<open>sort_by(|a, b| b.updated_at.cmp(&a.updated_at))\<close>: newest first, stable.\<close>

definition list_tasks :: "TaskSession list harness_op" where
  "list_tasks = op_reads (\<lambda>st. Inr (rev (sort_key ts_updated_at (rev (map snd (hs_tasks st))))))"

definition events_of :: "HarnessStore \<Rightarrow> string \<Rightarrow> HarnessEvent list" where
  "events_of st task_id = (case map_of (hs_events st) task_id of Some es \<Rightarrow> es | None \<Rightarrow> [])"

definition append_event :: "HarnessEvent \<Rightarrow> unit harness_op" where
  "append_event e = op_write (\<lambda>st.
     st\<lparr>hs_events := al_put (he_task_id e) (events_of st (he_task_id e) @ [e]) (hs_events st)\<rparr>)"

definition append_operation :: "OperationRecord \<Rightarrow> unit harness_op" where
  "append_operation e = op_write (\<lambda>st. st\<lparr>hs_operations := hs_operations st @ [e]\<rparr>)"

text \<open>\<open>enqueue_task_outcome\<close>: not a write to the store.\<close>

definition enqueue_outcome :: "string \<Rightarrow> KnowledgeTaskOutcome \<Rightarrow> unit harness_op" where
  "enqueue_outcome i outcome = (\<lambda>st. (Inr (), st\<lparr>hs_outcomes := hs_outcomes st @ [(i, outcome)]\<rparr>))"

definition page :: "nat \<Rightarrow> nat \<Rightarrow> 'a list \<Rightarrow> 'a list" where
  "page offset limit xs = take (max limit 1) (drop offset xs)"

definition list_operations :: "nat \<Rightarrow> nat \<Rightarrow> OperationRecord list harness_op" where
  "list_operations offset limit = op_reads (\<lambda>st. Inr (page offset limit (hs_operations st)))"

definition list_events :: "string \<Rightarrow> nat \<Rightarrow> nat \<Rightarrow> HarnessEvent list harness_op" where
  "list_events task_id offset limit = op_reads (\<lambda>st. Inr (page offset limit (events_of st task_id)))"

text \<open>Reading the store changes nothing.\<close>

lemma read_only_store [intro, simp]:
  "read_only (load_task i)" "read_only load_workspace_state" "read_only (load_change i)"
  "read_only list_tasks" "read_only (list_operations m n)" "read_only (list_events i m n)"
  by (simp_all add: read_only_def op_reads_def load_task_def
      load_workspace_state_def load_change_def list_tasks_def list_operations_def list_events_def)

end
