(* ===== verification/Harness_State.thy ===== *)
theory Harness_State
  imports Harness_Model
begin

text \<open>
  The operations of \<open>harness/state.rs\<close> on the task store.  A \<open>Harness\<close> value is the workspace with
  what one call sees of its environment: path resolution, the capture of a scope's files, the time
  and the identifiers it draws.  A path is the list of its components.
\<close>

section \<open>Scopes\<close>

record Harness =
  h_root :: path
  h_workspace_id :: string
  canonicalize :: "path \<Rightarrow> path option"
  path_id :: "path \<Rightarrow> string"
  capture_baseline :: "path \<Rightarrow> ProjectBaseline"
  timestamp :: string
  uuid :: "nat \<Rightarrow> string"

definition normalize_scope_root :: "Harness \<Rightarrow> path \<Rightarrow> path" where
  "normalize_scope_root h scope_root =
     (let candidate = (case canonicalize h scope_root of Some p \<Rightarrow> p | None \<Rightarrow> h_root h)
      in if candidate = h_root h \<or> prefix (h_root h) candidate then candidate else h_root h)"

definition scope_id_for_root :: "Harness \<Rightarrow> path \<Rightarrow> string" where
  "scope_id_for_root h scope_root =
     (let scope_root = normalize_scope_root h scope_root
      in if scope_root = h_root h then h_workspace_id h else path_id h scope_root)"

definition task_scope_id :: "TaskSession \<Rightarrow> string" where
  "task_scope_id t = (case ts_scope_id t of Some s \<Rightarrow> s | None \<Rightarrow> ts_workspace_id t)"

definition task_root :: "Harness \<Rightarrow> TaskSession \<Rightarrow> path" where
  "task_root h t =
     (case Option.bind (ts_scope_root t) (canonicalize h) of
        Some p \<Rightarrow> if p = h_root h \<or> prefix (h_root h) p then p else h_root h
      | None \<Rightarrow> h_root h)"

section \<open>The state file\<close>

text \<open>\<open>entry(scope).or_insert(id)\<close> for each task that occupies its slot, the newest first.\<close>

definition active_slots :: "TaskSession list \<Rightarrow> (string \<times> string) list" where
  "active_slots ts =
     foldl (\<lambda>m t. if occupies_current_task_slot (ts_status t) \<and> map_of m (task_scope_id t) = None
                  then (task_scope_id t, ts_id t) # m else m) [] ts"

definition build_workspace_state ::
    "Harness \<Rightarrow> WorkspaceHarnessState option \<Rightarrow> WorkspaceHarnessState harness_op" where
  "build_workspace_state h existing =
     op_bind list_tasks (\<lambda>ts.
       let active = active_slots ts;
           previous_active = Option.bind existing wh_active_task_id;
           kept = (case previous_active of
                     Some i \<Rightarrow> if i \<in> set (map snd active) then Some i else None
                   | None \<Rightarrow> None);
           active_task_id = (case kept of
                Some i \<Rightarrow> Some i
              | None \<Rightarrow> (case map_of active (h_workspace_id h) of
                  Some i \<Rightarrow> Some i
                | None \<Rightarrow> (case active of (_, i) # _ \<Rightarrow> Some i | [] \<Rightarrow> None)));
           previous_update = (case existing of Some s \<Rightarrow> wh_updated_at s | None \<Rightarrow> [])
       in op_return
            \<lparr>wh_schema_version = SCHEMA_VERSION, wh_active_task_id = active_task_id,
             wh_active_task_ids = Some active, wh_recent_task_ids = map ts_id (take 20 ts),
             wh_updated_at = (if previous_update \<noteq> [] then previous_update else timestamp h)\<rparr>)"

definition repair_workspace_state ::
    "Harness \<Rightarrow> WorkspaceHarnessState option \<Rightarrow> WorkspaceHarnessState harness_op" where
  "repair_workspace_state h existing =
     op_bind (build_workspace_state h existing) (\<lambda>s.
     op_bind (store_save_workspace_state s) (\<lambda>_. op_return s))"

text \<open>The state with its list of active tasks, or what \<open>other\<close> makes of a state without one.\<close>

definition state_with_slots ::
    "(WorkspaceHarnessState option \<Rightarrow> WorkspaceHarnessState harness_op) \<Rightarrow> WorkspaceHarnessState harness_op" where
  "state_with_slots other =
     op_bind load_workspace_state (\<lambda>existing.
       case existing of
         Some s \<Rightarrow> if wh_active_task_ids s \<noteq> None then op_return s else other existing
       | None \<Rightarrow> other existing)"

definition slots_of :: "WorkspaceHarnessState \<Rightarrow> (string \<times> string) list" where
  "slots_of s = (case wh_active_task_ids s of Some m \<Rightarrow> m | None \<Rightarrow> [])"

definition update_slots :: "TaskSession \<Rightarrow> (string \<times> string) list \<Rightarrow> (string \<times> string) list" where
  "update_slots t active =
     (if occupies_current_task_slot (ts_status t) then al_put (task_scope_id t) (ts_id t) active
      else if map_of active (task_scope_id t) = Some (ts_id t) then al_del (task_scope_id t) active
      else active)"

definition save_workspace_state :: "Harness \<Rightarrow> string option \<Rightarrow> TaskSession \<Rightarrow> unit harness_op" where
  "save_workspace_state h active_task_id t =
     op_bind (state_with_slots (build_workspace_state h)) (\<lambda>s.
       store_save_workspace_state
         \<lparr>wh_schema_version = SCHEMA_VERSION, wh_active_task_id = active_task_id,
          wh_active_task_ids = Some (update_slots t (slots_of s)),
          wh_recent_task_ids = take 20 (ts_id t # filter (\<lambda>i. i \<noteq> ts_id t) (wh_recent_task_ids s)),
          wh_updated_at = ts_updated_at t\<rparr>)"

section \<open>The current task\<close>

definition holds_slot :: "TaskSession \<Rightarrow> string \<Rightarrow> bool" where
  "holds_slot t scope_id \<longleftrightarrow> occupies_current_task_slot (ts_status t) \<and> task_scope_id t = scope_id"

definition current_in :: "string \<Rightarrow> WorkspaceHarnessState \<Rightarrow> TaskSession option harness_op" where
  "current_in scope_id s =
     (case map_of (slots_of s) scope_id of
        None \<Rightarrow> op_return None
      | Some task_id \<Rightarrow> op_bind (load_task task_id) (\<lambda>t.
          op_return (if holds_slot t scope_id then Some t else None)))"

definition current_task_for_scope :: "Harness \<Rightarrow> string \<Rightarrow> TaskSession option harness_op" where
  "current_task_for_scope h scope_id =
     op_bind (state_with_slots (repair_workspace_state h)) (\<lambda>s.
       let repaired = op_bind (repair_workspace_state h (Some s)) (current_in scope_id)
       in case map_of (slots_of s) scope_id of
            Some task_id \<Rightarrow>
              op_bind (op_reads (\<lambda>st. Inr (map_of (hs_tasks st) task_id))) (\<lambda>found.
                case found of
                  Some t \<Rightarrow> if holds_slot t scope_id then op_return (Some t) else repaired
                | None \<Rightarrow> repaired)
          | None \<Rightarrow>
              op_bind (op_reads (\<lambda>st. Inr (workspace_state_covers_task_entries st))) (\<lambda>covered.
                if covered then op_return None else repaired))"

definition current_task :: "Harness \<Rightarrow> TaskSession option harness_op" where
  "current_task h = current_task_for_scope h (h_workspace_id h)"

definition current_task_for_root :: "Harness \<Rightarrow> path \<Rightarrow> TaskSession option harness_op" where
  "current_task_for_root h scope_root =
     current_task_for_scope h (scope_id_for_root h (normalize_scope_root h scope_root))"

section \<open>Changes\<close>

text \<open>Collected into a \<open>HashMap\<close>, the last entry of a path counts.\<close>

definition entry_map :: "BaselineEntry list \<Rightarrow> (string \<times> BaselineEntry) list" where
  "entry_map es = rev (map (\<lambda>e. (be_path e, e)) es)"

definition file_status :: "BaselineEntry option \<Rightarrow> BaselineEntry option \<Rightarrow> string" where
  "file_status before after =
     (case (before, after) of
        (Some b, Some a) \<Rightarrow> if be_sha256 b = be_sha256 a then ''unchanged'' else ''modified''
      | (Some _, None) \<Rightarrow> ''deleted''
      | (None, Some _) \<Rightarrow> ''added''
      | (None, None) \<Rightarrow> ''unknown'')"

definition all_paths :: "BaselineEntry list \<Rightarrow> BaselineEntry list \<Rightarrow> string list" where
  "all_paths es es' = remdups (sort (map be_path es @ map be_path es'))"

definition change_records :: "ProjectBaseline \<Rightarrow> ProjectBaseline \<Rightarrow> FileChangeRecord list" where
  "change_records baseline current =
     (let baseline_map = map_of (entry_map (pb_entries baseline));
          current_map = map_of (entry_map (pb_entries current))
      in concat (map (\<lambda>p.
           let before = baseline_map p; after = current_map p; status = file_status before after
           in if status \<noteq> ''unchanged''
              then [\<lparr>fc_path = p, fc_status = status,
                     fc_before_sha256 = map_option be_sha256 before,
                     fc_after_sha256 = map_option be_sha256 after\<rparr>]
              else [])
         (all_paths (pb_entries baseline) (pb_entries current))))"

definition is_change_id :: "string \<Rightarrow> bool" where
  "is_change_id v =
     (length v = 32 \<and> list_all (\<lambda>c. is_ascii_digit c \<or> (CHR ''a'' \<le> c \<and> c \<le> CHR ''f'')) v)"

definition change :: "string \<Rightarrow> ChangeSet harness_op" where
  "change change_id =
     op_bind (op_check (is_change_id change_id) (InvalidArgument ''change_id'')) (\<lambda>_.
       load_change change_id)"

definition change_files :: "Harness \<Rightarrow> string \<Rightarrow> FileChangeRecord list harness_op" where
  "change_files h task_id =
     op_bind (load_task task_id) (\<lambda>t.
       op_return (change_records (ts_baseline t) (capture_baseline h (task_root h t))))"

section \<open>Task operations\<close>

definition record_event ::
    "Harness \<Rightarrow> nat \<Rightarrow> string \<Rightarrow> string \<Rightarrow> string option \<Rightarrow> json \<Rightarrow> json \<Rightarrow> HarnessEvent harness_op" where
  "record_event h n task_id kind tool_name input result =
     (let e = \<lparr>he_id = uuid h n, he_task_id = task_id, he_operation_id = uuid h (n + 1),
               he_kind = kind, he_tool_name = tool_name,
               he_input_summary = JObj [(''workspace_id'', JStr (h_workspace_id h)), (''payload'', input)],
               he_result_summary = result, he_reason = None, he_affected_files = [],
               he_created_at = timestamp h\<rparr>
      in op_bind (append_event e) (\<lambda>_. op_return e))"

definition ok_json :: json where "ok_json = JObj [(''ok'', JBool True)]"

definition slot_id :: "TaskSession \<Rightarrow> string option" where
  "slot_id t = (if occupies_current_task_slot (ts_status t) then Some (ts_id t) else None)"

definition new_task :: "Harness \<Rightarrow> string \<Rightarrow> path \<Rightarrow> TaskSession" where
  "new_task h objective scope_root =
     (let baseline = capture_baseline h scope_root
      in \<lparr>ts_id = uuid h 0, ts_workspace_id = h_workspace_id h,
          ts_scope_id = Some (scope_id_for_root h scope_root), ts_scope_root = Some scope_root,
          ts_objective = trim objective, ts_status = Active, ts_baseline = baseline,
          ts_expected_fingerprint = pb_worktree_fingerprint baseline,
          ts_completed_steps = [], ts_pending_steps = [],
          ts_latest_change_id = None, ts_latest_verification_id = None,
          ts_created_at = timestamp h, ts_updated_at = timestamp h\<rparr>)"

definition start_task_for :: "Harness \<Rightarrow> string \<Rightarrow> path \<Rightarrow> TaskSession harness_op" where
  "start_task_for h objective scope_root =
     op_bind (op_check (trim objective \<noteq> []) (InvalidArgument ''objective'')) (\<lambda>_.
     let scope_root = normalize_scope_root h scope_root;
         scope_id = scope_id_for_root h scope_root
     in op_bind (current_task_for_scope h scope_id) (\<lambda>current.
        case current of
          Some t \<Rightarrow> op_fail (TaskAlreadyActive (ts_id t))
        | None \<Rightarrow>
            let t = new_task h objective scope_root
            in op_bind (save_task t) (\<lambda>_.
               op_bind (save_workspace_state h (Some (ts_id t)) t) (\<lambda>_.
               op_bind (record_event h 1 (ts_id t) ''task_started'' None (JObj []) ok_json) (\<lambda>_.
               op_return t)))))"

definition finish_reason :: "TaskSession \<Rightarrow> string option \<Rightarrow> harness_error + ReasonRecord" where
  "finish_reason t summary =
     (case summary of
        Some v \<Rightarrow> if trim v = [] then Inl (InvalidArgument ''summary'')
                  else Inr \<lparr>rr_text = trim v, rr_source = ''finish_task_summary''\<rparr>
      | None \<Rightarrow> Inr \<lparr>rr_text = ts_objective t, rr_source = ''task_objective''\<rparr>)"

definition finished_event :: "Harness \<Rightarrow> TaskSession \<Rightarrow> ReasonRecord \<Rightarrow> TaskStatus \<Rightarrow> HarnessEvent" where
  "finished_event h t reason next_status =
     \<lparr>he_id = uuid h 1, he_task_id = ts_id t, he_operation_id = uuid h 2,
      he_kind = ''task_finished'', he_tool_name = None,
      he_input_summary = JObj [(''workspace_id'', JStr (h_workspace_id h)),
        (''payload'', JObj [(''summary'', JStr (rr_text reason)),
           (''status'', JStr (status_json next_status)), (''change_id'', JStr (uuid h 0))])],
      he_result_summary = JObj [(''ok'', JBool True), (''status'', JStr (status_json next_status)),
        (''change_id'', JStr (uuid h 0))],
      he_reason = Some reason, he_affected_files = [], he_created_at = timestamp h\<rparr>"

definition finish_task ::
    "Harness \<Rightarrow> string \<Rightarrow> string option \<Rightarrow> TaskStatus \<Rightarrow> (TaskSession \<times> ChangeSet) harness_op" where
  "finish_task h task_id summary next_status =
     op_bind (load_task task_id) (\<lambda>t.
     op_bind (op_check (can_transition_to (ts_status t) next_status)
                (InvalidTaskTransition (ts_status t) next_status)) (\<lambda>_.
     op_bind (op_reads (\<lambda>_. finish_reason t summary)) (\<lambda>reason.
     op_bind (list_events task_id 0 2000) (\<lambda>events.
     let finished = finished_event h t reason next_status;
         c = \<lparr>cs_id = uuid h 0, cs_task_id = ts_id t, cs_objective = ts_objective t,
              cs_reason = reason,
              cs_files = change_records (ts_baseline t) (capture_baseline h (task_root h t)),
              cs_command_ids = map he_operation_id events @ [he_operation_id finished],
              cs_verification_ids = [], cs_risks = [], cs_created_at = timestamp h\<rparr>;
         t' = t\<lparr>ts_status := next_status, ts_latest_change_id := Some (uuid h 0),
                ts_updated_at := timestamp h\<rparr>
     in op_bind (save_change c) (\<lambda>_.
        op_bind (save_task t') (\<lambda>_.
        op_bind (append_event finished) (\<lambda>_.
        op_bind (save_workspace_state h (slot_id t') t') (\<lambda>_.
        op_return (t', c)))))))))"

definition transition :: "Harness \<Rightarrow> string \<Rightarrow> TaskStatus \<Rightarrow> TaskSession harness_op" where
  "transition h task_id next_status =
     op_bind (load_task task_id) (\<lambda>t.
     op_bind (op_check (can_transition_to (ts_status t) next_status)
                (InvalidTaskTransition (ts_status t) next_status)) (\<lambda>_.
     op_bind (if occupies_current_task_slot next_status \<and> \<not> occupies_current_task_slot (ts_status t)
              then op_bind (current_task_for_scope h (task_scope_id t)) (\<lambda>current.
                     case current of
                       Some c \<Rightarrow> op_check (ts_id c = ts_id t) (TaskAlreadyActive (ts_id c))
                     | None \<Rightarrow> op_return ())
              else op_return ()) (\<lambda>_.
     let t' = t\<lparr>ts_status := next_status, ts_updated_at := timestamp h\<rparr>
     in op_bind (save_task t') (\<lambda>_.
        op_bind (save_workspace_state h (slot_id t') t') (\<lambda>_.
        op_bind (record_event h 0 task_id ''task_status_changed'' None
                   (JObj [(''status'', JStr (status_json next_status))]) ok_json) (\<lambda>_.
        op_return t'))))))"

definition update_steps ::
    "Harness \<Rightarrow> string \<Rightarrow> string list option \<Rightarrow> string list option \<Rightarrow> TaskSession harness_op" where
  "update_steps h task_id completed_steps pending_steps =
     op_bind (load_task task_id) (\<lambda>t.
     let completed = (case completed_steps of Some s \<Rightarrow> s | None \<Rightarrow> ts_completed_steps t);
         pending = (case pending_steps of Some s \<Rightarrow> s | None \<Rightarrow> ts_pending_steps t);
         t' = t\<lparr>ts_completed_steps := completed, ts_pending_steps := pending,
                ts_updated_at := timestamp h\<rparr>
     in op_bind (save_task t') (\<lambda>_.
        op_bind (record_event h 0 task_id ''task_updated'' None
                   (JObj [(''completed_steps'', JArr (map JStr completed)),
                          (''pending_steps'', JArr (map JStr pending))]) ok_json) (\<lambda>_.
        op_return t')))"

definition check_baseline :: "Harness \<Rightarrow> string \<Rightarrow> unit harness_op" where
  "check_baseline h task_id =
     op_bind (load_task task_id) (\<lambda>t.
     let current = capture_baseline h (task_root h t)
     in op_bind (op_check (pb_branch current = pb_branch (ts_baseline t)
                           \<and> pb_head current = pb_head (ts_baseline t)) BaselineStale) (\<lambda>_.
        op_check (pb_worktree_fingerprint current = ts_expected_fingerprint t) FileChangedExternally))"

definition original_baseline_matches :: "Harness \<Rightarrow> string \<Rightarrow> (bool \<times> ProjectBaseline) harness_op" where
  "original_baseline_matches h task_id =
     op_bind (load_task task_id) (\<lambda>t.
     let current = capture_baseline h (task_root h t)
     in op_return (pb_branch current = pb_branch (ts_baseline t)
                   \<and> pb_head current = pb_head (ts_baseline t)
                   \<and> pb_worktree_fingerprint current = pb_worktree_fingerprint (ts_baseline t),
                   current))"

definition refresh_expected_state :: "Harness \<Rightarrow> string \<Rightarrow> TaskSession harness_op" where
  "refresh_expected_state h task_id =
     op_bind (load_task task_id) (\<lambda>t.
     let t' = t\<lparr>ts_expected_fingerprint := pb_worktree_fingerprint (capture_baseline h (task_root h t)),
                ts_updated_at := timestamp h\<rparr>
     in op_bind (save_task t') (\<lambda>_. op_return t'))"

definition record_operation ::
    "Harness \<Rightarrow> string option \<Rightarrow> string option \<Rightarrow> string \<Rightarrow> string \<Rightarrow> json \<Rightarrow> json \<Rightarrow> OperationRecord harness_op" where
  "record_operation h operation_id task_id tool kind input result =
     (let e = \<lparr>op_id = (case operation_id of Some i \<Rightarrow> i | None \<Rightarrow> uuid h 0),
               op_workspace_id = h_workspace_id h, op_task_id = task_id, op_tool = tool,
               op_kind = kind, op_input_summary = input, op_result_summary = result,
               op_reason = get_str input ''reason'', op_affected_files = [],
               op_created_at = timestamp h\<rparr>
      in op_bind (append_operation e) (\<lambda>_. op_return e))"

section \<open>Project state and status\<close>

record ProjectFileState =
  pf_path :: string
  pf_status :: string
  pf_sha256 :: string
  pf_bytes :: nat

record ProjectState =
  ps_schema_version :: nat
  ps_workspace_id :: string
  ps_scope_id :: string
  ps_scope_root :: path
  ps_branch :: "string option"
  ps_head :: "string option"
  ps_clean :: bool
  ps_files :: "ProjectFileState list"
  ps_total_files :: nat
  ps_truncated :: bool
  ps_active_task_id :: "string option"
  ps_task :: "TaskSession option"
  ps_recent_events :: nat

definition project_files :: "BaselineEntry list \<Rightarrow> BaselineEntry list \<Rightarrow> ProjectFileState list" where
  "project_files baseline current =
     map (\<lambda>p. let entry = map_of (entry_map current) p
              in \<lparr>pf_path = p,
                  pf_status = file_status (map_of (entry_map baseline) p) entry,
                  pf_sha256 = (case entry of Some e \<Rightarrow> be_sha256 e | None \<Rightarrow> []),
                  pf_bytes = (case entry of Some e \<Rightarrow> be_bytes e | None \<Rightarrow> 0)\<rparr>)
       (all_paths baseline current)"

definition project_state_for :: "Harness \<Rightarrow> path \<Rightarrow> nat \<Rightarrow> ProjectState harness_op" where
  "project_state_for h scope_root max_files =
     (let scope_root = normalize_scope_root h scope_root;
          scope_id = scope_id_for_root h scope_root;
          current = capture_baseline h scope_root
      in op_bind (current_task_for_scope h scope_id) (\<lambda>t.
         op_bind (op_reads (\<lambda>st. Inr (case t of
                    Some t \<Rightarrow> length (page 0 100 (events_of st (ts_id t))) | None \<Rightarrow> 0))) (\<lambda>recent.
         let baseline = (case t of Some t \<Rightarrow> pb_entries (ts_baseline t) | None \<Rightarrow> []);
             files = project_files baseline (pb_entries current)
         in op_return
              \<lparr>ps_schema_version = SCHEMA_VERSION, ps_workspace_id = h_workspace_id h, ps_scope_id = scope_id, ps_scope_root = scope_root,
               ps_branch = pb_branch current, ps_head = pb_head current,
               ps_clean = list_all (\<lambda>f. pf_status f = ''unchanged'') files,
               ps_files = take (max max_files 1) files, ps_total_files = length files,
               ps_truncated = (length files > max max_files 1),
               ps_active_task_id = map_option ts_id t, ps_task = t,
               ps_recent_events = recent\<rparr>)))"

text \<open>The fixed texts of the code, by what they say.\<close>

datatype status_reason =
    TaskMayContinue
  | BaselineChanged
  | NoActiveTask
  | ReadsNeedNoTask
  | TaskAndBaselineValid
  | AllowedWithoutTask
  | NeedsTaskAndBaseline
  | GitIdentityRead
  | NotAGitRepository
  | NetworkByPolicy

record CapabilityStatus =
  cap_status :: string
  cap_reason :: status_reason
  cap_recoverable :: bool

record HarnessStatus =
  st_schema_version :: nat
  st_workspace_id :: string
  st_scope_id :: string
  st_scope_root :: path
  st_task_id :: "string option"
  st_task_state :: "TaskStatus option"
  st_task_updated_at :: "string option"
  st_writable :: bool
  st_reason :: status_reason
  st_recoverable :: bool
  st_branch :: "string option"
  st_head :: "string option"
  st_current_head :: "string option"
  st_task_baseline_head :: "string option"
  st_baseline_matches :: "bool option"
  st_capabilities :: "(string \<times> CapabilityStatus) list"
  st_next_actions :: "string list"

definition capability :: "string \<Rightarrow> status_reason \<Rightarrow> CapabilityStatus" where
  "capability status reason = \<lparr>cap_status = status, cap_reason = reason, cap_recoverable = True\<rparr>"

definition task_matches :: "TaskSession \<Rightarrow> ProjectBaseline \<Rightarrow> bool" where
  "task_matches t current =
     (pb_branch (ts_baseline t) = pb_branch current \<and> pb_head (ts_baseline t) = pb_head current
      \<and> ts_expected_fingerprint t = pb_worktree_fingerprint current)"

definition or_else :: "'a option \<Rightarrow> 'a option \<Rightarrow> 'a option" where
  "or_else a b = (case a of Some x \<Rightarrow> Some x | None \<Rightarrow> b)"

text \<open>\<open>identity\<close> is \<open>git_identity\<close>.\<close>

definition status_for ::
    "Harness \<Rightarrow> (path \<Rightarrow> string option \<times> string option) \<Rightarrow> path \<Rightarrow> HarnessStatus harness_op" where
  "status_for h identity scope_root =
     (let scope_root = normalize_scope_root h scope_root;
          scope_id = scope_id_for_root h scope_root
      in op_bind (current_task_for_scope h scope_id) (\<lambda>t.
         let current = map_option (\<lambda>_. capture_baseline h scope_root) t;
             needs_identity = (case current of
                Some b \<Rightarrow> pb_branch b = None \<or> pb_head b = None | None \<Rightarrow> True);
             fallback = (if needs_identity then identity scope_root else (None, None));
             branch = or_else (Option.bind current pb_branch) (fst fallback);
             head = or_else (Option.bind current pb_head) (snd fallback);
             matches = (case t of
                Some t \<Rightarrow> Some (task_matches t (capture_baseline h scope_root)) | None \<Rightarrow> None);
             writable = (case t of
                Some t \<Rightarrow> task_matches t (capture_baseline h scope_root) \<and> is_writable (ts_status t)
              | None \<Rightarrow> True);
             modifying = (if writable
                then capability ''available''
                       (if t \<noteq> None then TaskAndBaselineValid else AllowedWithoutTask)
                else capability ''denied'' NeedsTaskAndBaseline)
         in op_return
              \<lparr>st_schema_version = SCHEMA_VERSION, st_workspace_id = h_workspace_id h,
               st_scope_id = scope_id, st_scope_root = scope_root, st_task_id = map_option ts_id t,
               st_task_state = map_option ts_status t, st_task_updated_at = map_option ts_updated_at t,
               st_writable = writable,
               st_reason = (case matches of
                  Some m \<Rightarrow> if m then TaskMayContinue else BaselineChanged | None \<Rightarrow> NoActiveTask),
               st_recoverable = True, st_branch = branch, st_head = head, st_current_head = head,
               st_task_baseline_head = Option.bind t (\<lambda>t. pb_head (ts_baseline t)),
               st_baseline_matches = matches,
               st_capabilities = [(''read'', capability ''available'' ReadsNeedNoTask),
                 (''write'', modifying), (''exec'', modifying),
                 (''git'', if branch \<noteq> None \<and> head \<noteq> None then capability ''available'' GitIdentityRead
                         else capability ''degraded'' NotAGitRepository),
                 (''network'', capability ''managed_by_policy'' NetworkByPolicy)],
               st_next_actions =
                 (if t = None then [''start_task'']
                  else if matches = Some False then [''project_state'', ''git_diff'', ''refresh_baseline'']
                  else if \<not> writable then [''resume_task''] else [])
                 @ [''read_file'', ''git_status'']\<rparr>))"

end
