(* ===== verification/Harness_Slots.thy ===== *)
theory Harness_Slots
  imports Harness_State
begin

text \<open>
  The slot discipline of the task store: at most one task per scope occupies its slot, and the
  state file lists exactly the occupying tasks.  The lemmas say what each operation of
  \<open>Harness_State\<close> does to the tasks and that it keeps the discipline when its writes succeed.
\<close>

section \<open>The discipline\<close>

definition keyed :: "HarnessStore \<Rightarrow> bool" where
  "keyed st \<longleftrightarrow> distinct (map fst (hs_tasks st))
     \<and> (\<forall>i t. map_of (hs_tasks st) i = Some t \<longrightarrow> ts_id t = i)"

definition occupant :: "HarnessStore \<Rightarrow> string \<Rightarrow> string \<Rightarrow> bool" where
  "occupant st scope_id i \<longleftrightarrow> (\<exists>t. map_of (hs_tasks st) i = Some t \<and> holds_slot t scope_id)"

definition one_per_scope :: "HarnessStore \<Rightarrow> bool" where
  "one_per_scope st \<longleftrightarrow> (\<forall>sc i j. occupant st sc i \<longrightarrow> occupant st sc j \<longrightarrow> i = j)"

definition lists_slots :: "HarnessStore \<Rightarrow> WorkspaceHarnessState \<Rightarrow> bool" where
  "lists_slots st s \<longleftrightarrow> wh_active_task_ids s \<noteq> None
     \<and> (\<forall>sc i. map_of (slots_of s) sc = Some i \<longleftrightarrow> occupant st sc i)"

definition state_exact :: "HarnessStore \<Rightarrow> bool" where
  "state_exact st \<longleftrightarrow>
     (\<forall>s. hs_state st = Some s \<longrightarrow> wh_active_task_ids s \<noteq> None \<longrightarrow> lists_slots st s)"

definition disciplined :: "HarnessStore \<Rightarrow> bool" where
  "disciplined st \<longleftrightarrow> keyed st \<and> one_per_scope st \<and> state_exact st"

lemma occupant_cong: "hs_tasks st' = hs_tasks st \<Longrightarrow> occupant st' = occupant st"
  by (intro ext) (simp add: occupant_def)

lemma disciplined_parts:
  assumes "disciplined st"
  shows "keyed st" "one_per_scope st" "state_exact st"
  using assms by (simp_all add: disciplined_def)

lemma slots_cong:
  assumes "hs_tasks st' = hs_tasks st"
  shows "keyed st' = keyed st" "one_per_scope st' = one_per_scope st" "lists_slots st' = lists_slots st"
  using assms occupant_cong [OF assms]
  by (auto simp: keyed_def one_per_scope_def lists_slots_def fun_eq_iff)

text \<open>A state that lists the slots may be written at any time.\<close>

lemma disciplined_new_state:
  assumes "keyed st" "one_per_scope st" "lists_slots st s"
    and "hs_tasks st' = hs_tasks st" "hs_state st' = Some s"
  shows "disciplined st'"
  using assms slots_cong [OF assms(4)] by (simp add: disciplined_def state_exact_def)

lemma disciplined_cong:
  assumes "disciplined st" "hs_tasks st' = hs_tasks st" "hs_state st' = hs_state st"
  shows "disciplined st'"
  using assms slots_cong [OF assms(2)] by (simp add: disciplined_def state_exact_def)

section \<open>Rebuilding the state\<close>

lemma active_slots_snoc:
  "active_slots (ts @ [t]) =
     (if occupies_current_task_slot (ts_status t) \<and> map_of (active_slots ts) (task_scope_id t) = None
      then (task_scope_id t, ts_id t) # active_slots ts else active_slots ts)"
  by (simp add: active_slots_def)

lemma active_slots_exact:
  assumes "\<And>t u. t \<in> set ts \<Longrightarrow> u \<in> set ts \<Longrightarrow> holds_slot t sc \<Longrightarrow> holds_slot u sc \<Longrightarrow> ts_id t = ts_id u"
  shows "map_of (active_slots ts) sc = Some i \<longleftrightarrow> (\<exists>t \<in> set ts. holds_slot t sc \<and> ts_id t = i)"
  using assms
proof (induction ts arbitrary: i rule: rev_induct)
  case Nil
  then show ?case by (simp add: active_slots_def)
next
  case (snoc t ts)
  have IH: "map_of (active_slots ts) sc = Some j \<longleftrightarrow> (\<exists>u \<in> set ts. holds_slot u sc \<and> ts_id u = j)" for j
    by (rule snoc.IH, rule snoc.prems) simp_all
  have only: "u \<in> set ts \<Longrightarrow> holds_slot t sc \<Longrightarrow> holds_slot u sc \<Longrightarrow> ts_id u = ts_id t" for u
    by (rule snoc.prems) simp_all
  show ?case
  proof (cases "holds_slot t sc")
    case True
    then have t: "occupies_current_task_slot (ts_status t)" "task_scope_id t = sc"
      by (simp_all add: holds_slot_def)
    show ?thesis
    proof (cases "map_of (active_slots ts) sc")
      case None
      then have "\<not> (\<exists>u \<in> set ts. holds_slot u sc \<and> ts_id u = j)" for j
        using IH by (metis option.distinct(1))
      with None True t show ?thesis by (auto simp: active_slots_snoc)
    next
      case (Some j)
      then obtain u where u: "u \<in> set ts" "holds_slot u sc" "ts_id u = j" using IH by blast
      then have "ts_id t = j" using only True by simp
      then have "(\<exists>v \<in> set (ts @ [t]). holds_slot v sc \<and> ts_id v = i) \<longleftrightarrow> i = j"
        using True u only by auto
      with Some t show ?thesis by (auto simp: active_slots_snoc)
    qed
  next
    case False
    then show ?thesis
      using IH by (auto simp: active_slots_snoc holds_slot_def)
  qed
qed

lemma list_tasks_result:
  assumes "keyed st"
  obtains ts where "list_tasks st = (Inr ts, st)"
    and "\<And>t. t \<in> set ts \<longleftrightarrow> map_of (hs_tasks st) (ts_id t) = Some t"
proof
  let ?ts = "rev (sort_key ts_updated_at (rev (map snd (hs_tasks st))))"
  show "list_tasks st = (Inr ?ts, st)"
    by (simp add: list_tasks_def op_evals)
  show "t \<in> set ?ts \<longleftrightarrow> map_of (hs_tasks st) (ts_id t) = Some t" for t
  proof -
    have d: "distinct (map fst (hs_tasks st))"
      and k: "\<And>i t. map_of (hs_tasks st) i = Some t \<Longrightarrow> ts_id t = i"
      using assms by (simp_all add: keyed_def)
    have "t \<in> set ?ts \<longleftrightarrow> (\<exists>i. (i, t) \<in> set (hs_tasks st))"
      by force
    also have "\<dots> \<longleftrightarrow> map_of (hs_tasks st) (ts_id t) = Some t"
      using d k by (metis map_of_eq_Some_iff)
    finally show ?thesis .
  qed
qed

lemma build_result:
  assumes "keyed st" "one_per_scope st"
  obtains s where "build_workspace_state h existing st = (Inr s, st)" "lists_slots st s"
proof -
  obtain ts where ts: "list_tasks st = (Inr ts, st)"
    and mem: "\<And>t. t \<in> set ts \<longleftrightarrow> map_of (hs_tasks st) (ts_id t) = Some t"
    using list_tasks_result [OF assms(1)] by blast
  have key: "map_of (hs_tasks st) i = Some t \<Longrightarrow> ts_id t = i" for i t
    using assms(1) by (simp add: keyed_def)
  have occ: "occupant st sc i \<longleftrightarrow> (\<exists>t \<in> set ts. holds_slot t sc \<and> ts_id t = i)" for sc i
  proof
    assume "occupant st sc i"
    then obtain t where "map_of (hs_tasks st) i = Some t" "holds_slot t sc"
      unfolding occupant_def by blast
    with key [of i t] mem [of t] show "\<exists>t \<in> set ts. holds_slot t sc \<and> ts_id t = i" by auto
  next
    assume "\<exists>t \<in> set ts. holds_slot t sc \<and> ts_id t = i"
    then obtain t where "t \<in> set ts" "holds_slot t sc" "ts_id t = i" by blast
    with mem [of t] show "occupant st sc i" unfolding occupant_def by auto
  qed
  have unique: "t \<in> set ts \<Longrightarrow> u \<in> set ts \<Longrightarrow> holds_slot t sc \<Longrightarrow> holds_slot u sc \<Longrightarrow> ts_id t = ts_id u"
    for t u sc
    using assms(2) occ [of sc "ts_id t"] occ [of sc "ts_id u"] unfolding one_per_scope_def by blast
  have "map_of (active_slots ts) sc = Some i \<longleftrightarrow> occupant st sc i" for sc i
    unfolding occ using unique by (rule active_slots_exact)
  then show thesis
    by (intro that) (auto simp: build_workspace_state_def op_evals ts Let_def op_return_def
        lists_slots_def slots_of_def)
qed

text \<open>What operations keep when no write fails.\<close>

definition same_records :: "HarnessStore \<Rightarrow> HarnessStore \<Rightarrow> bool" where
  "same_records st st' \<longleftrightarrow> hs_tasks st' = hs_tasks st \<and> hs_changes st' = hs_changes st
     \<and> hs_events st' = hs_events st \<and> hs_operations st' = hs_operations st
     \<and> io_left st' = io_left st"

lemma same_records_refl [simp]: "same_records st st"
  by (simp add: same_records_def)

lemma op_write_succeeds:
  "io_left st = None \<Longrightarrow>
   op_write f st = (Inr (), f (st\<lparr>clock := clock st + tick st, io_left := None\<rparr>))"
  by (simp add: op_write_def)

lemma repair_result:
  assumes "keyed st" "one_per_scope st" "io_left st = None"
  obtains s st' where "repair_workspace_state h existing st = (Inr s, st')"
    "same_records st st'" "lists_slots st' s" "disciplined st'"
proof -
  obtain s where s: "build_workspace_state h existing st = (Inr s, st)" "lists_slots st s"
    using build_result [OF assms(1,2)] by blast
  let ?st = "st\<lparr>clock := clock st + tick st, io_left := None, hs_state := Some s,
                state_modified := Some (clock st + tick st)\<rparr>"
  have "repair_workspace_state h existing st = (Inr s, ?st)"
    by (simp add: repair_workspace_state_def op_evals s store_save_workspace_state_def
        op_write_succeeds assms(3))
  moreover have "same_records st ?st" by (simp add: same_records_def assms(3))
  moreover have "lists_slots ?st s" using s(2) slots_cong(3) [of ?st st] by simp
  moreover have "disciplined ?st"
    by (rule disciplined_new_state [OF assms(1,2) s(2)]) simp_all
  ultimately show thesis by (rule that)
qed

lemma state_with_slots_cases:
  assumes "disciplined st"
  obtains (listed) s where "state_with_slots other st = (Inr s, st)" "lists_slots st s"
  | (absent) "state_with_slots other st = other (hs_state st) st"
proof (cases "\<exists>s. hs_state st = Some s \<and> wh_active_task_ids s \<noteq> None")
  case True
  then obtain s where s: "hs_state st = Some s" "wh_active_task_ids s \<noteq> None" by blast
  then have "lists_slots st s" using assms by (simp add: disciplined_def state_exact_def)
  with s show thesis
    by (intro listed [of s]) (auto simp: state_with_slots_def op_evals load_workspace_state_def)
next
  case False
  then show thesis
    by (intro absent) (auto simp: state_with_slots_def op_evals load_workspace_state_def
        op_reads_def split: option.split)
qed

section \<open>Looking the current task up\<close>

text \<open>The answer that is right for a scope.\<close>

definition right_task :: "HarnessStore \<Rightarrow> string \<Rightarrow> TaskSession option \<Rightarrow> bool" where
  "right_task st scope_id found \<longleftrightarrow>
     (case found of
        Some t \<Rightarrow> map_of (hs_tasks st) (ts_id t) = Some t \<and> holds_slot t scope_id
      | None \<Rightarrow> \<forall>i. \<not> occupant st scope_id i)"

lemma right_task_cong:
  assumes "hs_tasks st' = hs_tasks st"
  shows "right_task st' = right_task st"
  by (intro ext) (simp add: right_task_def occupant_cong [OF assms] assms split: option.split)

lemma occupant_task:
  assumes "keyed st" "occupant st sc i"
  obtains t where "map_of (hs_tasks st) i = Some t" "holds_slot t sc" "ts_id t = i"
  using assms by (auto simp: occupant_def keyed_def)

lemma current_in_right:
  assumes "keyed st" "lists_slots st s"
  obtains found where "current_in sc s st = (Inr found, st)" "right_task st sc found"
proof (cases "map_of (slots_of s) sc")
  case None
  then have "\<not> occupant st sc i" for i
    using assms(2) by (metis lists_slots_def option.distinct(1))
  with None show thesis
    by (intro that [of None]) (simp_all add: current_in_def op_return_def right_task_def)
next
  case (Some i)
  then have "occupant st sc i" using assms(2) by (simp add: lists_slots_def)
  then obtain t where "map_of (hs_tasks st) i = Some t" "holds_slot t sc" "ts_id t = i"
    using occupant_task assms(1) by blast
  with Some show thesis
    by (intro that [of "Some t"]) (simp_all add: current_in_def op_evals load_task_def right_task_def)
qed

lemma repaired_right:
  assumes "keyed st" "one_per_scope st" "io_left st = None"
  obtains found st' where
    "op_bind (repair_workspace_state h existing) (current_in sc) st = (Inr found, st')"
    "same_records st st'" "disciplined st'" "right_task st sc found"
proof -
  obtain s st' where s: "repair_workspace_state h existing st = (Inr s, st')"
    "same_records st st'" "lists_slots st' s" "disciplined st'"
    using repair_result [OF assms] by blast
  moreover from this obtain found where "current_in sc s st' = (Inr found, st')" "right_task st' sc found"
    using current_in_right [OF disciplined_parts(1) [OF s(4)] s(3)] by blast
  moreover have "right_task st' = right_task st"
    using s(2) by (intro right_task_cong) (simp add: same_records_def)
  ultimately show thesis
    by (intro that [of found st']) (simp_all add: op_evals)
qed

lemma current_task_right:
  assumes "disciplined st" "io_left st = None"
  obtains found st' where "current_task_for_scope h sc st = (Inr found, st')"
    "same_records st st'" "disciplined st'" "right_task st sc found"
proof -
  note parts = disciplined_parts [OF assms(1)]
  obtain s st1 where s: "state_with_slots (repair_workspace_state h) st = (Inr s, st1)"
    "same_records st st1" "lists_slots st1 s" "disciplined st1"
  proof (cases rule: state_with_slots_cases [OF assms(1), of "repair_workspace_state h"])
    fix s assume "state_with_slots (repair_workspace_state h) st = (Inr s, st)" "lists_slots st s"
    then show thesis using that [of s st] assms by simp
  next
    assume "state_with_slots (repair_workspace_state h) st = repair_workspace_state h (hs_state st) st"
    then show thesis using that repair_result [OF parts(1,2) assms(2), of h "hs_state st"] by metis
  qed
  have tasks: "hs_tasks st1 = hs_tasks st" and io: "io_left st1 = None"
    using s(2) assms(2) by (simp_all add: same_records_def)
  have right: "right_task st1 = right_task st" by (rule right_task_cong [OF tasks])
  note parts1 = disciplined_parts [OF s(4)]
  show thesis
  proof (cases "map_of (slots_of s) sc")
    case None
    then have free: "\<not> occupant st1 sc i" for i
      using s(3) by (metis lists_slots_def option.distinct(1))
    show thesis
    proof (cases "workspace_state_covers_task_entries st1")
      case True
      moreover have "right_task st sc None" using free by (simp add: right_task_def flip: right)
      ultimately show thesis
        using None s by (intro that [of None st1]) (simp_all add: current_task_for_scope_def op_evals)
    next
      case False
      obtain found st' where "op_bind (repair_workspace_state h (Some s)) (current_in sc) st1 = (Inr found, st')"
        "same_records st1 st'" "disciplined st'" "right_task st1 sc found"
        using repaired_right [OF parts1(1,2) io] by blast
      moreover from this have "same_records st st'" using s(2) by (simp add: same_records_def)
      ultimately show thesis
        using None False s(1) right
        by (intro that [of found st']) (simp_all add: current_task_for_scope_def op_evals)
    qed
  next
    case (Some i)
    then obtain t where t: "map_of (hs_tasks st1) i = Some t" "holds_slot t sc" "ts_id t = i"
      using occupant_task [OF parts1(1)] s(3) by (metis lists_slots_def)
    then have "right_task st sc (Some t)" by (simp add: right_task_def flip: right)
    then show thesis
      using Some s t by (intro that [of "Some t" st1]) (simp_all add: current_task_for_scope_def op_evals)
  qed
qed


section \<open>Writing a task\<close>

text \<open>
  The task with this identifier may be replaced by \<open>t\<close>: it keeps its scope, and when \<open>t\<close> occupies
  its slot no other task does.
\<close>

definition may_write :: "HarnessStore \<Rightarrow> TaskSession \<Rightarrow> bool" where
  "may_write st t \<longleftrightarrow>
     (\<forall>u. map_of (hs_tasks st) (ts_id t) = Some u \<longrightarrow> task_scope_id u = task_scope_id t)
     \<and> (occupies_current_task_slot (ts_status t) \<longrightarrow>
          (\<forall>i. occupant st (task_scope_id t) i \<longrightarrow> i = ts_id t))"

lemma occupant_put:
  assumes "hs_tasks st' = al_put (ts_id t) t (hs_tasks st)"
  shows "occupant st' sc i \<longleftrightarrow> (if i = ts_id t then holds_slot t sc else occupant st sc i)"
  using assms by (auto simp: occupant_def)

lemma put_keyed:
  assumes "keyed st" "hs_tasks st' = al_put (ts_id t) t (hs_tasks st)"
  shows "keyed st'"
  using assms by (auto simp: keyed_def)

lemma put_one_per_scope:
  assumes "one_per_scope st" "may_write st t" "hs_tasks st' = al_put (ts_id t) t (hs_tasks st)"
  shows "one_per_scope st'"
  using assms(1,2) unfolding one_per_scope_def may_write_def occupant_put [OF assms(3)] holds_slot_def
  by metis

lemma update_slots_exact:
  assumes "lists_slots st s" "may_write st t" "hs_tasks st' = al_put (ts_id t) t (hs_tasks st)"
  shows "map_of (update_slots t (slots_of s)) sc = Some i \<longleftrightarrow> occupant st' sc i"
proof -
  have old: "map_of (slots_of s) sc = Some i \<longleftrightarrow> occupant st sc i" for sc i
    using assms(1) by (simp add: lists_slots_def)
  have scope: "occupant st sc (ts_id t) \<Longrightarrow> sc = task_scope_id t" for sc
    using assms(2) by (auto simp: occupant_def may_write_def holds_slot_def)
  show ?thesis
  proof (cases "occupies_current_task_slot (ts_status t)")
    case True
    have sole: "occupant st (task_scope_id t) i \<Longrightarrow> i = ts_id t" for i
      using assms(2) True by (simp add: may_write_def)
    show ?thesis
    proof (cases "sc = task_scope_id t")
      case here: True
      have "occupant st' sc i \<longleftrightarrow> i = ts_id t"
        unfolding here occupant_put [OF assms(3)] holds_slot_def using True sole [of i] by auto
      with here True show ?thesis by (auto simp: update_slots_def)
    next
      case False
      then have "occupant st' sc i \<longleftrightarrow> occupant st sc i"
        unfolding occupant_put [OF assms(3)] holds_slot_def using scope [of sc] by auto
      with False True old [of sc i] show ?thesis by (simp add: update_slots_def)
    qed
  next
    case False
    have free: "map_of (slots_of s) (task_scope_id t) = Some (ts_id t) \<longleftrightarrow> occupant st (task_scope_id t) (ts_id t)"
      by (rule old)
    have new: "occupant st' sc i \<longleftrightarrow> i \<noteq> ts_id t \<and> occupant st sc i"
      unfolding occupant_put [OF assms(3)] holds_slot_def using False by simp
    show ?thesis
    proof (cases "map_of (slots_of s) (task_scope_id t) = Some (ts_id t)")
      case True
      then have "map_of (update_slots t (slots_of s)) sc = Some i \<longleftrightarrow> sc \<noteq> task_scope_id t \<and> occupant st sc i"
        using False old [of sc i] by (simp add: update_slots_def)
      moreover have "occupant st sc i \<Longrightarrow> i = ts_id t \<longleftrightarrow> sc = task_scope_id t"
        using True old [of sc i] scope [of sc] by auto
      ultimately show ?thesis using new by blast
    next
      case unlisted: False
      then have "occupant st sc i \<Longrightarrow> i \<noteq> ts_id t" using free scope [of sc] by auto
      moreover have "map_of (update_slots t (slots_of s)) sc = Some i \<longleftrightarrow> occupant st sc i"
        using unlisted False old [of sc i] by (simp add: update_slots_def)
      ultimately show ?thesis using new by blast
    qed
  qed
qed

lemma update_slots_rebuilt:
  assumes "lists_slots st' s" "map_of (hs_tasks st') (ts_id t) = Some t" "one_per_scope st'"
  shows "map_of (update_slots t (slots_of s)) sc = Some i \<longleftrightarrow> occupant st' sc i"
proof -
  have old: "map_of (slots_of s) sc = Some i \<longleftrightarrow> occupant st' sc i" for sc i
    using assms(1) by (simp add: lists_slots_def)
  have t: "occupant st' sc (ts_id t) \<longleftrightarrow> holds_slot t sc" for sc
    using assms(2) by (simp add: occupant_def)
  show ?thesis
  proof (cases "occupies_current_task_slot (ts_status t)")
    case True
    then have "occupant st' (task_scope_id t) (ts_id t)" by (simp add: t holds_slot_def)
    then have "occupant st' (task_scope_id t) i \<longleftrightarrow> i = ts_id t" for i
      using assms(3) unfolding one_per_scope_def by blast
    with True old [of sc i] show ?thesis by (auto simp: update_slots_def)
  next
    case False
    then have "\<not> occupant st' (task_scope_id t) (ts_id t)" by (simp add: t holds_slot_def)
    with False old [of sc i] old [of "task_scope_id t" "ts_id t"] show ?thesis
      by (simp add: update_slots_def)
  qed
qed

lemma save_task_result:
  assumes "io_left st = None"
  obtains st' where "save_task t st = (Inr (), st')"
    "hs_tasks st' = al_put (ts_id t) t (hs_tasks st)" "hs_state st' = hs_state st"
    "hs_changes st' = hs_changes st" "hs_events st' = hs_events st" "io_left st' = None"
proof -
  let ?st = "st\<lparr>clock := clock st + tick st, io_left := None,
                hs_tasks := al_put (ts_id t) t (hs_tasks st),
                tasks_modified := Some (clock st + tick st)\<rparr>"
  show thesis
    by (rule that [of ?st]) (simp_all add: save_task_def op_write_succeeds [OF assms])
qed

text \<open>\<open>save_task\<close> followed, possibly after other writes, by \<open>save_workspace_state\<close>.\<close>

lemma save_workspace_state_result:
  assumes "disciplined st" "may_write st t" "io_left st1 = None"
    and "hs_tasks st1 = al_put (ts_id t) t (hs_tasks st)" "hs_state st1 = hs_state st"
  obtains st' where "save_workspace_state h active t st1 = (Inr (), st')"
    "same_records st1 st'" "disciplined st'"
proof -
  note parts = disciplined_parts [OF assms(1)]
  have k: "keyed st1" by (rule put_keyed [OF parts(1) assms(4)])
  have one: "one_per_scope st1" by (rule put_one_per_scope [OF parts(2) assms(2,4)])
  obtain s where s: "state_with_slots (build_workspace_state h) st1 = (Inr s, st1)"
    and exact: "\<And>sc i. map_of (update_slots t (slots_of s)) sc = Some i \<longleftrightarrow> occupant st1 sc i"
  proof (cases "\<exists>s. hs_state st = Some s \<and> wh_active_task_ids s \<noteq> None")
    case True
    then obtain s where s: "hs_state st = Some s" "wh_active_task_ids s \<noteq> None" by blast
    then have "lists_slots st s" using parts(3) by (simp add: state_exact_def)
    with s assms(5) show thesis
      by (intro that [of s] update_slots_exact [OF _ assms(2,4)])
        (simp_all add: state_with_slots_def op_evals load_workspace_state_def)
  next
    case False
    then have "state_with_slots (build_workspace_state h) st1 = build_workspace_state h (hs_state st1) st1"
      using assms(5) by (auto simp: state_with_slots_def op_evals load_workspace_state_def split: option.split)
    moreover obtain s where "build_workspace_state h (hs_state st1) st1 = (Inr s, st1)" "lists_slots st1 s"
      using build_result [OF k one] by blast
    ultimately show thesis
      using that [of s] update_slots_rebuilt [OF _ _ one] assms(4) by simp
  qed
  define s' where "s' = \<lparr>wh_schema_version = SCHEMA_VERSION, wh_active_task_id = active,
      wh_active_task_ids = Some (update_slots t (slots_of s)),
      wh_recent_task_ids = take 20 (ts_id t # filter (\<lambda>i. i \<noteq> ts_id t) (wh_recent_task_ids s)),
      wh_updated_at = ts_updated_at t\<rparr>"
  let ?st = "st1\<lparr>clock := clock st1 + tick st1, io_left := None, hs_state := Some s',
                 state_modified := Some (clock st1 + tick st1)\<rparr>"
  have "save_workspace_state h active t st1 = (Inr (), ?st)"
    by (simp add: save_workspace_state_def op_evals s store_save_workspace_state_def
        op_write_succeeds assms(3) s'_def)
  moreover have "same_records st1 ?st" by (simp add: same_records_def assms(3))
  moreover have "lists_slots st1 s'"
    using exact by (simp add: lists_slots_def s'_def slots_of_def)
  then have "disciplined ?st" by (intro disciplined_new_state [OF k one]) simp_all
  ultimately show thesis by (rule that)
qed

end
