(* ===== verification/Harness_Discipline.thy ===== *)
theory Harness_Discipline
  imports Harness_Slots
begin

text \<open>
  What the operations do to the tasks: with all writes succeeding (\<open>start_result\<close>,
  \<open>transition_result\<close>, \<open>finish_result\<close>, \<open>update_steps_result\<close>) and with any write failing
  (\<open>one_task_written\<close> and its instances).
\<close>

section \<open>When every write succeeds\<close>

lemma new_task_simps [simp]:
  "ts_id (new_task h obj r) = uuid h 0" "ts_status (new_task h obj r) = Active"
  "task_scope_id (new_task h obj r) = scope_id_for_root h r"
  "ts_latest_change_id (new_task h obj r) = None"
  by (simp_all add: new_task_def task_scope_id_def Let_def)

lemma task_scope_id_update [simp]:
  "task_scope_id (t\<lparr>ts_status := s, ts_updated_at := u\<rparr>) = task_scope_id t"
  "task_scope_id (t\<lparr>ts_status := s, ts_latest_change_id := c, ts_updated_at := u\<rparr>) = task_scope_id t"
  "task_scope_id (t\<lparr>ts_completed_steps := a, ts_pending_steps := b, ts_updated_at := u\<rparr>) = task_scope_id t"
  "task_scope_id (t\<lparr>ts_expected_fingerprint := f, ts_updated_at := u\<rparr>) = task_scope_id t"
  by (simp_all add: task_scope_id_def split: option.split)

text \<open>Appending to the event log changes nothing else.\<close>

lemma append_event_result:
  assumes "io_left st = None"
  obtains st' where "append_event e st = (Inr (), st')" "hs_tasks st' = hs_tasks st"
    "hs_state st' = hs_state st" "hs_changes st' = hs_changes st" "io_left st' = None"
proof -
  let ?st = "st\<lparr>clock := clock st + tick st, io_left := None,
                hs_events := al_put (he_task_id e) (events_of st (he_task_id e) @ [e]) (hs_events st)\<rparr>"
  show thesis
    by (rule that [of ?st]) (simp_all add: append_event_def op_write_succeeds [OF assms] events_of_def)
qed

lemma record_event_result:
  assumes "io_left st = None"
  obtains e st' where "record_event h n i kind tool a b st = (Inr e, st')"
    "hs_tasks st' = hs_tasks st" "hs_state st' = hs_state st" "hs_changes st' = hs_changes st"
    "io_left st' = None"
proof -
  obtain e where e: "record_event h n i kind tool a b = op_bind (append_event e) (\<lambda>_. op_return e)"
    by (simp add: record_event_def Let_def)
  obtain st' where "append_event e st = (Inr (), st')" "hs_tasks st' = hs_tasks st"
    "hs_state st' = hs_state st" "hs_changes st' = hs_changes st" "io_left st' = None"
    using append_event_result [OF assms] by blast
  then show thesis by (intro that [of e st']) (simp_all add: e op_evals)
qed

text \<open>A task is written, then the state, then an event.\<close>

lemma write_task_result:
  assumes "disciplined st" "may_write st t" "io_left st = None"
  obtains st' where
    "op_bind (save_task t) (\<lambda>_. op_bind (save_workspace_state h a t) (\<lambda>_.
       op_bind (record_event h n i kind tool x y) (\<lambda>_. op_return t))) st = (Inr t, st')"
    "hs_tasks st' = al_put (ts_id t) t (hs_tasks st)" "hs_changes st' = hs_changes st"
    "disciplined st'" "io_left st' = None"
proof -
  obtain st1 where 1: "save_task t st = (Inr (), st1)" "hs_tasks st1 = al_put (ts_id t) t (hs_tasks st)"
    "hs_state st1 = hs_state st" "hs_changes st1 = hs_changes st" "io_left st1 = None"
    using save_task_result [OF assms(3)] by metis
  obtain st2 where 2: "save_workspace_state h a t st1 = (Inr (), st2)" "same_records st1 st2" "disciplined st2"
    using save_workspace_state_result [OF assms(1,2) 1(5,2,3)] by blast
  then have kept2: "hs_tasks st2 = hs_tasks st1" "hs_changes st2 = hs_changes st1" "io_left st2 = None"
    using 1 by (simp_all add: same_records_def)
  obtain e st3 where 3: "record_event h n i kind tool x y st2 = (Inr e, st3)" "hs_tasks st3 = hs_tasks st2"
    "hs_state st3 = hs_state st2" "hs_changes st3 = hs_changes st2" "io_left st3 = None"
    using record_event_result [OF kept2(3)] by blast
  show thesis
    using 1 2 kept2 3 disciplined_cong [OF 2(3) 3(2,3)]
    by (intro that [of st3]) (simp_all add: op_evals)
qed

lemma may_write_same:
  assumes "keyed st" "one_per_scope st" "map_of (hs_tasks st) i = Some t" "ts_id t' = i"
    and "task_scope_id t' = task_scope_id t"
    and "occupies_current_task_slot (ts_status t') \<longrightarrow> occupies_current_task_slot (ts_status t)"
  shows "may_write st t'"
proof -
  have "occupies_current_task_slot (ts_status t') \<Longrightarrow> occupant st (task_scope_id t') i"
    using assms(3,5,6) by (simp add: occupant_def holds_slot_def)
  then show ?thesis
    using assms by (auto simp: may_write_def one_per_scope_def)
qed

lemma start_result:
  assumes "disciplined st" "io_left st = None" "map_of (hs_tasks st) (uuid h 0) = None"
    and root: "root = normalize_scope_root h scope_root"
  obtains (refused) e st' where "start_task_for h objective scope_root st = (Inl e, st')"
      "same_records st st'" "disciplined st'"
      "trim objective = [] \<or> (\<exists>i. occupant st (scope_id_for_root h root) i)"
  | (started) st' where "start_task_for h objective scope_root st = (Inr (new_task h objective root), st')"
      "hs_tasks st' = al_put (uuid h 0) (new_task h objective root) (hs_tasks st)"
      "hs_changes st' = hs_changes st" "disciplined st'" "io_left st' = None"
      "\<forall>i. \<not> occupant st (scope_id_for_root h root) i"
proof (cases "trim objective = []")
  case True
  show thesis
    by (rule refused [of "InvalidArgument ''objective''" st])
      (use True assms in \<open>simp_all add: start_task_for_def op_evals\<close>)
next
  case False
  let ?sc = "scope_id_for_root h root"
  obtain found st1 where cur: "current_task_for_scope h ?sc st = (Inr found, st1)"
    "same_records st st1" "disciplined st1" "right_task st ?sc found"
    using current_task_right [OF assms(1,2)] by blast
  have tasks: "hs_tasks st1 = hs_tasks st" and rest: "hs_changes st1 = hs_changes st" "io_left st1 = None"
    using cur(2) assms(2) by (simp_all add: same_records_def)
  show thesis
  proof (cases found)
    case (Some t)
    then have "occupant st ?sc (ts_id t)" using cur(4) by (auto simp: right_task_def occupant_def)
    then show thesis
      using Some False cur
      by (intro refused [of "TaskAlreadyActive (ts_id t)" st1])
        (auto simp: start_task_for_def op_evals root)
  next
    case None
    then have free: "\<forall>i. \<not> occupant st ?sc i" using cur(4) by (simp add: right_task_def)
    let ?t = "new_task h objective root"
    have "may_write st1 ?t"
      using free assms(3) by (simp add: may_write_def tasks occupant_cong [OF tasks])
    then obtain st' where
      "op_bind (save_task ?t) (\<lambda>_. op_bind (save_workspace_state h (Some (ts_id ?t)) ?t) (\<lambda>_.
         op_bind (record_event h 1 (ts_id ?t) ''task_started'' None (JObj []) ok_json) (\<lambda>_. op_return ?t))) st1
         = (Inr ?t, st')"
      "hs_tasks st' = al_put (ts_id ?t) ?t (hs_tasks st1)" "hs_changes st' = hs_changes st1"
      "disciplined st'" "io_left st' = None"
      by (rule write_task_result [OF cur(3) _ rest(2)])
    then show thesis
      using None False cur(1) free tasks rest
      by (intro started [of st']) (simp_all add: start_task_for_def op_bind_check op_bind_Inr Let_def root)
  qed
qed

lemma transition_result:
  assumes "disciplined st" "io_left st = None"
  obtains (refused) e st' where "transition h i s st = (Inl e, st')" "same_records st st'" "disciplined st'"
  | (moved) t st' where "map_of (hs_tasks st) i = Some t" "can_transition_to (ts_status t) s"
      "transition h i s st = (Inr (t\<lparr>ts_status := s, ts_updated_at := timestamp h\<rparr>), st')"
      "hs_tasks st' = al_put i (t\<lparr>ts_status := s, ts_updated_at := timestamp h\<rparr>) (hs_tasks st)"
      "hs_changes st' = hs_changes st" "disciplined st'" "io_left st' = None"
proof -
  note parts = disciplined_parts [OF assms(1)]
  show thesis
  proof (cases "map_of (hs_tasks st) i")
    case None
    then show thesis
      using assms by (intro refused [of StoreIoFailed st])
        (simp_all add: transition_def load_task_def op_evals)
  next
    case (Some t)
    then have load: "load_task i st = (Inr t, st)" by (simp add: load_task_def op_reads_def)
    have id: "ts_id t = i" using Some parts(1) by (simp add: keyed_def)
    let ?t = "t\<lparr>ts_status := s, ts_updated_at := timestamp h\<rparr>"
    show thesis
    proof (cases "can_transition_to (ts_status t) s")
      case False
      then show thesis
        using assms by (intro refused [of "InvalidTaskTransition (ts_status t) s" st])
          (simp_all add: transition_def op_bind_Inr [of "load_task i", OF load] op_evals)
    next
      case legal: True
      define check where "check =
        (if occupies_current_task_slot s \<and> \<not> occupies_current_task_slot (ts_status t)
         then op_bind (current_task_for_scope h (task_scope_id t)) (\<lambda>current.
                case current of
                  Some c \<Rightarrow> op_check (ts_id c = ts_id t) (TaskAlreadyActive (ts_id c))
                | None \<Rightarrow> op_return ())
         else op_return ())"
      have run: "transition h i s st = op_bind check (\<lambda>_.
          op_bind (save_task ?t) (\<lambda>_. op_bind (save_workspace_state h (slot_id ?t) ?t) (\<lambda>_.
          op_bind (record_event h 0 i ''task_status_changed'' None
                     (JObj [(''status'', JStr (status_json s))]) ok_json) (\<lambda>_. op_return ?t)))) st"
        unfolding transition_def op_bind_Inr [of "load_task i", OF load]
        by (simp add: legal op_bind_check Let_def check_def)
      obtain e st1 where c: "check st = (e, st1)" "same_records st st1" "disciplined st1"
        "e = Inr () \<longrightarrow> may_write st1 ?t"
      proof (cases "occupies_current_task_slot s \<and> \<not> occupies_current_task_slot (ts_status t)")
        case False
        then have "may_write st ?t"
          using parts Some id by (intro may_write_same [of st i t]) auto
        then show thesis
          using that [of "Inr ()" st] False assms(1) by (simp only: check_def) (auto simp: op_return_def)
      next
        case True
        obtain found st1 where cur: "current_task_for_scope h (task_scope_id t) st = (Inr found, st1)"
          "same_records st st1" "disciplined st1" "right_task st (task_scope_id t) found"
          using current_task_right [OF assms] by blast
        have tasks: "hs_tasks st1 = hs_tasks st" using cur(2) by (simp add: same_records_def)
        have out: "check st = (case found of
            Some c \<Rightarrow> op_check (ts_id c = ts_id t) (TaskAlreadyActive (ts_id c)) | None \<Rightarrow> op_return ()) st1"
          using True cur(1) by (simp add: check_def op_bind_Inr)
        have "found = None" if "fst (check st) = Inr ()"
        proof (rule ccontr)
          assume "found \<noteq> None"
          then obtain c where "found = Some c" by blast
          moreover from this have "ts_id c = i"
            using that out id by (auto simp: op_check_def op_fail_def split: if_splits)
          ultimately show False
            using cur(4) Some True by (auto simp: right_task_def holds_slot_def)
        qed
        moreover have "found = None \<Longrightarrow> may_write st1 ?t"
          using cur(4) Some id
          by (auto simp: right_task_def may_write_def tasks occupant_cong [OF tasks])
        moreover have "snd (check st) = st1"
          using out by (auto simp: op_check_def op_fail_def op_return_def split: option.splits)
        ultimately show thesis
          using that [of "fst (check st)" st1] cur(2,3) by (metis prod.collapse)
      qed
      have rest: "hs_tasks st1 = hs_tasks st" "hs_changes st1 = hs_changes st" "io_left st1 = None"
        using c(2) assms(2) by (simp_all add: same_records_def)
      show thesis
      proof (cases e)
        case (Inl x)
        with c show thesis by (intro refused [of x st1]) (simp_all add: run op_bind_Inl)
      next
        case (Inr u)
        then have "may_write st1 ?t" using c(4) by simp
        then obtain st' where
          "op_bind (save_task ?t) (\<lambda>_. op_bind (save_workspace_state h (slot_id ?t) ?t) (\<lambda>_.
             op_bind (record_event h 0 i ''task_status_changed'' None
               (JObj [(''status'', JStr (status_json s))]) ok_json) (\<lambda>_. op_return ?t))) st1 = (Inr ?t, st')"
          "hs_tasks st' = al_put (ts_id ?t) ?t (hs_tasks st1)" "hs_changes st' = hs_changes st1"
          "disciplined st'" "io_left st' = None"
          by (rule write_task_result [OF c(3) _ rest(3)])
        then show thesis
          using Some legal Inr c(1) rest id
          by (intro moved [of t st']) (simp_all add: run op_bind_Inr)
      qed
    qed
  qed
qed


lemma save_change_result:
  assumes "io_left st = None"
  obtains st' where "save_change c st = (Inr (), st')" "hs_tasks st' = hs_tasks st"
    "hs_state st' = hs_state st" "hs_changes st' = al_put (cs_id c) c (hs_changes st)" "io_left st' = None"
proof -
  let ?st = "st\<lparr>clock := clock st + tick st, io_left := None,
                hs_changes := al_put (cs_id c) c (hs_changes st)\<rparr>"
  show thesis
    by (rule that [of ?st]) (simp_all add: save_change_def op_write_succeeds [OF assms])
qed

text \<open>The task and the change set that finishing writes.\<close>

definition finished_task :: "Harness \<Rightarrow> TaskSession \<Rightarrow> TaskStatus \<Rightarrow> TaskSession" where
  "finished_task h t s =
     t\<lparr>ts_status := s, ts_latest_change_id := Some (uuid h 0), ts_updated_at := timestamp h\<rparr>"

definition captured_change ::
    "Harness \<Rightarrow> TaskSession \<Rightarrow> ReasonRecord \<Rightarrow> HarnessEvent list \<Rightarrow> TaskStatus \<Rightarrow> ChangeSet" where
  "captured_change h t reason events s =
     \<lparr>cs_id = uuid h 0, cs_task_id = ts_id t, cs_objective = ts_objective t, cs_reason = reason,
      cs_files = change_records (ts_baseline t) (capture_baseline h (task_root h t)),
      cs_command_ids = map he_operation_id events @ [he_operation_id (finished_event h t reason s)],
      cs_verification_ids = [], cs_risks = [], cs_created_at = timestamp h\<rparr>"

lemma finished_task_simps [simp]:
  "ts_id (finished_task h t s) = ts_id t" "ts_status (finished_task h t s) = s"
  "ts_latest_change_id (finished_task h t s) = Some (uuid h 0)"
  "task_scope_id (finished_task h t s) = task_scope_id t"
  by (simp_all add: finished_task_def)

lemma captured_change_simps [simp]:
  "cs_id (captured_change h t reason events s) = uuid h 0"
  "cs_task_id (captured_change h t reason events s) = ts_id t"
  by (simp_all add: captured_change_def)

text \<open>Finishing either stops before its first write, or is the four writes.\<close>

lemma finish_task_cases:
  obtains (refused) e where "finish_task h i summary s st = (Inl e, st)"
  | (writes) t reason events where "map_of (hs_tasks st) i = Some t" "can_transition_to (ts_status t) s"
      "finish_reason t summary = Inr reason" "events = page 0 2000 (events_of st i)"
      "finish_task h i summary s st =
         op_bind (save_change (captured_change h t reason events s)) (\<lambda>_.
         op_bind (save_task (finished_task h t s)) (\<lambda>_.
         op_bind (append_event (finished_event h t reason s)) (\<lambda>_.
         op_bind (save_workspace_state h (slot_id (finished_task h t s)) (finished_task h t s)) (\<lambda>_.
         op_return (finished_task h t s, captured_change h t reason events s))))) st"
proof (cases "map_of (hs_tasks st) i")
  case None
  then show thesis by (intro refused) (simp add: finish_task_def load_task_def op_evals)
next
  case (Some t)
  then have load: "load_task i st = (Inr t, st)" by (simp add: load_task_def op_reads_def)
  note run = finish_task_def op_bind_Inr [of "load_task i", OF load]
  show thesis
  proof (cases "can_transition_to (ts_status t) s")
    case False
    then show thesis by (intro refused) (simp add: run op_bind_check op_fail_def)
  next
    case True
    show thesis
    proof (cases "finish_reason t summary")
      case (Inl e)
      then show thesis by (intro refused [of e]) (simp add: run True op_bind_check op_bind_reads)
    next
      case (Inr reason)
      show thesis
        by (rule writes [OF Some True Inr refl])
          (simp add: run True Inr op_bind_check op_bind_reads list_events_def Let_def
            finished_task_def captured_change_def)
    qed
  qed
qed

lemma finish_result:
  assumes "disciplined st" "io_left st = None" "s \<noteq> Active"
  obtains (refused) e where "finish_task h i summary s st = (Inl e, st)"
  | (finished) t c st' where "map_of (hs_tasks st) i = Some t" "can_transition_to (ts_status t) s"
      "finish_task h i summary s st = (Inr (finished_task h t s, c), st')"
      "cs_id c = uuid h 0" "cs_task_id c = i"
      "hs_tasks st' = al_put i (finished_task h t s) (hs_tasks st)"
      "hs_changes st' = al_put (uuid h 0) c (hs_changes st)" "disciplined st'" "io_left st' = None"
proof (cases rule: finish_task_cases [of h i summary s st])
  case (refused e)
  then show thesis by (rule that(1))
next
  case 2: (writes t reason events)
  note parts = disciplined_parts [OF assms(1)]
  let ?t = "finished_task h t s" and ?c = "captured_change h t reason events s"
  have id: "ts_id t = i" using 2(1) parts(1) by (simp add: keyed_def)
  obtain st1 where a: "save_change ?c st = (Inr (), st1)" "hs_tasks st1 = hs_tasks st"
    "hs_state st1 = hs_state st" "hs_changes st1 = al_put (cs_id ?c) ?c (hs_changes st)" "io_left st1 = None"
    using save_change_result [OF assms(2)] by blast
  have d1: "disciplined st1" by (rule disciplined_cong [OF assms(1) a(2,3)])
  obtain st2 where b: "save_task ?t st1 = (Inr (), st2)" "hs_tasks st2 = al_put (ts_id ?t) ?t (hs_tasks st1)"
    "hs_state st2 = hs_state st1" "hs_changes st2 = hs_changes st1" "io_left st2 = None"
    using save_task_result [OF a(5)] by metis
  obtain st3 where c: "append_event (finished_event h t reason s) st2 = (Inr (), st3)"
    "hs_tasks st3 = hs_tasks st2" "hs_state st3 = hs_state st2" "hs_changes st3 = hs_changes st2"
    "io_left st3 = None"
    using append_event_result [OF b(5)] by blast
  have "occupies_current_task_slot s \<longrightarrow> occupies_current_task_slot (ts_status t)"
    using 2(2) assms(3) by (auto simp: can_transition_to_def occupies_current_task_slot_def
        split: TaskStatus.splits)
  then have "may_write st1 ?t"
    using d1 2(1) a(2) id by (intro may_write_same [of st1 i t]) (simp_all add: disciplined_def)
  then obtain st4 where d: "save_workspace_state h (slot_id ?t) ?t st3 = (Inr (), st4)"
    "same_records st3 st4" "disciplined st4"
    by (rule save_workspace_state_result [OF d1 _ c(5), of ?t h "slot_id ?t"]) (simp_all add: b c)
  show thesis
    using d(2) by (intro that(2) [OF 2(1,2) _ _ _ _ _ d(3), of ?c])
      (simp_all add: 2(5) op_evals a b c d(1) id same_records_def)
qed

text \<open>Operations that rewrite a task without moving it.\<close>

lemma rewrite_task_disciplined:
  assumes "disciplined st" "io_left st = None" "map_of (hs_tasks st) i = Some t"
    and "ts_id t' = i" "ts_status t' = ts_status t" "task_scope_id t' = task_scope_id t"
  obtains st' where "save_task t' st = (Inr (), st')" "hs_tasks st' = al_put i t' (hs_tasks st)"
    "hs_changes st' = hs_changes st" "disciplined st'" "io_left st' = None"
proof -
  obtain st' where s: "save_task t' st = (Inr (), st')" "hs_tasks st' = al_put i t' (hs_tasks st)"
    "hs_state st' = hs_state st" "hs_changes st' = hs_changes st" "io_left st' = None"
    using save_task_result [OF assms(2), of t'] assms(4) by metis
  note parts = disciplined_parts [OF assms(1)]
  have put: "hs_tasks st' = al_put (ts_id t') t' (hs_tasks st)" using s(2) assms(4) by simp
  have "occupant st' = occupant st"
    using assms(3-6) unfolding occupant_put [OF put] fun_eq_iff
    by (auto simp: occupant_def [of st] holds_slot_def)
  then have "disciplined st'"
    using parts put_keyed [OF parts(1) put] s(3)
    by (simp add: disciplined_def one_per_scope_def state_exact_def lists_slots_def)
  with s show thesis by (intro that)
qed

lemma update_steps_result:
  assumes "disciplined st" "io_left st = None"
  obtains (refused) e where "update_steps h i done_steps pending st = (Inl e, st)"
  | (updated) t t' st' where "map_of (hs_tasks st) i = Some t" "update_steps h i done_steps pending st = (Inr t', st')"
      "ts_id t' = i" "ts_status t' = ts_status t" "task_scope_id t' = task_scope_id t"
      "ts_latest_change_id t' = ts_latest_change_id t"
      "hs_tasks st' = al_put i t' (hs_tasks st)" "hs_changes st' = hs_changes st"
      "disciplined st'" "io_left st' = None"
proof (cases "map_of (hs_tasks st) i")
  case None
  then show thesis by (intro refused) (simp add: update_steps_def load_task_def op_evals)
next
  case (Some t)
  then have load: "load_task i st = (Inr t, st)" by (simp add: load_task_def op_reads_def)
  have id: "ts_id t = i" using Some disciplined_parts(1) [OF assms(1)] by (simp add: keyed_def)
  define a where "a = (case done_steps of Some s \<Rightarrow> s | None \<Rightarrow> ts_completed_steps t)"
  define b where "b = (case pending of Some s \<Rightarrow> s | None \<Rightarrow> ts_pending_steps t)"
  let ?t = "t\<lparr>ts_completed_steps := a, ts_pending_steps := b, ts_updated_at := timestamp h\<rparr>"
  obtain st1 where s: "save_task ?t st = (Inr (), st1)" "hs_tasks st1 = al_put i ?t (hs_tasks st)"
    "hs_changes st1 = hs_changes st" "disciplined st1" "io_left st1 = None"
    by (rule rewrite_task_disciplined [OF assms Some, of ?t]) (simp_all add: id)
  obtain e st2 where ev: "record_event h 0 i ''task_updated'' None
      (JObj [(''completed_steps'', JArr (map JStr a)), (''pending_steps'', JArr (map JStr b))]) ok_json st1
        = (Inr e, st2)"
    "hs_tasks st2 = hs_tasks st1" "hs_state st2 = hs_state st1" "hs_changes st2 = hs_changes st1"
    "io_left st2 = None"
    using record_event_result [OF s(5)] by blast
  have run: "update_steps h i done_steps pending st = (Inr ?t, st2)"
    unfolding update_steps_def op_bind_Inr [of "load_task i", OF load]
    by (simp add: Let_def a_def [symmetric] b_def [symmetric] op_bind_Inr s(1) ev(1) op_return_def)
  show thesis
    using s ev disciplined_cong [OF s(4) ev(2,3)]
    by (intro updated [OF Some run]) (simp_all add: id)
qed

end
