(* ===== verification/Harness_Context.thy ===== *)
theory Harness_Context
  imports Harness_Model
begin

text \<open>
  Fitting a task and its events into a byte budget (\<open>bounded_task_context\<close> of
  \<open>harness/tools.rs\<close>).  \<open>measured\<close> is the length of the serialised answer, which \<open>serde_json\<close>
  computes.
\<close>

section \<open>The largest prefix that fits\<close>

function search_prefix :: "(nat \<Rightarrow> bool) \<Rightarrow> nat \<Rightarrow> nat \<Rightarrow> nat option \<Rightarrow> nat option" where
  "search_prefix fits lower upper best =
     (if lower \<le> upper then
        let middle = lower + (upper - lower) div 2
        in if fits middle then search_prefix fits (middle + 1) upper (Some middle)
           else if middle = 0 then best
           else search_prefix fits lower (middle - 1) best
      else best)"
  by pat_completeness auto
termination
  by (relation "measure (\<lambda>(_, lower, upper, _). Suc upper - lower)") (auto simp: Let_def)

declare search_prefix.simps [simp del]

lemma search_prefix_done: "upper < lower \<Longrightarrow> search_prefix fits lower upper best = best"
  by (simp add: search_prefix.simps)

lemma search_prefix_step:
  assumes "lower \<le> upper" "m = lower + (upper - lower) div 2"
  shows "search_prefix fits lower upper best =
     (if fits m then search_prefix fits (m + 1) upper (Some m)
      else if m = 0 then best else search_prefix fits lower (m - 1) best)"
  unfolding assms(2) using assms(1) by (subst search_prefix.simps) (simp only: Let_def if_True)

text \<open>Induction along the search, with the middle named.\<close>

lemma search_prefix_induct [case_names finished step]:
  fixes fits :: "nat \<Rightarrow> bool"
  assumes "\<And>lower upper best. upper < lower \<Longrightarrow> P lower upper best"
    and "\<And>lower upper best m. lower \<le> m \<Longrightarrow> m \<le> upper \<Longrightarrow> m = lower + (upper - lower) div 2 \<Longrightarrow>
      (fits m \<Longrightarrow> P (m + 1) upper (Some m)) \<Longrightarrow>
      (\<not> fits m \<Longrightarrow> m \<noteq> 0 \<Longrightarrow> P lower (m - 1) best) \<Longrightarrow> P lower upper best"
  shows "P lower upper best"
proof (induction "Suc upper - lower" arbitrary: lower upper best rule: less_induct)
  case less
  show ?case
  proof (cases "lower \<le> upper")
    case True
    define m where "m = lower + (upper - lower) div 2"
    have m: "lower \<le> m" "m \<le> upper" using True by (simp_all add: m_def)
    show ?thesis
      by (rule assms(2) [OF m m_def]) (rule less, use m in linarith)+
  qed (use assms(1) in simp)
qed

lemma search_prefix_sound:
  "search_prefix fits lower upper best = Some n \<Longrightarrow> best = Some n \<or> fits n \<and> n \<le> upper"
proof (induction lower upper best rule: search_prefix_induct [where fits = fits])
  case (finished lower upper best)
  then show ?case by (simp add: search_prefix_done)
next
  case (step lower upper best m)
  have "lower \<le> upper" using step(1,2) by simp
  from step.prems [unfolded search_prefix_step [OF this step(3), of fits best]] step
  show ?case by (auto split: if_splits)
qed

text \<open>When prefixes of what fits fit, the search finds the largest fitting length.\<close>

lemma search_prefix_largest:
  assumes "\<And>m n. m \<le> n \<Longrightarrow> fits n \<Longrightarrow> fits m"
  shows "(\<forall>m < lower. fits m) \<Longrightarrow> (\<forall>m > upper. m \<le> width \<longrightarrow> \<not> fits m) \<Longrightarrow> upper \<le> width \<Longrightarrow>
    best = (if lower = 0 then None else Some (lower - 1)) \<Longrightarrow> lower \<le> Suc upper \<Longrightarrow>
    search_prefix fits lower upper best =
      (if fits 0 then Some (GREATEST m. m \<le> width \<and> fits m) else None)"
proof (induction lower upper best rule: search_prefix_induct [where fits = fits])
  case (finished lower upper best)
  then have l: "lower = Suc upper" by simp
  then have "fits 0" "fits upper" using finished.prems(1) by auto
  moreover have "(GREATEST m. m \<le> width \<and> fits m) = upper"
    using \<open>fits upper\<close> finished.prems(2,3) by (intro Greatest_equality) (auto simp: not_less [symmetric])
  ultimately show ?case using l finished.prems(4) by (simp add: search_prefix_done)
next
  case (step lower upper best m)
  have "lower \<le> upper" using step(1,2) by simp
  note run = search_prefix_step [OF this step(3), of fits best]
  show ?case
  proof (cases "fits m")
    case True
    have "search_prefix fits (m + 1) upper (Some m) =
        (if fits 0 then Some (GREATEST m. m \<le> width \<and> fits m) else None)"
      using step.prems step(2) assms True by (intro step.IH(1) [OF True]) (auto simp: less_Suc_eq_le)
    with True show ?thesis by (simp add: run)
  next
    case no: False
    show ?thesis
    proof (cases "m = 0")
      case True
      with no step.prems(4) step(1) show ?thesis unfolding run by simp
    next
      case False
      have above: "\<forall>k > m - 1. k \<le> width \<longrightarrow> \<not> fits k"
      proof (intro allI impI)
        fix k assume "k > m - 1"
        then have "m \<le> k" using False by simp
        then show "\<not> fits k" using no assms by blast
      qed
      have "search_prefix fits lower (m - 1) best =
          (if fits 0 then Some (GREATEST m. m \<le> width \<and> fits m) else None)"
        using step.prems step(1,2) above False by (intro step.IH(2) [OF no False]) auto
      with no False show ?thesis by (simp add: run)
    qed
  qed
qed


section \<open>The bounded answer\<close>

text \<open>The longest prefix the search finds; \<open>None\<close> when there is nothing to shorten or none fits.\<close>

definition keep_prefix :: "('a list \<Rightarrow> bool) \<Rightarrow> 'a list \<Rightarrow> 'a list option" where
  "keep_prefix fits xs =
     (if xs = [] then None
      else map_option (\<lambda>k. take k xs) (search_prefix (\<lambda>m. fits (take m xs)) 0 (length xs) None))"

function shrink_objective :: "(string \<Rightarrow> bool) \<Rightarrow> string \<Rightarrow> string" where
  "shrink_objective fits objective =
     (if fits objective then objective
      else if length (chars_of objective) \<le> 1 then objective
      else shrink_objective fits
             (concat (take (max (length (chars_of objective) div 2) 1) (chars_of objective))))"
  by pat_completeness auto
termination
  by (relation "measure (\<lambda>(_, objective). length (chars_of objective))") (auto simp: chars_of_take)

declare shrink_objective.simps [simp del]

definition with_entries :: "TaskSession \<Rightarrow> BaselineEntry list \<Rightarrow> TaskSession" where
  "with_entries t es = t\<lparr>ts_baseline := (ts_baseline t)\<lparr>pb_entries := es\<rparr>\<rparr>"

definition bounded_task_context ::
    "(TaskSession \<Rightarrow> HarnessEvent list \<Rightarrow> bool \<Rightarrow> nat) \<Rightarrow> TaskSession \<Rightarrow> HarnessEvent list \<Rightarrow> nat
       \<Rightarrow> TaskSession \<times> HarnessEvent list \<times> bool" where
  "bounded_task_context measured t events max_bytes =
     (let truncated = length events > 100;
          events = take 100 events
      in if measured t events truncated \<le> max_bytes then (t, events, truncated)
         else case keep_prefix (\<lambda>es. measured (with_entries t es) events True \<le> max_bytes)
                (pb_entries (ts_baseline t)) of
           Some es \<Rightarrow> (with_entries t es, events, True)
         | None \<Rightarrow> let t = with_entries t []
      in case keep_prefix (\<lambda>es. measured t es True \<le> max_bytes) events of
           Some es \<Rightarrow> (t, es, True)
         | None \<Rightarrow>
      (case keep_prefix (\<lambda>ss. measured (t\<lparr>ts_pending_steps := ss\<rparr>) [] True \<le> max_bytes)
              (ts_pending_steps t) of
         Some ss \<Rightarrow> (t\<lparr>ts_pending_steps := ss\<rparr>, [], True)
       | None \<Rightarrow> let t = t\<lparr>ts_pending_steps := []\<rparr>
      in case keep_prefix (\<lambda>ss. measured (t\<lparr>ts_completed_steps := ss\<rparr>) [] True \<le> max_bytes)
                (ts_completed_steps t) of
           Some ss \<Rightarrow> (t\<lparr>ts_completed_steps := ss\<rparr>, [], True)
         | None \<Rightarrow> let t = t\<lparr>ts_completed_steps := []\<rparr>
      in (t\<lparr>ts_objective := shrink_objective
              (\<lambda>obj. measured (t\<lparr>ts_objective := obj\<rparr>) [] True \<le> max_bytes) (ts_objective t)\<rparr>, [], True)))"

lemma keep_prefix_Some:
  assumes "keep_prefix fits xs = Some ys"
  shows "fits ys" "prefix ys xs"
proof -
  obtain k where k: "search_prefix (\<lambda>m. fits (take m xs)) 0 (length xs) None = Some k" "ys = take k xs"
    using assms by (auto simp: keep_prefix_def split: if_splits)
  then show "fits ys" using search_prefix_sound [OF k(1)] by simp
  show "prefix ys xs" using k(2) by (simp add: take_is_prefix)
qed

text \<open>For an answer that only grows with the list, the prefix kept is the longest that fits.\<close>

lemma keep_prefix_longest:
  assumes "\<And>m n. m \<le> n \<Longrightarrow> fits (take n xs) \<Longrightarrow> fits (take m xs)" "xs \<noteq> []"
  shows "keep_prefix fits xs =
    (if fits [] then Some (take (GREATEST m. m \<le> length xs \<and> fits (take m xs)) xs) else None)"
  using search_prefix_largest [of "\<lambda>m. fits (take m xs)" 0 "length xs" "length xs" None] assms
  by (auto simp: keep_prefix_def)

lemma shrink_objective_ends:
  "fits (shrink_objective fits obj) \<or> length (chars_of (shrink_objective fits obj)) \<le> 1"
proof (induction fits obj rule: shrink_objective.induct)
  case (1 fits obj)
  then show ?case
    by (subst (1 2) shrink_objective.simps) (simp add: Let_def)
qed

definition bare :: "TaskSession \<Rightarrow> HarnessEvent list \<Rightarrow> bool" where
  "bare t events \<longleftrightarrow> pb_entries (ts_baseline t) = [] \<and> events = [] \<and> ts_pending_steps t = []
     \<and> ts_completed_steps t = [] \<and> length (chars_of (ts_objective t)) \<le> 1"

lemma with_entries_simps [simp]:
  "pb_entries (ts_baseline (with_entries t es)) = es" "ts_pending_steps (with_entries t es) = ts_pending_steps t"
  "ts_completed_steps (with_entries t es) = ts_completed_steps t" "ts_id (with_entries t es) = ts_id t"
  by (simp_all add: with_entries_def)

text \<open>
  C38.  The task context respects its byte budget: for any way of measuring the answer, what is
  returned is at most \<open>max_bytes\<close> long, unless everything that can be left out has been left out;
  a shortened answer says that it is truncated, its lists are prefixes of the task's, and it is
  about the same task.
\<close>

theorem task_context_fits_or_is_bare:
  "case bounded_task_context measured t events max_bytes of (t', events', truncated) \<Rightarrow>
     (measured t' events' truncated \<le> max_bytes \<or> bare t' events')
     \<and> ((t', events') = (t, events) \<or> truncated)
     \<and> prefix events' events \<and> prefix (pb_entries (ts_baseline t')) (pb_entries (ts_baseline t))
     \<and> prefix (ts_pending_steps t') (ts_pending_steps t)
     \<and> prefix (ts_completed_steps t') (ts_completed_steps t) \<and> ts_id t' = ts_id t"
proof -
  define es where "es = take 100 events"
  have es: "prefix es events" "\<And>ys. prefix ys es \<Longrightarrow> prefix ys events"
    by (simp add: es_def take_is_prefix) (metis es_def prefix_order.trans take_is_prefix)
  have whole: "length events \<le> 100 \<Longrightarrow> es = events" by (simp add: es_def)
  define t0 where "t0 = with_entries t []"
  define t1 where "t1 = t0\<lparr>ts_pending_steps := []\<rparr>"
  define t2 where "t2 = t1\<lparr>ts_completed_steps := []\<rparr>"
  note defs = bounded_task_context_def Let_def es_def [symmetric] t0_def [symmetric]
    t1_def [symmetric] t2_def [symmetric]
  show ?thesis
  proof (cases "measured t es (length events > 100) \<le> max_bytes")
    case True
    then show ?thesis using es(1) whole by (auto simp: defs)
  next
    case a: False
    show ?thesis
    proof (cases "keep_prefix (\<lambda>xs. measured (with_entries t xs) es True \<le> max_bytes) (pb_entries (ts_baseline t))")
      case (Some xs)
      then show ?thesis using a keep_prefix_Some [OF Some] es(1) by (simp add: defs)
    next
      case b: None
      show ?thesis
      proof (cases "keep_prefix (\<lambda>es. measured t0 es True \<le> max_bytes) es")
        case (Some ys)
        then show ?thesis using a b keep_prefix_Some [OF Some] es(2) by (simp add: defs) (simp add: t0_def)
      next
        case c: None
        show ?thesis
        proof (cases "keep_prefix (\<lambda>ss. measured (t0\<lparr>ts_pending_steps := ss\<rparr>) [] True \<le> max_bytes) (ts_pending_steps t0)")
          case (Some ss)
          then show ?thesis using a b c keep_prefix_Some [OF Some] by (simp add: defs) (simp add: t0_def)
        next
          case d: None
          show ?thesis
          proof (cases "keep_prefix (\<lambda>ss. measured (t1\<lparr>ts_completed_steps := ss\<rparr>) [] True \<le> max_bytes) (ts_completed_steps t1)")
            case (Some ss)
            then show ?thesis
              using a b c d keep_prefix_Some [OF Some] by (simp add: defs) (simp add: t0_def t1_def)
          next
            case e: None
            show ?thesis
              using a b c d e shrink_objective_ends
                [of "\<lambda>obj. measured (t2\<lparr>ts_objective := obj\<rparr>) [] True \<le> max_bytes" "ts_objective t2"]
              by (simp add: defs) (simp add: t0_def t1_def t2_def bare_def with_entries_def)
          qed
        qed
      qed
    qed
  qed
qed

end
