(* ===== verification/Harness_Tools.thy ===== *)
theory Harness_Tools
  imports Harness_Discipline Harness_Context
begin

text \<open>
  The harness tools of \<open>harness/tools.rs\<close>: each reads its JSON arguments and runs operations of
  \<open>Harness_State\<close>.  \<open>scope\<close> is the scope root of the current directory.  Answers are the values the
  code serialises.
\<close>

section \<open>Arguments\<close>

definition task_id_arg :: "json \<Rightarrow> harness_error + string" where
  "task_id_arg args =
     (case get_str args ''task_id'' of
        Some v \<Rightarrow> if v \<noteq> [] then Inr v else Inl (InvalidArgument ''task_id'')
      | None \<Rightarrow> Inl (InvalidArgument ''task_id''))"

fun all_strings :: "json list \<Rightarrow> string list option" where
  "all_strings [] = Some []"
| "all_strings (v # vs) =
     (case as_str v of
        Some s \<Rightarrow> map_option ((#) s) (all_strings vs)
      | None \<Rightarrow> None)"

definition string_list :: "json option \<Rightarrow> harness_error + string list option" where
  "string_list v =
     (case v of
        None \<Rightarrow> Inr None
      | Some v \<Rightarrow>
          (case Option.bind (as_array v) all_strings of
             Some ss \<Rightarrow> Inr (Some ss)
           | None \<Rightarrow> Inl (InvalidArgument ''steps'')))"

definition optional_nonempty_string :: "json \<Rightarrow> string \<Rightarrow> harness_error + string option" where
  "optional_nonempty_string args k =
     (case jget args k of
        None \<Rightarrow> Inr None
      | Some v \<Rightarrow>
          (case as_str v of
             None \<Rightarrow> Inl (InvalidArgument k)
           | Some s \<Rightarrow> if trim s = [] then Inl (InvalidArgument k) else Inr (Some (trim s))))"

definition optional_change_id :: "json \<Rightarrow> harness_error + string option" where
  "optional_change_id args =
     and_then (optional_nonempty_string args ''change_id'') (\<lambda>i.
       case i of
         None \<Rightarrow> Inr None
       | Some v \<Rightarrow> if is_change_id v then Inr (Some v) else Inl (InvalidArgument ''change_id''))"

definition u64_or :: "json \<Rightarrow> string \<Rightarrow> nat \<Rightarrow> nat" where
  "u64_or args k d = (case get_u64 args k of Some n \<Rightarrow> n | None \<Rightarrow> d)"

definition bool_or :: "json \<Rightarrow> string \<Rightarrow> bool \<Rightarrow> bool" where
  "bool_or args k d = (case get_bool args k of Some b \<Rightarrow> b | None \<Rightarrow> d)"

text \<open>Running a pure check inside an operation.\<close>

definition op_arg :: "harness_error + 'a \<Rightarrow> 'a harness_op" where
  "op_arg r = op_reads (\<lambda>_. r)"

section \<open>Answers\<close>

record change_digest =
  cd_change_id :: "string option"
  cd_task_id :: string
  cd_objective :: string
  cd_why :: ReasonRecord
  cd_files :: "FileChangeRecord list"
  cd_evidence :: "HarnessEvent list"
  cd_verification :: "string list"
  cd_risks :: "string list"

datatype answer =
    StatusAnswer HarnessStatus
  | OperationsAnswer "OperationRecord list" nat bool "nat option"
  | ProjectAnswer ProjectState
  | StartedAnswer "TaskSession \<times> nat option" "string option"
  | TaskAnswer "TaskSession \<times> nat option"
  | FinishedAnswer "TaskSession \<times> nat option" ChangeSet change_digest bool
  | NoTaskAnswer nat
  | ContextAnswer TaskSession "HarnessEvent list" bool nat
  | EventsAnswer "HarnessEvent list" nat
  | SummaryAnswer change_digest

definition TASK_RESPONSE_BASELINE_ENTRY_LIMIT :: nat where
  "TASK_RESPONSE_BASELINE_ENTRY_LIMIT = 256"
definition TASK_CONTEXT_MIN_BYTES :: nat where "TASK_CONTEXT_MIN_BYTES = 8192"
definition TASK_CONTEXT_MAX_BYTES :: nat where "TASK_CONTEXT_MAX_BYTES = 131072"
definition TASK_CONTEXT_DEFAULT_BYTES :: nat where "TASK_CONTEXT_DEFAULT_BYTES = 32768"

text \<open>The task with at most 256 baseline entries, and their number when some were left out.\<close>

definition task_response_value :: "TaskSession \<Rightarrow> TaskSession \<times> nat option" where
  "task_response_value t =
     (let n = length (pb_entries (ts_baseline t))
      in if n \<le> TASK_RESPONSE_BASELINE_ENTRY_LIMIT then (t, None)
         else (with_entries t (take TASK_RESPONSE_BASELINE_ENTRY_LIMIT (pb_entries (ts_baseline t))), Some n))"

section \<open>Changes\<close>

definition stored_change_summary :: "TaskSession \<Rightarrow> ChangeSet \<Rightarrow> change_digest harness_op" where
  "stored_change_summary t c =
     op_bind (list_events (ts_id t) 0 2000) (\<lambda>events.
       op_return
         \<lparr>cd_change_id = Some (cs_id c), cd_task_id = ts_id t, cd_objective = ts_objective t,
          cd_why = cs_reason c, cd_files = cs_files c,
          cd_evidence = take 100 (filter (\<lambda>e. he_operation_id e \<in> set (cs_command_ids c)) events),
          cd_verification = cs_verification_ids c, cd_risks = cs_risks c\<rparr>)"

definition change_summary :: "Harness \<Rightarrow> json \<Rightarrow> answer harness_op" where
  "change_summary h args =
     op_bind (op_arg (optional_nonempty_string args ''task_id'')) (\<lambda>requested_task.
     op_bind (op_arg (optional_change_id args)) (\<lambda>requested_change.
     case requested_change of
       Some change_id \<Rightarrow>
         op_bind (change change_id) (\<lambda>c.
         op_bind (op_check (requested_task = None \<or> requested_task = Some (cs_task_id c)) ChangeTaskMismatch) (\<lambda>_.
         op_bind (load_task (cs_task_id c)) (\<lambda>t.
         op_bind (stored_change_summary t c) (\<lambda>d. op_return (SummaryAnswer d)))))
     | None \<Rightarrow>
         op_bind (case requested_task of
                    Some i \<Rightarrow> load_task i
                  | None \<Rightarrow> op_bind (current_task h) (\<lambda>t.
                      case t of Some t \<Rightarrow> op_return t | None \<Rightarrow> op_fail TaskStateRequired)) (\<lambda>t.
         case ts_latest_change_id t of
           Some change_id \<Rightarrow>
             op_bind (change change_id) (\<lambda>c.
             op_bind (stored_change_summary t c) (\<lambda>d. op_return (SummaryAnswer d)))
         | None \<Rightarrow>
             op_bind (change_files h (ts_id t)) (\<lambda>files.
             op_bind (list_events (ts_id t) 0 100) (\<lambda>events.
             op_return (SummaryAnswer
               \<lparr>cd_change_id = None, cd_task_id = ts_id t, cd_objective = ts_objective t,
                cd_why = \<lparr>rr_text = ts_objective t, rr_source = ''task_objective''\<rparr>,
                cd_files = files, cd_evidence = events, cd_verification = [], cd_risks = []\<rparr>))))))"

section \<open>Tasks\<close>

definition finalize_verifying_task :: "Harness \<Rightarrow> TaskSession \<Rightarrow> (TaskSession \<times> ChangeSet) harness_op" where
  "finalize_verifying_task h t =
     op_bind (op_check (ts_status t = Verifying) (InvalidTaskTransition (ts_status t) Completed)) (\<lambda>_.
     op_bind (op_arg (case ts_latest_change_id t of
                        Some i \<Rightarrow> Inr i | None \<Rightarrow> Inl (ChangeNotFound []))) (\<lambda>change_id.
     op_bind (change change_id) (\<lambda>c.
     op_bind (op_check (cs_task_id c = ts_id t) ChangeTaskMismatch) (\<lambda>_.
     op_bind (transition h (ts_id t) Completed) (\<lambda>completed.
     op_bind (enqueue_outcome (ts_id completed) VerifiedSuccess) (\<lambda>_.
     op_return (completed, c)))))))"

definition start_task :: "Harness \<Rightarrow> path \<Rightarrow> json \<Rightarrow> answer harness_op" where
  "start_task h scope args =
     op_bind (op_arg (case get_str args ''objective'' of
                        Some s \<Rightarrow> Inr s | None \<Rightarrow> Inl (InvalidArgument ''objective''))) (\<lambda>objective.
     let existing_task = (case get_str args ''existing_task'' of Some s \<Rightarrow> s | None \<Rightarrow> ''error'')
     in op_bind (op_check (existing_task \<in> {''error'', ''finish_if_complete''})
                   (InvalidArgument ''existing_task'')) (\<lambda>_.
        op_bind (if existing_task = ''finish_if_complete''
                 then op_bind (current_task_for_root h scope) (\<lambda>existing.
                        case existing of
                          Some t \<Rightarrow>
                            if ts_status t = Verifying \<and> ts_pending_steps t = [] \<and> ts_latest_change_id t \<noteq> None
                            then op_bind (finalize_verifying_task h t) (\<lambda>_. op_return (Some (ts_id t)))
                            else op_return None
                        | None \<Rightarrow> op_return None)
                 else op_return None) (\<lambda>recovered.
        op_bind (start_task_for h objective scope) (\<lambda>t.
        op_return (StartedAnswer (task_response_value t) recovered)))))"

definition update_task :: "Harness \<Rightarrow> json \<Rightarrow> answer harness_op" where
  "update_task h args =
     op_bind (op_arg (task_id_arg args)) (\<lambda>i.
     op_bind (op_arg (string_list (jget args ''completed_steps''))) (\<lambda>completed_steps.
     op_bind (op_arg (string_list (jget args ''pending_steps''))) (\<lambda>pending_steps.
     op_bind (update_steps h i completed_steps pending_steps) (\<lambda>t.
     op_return (TaskAnswer (task_response_value t))))))"

definition tool_transition :: "Harness \<Rightarrow> json \<Rightarrow> TaskStatus \<Rightarrow> answer harness_op" where
  "tool_transition h args status =
     op_bind (op_arg (task_id_arg args)) (\<lambda>i.
     op_bind (transition h i status) (\<lambda>t. op_return (TaskAnswer (task_response_value t))))"

definition close_failed_task :: "Harness \<Rightarrow> json \<Rightarrow> answer harness_op" where
  "close_failed_task h args =
     op_bind (op_arg (task_id_arg args)) (\<lambda>i.
     op_bind (transition h i FailedFinal) (\<lambda>t.
     op_bind (enqueue_outcome (ts_id t) Failure) (\<lambda>_.
     op_return (TaskAnswer (task_response_value t)))))"

definition rollback_task :: "Harness \<Rightarrow> json \<Rightarrow> answer harness_op" where
  "rollback_task h args =
     op_bind (op_arg (task_id_arg args)) (\<lambda>i.
     op_bind (load_task i) (\<lambda>current.
     op_bind (op_check (ts_status current = Failed)
                (InvalidTaskTransition (ts_status current) RolledBack)) (\<lambda>_.
     op_bind (original_baseline_matches h i) (\<lambda>(matches, _).
     op_bind (op_check matches RollbackNotVerified) (\<lambda>_.
     op_bind (transition h i RolledBack) (\<lambda>t.
     op_bind (enqueue_outcome (ts_id t) OutcomeRolledBack) (\<lambda>_.
     op_return (TaskAnswer (task_response_value t)))))))))"

definition summary_arg :: "json \<Rightarrow> harness_error + string option" where
  "summary_arg args =
     (case jget args ''summary'' of
        None \<Rightarrow> Inr None
      | Some v \<Rightarrow> (case as_str v of Some s \<Rightarrow> Inr (Some s) | None \<Rightarrow> Inl (InvalidArgument ''summary'')))"

definition tool_finish_task :: "Harness \<Rightarrow> json \<Rightarrow> answer harness_op" where
  "tool_finish_task h args =
     op_bind (op_arg (task_id_arg args)) (\<lambda>i.
     let allow_unverified = bool_or args ''allow_unverified'' False
     in op_bind (load_task i) (\<lambda>current.
        if ts_status current = Verifying \<and> \<not> allow_unverified
        then op_bind (finalize_verifying_task h current) (\<lambda>(t, c).
             op_bind (stored_change_summary t c) (\<lambda>d.
             op_return (FinishedAnswer (task_response_value t) c d True)))
        else op_bind (op_arg (summary_arg args)) (\<lambda>summary.
             op_bind (finish_task h i summary
                        (if allow_unverified then CompletedUnverified else Verifying)) (\<lambda>(t, c).
             op_bind (if ts_status t = CompletedUnverified
                      then enqueue_outcome (ts_id t) UnverifiedSuccess else op_return ()) (\<lambda>_.
             op_bind (stored_change_summary t c) (\<lambda>d.
             op_return (FinishedAnswer (task_response_value t) c d False)))))))"

definition task_context ::
    "Harness \<Rightarrow> path \<Rightarrow> (nat \<Rightarrow> TaskSession \<Rightarrow> HarnessEvent list \<Rightarrow> bool \<Rightarrow> nat) \<Rightarrow> json \<Rightarrow> answer harness_op" where
  "task_context h scope measured args =
     (let max_bytes = clamp (u64_or args ''max_bytes'' TASK_CONTEXT_DEFAULT_BYTES)
                        TASK_CONTEXT_MIN_BYTES TASK_CONTEXT_MAX_BYTES
      in op_bind (case get_str args ''task_id'' of
                    Some i \<Rightarrow> op_bind (load_task i) (\<lambda>t. op_return (Some t))
                  | None \<Rightarrow> current_task_for_root h scope) (\<lambda>t.
         case t of
           None \<Rightarrow> op_return (NoTaskAnswer max_bytes)
         | Some t \<Rightarrow>
             op_bind (list_events (ts_id t) 0 101) (\<lambda>events.
             let (t, events, truncated) = bounded_task_context (measured max_bytes) t events max_bytes
             in op_return (ContextAnswer t events truncated max_bytes))))"

definition list_task_events :: "json \<Rightarrow> answer harness_op" where
  "list_task_events args =
     op_bind (op_arg (task_id_arg args)) (\<lambda>i.
     let offset = u64_or args ''cursor'' 0
     in op_bind (list_events i offset (clamp (u64_or args ''limit'' 50) 1 200)) (\<lambda>events.
        op_return (EventsAnswer events (offset + length events))))"

section \<open>The operation log\<close>

definition operation_matches :: "json \<Rightarrow> OperationRecord \<Rightarrow> bool" where
  "operation_matches args e =
     ((case get_str args ''tool'' of Some tool \<Rightarrow> op_tool e = tool | None \<Rightarrow> True)
      \<and> (case get_str args ''kind'' of Some kind \<Rightarrow> op_kind e = kind | None \<Rightarrow> True)
      \<and> (case get_u64 args ''since_ts_ms'' of
           Some since \<Rightarrow> (case parse_usize (op_created_at e) of Some t \<Rightarrow> t \<ge> since | None \<Rightarrow> False)
         | None \<Rightarrow> True)
      \<and> (\<not> bool_or args ''errors_only'' False \<or> op_kind e = ''failed''
         \<or> get_bool (op_result_summary e) ''ok'' = Some False))"

definition operation_log :: "json \<Rightarrow> answer harness_op" where
  "operation_log args =
     (let offset = u64_or args ''cursor'' 0;
          limit = clamp (u64_or args ''limit'' 50) 1 200;
          order = (case get_str args ''order'' of Some s \<Rightarrow> s | None \<Rightarrow> ''desc'')
      in op_bind (op_check (order \<in> {''asc'', ''desc''}) (InvalidArgument ''order'')) (\<lambda>_.
         op_bind (list_operations 0 u64_max) (\<lambda>operations.
         let matching = filter (operation_matches args) operations;
             ordered = (if order = ''desc'' then rev matching else matching);
             shown = take limit (drop offset ordered);
             next_offset = sat_add offset (length shown);
             has_more = (next_offset < length ordered)
         in op_return (OperationsAnswer shown (length ordered) has_more
              (if has_more then Some next_offset else None)))))"

section \<open>Dispatch\<close>

record tool_env =
  te_harness :: Harness
  te_scope :: path
  te_identity :: "path \<Rightarrow> string option \<times> string option"
  te_measured :: "nat \<Rightarrow> TaskSession \<Rightarrow> HarnessEvent list \<Rightarrow> bool \<Rightarrow> nat"

definition call :: "tool_env \<Rightarrow> string \<Rightarrow> json \<Rightarrow> answer harness_op" where
  "call env name args =
     (let h = te_harness env; scope = te_scope env
      in if name = ''harness_status'' then
           op_bind (status_for h (te_identity env) scope) (\<lambda>s. op_return (StatusAnswer s))
         else if name = ''operation_log'' then operation_log args
         else if name = ''project_state'' then
           op_bind (project_state_for h scope (u64_or args ''max_files'' 200)) (\<lambda>s. op_return (ProjectAnswer s))
         else if name = ''start_task'' then start_task h scope args
         else if name = ''update_task'' then update_task h args
         else if name = ''pause_task'' then tool_transition h args Paused
         else if name = ''resume_task'' then tool_transition h args Active
         else if name = ''fail_task'' then tool_transition h args Failed
         else if name = ''close_failed_task'' then close_failed_task h args
         else if name = ''rollback_task'' then rollback_task h args
         else if name = ''finish_task'' then tool_finish_task h args
         else if name = ''task_context'' then task_context h scope (te_measured env) args
         else if name = ''list_task_events'' then list_task_events args
         else if name = ''change_summary'' then change_summary h args
         else op_fail (InvalidArgument ''name''))"

end
