(* ===== verification/Harness_Runs.thy ===== *)
theory Harness_Runs
  imports Harness_Tools
begin

text \<open>
  Runs of the harness tools: any sequence of tool calls, where each write of a call may fail
  (\<open>run True\<close>) or all succeed (\<open>run False\<close>).  The first section keeps the slot discipline along
  reliable runs; the second the history of the tasks along all runs.
\<close>

section \<open>Runs\<close>

definition empty_store :: "HarnessStore \<Rightarrow> bool" where
  "empty_store st \<longleftrightarrow> hs_tasks st = [] \<and> hs_state st = None \<and> hs_changes st = [] \<and> hs_outcomes st = []"

definition fresh_ids :: "Harness \<Rightarrow> HarnessStore \<Rightarrow> bool" where
  "fresh_ids h st \<longleftrightarrow> map_of (hs_tasks st) (uuid h 0) = None \<and> map_of (hs_changes st) (uuid h 0) = None"

text \<open>Each call sees a clock that ticks at its own rate and \<open>n\<close> more writes that succeed.\<close>

inductive run :: "bool \<Rightarrow> HarnessStore \<Rightarrow> bool" for faulty :: bool where
  start: "empty_store st \<Longrightarrow> run faulty st"
| called: "run faulty st \<Longrightarrow> fresh_ids (te_harness env) st \<Longrightarrow> faulty \<or> n = None \<Longrightarrow>
    run faulty (snd (call env name args (st\<lparr>io_left := n, tick := k\<rparr>)))"

section \<open>Reliable runs keep the slot discipline\<close>

definition reliable :: "HarnessStore \<Rightarrow> bool" where
  "reliable st \<longleftrightarrow> disciplined st \<and> io_left st = None"

definition reliable_fresh :: "Harness \<Rightarrow> HarnessStore \<Rightarrow> bool" where
  "reliable_fresh h st \<longleftrightarrow> reliable st \<and> map_of (hs_tasks st) (uuid h 0) = None"

lemma runs_read_only: "read_only m \<Longrightarrow> runs P m (\<lambda>_. P)"
  by (auto simp: runs_def read_only_def split: prod.split) (metis snd_conv)

lemma keeps_bind:
  "runs P m (\<lambda>_. P) \<Longrightarrow> (\<And>x. runs P (f x) (\<lambda>_. P)) \<Longrightarrow> runs P (op_bind m f) (\<lambda>_. P)"
  by (rule runs_bind [where M = "\<lambda>_. P"]) (auto intro: runs_post split: sum.split)

lemma keeps_current_task: "runs (reliable_fresh h) (current_task_for_scope h' sc) (\<lambda>_. reliable_fresh h)"
proof (rule runsI)
  fix st r st' assume "reliable_fresh h st" and m: "current_task_for_scope h' sc st = (r, st')"
  then have "disciplined st" "io_left st = None" "map_of (hs_tasks st) (uuid h 0) = None"
    by (simp_all add: reliable_fresh_def reliable_def)
  then show "reliable_fresh h st'"
    using current_task_right [of st h' sc] m by (metis prod.inject reliable_def reliable_fresh_def same_records_def)
qed

lemma keeps_transition: "runs (reliable_fresh h) (transition h' i s) (\<lambda>_. reliable_fresh h)"
proof (rule runsI)
  fix st r st' assume "reliable_fresh h st" and m: "transition h' i s st = (r, st')"
  then have a: "disciplined st" "io_left st = None" "map_of (hs_tasks st) (uuid h 0) = None"
    by (simp_all add: reliable_fresh_def reliable_def)
  show "reliable_fresh h st'"
  proof (cases rule: transition_result [OF a(1,2), of h' i s, case_names refused moved])
    case (refused e st2)
    then show ?thesis using m a by (simp add: reliable_fresh_def reliable_def same_records_def)
  next
    case (moved t st2)
    then have "i \<noteq> uuid h 0" using a(3) by auto
    then show ?thesis using moved m a by (simp add: reliable_fresh_def reliable_def)
  qed
qed

lemma keeps_finish:
  assumes "s \<noteq> Active"
  shows "runs (reliable_fresh h) (finish_task h' i summary s) (\<lambda>_. reliable_fresh h)"
proof (rule runsI)
  fix st r st' assume "reliable_fresh h st" and m: "finish_task h' i summary s st = (r, st')"
  then have a: "disciplined st" "io_left st = None" "map_of (hs_tasks st) (uuid h 0) = None"
    by (simp_all add: reliable_fresh_def reliable_def)
  show "reliable_fresh h st'"
  proof (cases rule: finish_result [OF a(1,2) assms, of h' i summary, case_names refused finished])
    case (refused e)
    then show ?thesis using m a by (simp add: reliable_fresh_def reliable_def)
  next
    case (finished t c st2)
    then have "i \<noteq> uuid h 0" using a(3) by auto
    then show ?thesis using finished m a by (simp add: reliable_fresh_def reliable_def)
  qed
qed

lemma keeps_update_steps: "runs (reliable_fresh h) (update_steps h' i a b) (\<lambda>_. reliable_fresh h)"
proof (rule runsI)
  fix st r st' assume "reliable_fresh h st" and m: "update_steps h' i a b st = (r, st')"
  then have c: "disciplined st" "io_left st = None" "map_of (hs_tasks st) (uuid h 0) = None"
    by (simp_all add: reliable_fresh_def reliable_def)
  show "reliable_fresh h st'"
  proof (cases rule: update_steps_result [OF c(1,2), of h' i a b, case_names refused updated])
    case (refused e)
    then show ?thesis using m c by (simp add: reliable_fresh_def reliable_def)
  next
    case (updated t t' st2)
    then have "i \<noteq> uuid h 0" using c(3) by auto
    then show ?thesis using updated m c by (simp add: reliable_fresh_def reliable_def)
  qed
qed

lemma keeps_enqueue: "runs (reliable_fresh h) (enqueue_outcome i x) (\<lambda>_. reliable_fresh h)"
  by (rule runsI) (auto simp: enqueue_outcome_def reliable_fresh_def reliable_def elim: disciplined_cong)

lemma start_reliable: "runs (reliable_fresh h) (start_task_for h objective root) (\<lambda>_. reliable)"
proof (rule runsI)
  fix st r st' assume "reliable_fresh h st" and m: "start_task_for h objective root st = (r, st')"
  then have a: "disciplined st" "io_left st = None" "map_of (hs_tasks st) (uuid h 0) = None"
    by (simp_all add: reliable_fresh_def reliable_def)
  show "reliable st'"
    by (cases rule: start_result [OF a refl, of objective root])
      (use m a in \<open>auto simp: reliable_def same_records_def\<close>)
qed

lemma keeps_read:
  "runs P (op_arg r) (\<lambda>_. P)" "runs P (op_check b e) (\<lambda>_. P)" "runs P (op_return x) (\<lambda>_. P)"
  "runs P (op_fail e) (\<lambda>_. P)" "runs P (load_task i) (\<lambda>_. P)" "runs P (load_change i) (\<lambda>_. P)"
  "runs P (list_events i m n) (\<lambda>_. P)" "runs P (op_reads f) (\<lambda>_. P)"
  "runs P (list_operations m n) (\<lambda>_. P)"
  by (simp_all add: runs_read_only op_arg_def)

lemmas keeps_rules = keeps_bind keeps_read

lemma keeps_change: "runs P (change i) (\<lambda>_. P)"
  unfolding change_def by (intro keeps_rules)

lemma keeps_stored_summary: "runs P (stored_change_summary t c) (\<lambda>_. P)"
  unfolding stored_change_summary_def by (intro keeps_rules)

lemma keeps_if: "runs P m Q \<Longrightarrow> runs P n Q \<Longrightarrow> runs P (if b then m else n) Q"
  by simp

lemma keeps_option:
  "runs P m Q \<Longrightarrow> (\<And>x. runs P (f x) Q) \<Longrightarrow> runs P (case v of None \<Rightarrow> m | Some x \<Rightarrow> f x) Q"
  by (simp split: option.split)

lemma keeps_pair: "(\<And>x y. runs P (f x y) Q) \<Longrightarrow> runs P (case p of (x, y) \<Rightarrow> f x y) Q"
  by (simp split: prod.split)

lemmas keeps_more = keeps_change keeps_stored_summary keeps_if keeps_option keeps_pair

lemma keeps_then:
  assumes "runs P m (\<lambda>_. P)" "\<And>x. runs P (f x) (\<lambda>_. Q)" "\<And>st. P st \<Longrightarrow> Q st"
  shows "runs P (op_bind m f) (\<lambda>_. Q)"
  by (rule runs_bind [where M = "\<lambda>_. P"])
    (use assms in \<open>auto intro: runs_post split: sum.split\<close>)

lemma then_keeps:
  assumes "runs P m (\<lambda>_. Q)" "\<And>x. runs Q (f x) (\<lambda>_. Q)"
  shows "runs P (op_bind m f) (\<lambda>_. Q)"
  by (rule runs_bind [where M = "\<lambda>_. Q"])
    (use assms in \<open>auto intro: runs_post split: sum.split\<close>)

lemma weaken: "runs P m (\<lambda>_. P) \<Longrightarrow> (\<And>st. P st \<Longrightarrow> Q st) \<Longrightarrow> runs P m (\<lambda>_. Q)"
  by (rule runs_post)

text \<open>
  An interface: a predicate \<open>I\<close> on stores that the task operations keep, down to \<open>K\<close> for those that move
  a task to another status and to \<open>J\<close> for the two that use up the call's fresh identifier.  Then every
  tool leads from \<open>I\<close> to \<open>J\<close>: it moves a task at most once, and starts one only after that.
\<close>

locale kept_by_operations =
  fixes h :: Harness and I K J :: "HarnessStore \<Rightarrow> bool"
  assumes current: "runs I (current_task_for_scope h sc) (\<lambda>_. I)"
    and moving: "s \<notin> {Verifying, CompletedUnverified, FailedFinal, RolledBack, Completed} \<Longrightarrow>
      runs I (transition h i s) (\<lambda>_. K)"
    and moving_on: "(s, x) \<in> {(FailedFinal, Failure), (RolledBack, OutcomeRolledBack), (Completed, VerifiedSuccess)} \<Longrightarrow>
      runs I (op_bind (transition h i s) (\<lambda>t. op_bind (enqueue_outcome (ts_id t) x) (\<lambda>_. op_return t))) (\<lambda>_. K)"
    and finishing: "s \<in> {Verifying, CompletedUnverified} \<Longrightarrow>
      runs I (op_bind (finish_task h i summary s) (\<lambda>(t, c).
        op_bind (if ts_status t = CompletedUnverified then enqueue_outcome (ts_id t) UnverifiedSuccess
                 else op_return ()) (\<lambda>_. op_return (t, c)))) (\<lambda>_. J)"
    and stepping: "runs I (update_steps h i a b) (\<lambda>_. I)"
    and starting: "runs K (start_task_for h objective p) (\<lambda>_. J)"
    and moved: "I st \<Longrightarrow> K st"
    and weaker: "K st \<Longrightarrow> J st"
begin

lemma unmoved: "I st \<Longrightarrow> J st"
  by (rule weaker [OF moved])

lemmas intros = keeps_rules keeps_more current stepping

text \<open>Reading before a move, and reading after it.\<close>

lemmas before_move = keeps_then [OF keeps_read(1) _ moved] keeps_then [OF keeps_read(2) _ moved]
  keeps_then [OF keeps_read(5) _ moved] keeps_then [OF keeps_change _ moved]
  keeps_then [OF keeps_read(8) _ moved]

lemmas after_move = then_keeps [OF moving] then_keeps [OF moving_on]

lemma keeps_current_tasks: "runs I (current_task h) (\<lambda>_. I)" "runs I (current_task_for_root h p) (\<lambda>_. I)"
  by (simp_all add: current_task_def current_task_for_root_def current)

lemma keeps_finalize: "runs I (finalize_verifying_task h t) (\<lambda>_. K)"
proof -
  have "finalize_verifying_task h t =
     op_bind (op_check (ts_status t = Verifying) (InvalidTaskTransition (ts_status t) Completed)) (\<lambda>_.
     op_bind (op_arg (case ts_latest_change_id t of Some i \<Rightarrow> Inr i | None \<Rightarrow> Inl (ChangeNotFound []))) (\<lambda>change_id.
     op_bind (change change_id) (\<lambda>c.
     op_bind (op_check (cs_task_id c = ts_id t) ChangeTaskMismatch) (\<lambda>_.
     op_bind (op_bind (transition h (ts_id t) Completed) (\<lambda>t.
       op_bind (enqueue_outcome (ts_id t) VerifiedSuccess) (\<lambda>_. op_return t))) (\<lambda>completed.
     op_return (completed, c))))))"
    by (simp add: finalize_verifying_task_def op_bind_assoc op_bind_return)
  then show ?thesis by (simp only:) (intro before_move after_move keeps_read, simp)
qed

lemma keeps_read_tools:
  "runs I (change_summary h args) (\<lambda>_. I)" "runs I (task_context h p measured args) (\<lambda>_. I)"
  "runs I (list_task_events args) (\<lambda>_. I)" "runs I (operation_log args) (\<lambda>_. I)"
  "runs I (status_for h identity p) (\<lambda>_. I)" "runs I (project_state_for h p n) (\<lambda>_. I)"
  unfolding change_summary_def task_context_def list_task_events_def operation_log_def status_for_def
    project_state_for_def Let_def change_files_def
  by (intro intros keeps_current_tasks)+

lemma keeps_writing_tools:
  "runs I (update_task h args) (\<lambda>_. I)"
  "s \<notin> {Verifying, CompletedUnverified, FailedFinal, RolledBack, Completed} \<Longrightarrow>
    runs I (tool_transition h args s) (\<lambda>_. K)"
  unfolding update_task_def tool_transition_def
  by (intro intros) (intro before_move after_move keeps_read; assumption)

lemma keeps_close: "runs I (close_failed_task h args) (\<lambda>_. K)"
proof -
  have "close_failed_task h args = op_bind (op_arg (task_id_arg args)) (\<lambda>i.
     op_bind (op_bind (transition h i FailedFinal) (\<lambda>t.
       op_bind (enqueue_outcome (ts_id t) Failure) (\<lambda>_. op_return t))) (\<lambda>t.
     op_return (TaskAnswer (task_response_value t))))"
    by (simp add: close_failed_task_def op_bind_assoc op_bind_return)
  then show ?thesis by (simp only:) (intro before_move after_move keeps_read, simp)
qed

lemma keeps_matches: "runs I (original_baseline_matches h i) (\<lambda>_. I)"
  unfolding original_baseline_matches_def Let_def by (intro intros)

lemma keeps_rollback: "runs I (rollback_task h args) (\<lambda>_. K)"
proof -
  have "rollback_task h args = op_bind (op_arg (task_id_arg args)) (\<lambda>i.
     op_bind (load_task i) (\<lambda>current.
     op_bind (op_check (ts_status current = Failed)
                (InvalidTaskTransition (ts_status current) RolledBack)) (\<lambda>_.
     op_bind (original_baseline_matches h i) (\<lambda>(matches, _).
     op_bind (op_check matches RollbackNotVerified) (\<lambda>_.
     op_bind (op_bind (transition h i RolledBack) (\<lambda>t.
       op_bind (enqueue_outcome (ts_id t) OutcomeRolledBack) (\<lambda>_. op_return t))) (\<lambda>t.
     op_return (TaskAnswer (task_response_value t))))))))"
    by (simp add: rollback_task_def op_bind_assoc op_bind_return)
  then show ?thesis
    by (simp only:) (intro before_move keeps_then [OF keeps_matches _ moved] keeps_pair after_move keeps_read, simp)
qed

lemma keeps_finish_tool: "runs I (tool_finish_task h args) (\<lambda>_. J)"
proof -
  have "tool_finish_task h args =
     op_bind (op_arg (task_id_arg args)) (\<lambda>i.
     op_bind (load_task i) (\<lambda>current.
        if ts_status current = Verifying \<and> \<not> bool_or args ''allow_unverified'' False
        then op_bind (finalize_verifying_task h current) (\<lambda>(t, c).
             op_bind (stored_change_summary t c) (\<lambda>d.
             op_return (FinishedAnswer (task_response_value t) c d True)))
        else op_bind (op_arg (summary_arg args)) (\<lambda>summary.
             op_bind (op_bind (finish_task h i summary
                        (if bool_or args ''allow_unverified'' False then CompletedUnverified else Verifying)) (\<lambda>(t, c).
               op_bind (if ts_status t = CompletedUnverified
                      then enqueue_outcome (ts_id t) UnverifiedSuccess else op_return ()) (\<lambda>_. op_return (t, c))))
             (\<lambda>(t, c). op_bind (stored_change_summary t c) (\<lambda>d.
             op_return (FinishedAnswer (task_response_value t) c d False))))))"
    by (simp add: tool_finish_task_def Let_def op_bind_assoc op_bind_return op_bind_case_prod cong: if_cong)
  moreover have "runs I (op_bind (finalize_verifying_task h u) (\<lambda>(t, c).
      op_bind (stored_change_summary t c) (\<lambda>d.
        op_return (FinishedAnswer (task_response_value t) c d True)))) (\<lambda>_. J)" for u
    by (rule runs_post [OF then_keeps [OF keeps_finalize] weaker]) (intro keeps_bind keeps_pair keeps_more keeps_read)
  moreover have "runs I (op_bind (op_bind (finish_task h i summary
                        (if bool_or args ''allow_unverified'' False then CompletedUnverified else Verifying)) (\<lambda>(t, c).
               op_bind (if ts_status t = CompletedUnverified
                      then enqueue_outcome (ts_id t) UnverifiedSuccess else op_return ()) (\<lambda>_. op_return (t, c))))
             (\<lambda>(t, c). op_bind (stored_change_summary t c) (\<lambda>d.
             op_return (FinishedAnswer (task_response_value t) c d False)))) (\<lambda>_. J)" for i summary
    by (rule then_keeps [OF finishing]) (simp, intro keeps_bind keeps_pair keeps_more keeps_read)
  ultimately show ?thesis
    by (simp only:) (intro keeps_then [OF keeps_read(1) _ unmoved] keeps_then [OF keeps_read(5) _ unmoved]
        keeps_if; assumption?)
qed

lemma keeps_start_tool: "runs I (start_task h p args) (\<lambda>_. J)"
proof -
  have 2: "runs K (op_bind (start_task_for h objective p) (\<lambda>t.
      op_return (StartedAnswer (task_response_value t) recovered))) (\<lambda>_. J)" for objective recovered
    by (rule then_keeps [OF starting]) (rule keeps_read)
  have 1: "runs I (if b
       then op_bind (current_task_for_root h p) (\<lambda>existing.
              case existing of
                Some t \<Rightarrow>
                  if ts_status t = Verifying \<and> ts_pending_steps t = [] \<and> ts_latest_change_id t \<noteq> None
                  then op_bind (finalize_verifying_task h t) (\<lambda>_. op_return (Some (ts_id t)))
                  else op_return None
              | None \<Rightarrow> op_return None)
       else op_return None) (\<lambda>_. K)" for b
    by (intro keeps_if keeps_then [OF keeps_current_tasks(2) _ moved] keeps_option then_keeps [OF keeps_finalize]
        weaken [OF keeps_read(3) moved] keeps_read)
  have move_then_start: "runs I m (\<lambda>_. K) \<Longrightarrow> (\<And>x. runs K (f x) (\<lambda>_. J)) \<Longrightarrow> runs I (op_bind m f) (\<lambda>_. J)"
    for m :: "'x harness_op" and f :: "'x \<Rightarrow> 'y harness_op"
    by (rule runs_bind [where M = "\<lambda>_. K"]) (auto intro: runs_post weaker split: sum.split)
  show ?thesis
    unfolding start_task_def Let_def
    by (intro keeps_then [OF keeps_read(1) _ unmoved] keeps_then [OF keeps_read(2) _ unmoved]
        move_then_start [OF 1] 2)
qed

lemma keeps_call:
  assumes "te_harness env = h"
  shows "runs I (call env name args) (\<lambda>_. J)"
proof -
  note tools = keeps_read_tools keeps_writing_tools keeps_close keeps_rollback
  have read: "runs I (op_bind m (\<lambda>s. op_return (g s))) (\<lambda>_. J)" if "runs I m (\<lambda>_. I)" for m and g :: "'x \<Rightarrow> answer"
    by (rule weaken [OF keeps_bind [OF that keeps_read(3)] unmoved])
  show ?thesis
    unfolding call_def Let_def assms
    by (intro keeps_if keeps_start_tool keeps_finish_tool read keeps_read_tools
        weaken [OF keeps_writing_tools(1) unmoved] runs_post [OF keeps_writing_tools(2) weaker]
        runs_post [OF keeps_close weaker] runs_post [OF keeps_rollback weaker]
        weaken [OF keeps_read_tools(1) unmoved] weaken [OF keeps_read_tools(2) unmoved]
        weaken [OF keeps_read_tools(3) unmoved] weaken [OF keeps_read_tools(4) unmoved]
        weaken [OF keeps_read(4) unmoved]) simp_all
qed

end


interpretation reliable: kept_by_operations h "reliable_fresh h" "reliable_fresh h" reliable for h
proof
  show "runs (reliable_fresh h) (op_bind (transition h i s)
      (\<lambda>t. op_bind (enqueue_outcome (ts_id t) x) (\<lambda>_. op_return t))) (\<lambda>_. reliable_fresh h)" for i s x
    by (intro keeps_bind keeps_transition keeps_enqueue keeps_read)
  show "runs (reliable_fresh h) (op_bind (finish_task h i summary s) (\<lambda>(t, c).
        op_bind (if ts_status t = CompletedUnverified then enqueue_outcome (ts_id t) UnverifiedSuccess
                 else op_return ()) (\<lambda>_. op_return (t, c)))) (\<lambda>_. reliable)"
    if "s \<in> {Verifying, CompletedUnverified}" for i summary s
  proof (rule weaken)
    have "s \<noteq> Active" using that by auto
    then show "runs (reliable_fresh h) (op_bind (finish_task h i summary s) (\<lambda>(t, c).
        op_bind (if ts_status t = CompletedUnverified then enqueue_outcome (ts_id t) UnverifiedSuccess
                 else op_return ()) (\<lambda>_. op_return (t, c)))) (\<lambda>_. reliable_fresh h)"
      by (intro keeps_bind keeps_finish keeps_pair keeps_if keeps_enqueue keeps_read)
  qed (simp add: reliable_fresh_def)
qed (auto intro: keeps_current_task keeps_transition keeps_update_steps start_reliable
    simp: reliable_fresh_def)

lemma disciplined_empty: "empty_store st \<Longrightarrow> disciplined st"
  by (simp add: empty_store_def disciplined_def keyed_def one_per_scope_def state_exact_def occupant_def)

lemma run_disciplined: "run False st \<Longrightarrow> disciplined st"
proof (induction rule: run.induct)
  case (start st)
  then show ?case by (rule disciplined_empty)
next
  case (called st env n name args k)
  then have "n = None" by simp
  then have "reliable_fresh (te_harness env) (st\<lparr>io_left := n, tick := k\<rparr>)"
    using called disciplined_cong [of st "st\<lparr>io_left := n, tick := k\<rparr>"]
    by (simp add: reliable_fresh_def reliable_def fresh_ids_def)
  from runsD [OF reliable.keeps_call [OF refl] this surjective_pairing]
  show ?case by (simp add: reliable_def)
qed

end
