(* ===== verification/Harness_History.thy ===== *)
theory Harness_History
  imports Harness_Runs
begin

text \<open>
  The history of the tasks along runs in which any write may fail: a call moves a status at most once,
  as \<open>can_transition_to\<close> allows, a task that was finished has its captured change, and every outcome in the
  queue is the one its task ended with.
\<close>

section \<open>The invariant\<close>

abbreviation task_at :: "HarnessStore \<Rightarrow> string \<Rightarrow> TaskSession option" where
  "task_at st \<equiv> map_of (hs_tasks st)"

definition status_of_outcome :: "KnowledgeTaskOutcome \<Rightarrow> TaskStatus" where
  "status_of_outcome x =
     (case x of VerifiedSuccess \<Rightarrow> Completed | UnverifiedSuccess \<Rightarrow> CompletedUnverified
      | Failure \<Rightarrow> FailedFinal | OutcomeRolledBack \<Rightarrow> RolledBack)"

definition has_change :: "HarnessStore \<Rightarrow> TaskSession \<Rightarrow> bool" where
  "has_change st t \<longleftrightarrow>
     (\<forall>i. ts_latest_change_id t = Some i \<longrightarrow>
        (\<exists>c. map_of (hs_changes st) i = Some c \<and> cs_task_id c = ts_id t))
     \<and> (ts_status t \<in> {Verifying, Completed, CompletedUnverified} \<longrightarrow> ts_latest_change_id t \<noteq> None)"

definition outcomes_true :: "HarnessStore \<Rightarrow> bool" where
  "outcomes_true st \<longleftrightarrow>
     (\<forall>(i, x) \<in> set (hs_outcomes st). \<exists>t. task_at st i = Some t \<and> ts_status t = status_of_outcome x)"

text \<open>Since \<open>st0\<close> no task has moved (\<open>False\<close>), or every task at most once (\<open>True\<close>).\<close>

definition moves_to :: "bool \<Rightarrow> TaskStatus \<Rightarrow> TaskStatus \<Rightarrow> bool" where
  "moves_to once a b \<longleftrightarrow> b = a \<or> once \<and> can_transition_to a b"

definition continues :: "bool \<Rightarrow> HarnessStore \<Rightarrow> HarnessStore \<Rightarrow> bool" where
  "continues once st0 st \<longleftrightarrow>
     (\<forall>i t. task_at st0 i = Some t \<longrightarrow>
        (\<exists>t'. task_at st i = Some t' \<and> moves_to once (ts_status t) (ts_status t')))"

definition history :: "bool \<Rightarrow> HarnessStore \<Rightarrow> HarnessStore \<Rightarrow> bool" where
  "history once st0 st \<longleftrightarrow> keyed st \<and> (\<forall>i t. task_at st i = Some t \<longrightarrow> has_change st t)
     \<and> outcomes_true st \<and> continues once st0 st"

text \<open>The invariant depends on three components of the store.\<close>

definition same_history :: "HarnessStore \<Rightarrow> HarnessStore \<Rightarrow> bool" where
  "same_history st st' \<longleftrightarrow> hs_tasks st' = hs_tasks st \<and> hs_changes st' = hs_changes st
     \<and> hs_outcomes st' = hs_outcomes st"

lemma same_history_refl [simp]: "same_history st st"
  by (simp add: same_history_def)

lemma same_history_trans: "same_history a b \<Longrightarrow> same_history b c \<Longrightarrow> same_history a c"
  by (simp add: same_history_def)

lemma history_cong:
  assumes "same_history st st'" "history once st0 st"
  shows "history once st0 st'"
proof -
  have eqs: "hs_tasks st' = hs_tasks st" "hs_changes st' = hs_changes st" "hs_outcomes st' = hs_outcomes st"
    using assms(1) by (simp_all add: same_history_def)
  have "history once st0 st' = history once st0 st"
    unfolding history_def keyed_def has_change_def outcomes_true_def continues_def eqs by (rule refl)
  with assms(2) show ?thesis by simp
qed

lemma historyD:
  assumes "history once st0 st"
  shows "keyed st" "task_at st i = Some t \<Longrightarrow> has_change st t"
    "(i, x) \<in> set (hs_outcomes st) \<Longrightarrow> \<exists>t. task_at st i = Some t \<and> ts_status t = status_of_outcome x"
    "task_at st0 i = Some u \<Longrightarrow> \<exists>t'. task_at st i = Some t' \<and> moves_to once (ts_status u) (ts_status t')"
  using assms unfolding history_def outcomes_true_def continues_def by blast+

lemma terminal_stays:
  "can_transition_to (status_of_outcome x) s \<Longrightarrow> False"
  by (cases x) (simp_all add: status_of_outcome_def can_transition_to_def)

text \<open>What a write may do to the status of a task, and how that counts.\<close>

definition next_move :: "bool \<Rightarrow> bool \<Rightarrow> TaskStatus \<Rightarrow> TaskStatus \<Rightarrow> bool" where
  "next_move once once' a b \<longleftrightarrow> b = a \<and> once' = once \<or> \<not> once \<and> once' \<and> can_transition_to a b"

lemma moves_to_step: "moves_to once a b \<Longrightarrow> next_move once once' b c \<Longrightarrow> moves_to once' a c"
  by (auto simp: moves_to_def next_move_def)

lemma moves_to_later: "moves_to once a b \<Longrightarrow> next_move once once' x y \<Longrightarrow> moves_to once' a b"
  by (auto simp: moves_to_def next_move_def)

lemma history_later: "history False st0 st \<Longrightarrow> history once st0 st"
  unfolding history_def continues_def moves_to_def by blast

lemma history_put:
  assumes "history once st0 st" "task_at st i = Some t" "ts_id t' = i"
    and moves: "next_move once once' (ts_status t) (ts_status t')"
    and link: "has_change st t'"
    and st': "hs_tasks st' = al_put i t' (hs_tasks st)" "hs_changes st' = hs_changes st"
      "hs_outcomes st' = hs_outcomes st"
  shows "history once' st0 st'"
proof -
  have "outcomes_true st'"
    unfolding outcomes_true_def
  proof clarify
    fix j x assume "(j, x) \<in> set (hs_outcomes st')"
    then obtain u where u: "task_at st j = Some u" "ts_status u = status_of_outcome x"
      using historyD(3) [OF assms(1)] st'(3) by metis
    show "\<exists>t. task_at st' j = Some t \<and> ts_status t = status_of_outcome x"
    proof (cases "j = i")
      case True
      then have "ts_status t' = ts_status t" using u assms(2) moves terminal_stays by (auto simp: next_move_def)
      with True u assms(2) show ?thesis by (simp add: st'(1))
    qed (simp add: u st'(1))
  qed
  moreover have "continues once' st0 st'"
    unfolding continues_def
  proof (intro allI impI)
    fix j u assume "task_at st0 j = Some u"
    then obtain v where v: "task_at st j = Some v" "moves_to once (ts_status u) (ts_status v)"
      using historyD(4) [OF assms(1)] by blast
    then show "\<exists>t'. task_at st' j = Some t' \<and> moves_to once' (ts_status u) (ts_status t')"
      using assms(2) moves by (cases "j = i") (auto simp: st'(1) intro: moves_to_step moves_to_later)
  qed
  moreover have "keyed st'"
    using assms(1,3) by (intro put_keyed [of st st' t']) (simp_all add: history_def st'(1))
  moreover have "has_change st' u" if "task_at st' j = Some u" for j u
    using that assms(1) link by (auto simp: st' has_change_def history_def split: if_splits)
  ultimately show ?thesis by (simp add: history_def)
qed

lemma history_new_task:
  assumes "history once st0 st" "task_at st (ts_id t) = None" "has_change st t"
    and st': "hs_tasks st' = al_put (ts_id t) t (hs_tasks st)" "hs_changes st' = hs_changes st"
      "hs_outcomes st' = hs_outcomes st"
  shows "history once st0 st'"
proof -
  have other: "task_at st j = Some u \<Longrightarrow> task_at st' j = Some u" for j u
    using assms(2) by (auto simp: st'(1))
  have "keyed st'"
    using assms(1) by (intro put_keyed [of st st' t]) (simp_all add: history_def st'(1))
  moreover have "has_change st' u" if "task_at st' j = Some u" for j u
    using that assms(1,3) by (auto simp: st' has_change_def history_def split: if_splits)
  moreover have "outcomes_true st'" "continues once st0 st'"
    using assms(1) other unfolding history_def outcomes_true_def continues_def st'(3) by fast+
  ultimately show ?thesis by (simp add: history_def)
qed

lemma history_new_change:
  assumes "history once st0 st" "map_of (hs_changes st) (cs_id c) = None"
    and st': "hs_changes st' = al_put (cs_id c) c (hs_changes st)" "hs_tasks st' = hs_tasks st"
      "hs_outcomes st' = hs_outcomes st"
  shows "history once st0 st'"
proof -
  have other: "map_of (hs_changes st) j = Some u \<Longrightarrow> map_of (hs_changes st') j = Some u" for j u
    using assms(2) by (auto simp: st'(1))
  have "has_change st t \<Longrightarrow> has_change st' t" for t
    unfolding has_change_def using other by fast
  then show ?thesis
    using assms(1) unfolding history_def keyed_def outcomes_true_def continues_def st'(2,3) by blast
qed

section \<open>Operations that leave the history alone\<close>

definition quiet :: "'a harness_op \<Rightarrow> bool" where
  "quiet m \<longleftrightarrow> (\<forall>st. same_history st (snd (m st)))"

lemma quiet_read_only: "read_only m \<Longrightarrow> quiet m"
  by (simp add: quiet_def read_only_def)

lemma quiet_bind: "quiet m \<Longrightarrow> (\<And>x. quiet (f x)) \<Longrightarrow> quiet (op_bind m f)"
  unfolding quiet_def op_bind_def by (auto split: prod.split sum.split)
    (metis same_history_trans snd_conv)+

lemma quiet_option: "quiet m \<Longrightarrow> (\<And>x. quiet (f x)) \<Longrightarrow> quiet (case v of None \<Rightarrow> m | Some x \<Rightarrow> f x)"
  by (simp split: option.split)

lemma quiet_if: "quiet m \<Longrightarrow> quiet n \<Longrightarrow> quiet (if b then m else n)"
  by simp

lemma quiet_writes: "quiet (append_event e)" "quiet (store_save_workspace_state s)"
  by (simp_all add: quiet_def append_event_def store_save_workspace_state_def op_write_def
      same_history_def)

lemma quiet_reads:
  "quiet (op_return x)" "quiet (op_fail e)" "quiet (op_check b e)" "quiet (op_reads f)"
  "quiet (load_task i)" "quiet list_tasks" "quiet load_workspace_state" "quiet (list_events i m n)"
  by (simp_all add: quiet_read_only)

lemmas quiet_rules = quiet_bind quiet_option quiet_if quiet_writes quiet_reads

lemma quiet_state:
  "quiet (build_workspace_state h existing)" "quiet (record_event h n i kind tool a b)"
  unfolding build_workspace_state_def record_event_def Let_def by (intro quiet_rules)+

lemma quiet_repair: "quiet (repair_workspace_state h existing)"
  unfolding repair_workspace_state_def by (intro quiet_rules quiet_state)

lemma quiet_with_slots: "(\<And>s. quiet (f s)) \<Longrightarrow> quiet (state_with_slots f)"
  unfolding state_with_slots_def by (intro quiet_rules)

lemma quiet_save_state: "quiet (save_workspace_state h a t)"
  unfolding save_workspace_state_def by (intro quiet_rules quiet_with_slots quiet_state)

lemma quiet_current: "quiet (current_task_for_scope h sc)"
  unfolding current_task_for_scope_def current_in_def Let_def
  by (intro quiet_rules quiet_with_slots quiet_repair)

lemma quiet_runs:
  assumes "quiet m" "\<And>st st'. same_history st st' \<Longrightarrow> P st \<Longrightarrow> P st'"
  shows "runs P m (\<lambda>_. P)"
  by (rule runsI) (metis assms quiet_def snd_conv)

section \<open>Operations that write one task\<close>

text \<open>A task is replaced by its successor; whatever follows is quiet.\<close>

lemma save_task_cases:
  obtains (failed) e where "save_task t st = (Inl e, st)"
  | (saved) st' where "save_task t st = (Inr (), st')" "hs_tasks st' = al_put (ts_id t) t (hs_tasks st)"
      "hs_changes st' = hs_changes st" "hs_outcomes st' = hs_outcomes st"
proof (cases "io_left st = Some 0")
  case True
  then show thesis by (intro failed) (simp add: save_task_def op_write_def)
next
  case False
  then show thesis
    by (intro saved [of "snd (save_task t st)"]) (simp_all add: save_task_def op_write_def)
qed

lemma quiet_after:
  assumes "quiet m" "m st = (r, st')"
  shows "same_history st st'"
  using assms by (metis quiet_def snd_conv)

lemma write_then_quiet:
  assumes "history once st0 st" "task_at st i = Some t" "ts_id t' = i"
    and "next_move once once' (ts_status t) (ts_status t')"
    and "has_change st t'" "quiet rest"
    and run: "op_bind (save_task t') (\<lambda>_. rest) st = (r, st')"
  shows "history once' st0 st'" "fresh_ids h st \<Longrightarrow> fresh_ids h st'"
    "r = Inr x \<Longrightarrow> task_at st' i = Some t'"
proof -
  have "history once' st0 st' \<and> (fresh_ids h st \<longrightarrow> fresh_ids h st') \<and> (\<forall>x. r = Inr x \<longrightarrow> task_at st' i = Some t')"
  proof (cases rule: save_task_cases [of t' st])
    case (failed e)
    then have "op_bind (save_task t') (\<lambda>_. rest) st = (Inl e, st)" by (rule op_bind_Inl)
    then have "st' = st" "r = Inl e" using run by simp_all
    moreover have "history once' st0 st"
      using assms(1,4) history_later by (cases once) (auto simp: next_move_def)
    ultimately show ?thesis by simp
  next
    case (saved st1)
    have h1: "history once' st0 st1"
      by (rule history_put [OF assms(1-5)]) (use saved assms(3) in simp_all)
    have "rest st1 = (r, st')" using run op_bind_Inr [of "save_task t'" st "()" st1 "\<lambda>_. rest"] saved(1) by simp
    then have same: "same_history st1 st'" by (rule quiet_after [OF assms(6)])
    then have eqs: "hs_tasks st' = al_put i t' (hs_tasks st)" "hs_changes st' = hs_changes st"
      using saved assms(3) by (simp_all add: same_history_def)
    have "fresh_ids h st \<Longrightarrow> fresh_ids h st'"
      using assms(2) by (auto simp: fresh_ids_def eqs)
    then show ?thesis using history_cong [OF same h1] eqs by simp
  qed
  then show "history once' st0 st'" "fresh_ids h st \<Longrightarrow> fresh_ids h st'"
    "r = Inr x \<Longrightarrow> task_at st' i = Some t'" by blast+
qed

definition fresh_history :: "bool \<Rightarrow> Harness \<Rightarrow> HarnessStore \<Rightarrow> HarnessStore \<Rightarrow> bool" where
  "fresh_history once h st0 st \<longleftrightarrow> history once st0 st \<and> fresh_ids h st"

lemma fresh_history_later: "fresh_history False h st0 st \<Longrightarrow> fresh_history once h st0 st"
  unfolding fresh_history_def using history_later by blast

lemma fresh_history_cong: "same_history st st' \<Longrightarrow> fresh_history once h st0 st \<Longrightarrow> fresh_history once h st0 st'"
  using history_cong by (auto simp: fresh_history_def fresh_ids_def same_history_def)

lemma runs_fresh: "quiet m \<Longrightarrow> runs (fresh_history once h st0) m (\<lambda>_. fresh_history once h st0)"
  by (rule quiet_runs [OF _ fresh_history_cong])

text \<open>The value a sequence ends with.\<close>

lemma op_bind_result:
  "op_bind m f st = (Inr x, st') \<Longrightarrow> \<exists>y st1. m st = (Inr y, st1) \<and> f y st1 = (Inr x, st')"
  by (auto simp: op_bind_def split: prod.splits sum.splits)

lemma transition_history:
  assumes "s \<notin> {Verifying, CompletedUnverified}" "fresh_history False h st0 st"
    and run: "transition h' i s st = (r, st')"
  shows "fresh_history True h st0 st'"
    and "r = Inr t' \<Longrightarrow> task_at st' (ts_id t') = Some t' \<and> ts_status t' = s"
proof -
  note hist = assms(2) [unfolded fresh_history_def] and later = fresh_history_later [OF assms(2)]
  have "fresh_history True h st0 st' \<and> (\<forall>t'. r = Inr t' \<longrightarrow> task_at st' (ts_id t') = Some t' \<and> ts_status t' = s)"
  proof (cases "task_at st i")
    case None
    then have "transition h' i s st = (Inl StoreIoFailed, st)"
      by (simp add: transition_def load_task_def op_evals)
    then show ?thesis using run later by auto
  next
    case (Some t)
    then have load: "load_task i st = (Inr t, st)" by (simp add: load_task_def op_reads_def)
    have id: "ts_id t = i" using Some historyD(1) hist by (auto simp: keyed_def)
    let ?t = "t\<lparr>ts_status := s, ts_updated_at := timestamp h'\<rparr>"
    show ?thesis
    proof (cases "can_transition_to (ts_status t) s")
      case False
      then have "transition h' i s st = (Inl (InvalidTaskTransition (ts_status t) s), st)"
        unfolding transition_def op_bind_Inr [of "load_task i", OF load] by (simp add: op_evals)
      then show ?thesis using run later by auto
    next
      case legal: True
      define check where "check =
        (if occupies_current_task_slot s \<and> \<not> occupies_current_task_slot (ts_status t)
         then op_bind (current_task_for_scope h' (task_scope_id t)) (\<lambda>current.
                case current of
                  Some c \<Rightarrow> op_check (ts_id c = ts_id t) (TaskAlreadyActive (ts_id c))
                | None \<Rightarrow> op_return ())
         else op_return ())"
      define rest where "rest = op_bind (save_workspace_state h' (slot_id ?t) ?t) (\<lambda>_.
          op_bind (record_event h' 0 i ''task_status_changed'' None
                     (JObj [(''status'', JStr (status_json s))]) ok_json) (\<lambda>_. op_return ?t))"
      have run': "op_bind check (\<lambda>_. op_bind (save_task ?t) (\<lambda>_. rest)) st = (r, st')"
        using run unfolding transition_def op_bind_Inr [of "load_task i", OF load]
        by (simp add: legal op_bind_check Let_def check_def rest_def)
      have quiet: "quiet check" "quiet rest"
        unfolding check_def rest_def by (intro quiet_rules quiet_current quiet_save_state quiet_state)+
      obtain e st1 where c: "check st = (e, st1)" by fastforce
      then have same: "same_history st st1" by (rule quiet_after [OF quiet(1)])
      have h1: "fresh_history False h st0 st1" by (rule fresh_history_cong [OF same assms(2)])
      show ?thesis
      proof (cases e)
        case (Inl x)
        then have "r = Inl x" "st' = st1" using run' c Inl by (simp_all add: op_bind_Inl)
        with fresh_history_later [OF h1] show ?thesis by simp
      next
        case (Inr u)
        then have w: "op_bind (save_task ?t) (\<lambda>_. rest) st1 = (r, st')"
          using run' c Inr by (simp add: op_bind_Inr)
        have t: "task_at st1 i = Some t" using Some same by (simp add: same_history_def)
        have "has_change st1 t" using historyD(2) h1 t by (auto simp: fresh_history_def)
        then have link: "has_change st1 ?t"
          using legal assms(1) by (auto simp: has_change_def can_transition_to_def split: TaskStatus.splits)
        have h1': "history False st0 st1" using h1 by (simp add: fresh_history_def)
        have id': "ts_id ?t = i" by (simp add: id)
        have st_ok: "next_move False True (ts_status t) (ts_status ?t)"
          using legal by (simp add: next_move_def)
        note W = write_then_quiet [OF h1' t id' st_ok link quiet(2) w]
        have "r = Inr t' \<Longrightarrow> t' = ?t" for t'
          using w op_bind_result [of "save_task ?t" "\<lambda>_. rest" st1] unfolding rest_def
          by (auto dest!: op_bind_result simp: op_return_def)
        then show ?thesis
          using W(1) W(2) [of h] W(3) h1 id by (auto simp: fresh_history_def)
      qed
    qed
  qed
  then show "fresh_history True h st0 st'"
    "r = Inr t' \<Longrightarrow> task_at st' (ts_id t') = Some t' \<and> ts_status t' = s" by blast+
qed


lemma save_change_cases:
  obtains (failed) e where "save_change c st = (Inl e, st)"
  | (saved) st' where "save_change c st = (Inr (), st')" "hs_tasks st' = hs_tasks st"
      "hs_changes st' = al_put (cs_id c) c (hs_changes st)" "hs_outcomes st' = hs_outcomes st"
proof (cases "io_left st = Some 0")
  case True
  then show thesis by (intro failed) (simp add: save_change_def op_write_def)
next
  case False
  then show thesis
    by (intro saved [of "snd (save_change c st)"]) (simp_all add: save_change_def op_write_def)
qed

lemma finish_history:
  assumes "fresh_history False h st0 st" and run: "finish_task h i summary s st = (r, st')"
  shows "history True st0 st'"
    and "r = Inr (t', c') \<Longrightarrow> task_at st' (ts_id t') = Some t' \<and> ts_status t' = s"
proof -
  have hist: "history False st0 st" and fresh: "fresh_ids h st"
    using assms(1) by (simp_all add: fresh_history_def)
  have "history True st0 st' \<and> (\<forall>t' c'. r = Inr (t', c') \<longrightarrow> task_at st' (ts_id t') = Some t' \<and> ts_status t' = s)"
  proof (cases rule: finish_task_cases [of h i summary s st])
    case (refused e)
    then show ?thesis using run history_later [OF hist] by simp
  next
    case (writes t reason events)
    let ?c = "captured_change h t reason events s" and ?t = "finished_task h t s"
    define rest where "rest = op_bind (append_event (finished_event h t reason s)) (\<lambda>_.
         op_bind (save_workspace_state h (slot_id ?t) ?t) (\<lambda>_. op_return (?t, ?c)))"
    have run': "op_bind (save_change ?c) (\<lambda>_. op_bind (save_task ?t) (\<lambda>_. rest)) st = (r, st')"
      using run writes(5) by (simp add: rest_def)
    have id: "ts_id t = i" using writes(1) historyD(1) [OF hist] by (auto simp: keyed_def)
    show ?thesis
    proof (cases rule: save_change_cases [of ?c st])
      case (failed e)
      then have "r = Inl e" "st' = st" using run' by (simp_all add: op_bind_Inl)
      then show ?thesis using history_later [OF hist] by simp
    next
      case (saved st1)
      have h1: "history False st0 st1"
        by (rule history_new_change [OF hist _ saved(3,2,4)]) (use fresh in \<open>simp add: fresh_ids_def\<close>)
      have w: "op_bind (save_task ?t) (\<lambda>_. rest) st1 = (r, st')"
        using run' saved(1) by (simp add: op_bind_Inr)
      have t: "task_at st1 i = Some t" using writes(1) saved(2) by simp
      have link: "has_change st1 ?t" by (simp add: has_change_def saved(3))
      have quiet: "quiet rest"
        unfolding rest_def by (intro quiet_rules quiet_save_state)
      have st_ok: "next_move False True (ts_status t) (ts_status ?t)"
        using writes(2) by (simp add: next_move_def)
      have id': "ts_id ?t = i" by (simp add: id)
      note W = write_then_quiet [OF h1 t id' st_ok link quiet w]
      have "r = Inr (t', c') \<Longrightarrow> t' = ?t" for t' c'
        using w unfolding rest_def by (auto dest!: op_bind_result simp: op_return_def)
      then show ?thesis using W(1,3) id by auto
    qed
  qed
  then show "history True st0 st'"
    "r = Inr (t', c') \<Longrightarrow> task_at st' (ts_id t') = Some t' \<and> ts_status t' = s" by blast+
qed

lemma enqueue_history:
  assumes "history once st0 st" "task_at st i = Some t" "ts_status t = status_of_outcome x"
  shows "history once st0 (snd (enqueue_outcome i x st))"
  using assms unfolding history_def keyed_def has_change_def outcomes_true_def continues_def enqueue_outcome_def
  by auto

lemma update_steps_history:
  assumes "fresh_history once h st0 st" and run: "update_steps h' i a b st = (r, st')"
  shows "fresh_history once h st0 st'"
proof (cases "task_at st i")
  case None
  then show ?thesis
    using run assms(1) by (simp add: update_steps_def load_task_def op_evals)
next
  case (Some t)
  have hist: "history once st0 st" and fresh: "fresh_ids h st"
    using assms(1) by (simp_all add: fresh_history_def)
  have load: "load_task i st = (Inr t, st)" using Some by (simp add: load_task_def op_reads_def)
  have id: "ts_id t = i" using Some historyD(1) [OF hist] by (auto simp: keyed_def)
  define t' where "t' = t\<lparr>ts_completed_steps := (case a of Some s \<Rightarrow> s | None \<Rightarrow> ts_completed_steps t),
      ts_pending_steps := (case b of Some s \<Rightarrow> s | None \<Rightarrow> ts_pending_steps t), ts_updated_at := timestamp h'\<rparr>"
  obtain rest where w: "op_bind (save_task t') (\<lambda>_. rest) st = (r, st')" and q: "quiet rest"
  proof
    let ?rest = "op_bind (record_event h' 0 i ''task_updated'' None
        (JObj [(''completed_steps'', JArr (map JStr (case a of Some s \<Rightarrow> s | None \<Rightarrow> ts_completed_steps t))),
               (''pending_steps'', JArr (map JStr (case b of Some s \<Rightarrow> s | None \<Rightarrow> ts_pending_steps t)))]) ok_json)
        (\<lambda>_. op_return t')"
    show "op_bind (save_task t') (\<lambda>_. ?rest) st = (r, st')"
      using run unfolding update_steps_def op_bind_Inr [of "load_task i", OF load] Let_def t'_def .
    show "quiet ?rest" by (intro quiet_rules quiet_state)
  qed
  have "has_change st t'"
    using historyD(2) [OF hist Some] by (simp add: t'_def has_change_def)
  with hist Some id fresh show ?thesis
    unfolding fresh_history_def
    by (intro conjI write_then_quiet(1,2) [where once' = once, OF hist Some _ _ _ q w]) (simp_all add: t'_def next_move_def)
qed

lemma start_history:
  assumes "fresh_history once h st0 st" and run: "start_task_for h objective p st = (r, st')"
  shows "history once st0 st'"
proof -
  have hist: "history once st0 st" using assms(1) by (simp add: fresh_history_def)
  let ?p = "normalize_scope_root h p"
  let ?t = "new_task h objective ?p"
  show ?thesis
  proof (cases "trim objective = []")
    case True
    then show ?thesis using run hist by (simp add: start_task_for_def op_evals)
  next
    case False
    note objective = False
    obtain found st1 where cur: "current_task_for_scope h (scope_id_for_root h ?p) st = (found, st1)"
      by fastforce
    then have same: "same_history st st1" by (rule quiet_after [OF quiet_current])
    have h1: "history once st0 st1" by (rule history_cong [OF same hist])
    define rest where "rest = op_bind (save_workspace_state h (Some (ts_id ?t)) ?t) (\<lambda>_.
               op_bind (record_event h 1 (ts_id ?t) ''task_started'' None (JObj []) ok_json) (\<lambda>_.
               op_return ?t))"
    show ?thesis
    proof (cases "found = Inr None")
      case False
      have "start_task_for h objective p st = op_bind (current_task_for_scope h (scope_id_for_root h ?p))
          (\<lambda>current. case current of
             Some t \<Rightarrow> op_fail (TaskAlreadyActive (ts_id t))
           | None \<Rightarrow> op_bind (save_task ?t) (\<lambda>_. rest)) st"
        using objective
        by (simp add: start_task_for_def op_bind_check Let_def rest_def cong: option.case_cong)
      then have "snd (start_task_for h objective p st) = st1"
        using False cur
        by (cases found; cases "projr found") (simp_all add: op_bind_Inr op_bind_Inl op_fail_def)
      with h1 run show ?thesis by simp
    next
      case True
      then have w: "op_bind (save_task ?t) (\<lambda>_. rest) st1 = (r, st')"
        using run objective cur by (simp add: start_task_for_def op_bind_check Let_def op_bind_Inr rest_def)
      show ?thesis
      proof (cases rule: save_task_cases [of ?t st1])
        case (failed e)
        then show ?thesis using w h1 by (simp add: op_bind_Inl)
      next
        case (saved st2)
        have unused: "task_at st1 (ts_id ?t) = None"
          using assms(1) same by (simp add: fresh_history_def fresh_ids_def same_history_def)
        have "has_change st1 ?t" by (simp add: has_change_def)
        note h2 = history_new_task [OF h1 unused this saved(2-4)]
        have "quiet rest" unfolding rest_def by (intro quiet_rules quiet_save_state quiet_state)
        moreover have "rest st2 = (r, st')" using w saved(1) by (simp add: op_bind_Inr)
        ultimately have "same_history st2 st'" by (rule quiet_after)
        then show ?thesis using h2 by (rule history_cong)
      qed
    qed
  qed
qed

interpretation history: kept_by_operations h "fresh_history False h st0" "fresh_history True h st0" "history True st0" for h st0
proof
  show "runs (fresh_history False h st0) (current_task_for_scope h sc) (\<lambda>_. fresh_history False h st0)" for sc
    by (rule runs_fresh [OF quiet_current])
  show "runs (fresh_history False h st0) (transition h i s) (\<lambda>_. fresh_history True h st0)"
    if "s \<notin> {Verifying, CompletedUnverified, FailedFinal, RolledBack, Completed}" for s i
    using that by (intro runsI) (rule transition_history(1); auto)
  show "runs (fresh_history False h st0) (op_bind (transition h i s)
      (\<lambda>t. op_bind (enqueue_outcome (ts_id t) x) (\<lambda>_. op_return t))) (\<lambda>_. fresh_history True h st0)"
    if sx: "(s, x) \<in> {(FailedFinal, Failure), (RolledBack, OutcomeRolledBack), (Completed, VerifiedSuccess)}"
    for s x i
  proof (rule runs_bind [where M = "\<lambda>t st. fresh_history True h st0 st \<and> task_at st (ts_id t) = Some t \<and> ts_status t = s"])
    have s: "s \<notin> {Verifying, CompletedUnverified}" using sx by auto
    show "runs (fresh_history False h st0) (transition h i s) (\<lambda>r st. case r of
        Inl e \<Rightarrow> fresh_history True h st0 st
      | Inr t \<Rightarrow> fresh_history True h st0 st \<and> task_at st (ts_id t) = Some t \<and> ts_status t = s)"
    proof (rule runsI)
      fix st r st' assume a: "fresh_history False h st0 st" "transition h i s st = (r, st')"
      show "case r of Inl e \<Rightarrow> fresh_history True h st0 st'
        | Inr t \<Rightarrow> fresh_history True h st0 st' \<and> task_at st' (ts_id t) = Some t \<and> ts_status t = s"
        using transition_history [OF s a] by (cases r) auto
    qed
    show "runs (\<lambda>st. fresh_history True h st0 st \<and> task_at st (ts_id t) = Some t \<and> ts_status t = s)
        (op_bind (enqueue_outcome (ts_id t) x) (\<lambda>_. op_return t)) (\<lambda>_. fresh_history True h st0)" for t
    proof (rule runsI)
      fix st r st'
      assume a: "fresh_history True h st0 st \<and> task_at st (ts_id t) = Some t \<and> ts_status t = s"
        and "op_bind (enqueue_outcome (ts_id t) x) (\<lambda>_. op_return t) st = (r, st')"
      then have "st' = snd (enqueue_outcome (ts_id t) x st)"
        by (simp add: enqueue_outcome_def op_bind_def op_return_def)
      moreover have "s = status_of_outcome x" using sx by (auto simp: status_of_outcome_def)
      ultimately show "fresh_history True h st0 st'"
        using a enqueue_history [of True st0 st "ts_id t" t x]
        by (auto simp: fresh_history_def fresh_ids_def enqueue_outcome_def)
    qed
  qed
  show "runs (fresh_history False h st0) (op_bind (finish_task h i summary s) (\<lambda>(t, c).
        op_bind (if ts_status t = CompletedUnverified then enqueue_outcome (ts_id t) UnverifiedSuccess
                 else op_return ()) (\<lambda>_. op_return (t, c)))) (\<lambda>_. history True st0)"
    if s: "s \<in> {Verifying, CompletedUnverified}" for s i summary
  proof (rule runs_bind [where M = "\<lambda>(t, c) st. history True st0 st \<and> task_at st (ts_id t) = Some t \<and> ts_status t = s"])
    show "runs (fresh_history False h st0) (finish_task h i summary s) (\<lambda>r st. case r of
        Inl e \<Rightarrow> history True st0 st
      | Inr p \<Rightarrow> (case p of (t, c) \<Rightarrow> \<lambda>st. history True st0 st \<and> task_at st (ts_id t) = Some t \<and> ts_status t = s) st)"
    proof (rule runsI)
      fix st r st' assume a: "fresh_history False h st0 st" "finish_task h i summary s st = (r, st')"
      show "case r of Inl e \<Rightarrow> history True st0 st'
        | Inr p \<Rightarrow> (case p of (t, c) \<Rightarrow> \<lambda>st. history True st0 st \<and> task_at st (ts_id t) = Some t \<and> ts_status t = s) st'"
        using finish_history [OF a] by (cases r) auto
    qed
    show "runs ((\<lambda>(t, c) st. history True st0 st \<and> task_at st (ts_id t) = Some t \<and> ts_status t = s) p)
        (case p of (t, c) \<Rightarrow> op_bind (if ts_status t = CompletedUnverified
           then enqueue_outcome (ts_id t) UnverifiedSuccess else op_return ()) (\<lambda>_. op_return (t, c)))
        (\<lambda>_. history True st0)" for p
    proof (cases p)
      case (Pair t c)
      show ?thesis
        unfolding Pair prod.case
      proof (rule runsI)
        fix st r st'
        assume a: "history True st0 st \<and> task_at st (ts_id t) = Some t \<and> ts_status t = s"
          and "op_bind (if ts_status t = CompletedUnverified then enqueue_outcome (ts_id t) UnverifiedSuccess
             else op_return ()) (\<lambda>_. op_return (t, c)) st = (r, st')"
        then have "st' = (if ts_status t = CompletedUnverified
            then snd (enqueue_outcome (ts_id t) UnverifiedSuccess st) else st)"
          by (auto simp: enqueue_outcome_def op_bind_def op_return_def split: if_splits)
        then show "history True st0 st'"
          using a enqueue_history [of True st0 st "ts_id t" t UnverifiedSuccess]
          by (auto simp: status_of_outcome_def)
      qed
    qed
  qed
  show "runs (fresh_history False h st0) (update_steps h i a b) (\<lambda>_. fresh_history False h st0)" for i a b
    by (intro runsI) (rule update_steps_history)
  show "runs (fresh_history True h st0) (start_task_for h objective p) (\<lambda>_. history True st0)" for objective p
    by (intro runsI) (rule start_history)
  show "fresh_history False h st0 st \<Longrightarrow> fresh_history True h st0 st" for st
    by (rule fresh_history_later)
  show "fresh_history True h st0 st \<Longrightarrow> history True st0 st" for st
    by (simp add: fresh_history_def)
qed

lemma call_history:
  assumes "history False st0 st" "fresh_ids (te_harness env) st"
  shows "history True st0 (snd (call env name args st))"
  using runsD [OF history.keeps_call [OF refl] _ surjective_pairing] assms
  by (simp add: fresh_history_def)

end
