(* ===== verification/Harness_Properties.thy ===== *)
theory Harness_Properties
  imports Harness_History
begin

text \<open>What the harness promises about its tasks, from the lemmas of the theories it imports.\<close>

section \<open>A sample environment\<close>

definition sample_baseline :: ProjectBaseline where
  "sample_baseline = \<lparr>pb_branch = None, pb_head = None, pb_worktree_fingerprint = ''f'',
     pb_entries = [], pb_captured_at = ''0''\<rparr>"

text \<open>The workspace \<open>/w\<close>; identifiers are drawn from a per-call seed.\<close>

definition sample_harness :: "string \<Rightarrow> Harness" where
  "sample_harness seed =
     \<lparr>h_root = [''w''], h_workspace_id = ''W'', canonicalize = Some, path_id = join ''/'',
      capture_baseline = (\<lambda>_. sample_baseline), timestamp = ''1'',
      uuid = (\<lambda>n. seed @ replicate n (CHR ''x''))\<rparr>"

definition sample_env :: "string \<Rightarrow> path \<Rightarrow> tool_env" where
  "sample_env seed scope =
     \<lparr>te_harness = sample_harness seed, te_scope = scope, te_identity = (\<lambda>_. (None, None)),
      te_measured = (\<lambda>_ _ _ _. 0)\<rparr>"

definition blank_store :: HarnessStore where
  "blank_store = \<lparr>hs_tasks = [], hs_state = None, hs_events = [], hs_changes = [], hs_operations = [],
     hs_outcomes = [], state_modified = None, tasks_modified = None, clock = 0, tick = 0, io_left = None\<rparr>"

definition start_args :: json where "start_args = JObj [(''objective'', JStr ''goal'')]"

definition id_args :: "string \<Rightarrow> json" where "id_args i = JObj [(''task_id'', JStr i)]"

definition started_store :: HarnessStore where
  "started_store =
     snd (call (sample_env ''a'' [''w'']) ''start_task'' start_args (blank_store\<lparr>io_left := None, tick := 1\<rparr>))"

lemma blank_store_run: "run faulty blank_store"
  by (rule run.start) (simp add: empty_store_def blank_store_def)

lemma started_store_run: "run faulty started_store"
  unfolding started_store_def
  by (rule run.called [OF blank_store_run]) (simp_all add: fresh_ids_def blank_store_def)

text \<open>What is in the store after that call.\<close>

lemma started_store_facts:
  "map_option ts_status (task_at started_store ''a'') = Some Active"
  "fresh_ids (te_harness (sample_env ''b'' [''w''])) started_store"
  "fresh_ids (sample_harness ''b'') started_store"
  by code_simp+

section \<open>The slot of a scope\<close>

text \<open>
  C3.  In every store that tool calls lead to when all writes succeed, looking up the current task
  of a scope answers without changing a task, and the answer is the one and only task that
  occupies the scope's slot, or nothing when no task does.
\<close>

theorem current_task_is_the_only_one:
  assumes "run False st"
  shows "\<exists>found st'. current_task_for_scope h sc (st\<lparr>io_left := None\<rparr>) = (Inr found, st')
    \<and> hs_tasks st' = hs_tasks st
    \<and> (\<forall>i. occupant st sc i \<longleftrightarrow> (\<exists>t. found = Some t \<and> ts_id t = i))"
proof -
  let ?st = "st\<lparr>io_left := None\<rparr>"
  have d: "disciplined ?st" by (rule disciplined_cong [OF run_disciplined [OF assms]]) simp_all
  obtain found st' where f: "current_task_for_scope h sc ?st = (Inr found, st')"
    "same_records ?st st'" "right_task ?st sc found"
    by (rule current_task_right [OF d, of h sc]) simp
  have occ: "occupant ?st = occupant st" by (rule occupant_cong) simp
  have "occupant st sc i \<longleftrightarrow> (\<exists>t. found = Some t \<and> ts_id t = i)" for i
  proof (cases found)
    case None
    then show ?thesis using f(3) by (simp add: right_task_def occ)
  next
    case (Some t)
    then have "occupant st sc (ts_id t)" using f(3) by (simp add: right_task_def occupant_def)
    then show ?thesis
      using Some disciplined_parts(2) [OF run_disciplined [OF assms]] unfolding one_per_scope_def by auto
  qed
  then show ?thesis using f by (auto simp: same_records_def)
qed

theorem current_task_is_the_only_one_witness:
  "\<exists>found st'. current_task_for_scope (sample_harness ''b'') ''W'' (started_store\<lparr>io_left := None\<rparr>) = (Inr found, st')
    \<and> hs_tasks st' = hs_tasks started_store
    \<and> (\<forall>i. occupant started_store ''W'' i \<longleftrightarrow> (\<exists>t. found = Some t \<and> ts_id t = i))"
  by (rule current_task_is_the_only_one [OF started_store_run])



section \<open>The history of a task\<close>

lemma run_history: "run True st \<Longrightarrow> history False st st"
proof (induction rule: run.induct)
  case (start st)
  then show ?case
    by (simp add: empty_store_def history_def keyed_def outcomes_true_def continues_def)
next
  case (called st env n name args k)
  let ?st = "st\<lparr>io_left := n, tick := k\<rparr>"
  have "same_history st ?st" by (simp add: same_history_def)
  then have "history False st ?st" using called.IH by (rule history_cong)
  moreover have "fresh_ids (te_harness env) ?st" using called by (simp add: fresh_ids_def)
  ultimately have "history True st (snd (call env name args ?st))" by (rule call_history)
  then show ?case by (auto simp: history_def continues_def moves_to_def)
qed

text \<open>The life of a task, edge by edge; from the last four statuses no edge leaves.\<close>

definition task_life :: "(TaskStatus \<times> TaskStatus) set" where
  "task_life =
     {(Active, Paused), (Paused, Active), (Active, Verifying), (Active, Failed), (Active, CompletedUnverified),
      (Verifying, Completed), (Verifying, CompletedUnverified), (Verifying, Failed),
      (Failed, Active), (Failed, FailedFinal), (Failed, RolledBack)}"

lemma one_move: "moves_to True a b \<Longrightarrow> b = a \<or> (a, b) \<in> task_life"
  by (cases a) (auto simp: moves_to_def can_transition_to_def task_life_def)

text \<open>
  C13.  Whatever one tool call does, and whichever of its writes fails, every task stays on disk and its
  status stays or moves along one single edge of the life of a task.  In particular a call cannot
  complete a paused or a failed task, and no call moves a task that is completed, finally failed or
  rolled back.
\<close>

theorem task_status_moves_legally:
  assumes "run True st" and "fresh_ids (te_harness env) st" and "task_at st i = Some t"
  shows "\<exists>t'. task_at (snd (call env name args (st\<lparr>io_left := n, tick := k\<rparr>))) i = Some t'
    \<and> (ts_status t' = ts_status t \<or> (ts_status t, ts_status t') \<in> task_life)"
proof -
  let ?st = "st\<lparr>io_left := n, tick := k\<rparr>"
  have "same_history st ?st" by (simp add: same_history_def)
  then have "history False st ?st" using run_history [OF assms(1)] by (rule history_cong)
  moreover have "fresh_ids (te_harness env) ?st" using assms(2) by (simp add: fresh_ids_def)
  ultimately have "history True st (snd (call env name args ?st))" by (rule call_history)
  then show ?thesis using historyD(4) [OF _ assms(3)] one_move by metis
qed

theorem task_status_moves_legally_witness:
  "\<exists>t t'. task_at started_store ''a'' = Some t
    \<and> task_at (snd (call (sample_env ''b'' [''w'']) ''pause_task'' (id_args ''a'')
         (started_store\<lparr>io_left := Some 1, tick := 1\<rparr>))) ''a'' = Some t'
    \<and> (ts_status t' = ts_status t \<or> (ts_status t, ts_status t') \<in> task_life)"
proof -
  obtain t where "task_at started_store ''a'' = Some t" using started_store_facts(1) by blast
  then show ?thesis
    using task_status_moves_legally [OF started_store_run started_store_facts(2),
        of "''a''" t] by blast
qed

text \<open>
  C24.  Even when writes fail, a task that is being verified or was completed names a change set,
  which is on disk and was captured for this task; and every outcome handed to the knowledge base
  is the status its task has.
\<close>

theorem finished_tasks_have_their_change:
  assumes "run True st"
  shows "(task_at st i = Some t \<longrightarrow> ts_status t \<in> {Verifying, Completed, CompletedUnverified} \<longrightarrow>
      (\<exists>j c. ts_latest_change_id t = Some j \<and> map_of (hs_changes st) j = Some c \<and> cs_task_id c = i))
    \<and> ((i, x) \<in> set (hs_outcomes st) \<longrightarrow>
        (\<exists>t. task_at st i = Some t \<and> ts_status t = status_of_outcome x))"
proof -
  note h = run_history [OF assms]
  have "\<exists>j c. ts_latest_change_id t = Some j \<and> map_of (hs_changes st) j = Some c \<and> cs_task_id c = i"
    if "task_at st i = Some t" "ts_status t \<in> {Verifying, Completed, CompletedUnverified}"
  proof -
    have "has_change st t" by (rule historyD(2) [OF h that(1)])
    moreover have "ts_id t = i" using historyD(1) [OF h] that(1) by (simp add: keyed_def)
    ultimately show ?thesis using that(2) unfolding has_change_def by blast
  qed
  then show ?thesis using historyD(3) [OF h] by blast
qed

definition finished_store :: HarnessStore where
  "finished_store =
     snd (call (sample_env ''b'' [''w'']) ''finish_task'' (id_args ''a'') (started_store\<lparr>io_left := None, tick := 1\<rparr>))"

lemma finished_store_run: "run True finished_store"
  unfolding finished_store_def
  by (rule run.called [OF started_store_run started_store_facts(2)]) simp

theorem finished_tasks_have_their_change_witness:
  "map_option ts_status (task_at finished_store ''a'') = Some Verifying
   \<and> (\<exists>j c. map_of (hs_changes finished_store) j = Some c \<and> cs_task_id c = ''a'')"
proof
  show v: "map_option ts_status (task_at finished_store ''a'') = Some Verifying" by code_simp
  then obtain t where "task_at finished_store ''a'' = Some t" "ts_status t = Verifying" by auto
  then show "\<exists>j c. map_of (hs_changes finished_store) j = Some c \<and> cs_task_id c = ''a''"
    using finished_tasks_have_their_change [OF finished_store_run, of "''a''" t] by blast
qed

section \<open>A write that fails can lose a task\<close>

text \<open>
  One failed write: \<open>start_task\<close> in the scope \<open>/w/s\<close> saves task \<open>b\<close> and then cannot save the state
  file; failing the unrelated task \<open>a\<close> saves the stale state file, which now looks newer than
  every task; \<open>start_task\<close> in \<open>/w/s\<close> then finds no task.
\<close>

definition lost_task_store :: HarnessStore where
  "lost_task_store =
    (let st1 = started_store;
         st2 = snd (call (sample_env ''b'' [''w'', ''s'']) ''start_task'' start_args (st1\<lparr>io_left := Some 1, tick := 1\<rparr>));
         st3 = snd (call (sample_env ''c'' [''w'']) ''fail_task'' (id_args ''a'') (st2\<lparr>io_left := None, tick := 1\<rparr>))
     in snd (call (sample_env ''d'' [''w'', ''s'']) ''start_task'' start_args (st3\<lparr>io_left := None, tick := 1\<rparr>)))"

text \<open>
  A failed write can break the slot discipline for good: in a store the tools reach with a
  single failed write, two active tasks occupy the slot of one scope.  Without failed writes this
  cannot happen.
\<close>

lemma failed_write_duplicates_active_task:
  "run True lost_task_store
   \<and> map_option (\<lambda>t. (ts_status t, task_scope_id t)) (task_at lost_task_store ''b'') = Some (Active, ''w/s'')
   \<and> map_option (\<lambda>t. (ts_status t, task_scope_id t)) (task_at lost_task_store ''d'') = Some (Active, ''w/s'')"
proof -
  define st2 where
    "st2 = snd (call (sample_env ''b'' [''w'', ''s'']) ''start_task'' start_args (started_store\<lparr>io_left := Some 1, tick := 1\<rparr>))"
  define st3 where
    "st3 = snd (call (sample_env ''c'' [''w'']) ''fail_task'' (id_args ''a'') (st2\<lparr>io_left := None, tick := 1\<rparr>))"
  have "run True st2"
    unfolding st2_def by (rule run.called [OF started_store_run]) (code_simp, simp)
  moreover have "fresh_ids (te_harness (sample_env ''c'' [''w''])) st2" unfolding st2_def by code_simp
  ultimately have "run True st3" unfolding st3_def by (intro run.called) simp_all
  moreover have "fresh_ids (te_harness (sample_env ''d'' [''w'', ''s''])) st3"
    unfolding st3_def st2_def by code_simp
  ultimately have "run True lost_task_store"
    unfolding lost_task_store_def Let_def st2_def [symmetric] st3_def [symmetric]
    by (intro run.called) simp_all
  moreover have
    "map_option (\<lambda>t. (ts_status t, task_scope_id t)) (task_at lost_task_store ''b'') = Some (Active, ''w/s'')"
    "map_option (\<lambda>t. (ts_status t, task_scope_id t)) (task_at lost_task_store ''d'') = Some (Active, ''w/s'')"
    by code_simp+
  ultimately show ?thesis by blast
qed

section \<open>Captured changes\<close>

definition digest_in :: "ProjectBaseline \<Rightarrow> string \<Rightarrow> string option" where
  "digest_in b p = map_option be_sha256 (map_of (entry_map (pb_entries b)) p)"

lemma entry_map_dom: "map_of (entry_map es) p \<noteq> None \<longleftrightarrow> p \<in> set (map be_path es)"
  by (auto simp: entry_map_def map_of_eq_None_iff image_iff dest: map_of_SomeD)

lemma concat_map_if: "concat (map (\<lambda>x. if P x then [f x] else []) xs) = map f (filter P xs)"
  by (induction xs) simp_all

lemma file_status_digest:
  "file_status b a =
     (case (map_option be_sha256 b, map_option be_sha256 a) of
        (Some x, Some y) \<Rightarrow> if x = y then ''unchanged'' else ''modified''
      | (Some _, None) \<Rightarrow> ''deleted'' | (None, Some _) \<Rightarrow> ''added'' | (None, None) \<Rightarrow> ''unknown'')"
  by (simp add: file_status_def split: option.split)

text \<open>
  A captured change set lists, in strictly increasing path order, exactly the files whose
  content digest differs between the baseline and the current tree, each with both digests and
  the matching status: added, deleted or modified.
\<close>

lemma change_records_exact:
  "sorted_wrt (<) (map fc_path (change_records b c))
   \<and> (r \<in> set (change_records b c) \<longleftrightarrow>
        digest_in b (fc_path r) \<noteq> digest_in c (fc_path r)
        \<and> fc_before_sha256 r = digest_in b (fc_path r) \<and> fc_after_sha256 r = digest_in c (fc_path r)
        \<and> fc_status r = (if digest_in b (fc_path r) = None then ''added''
                         else if digest_in c (fc_path r) = None then ''deleted'' else ''modified''))"
proof -
  let ?st = "\<lambda>p. file_status (map_of (entry_map (pb_entries b)) p) (map_of (entry_map (pb_entries c)) p)"
  let ?rec = "\<lambda>p. \<lparr>fc_path = p, fc_status = ?st p, fc_before_sha256 = digest_in b p, fc_after_sha256 = digest_in c p\<rparr>"
  let ?ps = "all_paths (pb_entries b) (pb_entries c)"
  have recs: "change_records b c = map ?rec (filter (\<lambda>p. ?st p \<noteq> ''unchanged'') ?ps)"
    unfolding change_records_def Let_def digest_in_def by (rule concat_map_if)
  have "sorted ?ps" "distinct ?ps" by (simp_all add: all_paths_def sorted_remdups)
  then have "sorted_wrt (<) ?ps" by (simp add: strict_sorted_iff)
  then have "sorted_wrt (<) (map fc_path (change_records b c))"
    by (simp add: recs comp_def sorted_wrt_filter)
  moreover have mem: "p \<in> set ?ps \<longleftrightarrow> digest_in b p \<noteq> None \<or> digest_in c p \<noteq> None" for p
    using entry_map_dom [of "pb_entries b" p] entry_map_dom [of "pb_entries c" p]
    by (auto simp: all_paths_def digest_in_def)
  have st: "?st p = (case (digest_in b p, digest_in c p) of
        (Some x, Some y) \<Rightarrow> if x = y then ''unchanged'' else ''modified''
      | (Some _, None) \<Rightarrow> ''deleted'' | (None, Some _) \<Rightarrow> ''added'' | (None, None) \<Rightarrow> ''unknown'')" for p
    unfolding digest_in_def by (rule file_status_digest)
  have changed: "p \<in> set ?ps \<and> ?st p \<noteq> ''unchanged'' \<longleftrightarrow> digest_in b p \<noteq> digest_in c p" for p
    unfolding mem st by (auto split: option.split)
  have status: "digest_in b p \<noteq> digest_in c p \<Longrightarrow> ?st p =
      (if digest_in b p = None then ''added'' else if digest_in c p = None then ''deleted'' else ''modified'')" for p
    unfolding st by (auto split: option.split)
  have "r \<in> set (change_records b c) \<longleftrightarrow>
      digest_in b (fc_path r) \<noteq> digest_in c (fc_path r) \<and> r = ?rec (fc_path r)"
    unfolding recs using changed by force
  moreover have "r = ?rec (fc_path r) \<longleftrightarrow> fc_status r = ?st (fc_path r)
      \<and> fc_before_sha256 r = digest_in b (fc_path r) \<and> fc_after_sha256 r = digest_in c (fc_path r)"
    by (cases r) auto
  ultimately show ?thesis using status [of "fc_path r"] by auto
qed

end
