(* ===== verification/Conversation_Handles.thy ===== *)
theory Conversation_Handles
  imports Rust_Str Json
begin

text \<open>
  Conversation handles (\<open>mcp/conversation_handles.rs\<close>): opaque tokens that let an authenticated
  client name a conversation in tool arguments.  The store is an association list with distinct
  keys (a \<open>HashMap\<close>); SHA-256 (\<open>digest\<close>), the two random values a mint draws (\<open>rnd\<close>) and the tool
  registry's test (\<open>builtin\<close>) are parameters.  Keys handed to \<open>forget_handle_conversation\<close> are
  returned with the new state.
\<close>

section \<open>The store\<close>

definition KEY_PREFIX :: string where "KEY_PREFIX = ''ctmcp-handle:''"
definition TTL_MS :: nat where "TTL_MS = 24 * 60 * 60 * 1000"
definition MAX_HANDLES :: nat where "MAX_HANDLES = 1024"

record Entry =
  en_owner :: string
  en_native :: "string option"
  en_key :: string
  en_expires_at :: nat

type_synonym HandleStore = "(string \<times> Entry) list"

record HandleResponse =
  hr_token :: "string option"
  hr_expires_at :: nat
  hr_platform_bound :: bool

datatype handle_error =
    ReservedNamespace
  | BadCreateFlag
  | NotBuiltinTool
  | AuthRequired
  | InvalidHandle
  | NativeMismatch
  | HandleExpired
  | HandleLimit
  | ParamsNotObject

fun error_code :: "handle_error \<Rightarrow> string" where
  "error_code ReservedNamespace = ''CONVERSATION_HANDLE_CONFLICT''"
| "error_code BadCreateFlag = ''INVALID_ARGUMENT''"
| "error_code NotBuiltinTool = ''INVALID_ARGUMENT''"
| "error_code AuthRequired = ''CONVERSATION_HANDLE_AUTH_REQUIRED''"
| "error_code InvalidHandle = ''CONVERSATION_HANDLE_INVALID''"
| "error_code NativeMismatch = ''CONVERSATION_HANDLE_CONFLICT''"
| "error_code HandleExpired = ''CONVERSATION_HANDLE_EXPIRED''"
| "error_code HandleLimit = ''CONVERSATION_HANDLE_LIMIT''"
| "error_code ParamsNotObject = ''INVALID_ARGUMENT''"

text \<open>\<open>retain\<close> of the live entries, with the keys of the dropped ones that were not native.\<close>

definition live :: "nat \<Rightarrow> string \<times> Entry \<Rightarrow> bool" where
  "live now e = (en_expires_at (snd e) > now)"

definition retain_live :: "nat \<Rightarrow> HandleStore \<Rightarrow> HandleStore \<times> string list" where
  "retain_live now store =
     (filter (live now) store,
      map (\<lambda>e. en_key (snd e)) (filter (\<lambda>e. \<not> live now e \<and> en_native (snd e) = None) store))"

definition expiry_times :: "nat \<Rightarrow> HandleStore \<Rightarrow> (HandleStore \<times> string list) \<times> nat list" where
  "expiry_times now store =
     (let (kept, forgotten) = retain_live now store
      in ((kept, forgotten), sort (map (\<lambda>e. en_expires_at (snd e)) kept)))"

section \<open>The request\<close>

definition jupdate :: "string \<Rightarrow> (json \<Rightarrow> json) \<Rightarrow> json \<Rightarrow> json" where
  "jupdate k f v =
     (case v of
        JObj kvs \<Rightarrow> (case map_of kvs k of Some x \<Rightarrow> JObj (obj_insert k (f x) kvs) | None \<Rightarrow> v)
      | _ \<Rightarrow> v)"

definition jremove :: "string \<Rightarrow> json \<Rightarrow> json" where
  "jremove k v = (case v of JObj kvs \<Rightarrow> JObj (obj_remove k kvs) | _ \<Rightarrow> v)"

fun jpath :: "json \<Rightarrow> string list \<Rightarrow> json option" where
  "jpath v [] = Some v"
| "jpath v (k # ks) = (case jget v k of Some w \<Rightarrow> jpath w ks | None \<Rightarrow> None)"

definition native_of :: "json \<Rightarrow> string option" where
  "native_of body =
     (case Option.bind (jpath body [''params'', ''_meta'', ''openai/session'']) as_str of
        Some s \<Rightarrow> (let key = trim s in if key \<noteq> [] then Some key else None)
      | None \<Rightarrow> None)"

definition take_argument :: "string \<Rightarrow> json \<Rightarrow> json option \<times> json" where
  "take_argument k body =
     (jpath body [''params'', ''arguments'', k],
      jupdate ''params'' (jupdate ''arguments'' (jremove k)) body)"

definition tool_name :: "json \<Rightarrow> string" where
  "tool_name body =
     (case Option.bind (jpath body [''params'', ''name'']) as_str of Some s \<Rightarrow> s | None \<Rightarrow> [])"

definition well_formed_token :: "json \<Rightarrow> string option" where
  "well_formed_token raw =
     (case as_str raw of
        Some value \<Rightarrow>
          if length value = 67 \<and> starts_with value ''ch_''
             \<and> list_all (\<lambda>c. is_ascii_digit c \<or> (CHR ''a'' \<le> c \<and> c \<le> CHR ''f'')) (drop 3 value)
          then Some value else None
      | None \<Rightarrow> None)"

text \<open>The routing metadata written into \<open>params._meta\<close>.\<close>

definition bind_meta :: "string \<Rightarrow> bool \<Rightarrow> json \<Rightarrow> json" where
  "bind_meta key platform_bound meta =
     (let kvs = (case meta of JObj kvs \<Rightarrow> kvs | _ \<Rightarrow> []);
          meta = JObj (obj_insert ''openai/session'' (JStr key) kvs)
      in if platform_bound then meta
         else jupdate ''io.modelcontextprotocol/clientCapabilities''
                (jupdate ''extensions'' (jremove ''io.modelcontextprotocol/tasks'')) meta)"

definition bind_body :: "string \<Rightarrow> bool \<Rightarrow> json \<Rightarrow> json option" where
  "bind_body key platform_bound body =
     (case body of
        JObj kvs \<Rightarrow>
          (case map_of kvs ''params'' of
             Some (JObj params) \<Rightarrow>
               let meta = (case map_of params ''_meta'' of Some m \<Rightarrow> m | None \<Rightarrow> JObj [])
               in Some (JObj (obj_insert ''params''
                    (JObj (obj_insert ''_meta'' (bind_meta key platform_bound meta) params)) kvs))
           | _ \<Rightarrow> None)
      | _ \<Rightarrow> None)"

section \<open>Preparing a request\<close>

record grant =
  gr_token :: string
  gr_key :: string
  gr_expires_at :: nat
  gr_platform_bound :: bool

text \<open>Redeeming a token.\<close>

definition redeem ::
    "(string \<Rightarrow> string) \<Rightarrow> HandleStore \<Rightarrow> string \<Rightarrow> string option \<Rightarrow> json \<Rightarrow> nat
       \<Rightarrow> (HandleStore \<times> string list) \<times> (handle_error + grant)" where
  "redeem digest store owner native raw now =
     (case well_formed_token raw of
        None \<Rightarrow> ((store, []), Inl InvalidHandle)
      | Some token \<Rightarrow>
     (case map_of store (digest token) of
        None \<Rightarrow> ((store, []), Inl InvalidHandle)
      | Some entry \<Rightarrow>
          if en_owner entry \<noteq> owner then ((store, []), Inl InvalidHandle)
          else if en_native entry \<noteq> native then ((store, []), Inl NativeMismatch)
          else if en_expires_at entry \<le> now
          then ((al_del (digest token) store, if en_native entry = None then [en_key entry] else []),
                Inl HandleExpired)
          else ((store, []),
                Inr \<lparr>gr_token = token, gr_key = en_key entry, gr_expires_at = en_expires_at entry,
                     gr_platform_bound = (en_native entry \<noteq> None)\<rparr>)))"

text \<open>Minting a token from the two random values.\<close>

definition mint ::
    "(string \<Rightarrow> string) \<Rightarrow> string \<times> string \<Rightarrow> HandleStore \<Rightarrow> string \<Rightarrow> string option \<Rightarrow> nat
       \<Rightarrow> (HandleStore \<times> string list) \<times> (handle_error + grant)" where
  "mint digest rnd store owner native now =
     (let (store, forgotten) = retain_live now store
      in if length store \<ge> MAX_HANDLES then ((store, forgotten), Inl HandleLimit)
         else
           let token = ''ch_'' @ fst rnd;
               key = (case native of Some k \<Rightarrow> k | None \<Rightarrow> KEY_PREFIX @ snd rnd);
               expires_at = sat_add now TTL_MS
           in ((al_put (digest token)
                  \<lparr>en_owner = owner, en_native = native, en_key = key, en_expires_at = expires_at\<rparr> store,
                forgotten),
               Inr \<lparr>gr_token = token, gr_key = key, gr_expires_at = expires_at,
                    gr_platform_bound = (native \<noteq> None)\<rparr>))"

record prepared =
  pr_store :: HandleStore
  pr_body :: json
  pr_forgotten :: "string list"
  pr_result :: "handle_error + HandleResponse option"

definition prepared_of ::
    "HandleStore \<Rightarrow> json \<Rightarrow> string list \<Rightarrow> handle_error + HandleResponse option \<Rightarrow> prepared" where
  "prepared_of store body forgotten result =
     \<lparr>pr_store = store, pr_body = body, pr_forgotten = forgotten, pr_result = result\<rparr>"

text \<open>
  The guards on a tool call: an error, nothing to do, or the owner for whom a handle is redeemed
  (\<open>Some raw\<close>) or minted (\<open>None\<close>).
\<close>

definition call_guards ::
    "(string \<Rightarrow> bool) \<Rightarrow> string option \<Rightarrow> string option \<Rightarrow> string \<Rightarrow> json option \<Rightarrow> json option
       \<Rightarrow> handle_error + (string \<times> json option) option" where
  "call_guards builtin owner native name raw create =
     (if create \<noteq> None \<and> (name \<noteq> ''conversation_bootstrap'' \<or> as_bool (the create) = None)
      then Inl BadCreateFlag
      else
        let minting = (raw = None \<and> name = ''conversation_bootstrap''
                       \<and> (native = None \<or> create = Some (JBool True)))
        in if raw = None \<and> \<not> minting then Inr None
           else if \<not> builtin name then Inl NotBuiltinTool
           else case owner of
             None \<Rightarrow> Inl AuthRequired
           | Some owner \<Rightarrow> Inr (Some (owner, raw)))"

definition grant_handle ::
    "(string \<Rightarrow> string) \<Rightarrow> string \<times> string \<Rightarrow> HandleStore \<Rightarrow> string option \<Rightarrow> nat \<Rightarrow> string \<times> json option
       \<Rightarrow> (HandleStore \<times> string list) \<times> (handle_error + grant)" where
  "grant_handle digest rnd store native now request =
     (case snd request of
        Some raw \<Rightarrow> redeem digest store (fst request) native raw now
      | None \<Rightarrow> mint digest rnd store (fst request) native now)"

definition prepare ::
    "(string \<Rightarrow> string) \<Rightarrow> (string \<Rightarrow> bool) \<Rightarrow> string \<times> string \<Rightarrow> HandleStore \<Rightarrow> string option \<Rightarrow> json
       \<Rightarrow> nat \<Rightarrow> prepared" where
  "prepare digest builtin rnd store owner body now =
     (let native = native_of body
      in if (case native of Some key \<Rightarrow> starts_with key KEY_PREFIX | None \<Rightarrow> False)
         then prepared_of store body [] (Inl ReservedNamespace)
         else if get_str body ''method'' \<noteq> Some ''tools/call''
         then prepared_of store body [] (Inr None)
         else
           let name = tool_name body;
               (raw, body) = take_argument ''conversation_handle'' body;
               (create, body) = take_argument ''create_conversation_handle'' body
           in case call_guards builtin owner native name raw create of
                Inl e \<Rightarrow> prepared_of store body [] (Inl e)
              | Inr None \<Rightarrow> prepared_of store body [] (Inr None)
              | Inr (Some request) \<Rightarrow>
                  let ((store, forgotten), r) = grant_handle digest rnd store native now request
                  in case r of
                       Inl e \<Rightarrow> prepared_of store body forgotten (Inl e)
                     | Inr g \<Rightarrow>
                         (case bind_body (gr_key g) (gr_platform_bound g) body of
                            None \<Rightarrow> prepared_of store body forgotten (Inl ParamsNotObject)
                          | Some body \<Rightarrow>
                              prepared_of store body forgotten
                                (Inr (Some \<lparr>
                                   hr_token = (if name = ''conversation_bootstrap''
                                               then Some (gr_token g) else None),
                                   hr_expires_at = gr_expires_at g,
                                   hr_platform_bound = gr_platform_bound g\<rparr>))))"

section \<open>The response\<close>

definition json_member_or_null :: "json \<Rightarrow> string \<Rightarrow> json" where
  "json_member_or_null v k = (case jget v k of Some w \<Rightarrow> w | None \<Rightarrow> JNull)"

definition is_text_block :: "json \<Rightarrow> bool" where
  "is_text_block block = (json_member_or_null block ''type'' = JStr ''text'')"

definition text_of_blocks :: "json list \<Rightarrow> string" where
  "text_of_blocks content =
     join [LF] (concat (map (\<lambda>b. case as_str (json_member_or_null b ''text'') of Some s \<Rightarrow> [s] | None \<Rightarrow> [])
                          (filter is_text_block content)))"

text \<open>\<open>to_text\<close> is \<open>Value::to_string\<close>.\<close>

definition decorate :: "(json \<Rightarrow> string) \<Rightarrow> HandleResponse \<Rightarrow> json \<Rightarrow> json" where
  "decorate to_text grant response =
     (case jget response ''result'' of
        Some (JObj result) \<Rightarrow>
          let structured = Option.bind (map_of result ''structuredContent'') as_object;
              array = Option.bind (map_of result ''content'') as_array
          in if structured = None \<and> array = None then response
             else
               let content = (case array of Some xs \<Rightarrow> xs | None \<Rightarrow> []);
                   text = text_of_blocks content;
                   payload = (case structured of
                                Some kvs \<Rightarrow> kvs
                              | None \<Rightarrow> if text = [] then [] else [(''text'', JStr text)]);
                   payload = obj_insert ''conversation_identity_source'' (JStr ''conversation_handle'')
                     (obj_insert ''platform_conversation_bound'' (JBool (hr_platform_bound grant))
                     (obj_insert ''conversation_handle_expires_at_ms'' (JInt (int (hr_expires_at grant)))
                       payload));
                   payload = JObj (case hr_token grant of
                                     Some token \<Rightarrow> obj_insert ''conversation_handle'' (JStr token) payload
                                   | None \<Rightarrow> payload);
                   merged = JObj [(''type'', JStr ''text''), (''text'', JStr (to_text payload))]
                              # filter (\<lambda>b. \<not> is_text_block b) content
               in jupdate ''result''
                    (\<lambda>_. JObj (obj_insert ''content'' (JArr merged)
                                (obj_insert ''structuredContent'' payload result))) response
      | _ \<Rightarrow> response)"

section \<open>Reading updated requests\<close>

lemma jget_jupdate:
  "jget (jupdate k f v) k' = (if k' = k then map_option f (jget v k) else jget v k')"
  by (auto simp: jupdate_def jget_def split: json.split option.split)

lemma jget_jremove: "jget (jremove k v) k' = (if k' = k then None else jget v k')"
  by (auto simp: jremove_def jget_def split: json.split)

lemma jpath_simps [simp]: "jpath v [k] = jget v k"
  by (simp split: option.split)

lemma take_argument_removes:
  "jpath (snd (take_argument k body)) [''params'', ''arguments'', k] = None"
  by (auto simp: take_argument_def jget_jupdate jget_jremove split: option.split)

lemma take_argument_keeps_absent:
  "jpath body [''params'', ''arguments'', k] = None \<Longrightarrow>
   jpath (snd (take_argument k' body)) [''params'', ''arguments'', k] = None"
  by (auto simp: take_argument_def jget_jupdate jget_jremove split: option.splits)

lemma take_argument_native [simp]: "native_of (snd (take_argument k body)) = native_of body"
  by (simp add: native_of_def take_argument_def jget_jupdate split: option.split)

lemma bind_meta_session: "jget (bind_meta key bound meta) ''openai/session'' = Some (JStr key)"
  by (simp add: bind_meta_def jget_jupdate Let_def) (simp add: jget_def)

lemma bind_body_paths:
  assumes "bind_body key bound body = Some body'"
  shows "jpath body' [''params'', ''_meta'', ''openai/session''] = Some (JStr key)"
    and "jpath body' [''params'', ''arguments'', k] = jpath body [''params'', ''arguments'', k]"
proof -
  obtain kvs params where b: "body = JObj kvs" "map_of kvs ''params'' = Some (JObj params)"
    using assms by (auto simp: bind_body_def split: json.splits option.splits)
  define meta where "meta = (case map_of params ''_meta'' of Some m \<Rightarrow> m | None \<Rightarrow> JObj [])"
  have body': "body' = JObj (obj_insert ''params''
      (JObj (obj_insert ''_meta'' (bind_meta key bound meta) params)) kvs)"
    using assms b by (simp add: bind_body_def meta_def)
  show "jpath body' [''params'', ''_meta'', ''openai/session''] = Some (JStr key)"
    using bind_meta_session [of key bound meta] by (simp add: body' jget_def)
  show "jpath body' [''params'', ''arguments'', k] = jpath body [''params'', ''arguments'', k]"
    by (simp add: body' b jget_def)
qed

section \<open>A handle serves only the client it was issued to\<close>

lemma redeem_Inr:
  assumes "redeem digest store owner native raw now = ((store', forgotten), Inr g)"
  shows "store' = store \<and> (\<exists>token e. raw = JStr token \<and> map_of store (digest token) = Some e
      \<and> en_owner e = owner \<and> en_native e = native \<and> now < en_expires_at e
      \<and> gr_key g = en_key e \<and> gr_token g = token)"
  using assms
  by (auto simp: redeem_def well_formed_token_def as_str_def not_le
      split: option.splits json.splits if_splits)

text \<open>The request without its two handle arguments.\<close>

definition stripped :: "json \<Rightarrow> json" where
  "stripped body = snd (take_argument ''create_conversation_handle''
                         (snd (take_argument ''conversation_handle'' body)))"

definition handle_argument :: "json \<Rightarrow> json option" where
  "handle_argument body = jpath body [''params'', ''arguments'', ''conversation_handle'']"

lemma stripped_paths:
  "jpath (stripped body) [''params'', ''arguments'', ''conversation_handle''] = None"
  "jpath (stripped body) [''params'', ''arguments'', ''create_conversation_handle''] = None"
  unfolding stripped_def
  by (rule take_argument_keeps_absent [OF take_argument_removes], rule take_argument_removes)

lemma call_guards_Some:
  "call_guards builtin owner native name raw create = Inr (Some req) \<Longrightarrow>
   owner = Some (fst req) \<and> snd req = raw \<and> builtin name
   \<and> (raw = None \<longrightarrow> name = ''conversation_bootstrap'')"
  by (auto simp: call_guards_def Let_def split: if_splits option.splits)

text \<open>The possible outcomes of \<open>prepare\<close>.\<close>

lemma prepare_cases:
  assumes "p = prepare digest builtin rnd store owner body now"
  obtains (early) "pr_store p = store" "pr_body p = body" "\<forall>r. pr_result p \<noteq> Inr (Some r)"
      "(\<exists>key. native_of body = Some key \<and> starts_with key KEY_PREFIX) \<or> get_str body ''method'' \<noteq> Some ''tools/call''"
  | (refused) "pr_store p = store" "pr_body p = stripped body" "\<forall>r. pr_result p \<noteq> Inr (Some r)"
  | (failed) o' req e where "owner = Some o'" "snd req = handle_argument body" "fst req = o'"
      "\<forall>key. native_of body = Some key \<longrightarrow> \<not> starts_with key KEY_PREFIX"
      "grant_handle digest rnd store (native_of body) now req = ((pr_store p, pr_forgotten p), e)"
      "pr_body p = stripped body" "\<forall>r. pr_result p \<noteq> Inr (Some r)"
  | (granted) o' req g resp where "owner = Some o'" "snd req = handle_argument body" "fst req = o'"
      "\<forall>key. native_of body = Some key \<longrightarrow> \<not> starts_with key KEY_PREFIX"
      "grant_handle digest rnd store (native_of body) now req = ((pr_store p, pr_forgotten p), Inr g)"
      "bind_body (gr_key g) (gr_platform_bound g) (stripped body) = Some (pr_body p)"
      "pr_result p = Inr (Some resp)" "hr_token resp \<in> {None, Some (gr_token g)}"
      "get_str body ''method'' = Some ''tools/call''"
proof -
  define native where "native = native_of body"
  define b1 where "b1 = snd (take_argument ''conversation_handle'' body)"
  define create where "create = fst (take_argument ''create_conversation_handle'' b1)"
  define raw where "raw = handle_argument body"
  have t1: "take_argument ''conversation_handle'' body = (raw, b1)"
    by (simp add: raw_def handle_argument_def b1_def take_argument_def)
  have t2: "take_argument ''create_conversation_handle'' b1 = (create, stripped body)"
    by (simp add: create_def stripped_def b1_def)
  note p = assms [unfolded prepare_def Let_def t1 prod.case t2, folded native_def]
  show thesis
  proof (cases "(\<exists>key. native = Some key \<and> starts_with key KEY_PREFIX) \<or> get_str body ''method'' \<noteq> Some ''tools/call''")
    case True
    then have "pr_store p = store \<and> pr_body p = body \<and> (\<forall>r. pr_result p \<noteq> Inr (Some r))"
      by (auto simp: p prepared_of_def)
    with True early show ?thesis by (simp add: native_def)
  next
    case False
    then have p': "p = (case call_guards builtin owner native (tool_name body) raw create of
          Inl e \<Rightarrow> prepared_of store (stripped body) [] (Inl e)
        | Inr None \<Rightarrow> prepared_of store (stripped body) [] (Inr None)
        | Inr (Some request) \<Rightarrow>
            (case grant_handle digest rnd store native now request of
               ((store, forgotten), Inl e) \<Rightarrow> prepared_of store (stripped body) forgotten (Inl e)
             | ((store, forgotten), Inr g) \<Rightarrow>
                 (case bind_body (gr_key g) (gr_platform_bound g) (stripped body) of
                    None \<Rightarrow> prepared_of store (stripped body) forgotten (Inl ParamsNotObject)
                  | Some body' \<Rightarrow> prepared_of store body' forgotten
                      (Inr (Some \<lparr>hr_token = (if tool_name body = ''conversation_bootstrap''
                                               then Some (gr_token g) else None),
                                  hr_expires_at = gr_expires_at g,
                                  hr_platform_bound = gr_platform_bound g\<rparr>)))))"
      unfolding p by (auto split: option.split sum.split prod.split)
    have nat: "\<forall>key. native_of body = Some key \<longrightarrow> \<not> starts_with key KEY_PREFIX"
      using False by (auto simp: native_def)
    show ?thesis
    proof (cases "\<exists>req. call_guards builtin owner native (tool_name body) raw create = Inr (Some req)")
      case no: False
      then have "pr_store p = store \<and> pr_body p = stripped body \<and> (\<forall>r. pr_result p \<noteq> Inr (Some r))"
        unfolding p' by (auto simp: prepared_of_def split: sum.split option.split)
      then show ?thesis using refused by blast
    next
      case True
      then obtain req where req: "call_guards builtin owner native (tool_name body) raw create = Inr (Some req)"
        by blast
      obtain st fo r where g: "grant_handle digest rnd store native now req = ((st, fo), r)"
        by (metis surj_pair)
      note o' = call_guards_Some [OF req]
      show ?thesis
      proof (cases "\<exists>gr b. r = Inr gr \<and> bind_body (gr_key gr) (gr_platform_bound gr) (stripped body) = Some b")
        case True
        then obtain gr b where gb: "r = Inr gr"
            "bind_body (gr_key gr) (gr_platform_bound gr) (stripped body) = Some b"
          by blast
        have "p = prepared_of st b fo (Inr (Some \<lparr>
            hr_token = (if tool_name body = ''conversation_bootstrap'' then Some (gr_token gr) else None),
            hr_expires_at = gr_expires_at gr, hr_platform_bound = gr_platform_bound gr\<rparr>))"
          unfolding p' req by (simp add: g gb)
        then show ?thesis
          using granted [of "fst req" req gr] o' nat g gb False
          by (simp add: prepared_of_def raw_def native_def)
      next
        case no: False
        then have "pr_store p = st \<and> pr_forgotten p = fo \<and> pr_body p = stripped body \<and> (\<forall>r. pr_result p \<noteq> Inr (Some r))"
          by (cases r) (auto simp: p' req g prepared_of_def split: option.split)
        then show ?thesis
          using failed [of "fst req" req r] o' nat g by (auto simp: raw_def native_def)
      qed
    qed
  qed
qed


text \<open>Concrete requests: one that carries a handle, and one that asks for a first one.\<close>

definition token_sample :: string where "token_sample = ''ch_'' @ replicate 64 (CHR ''0'')"

definition store_sample :: HandleStore where
  "store_sample = [(token_sample, \<lparr>en_owner = ''alice'', en_native = None,
     en_key = ''ctmcp-handle:1'', en_expires_at = 20\<rparr>)]"

definition handle_request :: json where
  "handle_request = JObj [(''method'', JStr ''tools/call''),
     (''params'', JObj [(''name'', JStr ''read_file''),
        (''arguments'', JObj [(''conversation_handle'', JStr token_sample)])])]"

definition bootstrap_request :: json where
  "bootstrap_request = JObj [(''method'', JStr ''tools/call''),
     (''params'', JObj [(''name'', JStr ''conversation_bootstrap''), (''arguments'', JObj [])])]"

lemma handle_request_accepted:
  "pr_result (prepare id (\<lambda>_. True) ([], []) store_sample (Some ''alice'') handle_request 10)
     = Inr (Some \<lparr>hr_token = None, hr_expires_at = 20, hr_platform_bound = False\<rparr>)"
  "handle_argument handle_request = Some (JStr token_sample)"
  "get_str handle_request ''method'' = Some ''tools/call''"
  by code_simp+

lemma bootstrap_accepted:
  "pr_result (prepare id (\<lambda>_. True) (''a'', ''b'') [] (Some ''alice'') bootstrap_request 10)
     = Inr (Some \<lparr>hr_token = Some ''ch_a'', hr_expires_at = sat_add 10 TTL_MS, hr_platform_bound = False\<rparr>)"
  by (simp add: prepare_def prepared_of_def bootstrap_request_def native_of_def get_str_def jget_def
      as_str_def take_argument_def jupdate_def jremove_def tool_name_def call_guards_def
      grant_handle_def mint_def retain_live_def MAX_HANDLES_def bind_body_def Let_def obj_remove_def
      obj_insert_def)

text \<open>
  C21.  A handle serves only the client it was issued to: when a request that carries a handle is
  accepted, the handle is a token whose digest is in the store, under an unexpired entry of the
  same authenticated owner and the same platform conversation; the request is routed to that
  entry's key, and the store is unchanged.
\<close>

theorem handle_redeemed_only_by_its_owner:
  assumes "p = prepare digest builtin rnd store owner body now"
    and "pr_result p = Inr (Some resp)" and "handle_argument body = Some raw"
  shows "\<exists>token e. raw = JStr token \<and> map_of store (digest token) = Some e
    \<and> owner = Some (en_owner e) \<and> native_of body = en_native e \<and> now < en_expires_at e
    \<and> jpath (pr_body p) [''params'', ''_meta'', ''openai/session''] = Some (JStr (en_key e))
    \<and> pr_store p = store"
proof (rule prepare_cases [OF assms(1)])
  fix o' req g resp'
  assume "owner = Some o'" "snd req = handle_argument body" "fst req = o'"
    and g: "grant_handle digest rnd store (native_of body) now req = ((pr_store p, pr_forgotten p), Inr g)"
    and b: "bind_body (gr_key g) (gr_platform_bound g) (stripped body) = Some (pr_body p)"
  moreover from this have "redeem digest store o' (native_of body) raw now
      = ((pr_store p, pr_forgotten p), Inr g)"
    using assms(3) by (simp add: grant_handle_def)
  ultimately show ?thesis
    using redeem_Inr [of digest store o' "native_of body" raw now] bind_body_paths(1) [OF b]
    by fastforce
qed (use assms(2) in simp_all)

theorem handle_redeemed_only_by_its_owner_witness:
  "\<exists>token e. JStr token_sample = JStr token \<and> map_of store_sample (id token) = Some e
    \<and> Some ''alice'' = Some (en_owner e) \<and> native_of handle_request = en_native e
    \<and> 10 < en_expires_at e
    \<and> jpath (pr_body (prepare id (\<lambda>_. True) ([], []) store_sample (Some ''alice'') handle_request 10))
        [''params'', ''_meta'', ''openai/session''] = Some (JStr (en_key e))
    \<and> pr_store (prepare id (\<lambda>_. True) ([], []) store_sample (Some ''alice'') handle_request 10)
      = store_sample"
  by (rule handle_redeemed_only_by_its_owner [OF refl handle_request_accepted(1,2)])

text \<open>
  No handle argument reaches a tool: whenever a tool call passes (with or without a handle),
  both handle arguments have been taken out of the arguments it runs with.
\<close>

lemma handle_arguments_never_reach_a_tool:
  assumes "get_str body ''method'' = Some ''tools/call''"
    and "pr_result (prepare digest builtin rnd store owner body now) = Inr r"
    and "k \<in> {''conversation_handle'', ''create_conversation_handle''}"
  shows "jpath (pr_body (prepare digest builtin rnd store owner body now))
           [''params'', ''arguments'', k] = None"
proof -
  have s: "jpath (stripped body) [''params'', ''arguments'', k] = None"
    using assms(3) stripped_paths [of body] by auto
  show ?thesis
  proof (rule prepare_cases [OF refl, of digest builtin rnd store owner body now], goal_cases)
    case 1
    then obtain key where key: "native_of body = Some key" "starts_with key KEY_PREFIX"
      using assms(1) by auto
    then show ?case
      using assms(2) by (simp add: prepare_def prepared_of_def)
  next
    case (4 o' req g resp)
    then show ?case using bind_body_paths(2) s by metis
  qed (simp_all only: s)
qed

theorem handle_arguments_never_reach_a_tool_witness:
  "jpath (pr_body (prepare id (\<lambda>_. True) ([], []) store_sample (Some ''alice'') handle_request 10))
     [''params'', ''arguments'', ''conversation_handle''] = None"
  by (rule handle_arguments_never_reach_a_tool [OF handle_request_accepted(3,1)]) simp

section \<open>Reachable stores\<close>

text \<open>Every store that requests and expiry sweeps, at any times, lead to from the empty one.\<close>

inductive reachable_store ::
    "(string \<Rightarrow> string) \<Rightarrow> (string \<Rightarrow> bool) \<Rightarrow> HandleStore \<Rightarrow> bool"
  for digest :: "string \<Rightarrow> string" and builtin :: "string \<Rightarrow> bool" where
  empty_store: "reachable_store digest builtin []"
| request: "reachable_store digest builtin store \<Longrightarrow>
    reachable_store digest builtin (pr_store (prepare digest builtin rnd store owner body now))"
| sweep: "reachable_store digest builtin store \<Longrightarrow>
    reachable_store digest builtin (fst (fst (expiry_times now store)))"

definition entry_ok :: "Entry \<Rightarrow> bool" where
  "entry_ok e =
     (case en_native e of
        None \<Rightarrow> starts_with (en_key e) KEY_PREFIX
      | Some k \<Rightarrow> en_key e = k \<and> \<not> starts_with k KEY_PREFIX)"

definition store_ok :: "HandleStore \<Rightarrow> bool" where
  "store_ok store =
     (distinct (map fst store) \<and> length store \<le> MAX_HANDLES
      \<and> list_all (\<lambda>e. entry_ok (snd e)) store)"

lemma list_all_al_put: "list_all (\<lambda>e. P (snd e)) kvs \<Longrightarrow> P v \<Longrightarrow> list_all (\<lambda>e. P (snd e)) (al_put k v kvs)"
  by (auto simp: al_put_def list_all_iff)

lemma store_ok_filter: "store_ok store \<Longrightarrow> store_ok (filter Q store)"
  by (auto simp: store_ok_def distinct_al_filter list_all_iff intro: le_trans [OF length_filter_le])

lemma redeem_store_ok:
  "store_ok store \<Longrightarrow> redeem digest store owner native raw now = ((store', fo), r) \<Longrightarrow> store_ok store'"
  by (auto simp: redeem_def al_del_def store_ok_filter split: option.splits if_splits)

lemma mint_store_ok:
  assumes "store_ok store" "\<forall>k. native = Some k \<longrightarrow> \<not> starts_with k KEY_PREFIX"
    and "mint digest rnd store owner native now = ((store', fo), r)"
  shows "store_ok store'"
proof -
  define kept where "kept = filter (live now) store"
  have kept: "store_ok kept" using assms(1) by (simp add: kept_def store_ok_filter)
  have e: "entry_ok \<lparr>en_owner = owner, en_native = native,
      en_key = (case native of Some k \<Rightarrow> k | None \<Rightarrow> KEY_PREFIX @ snd rnd), en_expires_at = t\<rparr>" for t
    using assms(2) by (auto simp: entry_ok_def starts_with_def split: option.split)
  have "length kept \<ge> MAX_HANDLES \<Longrightarrow> store' = kept"
    using assms(3) by (simp add: mint_def retain_live_def kept_def)
  moreover have "store' = al_put (digest (''ch_'' @ fst rnd)) \<lparr>en_owner = owner, en_native = native,
      en_key = (case native of Some k \<Rightarrow> k | None \<Rightarrow> KEY_PREFIX @ snd rnd),
      en_expires_at = sat_add now TTL_MS\<rparr> kept" if "\<not> length kept \<ge> MAX_HANDLES"
    using assms(3) that by (simp add: mint_def retain_live_def kept_def Let_def)
  moreover have "length (al_put k v kept) \<le> MAX_HANDLES" if "\<not> length kept \<ge> MAX_HANDLES" for k and v :: Entry
    using that length_al(1) [of k v kept] by linarith
  ultimately show ?thesis
    using kept e by (cases "length kept \<ge> MAX_HANDLES")
      (auto simp: store_ok_def intro!: list_all_al_put)
qed

lemma grant_handle_store_ok:
  "store_ok store \<Longrightarrow> \<forall>k. native = Some k \<longrightarrow> \<not> starts_with k KEY_PREFIX \<Longrightarrow>
   grant_handle digest rnd store native now req = ((store', fo), r) \<Longrightarrow> store_ok store'"
  by (auto simp: grant_handle_def intro: redeem_store_ok mint_store_ok split: option.splits)

lemma prepare_store_ok:
  "store_ok store \<Longrightarrow> store_ok (pr_store (prepare digest builtin rnd store owner body now))"
  by (rule prepare_cases [OF refl, of digest builtin rnd store owner body now])
    (auto dest: grant_handle_store_ok)

lemma reachable_store_ok: "reachable_store digest builtin store \<Longrightarrow> store_ok store"
proof (induction rule: reachable_store.induct)
  case empty_store
  then show ?case by (simp add: store_ok_def MAX_HANDLES_def)
next
  case (sweep store now)
  then show ?case by (simp add: expiry_times_def retain_live_def store_ok_filter)
qed (rule prepare_store_ok)

lemma grant_key:
  assumes "store_ok store" "\<forall>k. native = Some k \<longrightarrow> \<not> starts_with k KEY_PREFIX"
    and "grant_handle digest rnd store native now req = ((store', fo), Inr g)"
  shows "case native of Some k \<Rightarrow> gr_key g = k | None \<Rightarrow> starts_with (gr_key g) KEY_PREFIX"
proof (cases "snd req")
  case None
  then have "mint digest rnd store (fst req) native now = ((store', fo), Inr g)"
    using assms(3) by (simp add: grant_handle_def)
  then show ?thesis
    by (auto simp: mint_def retain_live_def Let_def starts_with_def split: if_splits option.split)
next
  case (Some raw)
  then obtain token e where "map_of store (digest token) = Some e" "en_native e = native"
      "gr_key g = en_key e"
    using assms(3) redeem_Inr [of digest store "fst req" native raw now store' fo g]
    by (auto simp: grant_handle_def)
  moreover from this have "entry_ok e"
    using assms(1) map_of_SomeD [of store "digest token" e] by (auto simp: store_ok_def list_all_iff)
  ultimately show ?thesis
    by (auto simp: entry_ok_def split: option.splits)
qed

text \<open>
  C23.  The two identity namespaces stay apart: in every reachable store, an accepted request that
  is routed by a handle runs in its own platform conversation when the platform names one, and
  otherwise under a key of the reserved prefix, which no platform conversation can have; the store
  never exceeds its capacity.
\<close>

theorem handle_routing_is_isolated:
  assumes "reachable_store digest builtin store"
    and "pr_result (prepare digest builtin rnd store owner body now) = Inr (Some resp)"
  shows "(\<exists>key. jpath (pr_body (prepare digest builtin rnd store owner body now))
                  [''params'', ''_meta'', ''openai/session''] = Some (JStr key)
            \<and> (case native_of body of
                 Some native \<Rightarrow> key = native \<and> \<not> starts_with key KEY_PREFIX
               | None \<Rightarrow> starts_with key KEY_PREFIX))
    \<and> length (pr_store (prepare digest builtin rnd store owner body now)) \<le> MAX_HANDLES"
proof -
  note ok = reachable_store_ok [OF assms(1)]
  have "length (pr_store (prepare digest builtin rnd store owner body now)) \<le> MAX_HANDLES"
    using prepare_store_ok [OF ok] by (simp add: store_ok_def)
  moreover have "\<exists>key. jpath (pr_body (prepare digest builtin rnd store owner body now))
                  [''params'', ''_meta'', ''openai/session''] = Some (JStr key)
            \<and> (case native_of body of
                 Some native \<Rightarrow> key = native \<and> \<not> starts_with key KEY_PREFIX
               | None \<Rightarrow> starts_with key KEY_PREFIX)"
  proof (rule prepare_cases [OF refl, of digest builtin rnd store owner body now], goal_cases)
    case (4 o' req g resp')
    then show ?case
      using grant_key [OF ok 4(4,5)] bind_body_paths(1) [OF 4(6)]
      by (cases "native_of body") auto
  qed (use assms(2) in simp_all)
  ultimately show ?thesis by blast
qed

theorem handle_routing_is_isolated_witness:
  "(\<exists>key. jpath (pr_body (prepare id (\<lambda>_. True) (''a'', ''b'') [] (Some ''alice'') bootstrap_request 10))
             [''params'', ''_meta'', ''openai/session''] = Some (JStr key)
        \<and> (case native_of bootstrap_request of
             Some native \<Rightarrow> key = native \<and> \<not> starts_with key KEY_PREFIX
           | None \<Rightarrow> starts_with key KEY_PREFIX))
   \<and> length (pr_store (prepare id (\<lambda>_. True) (''a'', ''b'') [] (Some ''alice'') bootstrap_request 10))
       \<le> MAX_HANDLES"
  by (rule handle_routing_is_isolated [OF empty_store bootstrap_accepted])

end
