(* ===== verification/Tunnel_Wire.thy ===== *)
theory Tunnel_Wire
  imports Json
begin

text \<open>
  The version 5 multiplex wire contract (\<open>crates/tunnel-protocol/src/multiplex.rs\<close>): the
  constants and the binary frame codec, with the two directions of its round trip.
\<close>

section \<open>Bounds of the contract\<close>

definition MAX_REQUEST_BODY_BYTES :: nat where
  "MAX_REQUEST_BODY_BYTES = 8 * 1024 * 1024"

definition PROTOCOL_VERSION :: u16 where "PROTOCOL_VERSION = 4"
definition MULTIPLEX_PROTOCOL_VERSION :: u16 where "MULTIPLEX_PROTOCOL_VERSION = 5"
definition DEFAULT_MULTIPLEX_STREAMS_PER_CONNECTION :: u16 where
  "DEFAULT_MULTIPLEX_STREAMS_PER_CONNECTION = 16"
definition MAX_MULTIPLEX_STREAMS_PER_CONNECTION :: u16 where
  "MAX_MULTIPLEX_STREAMS_PER_CONNECTION = 64"
definition MULTIPLEX_BINARY_HEADER_BYTES :: nat where "MULTIPLEX_BINARY_HEADER_BYTES = 14"
definition MAX_MULTIPLEX_BINARY_PAYLOAD_BYTES :: nat where
  "MAX_MULTIPLEX_BINARY_PAYLOAD_BYTES = MAX_REQUEST_BODY_BYTES"

section \<open>Big-endian integers\<close>

text \<open>\<open>to_be_bytes\<close> and \<open>from_be_bytes\<close> of an integer of \<open>n\<close> bytes.\<close>

fun be_bytes :: "nat \<Rightarrow> nat \<Rightarrow> u8 list" where
  "be_bytes 0 x = []"
| "be_bytes (Suc n) x = be_bytes n (x div 256) @ [of_nat x]"

definition be_value :: "u8 list \<Rightarrow> nat" where
  "be_value bs = foldl (\<lambda>a b. a * 256 + unat b) 0 bs"

lemma length_be_bytes [simp]: "length (be_bytes n x) = n"
  by (induction n arbitrary: x) simp_all

lemma be_value_snoc [simp]: "be_value (bs @ [b]) = be_value bs * 256 + unat b"
  by (simp add: be_value_def)

lemma be_value_bytes: "x < 256 ^ n \<Longrightarrow> be_value (be_bytes n x) = x"
proof (induction n arbitrary: x)
  case 0
  then show ?case by (simp add: be_value_def)
next
  case (Suc n)
  then have "x div 256 < 256 ^ n"
    by (simp add: less_mult_imp_div_less mult.commute)
  with Suc.IH show ?case
    by (simp add: unat_of_nat)
qed

lemma be_value_bound: "be_value bs < 256 ^ length bs"
proof (induction bs rule: rev_induct)
  case Nil
  then show ?case by (simp add: be_value_def)
next
  case (snoc b bs)
  have "unat b < 256" by simp
  moreover from snoc have "be_value bs * 256 + 256 \<le> 256 * 256 ^ length bs" by simp
  ultimately show ?case by (simp only: be_value_snoc length_append_singleton power_Suc)
qed

lemma be_bytes_value: "be_bytes (length bs) (be_value bs) = bs"
proof (induction bs rule: rev_induct)
  case Nil
  then show ?case by simp
next
  case (snoc b bs)
  have "(of_nat (be_value bs * 256 + unat b) :: u8) = of_nat (be_value bs) * of_nat 256 + b" by simp
  moreover have "(of_nat 256 :: u8) = 0" by (simp only: word_of_nat_eq_0_iff) simp
  ultimately have "(of_nat (be_value bs * 256 + unat b) :: u8) = b" by (simp only:) simp
  with snoc show ?case by simp
qed

lemma be_bytes_zero_iff:
  assumes "x < 256 ^ n"
  shows "be_bytes n x = replicate n 0 \<longleftrightarrow> x = 0"
proof
  have z: "be_bytes n 0 = replicate n 0"
    by (induction n) (simp_all add: replicate_append_same)
  show "x = 0 \<Longrightarrow> be_bytes n x = replicate n 0" by (simp add: z)
  assume "be_bytes n x = replicate n 0"
  then have "be_value (be_bytes n x) = be_value (be_bytes n 0)" by (simp add: z)
  then show "x = 0" using assms by (simp add: be_value_bytes)
qed

lemma be_value_zero_iff:
  assumes "length bs = n"
  shows "be_value bs = 0 \<longleftrightarrow> bs = replicate n 0"
  using be_bytes_zero_iff [of "be_value bs" n] be_value_bound [of bs] be_bytes_value [of bs] assms
  by simp

section \<open>Binary frames\<close>

datatype MultiplexBinaryFrameKind = RequestBody | ResponseBody

record MultiplexBinaryFrame =
  frame_kind :: MultiplexBinaryFrameKind
  frame_route_id :: u32
  frame_stream_id :: u64
  frame_payload :: "u8 list"

datatype frame_error =
    RouteIdZero
  | StreamIdZero
  | PayloadTooLarge
  | FrameTooShort
  | UnsupportedVersion u8
  | UnknownKind u8

text \<open>The text of each rejection, as the \<open>Err(String)\<close> of the code.\<close>

fun frame_error_message :: "frame_error \<Rightarrow> string" where
  "frame_error_message RouteIdZero = ''multiplex route id must be positive''"
| "frame_error_message StreamIdZero = ''multiplex stream id must be positive''"
| "frame_error_message PayloadTooLarge =
     ''multiplex binary payload exceeds '' @ decimal MAX_MULTIPLEX_BINARY_PAYLOAD_BYTES @ '' bytes''"
| "frame_error_message FrameTooShort =
     ''multiplex binary frame must be at least '' @ decimal MULTIPLEX_BINARY_HEADER_BYTES @ '' bytes''"
| "frame_error_message (UnsupportedVersion b) =
     ''unsupported multiplex binary protocol version '' @ decimal (unat b)"
| "frame_error_message (UnknownKind b) =
     ''unknown multiplex binary frame kind '' @ decimal (unat b)"

fun kind_byte :: "MultiplexBinaryFrameKind \<Rightarrow> u8" where
  "kind_byte RequestBody = 1"
| "kind_byte ResponseBody = 2"

definition kind_from_byte :: "u8 \<Rightarrow> frame_error + MultiplexBinaryFrameKind" where
  "kind_from_byte b =
     (if b = 1 then Inr RequestBody else if b = 2 then Inr ResponseBody else Inl (UnknownKind b))"

definition validate_multiplex_ids :: "u32 \<Rightarrow> u64 \<Rightarrow> frame_error + unit" where
  "validate_multiplex_ids route_id stream_id =
     (if route_id = 0 then Inl RouteIdZero
      else if stream_id = 0 then Inl StreamIdZero else Inr ())"

definition encode_multiplex_binary_frame ::
    "MultiplexBinaryFrameKind \<Rightarrow> u32 \<Rightarrow> u64 \<Rightarrow> u8 list \<Rightarrow> frame_error + u8 list" where
  "encode_multiplex_binary_frame kind route_id stream_id payload =
     and_then (validate_multiplex_ids route_id stream_id) (\<lambda>_.
       if length payload > MAX_MULTIPLEX_BINARY_PAYLOAD_BYTES then Inl PayloadTooLarge
       else Inr ([ucast MULTIPLEX_PROTOCOL_VERSION, kind_byte kind]
                 @ be_bytes 4 (unat route_id) @ be_bytes 8 (unat stream_id) @ payload))"

definition decode_multiplex_binary_frame :: "u8 list \<Rightarrow> frame_error + MultiplexBinaryFrame" where
  "decode_multiplex_binary_frame frame =
     (if length frame < MULTIPLEX_BINARY_HEADER_BYTES then Inl FrameTooShort
      else if frame ! 0 \<noteq> ucast MULTIPLEX_PROTOCOL_VERSION then Inl (UnsupportedVersion (frame ! 0))
      else and_then (kind_from_byte (frame ! 1)) (\<lambda>kind.
        let route_id = of_nat (be_value (take 4 (drop 2 frame)));
            stream_id = of_nat (be_value (take 8 (drop 6 frame)))
        in and_then (validate_multiplex_ids route_id stream_id) (\<lambda>_.
          let payload = drop MULTIPLEX_BINARY_HEADER_BYTES frame
          in if length payload > MAX_MULTIPLEX_BINARY_PAYLOAD_BYTES then Inl PayloadTooLarge
             else Inr \<lparr>frame_kind = kind, frame_route_id = route_id,
                       frame_stream_id = stream_id, frame_payload = payload\<rparr>)))"

lemmas wire_consts = MULTIPLEX_PROTOCOL_VERSION_def MULTIPLEX_BINARY_HEADER_BYTES_def
  MAX_MULTIPLEX_BINARY_PAYLOAD_BYTES_def MAX_REQUEST_BODY_BYTES_def

lemma kind_from_kind_byte [simp]: "kind_from_byte (kind_byte k) = Inr k"
  by (cases k) (simp_all add: kind_from_byte_def)

lemma kind_from_byte_Inr: "kind_from_byte b = Inr k \<Longrightarrow> kind_byte k = b"
  by (auto simp: kind_from_byte_def split: if_splits)

lemma validate_ids_Inr [simp]: "validate_multiplex_ids r s = Inr u \<longleftrightarrow> r \<noteq> 0 \<and> s \<noteq> 0"
  by (simp add: validate_multiplex_ids_def)

lemma of_be_value_32 [simp]: "of_nat (be_value (be_bytes 4 (unat (r :: u32)))) = r"
  using unat_u32_lt [of r] by (simp only: be_value_bytes of_nat_unat ucast_id)

lemma of_be_value_64 [simp]: "of_nat (be_value (be_bytes 8 (unat (s :: u64)))) = s"
  using unat_u64_lt [of s] by (simp only: be_value_bytes of_nat_unat ucast_id)

lemma encode_Inr_iff:
  "encode_multiplex_binary_frame k r s p = Inr f \<longleftrightarrow>
     r \<noteq> 0 \<and> s \<noteq> 0 \<and> length p \<le> MAX_MULTIPLEX_BINARY_PAYLOAD_BYTES \<and>
     f = [5, kind_byte k] @ be_bytes 4 (unat r) @ be_bytes 8 (unat s) @ p"
  by (auto simp: encode_multiplex_binary_frame_def and_then_Inr_iff MULTIPLEX_PROTOCOL_VERSION_def
      not_less split: if_splits)

lemma decode_header:
  assumes "length p \<le> MAX_MULTIPLEX_BINARY_PAYLOAD_BYTES" "r \<noteq> 0" "s \<noteq> 0"
  shows "decode_multiplex_binary_frame ([5, kind_byte k] @ be_bytes 4 (unat r) @ be_bytes 8 (unat s) @ p)
       = Inr \<lparr>frame_kind = k, frame_route_id = r, frame_stream_id = s, frame_payload = p\<rparr>"
proof -
  let ?R = "be_bytes 4 (unat r)" and ?S = "be_bytes 8 (unat s)"
  let ?f = "5 # kind_byte k # ?R @ ?S @ p"
  have route: "take 4 (drop 2 ?f) = ?R" and stream: "take 8 (drop 6 ?f) = ?S"
    and payload: "drop 14 ?f = p"
    by simp_all
  have hd: "length ?f = 14 + length p" "?f ! 0 = 5" "?f ! 1 = kind_byte k"
    by simp_all
  have "validate_multiplex_ids r s = Inr ()"
    using assms by (simp add: validate_multiplex_ids_def)
  then have "decode_multiplex_binary_frame ?f
       = Inr \<lparr>frame_kind = k, frame_route_id = r, frame_stream_id = s, frame_payload = p\<rparr>"
    using assms
    by (simp only: decode_multiplex_binary_frame_def MULTIPLEX_BINARY_HEADER_BYTES_def Let_def
        hd route stream payload of_be_value_32 of_be_value_64 kind_from_kind_byte and_then_simps)
      (simp add: MULTIPLEX_PROTOCOL_VERSION_def)
  then show ?thesis by simp
qed

lemma decode_Inr_frame:
  assumes "decode_multiplex_binary_frame f = Inr fr"
  shows "frame_route_id fr \<noteq> 0 \<and> frame_stream_id fr \<noteq> 0 \<and>
     length (frame_payload fr) \<le> MAX_MULTIPLEX_BINARY_PAYLOAD_BYTES \<and>
     f = [5, kind_byte (frame_kind fr)] @ be_bytes 4 (unat (frame_route_id fr))
         @ be_bytes 8 (unat (frame_stream_id fr)) @ frame_payload fr"
proof -
  from assms have len: "14 \<le> length f" and ver: "f ! 0 = 5"
    by (auto simp: decode_multiplex_binary_frame_def wire_consts split: if_splits)
  let ?R = "take 4 (drop 2 f)" and ?S = "take 8 (drop 6 f)"
  from assms len ver obtain k where k: "kind_from_byte (f ! 1) = Inr k"
    and fr: "fr = \<lparr>frame_kind = k, frame_route_id = of_nat (be_value ?R),
                  frame_stream_id = of_nat (be_value ?S), frame_payload = drop 14 f\<rparr>"
    and ids: "(of_nat (be_value ?R) :: u32) \<noteq> 0" "(of_nat (be_value ?S) :: u64) \<noteq> 0"
    and pay: "length (drop 14 f) \<le> MAX_MULTIPLEX_BINARY_PAYLOAD_BYTES"
    by (auto simp: decode_multiplex_binary_frame_def wire_consts and_then_Inr_iff Let_def
        split: if_splits)
  have lens: "length ?R = 4" "length ?S = 8" using len by simp_all
  have R: "be_bytes 4 (unat (of_nat (be_value ?R) :: u32)) = ?R"
  proof -
    have "be_value ?R < 256 ^ 4" using be_value_bound [of ?R] lens by simp
    then have "unat (of_nat (be_value ?R) :: u32) = be_value ?R"
      by (simp add: unat_of_nat)
    with be_bytes_value [of ?R] lens show ?thesis by simp
  qed
  have S: "be_bytes 8 (unat (of_nat (be_value ?S) :: u64)) = ?S"
  proof -
    have "be_value ?S < 256 ^ 8" using be_value_bound [of ?S] lens by simp
    then have "unat (of_nat (be_value ?S) :: u64) = be_value ?S"
      by (simp add: unat_of_nat)
    with be_bytes_value [of ?S] lens show ?thesis by simp
  qed
  have "f = [f ! 0, f ! 1] @ drop 2 f"
    using len by (cases f rule: list.exhaust, simp, cases "tl f") auto
  also have "drop 2 f = ?R @ ?S @ drop 14 f"
  proof -
    have "drop 2 f = ?R @ drop 6 f" and "drop 6 f = ?S @ drop 14 f"
      using append_take_drop_id [of 4 "drop 2 f"] append_take_drop_id [of 8 "drop 6 f"]
      by simp_all
    then show ?thesis by simp
  qed
  finally show ?thesis
    using fr ids pay R S ver kind_from_byte_Inr [OF k] by simp
qed

section \<open>The frame codec\<close>

definition encode_frame :: "MultiplexBinaryFrame \<Rightarrow> frame_error + u8 list" where
  "encode_frame fr = encode_multiplex_binary_frame
     (frame_kind fr) (frame_route_id fr) (frame_stream_id fr) (frame_payload fr)"

interpretation frame: codec encode_frame decode_multiplex_binary_frame
proof unfold_locales
  fix fr b
  assume "encode_frame fr = Inr b"
  then show "decode_multiplex_binary_frame b = Inr fr"
    unfolding encode_frame_def encode_Inr_iff
    using decode_header [of "frame_payload fr" "frame_route_id fr" "frame_stream_id fr" "frame_kind fr"]
    by simp
next
  fix b fr
  assume "decode_multiplex_binary_frame b = Inr fr"
  then show "encode_frame fr = Inr b"
    unfolding encode_frame_def encode_Inr_iff by (rule decode_Inr_frame)
qed

text \<open>
  C27. Encoding and decoding multiplex binary frames are inverse to each other: a frame that
  can be encoded decodes to itself, and bytes that decode re-encode to the same bytes.  So a
  frame has one wire form, and streams of different routes cannot be confused.
\<close>

theorem frame_roundtrip:
  "encode_frame fr = Inr b \<longleftrightarrow> decode_multiplex_binary_frame b = Inr fr"
  by (rule frame.enc_iff_dec)

lemma zero_bytes:
  "replicate 4 (0 :: u8) = [0, 0, 0, 0]"
  "replicate 8 (0 :: u8) = [0, 0, 0, 0, 0, 0, 0, 0]"
  by (simp_all add: eval_nat_numeral)

lemma be_bytes_zero:
  "be_bytes 4 (unat (r :: u32)) = [0, 0, 0, 0] \<longleftrightarrow> r = 0"
  "be_bytes 8 (unat (s :: u64)) = [0, 0, 0, 0, 0, 0, 0, 0] \<longleftrightarrow> s = 0"
  using be_bytes_zero_iff [OF unat_u32_lt, of r] be_bytes_zero_iff [OF unat_u64_lt, of s]
  by (simp_all only: zero_bytes unsigned_eq_0_iff)

lemma be_value_zero:
  "length bs = 4 \<Longrightarrow> (of_nat (be_value bs) :: u32) = 0 \<longleftrightarrow> bs = [0, 0, 0, 0]"
  "length cs = 8 \<Longrightarrow> (of_nat (be_value cs) :: u64) = 0 \<longleftrightarrow> cs = [0, 0, 0, 0, 0, 0, 0, 0]"
proof -
  assume l: "length bs = 4"
  then have "be_value bs < 2 ^ 32" using be_value_bound [of bs] by simp
  then have "(of_nat (be_value bs) :: u32) = 0 \<longleftrightarrow> be_value bs = 0"
    by (auto simp: word_of_nat_eq_0_iff dest: nat_dvd_not_less)
  with be_value_zero_iff [OF l] show "(of_nat (be_value bs) :: u32) = 0 \<longleftrightarrow> bs = [0, 0, 0, 0]"
    by (simp only: zero_bytes)
next
  assume l: "length cs = 8"
  then have "be_value cs < 2 ^ 64" using be_value_bound [of cs] by simp
  then have "(of_nat (be_value cs) :: u64) = 0 \<longleftrightarrow> be_value cs = 0"
    by (auto simp: word_of_nat_eq_0_iff dest: nat_dvd_not_less)
  with be_value_zero_iff [OF l]
  show "(of_nat (be_value cs) :: u64) = 0 \<longleftrightarrow> cs = [0, 0, 0, 0, 0, 0, 0, 0]"
    by (simp only: zero_bytes)
qed

text \<open>
  The decoder accepts exactly the byte sequences with a full header, version 5, a known
  kind, a route id and a stream id that are not zero, and a payload within the limit.
\<close>

lemma decode_accepts_exactly:
  "is_ok (decode_multiplex_binary_frame b) \<longleftrightarrow>
     MULTIPLEX_BINARY_HEADER_BYTES \<le> length b \<and> b ! 0 = 5 \<and> (b ! 1 = 1 \<or> b ! 1 = 2)
     \<and> take 4 (drop 2 b) \<noteq> [0, 0, 0, 0] \<and> take 8 (drop 6 b) \<noteq> [0, 0, 0, 0, 0, 0, 0, 0]
     \<and> length b \<le> MULTIPLEX_BINARY_HEADER_BYTES + MAX_MULTIPLEX_BINARY_PAYLOAD_BYTES"
  (is "_ \<longleftrightarrow> ?accepts")
proof
  assume "is_ok (decode_multiplex_binary_frame b)"
  then obtain fr where "decode_multiplex_binary_frame b = Inr fr"
    by (cases "decode_multiplex_binary_frame b") auto
  from decode_Inr_frame [OF this] show ?accepts
    by (cases "frame_kind fr") (auto simp: wire_consts be_bytes_zero)
next
  assume a: ?accepts
  define r :: u32 where "r = of_nat (be_value (take 4 (drop 2 b)))"
  define s :: u64 where "s = of_nat (be_value (take 8 (drop 6 b)))"
  from a have "14 \<le> length b" by (simp add: wire_consts)
  then have "length (take 4 (drop 2 b)) = 4" "length (take 8 (drop 6 b)) = 8"
    by simp_all
  with a have "r \<noteq> 0" "s \<noteq> 0"
    unfolding r_def s_def by (simp_all only: be_value_zero) simp_all
  with a show "is_ok (decode_multiplex_binary_frame b)"
    by (auto simp: decode_multiplex_binary_frame_def wire_consts kind_from_byte_def Let_def
        validate_multiplex_ids_def r_def s_def)
qed

end
