(* ===== verification/Tunnel_Policy.thy ===== *)
theory Tunnel_Policy
  imports Tunnel_Wire
begin

text \<open>
  The two scaling policies the tunnel server sends to its clients: the connection policy of
  the version 5 protocol (\<open>MultiplexConnectionPolicy\<close>, \<open>multiplex.rs\<close>) and the worker policy
  of version 4 (\<open>WorkerPolicy\<close>, \<open>lib.rs\<close> of \<open>crates/tunnel-protocol\<close>), with their defaults
  and validation.  Fields keep the widths of the code.
\<close>

section \<open>Services\<close>

datatype TunnelService = Mcp | Actions

fun service_as_str :: "TunnelService \<Rightarrow> string" where
  "service_as_str Mcp = ''mcp''"
| "service_as_str Actions = ''actions''"

definition service_parse :: "string \<Rightarrow> TunnelService option" where
  "service_parse value =
     (let v = to_ascii_lowercase (trim value)
      in if v = ''mcp'' then Some Mcp else if v = ''actions'' then Some Actions else None)"

section \<open>The connection policy\<close>

record MultiplexConnectionPolicy =
  mp_start_connections :: u16
  mp_min_connections :: u16
  mp_max_idle_connections :: u16
  mp_max_connections :: u16
  mp_streams_per_connection :: u16
  mp_scale_up_threshold_percent :: u8
  mp_scale_up_step :: u16
  mp_burst_scale_up_step :: u16
  mp_scale_down_delay_seconds :: u64
  mp_revision :: u64

definition multiplex_policy_default :: MultiplexConnectionPolicy where
  "multiplex_policy_default = \<lparr>
     mp_start_connections = 1, mp_min_connections = 1, mp_max_idle_connections = 2,
     mp_max_connections = 8,
     mp_streams_per_connection = DEFAULT_MULTIPLEX_STREAMS_PER_CONNECTION,
     mp_scale_up_threshold_percent = 75, mp_scale_up_step = 2, mp_burst_scale_up_step = 4,
     mp_scale_down_delay_seconds = 90, mp_revision = 1\<rparr>"

definition multiplex_policy_validate :: "MultiplexConnectionPolicy \<Rightarrow> string + unit" where
  "multiplex_policy_validate p =
     (if mp_min_connections p = 0
         \<or> mp_min_connections p > mp_start_connections p
         \<or> mp_start_connections p > mp_max_idle_connections p
         \<or> mp_max_idle_connections p > mp_max_connections p
         \<or> mp_max_connections p > 64
      then Inl ''connection counts must satisfy 1 <= min <= start <= max idle <= max <= 64''
      else if mp_streams_per_connection p = 0
         \<or> mp_streams_per_connection p > MAX_MULTIPLEX_STREAMS_PER_CONNECTION
      then Inl (''streams per connection must be between 1 and ''
                @ decimal (unat MAX_MULTIPLEX_STREAMS_PER_CONNECTION))
      else if \<not> (50 \<le> mp_scale_up_threshold_percent p \<and> mp_scale_up_threshold_percent p \<le> 95)
      then Inl ''scale-up threshold must be between 50 and 95 percent''
      else if mp_scale_up_step p = 0 \<or> mp_scale_up_step p > mp_max_connections p
      then Inl ''scale-up step must be between 1 and max connections''
      else if mp_burst_scale_up_step p < mp_scale_up_step p
         \<or> mp_burst_scale_up_step p > mp_max_connections p
      then Inl ''burst scale-up step must be between scale-up step and max connections''
      else if mp_scale_down_delay_seconds p > 3600
      then Inl ''scale-down delay must be between 0 and 3600 seconds''
      else if mp_revision p = 0
      then Inl ''connection policy revision must be positive''
      else Inr ())"

text \<open>What an accepted policy guarantees, over the values of the fields.\<close>

definition multiplex_policy_ok :: "MultiplexConnectionPolicy \<Rightarrow> bool" where
  "multiplex_policy_ok p \<longleftrightarrow>
     1 \<le> unat (mp_min_connections p)
     \<and> unat (mp_min_connections p) \<le> unat (mp_start_connections p)
     \<and> unat (mp_start_connections p) \<le> unat (mp_max_idle_connections p)
     \<and> unat (mp_max_idle_connections p) \<le> unat (mp_max_connections p)
     \<and> unat (mp_max_connections p) \<le> 64
     \<and> 1 \<le> unat (mp_streams_per_connection p) \<and> unat (mp_streams_per_connection p) \<le> 64
     \<and> 50 \<le> unat (mp_scale_up_threshold_percent p)
     \<and> unat (mp_scale_up_threshold_percent p) \<le> 95
     \<and> 1 \<le> unat (mp_scale_up_step p)
     \<and> unat (mp_scale_up_step p) \<le> unat (mp_burst_scale_up_step p)
     \<and> unat (mp_burst_scale_up_step p) \<le> unat (mp_max_connections p)
     \<and> unat (mp_scale_down_delay_seconds p) \<le> 3600
     \<and> 1 \<le> unat (mp_revision p)"

lemma word_pos_iff: "w \<noteq> 0 \<longleftrightarrow> 1 \<le> unat (w :: 'a::len word)"
  by (simp add: Suc_le_eq word_neq_0_conv word_less_nat_alt)

lemma multiplex_policy_validate_ok:
  "multiplex_policy_validate p = Inr () \<longleftrightarrow> multiplex_policy_ok p"
  unfolding multiplex_policy_validate_def multiplex_policy_ok_def
  by (auto simp: word_pos_iff not_less word_le_nat_alt word_less_nat_alt
      MAX_MULTIPLEX_STREAMS_PER_CONNECTION_def)

section \<open>The worker policy\<close>

record WorkerPolicy =
  wp_start_workers :: u16
  wp_min_idle_workers :: u16
  wp_max_idle_workers :: u16
  wp_max_workers :: u16
  wp_max_requests_per_worker :: u64
  wp_max_lifetime_seconds :: u64
  wp_scale_down_delay_seconds :: u64
  wp_recycle_jitter_percent :: u8
  wp_max_pending_requests :: u16
  wp_worker_acquire_timeout_ms :: u64
  wp_max_connecting_workers :: u16
  wp_connecting_capacity_grace_ms :: u64
  wp_scale_down_step :: u16
  wp_burst_warm_workers :: u16
  wp_burst_warm_seconds :: u64
  wp_revision :: u64

definition default_max_pending_requests :: u16 where "default_max_pending_requests = 32"
definition default_worker_acquire_timeout_ms :: u64 where
  "default_worker_acquire_timeout_ms = 10000"
definition default_connecting_capacity_grace_ms :: u64 where
  "default_connecting_capacity_grace_ms = 1000"
definition default_scale_down_step :: u16 where "default_scale_down_step = 4"
definition default_burst_warm_seconds :: u64 where "default_burst_warm_seconds = 120"

definition worker_policy_default_for :: "TunnelService \<Rightarrow> WorkerPolicy" where
  "worker_policy_default_for service = \<lparr>
     wp_start_workers = 1, wp_min_idle_workers = 1, wp_max_idle_workers = 2,
     wp_max_workers = 8, wp_max_requests_per_worker = 5000,
     wp_max_lifetime_seconds = 86400, wp_scale_down_delay_seconds = 60,
     wp_recycle_jitter_percent = 20,
     wp_max_pending_requests = default_max_pending_requests,
     wp_worker_acquire_timeout_ms = default_worker_acquire_timeout_ms,
     wp_max_connecting_workers = 2,
     wp_connecting_capacity_grace_ms = default_connecting_capacity_grace_ms,
     wp_scale_down_step = 2, wp_burst_warm_workers = 2, wp_burst_warm_seconds = 60,
     wp_revision = 1\<rparr>"

definition worker_policy_validate :: "WorkerPolicy \<Rightarrow> string + unit" where
  "worker_policy_validate p =
     (if wp_min_idle_workers p = 0
         \<or> wp_min_idle_workers p > wp_start_workers p
         \<or> wp_start_workers p > wp_max_idle_workers p
         \<or> wp_max_idle_workers p > wp_max_workers p
         \<or> wp_max_workers p > 256
      then Inl ''worker counts must satisfy 1 <= min idle <= start <= max idle <= max workers <= 256''
      else if wp_max_requests_per_worker p > 1000000
      then Inl ''max requests per worker must be between 0 and 1000000''
      else if wp_max_lifetime_seconds p \<noteq> 0
         \<and> \<not> (60 \<le> wp_max_lifetime_seconds p \<and> wp_max_lifetime_seconds p \<le> 7 * 24 * 60 * 60)
      then Inl ''max lifetime must be 0 or between 60 and 604800 seconds''
      else if wp_scale_down_delay_seconds p > 3600
      then Inl ''scale-down delay must be between 0 and 3600 seconds''
      else if wp_recycle_jitter_percent p > 50
      then Inl ''recycle jitter must be between 0 and 50 percent''
      else if wp_max_pending_requests p = 0 \<or> wp_max_pending_requests p > 4096
      then Inl ''max pending requests must be between 1 and 4096''
      else if \<not> (100 \<le> wp_worker_acquire_timeout_ms p \<and> wp_worker_acquire_timeout_ms p \<le> 60000)
      then Inl ''worker acquire timeout must be between 100 and 60000 milliseconds''
      else if wp_max_connecting_workers p > wp_max_workers p
      then Inl ''max connecting workers must be 0 (automatic) or no greater than max workers''
      else if wp_connecting_capacity_grace_ms p > 30000
      then Inl ''connecting capacity grace must be between 0 and 30000 milliseconds''
      else if wp_scale_down_step p = 0 \<or> wp_scale_down_step p > 256
      then Inl ''scale-down step must be between 1 and 256''
      else if wp_burst_warm_workers p \<noteq> 0
         \<and> (wp_burst_warm_workers p < wp_max_idle_workers p
            \<or> wp_burst_warm_workers p > wp_max_workers p)
      then Inl ''burst warm workers must be 0 (automatic) or between max idle and max workers''
      else if wp_burst_warm_seconds p > 3600
      then Inl ''burst warm duration must be between 0 and 3600 seconds''
      else if wp_revision p = 0
      then Inl ''worker policy revision must be positive''
      else Inr ())"

definition worker_policy_ok :: "WorkerPolicy \<Rightarrow> bool" where
  "worker_policy_ok p \<longleftrightarrow>
     1 \<le> unat (wp_min_idle_workers p)
     \<and> unat (wp_min_idle_workers p) \<le> unat (wp_start_workers p)
     \<and> unat (wp_start_workers p) \<le> unat (wp_max_idle_workers p)
     \<and> unat (wp_max_idle_workers p) \<le> unat (wp_max_workers p)
     \<and> unat (wp_max_workers p) \<le> 256
     \<and> unat (wp_max_requests_per_worker p) \<le> 1000000
     \<and> (wp_max_lifetime_seconds p = 0 \<or>
         60 \<le> unat (wp_max_lifetime_seconds p) \<and> unat (wp_max_lifetime_seconds p) \<le> 604800)
     \<and> unat (wp_scale_down_delay_seconds p) \<le> 3600
     \<and> unat (wp_recycle_jitter_percent p) \<le> 50
     \<and> 1 \<le> unat (wp_max_pending_requests p) \<and> unat (wp_max_pending_requests p) \<le> 4096
     \<and> 100 \<le> unat (wp_worker_acquire_timeout_ms p)
     \<and> unat (wp_worker_acquire_timeout_ms p) \<le> 60000
     \<and> unat (wp_max_connecting_workers p) \<le> unat (wp_max_workers p)
     \<and> unat (wp_connecting_capacity_grace_ms p) \<le> 30000
     \<and> 1 \<le> unat (wp_scale_down_step p) \<and> unat (wp_scale_down_step p) \<le> 256
     \<and> (wp_burst_warm_workers p = 0 \<or>
         unat (wp_max_idle_workers p) \<le> unat (wp_burst_warm_workers p) \<and>
         unat (wp_burst_warm_workers p) \<le> unat (wp_max_workers p))
     \<and> unat (wp_burst_warm_seconds p) \<le> 3600
     \<and> 1 \<le> unat (wp_revision p)"

lemma worker_policy_validate_ok: "worker_policy_validate p = Inr () \<longleftrightarrow> worker_policy_ok p"
  unfolding worker_policy_validate_def worker_policy_ok_def
  by (simp only: if_split_eq1 sum.distinct simp_thms refl word_pos_iff word_le_nat_alt
      word_less_nat_alt not_less de_Morgan_conj de_Morgan_disj not_not unat_numeral)
    (auto simp: word_pos_iff)

lemma default_policies_valid:
  "multiplex_policy_validate multiplex_policy_default = Inr ()"
  "worker_policy_validate (worker_policy_default_for s) = Inr ()"
  by (simp_all add: multiplex_policy_validate_def multiplex_policy_default_def
      worker_policy_validate_def worker_policy_default_for_def
      DEFAULT_MULTIPLEX_STREAMS_PER_CONNECTION_def MAX_MULTIPLEX_STREAMS_PER_CONNECTION_def
      default_max_pending_requests_def default_worker_acquire_timeout_ms_def
      default_connecting_capacity_grace_ms_def)

end
