(* ===== verification/Tunnel_Auth.thy ===== *)
theory Tunnel_Auth
  imports Tunnel_Policy
begin

text \<open>
  The byte strings the device and the server sign during the mutual authentication of the
  tunnel (\<open>crates/tunnel-protocol/src/lib.rs\<close> for version 4, \<open>multiplex.rs\<close> for version 5).
  Each is the \<open>serde_json\<close> text of a struct.  A signature binds what it was made for only if
  the text determines every field and no text of one kind is a text of another kind; both are
  proved here.
\<close>

section \<open>Identities and proofs\<close>

record ClientHello =
  ch_protocol_version :: u16
  ch_client_id :: string
  ch_service :: TunnelService
  ch_worker_id :: string

record DeviceAuthProof =
  dp_hello :: ClientHello
  dp_device_id :: string
  dp_signature :: string

record DeviceSessionHello =
  dsh_protocol_version :: u16
  dsh_connection_id :: string

record DeviceSessionAuthProof =
  dsp_hello :: DeviceSessionHello
  dsp_device_id :: string
  dsp_signature :: string

datatype MultiplexConnectionRole = Control | Data

record SplitSessionHello =
  ssh_protocol_version :: u16
  ssh_connection_role :: MultiplexConnectionRole
  ssh_connection_id :: string
  ssh_session_id :: "string option"

record SplitSessionAuthProof =
  ssp_hello :: SplitSessionHello
  ssp_device_id :: string
  ssp_signature :: string

text \<open>The texts of the enums, in snake case.\<close>

definition service_json :: "TunnelService \<Rightarrow> string" where
  "service_json s = json_string (service_as_str s)"

definition role_json :: "MultiplexConnectionRole \<Rightarrow> string" where
  "role_json r = json_string (case r of Control \<Rightarrow> ''control'' | Data \<Rightarrow> ''data'')"

abbreviation word_json :: "'a::len word \<Rightarrow> string" where
  "word_json w \<equiv> decimal (unat w)"

definition worker_policy_json :: "WorkerPolicy \<Rightarrow> string" where
  "worker_policy_json p = json_struct
     [(''start_workers'', word_json (wp_start_workers p)),
      (''min_idle_workers'', word_json (wp_min_idle_workers p)),
      (''max_idle_workers'', word_json (wp_max_idle_workers p)),
      (''max_workers'', word_json (wp_max_workers p)),
      (''max_requests_per_worker'', word_json (wp_max_requests_per_worker p)),
      (''max_lifetime_seconds'', word_json (wp_max_lifetime_seconds p)),
      (''scale_down_delay_seconds'', word_json (wp_scale_down_delay_seconds p)),
      (''recycle_jitter_percent'', word_json (wp_recycle_jitter_percent p)),
      (''max_pending_requests'', word_json (wp_max_pending_requests p)),
      (''worker_acquire_timeout_ms'', word_json (wp_worker_acquire_timeout_ms p)),
      (''max_connecting_workers'', word_json (wp_max_connecting_workers p)),
      (''connecting_capacity_grace_ms'', word_json (wp_connecting_capacity_grace_ms p)),
      (''scale_down_step'', word_json (wp_scale_down_step p)),
      (''burst_warm_workers'', word_json (wp_burst_warm_workers p)),
      (''burst_warm_seconds'', word_json (wp_burst_warm_seconds p)),
      (''revision'', word_json (wp_revision p))]"

definition connection_policy_json :: "MultiplexConnectionPolicy \<Rightarrow> string" where
  "connection_policy_json p = json_struct
     [(''start_connections'', word_json (mp_start_connections p)),
      (''min_connections'', word_json (mp_min_connections p)),
      (''max_idle_connections'', word_json (mp_max_idle_connections p)),
      (''max_connections'', word_json (mp_max_connections p)),
      (''streams_per_connection'', word_json (mp_streams_per_connection p)),
      (''scale_up_threshold_percent'', word_json (mp_scale_up_threshold_percent p)),
      (''scale_up_step'', word_json (mp_scale_up_step p)),
      (''burst_scale_up_step'', word_json (mp_burst_scale_up_step p)),
      (''scale_down_delay_seconds'', word_json (mp_scale_down_delay_seconds p)),
      (''revision'', word_json (mp_revision p))]"

section \<open>Version 4 payloads\<close>

definition auth_signing_payload :: "string \<Rightarrow> DeviceAuthProof \<Rightarrow> string" where
  "auth_signing_payload nonce prf = json_struct
     [(''protocol_version'', word_json (ch_protocol_version (dp_hello prf))),
      (''nonce'', json_string nonce),
      (''device_id'', json_string (dp_device_id prf)),
      (''client_id'', json_string (ch_client_id (dp_hello prf))),
      (''service'', service_json (ch_service (dp_hello prf))),
      (''worker_id'', json_string (ch_worker_id (dp_hello prf)))]"

definition server_challenge_signing_payload ::
    "string \<Rightarrow> u64 \<Rightarrow> string \<Rightarrow> string \<Rightarrow> string \<Rightarrow> TunnelService \<Rightarrow> string \<Rightarrow> string" where
  "server_challenge_signing_payload nonce expires_at_unix_ms server_id device_id client_id service worker_id =
     json_struct
     [(''protocol_version'', word_json PROTOCOL_VERSION),
      (''nonce'', json_string nonce),
      (''expires_at_unix_ms'', word_json expires_at_unix_ms),
      (''server_id'', json_string server_id),
      (''device_id'', json_string device_id),
      (''client_id'', json_string client_id),
      (''service'', service_json service),
      (''worker_id'', json_string worker_id)]"

definition server_ack_signing_payload ::
    "string \<Rightarrow> string \<Rightarrow> DeviceAuthProof \<Rightarrow> WorkerPolicy \<Rightarrow> string" where
  "server_ack_signing_payload nonce server_id prf worker_policy = json_struct
     [(''protocol_version'', word_json PROTOCOL_VERSION),
      (''nonce'', json_string nonce),
      (''server_id'', json_string server_id),
      (''device_id'', json_string (dp_device_id prf)),
      (''client_id'', json_string (ch_client_id (dp_hello prf))),
      (''service'', service_json (ch_service (dp_hello prf))),
      (''worker_id'', json_string (ch_worker_id (dp_hello prf))),
      (''worker_policy'', worker_policy_json worker_policy)]"

section \<open>Version 5 payloads\<close>

definition device_session_auth_signing_payload :: "string \<Rightarrow> DeviceSessionAuthProof \<Rightarrow> string" where
  "device_session_auth_signing_payload nonce prf = json_struct
     [(''protocol_version'', word_json (dsh_protocol_version (dsp_hello prf))),
      (''nonce'', json_string nonce),
      (''device_id'', json_string (dsp_device_id prf)),
      (''connection_id'', json_string (dsh_connection_id (dsp_hello prf)))]"

definition split_session_auth_signing_payload :: "string \<Rightarrow> SplitSessionAuthProof \<Rightarrow> string" where
  "split_session_auth_signing_payload nonce prf = json_struct
     ([(''protocol_version'', word_json (ssh_protocol_version (ssp_hello prf))),
       (''nonce'', json_string nonce),
       (''connection_role'', role_json (ssh_connection_role (ssp_hello prf))),
       (''device_id'', json_string (ssp_device_id prf)),
       (''connection_id'', json_string (ssh_connection_id (ssp_hello prf)))]
      @ json_opt_field ''session_id'' (ssh_session_id (ssp_hello prf)))"

definition split_server_ack_signing_payload ::
    "string \<Rightarrow> string \<Rightarrow> SplitSessionAuthProof \<Rightarrow> string \<Rightarrow> MultiplexConnectionPolicy \<Rightarrow> string" where
  "split_server_ack_signing_payload nonce server_id prf session_id connection_policy = json_struct
     [(''protocol_version'', word_json MULTIPLEX_PROTOCOL_VERSION),
      (''nonce'', json_string nonce),
      (''server_id'', json_string server_id),
      (''connection_role'', role_json (ssh_connection_role (ssp_hello prf))),
      (''device_id'', json_string (ssp_device_id prf)),
      (''connection_id'', json_string (ssh_connection_id (ssp_hello prf))),
      (''session_id'', json_string session_id),
      (''connection_policy'', connection_policy_json connection_policy)]"

definition multiplex_server_challenge_signing_payload ::
    "string \<Rightarrow> u64 \<Rightarrow> string \<Rightarrow> string \<Rightarrow> string \<Rightarrow> string" where
  "multiplex_server_challenge_signing_payload nonce expires_at_unix_ms server_id device_id connection_id =
     json_struct
     [(''protocol_version'', word_json MULTIPLEX_PROTOCOL_VERSION),
      (''nonce'', json_string nonce),
      (''expires_at_unix_ms'', word_json expires_at_unix_ms),
      (''server_id'', json_string server_id),
      (''device_id'', json_string device_id),
      (''connection_id'', json_string connection_id)]"

definition multiplex_server_ack_signing_payload ::
    "string \<Rightarrow> string \<Rightarrow> DeviceSessionAuthProof \<Rightarrow> MultiplexConnectionPolicy \<Rightarrow> string" where
  "multiplex_server_ack_signing_payload nonce server_id prf connection_policy = json_struct
     [(''protocol_version'', word_json MULTIPLEX_PROTOCOL_VERSION),
      (''nonce'', json_string nonce),
      (''server_id'', json_string server_id),
      (''device_id'', json_string (dsp_device_id prf)),
      (''connection_id'', json_string (dsh_connection_id (dsp_hello prf))),
      (''connection_policy'', connection_policy_json connection_policy)]"

section \<open>Binding\<close>

lemmas payload_defs = auth_signing_payload_def server_challenge_signing_payload_def
  server_ack_signing_payload_def device_session_auth_signing_payload_def
  split_session_auth_signing_payload_def split_server_ack_signing_payload_def
  multiplex_server_challenge_signing_payload_def multiplex_server_ack_signing_payload_def

lemma enum_json_eqs:
  "service_json s @ x = service_json t @ y \<longleftrightarrow> s = t \<and> x = y"
  "role_json p @ x = role_json q @ y \<longleftrightarrow> p = q \<and> x = y"
  by (cases s; cases t; simp add: service_json_def struct_eqs)
    (cases p; cases q; simp add: role_json_def struct_eqs)

lemma connection_policy_json_eq:
  "connection_policy_json p @ x = connection_policy_json q @ y \<longleftrightarrow> p = q \<and> x = y"
  by (cases p; cases q) (auto simp: connection_policy_json_def struct_unfold struct_eqs unat_eqs)

lemma worker_policy_json_eq:
  "worker_policy_json p @ x = worker_policy_json q @ y \<longleftrightarrow> p = q \<and> x = y"
  by (cases p; cases q) (simp add: worker_policy_json_def struct_unfold struct_eqs unat_eqs)

lemma policy_json_inj:
  "connection_policy_json c = connection_policy_json c' \<longleftrightarrow> c = c'"
  "worker_policy_json w = worker_policy_json w' \<longleftrightarrow> w = w'"
  using connection_policy_json_eq [of c "[]" c' "[]"] worker_policy_json_eq [of w "[]" w' "[]"]
  by simp_all

lemmas payload_eqs = struct_unfold struct_eqs string_end_eqs unat_eqs enum_json_eqs
  connection_policy_json_eq worker_policy_json_eq policy_json_inj

text \<open>
  Every statement that is signed in either direction of either protocol version, its text,
  and the part of it the text covers: signatures are left out, and the server acknowledgements
  write the protocol version of the server instead of the one in the proof.
\<close>

datatype statement =
    DeviceAuth string DeviceAuthProof
  | ServerChallenge string u64 string string string TunnelService string
  | ServerAck string string DeviceAuthProof WorkerPolicy
  | SessionAuth string DeviceSessionAuthProof
  | SplitAuth string SplitSessionAuthProof
  | SplitAck string string SplitSessionAuthProof string MultiplexConnectionPolicy
  | MultiplexChallenge string u64 string string string
  | MultiplexAck string string DeviceSessionAuthProof MultiplexConnectionPolicy

fun signed_text :: "statement \<Rightarrow> string" where
  "signed_text (DeviceAuth n p) = auth_signing_payload n p"
| "signed_text (ServerChallenge n e s d c v w) = server_challenge_signing_payload n e s d c v w"
| "signed_text (ServerAck n s p w) = server_ack_signing_payload n s p w"
| "signed_text (SessionAuth n p) = device_session_auth_signing_payload n p"
| "signed_text (SplitAuth n p) = split_session_auth_signing_payload n p"
| "signed_text (SplitAck n s p i c) = split_server_ack_signing_payload n s p i c"
| "signed_text (MultiplexChallenge n e s d c) = multiplex_server_challenge_signing_payload n e s d c"
| "signed_text (MultiplexAck n s p c) = multiplex_server_ack_signing_payload n s p c"

fun signed_part :: "statement \<Rightarrow> statement" where
  "signed_part (DeviceAuth n p) = DeviceAuth n (p\<lparr>dp_signature := []\<rparr>)"
| "signed_part (ServerAck n s p w) =
     ServerAck n s (p\<lparr>dp_signature := [],
       dp_hello := (dp_hello p)\<lparr>ch_protocol_version := PROTOCOL_VERSION\<rparr>\<rparr>) w"
| "signed_part (SessionAuth n p) = SessionAuth n (p\<lparr>dsp_signature := []\<rparr>)"
| "signed_part (SplitAuth n p) = SplitAuth n (p\<lparr>ssp_signature := []\<rparr>)"
| "signed_part (SplitAck n s p i c) =
     SplitAck n s (p\<lparr>ssp_signature := [],
       ssp_hello := (ssp_hello p)\<lparr>ssh_protocol_version := MULTIPLEX_PROTOCOL_VERSION,
                                  ssh_session_id := None\<rparr>\<rparr>) i c"
| "signed_part (MultiplexAck n s p c) =
     MultiplexAck n s (p\<lparr>dsp_signature := [],
       dsp_hello := (dsp_hello p)\<lparr>dsh_protocol_version := MULTIPLEX_PROTOCOL_VERSION\<rparr>\<rparr>) c"
| "signed_part x = x"

text \<open>One equation per kind, field by field.\<close>

lemma auth_payload_eq:
  "auth_signing_payload n p = auth_signing_payload n' p' \<longleftrightarrow>
     n = n' \<and> dp_hello p = dp_hello p' \<and> dp_device_id p = dp_device_id p'"
  unfolding auth_signing_payload_def struct_unfold
  by (cases "dp_hello p"; cases "dp_hello p'") (auto simp: payload_eqs)

lemma server_challenge_payload_eq:
  "server_challenge_signing_payload n e s d c v w = server_challenge_signing_payload n' e' s' d' c' v' w'
   \<longleftrightarrow> n = n' \<and> e = e' \<and> s = s' \<and> d = d' \<and> c = c' \<and> v = v' \<and> w = w'"
  unfolding server_challenge_signing_payload_def struct_unfold
  by (auto simp: payload_eqs)

lemma server_ack_payload_eq:
  "server_ack_signing_payload n s p w = server_ack_signing_payload n' s' p' w' \<longleftrightarrow>
     n = n' \<and> s = s' \<and> dp_device_id p = dp_device_id p' \<and>
     ch_client_id (dp_hello p) = ch_client_id (dp_hello p') \<and>
     ch_service (dp_hello p) = ch_service (dp_hello p') \<and>
     ch_worker_id (dp_hello p) = ch_worker_id (dp_hello p') \<and> w = w'"
  unfolding server_ack_signing_payload_def struct_unfold
  by (auto simp: payload_eqs)

lemma device_session_payload_eq:
  "device_session_auth_signing_payload n p = device_session_auth_signing_payload n' p' \<longleftrightarrow>
     n = n' \<and> dsp_hello p = dsp_hello p' \<and> dsp_device_id p = dsp_device_id p'"
  unfolding device_session_auth_signing_payload_def struct_unfold
  by (cases "dsp_hello p"; cases "dsp_hello p'") (auto simp: payload_eqs)

lemma split_session_payload_eq:
  "split_session_auth_signing_payload n p = split_session_auth_signing_payload n' p' \<longleftrightarrow>
     n = n' \<and> ssp_hello p = ssp_hello p' \<and> ssp_device_id p = ssp_device_id p'"
  unfolding split_session_auth_signing_payload_def struct_unfold json_opt_field_def
  by (cases "ssp_hello p"; cases "ssp_hello p'") (auto simp: payload_eqs split: option.splits)

lemma split_ack_payload_eq:
  "split_server_ack_signing_payload n s p i c = split_server_ack_signing_payload n' s' p' i' c' \<longleftrightarrow>
     n = n' \<and> s = s' \<and> ssh_connection_role (ssp_hello p) = ssh_connection_role (ssp_hello p') \<and>
     ssp_device_id p = ssp_device_id p' \<and>
     ssh_connection_id (ssp_hello p) = ssh_connection_id (ssp_hello p') \<and> i = i' \<and> c = c'"
  unfolding split_server_ack_signing_payload_def struct_unfold
  by (auto simp: payload_eqs)

lemma multiplex_challenge_payload_eq:
  "multiplex_server_challenge_signing_payload n e s d c
     = multiplex_server_challenge_signing_payload n' e' s' d' c'
   \<longleftrightarrow> n = n' \<and> e = e' \<and> s = s' \<and> d = d' \<and> c = c'"
  unfolding multiplex_server_challenge_signing_payload_def struct_unfold
  by (auto simp: payload_eqs)

lemma multiplex_ack_payload_eq:
  "multiplex_server_ack_signing_payload n s p c = multiplex_server_ack_signing_payload n' s' p' c' \<longleftrightarrow>
     n = n' \<and> s = s' \<and> dsp_device_id p = dsp_device_id p' \<and>
     dsh_connection_id (dsp_hello p) = dsh_connection_id (dsp_hello p') \<and> c = c'"
  unfolding multiplex_server_ack_signing_payload_def struct_unfold
  by (auto simp: payload_eqs)

lemmas payload_kind_eqs = auth_payload_eq server_challenge_payload_eq server_ack_payload_eq
  device_session_payload_eq split_session_payload_eq split_ack_payload_eq
  multiplex_challenge_payload_eq multiplex_ack_payload_eq

text \<open>Texts of different kinds differ: the key after the nonce, or one a little later, tells them apart.\<close>

fun kind_tag :: "statement \<Rightarrow> nat" where
  "kind_tag (DeviceAuth _ _) = 0"
| "kind_tag (ServerChallenge _ _ _ _ _ _ _) = 1"
| "kind_tag (ServerAck _ _ _ _) = 2"
| "kind_tag (SessionAuth _ _) = 3"
| "kind_tag (SplitAuth _ _) = 4"
| "kind_tag (SplitAck _ _ _ _ _) = 5"
| "kind_tag (MultiplexChallenge _ _ _ _ _) = 6"
| "kind_tag (MultiplexAck _ _ _ _) = 7"

lemma kinds_disjoint:
  assumes "signed_text a = signed_text b"
  shows "kind_tag a = kind_tag b"
proof -
  have "kind_tag a < kind_tag b \<Longrightarrow> signed_text a \<noteq> signed_text b" for a b
    by (cases a; cases b; simp add: payload_defs struct_unfold struct_eqs enum_json_eqs unat_eqs)
  from this [of a b] this [of b a] assms show ?thesis by (metis linorder_less_linear)
qed

text \<open>The text is made of the signed part alone.\<close>

lemma signed_text_part: "signed_text (signed_part a) = signed_text a"
  by (cases a) (simp_all add: payload_defs)

text \<open>
  C9.  What a signature of the tunnel handshakes binds, exactly: two statements have the same text when
  and only when they are of the same kind and agree in every field, up to these: the signature itself;
  in the three acknowledgements the version of the hello, in whose place the server signs its own; and
  in the acknowledgement of a split session the session the hello asked for, in whose place the server
  signs the session it gives.  So a signature of one kind is never one of another kind: a device proof
  cannot be replayed as a server challenge or acknowledgement, a version 4 proof cannot be used in
  version 5, and a proof made by one worker, service, client, device or connection does not verify for
  another.
\<close>

theorem signed_text_binds_statement:
  "signed_text a = signed_text b \<longleftrightarrow> signed_part a = signed_part b"
proof
  assume same: "signed_text a = signed_text b"
  then have "kind_tag a = kind_tag b" by (rule kinds_disjoint)
  with same show "signed_part a = signed_part b"
    by (cases a; cases b; simp add: payload_kind_eqs)
qed (metis signed_text_part)

text \<open>
  The acknowledgement of a split session answers a request for one session and a request for another
  with the same text.
\<close>

lemma requested_session_is_not_signed:
  "signed_text (SplitAck n s p i c)
     = signed_text (SplitAck n s (p\<lparr>ssp_hello := (ssp_hello p)\<lparr>ssh_session_id := other\<rparr>\<rparr>) i c)"
  by (simp add: split_server_ack_signing_payload_def)

end
