(* ===== verification/Tunnel_Routes.thy ===== *)
theory Tunnel_Routes
  imports Tunnel_Policy
begin

text \<open>
  Routing and retry decisions of the tunnel (\<open>crates/tunnel-protocol/src/lib.rs\<close>): which
  public paths belong to which client and service, which headers stop at the proxy, and which
  MCP requests may be replayed after a transport failure.
\<close>

section \<open>Client ids and routes\<close>

definition valid_client_id :: "string \<Rightarrow> bool" where
  "valid_client_id value =
     (let v = trim value
      in v \<noteq> [] \<and> length v \<le> 64
         \<and> list_all (\<lambda>b. is_ascii_alphanumeric b \<or> b = CHR ''-'' \<or> b = CHR ''_'') v)"

definition BUILTIN_MCP_PREFIX :: string where "BUILTIN_MCP_PREFIX = ''/builtin/clients''"
definition BUILTIN_ACTIONS_PREFIX :: string where "BUILTIN_ACTIONS_PREFIX = ''/builtin/actions''"

fun expected_routes :: "string \<Rightarrow> TunnelService \<Rightarrow> string list" where
  "expected_routes client_id Mcp =
     (let route_prefix = BUILTIN_MCP_PREFIX @ ''/'' @ client_id
      in [route_prefix,
          ''/.well-known/oauth-authorization-server'' @ route_prefix,
          ''/.well-known/oauth-protected-resource'' @ route_prefix @ ''/mcp''])"
| "expected_routes client_id Actions = [BUILTIN_ACTIONS_PREFIX @ ''/'' @ client_id]"

definition route_matches :: "string \<Rightarrow> string \<Rightarrow> bool" where
  "route_matches route path =
     (path = route \<or>
      (case strip_prefix path route of None \<Rightarrow> False
       | Some rest \<Rightarrow> starts_with rest ''/''))"

definition is_hop_by_hop_header :: "string \<Rightarrow> bool" where
  "is_hop_by_hop_header name =
     (to_ascii_lowercase (trim name) \<in> set
        [''connection'', ''keep-alive'', ''proxy-authenticate'', ''proxy-authorization'', ''te'',
         ''trailer'', ''transfer-encoding'', ''upgrade'', ''host'', ''content-length''])"

section \<open>Requests that may be replayed\<close>

definition MCP_READ_ONLY_TOOL_NAMES :: "string list" where
  "MCP_READ_ONLY_TOOL_NAMES =
    [''list_workspace_folders'', ''list_active_workspaces'', ''harness_status'', ''operation_log'',
     ''server_info'', ''session_status'', ''query_tool_usage'', ''history_search'',
     ''exec_health_check'', ''read_file'', ''read_many'', ''project_map'', ''list_files'',
     ''search_text'', ''wait_command'', ''resolve_operation'', ''list_sessions'', ''read_output'',
     ''git_status'', ''git_diff'', ''git_log'', ''git_show'', ''git_blame'', ''view_image'',
     ''desktop_displays'', ''desktop_screenshot'', ''patch_check'', ''project_state'',
     ''task_context'', ''list_task_events'', ''change_summary'']"

definition is_retry_safe_tool_name :: "string \<Rightarrow> bool" where
  "is_retry_safe_tool_name name = (trim name \<in> set MCP_READ_ONLY_TOOL_NAMES)"

text \<open>
  \<open>from_slice\<close> stands for \<open>serde_json::from_slice\<close>, which reads the body or fails.
\<close>

definition is_retry_safe_mcp_request :: "(u8 list \<Rightarrow> json option) \<Rightarrow> u8 list \<Rightarrow> bool" where
  "is_retry_safe_mcp_request from_slice body =
     (case from_slice body of None \<Rightarrow> False
      | Some message \<Rightarrow>
        (case as_object message of None \<Rightarrow> False
         | Some object \<Rightarrow>
           if map_of object ''id'' = None \<or> map_of object ''id'' = Some JNull then False
           else
             (case Option.bind (map_of object ''method'') as_str of None \<Rightarrow> False
              | Some m \<Rightarrow>
                if m \<in> {''initialize'', ''ping'', ''tools/list''} then True
                else if m = ''tools/call'' then
                  (case Option.bind (Option.bind (map_of object ''params'')
                          (\<lambda>params. jget params ''name'')) as_str of
                     None \<Rightarrow> False | Some name \<Rightarrow> is_retry_safe_tool_name name)
                else False)))"

section \<open>Route isolation\<close>

lemma slash_code: "code CHR ''/'' = 47"
  by (simp add: code_def)

lemma valid_client_id_no_slash:
  assumes "valid_client_id c"
  shows "CHR ''/'' \<notin> set c"
proof
  assume "CHR ''/'' \<in> set c"
  then have "CHR ''/'' \<in> set (trim c)"
    by (rule trim_keeps) (simp_all add: slash_code)
  with assms have "is_ascii_alphanumeric CHR ''/''"
    by (auto simp: valid_client_id_def Let_def list_all_iff)
  then show False
    by (simp add: is_ascii_alphanumeric_def is_ascii_digit_def)
qed

lemma route_matches_iff: "route_matches r p \<longleftrightarrow> p = r \<or> (\<exists>q. p = r @ CHR ''/'' # q)"
proof -
  have "(case strip_prefix p r of None \<Rightarrow> False | Some s \<Rightarrow> starts_with s ''/'')
      \<longleftrightarrow> (\<exists>s. strip_prefix p r = Some s \<and> starts_with s ''/'')"
    by (cases "strip_prefix p r") simp_all
  also have "\<dots> \<longleftrightarrow> (\<exists>q. p = r @ CHR ''/'' # q)"
    unfolding strip_prefix_Some_iff starts_with_iff by auto
  finally show ?thesis by (simp add: route_matches_def)
qed

text \<open>A path segment without slashes is determined by what it is a prefix of.\<close>

lemma segment_unique:
  assumes "CHR ''/'' \<notin> set c" "CHR ''/'' \<notin> set d"
    and "c @ x = d @ y" "x = [] \<or> hd x = CHR ''/''" "y = [] \<or> hd y = CHR ''/''"
  shows "c = d"
  using assms
proof (induction c arbitrary: d)
  case Nil
  then show ?case by (cases d) auto
next
  case (Cons a c)
  then show ?case by (cases d) auto
qed

text \<open>What stands before the client id in the routes of a service.\<close>

fun route_heads :: "TunnelService \<Rightarrow> string list" where
  "route_heads Mcp =
     [''/builtin/clients/'',
      ''/.well-known/oauth-authorization-server/builtin/clients/'',
      ''/.well-known/oauth-protected-resource/builtin/clients/'']"
| "route_heads Actions = [''/builtin/actions/'']"

lemma expected_routes_heads:
  assumes "r \<in> set (expected_routes c s)"
  shows "\<exists>h \<in> set (route_heads s). r = h @ c \<or> r = h @ c @ ''/mcp''"
  using assms
  by (cases s) (auto simp: Let_def BUILTIN_MCP_PREFIX_def BUILTIN_ACTIONS_PREFIX_def)

lemma route_path_heads:
  assumes "r \<in> set (expected_routes c s)" "route_matches r p"
  shows "\<exists>h x. h \<in> set (route_heads s) \<and> p = h @ c @ x \<and> (x = [] \<or> hd x = CHR ''/'')"
proof -
  from expected_routes_heads [OF assms(1)] obtain h e where h: "h \<in> set (route_heads s)"
    and r: "r = h @ c @ e" and e: "e = [] \<or> e = ''/mcp''"
    by (metis append_Nil2)
  from assms(2) obtain q where "p = r @ q" "q = [] \<or> hd q = CHR ''/''"
    unfolding route_matches_iff by (metis append_Nil2 list.sel(1))
  with h r e show ?thesis
    by (intro exI [of _ h] exI [of _ "e @ q"]) auto
qed

lemma route_heads_apart:
  assumes "h \<in> set (route_heads s)" "h' \<in> set (route_heads t)" "h @ u = h' @ v"
  shows "s = t \<and> u = v"
  using assms by (cases s; cases t) (simp; elim disjE; simp)+

text \<open>
  C29. No public path belongs to two clients or to two services: if a path matches a route
  of one client and service and a route of another, they are the same client and service.
\<close>

theorem routes_isolate_clients:
  assumes "valid_client_id c" "valid_client_id d"
    and "r \<in> set (expected_routes c s)" "r' \<in> set (expected_routes d t)"
    and "route_matches r p" "route_matches r' p"
  shows "c = d \<and> s = t"
proof -
  note slash = assms(1,2) [THEN valid_client_id_no_slash]
  from route_path_heads [OF assms(3,5)] obtain h x where h: "h \<in> set (route_heads s)"
    and p: "p = h @ c @ x" and x: "x = [] \<or> hd x = CHR ''/''" by blast
  from route_path_heads [OF assms(4,6)] obtain h' y where h': "h' \<in> set (route_heads t)"
    and p': "p = h' @ d @ y" and y: "y = [] \<or> hd y = CHR ''/''" by blast
  from route_heads_apart [OF h h'] p p' have "s = t" "c @ x = d @ y" by metis+
  with segment_unique [OF slash _ x y] show ?thesis by blast
qed

theorem routes_isolate_clients_witness:
  "''pc-a'' = ''pc-a'' \<and> Mcp = Mcp"
  by (rule routes_isolate_clients [where r = "''/builtin/clients/pc-a''"
        and r' = "''/builtin/clients/pc-a''" and p = "''/builtin/clients/pc-a/mcp''"])
    code_simp+

text \<open>
  A request is replayed only when it carries a non-null id and either names one of the
  three protocol methods or calls a tool of the read-only list; a body that is not JSON, a
  notification and a call of any other tool are never replayed.
\<close>

lemma retry_safe_only_read_only:
  assumes "is_retry_safe_mcp_request from_slice body"
  shows "\<exists>object v m. from_slice body = Some (JObj object)
     \<and> map_of object ''id'' = Some v \<and> v \<noteq> JNull
     \<and> map_of object ''method'' = Some (JStr m)
     \<and> (m \<in> {''initialize'', ''ping'', ''tools/list''} \<or>
        m = ''tools/call'' \<and> (\<exists>params name. map_of object ''params'' = Some params
           \<and> jget params ''name'' = Some (JStr name)
           \<and> trim name \<in> set MCP_READ_ONLY_TOOL_NAMES))"
  using assms
  by (auto simp: is_retry_safe_mcp_request_def as_object_def as_str_def bind_eq_Some_conv
      is_retry_safe_tool_name_def
      split: option.splits json.splits if_splits)

definition call_body :: "string \<Rightarrow> json" where
  "call_body tool = JObj [(''jsonrpc'', JStr ''2.0''), (''id'', JInt 1), (''method'', JStr ''tools/call''),
     (''params'', JObj [(''name'', JStr tool), (''arguments'', JObj [])])]"

theorem retry_safe_only_read_only_witness:
  "\<not> is_retry_safe_mcp_request (\<lambda>_. Some (call_body ''apply_patch'')) []
   \<and> (\<exists>object v m. Some (call_body ''read_file'') = Some (JObj object)
     \<and> map_of object ''id'' = Some v \<and> v \<noteq> JNull
     \<and> map_of object ''method'' = Some (JStr m)
     \<and> (m \<in> {''initialize'', ''ping'', ''tools/list''} \<or>
        m = ''tools/call'' \<and> (\<exists>params name. map_of object ''params'' = Some params
           \<and> jget params ''name'' = Some (JStr name)
           \<and> trim name \<in> set MCP_READ_ONLY_TOOL_NAMES)))"
  by (rule conjI, code_simp,
      rule retry_safe_only_read_only [of "\<lambda>_. Some (call_body ''read_file'')" "[]"], code_simp)

end
