(* ===== verification/Pool_Policy.thy ===== *)
theory Pool_Policy
  imports Tunnel_Policy
begin

unbundle bit_operations_syntax

text \<open>
  The scaling decisions of the built-in tunnel client
  (\<open>src-tauri/src/tunnel/builtin/pool_policy.rs\<close>): how many connections or workers to spawn
  or retire, why a pool does not grow, when a worker is recycled, and how long to wait before a
  reconnect.  Pool sizes are \<open>usize\<close> and appear as natural numbers with the saturation of the
  code; a \<open>Duration\<close> is its number of nanoseconds.
\<close>

section \<open>Counts and adjustments\<close>

record PoolCounts =
  pc_total :: nat
  pc_connecting :: nat
  pc_idle :: nat
  pc_busy :: nat

record PoolAdjustment =
  adj_spawn :: nat
  adj_retire :: nat

record MultiplexPoolSnapshot =
  sn_connected_connections :: nat
  sn_connecting_connections :: nat
  sn_active_streams :: nat
  sn_queued_requests :: nat
  sn_desired_connections :: nat
  sn_idle_connections :: nat
  sn_idle_excess_elapsed :: bool

abbreviation adjustment :: "nat \<Rightarrow> nat \<Rightarrow> PoolAdjustment" where
  "adjustment s r \<equiv> \<lparr>adj_spawn = s, adj_retire = r\<rparr>"

section \<open>The shared connection pool of version 5\<close>

definition multiplex_pool_adjustment ::
    "MultiplexConnectionPolicy \<Rightarrow> MultiplexPoolSnapshot \<Rightarrow> PoolAdjustment" where
  "multiplex_pool_adjustment policy sn =
     (let connected = sn_connected_connections sn;
          connecting = sn_connecting_connections sn;
          projected = sat_add connected connecting;
          maximum = unat (mp_max_connections policy);
          available_to_spawn = maximum - projected;
          minimum = unat (mp_min_connections policy)
      in if projected < minimum then adjustment (min (minimum - projected) available_to_spawn) 0
         else
           let start = unat (mp_start_connections policy)
           in if projected < start \<and> sn_active_streams sn = 0 \<and> sn_queued_requests sn = 0
              then adjustment (min (start - projected) available_to_spawn) 0
              else
                let projected_capacity =
                      sat_mul (max projected 1) (unat (mp_streams_per_connection policy));
                    utilization_reached =
                      (sat_mul (sn_active_streams sn) 100
                       \<ge> sat_mul projected_capacity (unat (mp_scale_up_threshold_percent policy)));
                    spawn =
                      (if sn_queued_requests sn > 0 \<or> sn_desired_connections sn > projected
                       then max (unat (mp_burst_scale_up_step policy))
                                (sn_desired_connections sn - projected)
                       else if utilization_reached then unat (mp_scale_up_step policy) else 0)
                in if spawn > 0 then adjustment (min spawn available_to_spawn) 0
                   else if \<not> sn_idle_excess_elapsed sn \<or> connected \<le> minimum then adjustment 0 0
                   else
                     let target = (if sn_active_streams sn = 0 then minimum
                                   else max minimum (unat (mp_max_idle_connections policy)))
                     in adjustment 0 (min (sn_idle_connections sn) (connected - target)))"

section \<open>The worker pool of version 4\<close>

datatype ScaleUpBlock = ConnectingLimitReached | MaxWorkersReached

fun scale_up_block_as_str :: "ScaleUpBlock \<Rightarrow> string" where
  "scale_up_block_as_str ConnectingLimitReached = ''connecting_limit_reached''"
| "scale_up_block_as_str MaxWorkersReached = ''max_workers_reached''"

definition configured_max_connecting :: "WorkerPolicy \<Rightarrow> nat" where
  "configured_max_connecting policy =
     (let maximum = max (unat (wp_max_workers policy)) 1
      in if wp_max_connecting_workers policy = 0 then min maximum 4
         else max (min (unat (wp_max_connecting_workers policy)) maximum) 1)"

definition configured_burst_warm_floor :: "WorkerPolicy \<Rightarrow> nat" where
  "configured_burst_warm_floor policy =
     (let maximum = unat (wp_max_workers policy)
      in if wp_burst_warm_workers policy = 0
         then min (max (unat (wp_start_workers policy)) (sat_mul (unat (wp_max_idle_workers policy)) 2))
                  maximum
         else min (unat (wp_burst_warm_workers policy)) maximum)"

text \<open>
  The \<open>debug_assert\<close> on the counts only acts in debug builds; the arithmetic below is that of
  a release build.
\<close>

definition pool_adjustment ::
    "WorkerPolicy \<Rightarrow> PoolCounts \<Rightarrow> nat \<Rightarrow> nat \<Rightarrow> nat \<Rightarrow> bool \<Rightarrow> nat \<Rightarrow> PoolAdjustment" where
  "pool_adjustment policy counts effective_connecting max_connecting desired_workers
      idle_excess_elapsed scale_down_floor =
     (let maximum = unat (wp_max_workers policy);
          startup_needed = unat (wp_start_workers policy) - pc_total counts;
          spare_needed = unat (wp_min_idle_workers policy)
                           - sat_add (pc_idle counts) effective_connecting;
          demand_needed = desired_workers - pc_total counts;
          requested_spawn = max (max startup_needed spare_needed) demand_needed;
          connecting_budget = max_connecting - effective_connecting;
          spawn = min (min requested_spawn (maximum - pc_total counts)) connecting_budget;
          above_maximum = min (pc_total counts - maximum) (pc_idle counts);
          staged_idle_excess =
            (if idle_excess_elapsed \<and> above_maximum = 0
             then min (min (pc_total counts - scale_down_floor) (pc_idle counts))
                      (unat (wp_scale_down_step policy))
             else 0)
      in adjustment spawn (max above_maximum staged_idle_excess))"

definition scale_up_reason :: "WorkerPolicy \<Rightarrow> PoolCounts \<Rightarrow> nat \<Rightarrow> nat \<Rightarrow> string" where
  "scale_up_reason policy counts effective_connecting desired_workers =
     (if desired_workers > pc_total counts then ''server_demand''
      else
        let startup_deficit = (pc_total counts < unat (wp_start_workers policy));
            idle_deficit = (pc_idle counts + effective_connecting < unat (wp_min_idle_workers policy))
        in (case (startup_deficit, idle_deficit) of
              (True, True) \<Rightarrow> ''startup_and_idle_reserve''
            | (True, False) \<Rightarrow> ''startup''
            | (False, True) \<Rightarrow> ''idle_reserve''
            | (False, False) \<Rightarrow> ''none''))"

definition scale_down_reason :: "WorkerPolicy \<Rightarrow> PoolCounts \<Rightarrow> bool \<Rightarrow> bool \<Rightarrow> string" where
  "scale_down_reason policy counts idle_excess_elapsed warm_active =
     (if pc_total counts > unat (wp_max_workers policy) then ''max_workers_reduced''
      else if idle_excess_elapsed \<and> warm_active then ''burst_warm_staged''
      else if idle_excess_elapsed then ''idle_excess_elapsed''
      else ''none'')"

definition scale_up_block ::
    "WorkerPolicy \<Rightarrow> PoolCounts \<Rightarrow> nat \<Rightarrow> nat \<Rightarrow> nat \<Rightarrow> PoolAdjustment \<Rightarrow> ScaleUpBlock option" where
  "scale_up_block policy counts effective_connecting max_connecting desired_workers adj =
     (let startup_deficit = (pc_total counts < unat (wp_start_workers policy));
          idle_deficit = (pc_idle counts + effective_connecting < unat (wp_min_idle_workers policy));
          demand_deficit = (desired_workers > pc_total counts)
      in if adj_spawn adj > 0 \<or> \<not> (startup_deficit \<or> idle_deficit \<or> demand_deficit) then None
         else if pc_total counts \<ge> unat (wp_max_workers policy) then Some MaxWorkersReached
         else if effective_connecting \<ge> max_connecting then Some ConnectingLimitReached
         else None)"

definition join_worker_indices :: "nat list \<Rightarrow> string" where
  "join_worker_indices indices = join '','' (map decimal indices)"

section \<open>Recycling and reconnecting\<close>

definition jittered_limit :: "nat \<Rightarrow> u64 \<Rightarrow> u8 \<Rightarrow> nat" where
  "jittered_limit base seed percent =
     (if base = 0 \<or> percent = 0 then base
      else
        let spread = min (unat percent) 50;
            mixed = word_rotl (unat (seed mod 63)) ((seed + 1) * 0x9E3779B97F4A7C15);
            offset = unat mixed mod (sat_mul spread 2 + 1);
            factor = sat_add (100 - spread) offset
        in sat_add (sat_mul base factor) 99 div 100)"

type_synonym duration = nat

definition from_secs :: "nat \<Rightarrow> duration" where "from_secs s = s * 1000000000"
definition from_millis :: "nat \<Rightarrow> duration" where "from_millis m = m * 1000000"
definition as_millis :: "duration \<Rightarrow> nat" where "as_millis d = d div 1000000"

definition worker_should_recycle :: "WorkerPolicy \<Rightarrow> u64 \<Rightarrow> nat \<Rightarrow> duration \<Rightarrow> bool" where
  "worker_should_recycle policy seed completed_requests connected_for =
     (let request_limit = jittered_limit (unat (wp_max_requests_per_worker policy)) seed
                            (wp_recycle_jitter_percent policy);
          lifetime_limit = jittered_limit (unat (wp_max_lifetime_seconds policy)) seed
                            (wp_recycle_jitter_percent policy)
      in (request_limit \<noteq> 0 \<and> completed_requests \<ge> request_limit)
         \<or> (lifetime_limit \<noteq> 0 \<and> connected_for \<ge> from_secs lifetime_limit))"

definition MAX_RECONNECT_DELAY :: duration where "MAX_RECONNECT_DELAY = from_secs 120"
definition INITIAL_RECONNECT_DELAY :: duration where "INITIAL_RECONNECT_DELAY = from_secs 1"
definition ESTABLISHED_RECONNECT_DELAY :: duration where "ESTABLISHED_RECONNECT_DELAY = from_secs 1"

definition next_reconnect_base :: "duration \<Rightarrow> bool \<Rightarrow> duration" where
  "next_reconnect_base current connected =
     (if connected then ESTABLISHED_RECONNECT_DELAY else min (current * 2) MAX_RECONNECT_DELAY)"

definition reconnect_delay :: "duration \<Rightarrow> u64 \<Rightarrow> u64 \<Rightarrow> duration" where
  "reconnect_delay base worker_index attempt =
     (let mixed = word_rotl (unat (attempt mod 31)) ((worker_index + 1) * 0x9E3779B9)
                    XOR (attempt * 0x85EBCA6B);
          percent = 50 + unat mixed mod 51;
          millis = min (as_millis base * percent) (2 ^ 128 - 1) div 100
      in from_millis (min (max millis 1) (as_millis MAX_RECONNECT_DELAY)))"

section \<open>The contract of a pool controller\<close>

text \<open>
  What the supervising loops rely on: a controller looks at a state and asks for new members
  or for idle ones to leave.  In a \<open>paced\<close> sequence of looks the members that are counted only leave
  on their own, so the next size is at most the adjusted one.  The loops are not always paced, since a
  member that was asked to leave is not counted and may report once more: see \<open>Pool_Loop\<close>.
\<close>

fun paced :: "('s \<Rightarrow> PoolAdjustment) \<Rightarrow> ('s \<Rightarrow> nat) \<Rightarrow> 's list \<Rightarrow> bool" where
  "paced adjust members [] = True"
| "paced adjust members [s] = True"
| "paced adjust members (s # t # r) =
     (members t \<le> members s + adj_spawn (adjust s) \<and> paced adjust members (t # r))"

locale pool_controller =
  fixes adjust :: "'s \<Rightarrow> PoolAdjustment"
    and members :: "'s \<Rightarrow> nat"
    and idle :: "'s \<Rightarrow> nat"
    and limit :: nat
  assumes spawn_bound: "members s \<le> limit \<Longrightarrow> members s + adj_spawn (adjust s) \<le> limit"
    and full_stays: "limit \<le> members s \<Longrightarrow> adj_spawn (adjust s) = 0"
    and retire_idle: "adj_retire (adjust s) \<le> idle s"
begin

lemma run_within_limit:
  "paced adjust members (s # ss) \<Longrightarrow> members s \<le> limit \<Longrightarrow> t \<in> set (s # ss) \<Longrightarrow> members t \<le> limit"
proof (induction ss arbitrary: s)
  case Nil
  then show ?case by simp
next
  case (Cons u ss)
  from Cons.prems have "members u \<le> members s + adj_spawn (adjust s)" by simp
  with spawn_bound [OF Cons.prems(2)] have "members u \<le> limit" by simp
  with Cons show ?case by auto
qed

lemma run_never_grows_past:
  "paced adjust members (s # ss) \<Longrightarrow> t \<in> set (s # ss) \<Longrightarrow> members t \<le> max (members s) limit"
proof (cases "members s \<le> limit")
  case True
  assume "paced adjust members (s # ss)" "t \<in> set (s # ss)"
  with run_within_limit True show ?thesis by fastforce
next
  case False
  have "paced adjust members (s # ss) \<Longrightarrow> t \<in> set (s # ss) \<Longrightarrow> members t \<le> max (members s) limit"
    for s
  proof (induction ss arbitrary: s)
    case Nil
    then show ?case by simp
  next
    case (Cons u ss)
    have "members u \<le> max (members s) limit"
      using Cons.prems(1) spawn_bound [of s] full_stays [of s]
      by (cases "members s \<le> limit") auto
    moreover have "t = s \<or> members t \<le> max (members u) limit"
      using Cons.IH [of u] Cons.prems by auto
    ultimately show ?case by auto
  qed
  then show "paced adjust members (s # ss) \<Longrightarrow> t \<in> set (s # ss) \<Longrightarrow> ?thesis" .
qed

end

definition multiplex_size :: "MultiplexPoolSnapshot \<Rightarrow> nat" where
  "multiplex_size sn = sn_connected_connections sn + sn_connecting_connections sn"

lemma multiplex_spawn_le:
  "adj_spawn (multiplex_pool_adjustment p sn)
     \<le> unat (mp_max_connections p)
        - sat_add (sn_connected_connections sn) (sn_connecting_connections sn)"
  by (simp add: multiplex_pool_adjustment_def Let_def)

lemma multiplex_retire_keeps_minimum:
  assumes "adj_retire (multiplex_pool_adjustment p sn) > 0"
  shows "unat (mp_min_connections p)
     \<le> sn_connected_connections sn - adj_retire (multiplex_pool_adjustment p sn)"
proof -
  let ?target = "if sn_active_streams sn = 0 then unat (mp_min_connections p)
                 else max (unat (mp_min_connections p)) (unat (mp_max_idle_connections p))"
  have "adj_retire (multiplex_pool_adjustment p sn)
       = min (sn_idle_connections sn) (sn_connected_connections sn - ?target)"
    using assms unfolding multiplex_pool_adjustment_def Let_def
    by (simp only: if_split_eq1 PoolAdjustment.simps if_distrib [of adj_retire] split: if_split_asm)
      simp_all
  moreover have "unat (mp_min_connections p) \<le> ?target" by simp
  ultimately show ?thesis using assms by linarith
qed

lemma u16_le_u64_max: "unat (w :: u16) \<le> u64_max"
  by (rule order.trans [OF less_imp_le [OF unat_u16_lt]]) (simp add: u64_max_def)

lemma multiplex_retire_le:
  "adj_retire (multiplex_pool_adjustment p sn) \<le> sn_idle_connections sn"
  by (simp add: multiplex_pool_adjustment_def Let_def)

interpretation mux: pool_controller "multiplex_pool_adjustment p" multiplex_size
    sn_idle_connections "unat (mp_max_connections p)" for p
proof unfold_locales
  fix s
  note le = multiplex_spawn_le [of p s] u16_le_u64_max [of "mp_max_connections p"]
  show "multiplex_size s \<le> unat (mp_max_connections p) \<Longrightarrow>
      multiplex_size s + adj_spawn (multiplex_pool_adjustment p s) \<le> unat (mp_max_connections p)"
    using le by (simp add: multiplex_size_def sat_add_def)
  show "unat (mp_max_connections p) \<le> multiplex_size s \<Longrightarrow>
      adj_spawn (multiplex_pool_adjustment p s) = 0"
    using le by (simp add: multiplex_size_def sat_add_def)
  show "adj_retire (multiplex_pool_adjustment p s) \<le> sn_idle_connections s"
    by (rule multiplex_retire_le)
qed

text \<open>The inputs of one look at the worker pool, bundled.\<close>

record WorkerPoolView =
  vw_counts :: PoolCounts
  vw_effective_connecting :: nat
  vw_max_connecting :: nat
  vw_desired_workers :: nat
  vw_idle_excess_elapsed :: bool
  vw_scale_down_floor :: nat

definition view_adjustment :: "WorkerPolicy \<Rightarrow> WorkerPoolView \<Rightarrow> PoolAdjustment" where
  "view_adjustment policy v = pool_adjustment policy (vw_counts v) (vw_effective_connecting v)
     (vw_max_connecting v) (vw_desired_workers v) (vw_idle_excess_elapsed v) (vw_scale_down_floor v)"

lemma pool_adjustment_spawn:
  "adj_spawn (pool_adjustment policy counts ec mc desired elapsed floor) =
     min (min (max (max (unat (wp_start_workers policy) - pc_total counts)
                        (unat (wp_min_idle_workers policy) - sat_add (pc_idle counts) ec))
                   (desired - pc_total counts))
              (unat (wp_max_workers policy) - pc_total counts))
         (mc - ec)"
  by (simp add: pool_adjustment_def Let_def)

lemma pool_adjustment_retire:
  "adj_retire (pool_adjustment policy counts ec mc desired elapsed floor) \<le> pc_idle counts"
  unfolding pool_adjustment_def Let_def by (simp add: min.coboundedI1)

lemma min_max_zero:
  "min a b = 0 \<longleftrightarrow> a = 0 \<or> b = (0 :: nat)"
  "max a b = 0 \<longleftrightarrow> a = 0 \<and> b = (0 :: nat)"
  by (auto simp: min_def max_def)

lemma pool_adjustment_stuck:
  assumes "pc_idle counts + ec \<le> u64_max"
  shows "adj_spawn (pool_adjustment policy counts ec mc desired elapsed floor) = 0 \<longleftrightarrow>
     \<not> (pc_total counts < unat (wp_start_workers policy)
        \<or> pc_idle counts + ec < unat (wp_min_idle_workers policy) \<or> pc_total counts < desired)
     \<or> unat (wp_max_workers policy) \<le> pc_total counts \<or> mc \<le> ec"
  unfolding pool_adjustment_spawn min_max_zero diff_is_0_eq sat_add_exact [OF assms] by auto

interpretation workers: pool_controller "view_adjustment p" "\<lambda>v. pc_total (vw_counts v)"
    "\<lambda>v. pc_idle (vw_counts v)" "unat (wp_max_workers p)" for p
proof unfold_locales
  fix v
  have spawn: "adj_spawn (view_adjustment p v) \<le> unat (wp_max_workers p) - pc_total (vw_counts v)"
    unfolding view_adjustment_def pool_adjustment_spawn by (meson min.cobounded1 min.cobounded2 order.trans)
  then show "pc_total (vw_counts v) \<le> unat (wp_max_workers p) \<Longrightarrow>
      pc_total (vw_counts v) + adj_spawn (view_adjustment p v) \<le> unat (wp_max_workers p)"
    by simp
  from spawn show "unat (wp_max_workers p) \<le> pc_total (vw_counts v) \<Longrightarrow>
      adj_spawn (view_adjustment p v) = 0"
    by simp
  show "adj_retire (view_adjustment p v) \<le> pc_idle (vw_counts v)"
    unfolding view_adjustment_def by (rule pool_adjustment_retire)
qed

section \<open>Properties\<close>

definition snap :: "nat \<Rightarrow> nat \<Rightarrow> nat \<Rightarrow> nat \<Rightarrow> MultiplexPoolSnapshot" where
  "snap connected active queued idle = \<lparr>sn_connected_connections = connected,
     sn_connecting_connections = 0, sn_active_streams = active, sn_queued_requests = queued,
     sn_desired_connections = 0, sn_idle_connections = idle, sn_idle_excess_elapsed = False\<rparr>"

text \<open>
  One decision of the version 5 pool under a valid policy: it never spawns and retires at
  once, it only retires idle connections and keeps the minimum connected, and while there is
  room it answers a shortage, that is too few connections or queued requests or a demand above
  the projected size, with at least one new connection.
\<close>

lemma multiplex_adjustment_sound:
  assumes valid: "multiplex_policy_validate p = Inr ()"
    and no_overflow: "multiplex_size sn \<le> u64_max"
    and a: "a = multiplex_pool_adjustment p sn"
  shows "(adj_spawn a = 0 \<or> adj_retire a = 0)
    \<and> adj_retire a \<le> sn_idle_connections sn
    \<and> (adj_retire a > 0 \<longrightarrow>
         unat (mp_min_connections p) \<le> sn_connected_connections sn - adj_retire a)
    \<and> (multiplex_size sn < unat (mp_min_connections p) \<longrightarrow>
         multiplex_size sn + adj_spawn a = unat (mp_min_connections p))
    \<and> (multiplex_size sn < unat (mp_max_connections p)
         \<and> (sn_queued_requests sn > 0 \<or> sn_desired_connections sn > multiplex_size sn) \<longrightarrow>
         adj_spawn a > 0)"
proof (intro conjI impI)
  have ok: "multiplex_policy_ok p" using valid by (simp add: multiplex_policy_validate_ok)
  have proj: "sat_add (sn_connected_connections sn) (sn_connecting_connections sn) = multiplex_size sn"
    using no_overflow by (simp add: multiplex_size_def sat_add_exact)
  note decide = a multiplex_pool_adjustment_def Let_def proj
  show "adj_spawn a = 0 \<or> adj_retire a = 0" by (simp add: decide)
  show "adj_retire a \<le> sn_idle_connections sn"
    unfolding a by (rule multiplex_retire_le)
  show "unat (mp_min_connections p) \<le> sn_connected_connections sn - adj_retire a"
    if "adj_retire a > 0"
    using multiplex_retire_keeps_minimum [of p sn] that unfolding a by blast
  show "multiplex_size sn + adj_spawn a = unat (mp_min_connections p)"
    if "multiplex_size sn < unat (mp_min_connections p)"
    using that ok by (auto simp: decide multiplex_policy_ok_def)
  show "adj_spawn a > 0"
    if "multiplex_size sn < unat (mp_max_connections p)
      \<and> (sn_queued_requests sn > 0 \<or> sn_desired_connections sn > multiplex_size sn)"
    using that ok by (auto simp: decide multiplex_policy_ok_def)
qed

theorem multiplex_adjustment_sound_witness:
  "adj_spawn (multiplex_pool_adjustment multiplex_policy_default (snap 2 20 3 0)) > 0"
proof -
  have "multiplex_size (snap 2 20 3 0) \<le> u64_max"
    by (simp add: multiplex_size_def snap_def u64_max_def)
  from multiplex_adjustment_sound [OF default_policies_valid(1) this refl]
  have "multiplex_size (snap 2 20 3 0) < unat (mp_max_connections multiplex_policy_default)
      \<and> (sn_queued_requests (snap 2 20 3 0) > 0
         \<or> sn_desired_connections (snap 2 20 3 0) > multiplex_size (snap 2 20 3 0)) \<longrightarrow>
    adj_spawn (multiplex_pool_adjustment multiplex_policy_default (snap 2 20 3 0)) > 0"
    by blast
  moreover have "multiplex_size (snap 2 20 3 0) < unat (mp_max_connections multiplex_policy_default)"
    and "sn_queued_requests (snap 2 20 3 0) > 0"
    by (simp_all add: multiplex_size_def snap_def multiplex_policy_default_def)
  ultimately show ?thesis by blast
qed

text \<open>
  The worker pool of version 4, under any policy: the workers never exceed the maximum
  while the pool is within it, as long as no retiring worker is counted again.
\<close>

lemma worker_pool_bounded:
  assumes "paced (view_adjustment p) (\<lambda>v. pc_total (vw_counts v)) (v # vs)"
    and "pc_total (vw_counts v) \<le> unat (wp_max_workers p)"
    and "w \<in> set (v # vs)"
  shows "pc_total (vw_counts w) \<le> unat (wp_max_workers p)"
  using assms by (rule workers.run_within_limit)

definition wview :: "nat \<Rightarrow> nat \<Rightarrow> nat \<Rightarrow> WorkerPoolView" where
  "wview n idle desired = \<lparr>vw_counts = \<lparr>pc_total = n, pc_connecting = 0, pc_idle = idle,
     pc_busy = n - idle\<rparr>, vw_effective_connecting = 0, vw_max_connecting = 2,
     vw_desired_workers = desired, vw_idle_excess_elapsed = False, vw_scale_down_floor = 2\<rparr>"

theorem worker_pool_bounded_witness:
  "pc_total (vw_counts (wview 8 0 20)) \<le> unat (wp_max_workers (worker_policy_default_for Mcp))"
  by (rule worker_pool_bounded [of "worker_policy_default_for Mcp" "wview 5 0 20"
        "[wview 7 0 20, wview 8 0 20]"])
    (simp_all add: wview_def view_adjustment_def pool_adjustment_spawn sat_add_def u64_max_def
      worker_policy_default_for_def)

text \<open>
  The diagnosis of a worker pool that does not grow is exact.  When the adjustment
  computed for a view spawns nothing although the pool is short of workers (below its start
  size, short of idle workers, or below the demand), a reason is reported and it is true;
  when workers are spawned or nothing is missing, no reason is reported.
\<close>

lemma scale_up_block_exact:
  assumes "pc_idle counts + effective_connecting \<le> u64_max"
    and "adj = pool_adjustment policy counts effective_connecting max_connecting desired elapsed floor"
    and "short \<longleftrightarrow> pc_total counts < unat (wp_start_workers policy)
            \<or> pc_idle counts + effective_connecting < unat (wp_min_idle_workers policy)
            \<or> pc_total counts < desired"
  shows "(scale_up_block policy counts effective_connecting max_connecting desired adj = None
            \<longleftrightarrow> adj_spawn adj > 0 \<or> \<not> short)
    \<and> (scale_up_block policy counts effective_connecting max_connecting desired adj
            = Some MaxWorkersReached \<longrightarrow> unat (wp_max_workers policy) \<le> pc_total counts)
    \<and> (scale_up_block policy counts effective_connecting max_connecting desired adj
            = Some ConnectingLimitReached \<longrightarrow> max_connecting \<le> effective_connecting)"
  using pool_adjustment_stuck [OF assms(1), of policy max_connecting desired elapsed floor]
  unfolding assms(2,3) scale_up_block_def Let_def by auto

theorem scale_up_block_exact_witness:
  "scale_up_block (worker_policy_default_for Mcp) (vw_counts (wview 8 0 9)) 0 2 9
     (pool_adjustment (worker_policy_default_for Mcp) (vw_counts (wview 8 0 9)) 0 2 9 False 2)
   = Some MaxWorkersReached"
proof -
  define p where "p = worker_policy_default_for Mcp"
  define c where "c = vw_counts (wview 8 0 9)"
  define adj where "adj = pool_adjustment p c 0 2 9 False 2"
  define r where "r = scale_up_block p c 0 2 9 adj"
  note defs = p_def c_def adj_def r_def wview_def pool_adjustment_spawn scale_up_block_def
    worker_policy_default_for_def
  have h: "pc_idle c + 0 \<le> u64_max" and spawn: "\<not> adj_spawn adj > 0" and short: "pc_total c < 9"
    and r: "r \<noteq> Some ConnectingLimitReached"
    by (simp_all add: defs)
  from conjunct1 [OF scale_up_block_exact [OF h adj_def refl]]
  have "r = None \<longleftrightarrow> adj_spawn adj > 0 \<or> \<not> (pc_total c < unat (wp_start_workers p)
            \<or> pc_idle c + 0 < unat (wp_min_idle_workers p) \<or> pc_total c < 9)"
    unfolding r_def .
  with spawn short have "r \<noteq> None" by simp
  with r have "r = Some MaxWorkersReached" by (metis ScaleUpBlock.exhaust option.exhaust)
  then show ?thesis unfolding r_def adj_def p_def c_def .
qed

section \<open>Recycling limits and reconnect delays\<close>

lemma div_window:
  fixes n d :: nat
  assumes "0 < d"
  shows "n \<le> d * ((n + (d - 1)) div d)" "d * ((n + (d - 1)) div d) < n + d"
proof -
  have e: "d * ((n + (d - 1)) div d) + (n + (d - 1)) mod d = n + (d - 1)"
    by simp
  have "(n + (d - 1)) mod d < d"
    using assms by simp
  with e show "n \<le> d * ((n + (d - 1)) div d)"
    by linarith
  from e assms show "d * ((n + (d - 1)) div d) < n + d"
    by linarith
qed

text \<open>
  The jitter on a recycling limit stays inside its window: with \<open>s\<close> the configured percentage,
  at most 50, the limit lies between \<open>(100 - s) %\<close> and \<open>(100 + s) %\<close> of the base, rounded up, and it is
  zero (recycling off) only when the base is.
\<close>

lemma jittered_limit_window:
  assumes "150 * base + 99 \<le> u64_max" and "s = min (unat percent) 50"
  shows "base * (100 - s) \<le> 100 * jittered_limit base seed percent
       \<and> 100 * jittered_limit base seed percent < base * (100 + s) + 100
       \<and> (jittered_limit base seed percent = 0 \<longleftrightarrow> base = 0)"
proof (cases "base = 0 \<or> percent = 0")
  case True
  then show ?thesis
    using assms(2) by (auto simp: jittered_limit_def)
next
  case False
  define offset where "offset =
    unat (word_rotl (unat (seed mod 63)) ((seed + 1) * 0x9E3779B97F4A7C15)) mod (sat_mul s 2 + 1)"
  have s: "s \<le> 50" using assms(2) by simp
  have u: "200 \<le> u64_max" by (simp add: u64_max_def)
  have two: "sat_mul s 2 = 2 * s" using s u by (simp add: sat_mul_def)
  have off: "offset \<le> 2 * s"
    unfolding offset_def two by (simp flip: less_Suc_eq_le)
  define f where "f = 100 - s + offset"
  have f: "100 - s \<le> f" "f \<le> 100 + s" "50 \<le> f" "f \<le> 150"
    using off s by (simp_all add: f_def)
  have sf: "sat_add (100 - s) offset = f"
    using f u by (simp add: sat_add_def f_def)
  have bf: "base * f \<le> 150 * base" using f(4) by (simp add: mult.commute)
  have sm: "sat_mul base f = base * f" "sat_add (base * f) 99 = base * f + 99"
    unfolding sat_mul_def sat_add_def using bf assms(1) by linarith+
  have jl: "jittered_limit base seed percent = (base * f + (100 - 1)) div 100"
    using False unfolding jittered_limit_def Let_def assms(2) [symmetric] offset_def [symmetric] sf sm
    by simp
  note win = div_window [of 100 "base * f"]
  have lo: "base * (100 - s) \<le> base * f" and hi: "base * f \<le> base * (100 + s)"
    using f by simp_all
  have pos: "0 < base * f" using False f by simp
  show ?thesis unfolding jl using win lo hi pos False by linarith
qed

theorem jittered_limit_window_witness:
  "1000 * (100 - 10) \<le> 100 * jittered_limit 1000 7 10
   \<and> 100 * jittered_limit 1000 7 10 < 1000 * (100 + 10) + 100
   \<and> (jittered_limit 1000 7 10 = 0 \<longleftrightarrow> (1000 :: nat) = 0)"
  by (rule jittered_limit_window) (simp_all add: u64_max_def)

lemma as_from_millis [simp]: "as_millis (from_millis m) = m"
  by (simp add: as_millis_def from_millis_def)

text \<open>
  Reconnecting backs off within bounds: from a base delay of at most two minutes, the delay
  slept is at least one millisecond, at least half and at most the whole of the base (in
  milliseconds), and the next base delay is again at most two minutes.
\<close>

lemma reconnect_backoff_bounded:
  assumes "base \<le> MAX_RECONNECT_DELAY"
  shows "1 \<le> as_millis (reconnect_delay base worker attempt)
       \<and> as_millis base div 2 \<le> as_millis (reconnect_delay base worker attempt)
       \<and> as_millis (reconnect_delay base worker attempt) \<le> max 1 (as_millis base)
       \<and> next_reconnect_base base connected \<le> MAX_RECONNECT_DELAY"
proof -
  define p where "p = 50 + unat (word_rotl (unat (attempt mod 31)) ((worker + 1) * 0x9E3779B9)
                    XOR (attempt * 0x85EBCA6B)) mod (51 :: nat)"
  define b where "b = as_millis base"
  define m where "m = min (b * p) (2 ^ 128 - 1) div 100"
  have p: "50 \<le> p" "p \<le> 100"
    unfolding p_def by (simp_all add: less_Suc_eq_le [symmetric])
  have b: "b \<le> 120000"
    using div_le_mono [OF assms, of 1000000]
    by (simp add: b_def as_millis_def MAX_RECONNECT_DELAY_def from_secs_def)
  have bp: "b * 50 \<le> b * p" "b * p \<le> b * 100"
    using p by simp_all
  have "b * p \<le> 12000000"
    using bp(2) b by linarith
  then have "min (b * p) (2 ^ 128 - 1) = b * p"
    by (simp add: min_def)
  then have m: "b div 2 \<le> m" "m \<le> b"
    using div_le_mono [OF bp(1), of 100] div_le_mono [OF bp(2), of 100]
    by (simp_all add: m_def)
  have cap: "as_millis MAX_RECONNECT_DELAY = 120000"
    by (simp add: as_millis_def MAX_RECONNECT_DELAY_def from_secs_def)
  have "reconnect_delay base worker attempt = from_millis (min (max m 1) 120000)"
    by (simp add: reconnect_delay_def Let_def cap m_def p_def b_def)
  moreover have "next_reconnect_base base connected \<le> MAX_RECONNECT_DELAY"
    by (simp add: next_reconnect_base_def ESTABLISHED_RECONNECT_DELAY_def
        MAX_RECONNECT_DELAY_def from_secs_def)
  ultimately show ?thesis
    using m b by (auto simp: max_def min_def simp flip: b_def)
qed

theorem reconnect_backoff_bounded_witness:
  "1 \<le> as_millis (reconnect_delay INITIAL_RECONNECT_DELAY 0 3)
   \<and> as_millis INITIAL_RECONNECT_DELAY div 2 \<le> as_millis (reconnect_delay INITIAL_RECONNECT_DELAY 0 3)
   \<and> as_millis (reconnect_delay INITIAL_RECONNECT_DELAY 0 3) \<le> max 1 (as_millis INITIAL_RECONNECT_DELAY)
   \<and> next_reconnect_base INITIAL_RECONNECT_DELAY False \<le> MAX_RECONNECT_DELAY"
  by (rule reconnect_backoff_bounded)
    (simp add: INITIAL_RECONNECT_DELAY_def MAX_RECONNECT_DELAY_def from_secs_def)

end
