(* ===== verification/Pool_Loop.thy ===== *)
theory Pool_Loop
  imports Pool_Policy "HOL-Library.Code_Target_Nat"
begin

text \<open>
  The loop that keeps the connection pool of version 5
  (\<open>run_split_session_pool\<close> in \<open>src-tauri/src/tunnel/builtin.rs\<close>): the connections it manages, the
  reports it receives from them, and what it does after each.  Routes, heartbeats and the control
  connection are left out but for whether the loop goes on to look at the pool.
\<close>

section \<open>State\<close>

datatype PoolWorkerState = Connecting | Idle | Busy | Retiring

record MultiplexDemand =
  md_queued_requests :: u16
  md_oldest_queue_wait_ms :: u64
  md_active_streams :: u16
  md_available_stream_slots :: u16
  md_desired_connections :: u16

record SplitPool =
  sp_managed :: "(nat \<times> PoolWorkerState) list"
  sp_next_worker_index :: nat
  sp_latest_demand :: "MultiplexDemand option"
  sp_demand_seen_at :: "duration option"
  sp_idle_excess_since :: "duration option"

definition DEMAND_HINT_TTL :: duration where "DEMAND_HINT_TTL = from_secs 3"

definition in_state :: "PoolWorkerState \<Rightarrow> (nat \<times> PoolWorkerState) list \<Rightarrow> nat" where
  "in_state s workers = length (filter (\<lambda>(_, s'). s' = s) workers)"

definition pool_counts :: "(nat \<times> PoolWorkerState) list \<Rightarrow> PoolCounts" where
  "pool_counts workers =
     (let connecting = in_state Connecting workers; idle = in_state Idle workers; busy = in_state Busy workers
      in \<lparr>pc_total = connecting + idle + busy, pc_connecting = connecting, pc_idle = idle, pc_busy = busy\<rparr>)"

section \<open>Spawning and retiring\<close>

definition spawn_split_data_worker :: "SplitPool \<Rightarrow> SplitPool" where
  "spawn_split_data_worker pool =
     pool\<lparr>sp_managed := al_put (sp_next_worker_index pool) Connecting (sp_managed pool),
          sp_next_worker_index := sat_add (sp_next_worker_index pool) 1\<rparr>"

text \<open>The connections are visited in the order of the hash map, a list of their indices.\<close>

fun retire_idle :: "nat \<Rightarrow> nat list \<Rightarrow> (nat \<times> PoolWorkerState) list \<Rightarrow> (nat \<times> PoolWorkerState) list" where
  "retire_idle remaining [] workers = workers"
| "retire_idle remaining (i # order) workers =
     (if remaining = 0 then workers
      else if map_of workers i = Some Idle then retire_idle (remaining - 1) order (al_put i Retiring workers)
      else retire_idle remaining order workers)"

section \<open>The loop\<close>

text \<open>
  What wakes the loop: a demand of the server and when it came, a report of a connection, its end, the end of a task that
  panicked, anything else, or a lost control connection, after which the loop starts over at once.
\<close>

datatype pool_event =
  CapacityUpdate duration MultiplexDemand
| WorkerStateEvent nat PoolWorkerState
| WorkerJoined nat
| WorkerPanicked
| OtherEvent
| ControlRebound

fun handle_event :: "pool_event \<Rightarrow> SplitPool \<Rightarrow> SplitPool" where
  "handle_event (CapacityUpdate seen demand) pool =
     pool\<lparr>sp_latest_demand := Some demand, sp_demand_seen_at := Some seen\<rparr>"
| "handle_event (WorkerStateEvent i state) pool =
     (if map_of (sp_managed pool) i = None then pool
      else pool\<lparr>sp_managed := al_put i state (sp_managed pool)\<rparr>)"
| "handle_event (WorkerJoined i) pool = pool\<lparr>sp_managed := al_del i (sp_managed pool)\<rparr>"
| "handle_event WorkerPanicked pool =
     pool\<lparr>sp_managed := filter (\<lambda>(_, s). s \<noteq> Retiring) (sp_managed pool)\<rparr>"
| "handle_event OtherEvent pool = pool"
| "handle_event ControlRebound pool = pool"

definition fresh_demand :: "duration \<Rightarrow> SplitPool \<Rightarrow> MultiplexDemand option" where
  "fresh_demand now pool =
     (case sp_demand_seen_at pool of
        Some seen \<Rightarrow> if now - seen \<le> DEMAND_HINT_TTL then sp_latest_demand pool else None
      | None \<Rightarrow> None)"

definition demand_field :: "(MultiplexDemand \<Rightarrow> u16) \<Rightarrow> nat \<Rightarrow> MultiplexDemand option \<Rightarrow> nat" where
  "demand_field f missing demand = (case demand of Some d \<Rightarrow> unat (f d) | None \<Rightarrow> missing)"

definition idle_excess :: "MultiplexConnectionPolicy \<Rightarrow> duration \<Rightarrow> SplitPool \<Rightarrow> duration option" where
  "idle_excess policy now pool =
     (let counts = pool_counts (sp_managed pool); demand = fresh_demand now pool
      in if pc_total counts > unat (mp_min_connections policy) \<and> pc_idle counts > 0
           \<and> demand_field md_active_streams 0 demand = 0 \<and> demand_field md_queued_requests 0 demand = 0
         then Some (case sp_idle_excess_since pool of Some since \<Rightarrow> since | None \<Rightarrow> now)
         else None)"

definition pool_snapshot :: "MultiplexConnectionPolicy \<Rightarrow> duration \<Rightarrow> SplitPool \<Rightarrow> MultiplexPoolSnapshot" where
  "pool_snapshot policy now pool =
     (let counts = pool_counts (sp_managed pool); demand = fresh_demand now pool
      in \<lparr>sn_connected_connections = pc_idle counts + pc_busy counts,
          sn_connecting_connections = pc_connecting counts,
          sn_active_streams = demand_field md_active_streams 0 demand,
          sn_queued_requests = demand_field md_queued_requests 0 demand,
          sn_desired_connections = demand_field md_desired_connections (unat (mp_min_connections policy)) demand,
          sn_idle_connections = pc_idle counts,
          sn_idle_excess_elapsed = (case idle_excess policy now pool of
             Some since \<Rightarrow> now - since \<ge> from_secs (unat (mp_scale_down_delay_seconds policy)) | None \<Rightarrow> False)\<rparr>)"

definition reconcile :: "MultiplexConnectionPolicy \<Rightarrow> duration \<Rightarrow> nat list \<Rightarrow> SplitPool \<Rightarrow> SplitPool" where
  "reconcile policy now order pool =
     (let adjustment = multiplex_pool_adjustment policy (pool_snapshot policy now pool);
          pool = pool\<lparr>sp_idle_excess_since := idle_excess policy now pool\<rparr>;
          pool = pool\<lparr>sp_managed := retire_idle (adj_retire adjustment) order (sp_managed pool)\<rparr>
      in (spawn_split_data_worker ^^ adj_spawn adjustment) pool)"

definition pool_turn ::
    "MultiplexConnectionPolicy \<Rightarrow> duration \<times> pool_event \<times> nat list \<Rightarrow> SplitPool \<Rightarrow> SplitPool" where
  "pool_turn policy = (\<lambda>(now, event, order) pool.
     if event = ControlRebound then pool else reconcile policy now order (handle_event event pool))"

definition start_pool :: "MultiplexConnectionPolicy \<Rightarrow> SplitPool" where
  "start_pool policy = (spawn_split_data_worker ^^ unat (mp_start_connections policy))
     \<lparr>sp_managed = [], sp_next_worker_index = 0, sp_latest_demand = None, sp_demand_seen_at = None,
      sp_idle_excess_since = None\<rparr>"

definition run_split_pool ::
    "MultiplexConnectionPolicy \<Rightarrow> (duration \<times> pool_event \<times> nat list) list \<Rightarrow> SplitPool" where
  "run_split_pool policy turns = fold (pool_turn policy) turns (start_pool policy)"

section \<open>The size of the pool\<close>

abbreviation members :: "SplitPool \<Rightarrow> nat" where
  "members pool \<equiv> pc_total (pool_counts (sp_managed pool))"

text \<open>A report that takes a retiring connection back into the count.\<close>

fun revives :: "pool_event \<Rightarrow> SplitPool \<Rightarrow> bool" where
  "revives (WorkerStateEvent i state) pool \<longleftrightarrow> state \<noteq> Retiring \<and> map_of (sp_managed pool) i = Some Retiring"
| "revives _ pool \<longleftrightarrow> False"

fun revivals :: "MultiplexConnectionPolicy \<Rightarrow> (duration \<times> pool_event \<times> nat list) list \<Rightarrow> SplitPool \<Rightarrow> nat" where
  "revivals policy [] pool = 0"
| "revivals policy (turn # turns) pool =
     of_bool (revives (fst (snd turn)) pool) + revivals policy turns (pool_turn policy turn pool)"

lemma total_counts_all: "pc_total (pool_counts workers) = length (filter (\<lambda>(_, s). s \<noteq> Retiring) workers)"
proof (induction workers)
  case (Cons w workers)
  obtain i s where "w = (i, s)" by (cases w)
  with Cons show ?case by (cases s) (simp_all add: pool_counts_def in_state_def Let_def)
qed (simp add: pool_counts_def in_state_def)

lemma size_put:
  "pc_total (pool_counts (al_put i s workers)) \<le> Suc (pc_total (pool_counts workers))"
  "pc_total (pool_counts (al_put i Retiring workers)) \<le> pc_total (pool_counts workers)"
  "map_of workers i = Some old \<Longrightarrow> old \<noteq> Retiring \<Longrightarrow>
     pc_total (pool_counts (al_put i s workers)) \<le> pc_total (pool_counts workers)"
proof -
  let ?alive = "filter (\<lambda>(_, s). s \<noteq> Retiring)"
  have rest: "?alive (filter (\<lambda>(k, _). k \<noteq> i) workers) = filter (\<lambda>(k, _). k \<noteq> i) (?alive workers)"
    by (simp add: conj_commute case_prod_unfold)
  have le: "length (filter (\<lambda>(k, _). k \<noteq> i) (?alive workers)) \<le> length (?alive workers)"
    by (rule length_filter_le)
  show "pc_total (pool_counts (al_put i s workers)) \<le> Suc (pc_total (pool_counts workers))"
    "pc_total (pool_counts (al_put i Retiring workers)) \<le> pc_total (pool_counts workers)"
    using le by (simp_all add: total_counts_all al_put_def rest le_SucI del: filter_filter)
  assume "map_of workers i = Some old" "old \<noteq> Retiring"
  then have "(i, old) \<in> set (?alive workers)" by (auto dest: map_of_SomeD)
  then have "length (filter (\<lambda>(k, _). k \<noteq> i) (?alive workers)) < length (?alive workers)"
    by (rule length_filter_less) simp
  then show "pc_total (pool_counts (al_put i s workers)) \<le> pc_total (pool_counts workers)"
    by (simp add: total_counts_all al_put_def rest del: filter_filter)
qed

lemma size_filter: "pc_total (pool_counts (filter P workers)) \<le> pc_total (pool_counts workers)"
  unfolding total_counts_all by (induction workers) auto

lemma size_retire: "pc_total (pool_counts (retire_idle n order workers)) \<le> pc_total (pool_counts workers)"
proof (induction n order workers rule: retire_idle.induct)
  case (2 n i order workers)
  then show ?case using size_put(2) [of i workers] by (fastforce intro: order.trans)
qed simp

lemma size_spawn: "members ((spawn_split_data_worker ^^ n) pool) \<le> members pool + n"
proof (induction n)
  case (Suc n)
  have "members (spawn_split_data_worker p) \<le> Suc (members p)" for p
    using size_put(1) by (simp add: spawn_split_data_worker_def)
  from this [of "(spawn_split_data_worker ^^ n) pool"] Suc show ?case by simp
qed simp

lemma size_event: "members (handle_event event pool) \<le> members pool + of_bool (revives event pool)"
proof (cases event)
  case (WorkerStateEvent i state)
  then show ?thesis
    using size_put(1) [of i state "sp_managed pool"] size_put(2) [of i "sp_managed pool"]
      size_put(3) [of "sp_managed pool" i _ state]
    by (cases "map_of (sp_managed pool) i"; cases "state = Retiring") auto
qed (use size_filter in \<open>auto simp: al_del_def\<close>)

lemma snapshot_size: "multiplex_size (pool_snapshot policy now pool) = members pool"
  by (simp add: multiplex_size_def pool_snapshot_def pool_counts_def Let_def)

text \<open>One turn: the pool grows up to its maximum, and above it only by what comes back.\<close>

lemma turn_size:
  "members (pool_turn policy turn pool)
     \<le> max (members pool + of_bool (revives (fst (snd turn)) pool)) (unat (mp_max_connections policy))"
proof -
  obtain now event order where turn: "turn = (now, event, order)" by (cases turn)
  show ?thesis
  proof (cases "event = ControlRebound")
    case False
    define p where "p = handle_event event pool"
    let ?sn = "pool_snapshot policy now p"
    define q where "q = p\<lparr>sp_idle_excess_since := idle_excess policy now p,
      sp_managed := retire_idle (adj_retire (multiplex_pool_adjustment policy ?sn)) order (sp_managed p)\<rparr>"
    have "members (pool_turn policy turn pool) \<le> members q + adj_spawn (multiplex_pool_adjustment policy ?sn)"
      using size_spawn [of _ q] False by (simp add: turn pool_turn_def reconcile_def Let_def p_def q_def)
    also have "members q \<le> members p" using size_retire by (simp add: q_def)
    also have "members p + adj_spawn (multiplex_pool_adjustment policy ?sn) \<le> max (members p) (unat (mp_max_connections policy))"
      using mux.spawn_bound [of ?sn policy] mux.full_stays [of policy ?sn]
      by (cases "members p \<le> unat (mp_max_connections policy)") (simp_all add: snapshot_size)
    also have "members p \<le> members pool + of_bool (revives event pool)" unfolding p_def by (rule size_event)
    finally show ?thesis by (simp add: turn)
  qed (simp add: turn pool_turn_def)
qed

lemma turns_size:
  "members pool \<le> unat (mp_max_connections policy) + extra \<Longrightarrow>
   members (fold (pool_turn policy) turns pool) \<le> unat (mp_max_connections policy) + extra + revivals policy turns pool"
proof (induction turns arbitrary: pool extra)
  case (Cons turn turns)
  have "members (pool_turn policy turn pool)
      \<le> unat (mp_max_connections policy) + (extra + of_bool (revives (fst (snd turn)) pool))"
    using turn_size [of policy turn pool] Cons.prems by linarith
  from Cons.IH [OF this] show ?case by (simp add: add.assoc)
qed simp


text \<open>
  A pool of at most two connections: the second one is retired when nothing is queued, replaced when
  something is, and a report it sent before it knew comes in last.
\<close>

definition small_policy :: MultiplexConnectionPolicy where
  "small_policy = multiplex_policy_default\<lparr>mp_max_connections := 2, mp_scale_up_step := 1,
     mp_burst_scale_up_step := 1, mp_scale_down_delay_seconds := 0\<rparr>"

definition queued_demand :: "u16 \<Rightarrow> MultiplexDemand" where
  "queued_demand n = \<lparr>md_queued_requests = n, md_oldest_queue_wait_ms = 0, md_active_streams = 0,
     md_available_stream_slots = 0, md_desired_connections = 1\<rparr>"

definition late_report :: "(duration \<times> pool_event \<times> nat list) list" where
  "late_report =
     [(0, WorkerStateEvent 0 Idle, [0]), (1, CapacityUpdate 1 (queued_demand 1), [0]),
      (2, WorkerStateEvent 1 Idle, [0, 1]), (3, CapacityUpdate 3 (queued_demand 0), [0, 1]),
      (4, CapacityUpdate 4 (queued_demand 1), [0, 1]), (5, WorkerStateEvent 0 Busy, [0, 1, 2])]"

lemma small_policy_valid: "multiplex_policy_validate small_policy = Inr ()"
  by code_simp


text \<open>The late report makes it three.\<close>

lemma late_report_exceeds_the_maximum:
  "pc_total (pool_counts (sp_managed (run_split_pool small_policy late_report))) = 3
   \<and> unat (mp_max_connections small_policy) = 2
   \<and> revivals small_policy late_report (start_pool small_policy) = 1"
proof -
  have "pc_total (pool_counts (sp_managed (run_split_pool small_policy late_report))) = 3" by code_simp
  moreover have "unat (mp_max_connections small_policy) = 2" by code_simp
  moreover have "revivals small_policy late_report (start_pool small_policy) = 1" by code_simp
  ultimately show ?thesis by simp
qed

end
