(* ===== verification/Command_Policy.thy ===== *)
theory Command_Policy
  imports Rust_Str Json
begin

text \<open>
  Process budgets: the classification and timeout of an ordinary command
  (\<open>crates/command-policy\<close>) and the contract of long-running jobs
  (\<open>tools/execution_timeout.rs\<close>).  \<open>encode_utf16().count()\<close> of the operation id is a parameter,
  as is nothing else: the argument object is a \<^typ>\<open>json\<close> value.
\<close>

section \<open>Command timeouts\<close>

definition DEFAULT_PROCESS_TIMEOUT_MS :: nat where
  "DEFAULT_PROCESS_TIMEOUT_MS = 30000"

definition package_script_looks_long_running :: "string \<Rightarrow> bool" where
  "package_script_looks_long_running display =
     (let lower = to_ascii_lowercase display;
          package_manager = list_ex (contains lower)
            [''npm '', ''npm.cmd '', ''pnpm '', ''pnpm.cmd '', ''yarn '', ''yarn.cmd '', ''bun '',
             ''bun.exe '']
      in if \<not> package_manager \<or> \<not> contains lower '' run '' then False
         else list_ex (\<lambda>token. list_ex (contains token)
                [''build'', ''portable'', ''package'', ''release'', ''verify'', ''test'', ''check'',
                 ''sync'', ''parity''])
              (split_whitespace lower))"

definition command_looks_long_running :: "string \<Rightarrow> string \<Rightarrow> bool" where
  "command_looks_long_running command_kind display =
     (let lower = to_ascii_lowercase display
      in command_kind \<in> {''cargo_test'', ''cargo_check'', ''build''}
         \<or> contains lower ''cargo clippy''
         \<or> contains lower ''tauri build''
         \<or> package_script_looks_long_running display)"

definition resolved_command_timeout_ms ::
    "nat option \<Rightarrow> string \<Rightarrow> string \<Rightarrow> nat \<Rightarrow> nat \<Rightarrow> nat" where
  "resolved_command_timeout_ms explicit_timeout_ms command_kind display configured_max_ms
      absolute_max_ms =
     (let absolute_max_ms = max absolute_max_ms 1
      in case explicit_timeout_ms of
           Some explicit \<Rightarrow> clamp explicit 1 absolute_max_ms
         | None \<Rightarrow>
             if command_looks_long_running command_kind display
             then clamp configured_max_ms 1 absolute_max_ms
             else min DEFAULT_PROCESS_TIMEOUT_MS absolute_max_ms)"

section \<open>Job budgets\<close>

definition DEFAULT_JOB_TIMEOUT_MAX_MS :: nat where
  "DEFAULT_JOB_TIMEOUT_MAX_MS = 6 * 60 * 60000"

definition ABSOLUTE_JOB_TIMEOUT_MAX_MS :: nat where
  "ABSOLUTE_JOB_TIMEOUT_MAX_MS = 24 * 60 * 60000"

definition MAX_SAFE_INTEGER :: nat where
  "MAX_SAFE_INTEGER = 9007199254740991"

definition job_timeout_limit_from_value :: "string option \<Rightarrow> nat" where
  "job_timeout_limit_from_value raw =
     (case raw of
        None \<Rightarrow> DEFAULT_JOB_TIMEOUT_MAX_MS
      | Some s \<Rightarrow>
          if s \<noteq> [] \<and> list_all is_ascii_digit s
          then (case parse_usize s of
                  Some value \<Rightarrow>
                    if value \<le> MAX_SAFE_INTEGER then min value ABSOLUTE_JOB_TIMEOUT_MAX_MS else 0
                | None \<Rightarrow> 0)
          else 0)"

record ProcessTimeoutContract =
  tc_execution_mode :: string
  tc_requested_timeout_ms :: "nat option"
  tc_effective_timeout_ms :: nat
  tc_limit_ms :: nat

datatype timeout_error =
    MutuallyExclusive
  | JobNeedsOperationId
  | NotPositiveSafeInteger string
  | LongRunningJobsDisabled
  | TimeoutExceedsLimit string nat

definition valid_operation_id :: "(string \<Rightarrow> nat) \<Rightarrow> json \<Rightarrow> bool" where
  "valid_operation_id utf16_len args =
     (case get_str args ''operation_id'' of
        Some i \<Rightarrow> trim i \<noteq> [] \<and> utf16_len i \<le> 128
      | None \<Rightarrow> False)"

definition requested_timeout :: "json \<Rightarrow> string \<Rightarrow> timeout_error + nat" where
  "requested_timeout args field =
     (case get_u64 args field of
        Some value \<Rightarrow>
          if 0 < value \<and> value \<le> MAX_SAFE_INTEGER then Inr value
          else Inl (NotPositiveSafeInteger field)
      | None \<Rightarrow> Inl (NotPositiveSafeInteger field))"

definition resolve_process_timeout ::
    "(string \<Rightarrow> nat) \<Rightarrow> json \<Rightarrow> nat \<Rightarrow> nat \<Rightarrow> nat \<Rightarrow> timeout_error + ProcessTimeoutContract" where
  "resolve_process_timeout utf16_len args default_timeout_ms command_max_ms job_max_ms =
     (let job = (jget args ''job_timeout_ms'' \<noteq> None);
          ordinary = (jget args ''timeout_ms'' \<noteq> None);
          field = (if job then ''job_timeout_ms'' else ''timeout_ms'')
      in if job \<and> ordinary then Inl MutuallyExclusive
         else if job \<and> \<not> valid_operation_id utf16_len args then Inl JobNeedsOperationId
         else and_then
           (if job \<or> ordinary then and_then (requested_timeout args field) (\<lambda>v. Inr (Some v))
            else Inr None)
           (\<lambda>requested_timeout_ms.
              let limit_ms = (if job then min job_max_ms ABSOLUTE_JOB_TIMEOUT_MAX_MS
                              else max command_max_ms 1)
              in if job \<and> limit_ms = 0 then Inl LongRunningJobsDisabled
                 else if (case requested_timeout_ms of Some r \<Rightarrow> r > limit_ms | None \<Rightarrow> False)
                 then Inl (TimeoutExceedsLimit field limit_ms)
                 else Inr \<lparr> tc_execution_mode = (if job then ''job'' else ''command''),
                            tc_requested_timeout_ms = requested_timeout_ms,
                            tc_effective_timeout_ms =
                              (case requested_timeout_ms of
                                 Some r \<Rightarrow> r
                               | None \<Rightarrow> clamp default_timeout_ms 1 limit_ms),
                            tc_limit_ms = limit_ms \<rparr>))"

section \<open>Properties\<close>

lemma clamp_simps: "1 \<le> clamp x 1 (max m 1)" "clamp x 1 (max m 1) \<le> max m 1"
  using clamp_range [of 1 "max m 1" x] by simp_all

text \<open>
  Every ordinary command gets a positive budget that never exceeds the absolute ceiling, and
  an explicit budget inside the range is taken as it is.
\<close>

lemma command_timeout_bounded:
  shows "1 \<le> resolved_command_timeout_ms explicit kind display configured absolute
       \<and> resolved_command_timeout_ms explicit kind display configured absolute \<le> max absolute 1
       \<and> (\<forall>ms \<in> {1..absolute}. resolved_command_timeout_ms (Some ms) kind display configured absolute = ms)"
proof (cases explicit)
  case None
  then show ?thesis
    using clamp_simps [of configured absolute]
    by (simp add: resolved_command_timeout_ms_def Let_def DEFAULT_PROCESS_TIMEOUT_MS_def)
      (auto simp: clamp_def)
next
  case (Some ms)
  then show ?thesis
    using clamp_simps [of ms absolute]
    by (simp add: resolved_command_timeout_ms_def Let_def) (auto simp: clamp_def)
qed

theorem command_timeout_bounded_witness:
  "(1500 :: nat) \<in> {1..60000}
   \<and> resolved_command_timeout_ms (Some 1500) ''other'' ''echo'' 1800000 60000 = 1500"
  using command_timeout_bounded [of "Some 1500" "''other''" "''echo''" 1800000 60000] by simp

lemma requested_timeout_Inr:
  "requested_timeout args f = Inr v
   \<longleftrightarrow> get_u64 args f = Some v \<and> 0 < v \<and> v \<le> MAX_SAFE_INTEGER"
  by (auto simp: requested_timeout_def split: option.splits)

text \<open>
  A granted process budget is positive and within its limit; a job's limit is at most one day
  and below the host's setting, and a job is granted only with a valid operation id and without
  an ordinary timeout; a requested budget is never changed silently.
\<close>

lemma process_timeout_contract:
  assumes "resolve_process_timeout u16 args dflt cmax jmax = Inr c"
  shows "0 < tc_effective_timeout_ms c \<and> tc_effective_timeout_ms c \<le> tc_limit_ms c
       \<and> (tc_execution_mode c = ''job''
            \<longrightarrow> tc_limit_ms c \<le> min jmax ABSOLUTE_JOB_TIMEOUT_MAX_MS
                \<and> valid_operation_id u16 args \<and> jget args ''timeout_ms'' = None
                \<and> get_u64 args ''job_timeout_ms'' = Some (tc_effective_timeout_ms c))
       \<and> (jget args ''timeout_ms'' \<noteq> None
            \<longrightarrow> get_u64 args ''timeout_ms'' = Some (tc_effective_timeout_ms c))"
  using assms
  by (auto simp: resolve_process_timeout_def Let_def and_then_Inr_iff requested_timeout_Inr clamp_def
      split: if_splits)

definition job_request :: json where
  "job_request = JObj [(''job_timeout_ms'', JInt 7200000), (''operation_id'', JStr ''full-run'')]"

definition job_grant :: ProcessTimeoutContract where
  "job_grant = \<lparr> tc_execution_mode = ''job'', tc_requested_timeout_ms = Some 7200000,
                 tc_effective_timeout_ms = 7200000, tc_limit_ms = DEFAULT_JOB_TIMEOUT_MAX_MS \<rparr>"

lemma job_request_granted:
  "resolve_process_timeout length job_request 30000 1800000 DEFAULT_JOB_TIMEOUT_MAX_MS = Inr job_grant"
proof -
  have t: "trim ''full-run'' \<noteq> []"
    by code_simp
  have g: "jget job_request ''job_timeout_ms'' = Some (JInt 7200000)"
    "jget job_request ''timeout_ms'' = None"
    "jget job_request ''operation_id'' = Some (JStr ''full-run'')"
    by (simp_all add: job_request_def jget_def)
  have r: "requested_timeout job_request ''job_timeout_ms'' = Inr 7200000"
    by (simp add: requested_timeout_def get_u64_def g as_u64_def u64_max_def MAX_SAFE_INTEGER_def)
  show ?thesis
    by (simp add: resolve_process_timeout_def valid_operation_id_def get_str_def g as_str_def t r
        job_grant_def DEFAULT_JOB_TIMEOUT_MAX_MS_def ABSOLUTE_JOB_TIMEOUT_MAX_MS_def)
qed

theorem process_timeout_contract_witness:
  "0 < tc_effective_timeout_ms job_grant
   \<and> tc_effective_timeout_ms job_grant \<le> tc_limit_ms job_grant
   \<and> tc_limit_ms job_grant \<le> min DEFAULT_JOB_TIMEOUT_MAX_MS ABSOLUTE_JOB_TIMEOUT_MAX_MS"
  using process_timeout_contract [OF job_request_granted] by (simp add: job_grant_def)

text \<open>
  The host's job limit is never above one day, whatever the environment holds, and a malformed
  setting disables jobs: under the limit it yields, every job request is refused.
\<close>

lemma job_limit_fails_closed:
  "job_timeout_limit_from_value raw \<le> ABSOLUTE_JOB_TIMEOUT_MAX_MS
   \<and> (raw = Some s \<and> parse_usize s = None \<and> jget args ''job_timeout_ms'' \<noteq> None
        \<longrightarrow> \<not> is_ok (resolve_process_timeout u16 args dflt cmax (job_timeout_limit_from_value raw)))"
proof
  show "job_timeout_limit_from_value raw \<le> ABSOLUTE_JOB_TIMEOUT_MAX_MS"
    by (auto simp: job_timeout_limit_from_value_def DEFAULT_JOB_TIMEOUT_MAX_MS_def
        ABSOLUTE_JOB_TIMEOUT_MAX_MS_def split: option.split)
  have refused: "\<not> is_ok (resolve_process_timeout u16 args dflt cmax 0)"
    if "jget args ''job_timeout_ms'' \<noteq> None"
  proof
    assume "is_ok (resolve_process_timeout u16 args dflt cmax 0)"
    then obtain c where "resolve_process_timeout u16 args dflt cmax 0 = Inr c"
      by (cases "resolve_process_timeout u16 args dflt cmax 0") auto
    then show False
      using that by (auto simp: resolve_process_timeout_def Let_def and_then_Inr_iff split: if_splits)
  qed
  have "job_timeout_limit_from_value (Some s) = 0" if "parse_usize s = None"
    using that by (simp add: job_timeout_limit_from_value_def)
  with refused show "raw = Some s \<and> parse_usize s = None \<and> jget args ''job_timeout_ms'' \<noteq> None
        \<longrightarrow> \<not> is_ok (resolve_process_timeout u16 args dflt cmax (job_timeout_limit_from_value raw))"
    by simp
qed

theorem job_limit_fails_closed_witness:
  "\<not> is_ok (resolve_process_timeout length job_request 30000 1800000
       (job_timeout_limit_from_value (Some ''1.5'')))"
proof -
  have "parse_usize ''1.5'' = None"
    by (simp add: parse_usize_def is_ascii_digit_def less_eq_char_def)
  moreover have "jget job_request ''job_timeout_ms'' \<noteq> None"
    by (simp add: job_request_def jget_def)
  ultimately show ?thesis
    using job_limit_fails_closed [of "Some ''1.5''" "''1.5''" job_request length 30000 1800000]
    by simp
qed

end
