(* ===== verification/Patch_Parser.thy ===== *)
theory Patch_Parser
  imports Rust_Str Json
begin

text \<open>
  The patch reader (\<open>tools/patch/parser.rs\<close>): unified diffs and the \<open>*** Begin Patch\<close> format.
  The mutable locals \<open>files\<close>, \<open>current\<close> and \<open>current_hunk\<close> of the two loops are the fields of a
  \<open>parse_state\<close>; a loop is a fold of its body over the lines.  Neither loop has a failing branch,
  so the result is the list itself.
\<close>

datatype HunkLine = Context string | Add string | Remove string

record Hunk =
  hk_old_start :: "nat option"
  hk_lines :: "HunkLine list"

record FilePatch =
  fp_path :: string
  fp_hunks :: "Hunk list"
  fp_is_new_file :: bool
  fp_is_deleted :: bool

record parse_state =
  ps_files :: "FilePatch list"
  ps_current :: "FilePatch option"
  ps_hunk :: "Hunk option"

section \<open>Helpers\<close>

definition push_hunk_line :: "Hunk \<Rightarrow> string \<Rightarrow> Hunk" where
  "push_hunk_line hunk line =
     (case strip_prefix line ''+'' of
        Some rest \<Rightarrow> hunk\<lparr>hk_lines := hk_lines hunk @ [Add rest]\<rparr>
      | None \<Rightarrow>
     (case strip_prefix line ''-'' of
        Some rest \<Rightarrow> hunk\<lparr>hk_lines := hk_lines hunk @ [Remove rest]\<rparr>
      | None \<Rightarrow>
     (case strip_prefix line '' '' of
        Some rest \<Rightarrow> hunk\<lparr>hk_lines := hk_lines hunk @ [Context rest]\<rparr>
      | None \<Rightarrow>
          if line = [] then hunk\<lparr>hk_lines := hk_lines hunk @ [Context []]\<rparr> else hunk)))"

text \<open>\<open>current_hunk.take()\<close>, pushed on the current file when there is one.\<close>

definition take_hunk :: "parse_state \<Rightarrow> parse_state" where
  "take_hunk st =
     (case ps_hunk st of
        None \<Rightarrow> st
      | Some hunk \<Rightarrow>
          st\<lparr>ps_hunk := None,
             ps_current := map_option (\<lambda>file. file\<lparr>fp_hunks := fp_hunks file @ [hunk]\<rparr>)
                             (ps_current st)\<rparr>)"

definition finish_file :: "parse_state \<Rightarrow> parse_state" where
  "finish_file st =
     (let st = take_hunk st
      in case ps_current st of
           None \<Rightarrow> st
         | Some file \<Rightarrow> st\<lparr>ps_current := None, ps_files := ps_files st @ [file]\<rparr>)"

definition parse_diff_path :: "string \<Rightarrow> string" where
  "parse_diff_path raw =
     (let trimmed = trim raw;
          path = (case strip_prefix trimmed ''a/'' of
                    Some p \<Rightarrow> p
                  | None \<Rightarrow> (case strip_prefix trimmed ''b/'' of Some p \<Rightarrow> p | None \<Rightarrow> trimmed))
      in if path = ''/dev/null'' then [] else replace_char (CHR 0x5C) (CHR ''/'') path)"

definition parse_hunk_old_start :: "string \<Rightarrow> nat option" where
  "parse_hunk_old_start header =
     Option.bind (strip_prefix header ''@@'') (\<lambda>r.
     Option.bind (strip_prefix (trim_start r) ''-'') (\<lambda>r.
     (case split_whitespace r of
        [] \<Rightarrow> None
      | old_range # _ \<Rightarrow>
          map_option (\<lambda>line. max line 1) (parse_usize (hd (split_on (CHR '','') old_range))))))"

definition new_file :: "string \<Rightarrow> bool \<Rightarrow> bool \<Rightarrow> FilePatch" where
  "new_file path is_new_file is_deleted =
     \<lparr>fp_path = path, fp_hunks = [], fp_is_new_file = is_new_file, fp_is_deleted = is_deleted\<rparr>"

definition new_hunk :: "nat option \<Rightarrow> Hunk" where
  "new_hunk old_start = \<lparr>hk_old_start = old_start, hk_lines = []\<rparr>"

definition initial_state :: parse_state where
  "initial_state = \<lparr>ps_files = [], ps_current = None, ps_hunk = None\<rparr>"

section \<open>The two formats\<close>

definition codex_header :: "string \<Rightarrow> (string \<times> bool \<times> bool) option" where
  "codex_header line =
     (case strip_prefix line ''*** Add File: '' of
        Some path \<Rightarrow> Some (path, True, False)
      | None \<Rightarrow>
     (case strip_prefix line ''*** Update File: '' of
        Some path \<Rightarrow> Some (path, False, False)
      | None \<Rightarrow>
     (case strip_prefix line ''*** Delete File: '' of
        Some path \<Rightarrow> Some (path, False, True)
      | None \<Rightarrow> None)))"

definition codex_line :: "parse_state \<Rightarrow> string \<Rightarrow> parse_state" where
  "codex_line st raw_line =
     (let line = trim_end_cr raw_line
      in if line = ''*** Begin Patch'' then st
         else if line = ''*** End Patch'' then finish_file st
         else case codex_header line of
           Some (path, is_new_file, is_deleted) \<Rightarrow>
             let st = (finish_file st)
                        \<lparr>ps_current := Some (new_file (parse_diff_path path) is_new_file is_deleted)\<rparr>
             in if is_new_file then st\<lparr>ps_hunk := Some (new_hunk (Some 1))\<rparr> else st
         | None \<Rightarrow>
             if starts_with line ''@@''
             then (take_hunk st)\<lparr>ps_hunk := Some (new_hunk (parse_hunk_old_start line))\<rparr>
             else (case ps_current st of
                     None \<Rightarrow> st
                   | Some file \<Rightarrow>
                       if fp_is_deleted file then st
                       else let hunk = (case ps_hunk st of Some h \<Rightarrow> h | None \<Rightarrow> new_hunk None)
                            in st\<lparr>ps_hunk := Some (push_hunk_line hunk line)\<rparr>))"

definition parse_codex_patch :: "string \<Rightarrow> FilePatch list" where
  "parse_codex_patch patch =
     ps_files (finish_file (foldl codex_line initial_state (lines patch)))"

definition unified_line :: "parse_state \<Rightarrow> string \<Rightarrow> parse_state" where
  "unified_line st line =
     (if starts_with line ''--- ''
      then let path = parse_diff_path (the (strip_prefix line ''--- ''))
           in (finish_file st)
                \<lparr>ps_current := Some (new_file path (contains line ''/dev/null'') False)\<rparr>
      else if starts_with line ''+++ ''
      then (case ps_current st of
              None \<Rightarrow> st
            | Some file \<Rightarrow>
                let new_path = parse_diff_path (the (strip_prefix line ''+++ ''));
                    file = (if new_path \<noteq> [] \<and> new_path \<noteq> ''/dev/null''
                            then file\<lparr>fp_path := new_path\<rparr> else file);
                    file = (if contains line ''/dev/null'' then file\<lparr>fp_is_deleted := True\<rparr> else file)
                in st\<lparr>ps_current := Some file\<rparr>)
      else if starts_with line ''@@''
      then (take_hunk st)\<lparr>ps_hunk := Some (new_hunk (parse_hunk_old_start line))\<rparr>
      else case ps_hunk st of
             None \<Rightarrow> st
           | Some hunk \<Rightarrow> st\<lparr>ps_hunk := Some (push_hunk_line hunk line)\<rparr>)"

definition parse_unified_diff :: "string \<Rightarrow> FilePatch list" where
  "parse_unified_diff patch =
     (if list_ex (\<lambda>line. trim_end_cr line = ''*** Begin Patch'') (lines patch)
      then parse_codex_patch patch
      else ps_files (finish_file (foldl unified_line initial_state (lines patch))))"

section \<open>Printing the begin-patch format\<close>

text \<open>The reference printer: one line per header, hunk header and hunk line.\<close>

definition hunk_header :: "nat option \<Rightarrow> string" where
  "hunk_header old_start =
     (case old_start of None \<Rightarrow> ''@@'' | Some n \<Rightarrow> ''@@ -'' @ decimal n @ '' @@'')"

fun hunk_line_text :: "HunkLine \<Rightarrow> string" where
  "hunk_line_text (Context s) = CHR '' '' # s"
| "hunk_line_text (Add s) = CHR ''+'' # s"
| "hunk_line_text (Remove s) = CHR ''-'' # s"

definition hunk_text :: "Hunk \<Rightarrow> string list" where
  "hunk_text h = hunk_header (hk_old_start h) # map hunk_line_text (hk_lines h)"

definition add_header :: "string \<Rightarrow> string" where
  "add_header p = ''*** Add File: '' @ p"

definition update_header :: "string \<Rightarrow> string" where
  "update_header p = ''*** Update File: '' @ p"

definition delete_header :: "string \<Rightarrow> string" where
  "delete_header p = ''*** Delete File: '' @ p"

definition file_text :: "FilePatch \<Rightarrow> string list" where
  "file_text f =
     (if fp_is_new_file f
      then add_header (fp_path f) # map hunk_line_text (hk_lines (hd (fp_hunks f)))
           @ concat (map hunk_text (tl (fp_hunks f)))
      else if fp_is_deleted f then [delete_header (fp_path f)]
      else update_header (fp_path f) # concat (map hunk_text (fp_hunks f)))"

definition patch_lines :: "FilePatch list \<Rightarrow> string list" where
  "patch_lines fs = [''*** Begin Patch''] @ concat (map file_text fs) @ [''*** End Patch'']"

definition print_patch :: "string \<Rightarrow> FilePatch list \<Rightarrow> string" where
  "print_patch eol fs = terminated eol (patch_lines fs)"

text \<open>What the format can express.\<close>

definition clean_hunk_line :: "HunkLine \<Rightarrow> bool" where
  "clean_hunk_line l = (case l of Context s \<Rightarrow> clean_line s | Add s \<Rightarrow> clean_line s
                                | Remove s \<Rightarrow> clean_line s)"

definition printable_hunk :: "Hunk \<Rightarrow> bool" where
  "printable_hunk h =
     (list_all clean_hunk_line (hk_lines h)
      \<and> (case hk_old_start h of None \<Rightarrow> True | Some n \<Rightarrow> 1 \<le> n \<and> n \<le> u64_max))"

definition printable_file :: "FilePatch \<Rightarrow> bool" where
  "printable_file f =
     (clean_line (fp_path f) \<and> parse_diff_path (fp_path f) = fp_path f
      \<and> list_all printable_hunk (fp_hunks f)
      \<and> (fp_is_new_file f \<longrightarrow> \<not> fp_is_deleted f \<and> fp_hunks f \<noteq> []
            \<and> hk_old_start (hd (fp_hunks f)) = Some 1)
      \<and> (fp_is_deleted f \<longrightarrow> fp_hunks f = []))"

section \<open>Reading back what was printed\<close>

lemma hunk_header_start:
  assumes "case start of None \<Rightarrow> True | Some n \<Rightarrow> 1 \<le> n \<and> n \<le> u64_max"
  shows "parse_hunk_old_start (hunk_header start) = start"
proof (cases start)
  case None
  then show ?thesis
    by (simp add: parse_hunk_old_start_def hunk_header_def trim_start.simps [of "[]"])
next
  case (Some n)
  have digits: "\<forall>c \<in> set (decimal n). 33 \<le> code c \<and> code c < 128"
    using decimal_digits [of _ n] by (fastforce simp: is_ascii_digit_code)
  have t: "trim_start ('' -'' @ r) = CHR ''-'' # r" for r
  proof -
    have "ws_len (CHR '' '' # x) = 1" "ws_len (CHR ''-'' # x) = 0" for x
      by (simp_all add: ws_len_def code_def split: list.split)
    then show ?thesis
      by (simp add: trim_start.simps [of "CHR '' '' # x" for x] trim_start.simps [of "CHR ''-'' # x" for x])
  qed
  have comma: "CHR '','' \<notin> set (decimal n)"
    using decimal_digits [of "CHR '',''" n] by (auto simp: is_ascii_digit_code code_def)
  have "split_whitespace (decimal n @ CHR '' '' # ''@@'') = decimal n # split_whitespace ''@@''"
    using digits by (rule split_whitespace_word [rotated]) simp
  then show ?thesis
    using Some assms t [of "decimal n @ '' @@''"]
    by (simp add: parse_hunk_old_start_def hunk_header_def split_on_no_sep [OF comma]
        parse_usize_decimal)
qed

lemma clean_decimal: "clean_line (decimal n @ '' @@'')"
  using decimal_digits [of LF n]
  by (auto simp: clean_line_def is_ascii_digit_code code_def LF_CR_lit)

lemma codex_line_hunk_header:
  assumes "case start of None \<Rightarrow> True | Some n \<Rightarrow> 1 \<le> n \<and> n \<le> u64_max"
  shows "codex_line st (hunk_header start) = (take_hunk st)\<lparr>ps_hunk := Some (new_hunk start)\<rparr>"
proof -
  have c: "clean_line (hunk_header start)"
    using clean_decimal lit_neq_LF_CR [symmetric]
    by (simp add: hunk_header_def clean_line_def split: option.split)
  obtain r where r: "hunk_header start = CHR ''@'' # CHR ''@'' # r"
    by (cases start) (simp_all add: hunk_header_def)
  show ?thesis
    using hunk_header_start [OF assms] clean_line_trim_cr [OF c]
    by (simp add: codex_line_def codex_header_def starts_with_def r)
qed

lemma codex_line_body:
  assumes "clean_hunk_line l" and "ps_current st = Some f" "\<not> fp_is_deleted f"
    and "ps_hunk st = Some h"
  shows "codex_line st (hunk_line_text l) = st\<lparr>ps_hunk := Some (h\<lparr>hk_lines := hk_lines h @ [l]\<rparr>)\<rparr>"
proof -
  have "trim_end_cr (hunk_line_text l) = hunk_line_text l"
    using assms(1) by (intro clean_line_trim_cr) (cases l, simp_all add: clean_hunk_line_def)
  then show ?thesis
    using assms(2-) by (cases l)
      (simp_all add: codex_line_def codex_header_def starts_with_def push_hunk_line_def)
qed

lemma codex_lines_body:
  "list_all clean_hunk_line ls \<Longrightarrow> ps_current st = Some f \<Longrightarrow> \<not> fp_is_deleted f \<Longrightarrow>
   ps_hunk st = Some h \<Longrightarrow>
   foldl codex_line st (map hunk_line_text ls) = st\<lparr>ps_hunk := Some (h\<lparr>hk_lines := hk_lines h @ ls\<rparr>)\<rparr>"
proof (induction ls arbitrary: st h)
  case (Cons l ls)
  then show ?case by (simp add: codex_line_body)
qed simp

lemma take_hunk_simps [simp]:
  "ps_files (take_hunk st) = ps_files st"
  "ps_hunk (take_hunk st) = None"
  "ps_current (take_hunk (st\<lparr>ps_hunk := Some h\<rparr>))
     = map_option (\<lambda>f. f\<lparr>fp_hunks := fp_hunks f @ [h]\<rparr>) (ps_current st)"
  by (simp_all add: take_hunk_def split: option.split)

text \<open>The hunks of an open file: afterwards the file, once its last hunk is taken, has them all.\<close>

lemma codex_hunks:
  "list_all printable_hunk hs \<Longrightarrow> ps_current (take_hunk st) = Some f \<Longrightarrow> \<not> fp_is_deleted f \<Longrightarrow>
   take_hunk (foldl codex_line st (concat (map hunk_text hs)))
     = (take_hunk st)\<lparr>ps_current := Some (f\<lparr>fp_hunks := fp_hunks f @ hs\<rparr>)\<rparr>"
proof (induction hs arbitrary: st f)
  case Nil
  then show ?case by (cases "take_hunk st") simp
next
  case (Cons h hs)
  define st' where "st' = (take_hunk st)\<lparr>ps_hunk := Some h\<rparr>"
  have "foldl codex_line st (hunk_text h) = st'"
    using Cons.prems codex_lines_body [of "hk_lines h" "(take_hunk st)\<lparr>ps_hunk := Some (new_hunk (hk_old_start h))\<rparr>" f]
    by (simp add: hunk_text_def codex_line_hunk_header printable_hunk_def st'_def new_hunk_def)
  moreover have "ps_current (take_hunk st') = Some (f\<lparr>fp_hunks := fp_hunks f @ [h]\<rparr>)"
    using Cons.prems(2) by (simp add: st'_def)
  moreover have "take_hunk st' = (take_hunk st)\<lparr>ps_current := Some (f\<lparr>fp_hunks := fp_hunks f @ [h]\<rparr>)\<rparr>"
    using Cons.prems(2) take_hunk_simps(2) [of st] by (cases "take_hunk st") (simp add: st'_def take_hunk_def)
  ultimately show ?case
    using Cons by simp
qed

lemma finish_file_take: "finish_file st = finish_file (take_hunk st)"
  by (simp add: finish_file_def take_hunk_def split: option.split)

lemma finish_file_simps [simp]:
  "ps_current (finish_file st) = None"
  "ps_hunk (finish_file st) = None"
  "finish_file (finish_file st) = finish_file st"
  by (auto simp: finish_file_def take_hunk_def Let_def split: option.splits)


lemma codex_header_simps:
  "codex_header (add_header p) = Some (p, True, False)"
  "codex_header (update_header p) = Some (p, False, False)"
  "codex_header (delete_header p) = Some (p, False, True)"
  by (simp_all add: codex_header_def add_header_def update_header_def delete_header_def)

lemma codex_file_header:
  assumes "clean_line p" "parse_diff_path p = p"
  shows "codex_line st (add_header p)
           = (finish_file st)\<lparr>ps_current := Some (new_file p True False),
                              ps_hunk := Some (new_hunk (Some 1))\<rparr>"
    and "codex_line st (update_header p)
           = (finish_file st)\<lparr>ps_current := Some (new_file p False False)\<rparr>"
    and "codex_line st (delete_header p)
           = (finish_file st)\<lparr>ps_current := Some (new_file p False True)\<rparr>"
proof -
  have c: "clean_line (s @ p)" if "LF \<notin> set s" "s \<noteq> []" "last s \<noteq> CR" for s
    using that assms(1) by (cases "p = []") (simp_all add: clean_line_def)
  have "clean_line (add_header p)" "clean_line (update_header p)" "clean_line (delete_header p)"
    unfolding add_header_def update_header_def delete_header_def
    by (rule c; simp add: LF_CR_lit)+
  note trims = this [THEN clean_line_trim_cr]
  have b: "add_header p \<noteq> ''*** Begin Patch''" "add_header p \<noteq> ''*** End Patch''"
    "update_header p \<noteq> ''*** Begin Patch''" "update_header p \<noteq> ''*** End Patch''"
    "delete_header p \<noteq> ''*** Begin Patch''" "delete_header p \<noteq> ''*** End Patch''"
    by (simp_all add: add_header_def update_header_def delete_header_def)
  show "codex_line st (add_header p)
           = (finish_file st)\<lparr>ps_current := Some (new_file p True False),
                              ps_hunk := Some (new_hunk (Some 1))\<rparr>"
    "codex_line st (update_header p)
           = (finish_file st)\<lparr>ps_current := Some (new_file p False False)\<rparr>"
    "codex_line st (delete_header p)
           = (finish_file st)\<lparr>ps_current := Some (new_file p False True)\<rparr>"
    by (simp_all add: codex_line_def trims codex_header_simps b assms(2))
qed

lemma finish_file_open:
  "ps_current (take_hunk st) = Some f \<Longrightarrow>
   finish_file st = (take_hunk st)\<lparr>ps_current := None, ps_files := ps_files st @ [f]\<rparr>"
  by (simp add: finish_file_def)

lemma new_hunk_lines: "(new_hunk start)\<lparr>hk_lines := ls\<rparr> = \<lparr>hk_old_start = start, hk_lines = ls\<rparr>"
  by (simp add: new_hunk_def)

lemma codex_file_open:
  assumes f: "printable_file f" and fin: "fin = finish_file st"
  shows "take_hunk (foldl codex_line st (file_text f)) = fin\<lparr>ps_current := Some f\<rparr>"
proof -
  define p where "p = fp_path f"
  have p: "clean_line p" "parse_diff_path p = p"
    using f by (simp_all add: printable_file_def p_def)
  note hdr = codex_file_header [OF p, of st, folded fin]
  have empty: "ps_current fin = None" "ps_hunk fin = None" by (simp_all add: fin)
  have th: "take_hunk (fin\<lparr>ps_current := c\<rparr>) = fin\<lparr>ps_current := c\<rparr>" for c
    using empty by (simp add: take_hunk_def)
  show ?thesis
  proof (cases "fp_is_new_file f")
    case True
    then obtain h hs where hs: "fp_hunks f = h # hs"
      using f by (cases "fp_hunks f") (auto simp: printable_file_def)
    define g where "g = new_file p True False"
    define st1 where "st1 = fin\<lparr>ps_current := Some g, ps_hunk := Some h\<rparr>"
    have h: "list_all clean_hunk_line (hk_lines h)" "hk_old_start h = Some 1"
      "list_all printable_hunk hs" "\<not> fp_is_deleted f"
      using f True hs by (simp_all add: printable_file_def printable_hunk_def)
    have "foldl codex_line st (file_text f) = foldl codex_line st1 (concat (map hunk_text hs))"
      using True hs h(1,2) hdr(1)
        codex_lines_body [of "hk_lines h" "fin\<lparr>ps_current := Some g, ps_hunk := Some (new_hunk (Some 1))\<rparr>" g]
      by (cases h) (simp add: file_text_def st1_def g_def new_file_def new_hunk_def flip: p_def)
    moreover have "take_hunk st1 = fin\<lparr>ps_current := Some (g\<lparr>fp_hunks := [h]\<rparr>)\<rparr>"
      using empty by (simp add: st1_def take_hunk_def g_def new_file_def)
    ultimately show ?thesis
      using codex_hunks [OF h(3), of st1 "g\<lparr>fp_hunks := [h]\<rparr>"] True h(4) hs
      by (simp add: g_def new_file_def p_def)
  next
    case upd: False
    show ?thesis
    proof (cases "fp_is_deleted f")
      case True
      with upd f have "f = new_file p False True"
        by (simp add: printable_file_def new_file_def p_def)
      then show ?thesis by (simp add: file_text_def hdr(3) th new_file_def)
    next
      case False
      define g where "g = new_file p False False"
      have "list_all printable_hunk (fp_hunks f)"
        using f by (simp add: printable_file_def)
      from codex_hunks [OF this, of "fin\<lparr>ps_current := Some g\<rparr>" g] upd False
      show ?thesis
        by (simp add: file_text_def hdr(2) th g_def new_file_def p_def flip: p_def)
    qed
  qed
qed

lemma codex_file:
  assumes "printable_file f"
  shows "finish_file (foldl codex_line st (file_text f))
           = (finish_file st)\<lparr>ps_files := ps_files (finish_file st) @ [f]\<rparr>"
proof -
  have "take_hunk (foldl codex_line st (file_text f)) = (finish_file st)\<lparr>ps_current := Some f\<rparr>"
    using assms by (rule codex_file_open) simp
  then show ?thesis
    using finish_file_simps(1) [of st] take_hunk_simps(1) [of "foldl codex_line st (file_text f)"]
    by (cases "finish_file st") (simp add: finish_file_open)
qed

lemma codex_files:
  "list_all printable_file fs \<Longrightarrow>
   ps_files (finish_file (foldl codex_line st (concat (map file_text fs))))
     = ps_files (finish_file st) @ fs"
proof (induction fs arbitrary: st)
  case (Cons f fs)
  then show ?case using codex_file [of f st] by simp
qed simp

lemma clean_patch_lines:
  assumes "list_all printable_file fs"
  shows "\<forall>l \<in> set (patch_lines fs). clean_line l"
proof -
  have hdr: "clean_line (s @ p)" if "clean_line p" "LF \<notin> set s" "s \<noteq> []" "last s \<noteq> CR" for s p
    using that by (cases "p = []") (simp_all add: clean_line_def)
  have heads: "clean_line (add_header p)" "clean_line (update_header p)" "clean_line (delete_header p)"
    if "clean_line p" for p
    unfolding add_header_def update_header_def delete_header_def
    by (rule hdr [OF that]; simp add: LF_CR_lit)+
  have body: "\<forall>l \<in> set (map hunk_line_text ls). clean_line l" if "list_all clean_hunk_line ls" for ls
  proof -
    have "clean_line (hunk_line_text l)" if "clean_hunk_line l" for l
      using that by (cases l) (simp_all add: clean_hunk_line_def)
    with that show ?thesis by (auto simp: list_all_iff)
  qed
  have hh: "clean_line (hunk_header start)" for start
    using clean_decimal lit_neq_LF_CR [symmetric]
    by (simp add: hunk_header_def clean_line_def split: option.split)
  have hunk: "\<forall>l \<in> set (hunk_text h). clean_line l" if "printable_hunk h" for h
    using that hh body [of "hk_lines h"] by (simp add: hunk_text_def printable_hunk_def)
  have "\<forall>l \<in> set (file_text f). clean_line l" if f: "printable_file f" for f
  proof -
    have hs: "\<forall>h \<in> set (fp_hunks f). printable_hunk h" and p: "clean_line (fp_path f)"
      using f by (simp_all add: printable_file_def list_all_iff)
    have all: "\<forall>l \<in> set (concat (map hunk_text hs)). clean_line l" if "set hs \<subseteq> set (fp_hunks f)" for hs
      using hunk hs that by auto
    have tl: "set (tl (fp_hunks f)) \<subseteq> set (fp_hunks f)"
      by (cases "fp_hunks f") auto
    have hd: "\<forall>l \<in> set (map hunk_line_text (hk_lines (hd (fp_hunks f)))). clean_line l"
      if "fp_is_new_file f"
      using that f hs by (intro body) (simp add: printable_file_def printable_hunk_def)
    show ?thesis
      using hd all [OF tl] all [OF subset_refl] heads [OF p] by (auto simp: file_text_def)
  qed
  moreover have "clean_line ''*** Begin Patch''" "clean_line ''*** End Patch''"
    by (simp_all add: clean_line_def LF_CR_lit)
  ultimately show ?thesis
    using assms by (auto simp: patch_lines_def list_all_iff)
qed

text \<open>
  C40. Reading inverts printing: every list of file patches the \<open>*** Begin Patch\<close> format can express
  (new files, deletions, and updates with any hunk lines and line numbers) is read back exactly
  from its text, with either line ending.
\<close>

theorem codex_patch_roundtrip:
  assumes "list_all printable_file fs" and "eol \<in> {[LF], [CR, LF]}"
  shows "parse_unified_diff (print_patch eol fs) = fs"
proof -
  have ls: "lines (print_patch eol fs) = patch_lines fs"
    unfolding print_patch_def using clean_patch_lines [OF assms(1)] assms(2)
    by (rule lines_terminated)
  have marks: "trim_end_cr ''*** Begin Patch'' = ''*** Begin Patch''"
    "trim_end_cr ''*** End Patch'' = ''*** End Patch''"
    by (simp_all add: trim_end_cr_def LF_CR_lit)
  have "foldl codex_line initial_state (patch_lines fs)
          = finish_file (foldl codex_line initial_state (concat (map file_text fs)))"
    by (simp add: patch_lines_def codex_line_def marks)
  then have "parse_codex_patch (print_patch eol fs) = fs"
    using codex_files [OF assms(1), of initial_state]
    by (simp add: parse_codex_patch_def ls) (simp add: finish_file_def take_hunk_def initial_state_def)
  moreover have "list_ex (\<lambda>line. trim_end_cr line = ''*** Begin Patch'') (lines (print_patch eol fs))"
    unfolding ls by (simp add: patch_lines_def marks)
  ultimately show ?thesis by (simp add: parse_unified_diff_def)
qed

definition sample_patch :: "FilePatch list" where
  "sample_patch =
     [\<lparr>fp_path = ''src/a.rs'', fp_hunks = [\<lparr>hk_old_start = None,
         hk_lines = [Context ''fn f'', Remove ''--- x'', Add ''+++ y'']\<rparr>],
       fp_is_new_file = False, fp_is_deleted = False\<rparr>,
      \<lparr>fp_path = ''b'', fp_hunks = [], fp_is_new_file = False, fp_is_deleted = True\<rparr>]"

lemma sample_printable: "list_all printable_file sample_patch"
proof -
  have "parse_diff_path ''src/a.rs'' = ''src/a.rs''" "parse_diff_path ''b'' = ''b''"
    by code_simp+
  then show ?thesis
    by (simp add: sample_patch_def printable_file_def printable_hunk_def clean_hunk_line_def
        clean_line_def LF_CR_lit)
qed

theorem codex_patch_roundtrip_witness:
  "parse_unified_diff (print_patch [LF] sample_patch) = sample_patch"
  by (rule codex_patch_roundtrip [OF sample_printable]) simp

text \<open>
  The unified format has no such round trip: a removed line whose text starts with two dashes
  and a blank is printed as three dashes and a blank, which the reader takes for the header of a
  new file, so that one hunk of one file comes back as two files.
\<close>

lemma unified_removed_dashes_split_file:
  "parse_unified_diff (terminated [LF]
     [''--- a/q.sql'', ''+++ b/q.sql'', ''@@ -1,2 +1,1 @@'', '' select 1;'', ''--- note''])
   = [\<lparr>fp_path = ''q.sql'',
       fp_hunks = [\<lparr>hk_old_start = Some 1, hk_lines = [Context ''select 1;'']\<rparr>],
       fp_is_new_file = False, fp_is_deleted = False\<rparr>,
      \<lparr>fp_path = ''note'', fp_hunks = [], fp_is_new_file = False, fp_is_deleted = False\<rparr>]"
proof -
  have paths: "parse_diff_path ''a/q.sql'' = ''q.sql''" "parse_diff_path ''b/q.sql'' = ''q.sql''"
    "parse_diff_path ''note'' = ''note''"
    by code_simp+
  have split: "trim_start '' -1,2 +1,1 @@'' = ''-1,2 +1,1 @@''"
    "split_whitespace ''1,2 +1,1 @@'' = [''1,2'', ''+1,1'', ''@@'']"
    by code_simp+
  have "parse_usize ''1'' = Some 1"
    by (simp add: parse_usize_def is_ascii_digit_code code_def u64_max_def)
  then have start: "parse_hunk_old_start ''@@ -1,2 +1,1 @@'' = Some 1"
    by (simp add: parse_hunk_old_start_def split)
  have ls: "lines (terminated [LF]
       [''--- a/q.sql'', ''+++ b/q.sql'', ''@@ -1,2 +1,1 @@'', '' select 1;'', ''--- note''])
     = [''--- a/q.sql'', ''+++ b/q.sql'', ''@@ -1,2 +1,1 @@'', '' select 1;'', ''--- note'']"
    by (rule lines_terminated) (simp_all add: clean_line_def LF_CR_lit)
  show ?thesis
    unfolding parse_unified_diff_def ls
    by (simp add: trim_end_cr_def LF_CR_lit unified_line_def starts_with_def paths start
        initial_state_def finish_file_def take_hunk_def new_file_def new_hunk_def push_hunk_line_def)
qed

end
