(* ===== verification/Patch_Hunk.thy ===== *)
theory Patch_Hunk
  imports Patch_Parser
begin

text \<open>
  Applying the hunks of one file (\<open>tools/patch/hunk.rs\<close>).  The locals \<open>lines\<close>, \<open>offset\<close> and
  \<open>issues\<close> of \<open>apply_hunks\<close> are the fields of a \<open>hunk_state\<close>.  Errors carry the data of the
  code's error details (positions, candidate lines, previews and proposed edits); the fixed
  advice strings in them are left out.
\<close>

section \<open>Finding the place of a hunk\<close>

definition hunk_matches_at :: "string list \<Rightarrow> string list \<Rightarrow> nat \<Rightarrow> bool" where
  "hunk_matches_at ls pattern position =
     (position \<le> length ls
      \<and> length pattern \<le> length ls - position
      \<and> list_all (\<lambda>(actual, expected). actual = expected)
          (zip (take (length pattern) (drop position ls)) pattern))"

record nearby =
  nb_line :: nat
  nb_start_line :: nat
  nb_end_line :: nat
  nb_preview :: "string list"

definition nearby_contexts :: "string list \<Rightarrow> nat list \<Rightarrow> nat \<Rightarrow> nearby list" where
  "nearby_contexts ls positions radius =
     map (\<lambda>position.
            let start = position - radius;
                fin = min (sat_add position (radius + 1)) (length ls)
            in \<lparr>nb_line = position + 1, nb_start_line = start + 1, nb_end_line = fin,
                nb_preview = take (fin - start) (drop start ls)\<rparr>)
       (take 8 positions)"

record candidate_edit =
  ce_action_id :: "nat \<times> nat"
  ce_path :: string
  ce_candidate_line :: nat
  ce_start_line :: nat
  ce_end_line :: nat
  ce_expected_text :: string
  ce_new_text :: string

datatype recovery =
    ApplyCandidateRanges "candidate_edit list"
  | SelectCandidateRange "nat list"

datatype hunk_error =
    PatchContextNotFound nat "nat option" "string list" "nearby list" "(nat \<times> nat) option"
  | PatchContextAmbiguous nat "nat list" "nearby list" recovery

definition hunk_candidates :: "string list \<Rightarrow> string list \<Rightarrow> nat list" where
  "hunk_candidates ls pattern =
     (if length pattern \<le> length ls
      then filter (hunk_matches_at ls pattern) [0..<Suc (length ls - length pattern)]
      else [])"

definition candidate_recovery ::
    "string list \<Rightarrow> string list \<Rightarrow> nat \<Rightarrow> string option \<Rightarrow> nat list \<Rightarrow> recovery" where
  "candidate_recovery pattern replacement hunk_index file candidates =
     (case file of
        Some path \<Rightarrow>
          ApplyCandidateRanges
            (map (\<lambda>(candidate_index, position).
                    \<lparr>ce_action_id = (hunk_index, candidate_index + 1), ce_path = path,
                     ce_candidate_line = position + 1,
                     ce_start_line = position + 1, ce_end_line = position + length pattern,
                     ce_expected_text = join [LF] pattern, ce_new_text = join [LF] replacement\<rparr>)
               (enumerate 0 (take 8 candidates)))
      | None \<Rightarrow> SelectCandidateRange (map (\<lambda>position. position + 1) candidates))"

definition find_hunk_position ::
    "string list \<Rightarrow> string list \<Rightarrow> string list \<Rightarrow> nat option \<Rightarrow> nat \<Rightarrow> string option
       \<Rightarrow> hunk_error + nat" where
  "find_hunk_position ls pattern replacement preferred hunk_index file =
     (if pattern = []
      then Inr (min (case preferred of Some p \<Rightarrow> p | None \<Rightarrow> length ls) (length ls))
      else if (case preferred of Some p \<Rightarrow> hunk_matches_at ls pattern p | None \<Rightarrow> False)
      then Inr (the preferred)
      else let candidates = hunk_candidates ls pattern
           in case candidates of
                [position] \<Rightarrow> Inr position
              | [] \<Rightarrow> Inl (PatchContextNotFound hunk_index
                        (map_option (\<lambda>line. line + 1) preferred)
                        (take 8 pattern)
                        (case preferred of
                           Some position \<Rightarrow> nearby_contexts ls [position] 3 | None \<Rightarrow> [])
                        (map_option (\<lambda>line. (max (line - 3) 1, sat_add line 4)) preferred))
              | _ \<Rightarrow> Inl (PatchContextAmbiguous hunk_index
                        (map (\<lambda>position. position + 1) candidates)
                        (nearby_contexts ls candidates 3)
                        (candidate_recovery pattern replacement hunk_index file candidates)))"

section \<open>Applying hunks\<close>

definition hunk_old :: "HunkLine list \<Rightarrow> string list" where
  "hunk_old ls =
     concat (map (\<lambda>l. case l of Context s \<Rightarrow> [s] | Remove s \<Rightarrow> [s] | Add _ \<Rightarrow> []) ls)"

definition hunk_new :: "HunkLine list \<Rightarrow> string list" where
  "hunk_new ls =
     concat (map (\<lambda>l. case l of Context s \<Rightarrow> [s] | Add s \<Rightarrow> [s] | Remove _ \<Rightarrow> []) ls)"

definition wrap_i64 :: "int \<Rightarrow> int" where
  "wrap_i64 i = sint (word_of_int i :: 64 word)"

definition remove_nth :: "nat \<Rightarrow> 'a list \<Rightarrow> 'a list" where
  "remove_nth i xs = take i xs @ drop (Suc i) xs"

definition insert_nth :: "nat \<Rightarrow> 'a \<Rightarrow> 'a list \<Rightarrow> 'a list" where
  "insert_nth i x xs = take i xs @ x # drop i xs"

text \<open>The inner loop; the accumulator is \<open>(lines, idx, added, removed)\<close>.\<close>

fun hunk_line_step ::
    "string list \<times> nat \<times> int \<times> int \<Rightarrow> HunkLine \<Rightarrow> string list \<times> nat \<times> int \<times> int" where
  "hunk_line_step (ls, idx, added, removed) (Context _) = (ls, idx + 1, added, removed)"
| "hunk_line_step (ls, idx, added, removed) (Remove _) =
     (if idx < length ls then (remove_nth idx ls, idx, added, removed + 1)
      else (ls, idx, added, removed))"
| "hunk_line_step (ls, idx, added, removed) (Add s) = (insert_nth idx s ls, idx + 1, added + 1, removed)"

record hunk_state =
  hs_lines :: "string list"
  hs_offset :: int
  hs_issues :: "hunk_error list"

definition preferred_position :: "hunk_state \<Rightarrow> Hunk \<Rightarrow> nat option" where
  "preferred_position st hunk =
     map_option (\<lambda>line. nat (min (max (wrap_i64 (int (line - 1) + hs_offset st)) 0)
                                 (int (length (hs_lines st)))))
       (hk_old_start hunk)"

definition apply_hunk :: "string option \<Rightarrow> hunk_state \<Rightarrow> nat \<times> Hunk \<Rightarrow> hunk_state" where
  "apply_hunk file st indexed =
     (let (hunk_index, hunk) = indexed
      in case find_hunk_position (hs_lines st) (hunk_old (hk_lines hunk)) (hunk_new (hk_lines hunk))
                (preferred_position st hunk) hunk_index file of
           Inl error \<Rightarrow> st\<lparr>hs_issues := hs_issues st @ [error]\<rparr>
         | Inr pos \<Rightarrow>
             let (ls, _, added, removed) =
                   foldl hunk_line_step (hs_lines st, pos, 0, 0) (hk_lines hunk)
             in st\<lparr>hs_lines := ls, hs_offset := hs_offset st + (added - removed)\<rparr>)"

datatype apply_error = PatchIssue hunk_error | PatchPreflightFailed "hunk_error list"

definition line_ending_of :: "string \<Rightarrow> string" where
  "line_ending_of original = (if contains original [CR, LF] then [CR, LF] else [LF])"

definition original_lines :: "string \<Rightarrow> string list" where
  "original_lines original =
     (if original = [] then [] else map trim_end_cr (split_terminator LF original))"

definition render_output :: "string \<Rightarrow> string list \<Rightarrow> string" where
  "render_output original ls =
     (let eol = line_ending_of original;
          output = join eol ls
      in if output \<noteq> [] \<and> (ends_with original [LF] \<or> original = [])
         then output @ eol else output)"

definition apply_hunks :: "string \<Rightarrow> Hunk list \<Rightarrow> string option \<Rightarrow> apply_error + string" where
  "apply_hunks original hunks file =
     (let st = foldl (apply_hunk file)
                 \<lparr>hs_lines = original_lines original, hs_offset = 0, hs_issues = []\<rparr>
                 (enumerate 0 hunks)
      in case hs_issues st of
           [issue] \<Rightarrow> Inl (PatchIssue issue)
         | [] \<Rightarrow> Inr (render_output original (hs_lines st))
         | issues \<Rightarrow> Inl (PatchPreflightFailed issues))"

section \<open>A hunk at its place is a splice\<close>

lemma list_all_eq_zip:
  "length xs = length ys \<Longrightarrow> list_all (\<lambda>(a, b). a = b) (zip xs ys) \<longleftrightarrow> xs = ys"
  by (induction xs ys rule: list_induct2) auto

lemma hunk_matches_at_iff:
  "hunk_matches_at ls pattern p
   \<longleftrightarrow> (\<exists>a b. ls = a @ pattern @ b \<and> length a = p)"
proof
  assume m: "hunk_matches_at ls pattern p"
  then have len: "p \<le> length ls" "length pattern \<le> length (drop p ls)"
    by (simp_all add: hunk_matches_at_def)
  have "length (take (length pattern) (drop p ls)) = length pattern"
    using len by simp
  with m have "take (length pattern) (drop p ls) = pattern"
    unfolding hunk_matches_at_def using list_all_eq_zip by blast
  then have "ls = take p ls @ pattern @ drop (length pattern) (drop p ls)"
    by (metis append_take_drop_id)
  with len(1) show "\<exists>a b. ls = a @ pattern @ b \<and> length a = p"
    by (metis length_take min.absorb2)
next
  assume "\<exists>a b. ls = a @ pattern @ b \<and> length a = p"
  then show "hunk_matches_at ls pattern p"
    by (auto simp: hunk_matches_at_def list_all_eq_zip)
qed

lemma hunk_old_simps [simp]:
  "hunk_old [] = []" "hunk_old (Context s # ls) = s # hunk_old ls"
  "hunk_old (Remove s # ls) = s # hunk_old ls" "hunk_old (Add s # ls) = hunk_old ls"
  by (simp_all add: hunk_old_def)

lemma hunk_new_simps [simp]:
  "hunk_new [] = []" "hunk_new (Context s # ls) = s # hunk_new ls"
  "hunk_new (Add s # ls) = s # hunk_new ls" "hunk_new (Remove s # ls) = hunk_new ls"
  by (simp_all add: hunk_new_def)

definition adds :: "HunkLine list \<Rightarrow> nat" where
  "adds ls = length (filter (\<lambda>l. case l of Add _ \<Rightarrow> True | _ \<Rightarrow> False) ls)"

definition removes :: "HunkLine list \<Rightarrow> nat" where
  "removes ls = length (filter (\<lambda>l. case l of Remove _ \<Rightarrow> True | _ \<Rightarrow> False) ls)"

lemma adds_removes: "length (hunk_new hl) + removes hl = length (hunk_old hl) + adds hl"
proof (induction hl)
  case (Cons l hl)
  then show ?case by (cases l) (simp_all add: adds_def removes_def)
qed (simp add: adds_def removes_def)

lemma hunk_lines_splice:
  "foldl hunk_line_step (a @ hunk_old hl @ b, length a, added, removed) hl
     = (a @ hunk_new hl @ b, length a + length (hunk_new hl),
        added + int (adds hl), removed + int (removes hl))"
proof (induction hl arbitrary: a added removed)
  case (Cons l hl)
  show ?case
  proof (cases l)
    case (Context s)
    then show ?thesis using Cons [of "a @ [s]" added removed] by (simp add: adds_def removes_def)
  next
    case (Add s)
    then show ?thesis
      using Cons [of "a @ [s]" "added + 1" removed] by (simp add: insert_nth_def adds_def removes_def)
  next
    case (Remove s)
    then show ?thesis
      using Cons [of a added "removed + 1"] by (simp add: remove_nth_def adds_def removes_def)
  qed
qed (simp add: adds_def removes_def)

section \<open>The contract of a locator\<close>

text \<open>
  What \<open>apply_hunks\<close> relies on: a located pattern lies there, and a preferred position is taken
  when the pattern lies at it.
\<close>

locale hunk_locator =
  fixes locate :: "string list \<Rightarrow> string list \<Rightarrow> nat option \<Rightarrow> 'e + nat"
  assumes located: "locate ls pat pref = Inr p \<Longrightarrow> \<exists>a b. ls = a @ pat @ b \<and> length a = p"
    and preferred: "ls = a @ pat @ b \<Longrightarrow> locate ls pat (Some (length a)) = Inr (length a)"
begin

lemma located_splice:
  assumes "locate ls (hunk_old hl) pref = Inr p"
  shows "\<exists>a b. ls = a @ hunk_old hl @ b
      \<and> foldl hunk_line_step (ls, p, 0, 0) hl
           = (a @ hunk_new hl @ b, p + length (hunk_new hl), int (adds hl), int (removes hl))"
  using located [OF assms] hunk_lines_splice [of _ hl _ 0 0] by auto

lemma preferred_splice:
  "locate (a @ hunk_old hl @ b) (hunk_old hl) (Some (length a)) = Inr (length a)
   \<and> foldl hunk_line_step (a @ hunk_old hl @ b, length a, 0, 0) hl
       = (a @ hunk_new hl @ b, length a + length (hunk_new hl), int (adds hl), int (removes hl))"
  using preferred [OF refl, of a "hunk_old hl" b] hunk_lines_splice [of a hl b 0 0] by auto

end

lemma hunk_candidates_iff:
  "p \<in> set (hunk_candidates ls pat) \<longleftrightarrow> hunk_matches_at ls pat p"
proof -
  have "p < Suc (length ls - length pat)" "length pat \<le> length ls" if "hunk_matches_at ls pat p"
    using that by (auto simp: hunk_matches_at_iff)
  then show ?thesis by (auto simp: hunk_candidates_def simp del: upt_Suc)
qed

lemma hunk_candidates_distinct: "distinct (hunk_candidates ls pat)"
  by (simp add: hunk_candidates_def)

interpretation finder: hunk_locator
  "\<lambda>ls pat pref. find_hunk_position ls pat replacement pref hunk_index path"
  for replacement hunk_index path
proof
  fix ls pat pref p
  assume f: "find_hunk_position ls pat replacement pref hunk_index path = Inr p"
  show "\<exists>a b. ls = a @ pat @ b \<and> length a = p"
  proof (cases "pat = []")
    case True
    with f have "p \<le> length ls" by (auto simp: find_hunk_position_def)
    with True show ?thesis
      by (intro exI [of _ "take p ls"] exI [of _ "drop p ls"]) simp
  next
    case False
    have "hunk_matches_at ls pat p"
      using f False hunk_candidates_iff [of p ls pat]
      by (auto simp: find_hunk_position_def Let_def split: if_splits option.splits list.splits)
    then show ?thesis by (simp add: hunk_matches_at_iff)
  qed
next
  fix ls a pat b
  assume ls: "ls = a @ pat @ (b :: string list)"
  then have "hunk_matches_at ls pat (length a)" by (auto simp: hunk_matches_at_iff)
  with ls show "find_hunk_position ls pat replacement (Some (length a)) hunk_index path = Inr (length a)"
    by (simp add: find_hunk_position_def)
qed

lemma singleton_candidates:
  "hunk_candidates ls pat = [p] \<longleftrightarrow> (\<forall>q. hunk_matches_at ls pat q \<longleftrightarrow> q = p)"
proof
  assume "hunk_candidates ls pat = [p]"
  then show "\<forall>q. hunk_matches_at ls pat q \<longleftrightarrow> q = p"
    using hunk_candidates_iff [of _ ls pat] by simp
next
  assume "\<forall>q. hunk_matches_at ls pat q \<longleftrightarrow> q = p"
  then have "set (hunk_candidates ls pat) = {p}"
    using hunk_candidates_iff [of _ ls pat] by blast
  with hunk_candidates_distinct [of ls pat] show "hunk_candidates ls pat = [p]"
    by (cases "hunk_candidates ls pat" rule: list.exhaust)
      (auto simp: subset_singleton_iff neq_Nil_conv)
qed

text \<open>
  A hunk with old lines is placed exactly where it may be: at its preferred line when its old
  lines stand there, and otherwise at the only place where they stand; with no such place, or
  more than one, nothing is placed, and an ambiguity names every candidate line.
\<close>

lemma find_hunk_position_exact:
  assumes "pattern \<noteq> []"
  shows "(find_hunk_position ls pattern replacement preferred i file = Inr p
            \<longleftrightarrow> preferred = Some p \<and> hunk_matches_at ls pattern p
              \<or> \<not> (\<exists>q. preferred = Some q \<and> hunk_matches_at ls pattern q)
                 \<and> (\<forall>q. hunk_matches_at ls pattern q \<longleftrightarrow> q = p))
       \<and> (\<forall>j cs ctx r. find_hunk_position ls pattern replacement preferred i file
              = Inl (PatchContextAmbiguous j cs ctx r)
            \<longrightarrow> set cs = Suc ` {q. hunk_matches_at ls pattern q} \<and> 2 \<le> length cs)"
proof (cases "\<exists>q. preferred = Some q \<and> hunk_matches_at ls pattern q")
  case True
  then obtain q where "preferred = Some q" "hunk_matches_at ls pattern q" by blast
  with assms show ?thesis by (auto simp: find_hunk_position_def)
next
  case False
  then have f: "find_hunk_position ls pattern replacement preferred i file
      = (case hunk_candidates ls pattern of
           [position] \<Rightarrow> Inr position
         | [] \<Rightarrow> Inl (PatchContextNotFound i (map_option (\<lambda>line. line + 1) preferred) (take 8 pattern)
                    (case preferred of Some position \<Rightarrow> nearby_contexts ls [position] 3 | None \<Rightarrow> [])
                    (map_option (\<lambda>line. (max (line - 3) 1, sat_add line 4)) preferred))
         | _ \<Rightarrow> Inl (PatchContextAmbiguous i (map (\<lambda>position. position + 1) (hunk_candidates ls pattern))
                    (nearby_contexts ls (hunk_candidates ls pattern) 3)
                    (candidate_recovery pattern replacement i file (hunk_candidates ls pattern))))"
    using assms by (auto simp: find_hunk_position_def Let_def split: option.split)
  have mem: "set (hunk_candidates ls pattern) = {q. hunk_matches_at ls pattern q}"
    using hunk_candidates_iff by blast
  have "find_hunk_position ls pattern replacement preferred i file = Inr p
        \<longleftrightarrow> hunk_candidates ls pattern = [p]"
    unfolding f by (auto split: list.split)
  moreover have "set cs = Suc ` {q. hunk_matches_at ls pattern q} \<and> 2 \<le> length cs"
    if "find_hunk_position ls pattern replacement preferred i file
          = Inl (PatchContextAmbiguous j cs ctx r)" for j cs ctx r
  proof -
    from that have "cs = map Suc (hunk_candidates ls pattern)" "2 \<le> length cs"
      unfolding f by (auto split: list.splits)
    with mem show ?thesis by simp
  qed
  ultimately show ?thesis
    using False singleton_candidates [of ls pattern p] by blast
qed

theorem find_hunk_position_exact_witness:
  "find_hunk_position [''a'', ''b'', ''a''] [''b''] [''c''] (Some 0) 0 None = Inr 1"
proof -
  have "hunk_matches_at [''a'', ''b'', ''a''] [''b''] q \<longleftrightarrow> q = 1" for q
  proof -
    consider "q = 0" | "q = 1" | "q = 2" | "3 \<le> q" by linarith
    then show ?thesis by cases (auto simp: hunk_matches_at_def)
  qed
  then show ?thesis
    using find_hunk_position_exact [of "[''b'']" "[''a'', ''b'', ''a'']" "[''c'']" "Some 0" 0 None 1]
    by simp
qed

section \<open>What applying a file's hunks means\<close>

text \<open>Each hunk in turn replaces one occurrence of its old lines by its new lines.\<close>

inductive patched :: "string list \<Rightarrow> Hunk list \<Rightarrow> string list \<Rightarrow> bool" where
  patched_done: "patched ls [] ls"
| patched_hunk: "patched (a @ hunk_new (hk_lines h) @ b) hs out
     \<Longrightarrow> patched (a @ hunk_old (hk_lines h) @ b) (h # hs) out"

inductive_simps patched_Nil [simp]: "patched ls [] out"

lemma apply_hunk_issues:
  "\<exists>new. hs_issues (foldl (apply_hunk file) st ihs) = hs_issues st @ new"
proof (induction ihs arbitrary: st)
  case (Cons ih ihs)
  obtain i h where "ih = (i, h)" by (cases ih)
  then have "\<exists>new. hs_issues (apply_hunk file st ih) = hs_issues st @ new"
    by (auto simp: apply_hunk_def Let_def split: sum.split prod.split)
  moreover obtain more where "hs_issues (foldl (apply_hunk file) (apply_hunk file st ih) ihs)
      = hs_issues (apply_hunk file st ih) @ more"
    using Cons by blast
  ultimately show ?case by auto
qed simp

lemma apply_hunks_patched:
  "hs_issues (foldl (apply_hunk file) st (enumerate n hunks)) = [] \<Longrightarrow>
   patched (hs_lines st) hunks (hs_lines (foldl (apply_hunk file) st (enumerate n hunks)))"
proof (induction hunks arbitrary: st n)
  case (Cons h hs)
  define st' where "st' = apply_hunk file st (n, h)"
  have fin: "foldl (apply_hunk file) st (enumerate n (h # hs)) = foldl (apply_hunk file) st' (enumerate (Suc n) hs)"
    by (simp add: st'_def)
  with Cons.prems have none: "hs_issues st' = []"
    using apply_hunk_issues [of "file" st' "enumerate (Suc n) hs"] by auto
  then obtain p where p: "find_hunk_position (hs_lines st) (hunk_old (hk_lines h))
      (hunk_new (hk_lines h)) (preferred_position st h) n file = Inr p"
    by (auto simp: st'_def apply_hunk_def Let_def split: sum.splits prod.splits)
  from finder.located_splice [OF this] obtain a b where
    ab: "hs_lines st = a @ hunk_old (hk_lines h) @ b"
      "foldl hunk_line_step (hs_lines st, p, 0, 0) (hk_lines h)
         = (a @ hunk_new (hk_lines h) @ b, p + length (hunk_new (hk_lines h)),
            int (adds (hk_lines h)), int (removes (hk_lines h)))"
    by blast
  have "hs_lines st' = a @ hunk_new (hk_lines h) @ b"
    unfolding st'_def apply_hunk_def by (simp add: p ab(2))
  then show ?case
    using patched_hunk [of a h b hs] Cons.IH [of st' "Suc n"] Cons.prems ab(1)
    unfolding fin by simp
qed simp

text \<open>
  Applying is sound for every input: when \<open>apply_hunks\<close> returns a text, every hunk replaced, in
  order, one occurrence of its old lines by its new lines, and the text is those lines with the
  line ending of the original.
\<close>

lemma apply_hunks_sound:
  assumes "apply_hunks original hunks file = Inr out"
  shows "\<exists>ls. patched (original_lines original) hunks ls \<and> out = render_output original ls"
proof -
  define st where "st = \<lparr>hs_lines = original_lines original, hs_offset = 0, hs_issues = []\<rparr>"
  from assms have "hs_issues (foldl (apply_hunk file) st (enumerate 0 hunks)) = []"
    and "out = render_output original (hs_lines (foldl (apply_hunk file) st (enumerate 0 hunks)))"
    by (auto simp: apply_hunks_def Let_def st_def split: list.splits)
  with apply_hunks_patched [of "file" st 0 hunks] show ?thesis
    by (auto simp: st_def)
qed

section \<open>Hunks with exact line numbers\<close>

text \<open>
  An edit script alternates unchanged lines and hunks and ends in unchanged lines; \<open>script_hunks\<close>
  numbers its hunks by the line of the old text at which each begins.
\<close>

type_synonym script = "(string list \<times> HunkLine list) list"

fun script_old :: "script \<Rightarrow> string list \<Rightarrow> string list" where
  "script_old [] rest = rest"
| "script_old ((keep, hl) # sc) rest = keep @ hunk_old hl @ script_old sc rest"

fun script_new :: "script \<Rightarrow> string list \<Rightarrow> string list" where
  "script_new [] rest = rest"
| "script_new ((keep, hl) # sc) rest = keep @ hunk_new hl @ script_new sc rest"

fun script_hunks :: "nat \<Rightarrow> script \<Rightarrow> Hunk list" where
  "script_hunks k [] = []"
| "script_hunks k ((keep, hl) # sc) =
     \<lparr>hk_old_start = Some (k + length keep + 1), hk_lines = hl\<rparr>
     # script_hunks (k + length keep + length (hunk_old hl)) sc"

lemma wrap_i64_id: "0 \<le> i \<Longrightarrow> i < 2 ^ 63 \<Longrightarrow> wrap_i64 i = i"
  by (simp add: wrap_i64_def signed_of_int signed_take_bit_int_eq_self)

lemma apply_script:
  "hs_offset st = int (length pre) - int k \<Longrightarrow> hs_issues st = [] \<Longrightarrow>
   hs_lines st = pre @ script_old sc rest \<Longrightarrow>
   length pre + length (script_old sc rest) + length (script_new sc rest) < 2 ^ 63 \<Longrightarrow>
   hs_issues (foldl (apply_hunk file) st (enumerate n (script_hunks k sc))) = []
   \<and> hs_lines (foldl (apply_hunk file) st (enumerate n (script_hunks k sc))) = pre @ script_new sc rest"
proof (induction sc arbitrary: st pre k n)
  case (Cons seg sc)
  obtain keep hl where seg: "seg = (keep, hl)" by (cases seg)
  define h where "h = \<lparr>hk_old_start = Some (k + length keep + 1), hk_lines = hl\<rparr>"
  define a where "a = pre @ keep"
  define b where "b = script_old sc rest"
  define pre' where "pre' = a @ hunk_new hl"
  have lines: "hs_lines st = a @ hunk_old hl @ b"
    using Cons.prems(3) by (simp add: seg a_def b_def)
  have bound: "length a + length (hunk_old hl) + length b < 2 ^ 63"
    using Cons.prems(4) by (simp add: seg a_def b_def)
  have sum: "int (k + length keep + 1 - 1) + hs_offset st = int (length a)"
    using Cons.prems(1) by (simp add: a_def)
  have "preferred_position st h = Some (length a)"
    unfolding preferred_position_def h_def using sum bound
    by (simp add: lines wrap_i64_id)
  then have step: "apply_hunk file st (n, h) = st\<lparr>hs_lines := a @ hunk_new hl @ b,
      hs_offset := hs_offset st + (int (adds hl) - int (removes hl))\<rparr>"
    using finder.preferred_splice [of a hl b "hunk_new hl" n "file"]
    by (simp add: apply_hunk_def h_def lines)
  have "int (adds hl) - int (removes hl) = int (length (hunk_new hl)) - int (length (hunk_old hl))"
    using adds_removes [of hl] by linarith
  then have off: "hs_offset (apply_hunk file st (n, h))
      = int (length pre') - int (k + length keep + length (hunk_old hl))"
    using Cons.prems(1) by (simp add: step pre'_def a_def)
  have "length pre' + length (script_old sc rest) + length (script_new sc rest) < 2 ^ 63"
    using Cons.prems(4) by (simp add: seg pre'_def a_def)
  from Cons.IH [OF off _ _ this, of "Suc n"] Cons.prems(2) show ?case
    using step by (simp add: seg pre'_def a_def b_def h_def)
qed simp

definition is_text :: "string \<Rightarrow> string list \<Rightarrow> bool" where
  "is_text eol ls = (list_all clean_line ls \<and> eol \<in> {[LF], [CR, LF]} \<and> (ls = [] \<longrightarrow> eol = [LF]))"

lemma original_lines_text: "is_text eol ls \<Longrightarrow> original_lines (terminated eol ls) = ls"
  using split_terminator_terminated [of ls eol]
  by (cases ls) (auto simp: is_text_def original_lines_def list_all_iff)

lemma render_text:
  assumes "is_text eol old" and "new \<noteq> [[]]"
  shows "render_output (terminated eol old) new = terminated eol new"
proof -
  have eol: "eol \<noteq> []" and "line_ending_of (terminated eol old) = eol"
    using assms(1) contains_crlf_terminated [of old eol]
    by (cases "old = []"; auto simp: is_text_def line_ending_of_def list_all_iff)+
  moreover have "ends_with (terminated eol old) [LF] \<or> terminated eol old = []"
    using assms(1) ends_with_terminated [of old eol] by (cases "old = []") (simp_all add: is_text_def)
  ultimately show ?thesis
    using join_eq_Nil [OF eol, of new] assms(2) join_terminated [of new eol]
    by (cases "new = []") (simp_all add: render_output_def)
qed

lemma apply_hunks_script:
  assumes "is_text eol (script_old sc rest)" and "script_new sc rest \<noteq> [[]]"
    and "length (script_old sc rest) + length (script_new sc rest) < 2 ^ 63"
  shows "apply_hunks (terminated eol (script_old sc rest)) (script_hunks 0 sc) path
           = Inr (terminated eol (script_new sc rest))"
proof -
  define st where "st = \<lparr>hs_lines = script_old sc rest, hs_offset = 0, hs_issues = []\<rparr>"
  have "hs_issues (foldl (apply_hunk path) st (enumerate 0 (script_hunks 0 sc))) = []
    \<and> hs_lines (foldl (apply_hunk path) st (enumerate 0 (script_hunks 0 sc))) = [] @ script_new sc rest"
    by (rule apply_script) (use assms(3) in \<open>simp_all add: st_def\<close>)
  then show ?thesis
    using render_text [OF assms(1,2)] original_lines_text [OF assms(1)]
    by (simp add: apply_hunks_def st_def)
qed


definition sample_script :: script where
  "sample_script = [([''a''], [Add ''x'']), ([''b''], [Context ''c'', Remove ''d'', Add ''y''])]"


theorem apply_hunks_sound_witness:
  "\<exists>ls. patched (original_lines (terminated [CR, LF] [''a'', ''b'', ''c'', ''d'', ''e'']))
          (script_hunks 0 sample_script) ls
     \<and> terminated [CR, LF] [''a'', ''x'', ''b'', ''c'', ''y'', ''e'']
         = render_output (terminated [CR, LF] [''a'', ''b'', ''c'', ''d'', ''e'']) ls"
proof (rule apply_hunks_sound)
  show "apply_hunks (terminated [CR, LF] [''a'', ''b'', ''c'', ''d'', ''e'']) (script_hunks 0 sample_script) None
      = Inr (terminated [CR, LF] [''a'', ''x'', ''b'', ''c'', ''y'', ''e''])"
    using apply_hunks_script [of "[CR, LF]" sample_script "[''e'']" None]
    by (simp add: sample_script_def is_text_def clean_line_def LF_CR_lit)
qed

text \<open>
  Two corners of the line arithmetic.  The position of a hunk without old lines is read one line
  early: the diff of an insertion after line 1 (\<open>@@ -1,0 +2 @@\<close>) is applied before line 1.  And a patch
  whose result is a single empty line yields the empty file.
\<close>

lemma zero_context_insertion_is_early:
  "apply_hunks (terminated [LF] [''a'', ''b'']) [\<lparr>hk_old_start = Some 1, hk_lines = [Add ''x'']\<rparr>] path
     = Inr (terminated [LF] [''x'', ''a'', ''b''])
   \<and> apply_hunks (terminated [LF] [''a'', []]) [\<lparr>hk_old_start = Some 1, hk_lines = [Remove ''a'']\<rparr>] path
     = Inr []"
proof
  show "apply_hunks (terminated [LF] [''a'', ''b'']) [\<lparr>hk_old_start = Some 1, hk_lines = [Add ''x'']\<rparr>] path
     = Inr (terminated [LF] [''x'', ''a'', ''b''])"
    using apply_hunks_script [of "[LF]" "[([], [Add ''x''])]" "[''a'', ''b'']" path]
    by (simp add: is_text_def clean_line_def LF_CR_lit)
  have "original_lines (terminated [LF] [''a'', []]) = [''a'', []]"
    by (rule original_lines_text) (simp add: is_text_def clean_line_def LF_CR_lit)
  then show "apply_hunks (terminated [LF] [''a'', []]) [\<lparr>hk_old_start = Some 1, hk_lines = [Remove ''a'']\<rparr>] path
     = Inr []"
    by (simp add: apply_hunks_def apply_hunk_def find_hunk_position_def preferred_position_def
        hunk_matches_at_def wrap_i64_id remove_nth_def render_output_def)
qed

end
