(* ===== verification/Exec_Batch.thy ===== *)
theory Exec_Batch
  imports Rust_Str Json Command_Policy
begin

text \<open>
  The front half of \<open>exec_many\<close> (\<open>tools/dispatch/exec_many.rs\<close>): reading a batch of commands and
  choosing how to schedule it.  Two foreign functions are parameters: \<open>file_stem\<close>, the final path
  component without extension (\<open>std::path\<close>, whose separators depend on the platform), and
  \<open>digest12\<close>, the first twelve hexadecimal digits of a SHA-256 digest.
\<close>

datatype exec_error =
    CommandCount
  | CommandNotObject nat
  | IdNotString nat
  | IdLength nat
  | DuplicateId string
  | DependsOnNotStrings nat
  | DependsOnNotArray nat
  | RunIfValue nat
  | RunIfNotString nat
  | RunIfRequiresDependsOn nat string
  | LockGroupLength nat
  | LockGroupNotString nat
  | DependsOnItself string
  | DependsOnUnknown string string
  | TimeoutRejected nat timeout_error
  | InvalidMode
  | InvalidResultMode
  | RunIfRequiresDag
  | DependencyCycle

datatype ParallelPrior = Safe | EvidenceRequired | Unsafe

record ExecBatchCommand =
  ec_index :: nat
  ec_id :: string
  ec_depends_on :: "string list"
  ec_run_if :: string
  ec_lock_group :: "string option"
  ec_lock_group_inferred :: bool
  ec_parallel_signature :: string
  ec_parallel_prior :: ParallelPrior
  ec_args :: json

section \<open>Classifying a command\<close>

definition first_string :: "json list \<Rightarrow> string option" where
  "first_string xs = (case filter (\<lambda>v. as_str v \<noteq> None) xs of [] \<Rightarrow> None | v # _ \<Rightarrow> as_str v)"

definition first_argument :: "json \<Rightarrow> string" where
  "first_argument arguments =
     (case get_array arguments ''args'' of
        Some xs \<Rightarrow> (case first_string xs of Some s \<Rightarrow> s | None \<Rightarrow> '''')
      | None \<Rightarrow> '''')"

definition trim_dashes :: "string \<Rightarrow> string" where
  "trim_dashes s = dropWhile (\<lambda>c. c = CHR ''-'') s"

definition is_io_heavy :: "json \<Rightarrow> bool" where
  "is_io_heavy arguments = (get_str arguments ''resource_class'' = Some ''io_heavy'')"

definition normalized_program ::
    "(string \<Rightarrow> string option) \<Rightarrow> (string \<Rightarrow> string) \<Rightarrow> json \<Rightarrow> string option" where
  "normalized_program file_stem digest12 arguments =
     Option.bind (Option.bind (get_str arguments ''program'') file_stem) (\<lambda>value.
       let normalized = to_ascii_lowercase (take 64
             (filter (\<lambda>c. is_ascii_alphanumeric c \<or> c = CHR ''-'' \<or> c = CHR ''_'') value))
       in if normalized = [] then None
          else if normalized \<in> {''cargo'', ''rustc'', ''git'', ''npm'', ''pnpm'', ''yarn'', ''bun'',
                 ''python'', ''python3'', ''node'', ''pwsh'', ''powershell'', ''sh'', ''cmd''}
          then Some normalized
          else Some (''custom-'' @ digest12 normalized))"

definition command_has_version_flag :: "json \<Rightarrow> bool" where
  "command_has_version_flag arguments =
     (case get_array arguments ''args'' of
        Some xs \<Rightarrow> list_ex (\<lambda>v. case as_str v of
                       Some a \<Rightarrow> a \<in> {''--version'', ''-V'', ''-v'', ''version''}
                     | None \<Rightarrow> False) xs
      | None \<Rightarrow> False)"

definition normalized_command_verb :: "json \<Rightarrow> string \<Rightarrow> string" where
  "normalized_command_verb arguments program =
     (if command_has_version_flag arguments then ''version''
      else if program \<notin> {''cargo'', ''rustc'', ''git'', ''npm'', ''pnpm'', ''yarn'', ''bun''}
      then if program \<in> {''python'', ''python3'', ''node'', ''pwsh'', ''powershell'', ''sh'', ''cmd''}
           then ''script'' else ''default''
      else let normalized = to_ascii_lowercase (take 32
                 (filter (\<lambda>c. is_ascii_alphanumeric c \<or> c = CHR ''-'')
                    (trim_dashes (first_argument arguments))))
           in if normalized = [] then ''default'' else normalized)"

definition git_read_only_verbs :: "string list" where
  "git_read_only_verbs =
     [''status'', ''diff'', ''log'', ''show'', ''rev-parse'', ''ls-files'', ''cat-file'']"

definition command_parallel_prior ::
    "(string \<Rightarrow> string option) \<Rightarrow> (string \<Rightarrow> string) \<Rightarrow> json \<Rightarrow> string option \<Rightarrow> ParallelPrior" where
  "command_parallel_prior file_stem digest12 arguments lock_group =
     (case normalized_program file_stem digest12 arguments of
        None \<Rightarrow> Unsafe
      | Some program \<Rightarrow>
          if (case get_str arguments ''shell'' of Some shell \<Rightarrow> shell \<noteq> ''none'' | None \<Rightarrow> False)
          then Unsafe
          else if lock_group \<noteq> None \<or> command_has_version_flag arguments then Safe
          else let verb = normalized_command_verb arguments program
               in if program = ''git'' \<and> verb \<in> set git_read_only_verbs then Safe
                  else EvidenceRequired)"

definition command_workdir :: "json \<Rightarrow> string" where
  "command_workdir arguments =
     (case get_str arguments ''workdir'' of Some w \<Rightarrow> w | None \<Rightarrow> ''.'')"

definition command_parallel_signature ::
    "(string \<Rightarrow> string option) \<Rightarrow> (string \<Rightarrow> string) \<Rightarrow> json \<Rightarrow> string" where
  "command_parallel_signature file_stem digest12 arguments =
     (let program = (case normalized_program file_stem digest12 arguments of
                       Some p \<Rightarrow> p | None \<Rightarrow> ''opaque'');
          verb = normalized_command_verb arguments program
      in program @ '':'' @ verb @ ''@'' @ digest12 (command_workdir arguments))"

text \<open>
  \<open>scope\<close> maps characters, not bytes: the continuation bytes of a UTF-8 character go and its lead
  byte becomes one underscore.
\<close>

definition lock_scope :: "string \<Rightarrow> string" where
  "lock_scope workdir =
     take 80 (map (\<lambda>c. if is_ascii_alphanumeric c \<or> c = CHR ''-'' \<or> c = CHR ''_'' \<or> c = CHR ''.''
                       then c else CHR ''_'')
                  (filter (\<lambda>c. \<not> (0x80 \<le> code c \<and> code c < 0xC0)) workdir))"

definition git_index_verbs :: "string list" where
  "git_index_verbs =
     [''add'', ''am'', ''apply'', ''bisect'', ''branch'', ''checkout'', ''cherry-pick'', ''clean'',
      ''commit'', ''merge'', ''mv'', ''rebase'', ''reset'', ''restore'', ''revert'', ''rm'',
      ''stash'', ''switch'', ''tag'']"

definition inferred_exec_lock_group :: "(string \<Rightarrow> string option) \<Rightarrow> json \<Rightarrow> string option" where
  "inferred_exec_lock_group file_stem arguments =
     (case Option.bind (get_str arguments ''program'') file_stem of
        None \<Rightarrow> None
      | Some stem \<Rightarrow>
          let program = to_ascii_lowercase stem;
              verb = to_ascii_lowercase (trim_dashes (first_argument arguments));
              scope = lock_scope (command_workdir arguments)
          in if program \<in> {''cargo'', ''rustc''} then Some (''cargo-target:'' @ scope)
             else if program = ''git'' \<and> verb \<in> set git_index_verbs
             then Some (''git-index:'' @ scope)
             else if program \<in> {''npm'', ''pnpm'', ''yarn'', ''bun''}
                  \<and> verb \<in> {''add'', ''ci'', ''dedupe'', ''install'', ''remove'', ''uninstall'', ''update''}
             then Some (''node-generated:'' @ scope)
             else None)"

section \<open>Reading the batch\<close>

definition parse_id :: "nat \<Rightarrow> json option \<Rightarrow> exec_error + string" where
  "parse_id index v =
     and_then (case v of
                 None \<Rightarrow> Inr (''command-'' @ decimal index)
               | Some (JStr s) \<Rightarrow> Inr s
               | Some _ \<Rightarrow> Inl (IdNotString index))
       (\<lambda>i. if trim i = [] \<or> length i > 128 then Inl (IdLength index) else Inr i)"

definition parse_depends_on :: "nat \<Rightarrow> json option \<Rightarrow> exec_error + string list" where
  "parse_depends_on index v =
     (case v of
        None \<Rightarrow> Inr []
      | Some (JArr values) \<Rightarrow>
          if list_all (\<lambda>v. as_str v \<noteq> None) values then Inr (map (\<lambda>v. the (as_str v)) values)
          else Inl (DependsOnNotStrings index)
      | Some _ \<Rightarrow> Inl (DependsOnNotArray index))"

definition parse_run_if :: "nat \<Rightarrow> json option \<Rightarrow> string list \<Rightarrow> exec_error + string" where
  "parse_run_if index v depends_on =
     and_then (case v of
                 None \<Rightarrow> Inr ''success''
               | Some (JStr s) \<Rightarrow>
                   if s \<in> {''success'', ''failure'', ''always''} then Inr s else Inl (RunIfValue index)
               | Some _ \<Rightarrow> Inl (RunIfNotString index))
       (\<lambda>r. if r \<in> {''failure'', ''always''} \<and> depends_on = []
            then Inl (RunIfRequiresDependsOn index r) else Inr r)"

definition parse_lock_group :: "nat \<Rightarrow> json option \<Rightarrow> exec_error + string option" where
  "parse_lock_group index v =
     (case v of
        None \<Rightarrow> Inr None
      | Some (JStr s) \<Rightarrow>
          let value = trim s
          in if value = [] \<or> length value > 128 then Inl (LockGroupLength index) else Inr (Some value)
      | Some _ \<Rightarrow> Inl (LockGroupNotString index))"

definition insert_default :: "string \<Rightarrow> json \<Rightarrow> (string \<times> json) list \<Rightarrow> (string \<times> json) list" where
  "insert_default k v kvs = (if map_of kvs k = None then obj_insert k v kvs else kvs)"

definition parse_command ::
    "(string \<Rightarrow> string option) \<Rightarrow> (string \<Rightarrow> string) \<Rightarrow> string list \<Rightarrow> nat \<Rightarrow> json
       \<Rightarrow> exec_error + ExecBatchCommand" where
  "parse_command file_stem digest12 ids index command =
     (case as_object command of
        None \<Rightarrow> Inl (CommandNotObject index)
      | Some object \<Rightarrow>
          and_then (parse_id index (map_of object ''id'')) (\<lambda>cid.
          if cid \<in> set ids then Inl (DuplicateId cid) else
          and_then (parse_depends_on index (map_of object ''depends_on'')) (\<lambda>depends_on.
          and_then (parse_run_if index (map_of object ''run_if'') depends_on) (\<lambda>run_if.
          and_then (parse_lock_group index (map_of object ''lock_group'')) (\<lambda>explicit.
          let object = obj_remove ''lock_group'' (obj_remove ''run_if''
                         (obj_remove ''depends_on'' (obj_remove ''id'' object)));
              lock_group = (case explicit of
                              Some g \<Rightarrow> Some g
                            | None \<Rightarrow> inferred_exec_lock_group file_stem (JObj object));
              inferred = (explicit = None \<and> lock_group \<noteq> None);
              object = (case lock_group of
                          Some g \<Rightarrow> obj_insert ''lock_group'' (JStr g) object | None \<Rightarrow> object);
              args = JObj (insert_default ''output_mode'' (JStr ''tail'')
                            (insert_default ''yield_time_ms'' (JInt 30000) object))
          in Inr \<lparr>ec_index = index, ec_id = cid, ec_depends_on = depends_on, ec_run_if = run_if,
                  ec_lock_group = lock_group, ec_lock_group_inferred = inferred,
                  ec_parallel_signature = command_parallel_signature file_stem digest12 args,
                  ec_parallel_prior = command_parallel_prior file_stem digest12 args lock_group,
                  ec_args = args\<rparr>)))))"

fun parse_commands ::
    "(string \<Rightarrow> string option) \<Rightarrow> (string \<Rightarrow> string) \<Rightarrow> ExecBatchCommand list \<Rightarrow> json list
       \<Rightarrow> exec_error + ExecBatchCommand list" where
  "parse_commands file_stem digest12 parsed [] = Inr parsed"
| "parse_commands file_stem digest12 parsed (c # cs) =
     and_then (parse_command file_stem digest12 (map ec_id parsed) (length parsed) c) (\<lambda>cmd.
       parse_commands file_stem digest12 (parsed @ [cmd]) cs)"

definition check_dependency ::
    "string list \<Rightarrow> string \<Rightarrow> string \<Rightarrow> exec_error option" where
  "check_dependency known_ids cid dependency =
     (if dependency = cid then Some (DependsOnItself cid)
      else if dependency \<notin> set known_ids then Some (DependsOnUnknown cid dependency)
      else None)"

definition first_error :: "'e option list \<Rightarrow> 'e + unit" where
  "first_error es = (case filter (\<lambda>e. e \<noteq> None) es of Some e # _ \<Rightarrow> Inl e | _ \<Rightarrow> Inr ())"

definition check_dependencies :: "ExecBatchCommand list \<Rightarrow> exec_error + unit" where
  "check_dependencies parsed =
     first_error (concat (map (\<lambda>c. map (check_dependency (map ec_id parsed) (ec_id c)) (ec_depends_on c))
                            parsed))"

definition parse_exec_batch_commands ::
    "(string \<Rightarrow> string option) \<Rightarrow> (string \<Rightarrow> string) \<Rightarrow> json list
       \<Rightarrow> exec_error + ExecBatchCommand list" where
  "parse_exec_batch_commands file_stem digest12 commands =
     (if commands = [] \<or> length commands > 256 then Inl CommandCount
      else and_then (parse_commands file_stem digest12 [] commands) (\<lambda>parsed.
           and_then (check_dependencies parsed) (\<lambda>_. Inr parsed)))"

definition ABSOLUTE_COMMAND_TIMEOUT_MAX_MS :: nat where
  "ABSOLUTE_COMMAND_TIMEOUT_MAX_MS = 3600000"

definition validate_exec_batch_timeout_contracts ::
    "(string \<Rightarrow> nat) \<Rightarrow> nat \<Rightarrow> ExecBatchCommand list \<Rightarrow> exec_error + unit" where
  "validate_exec_batch_timeout_contracts utf16_len job_max_ms commands =
     first_error (map (\<lambda>c.
       case resolve_process_timeout utf16_len (ec_args c) 30000 ABSOLUTE_COMMAND_TIMEOUT_MAX_MS job_max_ms of
         Inl e \<Rightarrow> Some (TimeoutRejected (ec_index c) e) | Inr _ \<Rightarrow> None) commands)"

end
