(* ===== verification/Parallel_Stats.thy ===== *)
theory Parallel_Stats
  imports Rust_Str Json
begin

text \<open>
  The history of command pairs that ran in parallel (\<open>tools/parallel_stats.rs\<close>): the counters of
  a pair, the set of observations already counted and the accumulation of new ones.  The history
  maps are \<open>BTreeMap\<close> and \<open>HashSet\<close>; the counters saturate.
\<close>

definition u128_max :: nat where
  "u128_max = 2 ^ 128 - 1"

definition sat_add_u128 :: "nat \<Rightarrow> nat \<Rightarrow> nat" where
  "sat_add_u128 a b = min (a + b) u128_max"

record ParallelPairStats =
  pp_attempts :: nat
  pp_successes :: nat
  pp_conflicts :: nat
  pp_serialized :: nat
  pp_failures :: nat
  pp_not_overlapped :: nat
  pp_candidate_observations :: nat
  pp_read_only_safe_hints :: nat
  pp_conflict_hints :: nat
  pp_overlap_hints :: nat
  pp_unknown_candidates :: nat
  pp_overlap_ms :: nat
  pp_lock_wait_ms :: nat

definition pair_stats_default :: ParallelPairStats where
  "pair_stats_default =
     \<lparr>pp_attempts = 0, pp_successes = 0, pp_conflicts = 0, pp_serialized = 0, pp_failures = 0,
      pp_not_overlapped = 0, pp_candidate_observations = 0, pp_read_only_safe_hints = 0,
      pp_conflict_hints = 0, pp_overlap_hints = 0, pp_unknown_candidates = 0,
      pp_overlap_ms = 0, pp_lock_wait_ms = 0\<rparr>"

definition safety_samples :: "ParallelPairStats \<Rightarrow> nat" where
  "safety_samples stats = sat_add (pp_successes stats) (pp_conflicts stats)"

record ParallelHistory =
  ph_pairs :: "string \<rightharpoonup> ParallelPairStats"
  ph_seen_observation_ids :: "string set"
  ph_total_observations :: nat
  ph_actual_observations :: nat
  ph_candidate_observations :: nat
  ph_duplicate_observations_ignored :: nat

definition history_default :: ParallelHistory where
  "history_default =
     \<lparr>ph_pairs = Map.empty, ph_seen_observation_ids = {}, ph_total_observations = 0,
      ph_actual_observations = 0, ph_candidate_observations = 0,
      ph_duplicate_observations_ignored = 0\<rparr>"

section \<open>Reading an observation\<close>

definition observation_pair :: "json \<Rightarrow> string option" where
  "observation_pair observation =
     (case get_str observation ''pair'' of
        Some s \<Rightarrow> (let pair = trim s in if pair \<noteq> [] \<and> length pair \<le> 320 then Some pair else None)
      | None \<Rightarrow> None)"

definition observation_outcomes :: "string list" where
  "observation_outcomes =
     [''success'', ''conflict'', ''serialized'', ''failure'', ''not_overlapped'', ''candidate'']"

definition observation_outcome :: "json \<Rightarrow> string option" where
  "observation_outcome observation =
     (case get_str observation ''outcome'' of
        Some s \<Rightarrow> (if s \<in> set observation_outcomes then Some s else None)
      | None \<Rightarrow> None)"

definition observation_id :: "json \<Rightarrow> string option" where
  "observation_id observation =
     (case get_str observation ''observation_id'' of
        Some s \<Rightarrow> (let i = trim s in if i \<noteq> [] then Some i else None)
      | None \<Rightarrow> None)"

definition u64_or_zero :: "json \<Rightarrow> string \<Rightarrow> nat" where
  "u64_or_zero v k = (case get_u64 v k of Some n \<Rightarrow> n | None \<Rightarrow> 0)"

section \<open>Counting\<close>

definition count_candidate :: "json \<Rightarrow> ParallelPairStats \<Rightarrow> ParallelPairStats" where
  "count_candidate observation stats =
     (let stats = stats\<lparr>pp_candidate_observations := sat_add (pp_candidate_observations stats) 1\<rparr>;
          kind = (case get_str observation ''candidate_kind'' of
                    Some k \<Rightarrow> k | None \<Rightarrow> ''unknown_pair'')
      in if kind = ''read_only_safe_hint''
         then stats\<lparr>pp_read_only_safe_hints := sat_add (pp_read_only_safe_hints stats) 1\<rparr>
         else if kind = ''conflict_hint''
         then stats\<lparr>pp_conflict_hints := sat_add (pp_conflict_hints stats) 1\<rparr>
         else if kind = ''overlap_hint''
         then stats\<lparr>pp_overlap_hints := sat_add (pp_overlap_hints stats) 1\<rparr>
         else stats\<lparr>pp_unknown_candidates := sat_add (pp_unknown_candidates stats) 1\<rparr>)"

definition count_outcome :: "string \<Rightarrow> ParallelPairStats \<Rightarrow> ParallelPairStats" where
  "count_outcome outcome stats =
     (let stats = stats\<lparr>pp_attempts := sat_add (pp_attempts stats) 1\<rparr>
      in if outcome = ''success'' then stats\<lparr>pp_successes := sat_add (pp_successes stats) 1\<rparr>
         else if outcome = ''conflict'' then stats\<lparr>pp_conflicts := sat_add (pp_conflicts stats) 1\<rparr>
         else if outcome = ''serialized'' then stats\<lparr>pp_serialized := sat_add (pp_serialized stats) 1\<rparr>
         else if outcome = ''failure'' then stats\<lparr>pp_failures := sat_add (pp_failures stats) 1\<rparr>
         else stats\<lparr>pp_not_overlapped := sat_add (pp_not_overlapped stats) 1\<rparr>)"

definition record_observation ::
    "string \<Rightarrow> string \<Rightarrow> json \<Rightarrow> ParallelHistory \<Rightarrow> ParallelHistory" where
  "record_observation pair outcome observation history =
     (let stats = (case ph_pairs history pair of Some s \<Rightarrow> s | None \<Rightarrow> pair_stats_default);
          stats = stats\<lparr>
            pp_overlap_ms := sat_add_u128 (pp_overlap_ms stats) (u64_or_zero observation ''overlap_ms''),
            pp_lock_wait_ms :=
              sat_add_u128 (pp_lock_wait_ms stats) (u64_or_zero observation ''lock_wait_ms'')\<rparr>;
          history =
            (if outcome = ''candidate''
             then history\<lparr>
               ph_pairs := (ph_pairs history)(pair \<mapsto> count_candidate observation stats),
               ph_candidate_observations := sat_add (ph_candidate_observations history) 1\<rparr>
             else history\<lparr>
               ph_pairs := (ph_pairs history)(pair \<mapsto> count_outcome outcome stats),
               ph_actual_observations := sat_add (ph_actual_observations history) 1\<rparr>)
      in history\<lparr>ph_total_observations := sat_add (ph_total_observations history) 1\<rparr>)"

definition apply_observation :: "ParallelHistory \<Rightarrow> json \<Rightarrow> ParallelHistory" where
  "apply_observation history observation =
     (case observation_pair observation of
        None \<Rightarrow> history
      | Some pair \<Rightarrow>
     (case observation_outcome observation of
        None \<Rightarrow> history
      | Some outcome \<Rightarrow>
     (case observation_id observation of
        None \<Rightarrow> record_observation pair outcome observation history
      | Some i \<Rightarrow>
          if i \<in> ph_seen_observation_ids history
          then history\<lparr>ph_duplicate_observations_ignored :=
                         sat_add (ph_duplicate_observations_ignored history) 1\<rparr>
          else record_observation pair outcome observation
                 (history\<lparr>ph_seen_observation_ids := insert i (ph_seen_observation_ids history)\<rparr>))))"

definition apply_observations :: "ParallelHistory \<Rightarrow> json list \<Rightarrow> ParallelHistory" where
  "apply_observations history observations = foldl apply_observation history observations"

definition accumulate_record :: "ParallelHistory \<Rightarrow> json \<Rightarrow> ParallelHistory" where
  "accumulate_record history record =
     (case get_array record ''parallelism_observations'' of
        None \<Rightarrow> history
      | Some observations \<Rightarrow> apply_observations history observations)"

definition parallel_pair_history ::
    "ParallelHistory \<Rightarrow> string list \<Rightarrow> (string \<rightharpoonup> ParallelPairStats)" where
  "parallel_pair_history history pair_keys =
     (\<lambda>pair. if pair \<in> set pair_keys then ph_pairs history pair else None)"

section \<open>What the counters mean\<close>

lemma apply_observations_simps [simp]:
  "apply_observations h [] = h"
  "apply_observations h (ob # obs) = apply_observations (apply_observation h ob) obs"
  by (simp_all add: apply_observations_def)

definition samples_of :: "ParallelHistory \<Rightarrow> string \<Rightarrow> nat" where
  "samples_of history pair =
     (case ph_pairs history pair of Some s \<Rightarrow> safety_samples s | None \<Rightarrow> 0)"

lemma apply_observation_cases:
  "apply_observation h ob = h
   \<or> apply_observation h ob = h\<lparr>ph_duplicate_observations_ignored :=
                                  sat_add (ph_duplicate_observations_ignored h) 1\<rparr>
   \<or> (\<exists>pair outcome ids. observation_pair ob = Some pair \<and> observation_outcome ob = Some outcome
        \<and> apply_observation h ob
            = record_observation pair outcome ob (h\<lparr>ph_seen_observation_ids := ids\<rparr>))"
proof -
  have same: "h\<lparr>ph_seen_observation_ids := ph_seen_observation_ids h\<rparr> = h" by simp
  show ?thesis
  proof (cases "observation_pair ob = None \<or> observation_outcome ob = None")
    case True
    then show ?thesis by (auto simp: apply_observation_def split: option.split)
  next
    case False
    then obtain pair outcome where po: "observation_pair ob = Some pair" "observation_outcome ob = Some outcome"
      by auto
    show ?thesis
    proof (cases "observation_id ob")
      case None
      with po show ?thesis
        by (intro disjI2 exI [of _ pair] exI [of _ outcome] exI [of _ "ph_seen_observation_ids h"])
          (simp add: apply_observation_def)
    next
      case (Some i)
      with po show ?thesis
        by (cases "i \<in> ph_seen_observation_ids h") (simp_all add: apply_observation_def, blast+)
    qed
  qed
qed

lemma samples_record_other:
  assumes "outcome \<notin> {''success'', ''conflict''}"
  shows "samples_of (record_observation pair outcome ob h) p = samples_of h p"
  using assms
  by (auto simp: samples_of_def record_observation_def Let_def count_outcome_def count_candidate_def
      safety_samples_def pair_stats_default_def sat_add_def split: option.split)

lemma samples_seen [simp]: "samples_of (h\<lparr>ph_seen_observation_ids := ids\<rparr>) p = samples_of h p"
  "samples_of (h\<lparr>ph_duplicate_observations_ignored := n\<rparr>) p = samples_of h p"
  by (simp_all add: samples_of_def)

lemma samples_apply_other:
  assumes "observation_outcome ob \<notin> {Some ''success'', Some ''conflict''}"
  shows "samples_of (apply_observation h ob) p = samples_of h p"
  using apply_observation_cases [of h ob]
proof (elim disjE exE conjE)
  fix pair outcome ids
  assume "observation_outcome ob = Some outcome"
    and r: "apply_observation h ob
              = record_observation pair outcome ob (h\<lparr>ph_seen_observation_ids := ids\<rparr>)"
  with assms have "outcome \<notin> {''success'', ''conflict''}" by auto
  then show ?thesis by (simp add: r samples_record_other)
qed simp_all

lemma samples_apply_others:
  "\<forall>ob \<in> set obs. observation_outcome ob \<notin> {Some ''success'', Some ''conflict''} \<Longrightarrow>
   samples_of (apply_observations h obs) p = samples_of h p"
  by (induction obs arbitrary: h) (simp_all add: samples_apply_other del: insert_iff)

section \<open>Replaying observations\<close>

definition identified :: "json \<Rightarrow> bool" where
  "identified ob = (observation_pair ob \<noteq> None \<and> observation_outcome ob \<noteq> None \<longrightarrow> observation_id ob \<noteq> None)"

definition already_counted :: "ParallelHistory \<Rightarrow> json \<Rightarrow> bool" where
  "already_counted h ob =
     (observation_pair ob = None \<or> observation_outcome ob = None
      \<or> (\<exists>i \<in> ph_seen_observation_ids h. observation_id ob = Some i))"

lemma seen_grows: "ph_seen_observation_ids h \<subseteq> ph_seen_observation_ids (apply_observation h ob)"
  by (auto simp: apply_observation_def record_observation_def Let_def split: option.split)

lemma seen_grows_list: "ph_seen_observation_ids h \<subseteq> ph_seen_observation_ids (apply_observations h obs)"
proof (induction obs arbitrary: h)
  case (Cons ob obs)
  then show ?case using seen_grows [of h ob] by fastforce
qed simp

lemma counted_after: "identified ob \<Longrightarrow> already_counted (apply_observation h ob) ob"
  by (auto simp: identified_def already_counted_def apply_observation_def record_observation_def Let_def
      split: option.splits)

lemma counted_after_list:
  "\<forall>ob \<in> set obs. identified ob \<Longrightarrow> \<forall>ob \<in> set obs. already_counted (apply_observations h obs) ob"
proof (induction obs arbitrary: h)
  case (Cons ob obs)
  have "already_counted (apply_observations (apply_observation h ob) obs) ob"
    using counted_after [of ob h] Cons.prems seen_grows_list [of "apply_observation h ob" obs]
    by (auto simp: already_counted_def)
  with Cons show ?case by simp
qed simp

lemma counted_again:
  assumes "already_counted h ob"
  shows "ph_pairs (apply_observation h ob) = ph_pairs h
       \<and> ph_seen_observation_ids (apply_observation h ob) = ph_seen_observation_ids h
       \<and> ph_total_observations (apply_observation h ob) = ph_total_observations h"
  using assms by (auto simp: already_counted_def apply_observation_def split: option.splits)

lemma counted_again_list:
  "\<forall>ob \<in> set obs. already_counted h ob \<Longrightarrow>
   ph_pairs (apply_observations h obs) = ph_pairs h
   \<and> ph_total_observations (apply_observations h obs) = ph_total_observations h"
proof (induction obs arbitrary: h)
  case (Cons ob obs)
  have "\<forall>ob' \<in> set obs. already_counted (apply_observation h ob) ob'"
    using Cons.prems counted_again [of h ob] by (simp add: already_counted_def)
  with Cons counted_again [of h ob] show ?case by simp
qed simp

text \<open>
  Counting is idempotent: a log of identified observations that is read a second time (after a
  rotation, or from the file and then from memory) changes no statistics.
\<close>

lemma replay_changes_nothing:
  assumes "\<forall>ob \<in> set obs. identified ob"
  shows "ph_pairs (apply_observations (apply_observations h obs) obs) = ph_pairs (apply_observations h obs)
       \<and> ph_total_observations (apply_observations (apply_observations h obs) obs)
           = ph_total_observations (apply_observations h obs)"
  using counted_again_list [OF counted_after_list [OF assms]] .

definition sample_observation :: json where
  "sample_observation = JObj [(''pair'', JStr ''a|b''), (''outcome'', JStr ''success''),
     (''observation_id'', JStr ''x'')]"

theorem replay_changes_nothing_witness:
  "ph_pairs (apply_observations (apply_observations history_default [sample_observation]) [sample_observation])
   = ph_pairs (apply_observations history_default [sample_observation])"
proof -
  have "observation_id sample_observation = Some ''x''"
    by code_simp
  then have "\<forall>ob \<in> set [sample_observation]. identified ob"
    by (simp add: identified_def)
  from replay_changes_nothing [OF this] show ?thesis ..
qed

section \<open>Accounting\<close>

definition balanced :: "ParallelPairStats \<Rightarrow> bool" where
  "balanced s =
     (pp_attempts s = pp_successes s + pp_conflicts s + pp_serialized s + pp_failures s + pp_not_overlapped s
      \<and> pp_candidate_observations s = pp_read_only_safe_hints s + pp_conflict_hints s
                                        + pp_overlap_hints s + pp_unknown_candidates s)"

definition accounted :: "nat \<Rightarrow> ParallelHistory \<Rightarrow> bool" where
  "accounted n h =
     ((\<forall>p s. ph_pairs h p = Some s \<longrightarrow>
         balanced s \<and> pp_attempts s \<le> ph_actual_observations h
         \<and> pp_candidate_observations s \<le> ph_candidate_observations h)
      \<and> ph_total_observations h = ph_actual_observations h + ph_candidate_observations h
      \<and> ph_total_observations h + ph_duplicate_observations_ignored h \<le> n)"

lemma balanced_count:
  assumes "balanced s" "pp_attempts s < u64_max" "pp_candidate_observations s < u64_max"
  shows "balanced (count_outcome outcome s)" "balanced (count_candidate ob s)"
    "pp_attempts (count_outcome outcome s) = pp_attempts s + 1"
    "pp_candidate_observations (count_outcome outcome s) = pp_candidate_observations s"
    "pp_attempts (count_candidate ob s) = pp_attempts s"
    "pp_candidate_observations (count_candidate ob s) = pp_candidate_observations s + 1"
  using assms
  by (simp_all add: balanced_def count_outcome_def count_candidate_def Let_def sat_add_exact
      split: option.split)

lemma default_balanced:
  "balanced pair_stats_default" "pp_attempts pair_stats_default = 0"
  "pp_candidate_observations pair_stats_default = 0"
  by (simp_all add: balanced_def pair_stats_default_def)

lemma accounted_record:
  assumes "accounted n h" and "n < u64_max"
  shows "accounted (Suc n) (record_observation pair outcome ob h)"
proof -
  define s where "s = (case ph_pairs h pair of Some s \<Rightarrow> s | None \<Rightarrow> pair_stats_default)
     \<lparr>pp_overlap_ms := sat_add_u128
          (pp_overlap_ms (case ph_pairs h pair of Some s \<Rightarrow> s | None \<Rightarrow> pair_stats_default))
          (u64_or_zero ob ''overlap_ms''),
      pp_lock_wait_ms := sat_add_u128
          (pp_lock_wait_ms (case ph_pairs h pair of Some s \<Rightarrow> s | None \<Rightarrow> pair_stats_default))
          (u64_or_zero ob ''lock_wait_ms'')\<rparr>"
  have t: "ph_actual_observations h + ph_candidate_observations h < u64_max"
    using assms by (simp add: accounted_def)
  have s: "balanced s" "pp_attempts s \<le> ph_actual_observations h"
    "pp_candidate_observations s \<le> ph_candidate_observations h"
  proof -
    have "balanced (case ph_pairs h pair of Some s \<Rightarrow> s | None \<Rightarrow> pair_stats_default)
        \<and> pp_attempts (case ph_pairs h pair of Some s \<Rightarrow> s | None \<Rightarrow> pair_stats_default)
            \<le> ph_actual_observations h
        \<and> pp_candidate_observations (case ph_pairs h pair of Some s \<Rightarrow> s | None \<Rightarrow> pair_stats_default)
            \<le> ph_candidate_observations h"
      using assms(1) default_balanced unfolding accounted_def by (cases "ph_pairs h pair") simp_all
    then show "balanced s" "pp_attempts s \<le> ph_actual_observations h"
      "pp_candidate_observations s \<le> ph_candidate_observations h"
      by (simp_all add: s_def balanced_def)
  qed
  with t have lt: "pp_attempts s < u64_max" "pp_candidate_observations s < u64_max"
    by linarith+
  have sat: "sat_add (ph_actual_observations h) 1 = ph_actual_observations h + 1"
    "sat_add (ph_candidate_observations h) 1 = ph_candidate_observations h + 1"
    "sat_add (ph_total_observations h) 1 = ph_total_observations h + 1"
    using t assms(1) by (simp_all add: sat_add_exact accounted_def)
  have "record_observation pair outcome ob h =
      (if outcome = ''candidate''
       then h\<lparr>ph_pairs := (ph_pairs h)(pair \<mapsto> count_candidate ob s),
              ph_candidate_observations := ph_candidate_observations h + 1,
              ph_total_observations := ph_total_observations h + 1\<rparr>
       else h\<lparr>ph_pairs := (ph_pairs h)(pair \<mapsto> count_outcome outcome s),
              ph_actual_observations := ph_actual_observations h + 1,
              ph_total_observations := ph_total_observations h + 1\<rparr>)"
    using sat by (simp add: record_observation_def s_def Let_def)
  then show ?thesis
    using assms(1) s balanced_count [OF s(1) lt] by (auto simp: accounted_def intro: le_SucI)
qed

lemma accounted_apply:
  assumes "accounted n h" and "n < u64_max"
  shows "accounted (Suc n) (apply_observation h ob)"
  using apply_observation_cases [of h ob]
proof (elim disjE exE conjE)
  assume "apply_observation h ob = h"
  with assms(1) show ?thesis by (simp add: accounted_def)
next
  assume "apply_observation h ob = h\<lparr>ph_duplicate_observations_ignored :=
                                       sat_add (ph_duplicate_observations_ignored h) 1\<rparr>"
  moreover have "sat_add (ph_duplicate_observations_ignored h) 1 \<le> ph_duplicate_observations_ignored h + 1"
    by (rule sat_add_le)
  ultimately show ?thesis using assms(1) by (simp add: accounted_def)
next
  fix pair outcome ids
  assume "apply_observation h ob = record_observation pair outcome ob (h\<lparr>ph_seen_observation_ids := ids\<rparr>)"
  moreover have "accounted n (h\<lparr>ph_seen_observation_ids := ids\<rparr>)"
    using assms(1) by (simp add: accounted_def)
  ultimately show ?thesis using accounted_record assms(2) by simp
qed

lemma accounted_list:
  "accounted n h \<Longrightarrow> n + length obs \<le> u64_max \<Longrightarrow> accounted (n + length obs) (apply_observations h obs)"
proof (induction obs arbitrary: n h)
  case (Cons ob obs)
  then show ?case using Cons.IH [OF accounted_apply [of n h ob]] by simp
qed simp

text \<open>
  The statistics add up: after any log of at most \<open>2^64 - 1\<close> observations, a pair's attempts are
  its successes, conflicts, serialisations, failures and missed overlaps, its candidate
  observations are its four kinds of hints, and every observation counted was given.
\<close>

lemma statistics_add_up:
  assumes "length obs \<le> u64_max"
  shows "accounted (length obs) (apply_observations history_default obs)"
proof -
  have "accounted 0 history_default" by (simp add: accounted_def history_default_def)
  from accounted_list [OF this] assms show ?thesis by simp
qed

theorem statistics_add_up_witness:
  "accounted 1 (apply_observations history_default [sample_observation])"
  using statistics_add_up [of "[sample_observation]"] by (simp add: u64_max_def)

end
