(* ===== verification/Exec_Schedule.thy ===== *)
theory Exec_Schedule
  imports Exec_Batch Parallel_Stats
begin

text \<open>
  Choosing a schedule for a batch (\<open>tools/dispatch/exec_many.rs\<close>).  The floating-point tests on a
  pair's statistics are predicates \<open>pair_tests\<close>: the conflict rate is at least 0.10, the
  serialisation rate at least 0.60, the Wilson lower bound at least 0.70.  The decision's
  \<open>confidence\<close> and \<open>reasons\<close>, which are only reported, are left out.
\<close>

section \<open>Pairs of commands\<close>

fun str_le :: "string \<Rightarrow> string \<Rightarrow> bool" where
  "str_le [] _ = True"
| "str_le (_ # _) [] = False"
| "str_le (a # as) (b # bs) = (code a < code b \<or> a = b \<and> str_le as bs)"

definition parallel_pair_key :: "string \<Rightarrow> string \<Rightarrow> string" where
  "parallel_pair_key left right =
     (if str_le left right then left @ ''|'' @ right else right @ ''|'' @ left)"

fun parallel_command_pairs :: "ExecBatchCommand list \<Rightarrow> (string \<times> bool) list" where
  "parallel_command_pairs [] = []"
| "parallel_command_pairs (l # rest) =
     map (\<lambda>r. (parallel_pair_key (ec_parallel_signature l) (ec_parallel_signature r),
               ec_parallel_prior l = EvidenceRequired \<or> ec_parallel_prior r = EvidenceRequired)) rest
     @ parallel_command_pairs rest"

section \<open>The decision\<close>

record pair_tests =
  conflict_rate_high :: "ParallelPairStats \<Rightarrow> bool"
  serialization_rate_high :: "ParallelPairStats \<Rightarrow> bool"
  lower_bound_safe :: "ParallelPairStats \<Rightarrow> bool"

record ParallelDecision =
  pd_mode :: string
  pd_source :: string
  pd_history_samples :: nat
  pd_blocked_pairs :: nat
  pd_recommended_max_parallel :: nat

definition parallel_decision :: "string \<Rightarrow> string \<Rightarrow> nat \<Rightarrow> nat \<Rightarrow> nat \<Rightarrow> ParallelDecision" where
  "parallel_decision mode source samples blocked recommended =
     \<lparr>pd_mode = mode, pd_source = source, pd_history_samples = samples, pd_blocked_pairs = blocked,
      pd_recommended_max_parallel = recommended\<rparr>"

definition PARALLEL_MIN_CONFIDENT_SAMPLES :: nat where
  "PARALLEL_MIN_CONFIDENT_SAMPLES = 5"

definition conflict_prone :: "pair_tests \<Rightarrow> ParallelPairStats \<Rightarrow> bool" where
  "conflict_prone t stats =
     (pp_conflicts stats \<ge> 2 \<or> (safety_samples stats \<ge> 3 \<and> conflict_rate_high t stats))"

record pair_tally =
  pt_history_samples :: nat
  pt_blocked_pairs :: nat
  pt_conflict_blocks :: nat
  pt_serialization_pairs :: nat

definition tally_pair ::
    "pair_tests \<Rightarrow> (string \<rightharpoonup> ParallelPairStats) \<Rightarrow> pair_tally \<Rightarrow> string \<times> bool \<Rightarrow> pair_tally" where
  "tally_pair t history tally p =
     (let (pair, requires_evidence) = p
      in case history pair of
           Some stats \<Rightarrow>
             let samples = safety_samples stats;
                 conflict = conflict_prone t stats;
                 unproved = (requires_evidence
                   \<and> (samples < PARALLEL_MIN_CONFIDENT_SAMPLES \<or> \<not> lower_bound_safe t stats))
             in tally\<lparr>
                  pt_history_samples := sat_add (pt_history_samples tally) samples,
                  pt_conflict_blocks := pt_conflict_blocks tally + (if conflict then 1 else 0),
                  pt_serialization_pairs := pt_serialization_pairs tally
                    + (if pp_attempts stats \<ge> 3 \<and> serialization_rate_high t stats then 1 else 0),
                  pt_blocked_pairs := pt_blocked_pairs tally + (if conflict \<or> unproved then 1 else 0)\<rparr>
         | None \<Rightarrow>
             tally\<lparr>pt_blocked_pairs := pt_blocked_pairs tally + (if requires_evidence then 1 else 0)\<rparr>)"

definition resolve_exec_many_decision_with_history ::
    "pair_tests \<Rightarrow> string \<Rightarrow> ExecBatchCommand list \<Rightarrow> nat \<Rightarrow> (string \<rightharpoonup> ParallelPairStats)
       \<Rightarrow> ParallelDecision" where
  "resolve_exec_many_decision_with_history t requested commands default_parallel history =
     (if requested \<noteq> ''auto''
      then let mode = (if requested = ''parallel'' then ''parallel''
                       else if requested = ''dag'' then ''dag'' else ''sequential'')
           in parallel_decision mode ''explicit'' 0 0
                (if mode = ''sequential'' then 1 else default_parallel)
      else if list_ex (\<lambda>c. ec_depends_on c \<noteq> []) commands
      then parallel_decision ''dag'' ''dependency_graph'' 0 0 default_parallel
      else if length commands \<le> 1
      then parallel_decision ''sequential'' ''single_command'' 0 0 1
      else if length (filter (\<lambda>c. ec_parallel_prior c = Unsafe) commands) > 0
      then parallel_decision ''sequential'' ''hard_safety_rule'' 0 0 1
      else
        let pairs = parallel_command_pairs commands;
            tally = foldl (tally_pair t history)
                      \<lparr>pt_history_samples = 0, pt_blocked_pairs = 0, pt_conflict_blocks = 0,
                       pt_serialization_pairs = 0\<rparr> pairs;
            samples = pt_history_samples tally
        in if pt_blocked_pairs tally > 0
           then parallel_decision ''sequential''
                  (if pt_conflict_blocks tally > 0 then ''historical_conflict''
                   else ''insufficient_history'')
                  samples (pt_blocked_pairs tally) 1
           else if pairs \<noteq> [] \<and> pt_serialization_pairs tally = length pairs
           then parallel_decision ''sequential'' ''historical_serialization'' samples 0 1
           else parallel_decision ''parallel''
                  (if samples = 0 then ''hard_rules'' else ''historical_statistics'')
                  samples 0
                  (if pt_serialization_pairs tally > 0 then min default_parallel 2
                   else default_parallel))"

definition resolve_exec_many_decision ::
    "pair_tests \<Rightarrow> ParallelHistory \<Rightarrow> string \<Rightarrow> ExecBatchCommand list \<Rightarrow> nat \<Rightarrow> ParallelDecision" where
  "resolve_exec_many_decision t profile_history requested commands default_parallel =
     resolve_exec_many_decision_with_history t requested commands default_parallel
       (parallel_pair_history profile_history (map fst (parallel_command_pairs commands)))"

definition exec_many_mode :: "json \<Rightarrow> exec_error + string" where
  "exec_many_mode args =
     (let mode = (case get_str args ''mode'' of Some m \<Rightarrow> m | None \<Rightarrow> ''auto'')
      in if mode \<in> {''auto'', ''sequential'', ''parallel'', ''dag''} then Inr mode
         else Inl InvalidMode)"

definition exec_many_result_mode :: "json \<Rightarrow> exec_error + string option" where
  "exec_many_result_mode args =
     (case get_str args ''result_mode'' of
        None \<Rightarrow> Inr None
      | Some mode \<Rightarrow>
          if mode \<in> {''full'', ''summary'', ''none''} then Inr (Some mode) else Inl InvalidResultMode)"

definition default_exec_many_parallelism :: "nat \<Rightarrow> nat \<Rightarrow> nat" where
  "default_exec_many_parallelism command_count process_limit =
     clamp (min command_count process_limit) 1 8"

text \<open>The width of the schedule, from the caller's wish, the host's limit and the decision.\<close>

definition resolve_max_parallel :: "json \<Rightarrow> string \<Rightarrow> ParallelDecision \<Rightarrow> nat \<Rightarrow> nat \<Rightarrow> nat" where
  "resolve_max_parallel args requested_mode decision default_parallel process_limit =
     (let configured_parallel =
            clamp (case get_u64 args ''max_parallel'' of Some v \<Rightarrow> v | None \<Rightarrow> default_parallel)
              1 process_limit
      in if pd_mode decision = ''sequential'' then 1
         else if requested_mode = ''auto''
         then max (min configured_parallel (pd_recommended_max_parallel decision)) 1
         else configured_parallel)"

section \<open>Automatic parallelism needs evidence\<close>

text \<open>A pair the history and the hard rules let run together.\<close>

definition pair_allowed :: "pair_tests \<Rightarrow> (string \<rightharpoonup> ParallelPairStats) \<Rightarrow> string \<times> bool \<Rightarrow> bool" where
  "pair_allowed t history p =
     (case history (fst p) of
        Some stats \<Rightarrow> \<not> conflict_prone t stats
          \<and> (snd p \<longrightarrow> 5 \<le> safety_samples stats \<and> lower_bound_safe t stats)
      | None \<Rightarrow> \<not> snd p)"

lemma tally_blocked:
  "pt_blocked_pairs (foldl (tally_pair t history) tally pairs) = 0
   \<longleftrightarrow> pt_blocked_pairs tally = 0 \<and> list_all (pair_allowed t history) pairs"
proof (induction pairs arbitrary: tally)
  case (Cons p pairs)
  have "pt_blocked_pairs (tally_pair t history tally p) = 0
      \<longleftrightarrow> pt_blocked_pairs tally = 0 \<and> pair_allowed t history p"
    by (cases p; cases "history (fst p)")
      (auto simp: tally_pair_def pair_allowed_def PARALLEL_MIN_CONFIDENT_SAMPLES_def Let_def not_less)
  then show ?case by (simp add: Cons)
qed simp

lemma parallel_command_pairs_mem:
  "l < r \<Longrightarrow> r < length cs \<Longrightarrow>
   (parallel_pair_key (ec_parallel_signature (cs ! l)) (ec_parallel_signature (cs ! r)),
    ec_parallel_prior (cs ! l) = EvidenceRequired \<or> ec_parallel_prior (cs ! r) = EvidenceRequired)
   \<in> set (parallel_command_pairs cs)"
proof (induction cs arbitrary: l r)
  case (Cons c cs)
  show ?case
  proof (cases l)
    case 0
    with Cons.prems obtain r' where "r = Suc r'" "r' < length cs" by (cases r) auto
    with 0 show ?thesis by auto
  next
    case (Suc l')
    with Cons.prems obtain r' where "r = Suc r'" "l' < r'" "r' < length cs" by (cases r) auto
    with Suc Cons.IH show ?thesis by simp
  qed
qed simp

text \<open>
  \<open>mode=auto\<close> runs commands in parallel only on evidence: none has a dependency or is opaque, and
  every two commands form a pair without a record of conflicts which, unless both are known to be
  safe, has at least five safety samples and a safe lower bound; commands with dependencies are
  always scheduled as a graph.
\<close>

lemma auto_parallel_needs_evidence:
  assumes "resolve_exec_many_decision_with_history t ''auto'' commands dflt history = d"
  shows "(pd_mode d = ''parallel'' \<longrightarrow>
            (\<forall>c \<in> set commands. ec_depends_on c = [] \<and> ec_parallel_prior c \<noteq> Unsafe)
          \<and> (\<forall>r < length commands. \<forall>l < r.
               pair_allowed t history
                 (parallel_pair_key (ec_parallel_signature (commands ! l)) (ec_parallel_signature (commands ! r)),
                  ec_parallel_prior (commands ! l) = EvidenceRequired
                  \<or> ec_parallel_prior (commands ! r) = EvidenceRequired)))
       \<and> (pd_mode d = ''dag'' \<longleftrightarrow> (\<exists>c \<in> set commands. ec_depends_on c \<noteq> []))"
proof -
  define tally where "tally = foldl (tally_pair t history)
      \<lparr>pt_history_samples = 0, pt_blocked_pairs = 0, pt_conflict_blocks = 0, pt_serialization_pairs = 0\<rparr>
      (parallel_command_pairs commands)"
  have none: "parallel_command_pairs commands = [] \<Longrightarrow> pt_blocked_pairs tally = 0"
    by (simp add: tally_def)
  have mode: "pd_mode d =
      (if list_ex (\<lambda>c. ec_depends_on c \<noteq> []) commands then ''dag''
       else if length commands \<le> 1 \<or> filter (\<lambda>c. ec_parallel_prior c = Unsafe) commands \<noteq> []
         \<or> pt_blocked_pairs tally > 0
         \<or> parallel_command_pairs commands \<noteq> []
            \<and> pt_serialization_pairs tally = length (parallel_command_pairs commands)
       then ''sequential'' else ''parallel'')"
    unfolding assms [symmetric] using none
    by (simp add: resolve_exec_many_decision_with_history_def Let_def parallel_decision_def
        flip: tally_def)
  have "list_all (pair_allowed t history) (parallel_command_pairs commands)"
    if "pd_mode d = ''parallel''"
    using that mode tally_blocked [of t history _ "parallel_command_pairs commands"]
    by (auto simp: tally_def split: if_splits)
  with parallel_command_pairs_mem [of _ _ commands] mode show ?thesis
    by (auto simp: list_all_iff list_ex_iff filter_empty_conv split: if_splits)
qed

definition tool_command :: "nat \<Rightarrow> ParallelPrior \<Rightarrow> ExecBatchCommand" where
  "tool_command i prior =
     \<lparr>ec_index = i, ec_id = decimal i, ec_depends_on = [], ec_run_if = ''success'', ec_lock_group = None,
      ec_lock_group_inferred = False, ec_parallel_signature = ''node:script'',
      ec_parallel_prior = prior, ec_args = JObj []\<rparr>"

definition lenient_tests :: pair_tests where
  "lenient_tests = \<lparr>conflict_rate_high = (\<lambda>_. False), serialization_rate_high = (\<lambda>_. False),
                    lower_bound_safe = (\<lambda>_. True)\<rparr>"

theorem auto_parallel_needs_evidence_witness:
  "pd_mode (resolve_exec_many_decision_with_history lenient_tests ''auto''
      [tool_command 0 Safe, tool_command 1 EvidenceRequired] 4 Map.empty) \<noteq> ''parallel''"
proof
  define cs where "cs = [tool_command 0 Safe, tool_command 1 EvidenceRequired]"
  assume "pd_mode (resolve_exec_many_decision_with_history lenient_tests ''auto''
      [tool_command 0 Safe, tool_command 1 EvidenceRequired] 4 Map.empty) = ''parallel''"
  then have "\<forall>r < length cs. \<forall>l < r. pair_allowed lenient_tests Map.empty
      (parallel_pair_key (ec_parallel_signature (cs ! l)) (ec_parallel_signature (cs ! r)),
       ec_parallel_prior (cs ! l) = EvidenceRequired \<or> ec_parallel_prior (cs ! r) = EvidenceRequired)"
    using auto_parallel_needs_evidence [OF refl, of lenient_tests cs 4 Map.empty] by (simp add: cs_def)
  from this [rule_format, of 1 0] show False
    by (simp add: pair_allowed_def cs_def tool_command_def)
qed

text \<open>
  The width of a schedule is positive, never above the host's process limit, and one whenever
  the mode is sequential.
\<close>

lemma max_parallel_bounded:
  assumes "1 \<le> process_limit"
  shows "1 \<le> resolve_max_parallel args requested d dflt process_limit
       \<and> resolve_max_parallel args requested d dflt process_limit \<le> process_limit
       \<and> (pd_mode d = ''sequential'' \<longrightarrow> resolve_max_parallel args requested d dflt process_limit = 1)"
  using assms by (auto simp: resolve_max_parallel_def Let_def clamp_def)

theorem max_parallel_bounded_witness:
  "resolve_max_parallel (JObj [(''max_parallel'', JInt 500)]) ''dag''
     (parallel_decision ''dag'' ''explicit'' 0 0 4) 4 16 \<le> 16"
  using max_parallel_bounded [of 16] by simp

end
