(* ===== verification/Exec_Dag.thy ===== *)
theory Exec_Dag
  imports Exec_Schedule "HOL-Library.Multiset"
begin

text \<open>
  Running a batch of dependent commands (\<open>tools/dispatch/exec_many.rs\<close>): the check that the
  dependencies form a graph without cycles and the scheduler that runs it in waves.  What a
  command does is a parameter \<open>run\<close>, a function of the command since each is run at most once;
  a worker task may also be lost (\<open>JoinFailed\<close>).  The iteration order of a \<open>HashMap\<close> is a
  parameter \<open>order\<close>, any reordering of the keys.
\<close>

section \<open>Results\<close>

definition json_opt :: "string option \<Rightarrow> json" where
  "json_opt v = (case v of Some s \<Rightarrow> JStr s | None \<Rightarrow> JNull)"

definition batch_result ::
    "ExecBatchCommand \<Rightarrow> json \<Rightarrow> bool \<Rightarrow> bool \<Rightarrow> string option \<Rightarrow> nat \<Rightarrow> nat \<Rightarrow> json" where
  "batch_result command result command_ok skipped skip_reason resource_lock_wait_ms
      batch_queue_wait_ms =
     JObj [(''index'', JInt (int (ec_index command))),
           (''id'', JStr (ec_id command)),
           (''depends_on'', JArr (map JStr (ec_depends_on command))),
           (''run_if'', JStr (ec_run_if command)),
           (''lock_group'', json_opt (ec_lock_group command)),
           (''command'', ec_args command),
           (''command_ok'', JBool command_ok),
           (''skipped'', JBool skipped),
           (''skip_reason'', json_opt skip_reason),
           (''resource_lock_wait_ms'', JInt (int resource_lock_wait_ms)),
           (''batch_queue_wait_ms'', JInt (int batch_queue_wait_ms)),
           (''result'', result)]"

definition skipped_batch_result :: "ExecBatchCommand \<Rightarrow> string \<Rightarrow> json" where
  "skipped_batch_result command reason =
     batch_result command
       (JObj [(''ok'', JBool True), (''command_ok'', JBool False), (''status'', JStr ''skipped''),
              (''outcome_class'', JStr ''skipped''), (''reason'', JStr reason)])
       False True (Some reason) 0 0"

definition with_member :: "string \<Rightarrow> json \<Rightarrow> json \<Rightarrow> json" where
  "with_member k v j = (case j of JObj kvs \<Rightarrow> JObj (obj_insert k v kvs) | _ \<Rightarrow> j)"

definition conditional_skipped_batch_result :: "ExecBatchCommand \<Rightarrow> json" where
  "conditional_skipped_batch_result command =
     with_member ''conditional_skip'' (JBool True)
       (batch_result command
         (JObj [(''ok'', JBool True), (''command_ok'', JNull), (''status'', JStr ''skipped''),
                (''outcome_class'', JStr ''condition_not_met''),
                (''reason'', JStr ''run_condition_not_met'')])
         False True (Some ''run_condition_not_met'') 0 0)"

datatype command_outcome =
    Completed json nat nat
  | GraphCancelled
  | JoinFailed json

text \<open>
  The value of one worker task: the command's result with \<open>command_ok\<close> read off it, a skip when the
  graph was cancelled before it started, or the record of a lost task.
\<close>

definition result_command_ok :: "json \<Rightarrow> bool" where
  "result_command_ok v = (get_bool v ''command_ok'' = Some True)"

definition worker_result :: "ExecBatchCommand \<Rightarrow> command_outcome \<Rightarrow> json" where
  "worker_result command out =
     (case out of
        Completed result lock_wait queue_wait \<Rightarrow>
          batch_result command result (result_command_ok result) False None lock_wait queue_wait
      | GraphCancelled \<Rightarrow> skipped_batch_result command ''graph_cancelled''
      | JoinFailed error \<Rightarrow>
          JObj [(''index'', JInt (int u64_max)), (''id'', JStr ''join-failure''),
                (''command_ok'', JBool False), (''skipped'', JBool False), (''result'', error)])"

definition result_index :: "json \<Rightarrow> nat" where
  "result_index r = (case get_u64 r ''index'' of Some n \<Rightarrow> n | None \<Rightarrow> u64_max)"

definition run_exec_batch_wave ::
    "(ExecBatchCommand \<Rightarrow> command_outcome) \<Rightarrow> ExecBatchCommand list \<Rightarrow> json list" where
  "run_exec_batch_wave run commands =
     sort_key result_index (map (\<lambda>c. worker_result c (run c)) commands)"

section \<open>The cycle check\<close>

definition initial_indegree :: "ExecBatchCommand list \<Rightarrow> (string \<rightharpoonup> nat)" where
  "initial_indegree commands =
     map_of (rev (map (\<lambda>c. (ec_id c, length (ec_depends_on c))) commands))"

definition dependents_of :: "ExecBatchCommand list \<Rightarrow> string \<Rightarrow> string list" where
  "dependents_of commands dependency =
     concat (map (\<lambda>c. map (\<lambda>_. ec_id c) (filter (\<lambda>d. d = dependency) (ec_depends_on c))) commands)"

text \<open>One visit: each dependent loses a dependency and becomes ready when it has none left.\<close>

definition release ::
    "(string \<rightharpoonup> nat) \<times> string list \<Rightarrow> string \<Rightarrow> (string \<rightharpoonup> nat) \<times> string list" where
  "release st dependent =
     (let (indegree, ready) = st;
          degree = the (indegree dependent) - 1
      in (indegree(dependent \<mapsto> degree), if degree = 0 then dependent # ready else ready))"

text \<open>The loop; the ready stack has its top first.\<close>

partial_function (option) visit_all ::
    "ExecBatchCommand list \<Rightarrow> (string \<rightharpoonup> nat) \<Rightarrow> string list \<Rightarrow> nat \<Rightarrow> nat option" where
  "visit_all commands indegree ready visited =
     (case ready of
        [] \<Rightarrow> Some visited
      | i # rest \<Rightarrow>
          (let (indegree', ready') = foldl release (indegree, rest) (dependents_of commands i)
           in visit_all commands indegree' ready' (visited + 1)))"

definition validate_exec_batch_dag ::
    "(string list \<Rightarrow> string list) \<Rightarrow> ExecBatchCommand list \<Rightarrow> (exec_error + unit) option" where
  "validate_exec_batch_dag order commands =
     (let indegree = initial_indegree commands;
          ready = rev (filter (\<lambda>i. indegree i = Some 0) (order (remdups (map ec_id commands))))
      in map_option (\<lambda>visited. if visited = length commands then Inr () else Inl DependencyCycle)
           (visit_all commands indegree ready 0))"

section \<open>The wave scheduler\<close>

type_synonym completed = "string \<rightharpoonup> bool"

record dag_pass =
  dp_completed :: completed
  dp_results :: "json list"
  dp_ready :: "ExecBatchCommand list"
  dp_remaining :: "ExecBatchCommand list"

definition dependencies_resolved :: "completed \<Rightarrow> ExecBatchCommand \<Rightarrow> bool" where
  "dependencies_resolved cmap c = list_all (\<lambda>d. cmap d \<noteq> None) (ec_depends_on c)"

definition dependency_failed :: "completed \<Rightarrow> ExecBatchCommand \<Rightarrow> bool" where
  "dependency_failed cmap c = list_ex (\<lambda>d. cmap d = Some False) (ec_depends_on c)"

definition skip_in_pass :: "dag_pass \<Rightarrow> ExecBatchCommand \<Rightarrow> json \<Rightarrow> dag_pass" where
  "skip_in_pass p c r =
     p\<lparr>dp_completed := (dp_completed p)(ec_id c \<mapsto> False), dp_results := dp_results p @ [r]\<rparr>"

definition classify :: "bool \<Rightarrow> dag_pass \<Rightarrow> ExecBatchCommand \<Rightarrow> dag_pass" where
  "classify stop_triggered p c =
     (if \<not> dependencies_resolved (dp_completed p) c
      then p\<lparr>dp_remaining := dp_remaining p @ [c]\<rparr>
      else
        let failed = dependency_failed (dp_completed p) c
        in if ec_run_if c = ''success'' \<and> failed
           then skip_in_pass p c (skipped_batch_result c ''dependency_failed'')
           else if ec_run_if c = ''failure'' \<and> \<not> failed
           then skip_in_pass p c (conditional_skipped_batch_result c)
           else if ec_run_if c = ''success'' \<and> stop_triggered
           then skip_in_pass p c (skipped_batch_result c ''stopped_after_failure'')
           else p\<lparr>dp_ready := dp_ready p @ [c]\<rparr>)"

definition dag_pass_of :: "bool \<Rightarrow> completed \<Rightarrow> json list \<Rightarrow> ExecBatchCommand list \<Rightarrow> dag_pass" where
  "dag_pass_of stop_triggered cmap results pending =
     foldl (classify stop_triggered)
       \<lparr>dp_completed = cmap, dp_results = results, dp_ready = [], dp_remaining = []\<rparr> pending"

definition note_result :: "completed \<Rightarrow> json \<Rightarrow> completed" where
  "note_result cmap r =
     (case get_str r ''id'' of Some i \<Rightarrow> cmap(i \<mapsto> result_command_ok r) | None \<Rightarrow> cmap)"

lemma dag_pass_lengths:
  "length (dp_ready (foldl (classify s) p pending)) + length (dp_remaining (foldl (classify s) p pending))
     \<le> length (dp_ready p) + length (dp_remaining p) + length pending"
proof (induction pending arbitrary: p)
  case (Cons c pending)
  have "length (dp_ready (classify s p c)) + length (dp_remaining (classify s p c))
      \<le> length (dp_ready p) + length (dp_remaining p) + 1"
    by (simp add: classify_def skip_in_pass_def Let_def)
  with Cons [of "classify s p c"] show ?case by simp
qed simp

lemma dag_pass_shrinks:
  "dp_ready (dag_pass_of s cmap results pending) \<noteq> [] \<Longrightarrow>
   length (dp_remaining (dag_pass_of s cmap results pending)) < length pending"
  using dag_pass_lengths [of s "\<lparr>dp_completed = cmap, dp_results = results, dp_ready = [], dp_remaining = []\<rparr>" pending]
  by (cases "dp_ready (dag_pass_of s cmap results pending)") (simp_all add: dag_pass_of_def)

function dag_loop ::
    "bool \<Rightarrow> (ExecBatchCommand \<Rightarrow> command_outcome) \<Rightarrow> bool \<Rightarrow> completed \<Rightarrow> json list
       \<Rightarrow> ExecBatchCommand list \<Rightarrow> json list" where
  "dag_loop stop_on_error run triggered cmap results pending =
     (if pending = [] then results
      else
        let p = dag_pass_of triggered cmap results pending
        in if dp_ready p = []
           then dp_results p @ map (\<lambda>c. skipped_batch_result c ''dependency_unresolved'') (dp_remaining p)
           else
             let wave = run_exec_batch_wave run (dp_ready p);
                 failed = list_ex (\<lambda>r. \<not> result_command_ok r) wave
             in dag_loop stop_on_error run (triggered \<or> stop_on_error \<and> failed)
                  (foldl note_result (dp_completed p) wave) (dp_results p @ wave) (dp_remaining p))"
  by pat_completeness auto
termination
  by (relation "measure (\<lambda>(_, _, _, _, _, pending). length pending)") (simp_all add: dag_pass_shrinks)

declare dag_loop.simps [simp del]

definition run_exec_batch_dag ::
    "bool \<Rightarrow> (ExecBatchCommand \<Rightarrow> command_outcome) \<Rightarrow> ExecBatchCommand list \<Rightarrow> json list" where
  "run_exec_batch_dag stop_on_error run commands =
     sort_key result_index (dag_loop stop_on_error run False Map.empty [] commands)"

text \<open>The other two modes: in order up to the first failure, and one wave.\<close>

fun run_sequential ::
    "bool \<Rightarrow> (ExecBatchCommand \<Rightarrow> command_outcome) \<Rightarrow> ExecBatchCommand list \<Rightarrow> json list" where
  "run_sequential stop_on_error run [] = []"
| "run_sequential stop_on_error run (c # cs) =
     (let r = worker_result c (run c)
      in if stop_on_error \<and> \<not> result_command_ok r then [r]
         else r # run_sequential stop_on_error run cs)"

section \<open>The cycle check is exact\<close>

definition batch_ids :: "ExecBatchCommand list \<Rightarrow> string set" where
  "batch_ids cs = ec_id ` set cs"

definition valid_batch :: "ExecBatchCommand list \<Rightarrow> bool" where
  "valid_batch cs = (distinct (map ec_id cs) \<and> (\<forall>c \<in> set cs. set (ec_depends_on c) \<subseteq> batch_ids cs))"

definition dependency_edges :: "ExecBatchCommand list \<Rightarrow> (string \<times> string) set" where
  "dependency_edges cs = {(d, ec_id c) | c d. c \<in> set cs \<and> d \<in> set (ec_depends_on c)}"

definition dep_list :: "ExecBatchCommand list \<Rightarrow> string \<Rightarrow> string list" where
  "dep_list cs i = concat (map ec_depends_on (filter (\<lambda>c. ec_id c = i) cs))"

definition waiting :: "ExecBatchCommand list \<Rightarrow> string set \<Rightarrow> string \<Rightarrow> nat" where
  "waiting cs P i = length (filter (\<lambda>d. d \<notin> P) (dep_list cs i))"

lemma edges_dep_list: "(d, i) \<in> dependency_edges cs \<longleftrightarrow> d \<in> set (dep_list cs i)"
  by (auto simp: dependency_edges_def dep_list_def)

lemma dep_list_subset: "valid_batch cs \<Longrightarrow> set (dep_list cs i) \<subseteq> batch_ids cs"
  by (auto simp: valid_batch_def dep_list_def)

lemma dep_list_dom: "d \<in> set (dep_list cs i) \<Longrightarrow> i \<in> batch_ids cs"
  by (auto simp: dep_list_def batch_ids_def)

lemma count_list_map_const: "count_list (map (\<lambda>_. a) xs) b = (if a = b then length xs else 0)"
  by (induction xs) auto

lemma length_filter_count: "length (filter (\<lambda>d. d = x) xs) = count_list xs x"
  by (induction xs) auto

lemma count_dependents: "count_list (dependents_of cs d) i = count_list (dep_list cs i) d"
  by (induction cs) (auto simp: dependents_of_def dep_list_def count_list_map_const length_filter_count)

lemma waiting_insert:
  "i \<notin> P \<Longrightarrow> waiting cs (insert i P) j = waiting cs P j - count_list (dep_list cs j) i
   \<and> count_list (dep_list cs j) i \<le> waiting cs P j"
proof -
  assume "i \<notin> P"
  then have "length (filter (\<lambda>d. d \<notin> insert i P) xs) + count_list xs i = length (filter (\<lambda>d. d \<notin> P) xs)"
    for xs by (induction xs) auto
  from this [of "dep_list cs j"] show ?thesis by (simp add: waiting_def)
qed

lemma initial_indegree_eq:
  assumes "distinct (map ec_id cs)" and "i \<in> batch_ids cs"
  shows "initial_indegree cs i = Some (waiting cs {} i)"
proof -
  obtain c where c: "c \<in> set cs" "ec_id c = i"
    using assms(2) by (auto simp: batch_ids_def)
  have d: "distinct (map fst (rev (map (\<lambda>c. (ec_id c, length (ec_depends_on c))) cs)))"
    using assms(1) by (simp add: comp_def flip: rev_map)
  have "filter (\<lambda>c'. ec_id c' = i) cs = [c]"
    using assms(1) c
  proof (induction cs)
    case (Cons a cs)
    then show ?case by (auto simp: filter_empty_conv image_iff)
  qed simp
  then have "dep_list cs i = ec_depends_on c" by (simp add: dep_list_def)
  moreover have "map_of (rev (map (\<lambda>c. (ec_id c, length (ec_depends_on c))) cs)) i = Some (length (ec_depends_on c))"
    by (rule map_of_is_SomeI [OF d]) (use c in auto)
  ultimately show ?thesis
    by (simp add: initial_indegree_def waiting_def)
qed

lemma release_fold:
  "\<forall>j \<in> set ds. ind j \<noteq> None \<and> count_list ds j \<le> the (ind j) \<Longrightarrow> distinct rest \<Longrightarrow>
   \<forall>j \<in> set ds. j \<notin> set rest \<Longrightarrow> foldl release (ind, rest) ds = (ind', ready') \<Longrightarrow>
   (\<forall>j. ind' j = map_option (\<lambda>n. n - count_list ds j) (ind j))
   \<and> distinct ready' \<and> set ready' = set rest \<union> {j \<in> set ds. the (ind j) = count_list ds j}"
proof (induction ds arbitrary: ind rest)
  case Nil
  then show ?case by (simp add: option.map_ident)
next
  case (Cons d ds)
  define n where "n = the (ind d)"
  have n: "ind d = Some n" and le: "count_list ds d + 1 \<le> n"
    using Cons.prems(1) by (auto simp: n_def)
  define ind1 where "ind1 = ind(d \<mapsto> n - 1)"
  define rest1 where "rest1 = (if n - 1 = 0 then d # rest else rest)"
  have step: "foldl release (ind1, rest1) ds = (ind', ready')"
  proof -
    have "release (ind, rest) d = (ind1, rest1)"
      by (simp add: release_def n ind1_def rest1_def)
    with Cons.prems(4) show ?thesis by simp
  qed
  have zero: "n - 1 = 0 \<Longrightarrow> d \<notin> set ds"
    using le by (metis Nat.le_diff_conv2 add_leD2 count_list_0_iff le_zero_eq)
  have "\<forall>j \<in> set ds. ind1 j \<noteq> None \<and> count_list ds j \<le> the (ind1 j)"
    using Cons.prems(1) le by (auto simp: ind1_def)
  moreover have "distinct rest1" "\<forall>j \<in> set ds. j \<notin> set rest1"
    using Cons.prems(2,3) zero by (auto simp: rest1_def)
  ultimately have "(\<forall>j. ind' j = map_option (\<lambda>n. n - count_list ds j) (ind1 j))
     \<and> distinct ready' \<and> set ready' = set rest1 \<union> {j \<in> set ds. the (ind1 j) = count_list ds j}"
    using Cons.IH step by blast
  moreover have "map_option (\<lambda>n. n - count_list ds j) (ind1 j) = map_option (\<lambda>n. n - count_list (d # ds) j) (ind j)" for j
    using n by (simp add: ind1_def)
  moreover have "set rest1 \<union> {j \<in> set ds. the (ind1 j) = count_list ds j}
      = set rest \<union> {j \<in> set (d # ds). the (ind j) = count_list (d # ds) j}"
    using n le zero count_list_0_iff [of ds d] by (auto simp: rest1_def ind1_def split: if_splits)
  ultimately show ?case by simp
qed

text \<open>The visited commands, latest first, each after all it depends on.\<close>

fun visited_in_order :: "ExecBatchCommand list \<Rightarrow> string list \<Rightarrow> bool" where
  "visited_in_order cs [] = True"
| "visited_in_order cs (i # P) = (i \<notin> set P \<and> set (dep_list cs i) \<subseteq> set P \<and> visited_in_order cs P)"

definition kahn_inv ::
    "ExecBatchCommand list \<Rightarrow> (string \<rightharpoonup> nat) \<Rightarrow> string list \<Rightarrow> string list \<Rightarrow> bool" where
  "kahn_inv cs ind R P =
     (visited_in_order cs P \<and> set P \<subseteq> batch_ids cs
      \<and> (\<forall>i \<in> batch_ids cs. ind i = Some (waiting cs (set P) i))
      \<and> distinct R \<and> set R = {i \<in> batch_ids cs. i \<notin> set P \<and> waiting cs (set P) i = 0})"

lemma visited_waiting: "visited_in_order cs P \<Longrightarrow> j \<in> set P \<Longrightarrow> waiting cs (set P) j = 0"
  by (induction P) (auto simp: waiting_def filter_empty_conv)

lemma waiting_zero_subset: "waiting cs P i = 0 \<longleftrightarrow> set (dep_list cs i) \<subseteq> P"
  by (auto simp: waiting_def filter_empty_conv)

lemma kahn_step:
  assumes inv: "kahn_inv cs ind (i # rest) P"
    and step: "foldl release (ind, rest) (dependents_of cs i) = (ind', R')"
  shows "kahn_inv cs ind' R' (i # P)"
proof -
  define P' where "P' = insert i (set P)"
  have i: "i \<notin> set P" "i \<in> batch_ids cs" "waiting cs (set P) i = 0"
    and ind: "\<And>j. j \<in> batch_ids cs \<Longrightarrow> ind j = Some (waiting cs (set P) j)"
    and rest: "distinct rest" "i \<notin> set rest"
      "insert i (set rest) = {i \<in> batch_ids cs. i \<notin> set P \<and> waiting cs (set P) i = 0}"
    and P: "visited_in_order cs P" "set P \<subseteq> batch_ids cs"
    using inv by (auto simp: kahn_inv_def)
  have w: "waiting cs P' j = waiting cs (set P) j - count_list (dep_list cs j) i"
    "count_list (dep_list cs j) i \<le> waiting cs (set P) j" for j
    using waiting_insert [OF i(1), of cs j] by (simp_all add: P'_def)
  have dep: "j \<in> set (dependents_of cs i) \<longleftrightarrow> count_list (dep_list cs j) i > 0" for j
    using count_dependents [of cs i j] count_list_0_iff [of "dependents_of cs i" j] by auto
  have dom: "j \<in> batch_ids cs" if "j \<in> set (dependents_of cs i)" for j
    using that dep dep_list_dom [of i cs j] count_list_0_iff [of "dep_list cs j" i] by auto
  have pre: "\<forall>j \<in> set (dependents_of cs i). ind j \<noteq> None
      \<and> count_list (dependents_of cs i) j \<le> the (ind j)"
    using ind dom w(2) by (simp add: count_dependents)
  have disj: "\<forall>j \<in> set (dependents_of cs i). j \<notin> set rest"
  proof
    fix j assume j: "j \<in> set (dependents_of cs i)"
    then have "waiting cs (set P) j > 0" using dep w(2) [of j] by auto
    moreover have "waiting cs (set P) j = 0" if "j \<in> set rest" using that rest(3) by blast
    ultimately show "j \<notin> set rest" by auto
  qed
  from release_fold [OF pre rest(1) disj step]
  have out: "\<And>j. ind' j = map_option (\<lambda>n. n - count_list (dependents_of cs i) j) (ind j)"
    "distinct R'" "set R' = set rest \<union> {j \<in> set (dependents_of cs i).
        the (ind j) = count_list (dependents_of cs i) j}"
    by auto
  have ind': "\<forall>j \<in> batch_ids cs. ind' j = Some (waiting cs P' j)"
    using ind w(1) by (simp add: out(1) count_dependents)
  have "set R' = {j \<in> batch_ids cs. j \<notin> P' \<and> waiting cs P' j = 0}"
  proof (rule set_eqI)
    fix j
    show "j \<in> set R' \<longleftrightarrow> j \<in> {j \<in> batch_ids cs. j \<notin> P' \<and> waiting cs P' j = 0}"
    proof (cases "j \<in> set (dependents_of cs i)")
      case True
      then have pos: "waiting cs (set P) j > 0" using dep w(2) [of j] by auto
      then have "j \<noteq> i" "j \<notin> set P" using i(3) visited_waiting [OF P(1)] by auto
      moreover have "ind j = Some (waiting cs (set P) j)" "j \<in> batch_ids cs" "j \<notin> set rest"
        using True dom ind disj by simp_all
      ultimately show ?thesis
        using True w [of j] by (auto simp: out(3) P'_def count_dependents)
    next
      case False
      then have "count_list (dep_list cs j) i = 0" using dep by auto
      then have "waiting cs P' j = waiting cs (set P) j" using w(1) by simp
      moreover have "j \<in> set rest \<longleftrightarrow> j \<in> batch_ids cs \<and> j \<notin> P' \<and> waiting cs (set P) j = 0"
        using rest(2,3) by (auto simp: P'_def)
      ultimately show ?thesis using False by (auto simp: out(3))
    qed
  qed
  then show ?thesis
    using P i ind' out(2) waiting_zero_subset [of cs "set P" i]
    by (simp add: kahn_inv_def P'_def)
qed

lemma visited_length: "kahn_inv cs ind R P \<Longrightarrow> length P \<le> card (batch_ids cs)"
proof -
  assume inv: "kahn_inv cs ind R P"
  then have "visited_in_order cs P" and sub: "set P \<subseteq> batch_ids cs" by (simp_all add: kahn_inv_def)
  then have "distinct P" by (induction P) auto
  then have "length P = card (set P)" by (simp add: distinct_card)
  also have "\<dots> \<le> card (batch_ids cs)"
    using sub by (simp add: card_mono batch_ids_def)
  finally show ?thesis .
qed

lemma visit_all_total:
  "kahn_inv cs ind R P \<Longrightarrow> \<exists>ind' P'. visit_all cs ind R (length P) = Some (length P') \<and> kahn_inv cs ind' [] P'"
proof (induction "card (batch_ids cs) - length P" arbitrary: ind R P rule: less_induct)
  case less
  show ?case
  proof (cases R)
    case Nil
    with less.prems show ?thesis by (subst visit_all.simps) auto
  next
    case (Cons i rest)
    obtain ind1 R1 where step: "foldl release (ind, rest) (dependents_of cs i) = (ind1, R1)"
      by (cases "foldl release (ind, rest) (dependents_of cs i)")
    from kahn_step [OF less.prems [unfolded Cons] step] have inv: "kahn_inv cs ind1 R1 (i # P)" .
    from visited_length [OF this] have "card (batch_ids cs) - length (i # P) < card (batch_ids cs) - length P"
      by simp
    from less.hyps [OF this inv] obtain ind' P' where
      "visit_all cs ind1 R1 (length (i # P)) = Some (length P')" "kahn_inv cs ind' [] P'" by blast
    then show ?thesis
      by (subst visit_all.simps) (auto simp: Cons step)
  qed
qed

definition visit_rank :: "string list \<Rightarrow> string \<Rightarrow> nat" where
  "visit_rank P i = length (takeWhile (\<lambda>j. j \<noteq> i) (rev P))"

lemma visit_rank_Cons:
  "j \<in> set P \<Longrightarrow> visit_rank (i # P) j = visit_rank P j"
  "i \<notin> set P \<Longrightarrow> visit_rank (i # P) i = length P"
  "j \<in> set P \<Longrightarrow> visit_rank P j < length P"
proof -
  show "visit_rank (i # P) j = visit_rank P j" if "j \<in> set P"
    using that by (simp add: visit_rank_def takeWhile_append1 [of j])
  show "visit_rank (i # P) i = length P" if "i \<notin> set P"
    using that by (auto simp: visit_rank_def takeWhile_append)
  show "visit_rank P j < length P" if "j \<in> set P"
  proof -
    have "takeWhile (\<lambda>x. x \<noteq> j) xs \<noteq> xs \<Longrightarrow> length (takeWhile (\<lambda>x. x \<noteq> j) xs) < length xs" for xs
      by (induction xs) (auto split: if_splits)
    moreover have "takeWhile (\<lambda>x. x \<noteq> j) (rev P) \<noteq> rev P"
      using that by (metis set_rev set_takeWhileD)
    ultimately show ?thesis unfolding visit_rank_def by (metis length_rev)
  qed
qed

lemma visited_rank:
  "visited_in_order cs P \<Longrightarrow> i \<in> set P \<Longrightarrow> d \<in> set (dep_list cs i) \<Longrightarrow> visit_rank P d < visit_rank P i"
proof (induction P)
  case (Cons a P)
  show ?case
  proof (cases "i = a")
    case True
    with Cons.prems have "d \<in> set P" "a \<notin> set P" by auto
    with True show ?thesis by (simp add: visit_rank_Cons)
  next
    case False
    with Cons.prems have i: "i \<in> set P" by simp
    have "d \<in> set P"
    proof -
      have "waiting cs (set P) i = 0" using visited_waiting i Cons.prems(1) by simp
      with Cons.prems(3) show ?thesis using waiting_zero_subset by blast
    qed
    with i Cons show ?thesis by (simp add: visit_rank_Cons)
  qed
qed simp

lemma visited_distinct: "visited_in_order cs P \<Longrightarrow> distinct P"
  by (induction P) auto

lemma acyclic_if_all_visited:
  assumes "visited_in_order cs P" and "set P = batch_ids cs"
  shows "acyclic (dependency_edges cs)"
proof -
  have "dependency_edges cs \<subseteq> measure (visit_rank P)"
  proof
    fix e assume "e \<in> dependency_edges cs"
    then obtain d i where e: "e = (d, i)" "d \<in> set (dep_list cs i)"
      by (cases e) (auto simp: edges_dep_list)
    with assms(2) dep_list_dom have "i \<in> set P" by blast
    with e assms(1) visited_rank show "e \<in> measure (visit_rank P)" by auto
  qed
  then show ?thesis
    using wf_acyclic wf_subset wf_measure by blast
qed

lemma cyclic_if_some_unvisited:
  assumes inv: "kahn_inv cs ind [] P" and valid: "valid_batch cs" and "set P \<noteq> batch_ids cs"
  shows "\<not> acyclic (dependency_edges cs)"
proof
  assume "acyclic (dependency_edges cs)"
  moreover have "finite (dependency_edges cs)"
  proof (rule finite_subset)
    show "dependency_edges cs \<subseteq> batch_ids cs \<times> batch_ids cs"
      using dep_list_subset [OF valid] dep_list_dom by (auto simp: edges_dep_list) blast
  qed (simp add: batch_ids_def)
  ultimately have "wf (dependency_edges cs)" by (simp add: finite_acyclic_wf)
  moreover obtain j where "j \<in> batch_ids cs - set P"
    using assms(3) inv by (auto simp: kahn_inv_def)
  ultimately obtain z where z: "z \<in> batch_ids cs - set P"
    and least: "\<And>d. (d, z) \<in> dependency_edges cs \<Longrightarrow> d \<notin> batch_ids cs - set P"
    by (metis wfE_min)
  from least dep_list_subset [OF valid] have "set (dep_list cs z) \<subseteq> set P"
    by (auto simp: edges_dep_list)
  then have "waiting cs (set P) z = 0" by (simp add: waiting_zero_subset)
  with z inv show False by (auto simp: kahn_inv_def)
qed

lemma card_batch_ids: "valid_batch cs \<Longrightarrow> card (batch_ids cs) = length cs"
  unfolding valid_batch_def batch_ids_def by (metis distinct_card length_map set_map)

text \<open>
  C28. The cycle check is exact and always returns: for a batch with distinct ids and known
  dependencies it accepts precisely the acyclic dependency graphs, whatever order the hash map
  yields its keys in.
\<close>

theorem validate_exec_batch_dag_exact:
  assumes valid: "valid_batch commands" and order: "\<And>xs. mset (order xs) = mset xs"
  shows "validate_exec_batch_dag order commands
           = Some (if acyclic (dependency_edges commands) then Inr () else Inl DependencyCycle)"
proof -
  define ind where "ind = initial_indegree commands"
  define R where "R = rev (filter (\<lambda>i. ind i = Some 0) (order (remdups (map ec_id commands))))"
  have ids: "set (order (remdups (map ec_id commands))) = batch_ids commands"
    using order [of "remdups (map ec_id commands)"] by (metis batch_ids_def set_map set_mset_mset set_remdups)
  have dist: "distinct (order (remdups (map ec_id commands)))"
    using order [of "remdups (map ec_id commands)"] by (metis distinct_remdups mset_eq_imp_distinct_iff)
  have "\<forall>i \<in> batch_ids commands. ind i = Some (waiting commands {} i)"
    using valid initial_indegree_eq by (simp add: ind_def valid_batch_def)
  with ids dist have inv: "kahn_inv commands ind R []"
    by (auto simp: kahn_inv_def R_def)
  from visit_all_total [OF inv] obtain ind' P where
    run: "visit_all commands ind R 0 = Some (length P)" and fin: "kahn_inv commands ind' [] P" by auto
  have P: "visited_in_order commands P" "set P \<subseteq> batch_ids commands"
    using fin by (simp_all add: kahn_inv_def)
  have "length P = length commands \<longleftrightarrow> set P = batch_ids commands"
    using card_batch_ids [OF valid] distinct_card [OF visited_distinct [OF P(1)]] P(2)
    by (metis batch_ids_def card_subset_eq finite_imageI finite_set)
  also have "\<dots> \<longleftrightarrow> acyclic (dependency_edges commands)"
    using acyclic_if_all_visited [OF P(1)] cyclic_if_some_unvisited [OF fin valid] by blast
  finally show ?thesis
    using run by (simp add: validate_exec_batch_dag_def flip: ind_def R_def)
qed

definition graph_command :: "nat \<Rightarrow> string \<Rightarrow> string list \<Rightarrow> string \<Rightarrow> ExecBatchCommand" where
  "graph_command i name deps run_if =
     \<lparr>ec_index = i, ec_id = name, ec_depends_on = deps, ec_run_if = run_if, ec_lock_group = None,
      ec_lock_group_inferred = False, ec_parallel_signature = ''git:status'',
      ec_parallel_prior = Safe, ec_args = JObj []\<rparr>"

theorem validate_exec_batch_dag_exact_witness:
  "validate_exec_batch_dag rev
     [graph_command 0 ''a'' [''b''] ''success'', graph_command 1 ''b'' [''a''] ''success'']
   = Some (Inl DependencyCycle)"
proof -
  define cs where "cs = [graph_command 0 ''a'' [''b''] ''success'', graph_command 1 ''b'' [''a''] ''success'']"
  have "valid_batch cs"
    by (simp add: valid_batch_def batch_ids_def cs_def graph_command_def)
  moreover have "\<not> acyclic (dependency_edges cs)"
  proof
    have e: "(''a'', ''b'') \<in> dependency_edges cs" "(''b'', ''a'') \<in> dependency_edges cs"
      by (simp_all add: edges_dep_list dep_list_def cs_def graph_command_def)
    assume "acyclic (dependency_edges cs)"
    then show False
      using trancl_trans [OF r_into_trancl [OF e(1)] r_into_trancl [OF e(2)]] by (simp add: acyclic_def)
  qed
  ultimately show ?thesis
    using validate_exec_batch_dag_exact [of cs rev] by (simp add: cs_def)
qed

end
