(* ===== verification/Exec_Wave.thy ===== *)
theory Exec_Wave
  imports Exec_Dag
begin

text \<open>
  What the wave scheduler guarantees: every command of a batch gets exactly one result, in the
  order of the batch; a command runs only when its condition holds; and on a batch listed with
  dependencies first the waves compute what running the commands one after the other does.
\<close>

section \<open>Reading results\<close>

definition result_id :: "json \<Rightarrow> string" where
  "result_id r = (case get_str r ''id'' of Some i \<Rightarrow> i | None \<Rightarrow> [])"

definition result_tag :: "json \<Rightarrow> nat \<times> string" where
  "result_tag r = (result_index r, result_id r)"

definition command_tag :: "ExecBatchCommand \<Rightarrow> nat \<times> string" where
  "command_tag c = (ec_index c, ec_id c)"

named_theorems result_simps \<open>reading the members of a batch result\<close>

lemma batch_result_members [result_simps]:
  "get_str (batch_result c r ok sk why lw qw) ''id'' = Some (ec_id c)"
  "result_command_ok (batch_result c r ok sk why lw qw) = ok"
  "get_bool (batch_result c r ok sk why lw qw) ''skipped'' = Some sk"
  "ec_index c \<le> u64_max \<Longrightarrow> result_index (batch_result c r ok sk why lw qw) = ec_index c"
  by (simp_all add: batch_result_def get_str_def get_bool_def get_u64_def jget_def as_str_def
      as_bool_def as_u64_def result_command_ok_def result_index_def)

lemma skipped_members [result_simps]:
  "get_str (skipped_batch_result c why) ''id'' = Some (ec_id c)"
  "result_command_ok (skipped_batch_result c why) = False"
  "get_bool (skipped_batch_result c why) ''skipped'' = Some True"
  "ec_index c \<le> u64_max \<Longrightarrow> result_index (skipped_batch_result c why) = ec_index c"
  by (simp_all add: skipped_batch_result_def result_simps)

lemma with_member_batch_result [result_simps]:
  "get_str (with_member ''conditional_skip'' v (batch_result c r ok sk why lw qw)) ''id'' = Some (ec_id c)"
  "result_command_ok (with_member ''conditional_skip'' v (batch_result c r ok sk why lw qw)) = ok"
  "get_bool (with_member ''conditional_skip'' v (batch_result c r ok sk why lw qw)) ''skipped'' = Some sk"
  "ec_index c \<le> u64_max \<Longrightarrow>
     result_index (with_member ''conditional_skip'' v (batch_result c r ok sk why lw qw)) = ec_index c"
  by (simp_all add: with_member_def batch_result_def get_str_def get_bool_def get_u64_def jget_def
      as_str_def as_bool_def as_u64_def result_command_ok_def result_index_def)

lemma conditional_members [result_simps]:
  "get_str (conditional_skipped_batch_result c) ''id'' = Some (ec_id c)"
  "result_command_ok (conditional_skipped_batch_result c) = False"
  "get_bool (conditional_skipped_batch_result c) ''skipped'' = Some True"
  "ec_index c \<le> u64_max \<Longrightarrow> result_index (conditional_skipped_batch_result c) = ec_index c"
  by (simp_all add: conditional_skipped_batch_result_def result_simps)

definition lost :: "command_outcome \<Rightarrow> bool" where
  "lost out = (case out of JoinFailed _ \<Rightarrow> True | _ \<Rightarrow> False)"

lemma worker_members [result_simps]:
  "\<not> lost out \<Longrightarrow> get_str (worker_result c out) ''id'' = Some (ec_id c)"
  "\<not> lost out \<Longrightarrow> ec_index c \<le> u64_max \<Longrightarrow> result_index (worker_result c out) = ec_index c"
  by (cases out; simp add: worker_result_def lost_def result_simps)+

lemma tags [result_simps]:
  "ec_index c \<le> u64_max \<Longrightarrow> result_tag (skipped_batch_result c why) = command_tag c"
  "ec_index c \<le> u64_max \<Longrightarrow> result_tag (conditional_skipped_batch_result c) = command_tag c"
  "\<not> lost out \<Longrightarrow> ec_index c \<le> u64_max \<Longrightarrow> result_tag (worker_result c out) = command_tag c"
  by (simp_all add: result_tag_def command_tag_def result_id_def result_simps)

section \<open>Every command has exactly one result\<close>

definition numbered :: "ExecBatchCommand list \<Rightarrow> bool" where
  "numbered cs = (sorted_wrt (\<lambda>a b. ec_index a < ec_index b) cs \<and> (\<forall>c \<in> set cs. ec_index c \<le> u64_max))"

definition tags_of :: "json list \<Rightarrow> (nat \<times> string) multiset" where
  "tags_of rs = image_mset result_tag (mset rs)"

definition command_tags :: "ExecBatchCommand list \<Rightarrow> (nat \<times> string) multiset" where
  "command_tags cs = image_mset command_tag (mset cs)"

lemma tags_simps [simp]:
  "tags_of [] = {#}" "tags_of (r # rs) = add_mset (result_tag r) (tags_of rs)"
  "tags_of (rs @ qs) = tags_of rs + tags_of qs" "tags_of (sort_key f rs) = tags_of rs"
  "command_tags [] = {#}" "command_tags (c # cs) = add_mset (command_tag c) (command_tags cs)"
  "command_tags (cs @ ds) = command_tags cs + command_tags ds"
  by (simp_all add: tags_of_def command_tags_def)

lemma classify_tags:
  assumes "ec_index c \<le> u64_max"
  shows "tags_of (dp_results (classify s p c)) + command_tags (dp_ready (classify s p c))
           + command_tags (dp_remaining (classify s p c))
         = tags_of (dp_results p) + command_tags (dp_ready p) + command_tags (dp_remaining p)
           + {#command_tag c#}"
  using assms by (simp add: classify_def skip_in_pass_def Let_def result_simps)

lemma classify_all_tags:
  "\<forall>c \<in> set cs. ec_index c \<le> u64_max \<Longrightarrow>
   tags_of (dp_results (foldl (classify s) p cs)) + command_tags (dp_ready (foldl (classify s) p cs))
     + command_tags (dp_remaining (foldl (classify s) p cs))
   = tags_of (dp_results p) + command_tags (dp_ready p) + command_tags (dp_remaining p) + command_tags cs"
proof (induction cs arbitrary: p)
  case (Cons c cs)
  then show ?case using classify_tags [of c s p] by (simp add: ac_simps)
qed simp

lemma classify_subset:
  "set (dp_ready (foldl (classify s) p cs)) \<subseteq> set (dp_ready p) \<union> set cs
   \<and> set (dp_remaining (foldl (classify s) p cs)) \<subseteq> set (dp_remaining p) \<union> set cs"
proof (induction cs arbitrary: p)
  case (Cons c cs)
  have "set (dp_ready (classify s p c)) \<subseteq> insert c (set (dp_ready p))"
    "set (dp_remaining (classify s p c)) \<subseteq> insert c (set (dp_remaining p))"
    by (auto simp: classify_def skip_in_pass_def Let_def)
  with Cons [of "classify s p c"] show ?case by fastforce
qed simp

lemma pass_facts:
  assumes "\<forall>c \<in> set pending. ec_index c \<le> u64_max"
    and "p = dag_pass_of s cmap results pending"
  shows "tags_of (dp_results p) + command_tags (dp_ready p) + command_tags (dp_remaining p)
           = tags_of results + command_tags pending"
    and "set (dp_ready p) \<subseteq> set pending" and "set (dp_remaining p) \<subseteq> set pending"
  using classify_all_tags [OF assms(1), of s "\<lparr>dp_completed = cmap, dp_results = results, dp_ready = [], dp_remaining = []\<rparr>"]
    classify_subset [of s "\<lparr>dp_completed = cmap, dp_results = results, dp_ready = [], dp_remaining = []\<rparr>" pending]
  by (simp_all add: assms(2) dag_pass_of_def)

lemma tags_of_map: "\<forall>c \<in> set cs. result_tag (f c) = command_tag c \<Longrightarrow> tags_of (map f cs) = command_tags cs"
  by (induction cs) simp_all

lemma dag_loop_tags:
  "\<forall>c \<in> set pending. ec_index c \<le> u64_max \<and> \<not> lost (run c) \<Longrightarrow>
   tags_of (dag_loop stop run trig cmap results pending) = tags_of results + command_tags pending"
proof (induction stop run trig cmap results pending rule: dag_loop.induct)
  case (1 stop run trig cmap results pending)
  define p where "p = dag_pass_of trig cmap results pending"
  note facts = pass_facts [of pending p trig cmap results, OF _ p_def]
  have ok: "\<forall>c \<in> set pending. ec_index c \<le> u64_max" using 1 by blast
  have remaining: "tags_of (map (\<lambda>c. skipped_batch_result c ''dependency_unresolved'') (dp_remaining p))
      = command_tags (dp_remaining p)"
    using ok facts(3) [OF ok] by (intro tags_of_map) (auto simp: result_simps)
  have wave: "tags_of (run_exec_batch_wave run (dp_ready p)) = command_tags (dp_ready p)"
    using 1(2) facts(2) [OF ok]
    by (simp add: run_exec_batch_wave_def) (intro tags_of_map, auto simp: result_simps)
  show ?case
  proof (cases "pending = [] \<or> dp_ready p = []")
    case True
    then show ?thesis
      using facts(1) [OF ok] remaining
      by (subst dag_loop.simps) (auto simp: Let_def simp flip: p_def)
  next
    case False
    then have ready: "pending \<noteq> []" "dp_ready p \<noteq> []" by auto
    have "tags_of (dag_loop stop run (trig \<or> stop \<and> list_ex (\<lambda>r. \<not> result_command_ok r) (run_exec_batch_wave run (dp_ready p)))
        (foldl note_result (dp_completed p) (run_exec_batch_wave run (dp_ready p)))
        (dp_results p @ run_exec_batch_wave run (dp_ready p)) (dp_remaining p))
      = tags_of (dp_results p @ run_exec_batch_wave run (dp_ready p)) + command_tags (dp_remaining p)"
      using 1(1) [OF ready(1) p_def ready(2) refl refl] 1(2) facts(3) [OF ok] by blast
    with ready show ?thesis
      using facts(1) [OF ok] wave
      by (subst dag_loop.simps) (simp add: Let_def ac_simps flip: p_def)
  qed
qed

lemma sorted_tags_unique:
  fixes xs ys :: "(nat \<times> 'b) list"
  assumes "mset xs = mset ys" and "sorted (map fst xs)" and "sorted_wrt (<) (map fst ys)"
  shows "xs = ys"
proof -
  have "sorted (map fst ys)" and d: "distinct (map fst ys)"
    using assms(3) by (simp_all add: strict_sorted_iff)
  moreover have "mset (map fst xs) = mset (map fst ys)" using assms(1) by simp
  ultimately have keys: "map fst xs = map fst ys"
    using assms(2) by (metis properties_for_sort sort_key_id_if_sorted)
  have "set xs = set ys" using assms(1) by (metis set_mset_mset)
  with d keys have "\<forall>(k, v) \<in> set xs. map_of ys k = Some v" by auto
  moreover have "\<forall>(k, v) \<in> set ys. map_of ys k = Some v" using d by auto
  ultimately have "xs = map (\<lambda>k. (k, the (map_of ys k))) (map fst xs)"
    "ys = map (\<lambda>k. (k, the (map_of ys k))) (map fst ys)"
    by (auto intro!: map_idI [symmetric] simp: comp_def)
  with keys show ?thesis by simp
qed

lemma run_dag_tags:
  assumes "numbered cs" and "\<forall>c \<in> set cs. \<not> lost (run c)"
  shows "map result_tag (run_exec_batch_dag stop run cs) = map command_tag cs"
proof (rule sorted_tags_unique)
  have "tags_of (run_exec_batch_dag stop run cs) = command_tags cs"
    using assms dag_loop_tags [of cs run stop False Map.empty "[]"]
    by (simp add: run_exec_batch_dag_def numbered_def)
  then show "mset (map result_tag (run_exec_batch_dag stop run cs)) = mset (map command_tag cs)"
    by (simp add: tags_of_def command_tags_def)
  show "sorted (map fst (map result_tag (run_exec_batch_dag stop run cs)))"
    by (simp add: run_exec_batch_dag_def result_tag_def comp_def)
  show "sorted_wrt (<) (map fst (map command_tag cs))"
    using assms(1) by (simp add: numbered_def command_tag_def comp_def sorted_wrt_map)
qed

text \<open>
  Each command of a batch gets exactly one result, and the results come in the order of the
  batch, whether commands ran, failed, were skipped or were stopped, unless a worker task is lost.
\<close>

lemma dag_one_result_per_command:
  assumes "numbered commands" and "\<forall>c \<in> set commands. \<not> lost (run c)"
  shows "map result_tag (run_exec_batch_dag stop_on_error run commands) = map command_tag commands"
  using assms by (rule run_dag_tags)

section \<open>Waves compute what one after the other does\<close>

text \<open>What becomes of a command when \<open>cmap\<close> tells how its dependencies ended.\<close>

definition verdict ::
    "(ExecBatchCommand \<Rightarrow> command_outcome) \<Rightarrow> completed \<Rightarrow> ExecBatchCommand \<Rightarrow> json" where
  "verdict run cmap c =
     (if ec_run_if c = ''success'' \<and> dependency_failed cmap c
      then skipped_batch_result c ''dependency_failed''
      else if ec_run_if c = ''failure'' \<and> \<not> dependency_failed cmap c
      then conditional_skipped_batch_result c
      else worker_result c (run c))"

fun dag_reference ::
    "(ExecBatchCommand \<Rightarrow> command_outcome) \<Rightarrow> completed \<Rightarrow> ExecBatchCommand list \<Rightarrow> json list" where
  "dag_reference run cmap [] = []"
| "dag_reference run cmap (c # cs) =
     verdict run cmap c # dag_reference run (note_result cmap (verdict run cmap c)) cs"

text \<open>Dependencies come first: those of each command are in \<open>S\<close> or before it.\<close>

fun listed :: "string set \<Rightarrow> ExecBatchCommand list \<Rightarrow> bool" where
  "listed S [] = True"
| "listed S (c # cs) =
     (set (ec_depends_on c) \<subseteq> S \<and> ec_id c \<notin> S \<and> listed (insert (ec_id c) S) cs)"

lemma listed_append: "listed S (xs @ ys) \<longleftrightarrow> listed S xs \<and> listed (S \<union> batch_ids xs) ys"
  by (induction xs arbitrary: S) (auto simp: batch_ids_def)

lemma listed_disjoint: "listed S xs \<Longrightarrow> S \<inter> batch_ids xs = {}"
  by (induction xs arbitrary: S) (fastforce simp: batch_ids_def)+

lemma listed_more: "listed S xs \<Longrightarrow> i \<notin> batch_ids xs \<Longrightarrow> listed (insert i S) xs"
  by (induction xs arbitrary: S) (auto simp: batch_ids_def insert_commute)

lemma verdict_id: "\<not> lost (run c) \<Longrightarrow> get_str (verdict run cmap c) ''id'' = Some (ec_id c)"
  by (simp add: verdict_def result_simps)

lemma verdict_index:
  "\<not> lost (run c) \<Longrightarrow> ec_index c \<le> u64_max \<Longrightarrow> result_index (verdict run cmap c) = ec_index c"
  by (simp add: verdict_def result_simps)

lemma dependency_failed_agree:
  assumes "m \<subseteq>\<^sub>m F" and "set (ec_depends_on c) \<subseteq> dom m"
  shows "dependency_failed m c = dependency_failed F c"
proof -
  have "m d = F d" if "d \<in> set (ec_depends_on c)" for d
    using assms that by (auto simp: map_le_def)
  then show ?thesis by (auto simp: dependency_failed_def list_ex_iff)
qed

lemma verdict_agree:
  "m \<subseteq>\<^sub>m F \<Longrightarrow> set (ec_depends_on c) \<subseteq> dom m \<Longrightarrow> verdict run m c = verdict run F c"
  by (simp add: verdict_def dependency_failed_agree)

definition settled ::
    "(ExecBatchCommand \<Rightarrow> command_outcome) \<Rightarrow> completed \<Rightarrow> ExecBatchCommand list \<Rightarrow> bool" where
  "settled run F cs =
     (\<forall>c \<in> set cs. F (ec_id c) = Some (result_command_ok (verdict run F c)) \<and> \<not> lost (run c))"

lemma dag_reference_settled:
  "listed (dom m) cs \<Longrightarrow> \<forall>c \<in> set cs. \<not> lost (run c) \<Longrightarrow> F = foldl note_result m (dag_reference run m cs) \<Longrightarrow>
   m \<subseteq>\<^sub>m F \<and> dag_reference run m cs = map (verdict run F) cs \<and> settled run F cs"
proof (induction cs arbitrary: m)
  case Nil
  then show ?case by (simp add: settled_def)
next
  case (Cons c cs)
  define r where "r = verdict run m c"
  define m' where "m' = m(ec_id c \<mapsto> result_command_ok r)"
  have noted: "note_result m r = m'"
    using Cons.prems(2) verdict_id [of run c m] by (simp add: note_result_def r_def m'_def)
  have new: "ec_id c \<notin> dom m" using Cons.prems(1) by simp
  then have mm': "m \<subseteq>\<^sub>m m'" by (auto simp: map_le_def m'_def)
  have F: "F = foldl note_result m' (dag_reference run m' cs)"
    using Cons.prems(3) noted by (simp flip: r_def)
  have "listed (dom m') cs" using Cons.prems(1) by (simp add: m'_def)
  with Cons.IH Cons.prems(2) F have IH: "m' \<subseteq>\<^sub>m F" "dag_reference run m' cs = map (verdict run F) cs"
    "settled run F cs" by auto
  have mF: "m \<subseteq>\<^sub>m F" using mm' IH(1) by (rule map_le_trans)
  have r: "verdict run F c = r"
    using verdict_agree [OF mF] Cons.prems(1) by (simp add: r_def)
  have "F (ec_id c) = Some (result_command_ok r)"
    using IH(1) by (force simp: map_le_def m'_def)
  with IH mF r noted Cons.prems(2) show ?case
    by (simp add: settled_def flip: r_def)
qed

definition pass_inv ::
    "(ExecBatchCommand \<Rightarrow> command_outcome) \<Rightarrow> completed \<Rightarrow> dag_pass \<Rightarrow> bool" where
  "pass_inv run F p =
     (dp_completed p \<subseteq>\<^sub>m F
      \<and> listed (dom (dp_completed p) \<union> batch_ids (dp_ready p)) (dp_remaining p)
      \<and> (dp_ready p = [] \<longrightarrow> dp_remaining p = [])
      \<and> (\<forall>c \<in> set (dp_ready p). verdict run F c = worker_result c (run c)))"

definition pass_ids :: "dag_pass \<Rightarrow> string set" where
  "pass_ids p = dom (dp_completed p) \<union> batch_ids (dp_ready p) \<union> batch_ids (dp_remaining p)"

definition pass_results ::
    "(ExecBatchCommand \<Rightarrow> command_outcome) \<Rightarrow> completed \<Rightarrow> dag_pass \<Rightarrow> json multiset" where
  "pass_results run F p =
     mset (dp_results p) + mset (map (verdict run F) (dp_ready p)) + mset (map (verdict run F) (dp_remaining p))"

lemma batch_ids_simps [simp]:
  "batch_ids [] = {}" "batch_ids (c # cs) = insert (ec_id c) (batch_ids cs)"
  "batch_ids (xs @ ys) = batch_ids xs \<union> batch_ids ys"
  by (auto simp: batch_ids_def)

lemma skip_step:
  assumes "pass_inv run F p" "ec_id c \<notin> pass_ids p" "F (ec_id c) = Some False"
  shows "pass_inv run F (skip_in_pass p c r)
    \<and> pass_ids (skip_in_pass p c r) = insert (ec_id c) (pass_ids p)
    \<and> pass_results run F (skip_in_pass p c r) = pass_results run F p + {#r#}"
  using assms
  by (auto simp: pass_inv_def pass_ids_def pass_results_def skip_in_pass_def map_le_def listed_more)

lemma ready_step:
  assumes "pass_inv run F p" "ec_id c \<notin> pass_ids p" "verdict run F c = worker_result c (run c)"
  shows "pass_inv run F (p\<lparr>dp_ready := dp_ready p @ [c]\<rparr>)
    \<and> pass_ids (p\<lparr>dp_ready := dp_ready p @ [c]\<rparr>) = insert (ec_id c) (pass_ids p)
    \<and> pass_results run F (p\<lparr>dp_ready := dp_ready p @ [c]\<rparr>) = pass_results run F p + {#verdict run F c#}"
  using assms by (auto simp: pass_inv_def pass_ids_def pass_results_def listed_more)

lemma remaining_step:
  assumes "pass_inv run F p" "ec_id c \<notin> pass_ids p" "set (ec_depends_on c) \<subseteq> pass_ids p" "dp_ready p \<noteq> []"
  shows "pass_inv run F (p\<lparr>dp_remaining := dp_remaining p @ [c]\<rparr>)
    \<and> pass_ids (p\<lparr>dp_remaining := dp_remaining p @ [c]\<rparr>) = insert (ec_id c) (pass_ids p)
    \<and> pass_results run F (p\<lparr>dp_remaining := dp_remaining p @ [c]\<rparr>) = pass_results run F p + {#verdict run F c#}"
  using assms by (auto simp: pass_inv_def pass_ids_def pass_results_def listed_append)

lemma classify_step:
  assumes inv: "pass_inv run F p" and deps: "set (ec_depends_on c) \<subseteq> pass_ids p"
    and new: "ec_id c \<notin> pass_ids p"
    and F: "F (ec_id c) = Some (result_command_ok (verdict run F c))"
  shows "pass_inv run F (classify False p c)
     \<and> pass_ids (classify False p c) = insert (ec_id c) (pass_ids p)
     \<and> pass_results run F (classify False p c) = pass_results run F p + {#verdict run F c#}"
proof (cases "dependencies_resolved (dp_completed p) c")
  case False
  then have "dp_ready p \<noteq> []"
    using inv deps by (auto simp: dependencies_resolved_def list_all_iff pass_ids_def pass_inv_def)
  with False remaining_step [OF inv new deps] show ?thesis by (simp add: classify_def)
next
  case True
  then have "set (ec_depends_on c) \<subseteq> dom (dp_completed p)"
    by (auto simp: dependencies_resolved_def list_all_iff)
  with inv have agree: "dependency_failed (dp_completed p) c = dependency_failed F c"
    by (intro dependency_failed_agree) (simp_all add: pass_inv_def)
  consider (dep) "ec_run_if c = ''success'' \<and> dependency_failed F c"
    | (cond) "ec_run_if c = ''failure'' \<and> \<not> dependency_failed F c"
    | (ready) "verdict run F c = worker_result c (run c)"
        "\<not> (ec_run_if c = ''success'' \<and> dependency_failed F c)"
        "\<not> (ec_run_if c = ''failure'' \<and> \<not> dependency_failed F c)"
    by (auto simp: verdict_def)
  then show ?thesis
  proof cases
    case dep
    then have v: "verdict run F c = skipped_batch_result c ''dependency_failed''" by (simp add: verdict_def)
    then have "F (ec_id c) = Some False" using F by (simp add: result_simps)
    from skip_step [OF inv new this] show ?thesis
      using True dep agree by (simp add: classify_def v)
  next
    case cond
    then have v: "verdict run F c = conditional_skipped_batch_result c" by (simp add: verdict_def)
    then have "F (ec_id c) = Some False" using F by (simp add: result_simps)
    from skip_step [OF inv new this] show ?thesis
      using True cond agree by (simp add: classify_def v)
  next
    case ready
    have "classify False p c = p\<lparr>dp_ready := dp_ready p @ [c]\<rparr>"
      using True ready(2,3) agree by (auto simp: classify_def Let_def)
    with ready_step [OF inv new ready(1)] show ?thesis by simp
  qed
qed

lemma classify_all:
  "pass_inv run F p \<Longrightarrow> listed (pass_ids p) cs \<Longrightarrow> settled run F cs \<Longrightarrow>
   pass_inv run F (foldl (classify False) p cs)
   \<and> pass_ids (foldl (classify False) p cs) = pass_ids p \<union> batch_ids cs
   \<and> pass_results run F (foldl (classify False) p cs) = pass_results run F p + mset (map (verdict run F) cs)"
proof (induction cs arbitrary: p)
  case (Cons c cs)
  have step: "pass_inv run F (classify False p c)"
    "pass_ids (classify False p c) = insert (ec_id c) (pass_ids p)"
    "pass_results run F (classify False p c) = pass_results run F p + {#verdict run F c#}"
    using classify_step [OF Cons.prems(1), of c] Cons.prems(2,3) by (simp_all add: settled_def)
  from Cons.IH [OF step(1)] Cons.prems(2,3) step(2,3) show ?case
    by (simp add: settled_def)
qed simp

lemma note_wave:
  "\<forall>r \<in> set rs. \<exists>i. get_str r ''id'' = Some i \<and> F i = Some (result_command_ok r) \<Longrightarrow> m \<subseteq>\<^sub>m F \<Longrightarrow>
   foldl note_result m rs \<subseteq>\<^sub>m F
   \<and> dom (foldl note_result m rs) = dom m \<union> {i. \<exists>r \<in> set rs. get_str r ''id'' = Some i}"
proof (induction rs arbitrary: m)
  case (Cons r rs)
  then obtain i where i: "get_str r ''id'' = Some i" "F i = Some (result_command_ok r)" by auto
  with Cons.prems(2) have "note_result m r \<subseteq>\<^sub>m F" by (auto simp: note_result_def map_le_def)
  moreover have "dom (note_result m r) = insert i (dom m)" by (simp add: note_result_def i)
  ultimately show ?case using Cons i by auto
qed simp

lemma dag_loop_reference:
  "cmap \<subseteq>\<^sub>m F \<Longrightarrow> listed (dom cmap) pending \<Longrightarrow> settled run F pending \<Longrightarrow>
   mset (dag_loop False run False cmap results pending) = mset results + mset (map (verdict run F) pending)"
proof (induction "length pending" arbitrary: cmap results pending rule: less_induct)
  case less
  define p where "p = dag_pass_of False cmap results pending"
  define p0 where "p0 = \<lparr>dp_completed = cmap, dp_results = results, dp_ready = [], dp_remaining = []\<rparr>"
  have "pass_inv run F p0" "pass_ids p0 = dom cmap"
    using less.prems(1) by (simp_all add: pass_inv_def pass_ids_def p0_def)
  with classify_all [of run F p0 pending] less.prems(2,3)
  have inv: "pass_inv run F p" and ids: "pass_ids p = dom cmap \<union> batch_ids pending"
    and res: "pass_results run F p = mset results + mset (map (verdict run F) pending)"
    by (simp_all add: p_def dag_pass_of_def pass_results_def flip: p0_def) (simp_all add: p0_def)
  show ?case
  proof (cases "pending = [] \<or> dp_ready p = []")
    case True
    then show ?thesis
      using inv res
      by (subst dag_loop.simps) (auto simp: Let_def pass_inv_def pass_results_def simp flip: p_def)
  next
    case False
    define wave where "wave = run_exec_batch_wave run (dp_ready p)"
    have sub: "set (dp_ready p) \<subseteq> set pending" "set (dp_remaining p) \<subseteq> set pending"
      using classify_subset [of False p0 pending] by (simp_all add: p_def dag_pass_of_def p0_def)
    have eqs: "map (\<lambda>c. worker_result c (run c)) (dp_ready p) = map (verdict run F) (dp_ready p)"
      using inv by (simp add: pass_inv_def)
    then have wset: "mset wave = mset (map (verdict run F) (dp_ready p))"
      unfolding wave_def run_exec_batch_wave_def eqs [symmetric] by simp
    then have wmem: "set wave = verdict run F ` set (dp_ready p)"
      by (metis list.set_map set_mset_mset)
    have wave_F: "\<forall>r \<in> set wave. \<exists>i. get_str r ''id'' = Some i \<and> F i = Some (result_command_ok r)"
      using less.prems(3) sub(1) by (auto simp: wmem settled_def verdict_id)
    have ids_r: "\<forall>c \<in> set (dp_ready p). get_str (verdict run F c) ''id'' = Some (ec_id c)"
      using less.prems(3) sub(1) verdict_id by (auto simp: settled_def)
    have wave_ids: "{i. \<exists>r \<in> set wave. get_str r ''id'' = Some i} = batch_ids (dp_ready p)"
      unfolding wmem batch_ids_def using ids_r by force
    have upd: "foldl note_result (dp_completed p) wave \<subseteq>\<^sub>m F"
      "dom (foldl note_result (dp_completed p) wave) = dom (dp_completed p) \<union> batch_ids (dp_ready p)"
      using note_wave [OF wave_F, of "dp_completed p"] inv wave_ids by (simp_all add: pass_inv_def)
    have shorter: "length (dp_remaining p) < length pending"
      using False dag_pass_shrinks by (simp add: p_def)
    have rest: "settled run F (dp_remaining p)"
      "listed (dom (foldl note_result (dp_completed p) wave)) (dp_remaining p)"
      using less.prems(3) sub(2) upd(2) inv by (auto simp: settled_def pass_inv_def)
    note less.hyps [OF shorter upd(1) rest(2,1), of "dp_results p @ wave"]
    with False show ?thesis
      using res wset
      by (subst dag_loop.simps) (simp add: Let_def pass_results_def flip: p_def wave_def)
  qed
qed

text \<open>
  C10.  Without \<open>stop_on_error\<close>, for a batch that lists dependencies before the commands that need them
  and none of whose workers is lost, running it in waves gives exactly the results of running its
  commands one after the other in the listed order, each when its \<open>run_if\<close> condition holds of its
  dependencies' results.  The outcome of a command is an argument, the same for both ways of running the
  batch: commands that disturb each other when they run at once are not covered.  The order of the list
  is needed: see \<open>always_command_lost_when_listed_first\<close>.
\<close>

theorem dag_waves_equal_sequence:
  assumes "numbered commands" and "listed {} commands" and "\<forall>c \<in> set commands. \<not> lost (run c)"
  shows "run_exec_batch_dag False run commands = dag_reference run Map.empty commands"
proof -
  define F where "F = foldl note_result Map.empty (dag_reference run Map.empty commands)"
  have ref: "dag_reference run Map.empty commands = map (verdict run F) commands" "settled run F commands"
    using dag_reference_settled [of Map.empty commands run F] assms(2,3) by (simp_all add: F_def)
  have idx: "\<forall>c \<in> set commands. result_index (verdict run F c) = ec_index c"
    using assms(1,3) verdict_index by (simp add: numbered_def)
  have sorted: "sorted_wrt (<) (map result_index (map (verdict run F) commands))"
  proof -
    have "map result_index (map (verdict run F) commands) = map ec_index commands"
      using idx by simp
    moreover have "sorted_wrt (<) (map ec_index commands)"
      using assms(1) by (simp add: numbered_def sorted_wrt_map)
    ultimately show ?thesis by metis
  qed
  show ?thesis
    unfolding run_exec_batch_dag_def ref(1)
  proof (rule sort_key_inj_key_eq)
    show "mset (dag_loop False run False Map.empty [] commands) = mset (map (verdict run F) commands)"
      using dag_loop_reference [of Map.empty F commands run "[]"] assms(2) ref(2) by simp
    then have "set (dag_loop False run False Map.empty [] commands) = set (map (verdict run F) commands)"
      by (metis set_mset_mset)
    then show "inj_on result_index (set (dag_loop False run False Map.empty [] commands))"
      using sorted by (simp add: strict_sorted_iff distinct_map inj_on_imageI)
    show "sorted (map result_index (map (verdict run F) commands))"
      using sorted strict_sorted_iff by blast
  qed
qed

section \<open>Witnesses\<close>

definition sample_batch :: "ExecBatchCommand list" where
  "sample_batch = [graph_command 0 ''a'' [] ''success'', graph_command 1 ''b'' [''a''] ''success'',
                   graph_command 2 ''c'' [''b''] ''always'']"

definition failing_run :: "ExecBatchCommand \<Rightarrow> command_outcome" where
  "failing_run c = Completed (JObj [(''command_ok'', JBool (ec_id c \<noteq> ''a''))]) 0 0"

lemma sample_facts:
  "numbered sample_batch" "listed {} sample_batch" "\<forall>c \<in> set sample_batch. \<not> lost (failing_run c)"
  by (simp_all add: numbered_def sample_batch_def graph_command_def u64_max_def lost_def failing_run_def)

theorem dag_one_result_per_command_witness:
  "map result_tag (run_exec_batch_dag True failing_run sample_batch)
     = [(0, ''a''), (1, ''b''), (2, ''c'')]"
  using dag_one_result_per_command [OF sample_facts(1,3)]
  by (simp add: sample_batch_def command_tag_def graph_command_def)

theorem dag_waves_equal_sequence_witness:
  "run_exec_batch_dag False failing_run sample_batch = dag_reference failing_run Map.empty sample_batch"
  by (rule dag_waves_equal_sequence [OF sample_facts])

definition late_batch :: "ExecBatchCommand list" where
  "late_batch = [graph_command 0 ''c'' [''b''] ''always'', graph_command 1 ''b'' [''a''] ''success'',
                 graph_command 2 ''a'' [] ''success'']"

definition result_summary :: "json \<Rightarrow> string \<times> bool option \<times> string option" where
  "result_summary r = (result_id r, get_bool r ''skipped'', get_str r ''skip_reason'')"

lemma dag_loop_steps:
  "dag_loop stop run trig cmap results [] = results"
  "dag_pass_of trig cmap results (c # cs) = \<lparr>dp_completed = m, dp_results = rs, dp_ready = [], dp_remaining = rem\<rparr> \<Longrightarrow>
   dag_loop stop run trig cmap results (c # cs)
     = rs @ map (\<lambda>c. skipped_batch_result c ''dependency_unresolved'') rem"
  "dag_pass_of trig cmap results (c # cs) = \<lparr>dp_completed = m, dp_results = rs, dp_ready = [w], dp_remaining = rem\<rparr> \<Longrightarrow>
   dag_loop False run trig cmap results (c # cs)
     = dag_loop False run trig (note_result m (worker_result w (run w))) (rs @ [worker_result w (run w)]) rem"
  by (subst dag_loop.simps; simp add: Let_def run_exec_batch_wave_def)+

lemma graph_command_fields [simp]:
  "ec_index (graph_command i n d r) = i" "ec_id (graph_command i n d r) = n"
  "ec_depends_on (graph_command i n d r) = d" "ec_run_if (graph_command i n d r) = r"
  by (simp_all add: graph_command_def)

lemma failing_run_result:
  "worker_result c (failing_run c)
     = batch_result c (JObj [(''command_ok'', JBool (ec_id c \<noteq> ''a''))]) (ec_id c \<noteq> ''a'') False None 0 0"
  by (simp add: worker_result_def failing_run_def result_command_ok_def get_bool_def jget_def as_bool_def)

lemma result_summaries:
  "result_summary (batch_result c r ok sk why lw qw) = (ec_id c, Some sk, why)"
  "result_summary (skipped_batch_result c why') = (ec_id c, Some True, Some why')"
  by (simp_all add: result_summary_def result_id_def batch_result_def skipped_batch_result_def get_str_def
      get_bool_def jget_def as_str_def as_bool_def json_opt_def split: option.split)

text \<open>
  Listing dependencies first is needed.  When a command is listed before a command it depends
  on and that one is skipped, it is reported as \<open>dependency_unresolved\<close> and never runs, even with
  \<open>run_if = always\<close>; listed the other way round the same graph runs it.
\<close>

lemma always_command_lost_when_listed_first:
  "set (map result_summary (run_exec_batch_dag False failing_run late_batch))
     = {(''c'', Some True, Some ''dependency_unresolved''), (''b'', Some True, Some ''dependency_failed''),
        (''a'', Some False, None)}
   \<and> set (map result_summary (run_exec_batch_dag False failing_run sample_batch))
     = {(''a'', Some False, None), (''b'', Some True, Some ''dependency_failed''), (''c'', Some False, None)}"
proof -
  define a b c where "a = graph_command 2 ''a'' [] ''success''"
    and "b = graph_command 1 ''b'' [''a''] ''success''" and "c = graph_command 0 ''c'' [''b''] ''always''"
  note abc = a_def b_def c_def
  note pass = dag_pass_of_def classify_def dependencies_resolved_def dependency_failed_def skip_in_pass_def
  define ra where "ra = worker_result a (failing_run a)"
  have ra: "note_result m ra = m(''a'' \<mapsto> False)" for m
    by (simp add: ra_def failing_run_result note_result_def result_simps a_def)
  have "dag_pass_of False Map.empty [] [c, b, a]
      = \<lparr>dp_completed = Map.empty, dp_results = [], dp_ready = [a], dp_remaining = [c, b]\<rparr>"
    by (simp add: pass abc del: not_None_eq)
  moreover have "dag_pass_of False [''a'' \<mapsto> False] [ra] [c, b]
      = \<lparr>dp_completed = [''a'' \<mapsto> False, ''b'' \<mapsto> False],
         dp_results = [ra, skipped_batch_result b ''dependency_failed''], dp_ready = [], dp_remaining = [c]\<rparr>"
    by (simp add: pass abc del: not_None_eq)
  ultimately have late: "dag_loop False failing_run False Map.empty [] [c, b, a]
      = [ra, skipped_batch_result b ''dependency_failed'', skipped_batch_result c ''dependency_unresolved'']"
    by (simp add: dag_loop_steps ra flip: ra_def)
  define a' b' c' where "a' = graph_command 0 ''a'' [] ''success''"
    and "b' = graph_command 1 ''b'' [''a''] ''success''" and "c' = graph_command 2 ''c'' [''b''] ''always''"
  note abc' = a'_def b'_def c'_def
  define ra' where "ra' = worker_result a' (failing_run a')"
  have ra': "note_result m ra' = m(''a'' \<mapsto> False)" for m
    by (simp add: ra'_def failing_run_result note_result_def result_simps a'_def)
  have "dag_pass_of False Map.empty [] [a', b', c']
      = \<lparr>dp_completed = Map.empty, dp_results = [], dp_ready = [a'], dp_remaining = [b', c']\<rparr>"
    by (simp add: pass abc' del: not_None_eq)
  moreover have "dag_pass_of False [''a'' \<mapsto> False] [ra'] [b', c']
      = \<lparr>dp_completed = [''a'' \<mapsto> False, ''b'' \<mapsto> False],
         dp_results = [ra', skipped_batch_result b' ''dependency_failed''], dp_ready = [c'], dp_remaining = []\<rparr>"
    by (simp add: pass abc' del: not_None_eq)
  ultimately have early: "dag_loop False failing_run False Map.empty [] [a', b', c']
      = [ra', skipped_batch_result b' ''dependency_failed'', worker_result c' (failing_run c')]"
    by (simp add: dag_loop_steps ra' flip: ra'_def)
  show ?thesis
    unfolding run_exec_batch_dag_def late_batch_def sample_batch_def abc [symmetric] abc' [symmetric]
    using late early
    by (simp add: abc abc' ra_def ra'_def failing_run_result result_summaries insert_commute)
qed

section \<open>Commands run only when they may\<close>

definition executed :: "json \<Rightarrow> bool" where
  "executed r = (get_bool r ''skipped'' = Some False)"

definition condition_met :: "json list \<Rightarrow> ExecBatchCommand \<Rightarrow> bool" where
  "condition_met results c =
     ((\<forall>d \<in> set (ec_depends_on c). \<exists>q \<in> set results. result_id q = d
         \<and> (ec_run_if c = ''success'' \<longrightarrow> result_command_ok q))
      \<and> (ec_run_if c = ''failure'' \<longrightarrow>
           (\<exists>d \<in> set (ec_depends_on c). \<exists>q \<in> set results. result_id q = d \<and> \<not> result_command_ok q)))"

definition recorded :: "completed \<Rightarrow> json list \<Rightarrow> bool" where
  "recorded cmap results =
     (\<forall>d b. cmap d = Some b \<longrightarrow> (\<exists>q \<in> set results. result_id q = d \<and> result_command_ok q = b))"

definition justified :: "ExecBatchCommand list \<Rightarrow> json list \<Rightarrow> bool" where
  "justified cs results =
     (\<forall>r \<in> set results. executed r \<longrightarrow> (\<exists>c \<in> set cs. result_id r = ec_id c \<and> condition_met results c))"

lemma condition_met_more: "condition_met rs c \<Longrightarrow> set rs \<subseteq> set qs \<Longrightarrow> condition_met qs c"
  unfolding condition_met_def by (meson subsetD)

lemma justified_append:
  "justified cs rs \<Longrightarrow>
   \<forall>r \<in> set qs. executed r \<longrightarrow> (\<exists>c \<in> set cs. result_id r = ec_id c \<and> condition_met rs c) \<Longrightarrow>
   justified cs (rs @ qs)"
  unfolding justified_def using condition_met_more [of rs _ "rs @ qs"]
  by (auto 0 3)

lemma condition_from_completed:
  assumes "recorded cmap results" and "dependencies_resolved cmap c"
    and "\<not> (ec_run_if c = ''success'' \<and> dependency_failed cmap c)"
    and "\<not> (ec_run_if c = ''failure'' \<and> \<not> dependency_failed cmap c)"
  shows "condition_met results c"
proof -
  have "\<exists>q \<in> set results. result_id q = d \<and> (ec_run_if c = ''success'' \<longrightarrow> result_command_ok q)"
    if d: "d \<in> set (ec_depends_on c)" for d
  proof -
    from d assms(2) obtain b where b: "cmap d = Some b"
      by (auto simp: dependencies_resolved_def list_all_iff)
    with assms(1) obtain q where q: "q \<in> set results" "result_id q = d" "result_command_ok q = b"
      by (auto simp: recorded_def)
    have "b" if "ec_run_if c = ''success''"
      using that assms(3) d b by (auto simp: dependency_failed_def list_ex_iff)
    with q show ?thesis by auto
  qed
  moreover have "\<exists>d \<in> set (ec_depends_on c). \<exists>q \<in> set results. result_id q = d \<and> \<not> result_command_ok q"
    if "ec_run_if c = ''failure''"
    using that assms(1,4) by (auto simp: dependency_failed_def list_ex_iff recorded_def) blast
  ultimately show ?thesis by (simp add: condition_met_def)
qed

definition pass_safe :: "ExecBatchCommand list \<Rightarrow> dag_pass \<Rightarrow> bool" where
  "pass_safe cs p =
     (recorded (dp_completed p) (dp_results p) \<and> justified cs (dp_results p)
      \<and> (\<forall>c \<in> set (dp_ready p). condition_met (dp_results p) c))"

lemma skip_safe:
  assumes "pass_safe cs p" "get_str r ''id'' = Some (ec_id c)" "\<not> result_command_ok r" "\<not> executed r"
  shows "pass_safe cs (skip_in_pass p c r)"
proof -
  have "justified cs (dp_results p @ [r])"
    using assms(1,4) by (intro justified_append) (simp_all add: pass_safe_def)
  moreover have "recorded ((dp_completed p)(ec_id c \<mapsto> False)) (dp_results p @ [r])"
    using assms(1-3) by (auto simp: pass_safe_def recorded_def result_id_def)
  ultimately show ?thesis
    using assms(1) condition_met_more [of "dp_results p" _ "dp_results p @ [r]"]
    by (simp add: pass_safe_def skip_in_pass_def) auto
qed

lemma classify_safe: "pass_safe cs p \<Longrightarrow> pass_safe cs (classify s p c)"
  using skip_safe [of cs p "skipped_batch_result c ''dependency_failed''" c]
    skip_safe [of cs p "skipped_batch_result c ''stopped_after_failure''" c]
    skip_safe [of cs p "conditional_skipped_batch_result c" c]
    condition_from_completed [of "dp_completed p" "dp_results p" c]
  by (auto simp: classify_def Let_def result_simps executed_def) (auto simp: pass_safe_def)

lemma classify_all_safe: "pass_safe cs p \<Longrightarrow> pass_safe cs (foldl (classify s) p pending)"
  by (induction pending arbitrary: p) (simp_all add: classify_safe)

lemma note_recorded:
  "recorded m results \<Longrightarrow> recorded (foldl note_result m wave) (results @ wave)"
proof (induction wave arbitrary: m results)
  case (Cons r wave)
  have "recorded (note_result m r) (results @ [r])"
    using Cons.prems by (auto simp: recorded_def note_result_def result_id_def split: option.splits)
  from Cons.IH [OF this] show ?case by simp
qed simp

lemma dag_loop_justified:
  "recorded cmap results \<Longrightarrow> justified cs results \<Longrightarrow> set pending \<subseteq> set cs \<Longrightarrow>
   \<forall>c \<in> set pending. \<not> lost (run c) \<Longrightarrow> justified cs (dag_loop stop run trig cmap results pending)"
proof (induction stop run trig cmap results pending rule: dag_loop.induct)
  case (1 stop run trig cmap results pending)
  define p where "p = dag_pass_of trig cmap results pending"
  have safe: "pass_safe cs p"
    unfolding p_def dag_pass_of_def using 1(2,3) by (intro classify_all_safe) (simp add: pass_safe_def)
  have sub: "set (dp_ready p) \<subseteq> set pending" "set (dp_remaining p) \<subseteq> set pending"
    using classify_subset [of trig "\<lparr>dp_completed = cmap, dp_results = results, dp_ready = [], dp_remaining = []\<rparr>" pending]
    by (simp_all add: p_def dag_pass_of_def)
  show ?case
  proof (cases "pending = [] \<or> dp_ready p = []")
    case True
    have "justified cs (dp_results p @ map (\<lambda>c. skipped_batch_result c ''dependency_unresolved'') (dp_remaining p))"
      using safe by (intro justified_append) (auto simp: pass_safe_def executed_def result_simps)
    with True 1(3) show ?thesis
      by (subst dag_loop.simps) (auto simp: Let_def simp flip: p_def)
  next
    case False
    define wave where "wave = run_exec_batch_wave run (dp_ready p)"
    have mem: "\<exists>c \<in> set (dp_ready p). r = worker_result c (run c)" if "r \<in> set wave" for r
      using that by (auto simp: wave_def run_exec_batch_wave_def)
    have "justified cs (dp_results p @ wave)"
    proof (rule justified_append)
      show "justified cs (dp_results p)" using safe by (simp add: pass_safe_def)
      show "\<forall>r \<in> set wave. executed r \<longrightarrow> (\<exists>c \<in> set cs. result_id r = ec_id c \<and> condition_met (dp_results p) c)"
      proof (intro ballI impI)
        fix r assume "r \<in> set wave"
        then obtain c where c: "c \<in> set (dp_ready p)" "r = worker_result c (run c)" using mem by blast
        then have "c \<in> set cs" "\<not> lost (run c)" using sub(1) 1(4,5) by auto
        with c safe show "\<exists>c \<in> set cs. result_id r = ec_id c \<and> condition_met (dp_results p) c"
          by (auto simp: pass_safe_def result_id_def result_simps intro!: bexI [of _ c])
      qed
    qed
    moreover have "recorded (foldl note_result (dp_completed p) wave) (dp_results p @ wave)"
      using safe by (intro note_recorded) (simp add: pass_safe_def)
    ultimately show ?thesis
      using 1(1) [OF _ p_def _ wave_def refl] False 1(4,5) sub(2)
      by (subst dag_loop.simps) (auto simp: Let_def simp flip: p_def wave_def)
  qed
qed

text \<open>
  A command is executed only when it may be: every result that is not a skip belongs to a
  command all of whose dependencies have results, all of them successes for \<open>run_if = success\<close> and at
  least one of them a failure for \<open>run_if = failure\<close>, with or without \<open>stop_on_error\<close> and in whatever
  order the commands are listed.
\<close>

lemma dag_runs_only_when_due:
  assumes "\<forall>c \<in> set commands. \<not> lost (run c)"
    and "results = run_exec_batch_dag stop_on_error run commands"
  shows "\<forall>r \<in> set results. executed r \<longrightarrow>
           (\<exists>c \<in> set commands. result_id r = ec_id c \<and> condition_met results c)"
proof -
  have "justified commands (dag_loop stop_on_error run False Map.empty [] commands)"
    using assms(1) by (intro dag_loop_justified) (simp_all add: recorded_def justified_def)
  then show ?thesis
    using assms(2) by (simp add: justified_def run_exec_batch_dag_def condition_met_def)
qed

theorem dag_runs_only_when_due_witness:
  "\<exists>c. c = graph_command 0 ''a'' [] ''success''
     \<and> condition_met (run_exec_batch_dag True failing_run [graph_command 0 ''a'' [] ''success'']) c"
proof -
  define a where "a = graph_command 0 ''a'' [] ''success''"
  define r where "r = worker_result a (failing_run a)"
  define rs where "rs = run_exec_batch_dag True failing_run [a]"
  have p: "dag_pass_of False Map.empty [] [a]
      = \<lparr>dp_completed = Map.empty, dp_results = [], dp_ready = [a], dp_remaining = []\<rparr>"
    by (simp add: dag_pass_of_def classify_def dependencies_resolved_def dependency_failed_def a_def)
  have "rs = [r]"
    unfolding rs_def run_exec_batch_dag_def
    by (subst dag_loop.simps)
      (simp add: p Let_def run_exec_batch_wave_def dag_loop.simps [of _ _ _ _ _ "[]"] flip: r_def)
  moreover have "executed r"
    by (simp add: r_def worker_result_def failing_run_def executed_def result_simps)
  moreover have "\<forall>c \<in> set [a]. \<not> lost (failing_run c)"
    by (simp add: lost_def failing_run_def)
  from dag_runs_only_when_due [OF this, of rs True] have
    "\<forall>r \<in> set rs. executed r \<longrightarrow> (\<exists>c \<in> set [a]. result_id r = ec_id c \<and> condition_met rs c)"
    by (simp add: rs_def)
  ultimately have "condition_met rs a" by simp
  then show ?thesis unfolding rs_def a_def by blast
qed

section \<open>Parsed batches\<close>

definition well_formed_command :: "ExecBatchCommand \<Rightarrow> bool" where
  "well_formed_command c =
     (ec_run_if c \<in> {''success'', ''failure'', ''always''}
      \<and> (ec_run_if c \<noteq> ''success'' \<longrightarrow> ec_depends_on c \<noteq> [])
      \<and> trim (ec_id c) \<noteq> [] \<and> length (ec_id c) \<le> 128)"

lemma parse_id_Inr: "parse_id i v = Inr cid \<Longrightarrow> trim cid \<noteq> [] \<and> length cid \<le> 128"
  by (auto simp: parse_id_def and_then_Inr_iff split: if_splits)

lemma parse_run_if_Inr:
  "parse_run_if i v deps = Inr r \<Longrightarrow>
   r \<in> {''success'', ''failure'', ''always''} \<and> (r \<noteq> ''success'' \<longrightarrow> deps \<noteq> [])"
  by (auto simp: parse_run_if_def and_then_Inr_iff split: if_splits option.splits json.splits)

lemma parse_command_Inr:
  assumes "parse_command fs dg ids i j = Inr c"
  shows "ec_index c = i \<and> ec_id c \<notin> set ids \<and> well_formed_command c"
proof -
  obtain object where obj: "as_object j = Some object"
    using assms by (cases "as_object j") (simp_all add: parse_command_def)
  from assms obtain cid deps r where
    "parse_id i (map_of object ''id'') = Inr cid" "cid \<notin> set ids"
    "parse_run_if i (map_of object ''run_if'') deps = Inr r"
    "ec_index c = i" "ec_id c = cid" "ec_depends_on c = deps" "ec_run_if c = r"
    by (simp add: parse_command_def obj and_then_Inr_iff Let_def split: if_split_asm) auto
  then show ?thesis
    using parse_id_Inr parse_run_if_Inr by (simp add: well_formed_command_def)
qed

lemma parse_commands_Inr:
  "parse_commands fs dg parsed js = Inr out \<Longrightarrow>
   map ec_index parsed = [0..<length parsed] \<Longrightarrow> distinct (map ec_id parsed) \<Longrightarrow>
   list_all well_formed_command parsed \<Longrightarrow>
   map ec_index out = [0..<length parsed + length js] \<and> distinct (map ec_id out)
   \<and> list_all well_formed_command out"
proof (induction js arbitrary: parsed)
  case (Cons j js)
  from Cons.prems(1) obtain c where c: "parse_command fs dg (map ec_id parsed) (length parsed) j = Inr c"
    and rest: "parse_commands fs dg (parsed @ [c]) js = Inr out"
    by (auto simp: and_then_Inr_iff)
  show ?case
    using Cons.IH [OF rest] Cons.prems(2-4) parse_command_Inr [OF c] by simp
qed simp

lemma first_error_Inr: "first_error es = Inr u \<longleftrightarrow> (\<forall>e \<in> set es. e = None)"
proof -
  have "filter (\<lambda>e. e \<noteq> None) es = [] \<longleftrightarrow> (\<forall>e \<in> set es. e = None)"
    by (auto simp: filter_empty_conv)
  moreover have "hd (filter (\<lambda>e. e \<noteq> None) es) \<noteq> None" if "filter (\<lambda>e. e \<noteq> None) es \<noteq> []"
    using that hd_in_set by fastforce
  ultimately show ?thesis
    by (cases "filter (\<lambda>e. e \<noteq> None) es") (auto simp: first_error_def split: option.split)
qed

lemma numbered_upt:
  assumes "map ec_index cs = [0..<n]" and "n \<le> u64_max"
  shows "numbered cs"
proof -
  have "sorted_wrt (<) (map ec_index cs)" by (simp add: assms(1))
  moreover have "\<forall>i \<in> set (map ec_index cs). i \<le> u64_max" using assms by simp
  ultimately show ?thesis by (simp add: numbered_def sorted_wrt_map)
qed

text \<open>
  C32.  A batch that is read without error is well formed: one to 256 commands numbered in order with
  distinct non-blank ids, every dependency the id of another command of the batch, and a
  condition other than success only on commands that have dependencies.
\<close>

theorem parsed_batch_well_formed:
  assumes "parse_exec_batch_commands file_stem digest12 js = Inr cs"
  shows "length cs = length js \<and> 1 \<le> length cs \<and> length cs \<le> 256 \<and> valid_batch cs \<and> numbered cs
       \<and> (\<forall>c \<in> set cs. well_formed_command c \<and> ec_id c \<notin> set (ec_depends_on c))"
proof -
  have len: "js \<noteq> []" "length js \<le> 256"
    and p: "parse_commands file_stem digest12 [] js = Inr cs" and chk: "check_dependencies cs = Inr ()"
    using assms by (auto simp: parse_exec_batch_commands_def and_then_Inr_iff split: if_splits)
  from parse_commands_Inr [OF p] have idx: "map ec_index cs = [0..<length js]"
    and ids: "distinct (map ec_id cs)" and wf: "list_all well_formed_command cs" by simp_all
  have l: "length cs = length js" using arg_cong [OF idx, of length] by simp
  have deps: "d \<noteq> ec_id c \<and> d \<in> batch_ids cs" if "c \<in> set cs" "d \<in> set (ec_depends_on c)" for c d
  proof -
    have "check_dependency (map ec_id cs) (ec_id c) d = None"
      using chk that unfolding check_dependencies_def first_error_Inr by auto
    then show ?thesis by (auto simp: check_dependency_def batch_ids_def split: if_splits)
  qed
  have "numbered cs"
    using numbered_upt [OF idx] len(2) by (simp add: u64_max_def)
  with deps ids wf l len show ?thesis
    by (auto simp: valid_batch_def list_all_iff Suc_le_eq)
qed

definition no_stem :: "string \<Rightarrow> string option" where
  "no_stem path = None"

lemma sample_parse:
  "parse_exec_batch_commands no_stem id [JObj [(''id'', JStr ''a'')]]
     = Inr [\<lparr>ec_index = 0, ec_id = ''a'', ec_depends_on = [], ec_run_if = ''success'', ec_lock_group = None,
            ec_lock_group_inferred = False, ec_parallel_signature = ''opaque:default@.'',
            ec_parallel_prior = Unsafe,
            ec_args = JObj [(''output_mode'', JStr ''tail''), (''yield_time_ms'', JInt 30000)]\<rparr>]"
proof -
  define args where "args = JObj [(''output_mode'', JStr ''tail''), (''yield_time_ms'', JInt 30000)]"
  have get: "get_str args k = None" "get_array args k = None" if "k \<in> {''program'', ''shell'', ''workdir'', ''args''}" for k
    using that by (auto simp: args_def get_str_def get_array_def jget_def)
  have prior: "command_parallel_prior no_stem id args None = Unsafe"
    by (simp add: command_parallel_prior_def normalized_program_def get)
  have signature: "command_parallel_signature no_stem id args = ''opaque:default@.''"
    by (simp add: command_parallel_signature_def normalized_program_def normalized_command_verb_def
        command_has_version_flag_def command_workdir_def get)
  have group: "inferred_exec_lock_group no_stem (JObj []) = None"
    by (simp add: inferred_exec_lock_group_def get_str_def jget_def)
  have "trim ''a'' \<noteq> []" by code_simp
  then have "parse_id 0 (Some (JStr ''a'')) = Inr ''a''" by (simp add: parse_id_def)
  then show ?thesis
    by (simp add: parse_exec_batch_commands_def parse_command_def parse_depends_on_def
        parse_run_if_def parse_lock_group_def as_object_def obj_remove_def insert_default_def
        obj_insert_def group check_dependencies_def first_error_def prior signature flip: args_def)
qed

theorem parsed_batch_well_formed_witness:
  "\<exists>cs. parse_exec_batch_commands no_stem id [JObj [(''id'', JStr ''a'')]] = Inr cs \<and> numbered cs"
  using parsed_batch_well_formed [OF sample_parse] sample_parse by blast

end
