(* ===== verification/Workspace_Paths.thy ===== *)
theory Workspace_Paths
  imports Rust_Str Json
begin

text \<open>
  Path confinement (\<open>tools/workspace.rs\<close>) over a file system with symbolic links: which paths a tool
  may read or write, and where a write lands.  The Unix build is modelled: \<open>/\<close> separates
  components.  A path handed to the kernel is the list of its components with \<open>.\<close> kept where the
  text has one (a trailing \<open>/\<close> is a \<open>.\<close> too: it asks for a directory); what Rust's \<open>parent\<close> and
  \<open>file_name\<close> see has the \<open>.\<close> left out.
\<close>

section \<open>The file system\<close>

type_synonym path = "string list"

text \<open>A link holds whether its target is absolute, and the target.\<close>

datatype node = File string | Dir | Link bool path

type_synonym fs = "path \<Rightarrow> node option"

text \<open>
  Following a path from the real directory \<open>cur\<close>: links are followed at most \<open>n\<close> times (the
  kernel's limit), a file has no children.
\<close>

fun walk :: "fs \<Rightarrow> nat \<Rightarrow> path \<Rightarrow> path \<Rightarrow> path option" where
  "walk fs n cur [] = Some cur"
| "walk fs n cur (c # cs) =
     (if c = ''.'' then walk fs n cur cs
      else if c = ''..'' then walk fs n (butlast cur) cs
      else case fs (cur @ [c]) of
        None \<Rightarrow> None
      | Some Dir \<Rightarrow> walk fs n (cur @ [c]) cs
      | Some (File _) \<Rightarrow> if cs = [] then Some (cur @ [c]) else None
      | Some (Link absolute target) \<Rightarrow>
          (case n of
             0 \<Rightarrow> None
           | Suc m \<Rightarrow> walk fs m (if absolute then [] else cur) (target @ cs)))"

definition MAX_LINKS :: nat where "MAX_LINKS = 40"

definition canonicalize :: "fs \<Rightarrow> path \<Rightarrow> path option" where
  "canonicalize fs p = walk fs MAX_LINKS [] p"

text \<open>Opening a file for writing creates it when its directory exists, also behind a link.\<close>

fun open_new :: "fs \<Rightarrow> nat \<Rightarrow> path \<Rightarrow> path \<Rightarrow> path option" where
  "open_new fs n cur [] = Some cur"
| "open_new fs n cur (c # cs) =
     (if c = ''.'' then open_new fs n cur cs
      else if c = ''..'' then open_new fs n (butlast cur) cs
      else case fs (cur @ [c]) of
        None \<Rightarrow> if cs = [] then Some (cur @ [c]) else None
      | Some Dir \<Rightarrow> open_new fs n (cur @ [c]) cs
      | Some (File _) \<Rightarrow> if cs = [] then Some (cur @ [c]) else None
      | Some (Link absolute target) \<Rightarrow>
          (case n of
             0 \<Rightarrow> None
           | Suc m \<Rightarrow> open_new fs m (if absolute then [] else cur) (target @ cs)))"

definition path_exists :: "fs \<Rightarrow> path \<Rightarrow> bool" where
  "path_exists fs p \<longleftrightarrow> canonicalize fs p \<noteq> None"

definition is_dir :: "fs \<Rightarrow> path \<Rightarrow> bool" where
  "is_dir fs p = (case canonicalize fs p of
     Some q \<Rightarrow> q = [] \<or> fs q = Some Dir | None \<Rightarrow> False)"

definition is_link :: "fs \<Rightarrow> path \<Rightarrow> bool" where
  "is_link fs p = (case fs p of Some (Link _ _) \<Rightarrow> True | _ \<Rightarrow> False)"

definition is_symlink :: "fs \<Rightarrow> path \<Rightarrow> bool" where
  "is_symlink fs p =
     (if p = [] \<or> last p = ''.'' \<or> last p = ''..'' then False
      else case canonicalize fs (butlast p) of
        None \<Rightarrow> False
      | Some d \<Rightarrow> is_link fs (d @ [last p]))"

section \<open>Workspaces\<close>

datatype workspace_error = Tool string | ToolDetails string json

definition invalid_argument :: workspace_error where "invalid_argument = Tool ''INVALID_ARGUMENT''"
definition not_found :: workspace_error where "not_found = Tool ''NOT_FOUND''"
definition absolute_path_denied :: workspace_error where
  "absolute_path_denied = Tool ''ABSOLUTE_PATH_DENIED''"
definition path_outside_workspace :: workspace_error where
  "path_outside_workspace = Tool ''PATH_OUTSIDE_WORKSPACE''"
definition symlink_escape :: workspace_error where "symlink_escape = Tool ''SYMLINK_ESCAPE''"
definition not_a_directory :: workspace_error where "not_a_directory = Tool ''NOT_A_DIRECTORY''"

record ResolvedPath =
  rp_display :: string
  rp_path :: path
  rp_existed :: bool

text \<open>The root is a real directory.\<close>

definition new_workspace :: "fs \<Rightarrow> path \<Rightarrow> workspace_error + path" where
  "new_workspace fs root =
     (case canonicalize fs root of
        None \<Rightarrow> Inl invalid_argument
      | Some r \<Rightarrow> if is_dir fs r then Inr r else Inl invalid_argument)"

definition components :: "string \<Rightarrow> path" where
  "components raw = filter (\<lambda>c. c \<noteq> [] \<and> c \<noteq> ''.'') (split_on (CHR ''/'') raw)"

text \<open>The components the kernel walks for \<open>raw\<close>.\<close>

definition kernel_path :: "string \<Rightarrow> path" where
  "kernel_path raw =
     filter (\<lambda>c. c \<noteq> []) (split_on (CHR ''/'') raw) @ (if ends_with raw ''/'' then [''.''] else [])"

definition is_ascii_alphabetic :: "char \<Rightarrow> bool" where
  "is_ascii_alphabetic c = (is_ascii_alphanumeric c \<and> \<not> is_ascii_digit c)"

definition BACKSLASH :: char where "BACKSLASH = CHR 0x5C"

definition reject_unsafe_text :: "string \<Rightarrow> workspace_error + unit" where
  "reject_unsafe_text raw =
     (if raw = [] then Inl invalid_argument
      else if CHR 0x00 \<in> set raw then Inl invalid_argument
      else if hd raw = CHR ''/'' \<or> hd raw = BACKSLASH then Inl absolute_path_denied
      else if length raw \<ge> 2 \<and> raw ! 1 = CHR '':'' \<and> is_ascii_alphabetic (raw ! 0)
      then Inl absolute_path_denied
      else if ''..'' \<in> set (components raw) then Inl path_outside_workspace
      else Inr ())"

definition forward_slashes :: "string \<Rightarrow> string" where
  "forward_slashes = replace_char BACKSLASH (CHR ''/'')"

definition relative_display :: "path \<Rightarrow> path \<Rightarrow> string" where
  "relative_display root p =
     (if prefix root p then forward_slashes (join ''/'' (drop (length root) p))
      else forward_slashes (CHR ''/'' # join ''/'' p))"

definition ensure_inside_workspace :: "fs \<Rightarrow> path \<Rightarrow> path \<Rightarrow> path \<Rightarrow> workspace_error + unit" where
  "ensure_inside_workspace fs root candidate resolved =
     (if \<not> prefix root resolved
      then if is_symlink fs candidate then Inl symlink_escape else Inl path_outside_workspace
      else Inr ())"

definition validate_base :: "fs \<Rightarrow> path \<Rightarrow> path \<Rightarrow> workspace_error + path" where
  "validate_base fs root base =
     (case canonicalize fs base of
        None \<Rightarrow> Inl not_found
      | Some resolved \<Rightarrow>
          if \<not> is_dir fs resolved then Inl not_a_directory
          else if \<not> prefix root resolved then Inl path_outside_workspace
          else Inr resolved)"

definition resolve_existing_at :: "fs \<Rightarrow> path \<Rightarrow> path \<Rightarrow> string \<Rightarrow> workspace_error + ResolvedPath" where
  "resolve_existing_at fs root base raw_path =
     (let raw = (if raw_path = [] then ''.'' else raw_path)
      in and_then (reject_unsafe_text raw) (\<lambda>_.
         and_then (validate_base fs root base) (\<lambda>base.
         let candidate = base @ kernel_path raw
         in case canonicalize fs candidate of
              None \<Rightarrow> Inl not_found
            | Some resolved \<Rightarrow>
                and_then (ensure_inside_workspace fs root candidate resolved) (\<lambda>_.
                  Inr \<lparr>rp_display = relative_display root resolved, rp_path = resolved,
                       rp_existed = True\<rparr>))))"

definition resolve_existing :: "fs \<Rightarrow> path \<Rightarrow> string \<Rightarrow> workspace_error + ResolvedPath" where
  "resolve_existing fs root raw_path = resolve_existing_at fs root root raw_path"

definition resolve_read_path :: "fs \<Rightarrow> path \<Rightarrow> string \<Rightarrow> workspace_error + ResolvedPath" where
  "resolve_read_path = resolve_existing"

definition first_segment :: "string \<Rightarrow> string" where
  "first_segment p = hd (split_on (CHR ''/'') (forward_slashes p))"

definition reject_protected_write_path :: "string \<Rightarrow> workspace_error + unit" where
  "reject_protected_write_path raw_path =
     (if first_segment raw_path \<in> {''.git'', ''.github''} then Inl (Tool ''PROTECTED_PATH'') else Inr ())"

text \<open>The cursor moves up from the parent to the first ancestor that exists, at most to the root.\<close>

function existing_ancestor :: "fs \<Rightarrow> path \<Rightarrow> path \<Rightarrow> path" where
  "existing_ancestor fs root cursor =
     (if path_exists fs cursor then cursor
      else if cursor = root \<or> cursor = [] then cursor
      else existing_ancestor fs root (butlast cursor))"
  by pat_completeness auto
termination by (relation "measure (\<lambda>(fs, root, cursor). length cursor)") auto

declare existing_ancestor.simps [simp del]

definition ensure_parent_chain :: "fs \<Rightarrow> path \<Rightarrow> path \<Rightarrow> workspace_error + unit" where
  "ensure_parent_chain fs root parent =
     (case canonicalize fs (existing_ancestor fs root parent) of
        None \<Rightarrow> Inr ()
      | Some resolved \<Rightarrow> if prefix root resolved then Inr () else Inl path_outside_workspace)"

definition resolve_for_write :: "fs \<Rightarrow> path \<Rightarrow> string \<Rightarrow> workspace_error + ResolvedPath" where
  "resolve_for_write fs root raw_path =
     and_then (reject_unsafe_text raw_path) (\<lambda>_.
     and_then (reject_protected_write_path raw_path) (\<lambda>_.
     if components raw_path = [] then Inl invalid_argument
     else
       let candidate = root @ kernel_path raw_path
       in if path_exists fs candidate \<or> is_symlink fs candidate
          then (case canonicalize fs candidate of
                  None \<Rightarrow> Inl not_found
                | Some resolved \<Rightarrow>
                    and_then (ensure_inside_workspace fs root candidate resolved) (\<lambda>_.
                      Inr \<lparr>rp_display = relative_display root resolved, rp_path = resolved,
                           rp_existed = True\<rparr>))
          else
            let parent = butlast (root @ components raw_path)
            in and_then (case canonicalize fs parent of
                           Some resolved \<Rightarrow> Inr resolved
                         | None \<Rightarrow> and_then (ensure_parent_chain fs root parent) (\<lambda>_. Inr parent))
                 (\<lambda>resolved_parent.
                   if \<not> prefix root resolved_parent then Inl path_outside_workspace
                   else Inr \<lparr>rp_display = forward_slashes raw_path, rp_path = candidate,
                             rp_existed = False\<rparr>)))"

definition reject_write_symlink :: "fs \<Rightarrow> path \<Rightarrow> string \<Rightarrow> workspace_error + unit" where
  "reject_write_symlink fs root raw_path =
     and_then (reject_unsafe_text raw_path) (\<lambda>_.
       if is_symlink fs (root @ kernel_path raw_path) then Inl symlink_escape else Inr ())"

section \<open>Scanning\<close>

definition DEFAULT_EXCLUDED_NAMES :: "string list" where
  "DEFAULT_EXCLUDED_NAMES =
     [''.git'', ''.reference'', ''node_modules'', ''target'', ''dist'', ''build'', ''.venv'', ''venv'',
      ''.tox'', ''.mypy_cache'', ''.pytest_cache'', ''.ruff_cache'', ''__pycache__'']"

definition is_ignored_scan_path :: "path \<Rightarrow> path \<Rightarrow> path \<Rightarrow> bool \<Rightarrow> bool \<Rightarrow> bool" where
  "is_ignored_scan_path root scan_root p include_hidden include_generated =
     (if \<not> prefix root p then True
      else
        let parts = drop (length root) p
        in if list_ex (\<lambda>c. eq_ignore_ascii_case c ''.git'') parts then True
           else if \<not> include_hidden
             \<and> list_ex (\<lambda>c. starts_with c ''.'' \<and> c \<noteq> ''.'')
                 (if prefix scan_root p then drop (length scan_root) p else parts) then True
           else \<not> include_generated \<and> list_ex (\<lambda>c. c \<in> set DEFAULT_EXCLUDED_NAMES) parts)"

definition is_ignored_path :: "path \<Rightarrow> path \<Rightarrow> bool \<Rightarrow> bool \<Rightarrow> bool" where
  "is_ignored_path root p = is_ignored_scan_path root root p"

definition is_safe_existing_path :: "fs \<Rightarrow> path \<Rightarrow> path \<Rightarrow> bool" where
  "is_safe_existing_path fs root p =
     (case canonicalize fs p of Some q \<Rightarrow> prefix root q | None \<Rightarrow> False)"

definition is_safe_read_path :: "fs \<Rightarrow> path \<Rightarrow> bool" where
  "is_safe_read_path fs p \<longleftrightarrow> path_exists fs p \<or> is_symlink fs p"

section \<open>Where a path leads\<close>

text \<open>
  A real path is its own canonical form: it holds no \<open>.\<close>, \<open>..\<close> and no link.  What a system call on
  it reaches is the node of that name.
\<close>

definition dots :: "string set" where "dots = {''.'', ''..''}"

definition real_dir :: "fs \<Rightarrow> path \<Rightarrow> bool" where
  "real_dir fs p \<longleftrightarrow> (\<forall>k < length p. p ! k \<notin> dots \<and> fs (take (Suc k) p) = Some Dir)"

definition real_file :: "fs \<Rightarrow> path \<Rightarrow> bool" where
  "real_file fs p \<longleftrightarrow>
     p \<noteq> [] \<and> real_dir fs (butlast p) \<and> last p \<notin> dots \<and> (\<exists>data. fs p = Some (File data))"

lemma real_dir_Nil [simp]: "real_dir fs []"
  by (simp add: real_dir_def)

lemma real_dir_snoc [simp]:
  "real_dir fs (p @ [c]) \<longleftrightarrow> real_dir fs p \<and> c \<notin> dots \<and> fs (p @ [c]) = Some Dir"
  by (auto simp: real_dir_def nth_append less_Suc_eq)

lemma real_dir_append: "real_dir fs (p @ q) \<Longrightarrow> real_dir fs p"
  by (induction q rule: rev_induct) (auto simp flip: append_assoc)

lemma real_dir_butlast: "real_dir fs p \<Longrightarrow> real_dir fs (butlast p)"
  by (cases p rule: rev_cases) auto

lemma real_dir_node: "real_dir fs p \<Longrightarrow> p = [] \<or> fs p = Some Dir"
  by (cases p rule: rev_cases) auto

lemma real_file_snoc [simp]:
  "real_file fs (p @ [c]) \<longleftrightarrow> real_dir fs p \<and> c \<notin> dots \<and> (\<exists>data. fs (p @ [c]) = Some (File data))"
  by (simp add: real_file_def)

lemma real_dir_not_file: "real_dir fs p \<Longrightarrow> \<not> real_file fs p"
  by (cases p rule: rev_cases) (auto simp: real_file_def)

lemma walk_reaches_real:
  "walk fs n cur cs = Some q \<Longrightarrow> real_dir fs cur \<Longrightarrow> real_dir fs q \<or> real_file fs q"
  by (induction fs n cur cs rule: walk.induct)
     (auto simp: dots_def real_dir_butlast split: if_splits option.splits node.splits nat.splits)

lemma canonical_real: "canonicalize fs p = Some q \<Longrightarrow> real_dir fs q \<or> real_file fs q"
  unfolding canonicalize_def by (drule walk_reaches_real) simp_all

lemma walk_real_dir: "real_dir fs (cur @ q) \<Longrightarrow> walk fs n cur (q @ ys) = walk fs n (cur @ q) ys"
proof (induction q arbitrary: cur)
  case (Cons c q)
  have "real_dir fs (cur @ [c])"
    using Cons.prems by (intro real_dir_append [of fs "cur @ [c]" q]) simp
  with Cons show ?case by (simp add: dots_def)
qed simp

lemma canonical_real_dir: "real_dir fs q \<Longrightarrow> canonicalize fs (q @ ys) = walk fs MAX_LINKS q ys"
  using walk_real_dir [of fs "[]" q MAX_LINKS ys] by (simp add: canonicalize_def)

lemma canonical_of_real: "real_dir fs q \<or> real_file fs q \<Longrightarrow> canonicalize fs q = Some q"
proof (elim disjE)
  assume "real_dir fs q" then show ?thesis using canonical_real_dir [of fs q "[]"] by simp
next
  assume real: "real_file fs q"
  then obtain p c where q: "q = p @ [c]" by (metis real_file_def append_butlast_last_id)
  with real show ?thesis using canonical_real_dir [of fs p "[c]"] by (auto simp: dots_def)
qed

text \<open>Resolution is idempotent: nothing along a canonical path redirects a later access.\<close>

lemma canonical_idem: "canonicalize fs p = Some q \<Longrightarrow> canonicalize fs q = Some q"
  by (intro canonical_of_real canonical_real)

lemma is_dir_iff: "is_dir fs p \<longleftrightarrow> (\<exists>q. canonicalize fs p = Some q \<and> real_dir fs q)"
  unfolding is_dir_def
  by (auto split: option.splits dest: canonical_real real_dir_node simp: real_file_def)

lemma walk_cases [consumes 1, case_names dot up dir file_end link]:
  assumes "walk fs n cur (c # cs) = Some q"
  obtains "c = ''.''" "walk fs n cur cs = Some q"
  | "c = ''..''" "walk fs n (butlast cur) cs = Some q"
  | "c \<notin> dots" "fs (cur @ [c]) = Some Dir" "walk fs n (cur @ [c]) cs = Some q"
  | data where "c \<notin> dots" "fs (cur @ [c]) = Some (File data)" "cs = []" "q = cur @ [c]"
  | absolute target m where "c \<notin> dots" "fs (cur @ [c]) = Some (Link absolute target)" "n = Suc m"
      "walk fs m (if absolute then [] else cur) (target @ cs) = Some q"
  using assms unfolding dots_def
  by (auto split: if_split_asm option.split_asm node.split_asm nat.split_asm)

lemma walk_append:
  "walk fs n cur xs = Some q \<Longrightarrow> q = [] \<or> fs q = Some Dir \<Longrightarrow>
   \<exists>m. \<forall>ys. walk fs n cur (xs @ ys) = walk fs m q ys \<and> open_new fs n cur (xs @ ys) = open_new fs m q ys"
proof (induction fs n cur xs rule: walk.induct)
  case (2 fs n cur c cs)
  from "2.prems"(1) show ?case
  proof (cases rule: walk_cases)
    case (link absolute target m)
    then show ?thesis using "2.IH" "2.prems"(2) by (cases absolute) (auto simp: dots_def)
  qed (use "2.IH" "2.prems"(2) in \<open>auto simp: dots_def\<close>)
qed auto

lemma canonical_append:
  assumes "canonicalize fs p = Some q" "real_dir fs q"
  obtains m where "\<And>ys. canonicalize fs (p @ ys) = walk fs m q ys"
    "\<And>ys. open_new fs MAX_LINKS [] (p @ ys) = open_new fs m q ys"
  using walk_append [OF assms(1) [unfolded canonicalize_def] real_dir_node [OF assms(2)]] that
  unfolding canonicalize_def by blast

lemma walk_prefix: "walk fs n cur (xs @ ys) = Some q \<Longrightarrow> \<exists>r. walk fs n cur xs = Some r"
proof (induction fs n cur xs rule: walk.induct)
  case (2 fs n cur c cs)
  from "2.prems" have "walk fs n cur (c # (cs @ ys)) = Some q" by simp
  then show ?case
  proof (cases rule: walk_cases)
    case (link absolute target m)
    then show ?thesis using "2.IH" by (cases absolute) (auto simp: dots_def)
  qed (use "2.IH" in \<open>auto simp: dots_def\<close>)
qed auto

lemma path_exists_prefix: "path_exists fs (xs @ ys) \<Longrightarrow> path_exists fs xs"
  unfolding path_exists_def canonicalize_def using walk_prefix by fastforce

text \<open>The \<open>.\<close> components ask for directories; dropping them can only make more paths exist.\<close>

lemma walk_drop_dot:
  "walk fs n cur (xs @ ''.'' # ys) = Some q \<Longrightarrow> walk fs n cur (xs @ ys) = Some q"
proof (induction fs n cur xs rule: walk.induct)
  case (2 fs n cur c cs)
  from "2.prems" have "walk fs n cur (c # (cs @ ''.'' # ys)) = Some q" by simp
  then show ?case
  proof (cases rule: walk_cases)
    case (link absolute target m)
    then show ?thesis using "2.IH" by (cases absolute) (auto simp: dots_def)
  qed (use "2.IH" in \<open>auto simp: dots_def\<close>)
qed auto

definition undotted :: "path \<Rightarrow> path" where "undotted = filter (\<lambda>c. c \<noteq> ''.'')"

lemma canonical_undotted:
  "canonicalize fs (xs @ cs) = Some q \<Longrightarrow> canonicalize fs (xs @ undotted cs) = Some q"
proof (induction cs arbitrary: xs)
  case (Cons c cs)
  then show ?case using Cons.IH [of "xs @ [c]"] Cons.IH [of xs]
    by (auto simp: undotted_def canonicalize_def dest: walk_drop_dot)
qed (simp add: undotted_def)

text \<open>
  Where a write to a path lands: on what the path leads to when it exists, otherwise under the last
  directory that exists, the missing directories being created.  Opening a link that leads nowhere
  creates its target, but no directory is created behind such a link or below a file.
\<close>

fun land :: "fs \<Rightarrow> path \<Rightarrow> path \<Rightarrow> path option" where
  "land fs p [] = canonicalize fs p"
| "land fs p (c # cs) =
     (if path_exists fs (p @ [c]) then land fs (p @ [c]) cs
      else case canonicalize fs p of
        None \<Rightarrow> None
      | Some q \<Rightarrow>
          if \<not> is_dir fs q \<or> c = ''.'' \<or> ''..'' \<in> set (c # cs) then None
          else if fs (q @ [c]) = None then Some (q @ c # undotted cs)
          else if cs = [] then open_new fs MAX_LINKS [] (p @ [c]) else None)"

lemma land_cases:
  assumes "land fs p cs = Some w"
  obtains "canonicalize fs (p @ cs) = Some w"
  | xs c ys q where "cs = xs @ c # ys" "canonicalize fs (p @ xs) = Some q" "real_dir fs q"
      "\<not> path_exists fs (p @ xs @ [c])" "c \<notin> dots" "fs (q @ [c]) = None"
      "w = q @ c # undotted ys" "''..'' \<notin> set ys"
  | xs c q where "cs = xs @ [c]" "canonicalize fs (p @ xs) = Some q" "c \<notin> dots" "is_link fs (q @ [c])"
  using assms
proof (induction cs arbitrary: p thesis)
  case Nil
  then show ?case by simp
next
  case (Cons c cs)
  show ?case
  proof (cases "path_exists fs (p @ [c])")
    case True
    with Cons.prems(4) have "land fs (p @ [c]) cs = Some w" by simp
    then show ?thesis
    proof (rule Cons.IH [rotated 3])
      assume "canonicalize fs ((p @ [c]) @ cs) = Some w"
      with Cons.prems(1) show thesis by simp
    next
      fix xs d ys q
      assume "cs = xs @ d # ys" "canonicalize fs ((p @ [c]) @ xs) = Some q" "real_dir fs q"
        "\<not> path_exists fs ((p @ [c]) @ xs @ [d])" "d \<notin> dots" "fs (q @ [d]) = None"
        "w = q @ d # undotted ys" "''..'' \<notin> set ys"
      with Cons.prems(2) [of "c # xs" d ys q] show thesis by simp
    next
      fix xs d q
      assume "cs = xs @ [d]" "canonicalize fs ((p @ [c]) @ xs) = Some q" "d \<notin> dots" "is_link fs (q @ [d])"
      with Cons.prems(3) [of "c # xs" d q] show thesis by simp
    qed
  next
    case False
    with Cons.prems(4) obtain q where q: "canonicalize fs p = Some q" "is_dir fs q" "c \<notin> dots"
      "''..'' \<notin> set cs"
      "fs (q @ [c]) = None \<and> w = q @ c # undotted cs \<or> fs (q @ [c]) \<noteq> None \<and> cs = []"
      by (auto simp: dots_def split: option.splits if_splits)
    then have dir: "real_dir fs q" using canonical_idem [of fs p q] by (auto simp: is_dir_iff)
    show ?thesis
    proof (cases "fs (q @ [c])")
      case None
      with q dir False show ?thesis using Cons.prems(2) [of "[]" c cs q] by simp
    next
      case (Some node)
      obtain m where "canonicalize fs (p @ [c]) = walk fs m q [c]"
        using canonical_append [OF q(1) dir] by metis
      with False Some q(3) have "is_link fs (q @ [c])"
        by (cases node) (auto simp: path_exists_def is_link_def dots_def)
      with q Some show ?thesis using Cons.prems(3) [of "[]" c q] by simp
    qed
  qed
qed

lemma land_existing: "canonicalize fs (p @ cs) = Some q \<Longrightarrow> land fs p cs = Some q"
proof (induction cs arbitrary: p)
  case (Cons c cs)
  then have "path_exists fs (p @ [c])"
    using path_exists_prefix [of fs "p @ [c]" cs] by (simp add: path_exists_def)
  with Cons show ?case by simp
qed simp

lemma land_missing:
  "canonicalize fs (p @ cs) = Some q \<Longrightarrow> \<not> path_exists fs (p @ cs @ [c]) \<Longrightarrow> is_dir fs q \<Longrightarrow> c \<notin> dots \<Longrightarrow>
   fs (q @ [c]) = None \<Longrightarrow> land fs p (cs @ [c]) = Some (q @ [c])"
proof (induction cs arbitrary: p)
  case Nil
  then show ?case by (auto simp: dots_def undotted_def)
next
  case (Cons d cs)
  then have "path_exists fs (p @ [d])"
    using path_exists_prefix [of fs "p @ [d]" cs] by (simp add: path_exists_def)
  with Cons show ?case by simp
qed

text \<open>The parent check stops at the last directory that exists.\<close>

lemma existing_ancestor_exact:
  assumes "path_exists fs p" "\<not> path_exists fs (p @ [c])" "ys = [] \<or> hd ys = c" "length root \<le> length p"
  shows "existing_ancestor fs root (p @ ys) = p"
  using assms(3)
proof (induction ys rule: rev_induct)
  case Nil
  then show ?case using assms(1) by (simp add: existing_ancestor.simps)
next
  case (snoc y ys)
  obtain zs where "ys @ [y] = c # zs" using snoc.prems by (cases "ys @ [y]") auto
  then have "\<not> path_exists fs (p @ ys @ [y])"
    using assms(2) path_exists_prefix [of fs "p @ [c]" zs] by auto
  moreover have "ys = [] \<or> hd ys = c" using snoc.prems by (cases ys) auto
  moreover have "p @ ys @ [y] \<noteq> root" using assms(4) by auto
  ultimately show ?case using snoc.IH
    by (subst existing_ancestor.simps) (auto simp: butlast_append)
qed

section \<open>Confinement\<close>

lemma undotted_kernel_path: "undotted (kernel_path raw) = components raw"
  by (auto simp: undotted_def kernel_path_def components_def intro!: filter_cong)

lemma undotted_append [simp]: "undotted (xs @ ys) = undotted xs @ undotted ys"
  by (simp add: undotted_def)

lemma components_undotted:
  assumes "kernel_path raw = xs @ c # ys" "c \<notin> dots"
  shows "components raw = undotted xs @ c # undotted ys"
  using arg_cong [OF assms(1), of undotted] assms(2)
  by (simp add: undotted_kernel_path) (simp add: undotted_def dots_def)

text \<open>The directory a new file is created in is the one whose place in the workspace was checked.\<close>

lemma creation_directory_checked:
  assumes "canonicalize fs root = Some root" "kernel_path raw = xs @ c # ys" "c \<notin> dots"
    "canonicalize fs (root @ xs) = Some q" "real_dir fs q" "fs (q @ [c]) = None"
    "case canonicalize fs (butlast (root @ components raw)) of
       Some resolved \<Rightarrow> prefix root resolved
     | None \<Rightarrow> is_ok (ensure_parent_chain fs root (butlast (root @ components raw)))"
  shows "prefix root q"
proof -
  define pre where "pre = root @ undotted xs"
  have pre: "canonicalize fs pre = Some q"
    unfolding pre_def by (rule canonical_undotted [OF assms(4)])
  obtain m where "\<And>zs. canonicalize fs (pre @ zs) = walk fs m q zs"
    using canonical_append [OF pre assms(5)] by blast
  then have next_missing: "\<not> path_exists fs (pre @ [c])"
    using assms(3,6) by (simp add: path_exists_def dots_def)
  let ?rest = "butlast (c # undotted ys)"
  have parent: "butlast (root @ components raw) = pre @ ?rest"
    unfolding pre_def components_undotted [OF assms(2,3)] by (simp add: butlast_append)
  have "existing_ancestor fs root (pre @ ?rest) = pre"
    by (rule existing_ancestor_exact [OF _ next_missing])
       (use pre in \<open>simp_all add: path_exists_def pre_def\<close>)
  moreover have "?rest = []" if "canonicalize fs (pre @ ?rest) \<noteq> None"
    using that next_missing path_exists_prefix [of fs "pre @ [c]" "tl ?rest"]
    by (cases "undotted ys") (auto simp: path_exists_def)
  ultimately show ?thesis
    using assms(7) pre unfolding parent ensure_parent_chain_def
    by (auto split: option.split_asm if_split_asm)
qed

lemma accepted_write:
  assumes "resolve_for_write fs root raw = Inr r"
  shows "reject_unsafe_text raw = Inr ()" "reject_protected_write_path raw = Inr ()"
    "components raw \<noteq> []"
  using assms unfolding resolve_for_write_def by (auto simp: and_then_Inr_iff split: if_splits)

lemma accepted_write_cases:
  assumes "resolve_for_write fs root raw = Inr r"
  obtains (existing) resolved where "canonicalize fs (root @ kernel_path raw) = Some resolved"
      "prefix root resolved"
      "r = \<lparr>rp_display = relative_display root resolved, rp_path = resolved, rp_existed = True\<rparr>"
  | (new) "\<not> path_exists fs (root @ kernel_path raw)" "\<not> is_symlink fs (root @ kernel_path raw)"
      "case canonicalize fs (butlast (root @ components raw)) of
         Some resolved \<Rightarrow> prefix root resolved
       | None \<Rightarrow> is_ok (ensure_parent_chain fs root (butlast (root @ components raw)))"
      "r = \<lparr>rp_display = forward_slashes raw, rp_path = root @ kernel_path raw, rp_existed = False\<rparr>"
  using assms unfolding resolve_for_write_def
  by (auto simp: and_then_Inr_iff Let_def ensure_inside_workspace_def path_exists_def
           split: if_split_asm option.split_asm)

lemma accepted_write_lands_inside:
  assumes "canonicalize fs root = Some root"
    and "resolve_for_write fs root raw = Inr r"
    and "land fs [] (rp_path r) = Some w"
  shows "prefix root w"
proof -
  from assms(2) show ?thesis
  proof (cases rule: accepted_write_cases)
    case (existing resolved)
    then show ?thesis
      using assms(3) land_existing [of fs "[]" resolved resolved] canonical_idem by simp
  next
    case new
    from assms(3) show ?thesis unfolding new(4) ResolvedPath.simps
    proof (cases rule: land_cases)
      case 1
      with new(1) show ?thesis by (simp add: path_exists_def)
    next
      case (2 ps c ys q)
      have "\<not> prefix (ps @ [c]) root"
        using 2(4) assms(1) path_exists_prefix [of fs "ps @ [c]"] by (auto simp: path_exists_def prefix_def)
      with 2(1) obtain xs where "ps = root @ xs" "kernel_path raw = xs @ c # ys"
        apply (auto simp: append_eq_append_conv2 Cons_eq_append_conv prefix_def)
        subgoal for us by (cases us) auto
        done
      then show ?thesis
        using creation_directory_checked [OF assms(1) _ 2(5) _ 2(3) 2(6) new(3)] 2(2,7)
        by (simp add: prefix_append)
    next
      case (3 ps c q)
      then have "is_symlink fs (root @ kernel_path raw)" by (simp add: is_symlink_def dots_def)
      with new(2) show ?thesis by simp
    qed
  qed
qed

lemma workspace_root: "new_workspace fs given = Inr root \<Longrightarrow> canonicalize fs root = Some root \<and> real_dir fs root"
  by (auto simp: new_workspace_def is_dir_iff canonical_idem split: option.splits if_splits)

text \<open>
  C8.  A write target that is accepted lands inside the workspace: through whatever links its existing
  part leads, the file written, or the directories and the file created, are under the root.
\<close>

theorem writes_land_in_the_workspace:
  assumes "new_workspace fs given = Inr root"
    and "resolve_for_write fs root raw = Inr r"
    and "land fs [] (rp_path r) = Some w"
  shows "prefix root w"
  using assms accepted_write_lands_inside workspace_root by blast

lemma accepted_read:
  assumes "resolve_existing_at fs root base raw = Inr r"
  obtains base' where "canonicalize fs base = Some base'" "prefix root base'" "real_dir fs base'"
    "canonicalize fs (base' @ kernel_path (if raw = [] then ''.'' else raw)) = Some (rp_path r)"
    "prefix root (rp_path r)" "rp_display r = relative_display root (rp_path r)" "rp_existed r"
proof -
  from assms show thesis
    unfolding resolve_existing_at_def validate_base_def ensure_inside_workspace_def Let_def
    by (auto simp: and_then_Inr_iff is_dir_iff canonical_idem
             split: option.split_asm if_split_asm intro!: that)
qed

text \<open>
  A path that a reading tool is given resolves, when it resolves, to a path inside the workspace
  with no link on it: no link and no \<open>..\<close> leads a read out of the workspace, whatever the base.
\<close>

lemma reads_stay_in_the_workspace:
  assumes "resolve_existing_at fs root base raw = Inr r"
  shows "prefix root (rp_path r) \<and> (real_dir fs (rp_path r) \<or> real_file fs (rp_path r))
         \<and> (''..'' \<notin> set (kernel_path raw))"
proof -
  from assms have "reject_unsafe_text (if raw = [] then ''.'' else raw) = Inr ()"
    by (auto simp: resolve_existing_at_def and_then_Inr_iff Let_def)
  then have "''..'' \<notin> set (kernel_path raw)"
    by (cases "raw = []")
       (auto simp: reject_unsafe_text_def undotted_kernel_path [symmetric] undotted_def
             kernel_path_def split: if_split_asm)
  with assms show ?thesis by (auto elim!: accepted_read dest: canonical_real)
qed

text \<open>
  The path shown for a file leads back to that file, unless its name can be read as an absolute
  path or holds a backslash, which is shown as a slash.
\<close>

definition plain_name :: "string \<Rightarrow> bool" where
  "plain_name c \<longleftrightarrow> c \<noteq> [] \<and> c \<notin> dots \<and> set c \<inter> {CHR ''/'', BACKSLASH, CHR 0x00, CHR '':''} = {}"

lemma forward_slashes_id: "BACKSLASH \<notin> set s \<Longrightarrow> forward_slashes s = s"
  unfolding forward_slashes_def replace_char_def by (induction s) auto

lemma plain_join:
  assumes "list_all plain_name ps" "ps \<noteq> []"
  shows "kernel_path (join ''/'' ps) = ps" "set (join ''/'' ps) \<inter> {BACKSLASH, CHR 0x00, CHR '':''} = {}"
    "join ''/'' ps \<noteq> []" "hd (join ''/'' ps) \<noteq> CHR ''/''"
proof -
  show chars: "set (join ''/'' ps) \<inter> {BACKSLASH, CHR 0x00, CHR '':''} = {}"
    using assms by (induction ps rule: induct_list012) (auto simp: plain_name_def BACKSLASH_def)
  obtain q qs where q: "ps = q # qs" "plain_name q" using assms by (cases ps) auto
  then show "join ''/'' ps \<noteq> []" "hd (join ''/'' ps) \<noteq> CHR ''/''"
    by (cases q; cases qs; force simp: plain_name_def)+
  have split: "split_on (CHR ''/'') (join ''/'' ps) = ps"
    using assms by (intro split_on_join) (auto simp: list_all_iff plain_name_def)
  have "\<not> ends_with (join ''/'' ps) ''/''"
  proof
    assume "ends_with (join ''/'' ps) ''/''"
    then obtain t where "join ''/'' ps = t @ CHR ''/'' # []" by (auto simp: ends_with_iff)
    then have "[] \<in> set ps"
      using split split_on_append_sep [of "CHR ''/''" t "[]"] by (metis in_set_conv_decomp split_on.simps(1))
    with assms(1) show False by (auto simp: list_all_iff plain_name_def)
  qed
  with assms(1) split show "kernel_path (join ''/'' ps) = ps"
    by (auto simp: kernel_path_def list_all_iff plain_name_def intro!: filter_True)
qed

lemma plain_text_safe:
  assumes "list_all plain_name ps" "ps \<noteq> []"
  shows "reject_unsafe_text (join ''/'' ps) = Inr ()"
proof -
  note shape = plain_join(2-4) [OF assms]
  obtain c cs where cs: "join ''/'' ps = c # cs" using shape(2) by (cases "join ''/'' ps") auto
  have "''..'' \<notin> set (components (c # cs))"
    using assms(1) plain_join(1) [OF assms]
    by (auto simp: undotted_kernel_path [symmetric] undotted_def list_all_iff plain_name_def dots_def cs)
  with shape show ?thesis unfolding cs by (cases cs) (auto simp: reject_unsafe_text_def)
qed

text \<open>
  The path reported for a file is a path to it: given back to a reading tool it resolves to the
  same file with the same text, when the names on it have no backslash, colon or zero byte.
\<close>

lemma displayed_path_resolves_back:
  assumes "new_workspace fs given = Inr root" "resolve_existing fs root raw = Inr r"
    and "list_all plain_name (drop (length root) (rp_path r))"
  shows "resolve_existing fs root (rp_display r) = Inr r"
proof -
  define ps where "ps = drop (length root) (rp_path r)"
  note root = workspace_root [OF assms(1)]
  from assms(2) have r: "canonicalize fs (rp_path r) = Some (rp_path r)" "rp_path r = root @ ps"
      "rp_display r = relative_display root (rp_path r)" "rp_existed r"
    unfolding resolve_existing_def ps_def
    by (auto elim!: accepted_read dest: canonical_idem simp: prefix_def)
  let ?text = "if rp_display r = [] then ''.'' else rp_display r"
  have "canonicalize fs (root @ kernel_path ?text) = Some (rp_path r) \<and> reject_unsafe_text ?text = Inr ()"
  proof (cases "ps = []")
    case True
    then have "?text = ''.''" using r by (simp add: relative_display_def forward_slashes_def replace_char_def)
    moreover have "canonicalize fs (root @ [''.'']) = Some root"
      using canonical_real_dir [of fs root "[''.'']"] root by simp
    ultimately show ?thesis
      using True r(2) by (simp add: kernel_path_def reject_unsafe_text_def components_def ends_with_def
          starts_with_def BACKSLASH_def)
  next
    case False
    note plain = assms(3) [folded ps_def] False
    have "rp_display r = join ''/'' ps"
      using r(2,3) plain_join(2) [OF plain] by (simp add: relative_display_def forward_slashes_id)
    then show ?thesis using r(1,2) plain_join(1,3) [OF plain] plain_text_safe [OF plain] by simp
  qed
  then show ?thesis
    using root r unfolding resolve_existing_def resolve_existing_at_def validate_base_def
    by (cases r) (auto simp: is_dir_iff ensure_inside_workspace_def Let_def prefix_def)
qed

lemma hook_paths:
  assumes "plain_name c"
  shows "split_on (CHR ''/'') (''.git/hooks/'' @ c) = [''.git'', ''hooks'', c]"
    "split_on (CHR ''/'') (''./.git/hooks/'' @ c) = [''.'', ''.git'', ''hooks'', c]"
    "kernel_path (''./.git/hooks/'' @ c) = [''.'', ''.git'', ''hooks'', c]"
    "components (''./.git/hooks/'' @ c) = [''.git'', ''hooks'', c]"
    "components (''.git/hooks/'' @ c) = [''.git'', ''hooks'', c]"
    "forward_slashes (''./.git/hooks/'' @ c) = ''./.git/hooks/'' @ c"
    "forward_slashes (''.git/hooks/'' @ c) = ''.git/hooks/'' @ c"
proof -
  have c: "c \<noteq> []" "CHR ''/'' \<notin> set c" "BACKSLASH \<notin> set c" "c \<notin> dots"
    using assms by (auto simp: plain_name_def)
  then have "last c \<noteq> CHR ''/''" by (metis last_in_set)
  then have "\<not> ends_with (''./.git/hooks/'' @ c) ''/''"
    using c(1) by (auto simp: ends_with_iff append_eq_append_conv2 Cons_eq_append_conv last_append)
  moreover show "split_on (CHR ''/'') (''.git/hooks/'' @ c) = [''.git'', ''hooks'', c]"
    "split_on (CHR ''/'') (''./.git/hooks/'' @ c) = [''.'', ''.git'', ''hooks'', c]"
    by (simp_all add: split_on_no_sep [OF c(2)])
  ultimately show "kernel_path (''./.git/hooks/'' @ c) = [''.'', ''.git'', ''hooks'', c]"
    "components (''./.git/hooks/'' @ c) = [''.git'', ''hooks'', c]"
    "components (''.git/hooks/'' @ c) = [''.git'', ''hooks'', c]"
    using c by (simp_all add: kernel_path_def components_def dots_def)
  show "forward_slashes (''./.git/hooks/'' @ c) = ''./.git/hooks/'' @ c"
    "forward_slashes (''.git/hooks/'' @ c) = ''.git/hooks/'' @ c"
    using c(3) by (auto intro!: forward_slashes_id simp: BACKSLASH_def)
qed

lemma hook_texts_safe:
  assumes "plain_name c"
  shows "reject_unsafe_text (''.git/hooks/'' @ c) = Inr ()"
    "reject_unsafe_text (''./.git/hooks/'' @ c) = Inr ()"
    "reject_protected_write_path (''.git/hooks/'' @ c) = Inl (Tool ''PROTECTED_PATH'')"
    "reject_protected_write_path (''./.git/hooks/'' @ c) = Inr ()"
  using assms hook_paths [OF assms]
  by (auto simp: reject_unsafe_text_def plain_name_def dots_def BACKSLASH_def
      reject_protected_write_path_def first_segment_def)

text \<open>
  The guard of \<open>.git\<close> and \<open>.github\<close> compares the first segment of the text, so a leading \<open>./\<close>
  passes it: \<open>./.git/hooks/x\<close> is accepted as a write target and lands in \<open>.git/hooks\<close>, where
  \<open>.git/hooks/x\<close> is refused.
\<close>

lemma dotted_path_passes_the_git_guard:
  assumes "new_workspace fs given = Inr root" "real_dir fs (root @ [''.git'', ''hooks''])"
    and "plain_name c" "fs (root @ [''.git'', ''hooks'', c]) = None"
  shows "resolve_for_write fs root (''.git/hooks/'' @ c) = Inl (Tool ''PROTECTED_PATH'')
         \<and> resolve_for_write fs root (''./.git/hooks/'' @ c)
             = Inr \<lparr>rp_display = ''./.git/hooks/'' @ c,
                    rp_path = root @ [''.'', ''.git'', ''hooks'', c], rp_existed = False\<rparr>
         \<and> land fs [] (root @ [''.'', ''.git'', ''hooks'', c]) = Some (root @ [''.git'', ''hooks'', c])"
proof -
  let ?hooks = "root @ [''.git'', ''hooks'']"
  have dirs: "real_dir fs root" "fs (root @ [''.git'']) = Some Dir" "fs ?hooks = Some Dir" "c \<notin> dots"
    using assms(2) real_dir_snoc [of fs "root @ [''.git'']" "''hooks''"] real_dir_snoc [of fs root "''.git''"]
      assms(3) by (auto simp: plain_name_def)
  note walks = canonical_real_dir [OF dirs(1)] path_exists_def dots_def
  have hooks: "canonicalize fs (root @ [''.'', ''.git'', ''hooks'']) = Some ?hooks"
    "canonicalize fs ?hooks = Some ?hooks" "is_dir fs ?hooks"
    using dirs canonical_of_real assms(2) by (auto simp: walks is_dir_iff)
  have missing: "\<not> path_exists fs (root @ [''.'', ''.git'', ''hooks'', c])"
    using dirs assms(4) by (simp add: walks)
  have "land fs [] ((root @ [''.'', ''.git'', ''hooks'']) @ [c]) = Some (?hooks @ [c])"
    by (rule land_missing) (use hooks missing assms(4) dirs(4) in simp_all)
  moreover have "\<not> is_symlink fs (root @ [''.'', ''.git'', ''hooks'', c])"
    using hooks(1) assms(4) by (simp add: is_symlink_def is_link_def butlast_append)
  ultimately show ?thesis
    using hooks missing hook_paths [OF assms(3)] hook_texts_safe [OF assms(3)]
    by (simp add: resolve_for_write_def Let_def butlast_append prefix_def)
qed

definition sample_fs :: fs where
  "sample_fs = map_of
     [([''w''], Dir), ([''w'', ''src''], Dir), ([''w'', ''src'', ''a.rs''], File ''fn''), ([''etc''], Dir),
      ([''w'', ''lib''], Link False [''src'']), ([''w'', ''out''], Link True [''etc'']),
      ([''w'', ''.git''], Dir), ([''w'', ''.git'', ''hooks''], Dir)]"

lemma sample_workspace: "new_workspace sample_fs [''w''] = Inr [''w'']"
  by code_simp

lemma reads_stay_in_the_workspace_witness:
  "resolve_existing_at sample_fs [''w''] [''w''] ''lib/a.rs''
     = Inr \<lparr>rp_display = ''src/a.rs'', rp_path = [''w'', ''src'', ''a.rs''], rp_existed = True\<rparr>
   \<and> prefix [''w''] [''w'', ''src'', ''a.rs'']
   \<and> resolve_existing_at sample_fs [''w''] [''w''] ''out'' = Inl symlink_escape"
proof -
  have *: "resolve_existing_at sample_fs [''w''] [''w''] ''lib/a.rs''
     = Inr \<lparr>rp_display = ''src/a.rs'', rp_path = [''w'', ''src'', ''a.rs''], rp_existed = True\<rparr>"
    by code_simp
  moreover have "resolve_existing_at sample_fs [''w''] [''w''] ''out'' = Inl symlink_escape" by code_simp
  ultimately show ?thesis using reads_stay_in_the_workspace [OF *] by simp
qed

lemma writes_land_in_the_workspace_witness:
  "resolve_for_write sample_fs [''w''] ''lib/new/b.rs''
     = Inr \<lparr>rp_display = ''lib/new/b.rs'', rp_path = [''w'', ''lib'', ''new'', ''b.rs''], rp_existed = False\<rparr>
   \<and> land sample_fs [] [''w'', ''lib'', ''new'', ''b.rs''] = Some [''w'', ''src'', ''new'', ''b.rs'']
   \<and> prefix [''w''] [''w'', ''src'', ''new'', ''b.rs'']"
proof -
  have *: "resolve_for_write sample_fs [''w''] ''lib/new/b.rs''
     = Inr \<lparr>rp_display = ''lib/new/b.rs'', rp_path = [''w'', ''lib'', ''new'', ''b.rs''], rp_existed = False\<rparr>"
    by code_simp
  have **: "land sample_fs [] [''w'', ''lib'', ''new'', ''b.rs''] = Some [''w'', ''src'', ''new'', ''b.rs'']"
    by code_simp
  show ?thesis using writes_land_in_the_workspace [OF sample_workspace *] * ** by simp
qed

lemma displayed_path_resolves_back_witness:
  "resolve_existing sample_fs [''w''] ''lib/a.rs''
     = Inr \<lparr>rp_display = ''src/a.rs'', rp_path = [''w'', ''src'', ''a.rs''], rp_existed = True\<rparr>
   \<and> resolve_existing sample_fs [''w''] ''src/a.rs''
     = Inr \<lparr>rp_display = ''src/a.rs'', rp_path = [''w'', ''src'', ''a.rs''], rp_existed = True\<rparr>"
proof -
  have *: "resolve_existing sample_fs [''w''] ''lib/a.rs''
     = Inr \<lparr>rp_display = ''src/a.rs'', rp_path = [''w'', ''src'', ''a.rs''], rp_existed = True\<rparr>"
    by code_simp
  have "list_all plain_name [''src'', ''a.rs'']" by code_simp
  then show ?thesis using displayed_path_resolves_back [OF sample_workspace *] * by simp
qed

lemma dotted_path_passes_the_git_guard_witness:
  "is_ok (resolve_for_write sample_fs [''w''] ''./.git/hooks/pre-commit'')
   \<and> land sample_fs [] [''w'', ''.'', ''.git'', ''hooks'', ''pre-commit'']
       = Some [''w'', ''.git'', ''hooks'', ''pre-commit'']"
proof -
  have "real_dir sample_fs [''w'', ''.git'', ''hooks'']" "plain_name ''pre-commit''"
    "sample_fs [''w'', ''.git'', ''hooks'', ''pre-commit''] = None"
    by code_simp+
  then show ?thesis
    using dotted_path_passes_the_git_guard [OF sample_workspace, of "''pre-commit''"] by simp
qed

end
