(* ===== verification/Disk.thy ===== *)
theory Disk
  imports Workspace_Paths Operations
begin

text \<open>
  The file system calls the patch tools make, over the nodes of \<open>Workspace_Paths\<close>.  Each call that
  touches data may be refused by the system; a refused write may leave part of its bytes.  What
  happens to the \<open>n\<close>-th call, the UUIDs drawn and the order in which a \<open>HashMap\<close> is walked are given
  with the disk.
\<close>

datatype call = Read path | Write path | Rename path path | Remove path | Mkdir path

datatype outcome = Proceeds | Refused | Cut string

type_synonym backups = "(path \<times> string option) list"
type_synonym temporaries = "(path \<times> path) list"

record disk =
  nodes :: fs
  calls :: nat
  outcome_of :: "nat \<Rightarrow> call \<Rightarrow> outcome"
  uuid_of :: "nat \<Rightarrow> string"
  backup_order :: "backups \<Rightarrow> backups"
  temporary_order :: "temporaries \<Rightarrow> temporaries"

text \<open>An I/O error is a value without content.\<close>

type_synonym 'a disk_op = "(disk, unit, 'a) op"

definition system_call :: "call \<Rightarrow> (fs \<Rightarrow> (unit + 'a) \<times> fs) \<Rightarrow> 'a disk_op" where
  "system_call c f = (\<lambda>d.
     let d' = d\<lparr>calls := Suc (calls d)\<rparr>
     in if outcome_of d (calls d) c = Proceeds
        then (case f (nodes d) of (r, fs) \<Rightarrow> (r, d'\<lparr>nodes := fs\<rparr>))
        else (Inl (), d'))"

text \<open>The directory entry a path names; a final link is not followed.\<close>

definition entry :: "fs \<Rightarrow> path \<Rightarrow> path option" where
  "entry fs p =
     (if p = [] \<or> last p \<in> dots then None
      else case canonicalize fs (butlast p) of
        None \<Rightarrow> None
      | Some d \<Rightarrow> if is_dir fs d then Some (d @ [last p]) else None)"

definition file_at :: "fs \<Rightarrow> path \<Rightarrow> string option" where
  "file_at fs p = (case canonicalize fs p of
     None \<Rightarrow> None
   | Some q \<Rightarrow> (case fs q of Some (File bytes) \<Rightarrow> Some bytes | _ \<Rightarrow> None))"

definition is_file :: "fs \<Rightarrow> path \<Rightarrow> bool" where
  "is_file fs p \<longleftrightarrow> file_at fs p \<noteq> None"

definition fs_read :: "path \<Rightarrow> string disk_op" where
  "fs_read p = system_call (Read p) (\<lambda>fs.
     (case file_at fs p of Some bytes \<Rightarrow> Inr bytes | None \<Rightarrow> Inl (), fs))"

definition write_node :: "path \<Rightarrow> string \<Rightarrow> fs \<Rightarrow> (unit + unit) \<times> fs" where
  "write_node p bytes fs = (case open_new fs MAX_LINKS [] p of
     None \<Rightarrow> (Inl (), fs)
   | Some q \<Rightarrow> if q = [] \<or> fs q = Some Dir then (Inl (), fs) else (Inr (), fs(q \<mapsto> File bytes)))"

definition fs_write :: "path \<Rightarrow> string \<Rightarrow> unit disk_op" where
  "fs_write p bytes = (\<lambda>d. case outcome_of d (calls d) (Write p) of
     Cut part \<Rightarrow> (Inl (), d\<lparr>calls := Suc (calls d), nodes := snd (write_node p part (nodes d))\<rparr>)
   | _ \<Rightarrow> system_call (Write p) (write_node p bytes) d)"

definition fs_remove_file :: "path \<Rightarrow> unit disk_op" where
  "fs_remove_file p = system_call (Remove p) (\<lambda>fs.
     case entry fs p of
       None \<Rightarrow> (Inl (), fs)
     | Some e \<Rightarrow> if fs e = None \<or> fs e = Some Dir then (Inl (), fs) else (Inr (), fs(e := None)))"

text \<open>Renaming a file over a directory fails; a file or a link there is replaced.\<close>

definition fs_rename :: "path \<Rightarrow> path \<Rightarrow> unit disk_op" where
  "fs_rename a b = system_call (Rename a b) (\<lambda>fs.
     case (entry fs a, entry fs b) of
       (Some s, Some t) \<Rightarrow>
         (case fs s of
            Some (File bytes) \<Rightarrow>
              if fs t = Some Dir then (Inl (), fs) else (Inr (), fs(s := None, t \<mapsto> File bytes))
          | _ \<Rightarrow> (Inl (), fs))
     | _ \<Rightarrow> (Inl (), fs))"

definition fs_mkdir :: "path \<Rightarrow> unit disk_op" where
  "fs_mkdir p = system_call (Mkdir p) (\<lambda>fs.
     case entry fs p of
       None \<Rightarrow> (Inl (), fs)
     | Some e \<Rightarrow> if fs e = None then (Inr (), fs(e \<mapsto> Dir)) else (Inl (), fs))"

text \<open>\<open>create_dir_all\<close> makes the directories that are missing, from the top.\<close>

fun create_dirs :: "path \<Rightarrow> path \<Rightarrow> unit disk_op" where
  "create_dirs p [] = op_return ()"
| "create_dirs p (c # cs) = (\<lambda>d.
     if is_dir (nodes d) (p @ [c]) then create_dirs (p @ [c]) cs d
     else op_bind (fs_mkdir (p @ [c])) (\<lambda>_. create_dirs (p @ [c]) cs) d)"

definition fs_create_dir_all :: "path \<Rightarrow> unit disk_op" where
  "fs_create_dir_all p = create_dirs [] p"

definition new_uuid :: "(disk, 'e, string) op" where
  "new_uuid = (\<lambda>d. (Inr (uuid_of d (calls d)), d\<lparr>calls := Suc (calls d)\<rparr>))"

section \<open>What a changed file system keeps\<close>

text \<open>Directories and links stay: then every path still leads to the directory it led to.\<close>

definition keeps_structure :: "fs \<Rightarrow> fs \<Rightarrow> bool" where
  "keeps_structure fs fs' \<longleftrightarrow> (\<forall>p. (fs p = Some Dir \<longrightarrow> fs' p = Some Dir) \<and> (is_link fs p \<longrightarrow> fs' p = fs p))"

lemma keeps_structure_trans [trans]:
  "keeps_structure fs fs' \<Longrightarrow> keeps_structure fs' fs'' \<Longrightarrow> keeps_structure fs fs''"
  unfolding keeps_structure_def is_link_def by metis

lemma keeps_structure_refl [simp]: "keeps_structure fs fs"
  by (simp add: keeps_structure_def)

lemma keeps_structureD:
  assumes "keeps_structure fs fs'"
  shows "fs p = Some Dir \<Longrightarrow> fs' p = Some Dir" "fs p = Some (Link absolute target) \<Longrightarrow> fs' p = fs p"
  using assms unfolding keeps_structure_def is_link_def by (force split: option.splits node.splits)+

lemma walk_kept:
  "walk fs n cur cs = Some q \<Longrightarrow> keeps_structure fs fs' \<Longrightarrow>
   q = [] \<or> fs q = Some Dir \<or> (\<exists>data. fs' q = Some (File data)) \<Longrightarrow> walk fs' n cur cs = Some q"
proof (induction fs n cur cs rule: walk.induct)
  case (2 fs n cur c cs)
  from "2.prems"(1) show ?case
  proof (cases rule: walk_cases)
    case (link absolute target m)
    with keeps_structureD(2) [OF "2.prems"(2)] show ?thesis
      using "2.IH" "2.prems"(2,3) by (cases absolute) (auto simp: dots_def)
  qed (use "2.IH" "2.prems"(2,3) keeps_structureD(1) [OF "2.prems"(2)] in \<open>auto simp: dots_def\<close>)
qed auto

lemma canonical_kept:
  "keeps_structure fs fs' \<Longrightarrow> canonicalize fs p = Some q \<Longrightarrow>
   real_dir fs q \<or> (\<exists>data. fs' q = Some (File data)) \<Longrightarrow> canonicalize fs' p = Some q"
  unfolding canonicalize_def using walk_kept real_dir_node by blast

lemma real_dir_kept: "keeps_structure fs fs' \<Longrightarrow> real_dir fs p \<Longrightarrow> real_dir fs' p"
  unfolding real_dir_def by (auto dest: keeps_structureD(1))

lemma is_dir_kept: "keeps_structure fs fs' \<Longrightarrow> is_dir fs p \<Longrightarrow> is_dir fs' p"
  unfolding is_dir_iff using canonical_kept real_dir_kept by blast

text \<open>Only directories are added, at new names that satisfy \<open>P\<close>.\<close>

definition adds_dirs :: "(path \<Rightarrow> bool) \<Rightarrow> fs \<Rightarrow> fs \<Rightarrow> bool" where
  "adds_dirs P fs fs' \<longleftrightarrow> (\<forall>p. fs' p = fs p \<or> fs p = None \<and> fs' p = Some Dir \<and> P p)"

lemma adds_dirs_refl [simp]: "adds_dirs P fs fs"
  by (simp add: adds_dirs_def)

lemma adds_dirs_trans [trans]: "adds_dirs P fs fs' \<Longrightarrow> adds_dirs P fs' fs'' \<Longrightarrow> adds_dirs P fs fs''"
  unfolding adds_dirs_def by metis

lemma adds_dirs_keeps: "adds_dirs P fs fs' \<Longrightarrow> keeps_structure fs fs'"
  unfolding adds_dirs_def keeps_structure_def is_link_def by (metis option.distinct(1) option.simps(4))

section \<open>What the calls do\<close>

lemma system_call_cases:
  assumes "system_call c f d = (r, d')"
  obtains "r = Inl ()" "d' = d\<lparr>calls := Suc (calls d)\<rparr>" "outcome_of d (calls d) c \<noteq> Proceeds"
  | "f (nodes d) = (r, nodes d')" "d' = d\<lparr>calls := Suc (calls d), nodes := nodes d'\<rparr>"
      "outcome_of d (calls d) c = Proceeds"
  using assms by (auto simp: system_call_def Let_def split: if_split_asm prod.split_asm)

text \<open>The parts of a disk the calls do not touch.\<close>

definition same_host :: "disk \<Rightarrow> disk \<Rightarrow> bool" where
  "same_host d d' \<longleftrightarrow> outcome_of d' = outcome_of d \<and> uuid_of d' = uuid_of d
     \<and> backup_order d' = backup_order d \<and> temporary_order d' = temporary_order d
     \<and> calls d \<le> calls d'"

lemma same_host_refl [simp]: "same_host d d" by (simp add: same_host_def)

lemma same_host_trans [trans]: "same_host d d' \<Longrightarrow> same_host d' d'' \<Longrightarrow> same_host d d''"
  by (auto simp: same_host_def)

lemma system_call_host: "system_call c f d = (r, d') \<Longrightarrow> same_host d d'"
  by (auto simp: system_call_def same_host_def Let_def split: if_split_asm prod.split_asm)

lemma fs_mkdir_effect:
  assumes "fs_mkdir (p @ [c]) d = (r, d')"
  shows "adds_dirs (\<lambda>q. \<exists>x. q = x @ [c]) (nodes d) (nodes d')" "same_host d d'"
    "r = Inr () \<Longrightarrow> is_dir (nodes d') (p @ [c])"
proof -
  show "same_host d d'" using assms unfolding fs_mkdir_def by (rule system_call_host)
  have "adds_dirs (\<lambda>q. \<exists>x. q = x @ [c]) (nodes d) (nodes d') \<and> (r = Inr () \<longrightarrow> is_dir (nodes d') (p @ [c]))"
    using assms unfolding fs_mkdir_def
  proof (cases rule: system_call_cases)
    case 1
    then show ?thesis by simp
  next
    case 2
    show ?thesis
    proof (cases "r = Inr ()")
      case False
      with 2 show ?thesis by (auto split: option.split_asm if_split_asm)
    next
      case True
      with 2(1) obtain q where q: "canonicalize (nodes d) p = Some q" "is_dir (nodes d) q" "c \<notin> dots"
          "nodes d (q @ [c]) = None" "nodes d' = (nodes d)(q @ [c] \<mapsto> Dir)"
        by (auto simp: entry_def split: option.split_asm if_split_asm)
      then have adds: "adds_dirs (\<lambda>q. \<exists>x. q = x @ [c]) (nodes d) (nodes d')"
        by (auto simp: adds_dirs_def)
      have "real_dir (nodes d) q" using q canonical_idem by (auto simp: is_dir_iff)
      then have dir: "real_dir (nodes d') q" "canonicalize (nodes d') p = Some q"
        using real_dir_kept canonical_kept adds_dirs_keeps [OF adds] q(1) by blast+
      obtain m where "canonicalize (nodes d') (p @ [c]) = walk (nodes d') m q [c]"
        using canonical_append [OF dir(2,1)] by metis
      with q(3,5) dir(1) adds show ?thesis by (auto simp: is_dir_iff dots_def)
    qed
  qed
  then show "adds_dirs (\<lambda>q. \<exists>x. q = x @ [c]) (nodes d) (nodes d')"
    "r = Inr () \<Longrightarrow> is_dir (nodes d') (p @ [c])" by simp_all
qed

lemma create_dirs_effect:
  "create_dirs p cs d = (r, d') \<Longrightarrow> is_dir (nodes d) p \<Longrightarrow>
   adds_dirs (\<lambda>q. q \<noteq> [] \<and> last q \<in> set cs) (nodes d) (nodes d') \<and> same_host d d'
   \<and> (r = Inr () \<longrightarrow> is_dir (nodes d') (p @ cs))"
proof (induction cs arbitrary: p d)
  case Nil
  then show ?case by (simp add: op_return_def)
next
  case (Cons c cs)
  have weaken: "adds_dirs (\<lambda>q. q \<noteq> [] \<and> last q \<in> set (c # cs)) fs fs'"
    if "adds_dirs (\<lambda>q. \<exists>x. q = x @ [c]) fs fs' \<or> adds_dirs (\<lambda>q. q \<noteq> [] \<and> last q \<in> set cs) fs fs'" for fs fs'
    using that unfolding adds_dirs_def by fastforce
  show ?case
  proof (cases "is_dir (nodes d) (p @ [c])")
    case True
    with Cons.prems(1) have "create_dirs (p @ [c]) cs d = (r, d')" by simp
    from Cons.IH [OF this True] weaken show ?thesis by simp
  next
    case False
    with Cons.prems(1) have "op_bind (fs_mkdir (p @ [c])) (\<lambda>_. create_dirs (p @ [c]) cs) d = (r, d')" by simp
    then show ?thesis
    proof (cases rule: op_bind_cases)
      case (1 e)
      then show ?thesis using fs_mkdir_effect [OF 1(1)] weaken by simp
    next
      case (2 u d1)
      note first = fs_mkdir_effect [OF 2(1)]
      have "is_dir (nodes d1) (p @ [c])" using first(3) by simp
      note rest = Cons.IH [OF 2(2) this]
      have "adds_dirs (\<lambda>q. q \<noteq> [] \<and> last q \<in> set (c # cs)) (nodes d) (nodes d')"
        by (rule adds_dirs_trans [of _ _ "nodes d1"]; rule weaken) (simp_all add: first(1) rest)
      moreover have "same_host d d'" using same_host_trans [OF first(2)] rest by simp
      ultimately show ?thesis using rest by simp
    qed
  qed
qed

lemma is_dir_Nil [simp]: "is_dir fs []"
  by (simp add: is_dir_def canonicalize_def)

lemma create_dir_all_effect:
  assumes "fs_create_dir_all p d = (r, d')"
  shows "adds_dirs (\<lambda>q. q \<noteq> [] \<and> last q \<in> set p) (nodes d) (nodes d')" "same_host d d'"
    "r = Inr () \<Longrightarrow> is_dir (nodes d') p"
  using create_dirs_effect [of "[]" p d r d'] assms unfolding fs_create_dir_all_def by simp_all

lemma walk_prefix_dir:
  "walk fs n cur (xs @ ys) = Some q \<Longrightarrow> real_dir fs q \<or> ys \<noteq> [] \<Longrightarrow> real_dir fs cur \<Longrightarrow>
   \<exists>r. walk fs n cur xs = Some r \<and> real_dir fs r"
proof (induction fs n cur xs rule: walk.induct)
  case (2 fs n cur c cs)
  from "2.prems" have "walk fs n cur (c # (cs @ ys)) = Some q" by simp
  then show ?case
  proof (cases rule: walk_cases)
    case (link absolute target m)
    then show ?thesis using "2.IH" "2.prems"(2,3) by (cases absolute) (auto simp: dots_def)
  next
    case (file_end data)
    then show ?thesis using "2.prems"(2) by simp
  qed (use "2.IH" "2.prems"(2,3) in \<open>auto simp: dots_def real_dir_butlast\<close>)
qed auto

lemma is_dir_prefix: "is_dir fs (xs @ ys) \<Longrightarrow> is_dir fs xs"
  unfolding is_dir_iff canonicalize_def using walk_prefix_dir by fastforce

lemma parent_is_dir: "path_exists fs (xs @ y # ys) \<Longrightarrow> is_dir fs xs"
  unfolding is_dir_iff canonicalize_def path_exists_def using walk_prefix_dir by fastforce

text \<open>Nothing is called when the directories are there.\<close>

lemma create_dirs_present: "is_dir (nodes d) (p @ cs) \<Longrightarrow> create_dirs p cs d = (Inr (), d)"
proof (induction cs arbitrary: p)
  case Nil
  then show ?case by (simp add: op_return_def)
next
  case (Cons c cs)
  then show ?case using is_dir_prefix [of "nodes d" "p @ [c]" cs] by simp
qed

lemma create_dir_all_present: "is_dir (nodes d) p \<Longrightarrow> fs_create_dir_all p d = (Inr (), d)"
  using create_dirs_present [of d "[]" p] by (simp add: fs_create_dir_all_def)

section \<open>Places\<close>

text \<open>
  \<open>leads_to fs p w\<close>: the directory of \<open>p\<close> exists and the name in it is \<open>w\<close>, whatever is there.
  Dotted texts of a path lead to the same place.
\<close>

definition leads_to :: "fs \<Rightarrow> path \<Rightarrow> path \<Rightarrow> bool" where
  "leads_to fs p w \<longleftrightarrow> w \<noteq> [] \<and> real_dir fs (butlast w) \<and> last w \<notin> dots
     \<and> (\<exists>parent. undotted p = parent @ [last w] \<and> canonicalize fs parent = Some (butlast w))"

lemma leads_to_kept: "keeps_structure fs fs' \<Longrightarrow> leads_to fs p w \<Longrightarrow> leads_to fs' p w"
  unfolding leads_to_def using canonical_kept real_dir_kept by blast

lemma leads_to_unique: "leads_to fs p w \<Longrightarrow> leads_to fs p' w' \<Longrightarrow> undotted p = undotted p' \<Longrightarrow> w = w'"
  unfolding leads_to_def by (metis append_butlast_last_id butlast_snoc last_snoc option.inject)

lemma undotted_real: "real_dir fs p \<or> real_file fs p \<Longrightarrow> undotted p = p"
proof -
  assume "real_dir fs p \<or> real_file fs p"
  moreover have "real_dir fs q \<Longrightarrow> undotted q = q" for q
    by (induction q rule: rev_induct) (auto simp: undotted_def dots_def)
  ultimately show ?thesis
    by (cases p rule: rev_cases) (auto simp: undotted_def dots_def real_file_def)
qed

lemma leads_to_real: "p \<noteq> [] \<Longrightarrow> real_dir fs p \<or> real_file fs p \<Longrightarrow> leads_to fs p p"
  using undotted_real [of fs p]
  by (cases p rule: rev_cases) (auto simp: leads_to_def real_file_def intro: canonical_of_real)

lemma leads_to_node:
  assumes "leads_to fs p w"
  obtains m where "canonicalize fs (undotted p) = walk fs m (butlast w) [last w]"
    "open_new fs MAX_LINKS [] (undotted p) = open_new fs m (butlast w) [last w]"
  using assms canonical_append unfolding leads_to_def by metis

lemma leads_to_missing:
  assumes "leads_to fs p w" "fs w = None"
  shows "\<not> path_exists fs p"
proof -
  obtain m where "canonicalize fs (undotted p) = walk fs m (butlast w) [last w]"
    using leads_to_node [OF assms(1)] by metis
  also have "\<dots> = None" using assms by (auto simp: leads_to_def dots_def)
  finally show ?thesis
    using canonical_undotted [of fs "[]" p] by (cases "canonicalize fs p") (auto simp: path_exists_def)
qed

lemma leads_to_present:
  assumes "leads_to fs p w" "canonicalize fs p = Some r" "\<not> is_link fs w"
  shows "r = w"
proof -
  obtain m where "canonicalize fs (undotted p) = walk fs m (butlast w) [last w]"
    using leads_to_node [OF assms(1)] by metis
  moreover have "canonicalize fs (undotted p) = Some r" using canonical_undotted [of fs "[]" p] assms(2) by simp
  ultimately have "walk fs m (butlast w) [last w] = Some r" by simp
  then show ?thesis using assms(1,3)
    by (cases rule: walk_cases) (auto simp: leads_to_def dots_def is_link_def)
qed

text \<open>A \<open>.\<close> inside a path to a directory can be put in again.\<close>

lemma walk_insert_dot:
  "walk fs n cur (xs @ ys) = Some q \<Longrightarrow> real_dir fs q \<Longrightarrow> walk fs n cur (xs @ ''.'' # ys) = Some q"
proof (induction fs n cur xs rule: walk.induct)
  case (2 fs n cur c cs)
  from "2.prems" have "walk fs n cur (c # (cs @ ys)) = Some q" by simp
  then show ?case
  proof (cases rule: walk_cases)
    case (link absolute target m)
    then show ?thesis using "2.IH" "2.prems"(2) by (cases absolute) (auto simp: dots_def)
  next
    case (file_end data)
    then show ?thesis using "2.prems"(2) by simp
  qed (use "2.IH" "2.prems"(2) in \<open>auto simp: dots_def\<close>)
qed auto

lemma canonical_dotted:
  "canonicalize fs (xs @ undotted cs) = Some q \<Longrightarrow> real_dir fs q \<Longrightarrow> canonicalize fs (xs @ cs) = Some q"
proof (induction cs arbitrary: xs)
  case (Cons c cs)
  then show ?case using Cons.IH [of "xs @ [c]"] Cons.IH [of xs]
    by (auto simp: undotted_def canonicalize_def dest: walk_insert_dot split: if_split_asm)
qed (simp add: undotted_def)

lemma leads_to_not_symlink:
  assumes "leads_to fs p w" "\<not> is_link fs w"
  shows "\<not> is_symlink fs p"
proof
  assume link: "is_symlink fs p"
  then obtain d where d: "p \<noteq> []" "last p \<notin> dots" "canonicalize fs (butlast p) = Some d" "is_link fs (d @ [last p])"
    by (auto simp: is_symlink_def dots_def split: if_split_asm option.split_asm)
  from assms(1) obtain parent where parent: "undotted p = parent @ [last w]"
    "canonicalize fs parent = Some (butlast w)" "w \<noteq> []"
    by (auto simp: leads_to_def)
  have "undotted (butlast p @ [last p]) = parent @ [last w]" using d(1) parent(1) by simp
  then have "undotted (butlast p) = parent" "last p = last w" using d(2) by (simp_all add: undotted_def dots_def)
  then have "d = butlast w" "last p = last w"
    using canonical_undotted [of fs "[]" "butlast p"] d(3) parent(2) by auto
  with d(4) parent(3) assms(2) show False by simp
qed

lemma leads_to_entry:
  assumes "leads_to fs p w"
  shows "entry fs p = (if last p = ''.'' then None else Some w)"
proof -
  from assms obtain parent where parent: "undotted p = parent @ [last w]" "last w \<notin> dots" "w \<noteq> []"
      "canonicalize fs parent = Some (butlast w)" "real_dir fs (butlast w)"
    by (auto simp: leads_to_def)
  then have "p \<noteq> []" by (auto simp: undotted_def)
  then obtain xs c where p: "p = xs @ [c]" by (cases p rule: rev_cases) auto
  show ?thesis
  proof (cases "c = ''.''")
    case False
    then have "undotted xs = parent" "c = last w" using parent(1) by (auto simp: p undotted_def)
    with False parent canonical_dotted [of fs "[]" xs] show ?thesis
      by (auto simp: p entry_def is_dir_iff canonical_of_real)
  qed (simp add: p entry_def dots_def)
qed

text \<open>What the calls do to a place.\<close>

lemma no_file_at_place:
  assumes "leads_to fs p w" "fs w = None \<or> fs w = Some Dir"
  shows "file_at fs p = None"
proof (cases "canonicalize fs p")
  case (Some r)
  with leads_to_present [OF assms(1) Some] assms(2) have "r = w" by (auto simp: is_link_def)
  with Some assms(2) show ?thesis by (auto simp: file_at_def)
qed (simp add: file_at_def)

lemma file_at_real:
  assumes "real_dir fs (butlast w)" "w \<noteq> []" "last w \<notin> dots" "fs w = Some (File bytes)"
  shows "canonicalize fs w = Some w" "file_at fs w = Some bytes" "leads_to fs w w"
proof -
  have "real_file fs w" using assms by (simp add: real_file_def)
  then show "canonicalize fs w = Some w" "file_at fs w = Some bytes" "leads_to fs w w"
    using assms(2,4) canonical_of_real leads_to_real by (auto simp: file_at_def)
qed

lemma rename_place:
  assumes "fs_rename temp p d = (r, d')" "leads_to (nodes d) temp spot" "last temp \<noteq> ''.''"
    "leads_to (nodes d) p w" "nodes d spot = Some (File bytes)"
  shows "same_host d d'"
    "if r = Inr () then last p \<noteq> ''.'' \<and> nodes d w \<noteq> Some Dir
       \<and> nodes d' = (nodes d)(spot := None, w \<mapsto> File bytes)
     else nodes d' = nodes d"
proof -
  show "same_host d d'" using assms(1) unfolding fs_rename_def by (rule system_call_host)
  show "if r = Inr () then last p \<noteq> ''.'' \<and> nodes d w \<noteq> Some Dir
       \<and> nodes d' = (nodes d)(spot := None, w \<mapsto> File bytes)
     else nodes d' = nodes d"
    using assms(1) leads_to_entry [OF assms(2)] leads_to_entry [OF assms(4)] assms(3,5)
    unfolding fs_rename_def
    by (cases rule: system_call_cases) (auto split: if_split_asm)
qed

lemma remove_place:
  assumes "fs_remove_file p d = (r, d')" "leads_to (nodes d) p w"
  shows "same_host d d'"
    "nodes d' = nodes d \<or> nodes d w \<noteq> Some Dir \<and> last p \<noteq> ''.'' \<and> nodes d' = (nodes d)(w := None)"
    "if r = Inr () then nodes d' = (nodes d)(w := None) else nodes d' = nodes d"
    "outcome_of d (calls d) (Remove p) = Proceeds \<Longrightarrow> last p \<noteq> ''.'' \<Longrightarrow> nodes d w \<noteq> Some Dir \<Longrightarrow>
      nodes d' = (nodes d)(w := None)"
proof -
  show "same_host d d'" using assms(1) unfolding fs_remove_file_def by (rule system_call_host)
  have "(nodes d' = nodes d \<or> nodes d w \<noteq> Some Dir \<and> last p \<noteq> ''.'' \<and> nodes d' = (nodes d)(w := None))
    \<and> (if r = Inr () then nodes d' = (nodes d)(w := None) else nodes d' = nodes d)
    \<and> (outcome_of d (calls d) (Remove p) = Proceeds \<and> last p \<noteq> ''.'' \<and> nodes d w \<noteq> Some Dir
        \<longrightarrow> nodes d' = (nodes d)(w := None))"
    using assms(1) leads_to_entry [OF assms(2)] unfolding fs_remove_file_def
    by (cases rule: system_call_cases) (auto split: if_split_asm simp: fun_upd_idem)
  then show "nodes d' = nodes d \<or> nodes d w \<noteq> Some Dir \<and> last p \<noteq> ''.'' \<and> nodes d' = (nodes d)(w := None)"
    "if r = Inr () then nodes d' = (nodes d)(w := None) else nodes d' = nodes d"
    "outcome_of d (calls d) (Remove p) = Proceeds \<Longrightarrow> last p \<noteq> ''.'' \<Longrightarrow> nodes d w \<noteq> Some Dir \<Longrightarrow>
      nodes d' = (nodes d)(w := None)" by auto
qed

lemma write_node_place:
  assumes "leads_to fs p w" "undotted p = p" "fs w \<noteq> Some Dir" "\<not> is_link fs w"
  shows "write_node p bytes fs = (Inr (), fs(w \<mapsto> File bytes))"
proof -
  obtain m where "open_new fs MAX_LINKS [] p = open_new fs m (butlast w) [last w]"
    using leads_to_node [OF assms(1)] assms(2) by metis
  moreover have "butlast w @ [last w] = w" "last w \<notin> dots" "w \<noteq> []" using assms(1) by (auto simp: leads_to_def)
  ultimately have "open_new fs MAX_LINKS [] p = Some w"
    using assms(3,4) by (auto simp: dots_def is_link_def split: option.splits node.splits)
  with assms(3) \<open>w \<noteq> []\<close> show ?thesis by (simp add: write_node_def)
qed

lemma write_place:
  assumes "fs_write p bytes d = (r, d')" "leads_to (nodes d) p w" "undotted p = p"
    "nodes d w \<noteq> Some Dir" "\<not> is_link (nodes d) w"
  shows "same_host d d'" "r = Inr () \<Longrightarrow> nodes d' = (nodes d)(w \<mapsto> File bytes)"
    "outcome_of d (calls d) (Write p) = Proceeds \<Longrightarrow> r = Inr ()"
  using assms(1) unfolding fs_write_def
  by (auto simp: write_node_place [OF assms(2-5)] system_call_def same_host_def
      split: outcome.split_asm if_split_asm)

lemma read_place:
  assumes "fs_read p d = (r, d')"
  shows "same_host d d'" "nodes d' = nodes d" "r = Inr bytes \<Longrightarrow> file_at (nodes d) p = Some bytes"
    "outcome_of d (calls d) (Read p) = Proceeds \<Longrightarrow> file_at (nodes d) p = Some bytes \<Longrightarrow> r = Inr bytes"
  using assms unfolding fs_read_def
  by (auto simp: system_call_def same_host_def Let_def split: if_split_asm option.split_asm)

end
