(* ===== verification/Patch_Transaction.thy ===== *)
theory Patch_Transaction
  imports Disk
begin

text \<open>
  The commit of staged files (\<open>tools/patch/transaction.rs\<close>): every new content is written to a
  temporary file first, then the files are replaced one after the other; when a replacement fails,
  the files replaced so far are restored from backups.
\<close>

definition patch_failed :: workspace_error where "patch_failed = Tool ''PATCH_FAILED''"

text \<open>A \<open>HashMap\<close> of paths: two texts with the same components are one key, the first is kept.\<close>

fun path_put :: "path \<Rightarrow> 'a \<Rightarrow> (path \<times> 'a) list \<Rightarrow> (path \<times> 'a) list" where
  "path_put k v [] = [(k, v)]"
| "path_put k v ((k', v') # kvs) =
     (if undotted k' = undotted k then (k', v) # kvs else (k', v') # path_put k v kvs)"

fun path_get :: "(path \<times> 'a) list \<Rightarrow> path \<Rightarrow> 'a option" where
  "path_get [] k = None"
| "path_get ((k', v) # kvs) k = (if undotted k' = undotted k then Some v else path_get kvs k)"

text \<open>\<open>parent\<close>, \<open>file_name\<close> and \<open>with_file_name\<close> of a path.\<close>

definition parent_of :: "path \<Rightarrow> path" where "parent_of p = butlast (undotted p)"

definition file_name_of :: "path \<Rightarrow> string" where
  "file_name_of p = (if undotted p = [] then ''file'' else last (undotted p))"

definition stage_name :: "string \<Rightarrow> string \<Rightarrow> string" where
  "stage_name name uuid = ''.'' @ name @ ''.harness-stage-'' @ uuid"

definition stage_path :: "path \<Rightarrow> string \<Rightarrow> path" where
  "stage_path p uuid = parent_of p @ [stage_name (file_name_of p) uuid]"

definition cleanup_temporary_files :: "temporaries \<Rightarrow> (disk, workspace_error, unit) op" where
  "cleanup_temporary_files ts = (\<lambda>d.
     op_for (\<lambda>(_, temp) _. op_bind (op_try (fs_remove_file temp)) (\<lambda>_. op_return ()))
       (temporary_order d ts) () d)"

definition restore_one :: "path \<times> string option \<Rightarrow> unit \<Rightarrow> (disk, workspace_error, unit) op" where
  "restore_one b _ = (case b of (p, data) \<Rightarrow>
     (case data of
        None \<Rightarrow> op_bind (op_try (fs_remove_file p)) (\<lambda>_. op_return ())
      | Some bytes \<Rightarrow>
          op_bind (op_try (fs_create_dir_all (parent_of p))) (\<lambda>_.
          op_bind (op_try (fs_write p bytes)) (\<lambda>_. op_return ()))))"

definition restore_backups :: "backups \<Rightarrow> (disk, workspace_error, unit) op" where
  "restore_backups bs = (\<lambda>d. op_for restore_one (backup_order d bs) () d)"

definition resolve_staged :: "path \<Rightarrow> string \<times> string option \<Rightarrow> (disk, workspace_error, path) op" where
  "resolve_staged root s = op_reads (\<lambda>d.
     map_sum id rp_path
       (case s of (rel, content) \<Rightarrow>
          if content = None then resolve_existing (nodes d) root rel
          else resolve_for_write (nodes d) root rel))"

text \<open>An existing file is backed up; one that cannot be read is backed up as empty.\<close>

definition backup_of :: "path \<Rightarrow> (disk, workspace_error, string option) op" where
  "backup_of p = (\<lambda>d.
     if is_file (nodes d) p
     then op_bind (op_try (fs_read p)) (\<lambda>r.
            op_return (Some (case r of Inr bytes \<Rightarrow> bytes | Inl _ \<Rightarrow> []))) d
     else (Inr None, d))"

text \<open>When a step fails, the temporary files are removed and the backups restored.\<close>

definition undo :: "backups \<Rightarrow> temporaries \<Rightarrow> (disk, workspace_error, 'a) op" where
  "undo backups temporary_files =
     op_bind (cleanup_temporary_files temporary_files) (\<lambda>_.
     op_bind (restore_backups backups) (\<lambda>_. op_fail patch_failed))"

text \<open>Writing a content to its temporary file; when that fails, what was staged is undone.\<close>

definition stage_content ::
    "path \<Rightarrow> string \<Rightarrow> backups \<Rightarrow> temporaries \<Rightarrow> (disk, workspace_error, backups \<times> temporaries) op" where
  "stage_content p bytes backups temporary_files =
     op_bind (op_map_err (\<lambda>_. patch_failed) (fs_create_dir_all (parent_of p))) (\<lambda>_.
     op_bind new_uuid (\<lambda>uuid.
     op_bind (op_try (fs_write (stage_path p uuid) bytes)) (\<lambda>r.
       case r of
         Inl _ \<Rightarrow> undo backups temporary_files
       | Inr _ \<Rightarrow> op_return (backups, path_put p (stage_path p uuid) temporary_files))))"

definition stage_one ::
    "path \<Rightarrow> string \<times> string option \<Rightarrow> backups \<times> temporaries
     \<Rightarrow> (disk, workspace_error, backups \<times> temporaries) op" where
  "stage_one root s acc = (case (s, acc) of ((rel, content), (backups, temporary_files)) \<Rightarrow>
     op_bind (op_lift (reject_protected_write_path rel)) (\<lambda>_.
     op_bind (resolve_staged root s) (\<lambda>p.
     op_bind (backup_of p) (\<lambda>data.
     case content of
       None \<Rightarrow> op_return (path_put p data backups, temporary_files)
     | Some bytes \<Rightarrow> stage_content p bytes (path_put p data backups) temporary_files))))"

definition stage_all ::
    "path \<Rightarrow> (string \<times> string option) list \<Rightarrow> (disk, workspace_error, backups \<times> temporaries) op" where
  "stage_all root staged = op_for (stage_one root) staged ([], [])"

text \<open>The outcome of replacing or removing one file.\<close>

definition replace_one :: "temporaries \<Rightarrow> path \<Rightarrow> string option \<Rightarrow> (disk, workspace_error, unit + unit) op" where
  "replace_one temporary_files p content = (\<lambda>d.
     if content \<noteq> None
     then (case path_get temporary_files p of
             Some temp \<Rightarrow> op_try (fs_rename temp p) d
           | None \<Rightarrow> (Inr (Inl ()), d))
     else if is_file (nodes d) p then op_try (fs_remove_file p) d
     else (Inr (Inr ()), d))"

definition commit_one ::
    "path \<Rightarrow> backups \<Rightarrow> temporaries \<Rightarrow> string \<times> string option \<Rightarrow> unit \<Rightarrow> (disk, workspace_error, unit) op" where
  "commit_one root backups temporary_files s _ =
     op_bind (resolve_staged root s) (\<lambda>p.
     op_bind (replace_one temporary_files p (snd s)) (\<lambda>r.
     case r of
       Inl _ \<Rightarrow> undo backups temporary_files
     | Inr _ \<Rightarrow> op_return ()))"

definition commit_all ::
    "path \<Rightarrow> (string \<times> string option) list \<Rightarrow> backups \<Rightarrow> temporaries \<Rightarrow> (disk, workspace_error, backups) op" where
  "commit_all root staged backups temporary_files =
     op_bind (op_for (commit_one root backups temporary_files) staged ()) (\<lambda>_.
     op_bind (cleanup_temporary_files temporary_files) (\<lambda>_. op_return backups))"

definition commit_staged_bytes ::
    "path \<Rightarrow> (string \<times> string option) list \<Rightarrow> (disk, workspace_error, backups) op" where
  "commit_staged_bytes root staged =
     op_bind (stage_all root staged) (\<lambda>(backups, temporary_files).
       commit_all root staged backups temporary_files)"

text \<open>Text is staged as its bytes.\<close>

definition commit_staged ::
    "path \<Rightarrow> (string \<times> string option) list \<Rightarrow> (disk, workspace_error, backups) op" where
  "commit_staged root staged = commit_staged_bytes root (map (\<lambda>(p, content). (p, content)) staged)"

end
