(* ===== verification/Patch_Commit.thy ===== *)
theory Patch_Commit
  imports Patch_Transaction
begin

text \<open>
  Correctness of the commit of staged files: what a commit that returns has written, and that a
  commit whose replacements fail leaves the files as they were.
\<close>

section \<open>The specification\<close>

text \<open>Where a staged file will be: fixed by the file system before the commit.\<close>

definition place_of :: "fs \<Rightarrow> path \<Rightarrow> string \<times> string option \<Rightarrow> path option" where
  "place_of fs root s =
     (case (if snd s = None then resolve_existing fs root (fst s) else resolve_for_write fs root (fst s)) of
        Inl _ \<Rightarrow> None
      | Inr r \<Rightarrow> land fs [] (rp_path r))"

definition holds_file :: "fs \<Rightarrow> path \<Rightarrow> bool" where
  "holds_file fs p = (case fs p of Some (File _) \<Rightarrow> True | _ \<Rightarrow> False)"

text \<open>
  What the tools have checked when they stage: every path resolves, to different places, a file to
  delete is there and a file to write is new or a file.
\<close>

definition stageable :: "fs \<Rightarrow> path \<Rightarrow> (string \<times> string option) list \<Rightarrow> bool" where
  "stageable fs root staged \<longleftrightarrow>
     list_all (\<lambda>s. case place_of fs root s of
         None \<Rightarrow> False
       | Some w \<Rightarrow> w \<noteq> [] \<and> (holds_file fs w \<or> snd s \<noteq> None \<and> fs w = None)) staged
     \<and> distinct (map (place_of fs root) staged)"

text \<open>The staged files at their places, everything else as it was.\<close>

definition staged_result :: "fs \<Rightarrow> path \<Rightarrow> (string \<times> string option) list \<Rightarrow> fs" where
  "staged_result fs root staged p =
     (case find (\<lambda>s. place_of fs root s = Some p) staged of
        Some s \<Rightarrow> map_option File (snd s)
      | None \<Rightarrow> fs p)"

text \<open>A file system is a tree, with names that are not \<open>.\<close> or \<open>..\<close>.\<close>

definition tree :: "fs \<Rightarrow> bool" where
  "tree fs \<longleftrightarrow> (\<forall>p c. fs (p @ [c]) \<noteq> None \<longrightarrow> c \<notin> dots \<and> (p = [] \<or> fs p = Some Dir))"

text \<open>
  The names of temporary files that the UUIDs drawn up to the call \<open>b\<close> can give: they are new, and
  two calls draw different ones.
\<close>

definition stage_names :: "disk \<Rightarrow> nat \<Rightarrow> string set" where
  "stage_names d b = {stage_name n (uuid_of d k) | n k. calls d \<le> k \<and> k < b}"

definition unused_names :: "disk \<Rightarrow> nat \<Rightarrow> (string \<times> string option) list \<Rightarrow> bool" where
  "unused_names d b staged \<longleftrightarrow>
     (\<forall>p. \<forall>c \<in> stage_names d b. nodes d (p @ [c]) = None)
     \<and> (\<forall>s \<in> set staged. set (kernel_path (fst s)) \<inter> stage_names d b = {})
     \<and> (\<forall>j k n m. calls d \<le> j \<and> j < k \<and> k < b \<longrightarrow>
          stage_name n (uuid_of d j) \<noteq> stage_name m (uuid_of d k))"

definition commit_ready :: "disk \<Rightarrow> nat \<Rightarrow> path \<Rightarrow> (string \<times> string option) list \<Rightarrow> bool" where
  "commit_ready d b root staged \<longleftrightarrow>
     tree (nodes d) \<and> canonicalize (nodes d) root = Some root \<and> is_dir (nodes d) root
     \<and> stageable (nodes d) root staged \<and> unused_names d b staged"

section \<open>Places of staged files\<close>

lemma stage_name_not_dots: "stage_name n u \<notin> dots"
  by (auto simp: stage_name_def dots_def)

lemma tree_real_dir: "tree fs \<Longrightarrow> p = [] \<or> fs p = Some Dir \<Longrightarrow> real_dir fs p"
proof (induction p rule: rev_induct)
  case (snoc c p)
  then have "p = [] \<or> fs p = Some Dir" "c \<notin> dots" unfolding tree_def by auto
  with snoc show ?case by simp
qed simp

text \<open>A new place: below an existing directory, under names that are missing.\<close>

definition new_place :: "fs \<Rightarrow> path \<Rightarrow> path \<Rightarrow> bool" where
  "new_place fs p w \<longleftrightarrow> (\<exists>xs c ys q. undotted p = xs @ c # ys \<and> canonicalize fs xs = Some q \<and> real_dir fs q
     \<and> c \<notin> dots \<and> fs (q @ [c]) = None \<and> w = q @ c # ys \<and> set ys \<inter> dots = {})"

lemma undotted_not_dot: "''.'' \<notin> set (undotted p)"
  by (simp add: undotted_def)

lemma accepted_place_new:
  assumes "resolve_for_write fs root raw = Inr r" "\<not> rp_existed r" "land fs [] (rp_path r) = Some w"
  shows "new_place fs (root @ kernel_path raw) w \<and> rp_path r = root @ kernel_path raw"
  using assms(1)
proof (cases rule: accepted_write_cases)
  case (existing resolved)
  with assms(2) show ?thesis by simp
next
  case new
  then have "land fs [] (root @ kernel_path raw) = Some w" using assms(3) by simp
  then show ?thesis
  proof (cases rule: land_cases)
    case 1
    with new(1) show ?thesis by (simp add: path_exists_def)
  next
    case (2 xs c ys q)
    then have "undotted (root @ kernel_path raw) = undotted xs @ c # undotted ys"
      by (simp add: undotted_def dots_def)
    moreover have "canonicalize fs (undotted xs) = Some q" using 2(2) canonical_undotted [of fs "[]" xs] by simp
    moreover have "set (undotted ys) \<inter> dots = {}" using 2(8) by (auto simp: undotted_def dots_def)
    ultimately show ?thesis using 2 new(4) unfolding new_place_def
      by (metis ResolvedPath.select_convs(2) append_Nil)
  next
    case (3 xs c q)
    then have "is_symlink fs (root @ kernel_path raw)" by (simp add: is_symlink_def dots_def)
    with new(2) show ?thesis by simp
  qed
qed

text \<open>What resolving gives for a staged path whose place is known.\<close>

lemma place_cases:
  assumes "place_of fs root (rel, content) = Some w" "canonicalize fs root = Some root"
  obtains (existing) "canonicalize fs (root @ kernel_path (if rel = [] then ''.'' else rel)) = Some w"
      "prefix root w" "content \<noteq> None \<Longrightarrow> rel \<noteq> []"
  | (new) "content \<noteq> None" "new_place fs (root @ kernel_path rel) w" "prefix root w"
proof (cases content)
  case None
  with assms obtain r where r: "resolve_existing fs root rel = Inr r" "land fs [] (rp_path r) = Some w"
    by (auto simp: place_of_def split: sum.split_asm)
  from r(1) show thesis unfolding resolve_existing_def
  proof (rule accepted_read)
    fix base'
    assume "canonicalize fs root = Some base'"
      "canonicalize fs (base' @ kernel_path (if rel = [] then ''.'' else rel)) = Some (rp_path r)"
      "prefix root (rp_path r)"
    moreover have "w = rp_path r"
      using r(2) land_existing [of fs "[]" "rp_path r"] canonical_idem calculation(2) by fastforce
    ultimately show thesis using assms(2) existing None by simp
  qed
next
  case (Some bytes)
  with assms obtain r where r: "resolve_for_write fs root rel = Inr r" "land fs [] (rp_path r) = Some w"
    by (auto simp: place_of_def split: sum.split_asm)
  have raw: "rel \<noteq> []" using accepted_write(1) [OF r(1)] by (auto simp: reject_unsafe_text_def)
  show thesis
  proof (cases "rp_existed r")
    case False
    have ws: "prefix root w" by (rule accepted_write_lands_inside [OF assms(2) r])
    show thesis using accepted_place_new [OF r(1) False r(2)] new Some ws by simp
  next
    case True
    from r(1) show thesis
    proof (cases rule: accepted_write_cases)
      case (existing resolved)
      moreover have "w = resolved"
        using r(2) existing land_existing [of fs "[]" resolved] canonical_idem by fastforce
      ultimately show thesis using that(1) raw by simp
    qed (use True in simp)
  qed
qed

section \<open>Places while directories appear\<close>

lemma tree_below_file: "tree fs \<Longrightarrow> p \<noteq> [] \<Longrightarrow> fs p = Some (File bytes) \<Longrightarrow> fs (p @ [c]) = None"
  unfolding tree_def by (metis node.distinct option.distinct(1) option.inject)

lemma tree_missing: "tree fs \<Longrightarrow> p \<noteq> [] \<Longrightarrow> fs p = None \<Longrightarrow> fs (p @ zs) = None"
proof (induction zs rule: rev_induct)
  case (snoc z zs)
  then have "fs (p @ zs) = None" "p @ zs \<noteq> []" by simp_all
  with snoc.prems(1) show ?case unfolding tree_def by (metis append_assoc option.distinct(1))
qed simp

lemma below_new:
  assumes "canonicalize fs xs = Some q" "real_dir fs q" "is_dir fs (xs @ zs)"
    and "\<And>us vs. zs = us @ vs \<Longrightarrow> us \<noteq> [] \<Longrightarrow> fs (q @ us) = None \<or> fs (q @ us) = Some Dir"
    and "set zs \<inter> dots = {}"
  shows "canonicalize fs (xs @ zs) = Some (q @ zs) \<and> real_dir fs (q @ zs)"
  using assms(3-5)
proof (induction zs rule: rev_induct)
  case (snoc z zs)
  have "is_dir fs (xs @ zs)" using is_dir_prefix [of fs "xs @ zs" "[z]"] snoc.prems(1) by simp
  then have IH: "canonicalize fs (xs @ zs) = Some (q @ zs)" "real_dir fs (q @ zs)"
    using snoc by auto
  obtain m where "canonicalize fs ((xs @ zs) @ [z]) = walk fs m (q @ zs) [z]"
    using canonical_append [OF IH] by metis
  moreover have "fs (q @ zs @ [z]) = None \<or> fs (q @ zs @ [z]) = Some Dir" using snoc.prems(2) [of "zs @ [z]" "[]"] by simp
  ultimately show ?case
    using snoc.prems(1,3) IH(2) real_dir_snoc [of fs "q @ zs" z] by (auto simp: is_dir_def dots_def)
qed (use assms in simp)

text \<open>Between the start and a later point of the staging: outside the temporary names only
  directories were added.\<close>

definition grown :: "string set \<Rightarrow> fs \<Rightarrow> fs \<Rightarrow> bool" where
  "grown N fs fs' \<longleftrightarrow>
     (\<forall>p. fs p \<noteq> None \<longrightarrow> fs' p = fs p)
     \<and> (\<forall>p. fs p = None \<longrightarrow> set p \<inter> N = {} \<longrightarrow> fs' p = None \<or> fs' p = Some Dir)"

lemma grown_keeps: "grown N fs fs' \<Longrightarrow> keeps_structure fs fs'"
  unfolding grown_def keeps_structure_def is_link_def by (metis option.distinct(1) option.simps(4))

lemma grown_missing:
  assumes "grown N fs fs'" "tree fs" "fs (q @ [c]) = None" "set (q @ c # ys) \<inter> N = {}"
    and "c # ys = us @ vs" "us \<noteq> []"
  shows "fs' (q @ us) = None \<or> fs' (q @ us) = Some Dir"
proof -
  have us: "us = c # tl us" using assms(5,6) by (cases us) auto
  then have "fs (q @ us) = None"
    using tree_missing [OF assms(2) _ assms(3), of "tl us"] by simp
  moreover have "set (q @ us) \<inter> N = {}" using assms(4,5) by (auto dest: arg_cong [where f = set])
  ultimately show ?thesis using assms(1) unfolding grown_def by blast
qed

lemma new_place_leads:
  assumes "new_place fs p w" "grown N fs fs'" "tree fs" "set w \<inter> N = {}"
    and "is_dir fs' (butlast (undotted p))"
  shows "leads_to fs' p w" "fs w = None"
proof -
  from assms(1) obtain xs c ys q where p: "undotted p = xs @ c # ys" "canonicalize fs xs = Some q"
      "real_dir fs q" "c \<notin> dots" "fs (q @ [c]) = None" "w = q @ c # ys" "set ys \<inter> dots = {}"
    unfolding new_place_def by blast
  let ?zs = "butlast (c # ys)"
  have split: "c # ys = ?zs @ [last (c # ys)]" by simp
  have q: "canonicalize fs' xs = Some q" "real_dir fs' q"
    using p(2,3) grown_keeps [OF assms(2)] canonical_kept real_dir_kept by blast+
  have "canonicalize fs' (xs @ ?zs) = Some (q @ ?zs) \<and> real_dir fs' (q @ ?zs)"
  proof (rule below_new [OF q])
    show "is_dir fs' (xs @ ?zs)" using assms(5) p(1) by (simp add: butlast_append)
    fix us vs
    assume us: "?zs = us @ vs" "us \<noteq> []"
    then have "c # ys = us @ vs @ [last (c # ys)]" using split by (metis append_assoc)
    then show "fs' (q @ us) = None \<or> fs' (q @ us) = Some Dir"
      by (rule grown_missing [OF assms(2,3) p(5) assms(4) [unfolded p(6)] _ us(2)])
  next
    show "set ?zs \<inter> dots = {}" using p(4,7) by (auto dest: in_set_butlastD)
  qed
  moreover have "last (c # ys) \<notin> dots" using p(4,7) last_in_set [of "c # ys"] by auto
  moreover have "undotted p = (xs @ ?zs) @ [last w]" "butlast w = q @ ?zs" "w \<noteq> []"
    using p(1,6) by (simp_all add: butlast_append)
  ultimately show "leads_to fs' p w" using p(6) unfolding leads_to_def by auto
  show "fs w = None" using tree_missing [OF assms(3) _ p(5), of ys] p(6) by simp
qed

text \<open>A new place that exists later is a directory made since.\<close>

lemma new_place_present:
  assumes "new_place fs p w" "grown N fs fs'" "tree fs" "set w \<inter> N = {}"
    and "canonicalize fs' p = Some r"
  shows "r = w" "fs' w = Some Dir" "real_dir fs' w" "leads_to fs' p w"
proof -
  have exists: "canonicalize fs' (undotted p) = Some r"
    using canonical_undotted [of fs' "[]" p] assms(5) by simp
  have "undotted p \<noteq> []" using assms(1) by (auto simp: new_place_def)
  then obtain y where split: "undotted p = butlast (undotted p) @ [y]" by (metis append_butlast_last_id)
  have "is_dir fs' (butlast (undotted p))"
    by (rule parent_is_dir [of fs' _ y "[]"]) (use split exists in \<open>simp add: path_exists_def\<close>)
  note leads = new_place_leads [OF assms(1-4) this]
  have "fs' w = None \<or> fs' w = Some Dir" using assms(2,4) leads(2) unfolding grown_def by blast
  moreover have "fs' w \<noteq> None" using leads_to_missing [OF leads(1)] assms(5) by (auto simp: path_exists_def)
  ultimately show dir: "fs' w = Some Dir" by blast
  show "r = w" using leads_to_present [OF leads(1) assms(5)] dir by (simp add: is_link_def)
  show "leads_to fs' p w" by (rule leads(1))
  show "real_dir fs' w"
    using leads(1) dir unfolding leads_to_def by (metis append_butlast_last_id real_dir_snoc)
qed

section \<open>Staging\<close>

lemma op_for_snoc: "op_for body (xs @ [x]) acc = op_bind (op_for body xs acc) (body x)"
proof (induction xs arbitrary: acc)
  case Nil
  show ?case by (intro ext) (simp add: op_bind_def op_return_def split: prod.split sum.split)
next
  case (Cons y ys)
  have "op_for body (ys @ [x]) = (\<lambda>a. op_bind (op_for body ys a) (body x))"
    using Cons.IH by blast
  then show ?case by (simp add: op_bind_assoc)
qed

lemma op_try_Inr: "op_try m d = (Inr r, d') \<longleftrightarrow> m d = (r, d')"
  by (auto simp: op_try_def split: prod.split)

lemma op_try_not_Inl: "op_try m d \<noteq> (Inl e, d')"
  by (auto simp: op_try_def split: prod.split)

lemma op_map_err_Inr: "op_map_err f m d = (Inr x, d') \<longleftrightarrow> m d = (Inr x, d')"
  by (cases "m d"; cases "fst (m d)") (auto simp: op_map_err_def)

lemma backup_of_result:
  assumes "backup_of p d = (r, d')"
  shows "same_host d d'" "nodes d' = nodes d"
    "\<exists>data. r = Inr data \<and> (data = None \<longleftrightarrow> \<not> is_file (nodes d) p)"
    "outcome_of d (calls d) (Read p) = Proceeds \<Longrightarrow> r = Inr (file_at (nodes d) p)"
proof -
  have "same_host d d' \<and> nodes d' = nodes d \<and> (\<exists>data. r = Inr data \<and> (data = None \<longleftrightarrow> \<not> is_file (nodes d) p))
    \<and> (outcome_of d (calls d) (Read p) = Proceeds \<longrightarrow> r = Inr (file_at (nodes d) p))"
  proof (cases "is_file (nodes d) p")
    case False
    with assms show ?thesis by (auto simp: backup_of_def is_file_def)
  next
    case True
    then obtain bytes where bytes: "file_at (nodes d) p = Some bytes" by (auto simp: is_file_def)
    obtain r1 d1 where r1: "fs_read p d = (r1, d1)" by fastforce
    with assms True have "d' = d1" "r = Inr (Some (case r1 of Inr bytes \<Rightarrow> bytes | Inl _ \<Rightarrow> []))"
      by (auto simp: backup_of_def op_bind_def op_try_def op_return_def)
    with read_place(1,2) [OF r1] read_place(4) [OF r1 _ bytes] True bytes show ?thesis by simp
  qed
  then show "same_host d d'" "nodes d' = nodes d"
    "\<exists>data. r = Inr data \<and> (data = None \<longleftrightarrow> \<not> is_file (nodes d) p)"
    "outcome_of d (calls d) (Read p) = Proceeds \<Longrightarrow> r = Inr (file_at (nodes d) p)" by blast+
qed

lemma new_uuid_bind: "op_bind new_uuid f d = f (uuid_of d (calls d)) (d\<lparr>calls := Suc (calls d)\<rparr>)"
  by (simp add: op_bind_def new_uuid_def)

lemma stage_content_Inr:
  assumes "stage_content p bytes bs ts d = (Inr acc, d')"
  obtains d1 where "fs_create_dir_all (parent_of p) d = (Inr (), d1)"
    "fs_write (stage_path p (uuid_of d1 (calls d1))) bytes (d1\<lparr>calls := Suc (calls d1)\<rparr>) = (Inr (), d')"
    "acc = (bs, path_put p (stage_path p (uuid_of d1 (calls d1))) ts)"
  using assms unfolding stage_content_def
proof (cases rule: op_bind_cases)
  case (2 u d1)
  from 2(2) have "op_bind (op_try (fs_write (stage_path p (uuid_of d1 (calls d1))) bytes)) (\<lambda>r.
       case r of
         Inl _ \<Rightarrow> undo bs ts
       | Inr _ \<Rightarrow> op_return (bs, path_put p (stage_path p (uuid_of d1 (calls d1))) ts))
      (d1\<lparr>calls := Suc (calls d1)\<rparr>) = (Inr acc, d')"
    unfolding new_uuid_bind by simp
  then show thesis
  proof (cases rule: op_bind_cases)
    case written: (2 z d3)
    show thesis
    proof (cases z)
      case (Inl e)
      with written(2) show thesis
        by (auto simp: undo_def op_bind_def op_fail_def split: prod.split_asm sum.split_asm)
    next
      case (Inr v)
      with written 2(1) show thesis
        by (intro that) (auto simp: op_try_Inr op_map_err_Inr op_return_def)
    qed
  qed simp
qed simp

lemma resolve_staged_Inr:
  "resolve_staged root (rel, content) d = (Inr p, d') \<longleftrightarrow> d' = d \<and> (\<exists>r. p = rp_path r \<and>
     (if content = None then resolve_existing (nodes d) root rel else resolve_for_write (nodes d) root rel) = Inr r)"
  by (cases "resolve_existing (nodes d) root rel"; cases "resolve_for_write (nodes d) root rel")
     (auto simp: resolve_staged_def op_reads_def)

lemma stage_one_cases:
  assumes "stage_one root (rel, content) (bs, ts) d = (Inr acc, d')"
  obtains r data d1 where
    "(if content = None then resolve_existing (nodes d) root rel else resolve_for_write (nodes d) root rel) = Inr r"
    "backup_of (rp_path r) d = (Inr data, d1)"
    "case content of None \<Rightarrow> acc = (path_put (rp_path r) data bs, ts) \<and> d' = d1
     | Some bytes \<Rightarrow> stage_content (rp_path r) bytes (path_put (rp_path r) data bs) ts d1 = (Inr acc, d')"
proof -
  have "reject_protected_write_path rel = Inr ()"
    using assms by (cases "reject_protected_write_path rel") (auto simp: stage_one_def op_lift_def op_bind_def)
  with assms have "op_bind (resolve_staged root (rel, content)) (\<lambda>p. op_bind (backup_of p) (\<lambda>data. case content of
       None \<Rightarrow> op_return (path_put p data bs, ts)
     | Some bytes \<Rightarrow> stage_content p bytes (path_put p data bs) ts)) d = (Inr acc, d')"
    unfolding stage_one_def by (simp add: op_lift_def op_bind_Inr)
  then obtain p where p: "resolve_staged root (rel, content) d = (Inr p, d)"
    "op_bind (backup_of p) (\<lambda>data. case content of
       None \<Rightarrow> op_return (path_put p data bs, ts)
     | Some bytes \<Rightarrow> stage_content p bytes (path_put p data bs) ts) d = (Inr acc, d')"
    by (cases rule: op_bind_cases) (auto simp: resolve_staged_Inr)
  from p(1) obtain r where r: "p = rp_path r"
    "(if content = None then resolve_existing (nodes d) root rel else resolve_for_write (nodes d) root rel) = Inr r"
    by (auto simp: resolve_staged_Inr)
  from p(2) show thesis
  proof (cases rule: op_bind_cases)
    case (2 data d1)
    with r show thesis by (intro that) (auto simp: op_return_def split: option.split_asm)
  qed simp
qed

lemma real_dir_unused:
  "real_dir fs p \<Longrightarrow> \<forall>p. \<forall>c \<in> N. fs (p @ [c]) = None \<Longrightarrow> set p \<inter> N = {}"
  by (induction p rule: rev_induct) auto

lemma ready_root:
  assumes "commit_ready d b root staged"
  shows "real_dir (nodes d) root" "tree (nodes d)" "canonicalize (nodes d) root = Some root"
    "set root \<inter> stage_names d b = {}" "\<forall>p. \<forall>c \<in> stage_names d b. nodes d (p @ [c]) = None"
proof -
  show *: "real_dir (nodes d) root" using assms canonical_idem by (auto simp: commit_ready_def is_dir_iff)
  show **: "\<forall>p. \<forall>c \<in> stage_names d b. nodes d (p @ [c]) = None"
    using assms by (simp add: commit_ready_def unused_names_def)
  show "set root \<inter> stage_names d b = {}" by (rule real_dir_unused [OF * **])
qed (use assms in \<open>simp_all add: commit_ready_def\<close>)

lemma holds_file_iff: "holds_file fs p \<longleftrightarrow> (\<exists>bytes. fs p = Some (File bytes))"
  by (auto simp: holds_file_def split: option.splits node.splits)

text \<open>The two kinds of staged files: one that is there, one that is new.\<close>

lemma ready_cases:
  assumes "commit_ready d b root staged" "(rel, content) \<in> set staged"
  obtains w where "place_of (nodes d) root (rel, content) = Some w" "w \<noteq> []" "prefix root w"
    "holds_file (nodes d) w \<and> rel \<noteq> [] \<and> canonicalize (nodes d) (root @ kernel_path rel) = Some w
     \<or> nodes d w = None \<and> content \<noteq> None \<and> new_place (nodes d) (root @ kernel_path rel) w
       \<and> set w \<inter> stage_names d b = {}"
proof -
  from assms obtain w where w: "place_of (nodes d) root (rel, content) = Some w" "w \<noteq> []"
    "holds_file (nodes d) w \<or> content \<noteq> None \<and> nodes d w = None"
    by (force simp: commit_ready_def stageable_def list_all_iff split: option.splits)
  note root = ready_root [OF assms(1)]
  from w(1) root(3) show thesis
  proof (cases rule: place_cases)
    case existing
    then have "nodes d w \<noteq> None" using w(2) canonical_real [OF existing(1)]
      by (auto simp: real_file_def dest: real_dir_node)
    with w(3) have "holds_file (nodes d) w" by blast
    moreover have "rel \<noteq> []"
    proof
      assume "rel = []"
      then have "canonicalize (nodes d) (root @ [''.'']) = Some w"
        using existing(1) by (simp add: kernel_path_def ends_with_def starts_with_def)
      then have "real_dir (nodes d) w" using canonical_real_dir [OF root(1), of "[''.'']"] root(1) by simp
      with \<open>holds_file (nodes d) w\<close> w(2) show False by (auto simp: holds_file_iff dest: real_dir_node)
    qed
    ultimately show thesis using that [of w] existing w by simp
  next
    case new
    then obtain xs c ys q where shape: "undotted (root @ kernel_path rel) = xs @ c # ys" "real_dir (nodes d) q"
        "nodes d (q @ [c]) = None" "w = q @ c # ys"
      by (auto simp: new_place_def)
    have "nodes d w = None" using tree_missing [OF root(2) _ shape(3), of ys] shape(4) by simp
    moreover have "set (c # ys) \<subseteq> set (root @ kernel_path rel)"
      using arg_cong [OF shape(1), of set] by (auto simp: undotted_def)
    moreover have "set (kernel_path rel) \<inter> stage_names d b = {}"
      using assms unfolding commit_ready_def unused_names_def by fastforce
    ultimately show thesis
      using that [of w] new w(1,2) shape(4) root(4) real_dir_unused [OF shape(2) root(5)] by auto
  qed
qed

text \<open>Resolving again while directories appear.\<close>

lemma resolved_while_staging:
  assumes "commit_ready d b root staged" "(rel, content) \<in> set staged"
    and "place_of (nodes d) root (rel, content) = Some w"
    and "grown (stage_names d b) (nodes d) fs"
    and "(if content = None then resolve_existing fs root rel else resolve_for_write fs root rel) = Inr r"
  shows "holds_file (nodes d) w \<and> rp_path r = w \<and> leads_to fs w w \<and> canonicalize fs w = Some w
    \<or> nodes d w = None \<and> content \<noteq> None \<and>
      (rp_path r = w \<and> leads_to fs w w \<and> fs w = Some Dir \<and> leads_to fs (root @ kernel_path rel) w
       \<or> rp_path r = root @ kernel_path rel)"
proof -
  let ?cand = "root @ kernel_path rel"
  note root = ready_root [OF assms(1)]
  note keeps = grown_keeps [OF assms(4)]
  obtain w' where w': "place_of (nodes d) root (rel, content) = Some w'" "w' \<noteq> []" "prefix root w'"
    and kind: "holds_file (nodes d) w' \<and> rel \<noteq> [] \<and> canonicalize (nodes d) ?cand = Some w'
     \<or> nodes d w' = None \<and> content \<noteq> None \<and> new_place (nodes d) ?cand w' \<and> set w' \<inter> stage_names d b = {}"
    by (rule ready_cases [OF assms(1,2)])
  have [simp]: "w' = w" using w'(1) assms(3) by simp
  have canonical: "canonicalize fs ?cand = Some (rp_path r) \<or> content \<noteq> None \<and> rp_path r = ?cand \<and> \<not> path_exists fs ?cand"
    if "rel \<noteq> []"
  proof (cases content)
    case None
    with assms(5) have "resolve_existing fs root rel = Inr r" by simp
    then show ?thesis unfolding resolve_existing_def
    proof (rule accepted_read)
      fix base'
      assume "canonicalize fs root = Some base'"
        "canonicalize fs (base' @ kernel_path (if rel = [] then ''.'' else rel)) = Some (rp_path r)"
      moreover have "canonicalize fs root = Some root"
        using canonical_kept [OF keeps root(3)] root(1) by simp
      ultimately show ?thesis using that by simp
    qed
  next
    case (Some bytes)
    with assms(5) have "resolve_for_write fs root rel = Inr r" by simp
    then show ?thesis by (cases rule: accepted_write_cases) (auto simp: Some)
  qed
  from kind show ?thesis
  proof (elim disjE conjE)
    assume there: "holds_file (nodes d) w'" "rel \<noteq> []" "canonicalize (nodes d) ?cand = Some w'"
    then obtain bytes where bytes: "nodes d w = Some (File bytes)" by (auto simp: holds_file_iff)
    then have "fs w = Some (File bytes)" using assms(4) by (simp add: grown_def)
    then have "canonicalize fs ?cand = Some w" using canonical_kept [OF keeps there(3)] by simp
    then have "rp_path r = w" using canonical [OF there(2)] by (auto simp: path_exists_def)
    moreover have "real_file fs w"
      using canonical_real [OF \<open>canonicalize fs ?cand = Some w\<close>] \<open>fs w = Some (File bytes)\<close> w'(2)
      by (auto dest: real_dir_node)
    ultimately show ?thesis
      using there(1) w'(2) leads_to_real [of w fs] canonical_of_real [of fs w] by simp
  next
    assume new: "nodes d w' = None" "content \<noteq> None" "new_place (nodes d) ?cand w'"
      "set w' \<inter> stage_names d b = {}"
    have "rel \<noteq> []"
      using new(2) assms(5) accepted_write(1) [of fs root rel r] by (auto simp: reject_unsafe_text_def)
    then consider "canonicalize fs ?cand = Some (rp_path r)" | "rp_path r = ?cand" using canonical by blast
    then show ?thesis
    proof cases
      case 1
      note present = new_place_present [OF new(3) assms(4) root(2) new(4) 1]
      with new show ?thesis using leads_to_real [of w fs] w'(2) by simp
    qed (use new in simp)
  qed
qed

text \<open>What is known of a staged file: its place, its text as a path, its backup, its temporary file.\<close>

record item =
  it_staged :: "string \<times> string option"
  it_place :: path
  it_path :: path
  it_data :: "string option"
  it_temp :: path
  it_spot :: path

definition written :: "item \<Rightarrow> bool" where
  "written it \<longleftrightarrow> snd (it_staged it) \<noteq> None"

definition item_ok :: "fs \<Rightarrow> path \<Rightarrow> item \<Rightarrow> bool" where
  "item_ok fs root it \<longleftrightarrow>
     place_of fs root (it_staged it) = Some (it_place it) \<and> it_place it \<noteq> []
     \<and> (holds_file fs (it_place it) \<and> it_path it = it_place it \<and> it_data it \<noteq> None
        \<or> fs (it_place it) = None \<and> written it \<and> it_data it = None
          \<and> it_path it \<in> {it_place it, root @ kernel_path (fst (it_staged it))})
     \<and> (written it \<longrightarrow> fs (it_spot it) = None \<and> last (it_temp it) \<noteq> ''.'' \<and> undotted (it_temp it) = it_temp it)"

definition items_ok :: "fs \<Rightarrow> path \<Rightarrow> item list \<Rightarrow> bool" where
  "items_ok fs root items \<longleftrightarrow> (\<forall>it \<in> set items. item_ok fs root it) \<and> distinct (map it_place items)
     \<and> distinct (map it_spot (filter written items))
     \<and> (\<forall>x \<in> set items. \<forall>y \<in> set items. written x \<longrightarrow> it_spot x \<noteq> it_place y)"

text \<open>The paths keep leading to the places.\<close>

definition item_leads :: "fs \<Rightarrow> fs \<Rightarrow> path \<Rightarrow> item \<Rightarrow> bool" where
  "item_leads fs0 fs root it \<longleftrightarrow>
     leads_to fs (it_path it) (it_place it)
     \<and> (fs0 (it_place it) = None \<longrightarrow> leads_to fs (root @ kernel_path (fst (it_staged it))) (it_place it))
     \<and> (written it \<longrightarrow> leads_to fs (it_temp it) (it_spot it))"

lemma item_leads_kept: "keeps_structure fs fs' \<Longrightarrow> item_leads fs0 fs root it \<Longrightarrow> item_leads fs0 fs' root it"
  unfolding item_leads_def using leads_to_kept by blast

text \<open>
  A commit under way from \<open>fs0\<close>: the files of \<open>old\<close> are replaced, those of \<open>rest\<close> have their new
  content in the temporary file, and apart from that only directories were added.
\<close>

definition spots :: "item list \<Rightarrow> path set" where
  "spots items = it_spot ` {it \<in> set items. written it}"

definition under_way :: "fs \<Rightarrow> item list \<Rightarrow> item list \<Rightarrow> fs \<Rightarrow> bool" where
  "under_way fs0 old rest fs \<longleftrightarrow>
     (\<forall>it \<in> set old. fs (it_place it) = map_option File (snd (it_staged it)) \<and> (written it \<longrightarrow> fs (it_spot it) = None))
     \<and> (\<forall>it \<in> set rest. written it \<longrightarrow> fs (it_spot it) = map_option File (snd (it_staged it)))
     \<and> (\<forall>p. p \<notin> spots (old @ rest) \<longrightarrow> p \<notin> it_place ` set old \<longrightarrow> fs p = fs0 p \<or> fs0 p = None \<and> fs p = Some Dir)"

lemma item_ok_places:
  "item_ok fs root it \<Longrightarrow> fs (it_place it) \<noteq> Some Dir" "item_ok fs root it \<Longrightarrow> \<not> is_link fs (it_place it)"
  "item_ok fs root it \<Longrightarrow> written it \<Longrightarrow> fs (it_spot it) = None"
  by (auto simp: item_ok_def holds_file_iff is_link_def)

lemma items_okD: "items_ok fs root items \<Longrightarrow> it \<in> set items \<Longrightarrow> item_ok fs root it"
  by (simp add: items_ok_def)

lemma under_way_keeps:
  assumes "items_ok fs0 root (old @ rest)" "under_way fs0 old rest fs"
  shows "keeps_structure fs0 fs"
proof -
  have "p \<notin> spots (old @ rest) \<and> p \<notin> it_place ` set old" if p: "fs0 p = Some Dir \<or> is_link fs0 p" for p
  proof -
    have "p \<noteq> it_place it" "written it \<Longrightarrow> p \<noteq> it_spot it" if "it \<in> set (old @ rest)" for it
      using p item_ok_places [OF items_okD [OF assms(1) that]] by (auto simp: is_link_def)
    then show ?thesis by (auto simp: spots_def)
  qed
  then show ?thesis using assms(2) unfolding keeps_structure_def under_way_def is_link_def
    by (metis option.distinct(1) option.simps(4))
qed

lemma under_way_grown:
  assumes "items_ok fs0 root items" "under_way fs0 [] items fs" "\<forall>p \<in> spots items. p \<noteq> [] \<and> last p \<in> N"
  shows "grown N fs0 fs"
proof -
  have frame: "fs p = fs0 p \<or> fs0 p = None \<and> fs p = Some Dir" if "p \<notin> spots items" for p
    using assms(2) that by (simp add: under_way_def)
  have "p \<notin> spots items" if "fs0 p \<noteq> None" for p
    using that item_ok_places(3) [OF items_okD [OF assms(1)]] by (auto simp: spots_def)
  moreover have "p \<notin> spots items" if "set p \<inter> N = {}" for p
    using that assms(3) last_in_set by blast
  ultimately show ?thesis unfolding grown_def using frame by metis
qed

text \<open>Progress of the staging.\<close>

definition temporaries_of :: "item list \<Rightarrow> temporaries" where
  "temporaries_of items = map (\<lambda>it. (it_path it, it_temp it)) (filter written items)"

definition backups_of :: "item list \<Rightarrow> backups" where
  "backups_of items = map (\<lambda>it. (it_path it, it_data it)) items"

definition drawn_name :: "disk \<Rightarrow> nat \<Rightarrow> item \<Rightarrow> bool" where
  "drawn_name d0 m it \<longleftrightarrow> it_spot it \<noteq> []
     \<and> (\<exists>n k. last (it_spot it) = stage_name n (uuid_of d0 k) \<and> calls d0 \<le> k \<and> k < m)"

lemma spots_mem: "it \<in> set items \<Longrightarrow> written it \<Longrightarrow> it_spot it \<in> spots items"
  by (simp add: spots_def)

lemma drawn_later: "drawn_name d0 m it \<Longrightarrow> m \<le> m' \<Longrightarrow> drawn_name d0 m' it"
  unfolding drawn_name_def by (meson less_le_trans)

lemma spots_simps [simp]:
  "spots (xs @ ys) = spots xs \<union> spots ys" "spots [] = {}"
  "spots [it] = (if written it then {it_spot it} else {})"
  by (auto simp: spots_def)

definition staging :: "disk \<Rightarrow> nat \<Rightarrow> path \<Rightarrow> item list \<Rightarrow> backups \<times> temporaries \<Rightarrow> disk \<Rightarrow> bool" where
  "staging d0 b root items acc d \<longleftrightarrow>
     same_host d0 d \<and> items_ok (nodes d0) root items \<and> acc = (backups_of items, temporaries_of items)
     \<and> (\<forall>it \<in> set items. item_leads (nodes d0) (nodes d) root it)
     \<and> under_way (nodes d0) [] items (nodes d)
     \<and> (\<forall>it \<in> set items. written it \<longrightarrow> drawn_name d0 (calls d) it)
     \<and> (\<forall>it \<in> set items. last (it_place it) \<notin> stage_names d0 b)
     \<and> (\<forall>p. \<forall>c \<in> stage_names d0 b. p @ [c] \<notin> spots items \<longrightarrow> nodes d (p @ [c]) = None)"

lemma path_put_new: "\<forall>(k', v') \<in> set kvs. undotted k' \<noteq> undotted k \<Longrightarrow> path_put k v kvs = kvs @ [(k, v)]"
  by (induction kvs) auto

text \<open>A path that leads to a place of its own is a new key.\<close>

lemma new_keys:
  assumes "\<forall>it \<in> set items. item_leads fs0 fs root it" "leads_to fs p w" "w \<notin> it_place ` set items"
  shows "path_put p v (backups_of items) = backups_of items @ [(p, v)]"
    "path_put p t (temporaries_of items) = temporaries_of items @ [(p, t)]"
proof -
  have "undotted (it_path it) \<noteq> undotted p" if "it \<in> set items" for it
    using leads_to_unique [of fs "it_path it" "it_place it" p w] assms that
    unfolding item_leads_def by blast
  then show "path_put p v (backups_of items) = backups_of items @ [(p, v)]"
    "path_put p t (temporaries_of items) = temporaries_of items @ [(p, t)]"
    by (auto simp: backups_of_def temporaries_of_def intro!: path_put_new)
qed

lemma staging_start:
  "\<forall>p. \<forall>c \<in> stage_names d b. nodes d (p @ [c]) = None \<Longrightarrow> staging d b root [] ([], []) d"
  by (simp add: staging_def items_ok_def under_way_def backups_of_def temporaries_of_def spots_def)

lemma staging_grown:
  assumes "staging d0 b root items acc d" "calls d \<le> b"
  shows "grown (stage_names d0 b) (nodes d0) (nodes d)"
proof (rule under_way_grown)
  show "items_ok (nodes d0) root items" "under_way (nodes d0) [] items (nodes d)"
    using assms(1) by (simp_all add: staging_def)
  show "\<forall>p \<in> spots items. p \<noteq> [] \<and> last p \<in> stage_names d0 b"
    using assms(1,2) unfolding staging_def spots_def stage_names_def drawn_name_def by fastforce
qed

lemma temporary_leads:
  assumes "leads_to fs p w"
  shows "leads_to fs (stage_path p u) (butlast w @ [stage_name (file_name_of p) u])"
    "undotted (stage_path p u) = stage_path p u" "last (stage_path p u) = stage_name (file_name_of p) u"
    "real_dir fs (butlast w)"
proof -
  from assms obtain parent where parent: "undotted p = parent @ [last w]" "canonicalize fs parent = Some (butlast w)"
    by (auto simp: leads_to_def)
  have undotted: "undotted (parent_of p) = parent_of p"
    unfolding parent_of_def undotted_def by (auto simp: filter_id_conv dest: in_set_butlastD)
  show id: "undotted (stage_path p u) = stage_path p u"
    using stage_name_not_dots [of "file_name_of p" u] undotted
    by (simp add: stage_path_def) (simp add: undotted_def dots_def)
  show "last (stage_path p u) = stage_name (file_name_of p) u" by (simp add: stage_path_def)
  show "real_dir fs (butlast w)" using assms by (simp add: leads_to_def)
  then show "leads_to fs (stage_path p u) (butlast w @ [stage_name (file_name_of p) u])"
    using parent stage_name_not_dots id unfolding leads_to_def
    by (auto simp: stage_path_def parent_of_def)
qed

text \<open>The directories of a path that leads to a new place exist once they have been made.\<close>

lemma made_directory:
  assumes "commit_ready d0 b root staged" "(rel, content) \<in> set staged"
    and "place_of (nodes d0) root (rel, content) = Some w"
    and "grown (stage_names d0 b) (nodes d0) fs" "nodes d0 w = None"
    and "is_dir fs (parent_of (root @ kernel_path rel))"
  shows "leads_to fs (root @ kernel_path rel) w"
proof -
  obtain w' where "place_of (nodes d0) root (rel, content) = Some w'"
    "holds_file (nodes d0) w' \<or> new_place (nodes d0) (root @ kernel_path rel) w' \<and> set w' \<inter> stage_names d0 b = {}"
    by (rule ready_cases [OF assms(1,2)]) blast
  then show ?thesis
    using new_place_leads [OF _ assms(4) ready_root(2) [OF assms(1)]] assms(3,5,6)
    by (auto simp: parent_of_def holds_file_iff)
qed

lemma ready_place_unused:
  assumes "commit_ready d0 b root staged" "(rel, content) \<in> set staged"
    and "place_of (nodes d0) root (rel, content) = Some w"
  shows "last w \<notin> stage_names d0 b" "set (parent_of w) \<inter> stage_names d0 b = {}"
    "set (parent_of (root @ kernel_path rel)) \<inter> stage_names d0 b = {}"
proof -
  let ?N = "stage_names d0 b"
  note root = ready_root [OF assms(1)]
  obtain w' where w': "place_of (nodes d0) root (rel, content) = Some w'" "w' \<noteq> []"
    "holds_file (nodes d0) w' \<and> canonicalize (nodes d0) (root @ kernel_path rel) = Some w' \<or> set w' \<inter> ?N = {}"
    by (rule ready_cases [OF assms(1,2)]) blast
  have "set w \<inter> ?N = {}"
  proof (cases "holds_file (nodes d0) w \<and> canonicalize (nodes d0) (root @ kernel_path rel) = Some w")
    case True
    moreover have "\<not> real_dir (nodes d0) w"
      using True w'(1,2) assms(3) real_dir_node [of "nodes d0" w] by (auto simp: holds_file_iff)
    ultimately have "real_file (nodes d0) w" using canonical_real by blast
    then have "set (butlast w) \<inter> ?N = {}" "nodes d0 (butlast w @ [last w]) \<noteq> None"
      using real_dir_unused [OF _ root(5), of "butlast w"] by (auto simp: real_file_def)
    moreover have "set w = insert (last w) (set (butlast w))"
      using w'(1,2) assms(3) by (metis append_butlast_last_id list.simps(15) option.inject rotate1.simps(2) set_rotate1)
    ultimately show ?thesis using root(5) by auto
  qed (use w' assms(3) in auto)
  moreover have "set (parent_of w) \<subseteq> set w"
    by (auto simp: parent_of_def undotted_def dest: in_set_butlastD)
  moreover have "last w \<in> set w" using w'(1,2) assms(3) by simp
  ultimately show "last w \<notin> ?N" "set (parent_of w) \<inter> ?N = {}" by blast+
  have "set (kernel_path rel) \<inter> ?N = {}"
    using assms(1,2) unfolding commit_ready_def unused_names_def by fastforce
  moreover have "set (parent_of (root @ kernel_path rel)) \<subseteq> set root \<union> set (kernel_path rel)"
    unfolding parent_of_def by (rule subsetI, drule in_set_butlastD) (auto simp: undotted_def)
  ultimately show "set (parent_of (root @ kernel_path rel)) \<inter> ?N = {}" using root(4) by blast
qed

lemma grown_dirs:
  assumes "grown N fs0 fs" "adds_dirs P fs fs'" shows "grown N fs0 fs'"
proof -
  have "fs' p = fs p \<or> fs p = None \<and> fs' p = Some Dir" for p using assms(2) by (auto simp: adds_dirs_def)
  then show ?thesis using assms(1) unfolding grown_def by metis
qed

text \<open>A file to delete only gets its backup.\<close>

lemma staging_delete:
  assumes state: "staging d0 b root items (bs, ts) d"
    and place: "place_of (nodes d0) root (rel, None) = Some w" "w \<noteq> []" "holds_file (nodes d0) w"
      "w \<notin> it_place ` set items" "last w \<notin> stage_names d0 b"
    and "leads_to (nodes d) w w" "same_host d d'" "nodes d' = nodes d"
  shows "staging d0 b root (items @ [\<lparr>it_staged = (rel, None), it_place = w, it_path = w,
     it_data = Some data, it_temp = [], it_spot = []\<rparr>]) (path_put w (Some data) bs, ts) d'"
proof -
  let ?it = "\<lparr>it_staged = (rel, None), it_place = w, it_path = w, it_data = Some data, it_temp = [], it_spot = []\<rparr>"
  have not_written: "\<not> written ?it" by (simp add: written_def)
  have "items_ok (nodes d0) root (items @ [?it])"
    using state place not_written unfolding staging_def items_ok_def
    by (auto simp: item_ok_def holds_file_iff)
  moreover have "item_leads (nodes d0) (nodes d) root ?it"
    using assms(7) place(3) not_written by (auto simp: item_leads_def holds_file_iff)
  moreover have "under_way (nodes d0) [] (items @ [?it]) (nodes d)"
    using state not_written by (auto simp: staging_def under_way_def spots_def)
  moreover have "path_put w (Some data) bs = bs @ [(w, Some data)]"
    using new_keys(1) [of items "nodes d0" "nodes d" root w w] state assms(7) place(4) by (auto simp: staging_def)
  moreover have "calls d \<le> calls d'" "same_host d0 d'"
    using assms(8) state same_host_trans by (auto simp: staging_def same_host_def)
  ultimately show ?thesis
    using state place(5) assms(9) not_written drawn_later unfolding staging_def
    by (auto simp: backups_of_def temporaries_of_def)
qed

lemma last_stage_spot:
  assumes "unused_names d0 b staged" "calls d0 \<le> k" "k < b" "drawn_name d0 m it" "m \<le> k"
  shows "last (it_spot it) \<noteq> stage_name n (uuid_of d0 k)" "last (it_spot it) \<in> stage_names d0 b"
proof -
  from assms(4) obtain n' j where j: "last (it_spot it) = stage_name n' (uuid_of d0 j)" "calls d0 \<le> j" "j < m"
    by (auto simp: drawn_name_def)
  then show "last (it_spot it) \<noteq> stage_name n (uuid_of d0 k)"
    using assms unfolding unused_names_def by (metis less_le_trans)
  show "last (it_spot it) \<in> stage_names d0 b"
    using j assms(3,5) unfolding stage_names_def by fastforce
qed

text \<open>A file to write gets its directories and its temporary file.\<close>

lemma staging_write:
  assumes ready: "commit_ready d0 b root staged" "(rel, Some bytes) \<in> set staged"
    and state: "staging d0 b root items (bs, ts) d"
    and place: "place_of (nodes d0) root (rel, Some bytes) = Some w" "w \<noteq> []" "w \<notin> it_place ` set items"
    and kind: "holds_file (nodes d0) w \<and> p = w \<and> leads_to (nodes d) w w \<and> data \<noteq> None
      \<or> nodes d0 w = None \<and> data = None \<and>
        (p = w \<and> leads_to (nodes d) w w \<and> leads_to (nodes d) (root @ kernel_path rel) w
         \<or> p = root @ kernel_path rel)"
    and run: "stage_content p bytes (path_put p data bs) ts d1 = (Inr acc, d')"
      "same_host d d1" "nodes d1 = nodes d" "calls d' \<le> b"
  shows "\<exists>it. it_staged it = (rel, Some bytes) \<and> it_place it = w \<and> it_path it = p \<and> it_data it = data
    \<and> staging d0 b root (items @ [it]) acc d'"
proof -
  let ?N = "stage_names d0 b" and ?cand = "root @ kernel_path rel"
  from run(1) obtain d2 where d2: "fs_create_dir_all (parent_of p) d1 = (Inr (), d2)"
    "fs_write (stage_path p (uuid_of d2 (calls d2))) bytes (d2\<lparr>calls := Suc (calls d2)\<rparr>) = (Inr (), d')"
    "acc = (path_put p data bs, path_put p (stage_path p (uuid_of d2 (calls d2))) ts)"
    by (rule stage_content_Inr)
  define k where "k = calls d2"
  define d3 where "d3 = d2\<lparr>calls := Suc k\<rparr>"
  let ?u = "uuid_of d2 k" and ?name = "stage_name (file_name_of p) (uuid_of d2 k)"
  let ?temp = "stage_path p ?u" and ?spot = "butlast w @ [?name]"
  let ?it = "\<lparr>it_staged = (rel, Some bytes), it_place = w, it_path = p, it_data = data,
              it_temp = ?temp, it_spot = ?spot\<rparr>"
  have it: "written ?it" by (simp add: written_def)
  note unused = ready_root(5) [OF ready(1)]
  note dirs = create_dir_all_effect [OF d2(1)]
  have host: "same_host d0 d" using state by (simp add: staging_def)
  have hosts: "same_host d0 d2" "calls d \<le> k"
    using same_host_trans [OF same_host_trans [OF host run(2)] dirs(2)] run(2) dirs(2)
    by (auto simp: same_host_def k_def)
  have nodes3: "nodes d3 = nodes d2" by (simp add: d3_def)
  have wrote: "fs_write ?temp bytes d3 = (Inr (), d')" using d2(2) by (simp add: k_def d3_def)
  have calls: "calls d0 \<le> k" "k < calls d'"
  proof -
    show "calls d0 \<le> k" using hosts by (simp add: same_host_def k_def)
    have "same_host d3 d'" using wrote unfolding fs_write_def
      by (auto simp: same_host_def system_call_def Let_def split: outcome.split_asm if_split_asm prod.split_asm)
    then show "k < calls d'" by (simp add: same_host_def d3_def)
  qed
  have uuid: "uuid_of d2 = uuid_of d0" using hosts by (simp add: same_host_def)
  have in_N: "?name \<in> ?N" using calls run(4) unfolding stage_names_def uuid by fastforce
  have parents: "set (parent_of p) \<inter> ?N = {}"
    using kind ready_place_unused(2,3) [OF ready place(1)] by auto
  have adds: "adds_dirs (\<lambda>q. q \<noteq> [] \<and> last q \<in> set (parent_of p)) (nodes d) (nodes d2)"
    using dirs(1) run(3) by simp
  have grown: "grown ?N (nodes d0) (nodes d2)"
    using staging_grown [OF state] grown_dirs [OF _ adds] calls run(4) hosts(2) by simp
  have kept: "keeps_structure (nodes d) (nodes d2)" by (rule adds_dirs_keeps [OF adds])
  have leads: "leads_to (nodes d2) p w" "nodes d0 w = None \<Longrightarrow> leads_to (nodes d2) ?cand w"
    using kind leads_to_kept [OF kept] made_directory [OF ready place(1) grown] dirs(3)
    by (auto simp: holds_file_iff)
  note temp = temporary_leads(1-3) [OF leads(1), of ?u]
  have fresh_spot: "?spot \<notin> spots items"
  proof
    assume "?spot \<in> spots items"
    then obtain x where x: "x \<in> set items" "written x" "it_spot x = ?spot" by (auto simp: spots_def)
    then have "drawn_name d0 (calls d) x" using state by (simp add: staging_def)
    from last_stage_spot(1) [OF _ calls(1) _ this hosts(2)] x(3) ready(1) calls(2) run(4) show False
      unfolding commit_ready_def by (metis last_snoc less_le_trans uuid)
  qed
  have no_spot: "nodes d2 ?spot = None" "nodes d0 ?spot = None"
  proof -
    have "nodes d ?spot = None" using state fresh_spot in_N by (auto simp: staging_def)
    moreover have "?name \<notin> set (parent_of p)" using parents in_N by blast
    ultimately show "nodes d2 ?spot = None" using adds unfolding adds_dirs_def by (metis last_snoc)
    show "nodes d0 ?spot = None" using unused in_N by blast
  qed
  have nodes': "nodes d' = (nodes d2)(?spot \<mapsto> File bytes)" "same_host d3 d'"
    using write_place(1,2) [OF wrote, of ?spot] temp(1,2) no_spot by (simp_all add: nodes3 is_link_def)
  have kept': "keeps_structure (nodes d) (nodes d')"
    using kept no_spot(1) unfolding nodes' keeps_structure_def is_link_def by (auto split: option.splits)
  have kept2: "keeps_structure (nodes d2) (nodes d')"
    using no_spot(1) unfolding nodes' keeps_structure_def is_link_def by auto
  have host': "same_host d0 d'"
    using hosts(1) nodes'(2) by (auto simp: same_host_def d3_def k_def)
  have "items_ok (nodes d0) root (items @ [?it])"
  proof -
    have "item_ok (nodes d0) root ?it"
      using kind place(1,2) it temp(2,3) no_spot(2)
      by (auto simp: item_ok_def stage_name_def)
    moreover have "?spot \<noteq> it_place x" if "x \<in> set items" for x
      using state that in_N unfolding staging_def by (metis last_snoc)
    moreover have "?spot \<noteq> w" using ready_place_unused(1) [OF ready place(1)] in_N by (metis last_snoc)
    moreover have "it_spot x \<noteq> w" if "x \<in> set items" "written x" for x
    proof -
      have "last (it_spot x) \<in> ?N"
        using last_stage_spot(2) [OF _ calls(1) _ _ hosts(2)] state that ready(1) calls(2) run(4)
        unfolding staging_def commit_ready_def by (metis less_le_trans)
      then show ?thesis using ready_place_unused(1) [OF ready place(1)] by auto
    qed
    ultimately show ?thesis
      using state place(3) fresh_spot it unfolding staging_def items_ok_def spots_def by auto
  qed
  moreover have "under_way (nodes d0) [] (items @ [?it]) (nodes d')"
  proof -
    have way: "under_way (nodes d0) [] items (nodes d)" using state by (simp add: staging_def)
    have "nodes d' (it_spot x) = nodes d (it_spot x)" if "x \<in> set items" "written x" for x
    proof -
      have "it_spot x \<noteq> ?spot" using fresh_spot spots_mem [OF that] by metis
      moreover have "nodes d (it_spot x) \<noteq> None" using way that by (auto simp: under_way_def written_def)
      ultimately show ?thesis using adds unfolding adds_dirs_def nodes' by (metis fun_upd_apply)
    qed
    moreover have "nodes d' q = nodes d0 q \<or> nodes d0 q = None \<and> nodes d' q = Some Dir"
      if "q \<notin> spots (items @ [?it])" for q
    proof -
      have "nodes d' q = nodes d2 q" using that it by (simp add: nodes')
      moreover have "nodes d q = nodes d0 q \<or> nodes d0 q = None \<and> nodes d q = Some Dir"
        using way that by (simp add: under_way_def)
      ultimately show ?thesis using adds unfolding adds_dirs_def by metis
    qed
    ultimately show ?thesis using way it by (simp add: under_way_def nodes')
  qed
  moreover have "item_leads (nodes d0) (nodes d') root x" if "x \<in> set (items @ [?it])" for x
  proof (cases "x \<in> set items")
    case True
    then show ?thesis using state item_leads_kept [OF kept'] by (simp add: staging_def)
  next
    case False
    then have "x = ?it" using that by simp
    then show ?thesis
      using leads leads_to_kept [OF kept2] temp(1) it by (simp add: item_leads_def)
  qed
  moreover have "acc = (backups_of (items @ [?it]), temporaries_of (items @ [?it]))"
  proof -
    have "\<forall>x \<in> set items. item_leads (nodes d0) (nodes d2) root x"
      using state item_leads_kept [OF kept] by (simp add: staging_def)
    from new_keys [OF this leads(1) place(3)] d2(3) state it show ?thesis
      by (simp add: staging_def backups_of_def temporaries_of_def k_def)
  qed
  moreover have "drawn_name d0 (calls d') x" if "x \<in> set (items @ [?it])" "written x" for x
  proof (cases "x \<in> set items")
    case True
    then show ?thesis using state that(2) drawn_later [of d0 "calls d" x "calls d'"] calls(2) hosts(2)
      by (simp add: staging_def)
  next
    case False
    then show ?thesis using that calls unfolding drawn_name_def uuid by fastforce
  qed
  moreover have "nodes d' (q @ [c]) = None" if "c \<in> ?N" "q @ [c] \<notin> spots (items @ [?it])" for q c
  proof -
    have "nodes d (q @ [c]) = None" using state that by (auto simp: staging_def)
    moreover have "c \<notin> set (parent_of p)" using parents that(1) by blast
    ultimately have "nodes d2 (q @ [c]) = None" using adds unfolding adds_dirs_def by (metis last_snoc)
    then show ?thesis using that it by (simp add: nodes')
  qed
  moreover have "last w \<notin> ?N" by (rule ready_place_unused(1) [OF ready place(1)])
  ultimately have "staging d0 b root (items @ [?it]) acc d'"
    using host' state unfolding staging_def by auto
  then show ?thesis by (intro exI [of _ ?it]) simp
qed

lemma no_file_at_new:
  assumes "commit_ready d0 b root staged" "(rel, content) \<in> set staged"
    and "place_of (nodes d0) root (rel, content) = Some w" "nodes d0 w = None"
    and "grown (stage_names d0 b) (nodes d0) fs"
  shows "file_at fs (root @ kernel_path rel) = None"
proof (cases "canonicalize fs (root @ kernel_path rel)")
  case (Some r)
  obtain w' where w': "place_of (nodes d0) root (rel, content) = Some w'"
    "holds_file (nodes d0) w' \<or> new_place (nodes d0) (root @ kernel_path rel) w' \<and> set w' \<inter> stage_names d0 b = {}"
    by (rule ready_cases [OF assms(1,2)]) blast
  then have "r = w" "fs w = Some Dir"
    using new_place_present [OF _ assms(5) ready_root(2) [OF assms(1)] _ Some, of w] assms(3,4)
    by (auto simp: holds_file_iff)
  with Some show ?thesis by (simp add: file_at_def)
qed (simp add: file_at_def)

text \<open>The backup of a staged file holds the bytes of the file that is there, when they can be read.\<close>

definition saved :: "fs \<Rightarrow> item \<Rightarrow> bool" where
  "saved fs it \<longleftrightarrow> map_option File (it_data it) = fs (it_place it)"

definition reads_proceed :: "disk \<Rightarrow> bool" where
  "reads_proceed d \<longleftrightarrow> (\<forall>n p. outcome_of d n (Read p) = Proceeds)"

lemma staging_one:
  assumes ready: "commit_ready d0 b root staged" "(rel, content) \<in> set staged"
    and state: "staging d0 b root items acc d"
    and new: "place_of (nodes d0) root (rel, content) \<notin> Some ` it_place ` set items"
    and run: "stage_one root (rel, content) acc d = (Inr acc', d')" "calls d' \<le> b" "calls d \<le> b"
  shows "\<exists>it. it_staged it = (rel, content) \<and> staging d0 b root (items @ [it]) acc' d'
    \<and> (reads_proceed d0 \<longrightarrow> saved (nodes d0) it)"
proof -
  obtain bs ts where acc: "acc = (bs, ts)" by fastforce
  from run(1) obtain r data d1 where step:
    "(if content = None then resolve_existing (nodes d) root rel else resolve_for_write (nodes d) root rel) = Inr r"
    "backup_of (rp_path r) d = (Inr data, d1)"
    "case content of None \<Rightarrow> acc' = (path_put (rp_path r) data bs, ts) \<and> d' = d1
     | Some bytes \<Rightarrow> stage_content (rp_path r) bytes (path_put (rp_path r) data bs) ts d1 = (Inr acc', d')"
    unfolding acc by (rule stage_one_cases)
  note backup = backup_of_result [OF step(2)]
  obtain w where w: "place_of (nodes d0) root (rel, content) = Some w" "w \<noteq> []"
    by (rule ready_cases [OF ready]) blast
  note grown = staging_grown [OF state run(3)]
  have reads: "data = file_at (nodes d) (rp_path r)" if "reads_proceed d0"
    using backup(4) that state by (simp add: reads_proceed_def staging_def same_host_def)
  let ?K = "holds_file (nodes d0) w \<and> rp_path r = w \<and> leads_to (nodes d) w w \<and> data \<noteq> None
      \<or> nodes d0 w = None \<and> content \<noteq> None \<and> data = None \<and>
        (rp_path r = w \<and> leads_to (nodes d) w w \<and> leads_to (nodes d) (root @ kernel_path rel) w
         \<or> rp_path r = root @ kernel_path rel)"
  from resolved_while_staging [OF ready w(1) grown step(1)]
  have "?K \<and> (reads_proceed d0 \<longrightarrow> map_option File data = nodes d0 w)"
  proof (elim disjE conjE)
    assume there: "holds_file (nodes d0) w" "rp_path r = w" "leads_to (nodes d) w w" "canonicalize (nodes d) w = Some w"
    then obtain bytes where bytes: "nodes d0 w = Some (File bytes)" by (auto simp: holds_file_iff)
    then have "nodes d w = Some (File bytes)" using grown by (simp add: grown_def)
    then have "file_at (nodes d) w = Some bytes" using there(4) by (simp add: file_at_def)
    then show ?thesis using there backup(3) reads bytes by (auto simp: is_file_def)
  next
    assume there: "nodes d0 w = None" "content \<noteq> None" "rp_path r = w" "leads_to (nodes d) w w"
      "nodes d w = Some Dir" "leads_to (nodes d) (root @ kernel_path rel) w"
    then have "data = None" using backup(3) no_file_at_place by (auto simp: is_file_def)
    with there show ?thesis by simp
  next
    assume there: "nodes d0 w = None" "content \<noteq> None" "rp_path r = root @ kernel_path rel"
    then have "data = None"
      using backup(3) no_file_at_new [OF ready w(1) there(1) grown] by (auto simp: is_file_def)
    with there show ?thesis by simp
  qed
  then have kind: ?K and saved: "reads_proceed d0 \<Longrightarrow> map_option File data = nodes d0 w" by blast+
  have fresh: "w \<notin> it_place ` set items" using new w(1) by auto
  show ?thesis
  proof (cases content)
    case None
    with kind obtain bytes where "rp_path r = w" "holds_file (nodes d0) w" "leads_to (nodes d) w w" "data = Some bytes"
      by auto
    moreover have "last w \<notin> stage_names d0 b" by (rule ready_place_unused(1) [OF ready w(1)])
    ultimately show ?thesis
      using staging_delete [OF state [unfolded acc], of rel w d' bytes] w fresh step(3) backup(1,2) None saved
      by (auto intro!: exI simp: saved_def)
  next
    case (Some bytes)
    have "\<exists>it. it_staged it = (rel, Some bytes) \<and> it_place it = w \<and> it_path it = rp_path r \<and> it_data it = data
      \<and> staging d0 b root (items @ [it]) acc' d'"
    proof (rule staging_write [OF ready(1) _ state [unfolded acc] _ w(2) fresh])
      show "stage_content (rp_path r) bytes (path_put (rp_path r) data bs) ts d1 = (Inr acc', d')"
        using step(3) Some by simp
    qed (use ready(2) w(1) kind backup(1,2) run(2) Some in auto)
    with saved Some show ?thesis by (auto simp: saved_def)
  qed
qed

lemma stage_one_calls:
  assumes "stage_one root s acc d = (Inr acc', d')"
  shows "calls d \<le> calls d'"
proof -
  obtain rel content bs ts where s: "s = (rel, content)" "acc = (bs, ts)" by (metis surj_pair)
  from assms obtain r data d1 where step:
    "(if content = None then resolve_existing (nodes d) root rel else resolve_for_write (nodes d) root rel) = Inr r"
    "backup_of (rp_path r) d = (Inr data, d1)"
    "case content of None \<Rightarrow> acc' = (path_put (rp_path r) data bs, ts) \<and> d' = d1
     | Some bytes \<Rightarrow> stage_content (rp_path r) bytes (path_put (rp_path r) data bs) ts d1 = (Inr acc', d')"
    unfolding s by (rule stage_one_cases)
  have "calls d \<le> calls d1" using backup_of_result(1) [OF step(2)] by (simp add: same_host_def)
  also have "calls d1 \<le> calls d'"
  proof (cases content)
    case (Some bytes)
    with step(3) have "stage_content (rp_path r) bytes (path_put (rp_path r) data bs) ts d1 = (Inr acc', d')" by simp
    then obtain d2 where d2: "fs_create_dir_all (parent_of (rp_path r)) d1 = (Inr (), d2)"
      "fs_write (stage_path (rp_path r) (uuid_of d2 (calls d2))) bytes (d2\<lparr>calls := Suc (calls d2)\<rparr>) = (Inr (), d')"
      "acc' = (path_put (rp_path r) data bs, path_put (rp_path r) (stage_path (rp_path r) (uuid_of d2 (calls d2))) ts)"
      by (rule stage_content_Inr)
    have "calls d1 \<le> calls d2" using create_dir_all_effect(2) [OF d2(1)] by (simp add: same_host_def)
    moreover have "Suc (calls d2) \<le> calls d'" using d2(2)
      by (auto simp: fs_write_def system_call_def Let_def split: outcome.split_asm if_split_asm prod.split_asm)
    ultimately show ?thesis by simp
  qed (use step(3) in simp)
  finally show ?thesis .
qed

text \<open>All files staged.\<close>

lemma staging_all:
  assumes ready: "commit_ready d0 b root staged"
  shows "stage_all root xs d0 = (Inr acc, d') \<Longrightarrow> set xs \<subseteq> set staged \<Longrightarrow>
    distinct (map (place_of (nodes d0) root) xs) \<Longrightarrow> calls d' \<le> b \<Longrightarrow>
    \<exists>items. map it_staged items = xs \<and> staging d0 b root items acc d'
      \<and> (reads_proceed d0 \<longrightarrow> (\<forall>it \<in> set items. saved (nodes d0) it))"
proof (induction xs arbitrary: acc d' rule: rev_induct)
  case Nil
  then show ?case
    using staging_start [OF ready_root(5) [OF ready]] by (auto simp: stage_all_def op_return_def)
next
  case (snoc s xs)
  from snoc.prems(1) obtain acc1 d1 where run: "stage_all root xs d0 = (Inr acc1, d1)"
      "stage_one root s acc1 d1 = (Inr acc, d')"
    unfolding stage_all_def op_for_snoc by (auto elim!: op_bind_cases)
  have calls: "calls d1 \<le> b" using stage_one_calls [OF run(2)] snoc.prems(4) by simp
  obtain items where items: "map it_staged items = xs" "staging d0 b root items acc1 d1"
      "reads_proceed d0 \<Longrightarrow> \<forall>it \<in> set items. saved (nodes d0) it"
    using snoc.IH [OF run(1) _ _ calls] snoc.prems(2,3) by auto
  have "place_of (nodes d0) root s \<notin> Some ` it_place ` set items"
  proof
    assume "place_of (nodes d0) root s \<in> Some ` it_place ` set items"
    then obtain it where it: "it \<in> set items" "place_of (nodes d0) root s = Some (it_place it)" by auto
    then have "place_of (nodes d0) root (it_staged it) = place_of (nodes d0) root s"
      using items(2) by (auto simp: staging_def items_ok_def item_ok_def)
    moreover have "it_staged it \<in> set xs" using it(1) items(1) by auto
    ultimately show False using snoc.prems(3) by (auto simp: image_iff)
  qed
  moreover obtain rel content where s: "s = (rel, content)" by fastforce
  ultimately obtain it where "it_staged it = s" "staging d0 b root (items @ [it]) acc d'"
    "reads_proceed d0 \<longrightarrow> saved (nodes d0) it"
    using staging_one [OF ready _ items(2) _ _ snoc.prems(4) calls, of rel content] run(2) snoc.prems(2)
    by auto
  with items show ?case by (intro exI [of _ "items @ [it]"]) auto
qed

end
