(* ===== verification/Patch_Atomic.thy ===== *)
theory Patch_Atomic
  imports Patch_Commit
begin

text \<open>
  The second half of the commit: the staged files are put in place one after the other, or all is
  undone.  The properties of \<open>commit_staged_bytes\<close>.
\<close>

section \<open>Resolving again\<close>

lemma ready_texts:
  assumes "commit_ready d b root staged" "(rel, content) \<in> set staged"
  shows "reject_unsafe_text (if rel = [] then ''.'' else rel) = Inr ()"
    "content \<noteq> None \<Longrightarrow> reject_unsafe_text rel = Inr () \<and> reject_protected_write_path rel = Inr () \<and> components rel \<noteq> []"
proof -
  obtain w where w: "place_of (nodes d) root (rel, content) = Some w"
    by (rule ready_cases [OF assms])
  then have "content = None \<Longrightarrow> reject_unsafe_text (if rel = [] then ''.'' else rel) = Inr ()"
    by (auto simp: place_of_def resolve_existing_def resolve_existing_at_def Let_def and_then_Inr_iff
        split: sum.split_asm)
  moreover have texts: "content \<noteq> None \<Longrightarrow> reject_unsafe_text rel = Inr () \<and> reject_protected_write_path rel = Inr () \<and> components rel \<noteq> []"
    using w accepted_write by (auto simp: place_of_def split: sum.split_asm)
  ultimately show "reject_unsafe_text (if rel = [] then ''.'' else rel) = Inr ()"
    by (cases content; cases "rel = []") (simp_all add: reject_unsafe_text_def [of "[]"])
  show "content \<noteq> None \<Longrightarrow> reject_unsafe_text rel = Inr () \<and> reject_protected_write_path rel = Inr () \<and> components rel \<noteq> []"
    by (rule texts)
qed

lemma undotted_candidate: "real_dir fs root \<Longrightarrow> undotted (root @ kernel_path raw) = root @ components raw"
  using undotted_real [of fs root] by (simp add: undotted_kernel_path)

lemma resolved_while_committing:
  assumes ready: "commit_ready d b root staged" "(rel, content) \<in> set staged"
    and place: "place_of (nodes d) root (rel, content) = Some w"
    and keeps: "keeps_structure (nodes d) fs"
    and now: "holds_file (nodes d) w \<and> holds_file fs w
      \<or> nodes d w = None \<and> (fs w = None \<or> fs w = Some Dir) \<and> leads_to fs (root @ kernel_path rel) w"
  shows "\<exists>r. (if content = None then resolve_existing fs root rel else resolve_for_write fs root rel) = Inr r
    \<and> (rp_path r = w \<and> fs w \<noteq> None \<and> canonicalize fs w = Some w
       \<or> content \<noteq> None \<and> rp_path r = root @ kernel_path rel \<and> nodes d w = None)"
proof -
  let ?cand = "root @ kernel_path rel"
  note root = ready_root [OF ready(1)]
  note texts = ready_texts [OF ready]
  obtain w' where w': "place_of (nodes d) root (rel, content) = Some w'" "w' \<noteq> []" "prefix root w'"
    and kind: "holds_file (nodes d) w' \<and> rel \<noteq> [] \<and> canonicalize (nodes d) ?cand = Some w'
     \<or> nodes d w' = None \<and> content \<noteq> None \<and> new_place (nodes d) ?cand w' \<and> set w' \<inter> stage_names d b = {}"
    by (rule ready_cases [OF ready])
  have [simp]: "w' = w" using w'(1) place by simp
  have root': "canonicalize fs root = Some root" "real_dir fs root"
    using canonical_kept [OF keeps root(3)] real_dir_kept [OF keeps root(1)] root(1) by simp_all
  show ?thesis
  proof (cases "canonicalize fs ?cand = Some w \<and> rel \<noteq> []")
    case True
    then have "canonicalize fs w = Some w" "fs w \<noteq> None"
      using canonical_idem canonical_real [of fs ?cand w] w'(2) by (auto simp: real_file_def dest: real_dir_node)
    moreover have "\<exists>r. (if content = None then resolve_existing fs root rel else resolve_for_write fs root rel) = Inr r
      \<and> rp_path r = w"
      using True texts w'(3) root'
      by (cases content)
         (auto simp: resolve_existing_def resolve_existing_at_def validate_base_def is_dir_iff
           ensure_inside_workspace_def resolve_for_write_def Let_def path_exists_def)
    ultimately show ?thesis by blast
  next
    case False
    have "nodes d w = None"
    proof (rule ccontr)
      assume "nodes d w \<noteq> None"
      then have "holds_file fs w" "rel \<noteq> []" "canonicalize (nodes d) ?cand = Some w" using now kind by auto
      then show False using False canonical_kept [OF keeps, of ?cand w] by (auto simp: holds_file_iff)
    qed
    then have new: "nodes d w = None" "content \<noteq> None" "leads_to fs ?cand w" "fs w = None \<or> fs w = Some Dir"
      using now kind by (auto simp: holds_file_iff)
    have raw: "rel \<noteq> []" using texts(2) [OF new(2)] by (auto simp: reject_unsafe_text_def)
    have "\<not> is_link fs w" using new(4) by (auto simp: is_link_def)
    then have missing: "\<not> path_exists fs ?cand" "\<not> is_symlink fs ?cand"
      using False raw leads_to_present [OF new(3)] leads_to_not_symlink [OF new(3)]
      by (cases "canonicalize fs ?cand"; auto simp: path_exists_def)+
    obtain parent where parent: "undotted ?cand = parent @ [last w]" "canonicalize fs parent = Some (butlast w)"
      using new(3) by (auto simp: leads_to_def)
    have "butlast (root @ components rel) = parent"
      using parent(1) undotted_candidate [OF root'(2), of rel] by (metis butlast_snoc)
    moreover have "prefix root (butlast w)"
    proof -
      have "root \<noteq> w" using new(1) root(1) w'(2) by (auto dest: real_dir_node)
      then show ?thesis using w'(3) by (auto simp: prefix_def butlast_append)
    qed
    ultimately show ?thesis
      using new(1,2) missing texts(2) parent(2) by (auto simp: resolve_for_write_def Let_def)
  qed
qed

section \<open>One replacement\<close>

definition resolves_to :: "fs \<Rightarrow> path \<Rightarrow> string \<times> string option \<Rightarrow> path \<Rightarrow> bool" where
  "resolves_to fs root s p \<longleftrightarrow>
     (\<exists>r. (if snd s = None then resolve_existing fs root (fst s) else resolve_for_write fs root (fst s)) = Inr r
       \<and> rp_path r = p)"

lemma resolve_staged_to: "resolves_to (nodes d) root s p \<Longrightarrow> resolve_staged root s d = (Inr p, d)"
  by (cases s) (auto simp: resolves_to_def resolve_staged_Inr)

text \<open>A replaced file was reachable as a name, not only as a directory.\<close>

definition replaced_paths :: "item list \<Rightarrow> bool" where
  "replaced_paths old \<longleftrightarrow> (\<forall>it \<in> set old. last (it_path it) \<noteq> ''.'')"

definition committing :: "disk \<Rightarrow> path \<Rightarrow> item list \<Rightarrow> item list \<Rightarrow> disk \<Rightarrow> bool" where
  "committing d0 root old rest d \<longleftrightarrow>
     same_host d0 d \<and> items_ok (nodes d0) root (old @ rest)
     \<and> (\<forall>it \<in> set (old @ rest). item_leads (nodes d0) (nodes d) root it)
     \<and> under_way (nodes d0) old rest (nodes d) \<and> replaced_paths old"

lemma staging_committing: "staging d0 b root items acc d \<Longrightarrow> committing d0 root [] items d"
  by (simp add: staging_def committing_def replaced_paths_def)

text \<open>Keys that lead to the place of a file are its own.\<close>

lemma temporary_of_place:
  assumes "items_ok fs0 root items" "\<forall>it \<in> set items. item_leads fs0 fs root it"
    and "it \<in> set items" "written it" "leads_to fs p (it_place it)"
  shows "path_get (temporaries_of items) p \<in> {None, Some (it_temp it)}"
proof -
  have own: "x = it" if "x \<in> set items" "undotted (it_path x) = undotted p" for x
  proof -
    have "it_place x = it_place it"
      using leads_to_unique [of fs "it_path x" "it_place x" p "it_place it"] assms(2,5) that
      by (auto simp: item_leads_def)
    then show ?thesis using assms(1,3) that(1) by (auto simp: items_ok_def distinct_map dest: inj_onD)
  qed
  have "path_get (map (\<lambda>it. (it_path it, it_temp it)) xs) p \<in> {None, Some (it_temp it)}"
    if "set xs \<subseteq> set items" for xs
    using that by (induction xs) (auto dest: own)
  then show ?thesis unfolding temporaries_of_def by auto
qed

lemma place_while_committing:
  assumes "committing d0 root old (it # rest) d"
  shows "nodes d (it_place it) = nodes d0 (it_place it)
      \<or> nodes d0 (it_place it) = None \<and> nodes d (it_place it) = Some Dir"
    "\<not> is_link (nodes d) (it_place it)" "written it \<Longrightarrow> it_spot it \<noteq> it_place it"
proof -
  have ok: "items_ok (nodes d0) root (old @ it # rest)" using assms by (simp add: committing_def)
  have "it_place it \<notin> spots (old @ it # rest)" "it_place it \<notin> it_place ` set old"
    using ok unfolding items_ok_def spots_def by auto
  then show *: "nodes d (it_place it) = nodes d0 (it_place it)
      \<or> nodes d0 (it_place it) = None \<and> nodes d (it_place it) = Some Dir"
    using assms unfolding committing_def under_way_def by blast
  have "item_ok (nodes d0) root it" using ok by (simp add: items_ok_def)
  then show "\<not> is_link (nodes d) (it_place it)"
    using * item_ok_places(2) by (auto simp: is_link_def)
  show "written it \<Longrightarrow> it_spot it \<noteq> it_place it" using ok by (simp add: items_ok_def)
qed

lemma distinct_map_apart: "distinct (map f (xs @ y # ys)) \<Longrightarrow> x \<in> set xs \<union> set ys \<Longrightarrow> f x \<noteq> f y"
  by (auto simp: image_iff)

lemma items_apart:
  assumes "items_ok fs root (old @ it # rest)" "x \<in> set old \<union> set rest"
  shows "it_place x \<noteq> it_place it" "written it \<Longrightarrow> it_spot it \<noteq> it_place x"
    "written x \<Longrightarrow> it_spot x \<noteq> it_place it" "written x \<Longrightarrow> written it \<Longrightarrow> it_spot x \<noteq> it_spot it"
proof -
  show "it_place x \<noteq> it_place it"
    using assms by (intro distinct_map_apart [of it_place old it rest]) (simp_all add: items_ok_def)
  show "written it \<Longrightarrow> it_spot it \<noteq> it_place x" "written x \<Longrightarrow> it_spot x \<noteq> it_place it"
    using assms by (simp_all add: items_ok_def)
  show "written x \<Longrightarrow> written it \<Longrightarrow> it_spot x \<noteq> it_spot it"
    using assms by (intro distinct_map_apart [of it_spot "filter written old" it "filter written rest"])
      (auto simp: items_ok_def)
qed

text \<open>Putting one file in place is progress.\<close>

lemma committed_one:
  assumes state: "committing d0 root old (it # rest) d"
    and place: "nodes d (it_place it) \<noteq> Some Dir" "last (it_path it) \<noteq> ''.''"
    and nodes': "nodes d' = (if written it then (nodes d)(it_spot it := None) else nodes d)
      (it_place it := map_option File (snd (it_staged it)))" "same_host d d'"
  shows "committing d0 root (old @ [it]) rest d'"
proof -
  let ?start = "nodes d0" and ?fs = "nodes d" and ?fs' = "nodes d'" and ?w = "it_place it"
  have ok: "items_ok ?start root (old @ it # rest)" and way: "under_way ?start old (it # rest) ?fs"
    and host: "same_host d0 d" and paths: "replaced_paths old"
    using state by (simp_all add: committing_def)
  note known = place_while_committing [OF state]
  have spot_file: "written it \<Longrightarrow> \<exists>bytes. ?fs (it_spot it) = Some (File bytes)"
    using way by (auto simp: under_way_def written_def)
  have "keeps_structure ?fs ?fs'"
    using place(1) known(2) spot_file unfolding nodes' keeps_structure_def is_link_def
    by (auto split: option.splits)
  then have "\<forall>x \<in> set (old @ it # rest). item_leads ?start ?fs' root x"
    using state item_leads_kept by (auto simp: committing_def)
  moreover have other: "?fs' (it_place x) = ?fs (it_place x)" if "x \<in> set old \<union> set rest" for x
  proof -
    show ?thesis using items_apart(1,2) [OF ok that] by (auto simp: nodes')
  qed
  moreover have "?fs' (it_spot x) = ?fs (it_spot x)" if "x \<in> set old \<union> set rest" "written x" for x
  proof -
    show ?thesis using items_apart(3,4) [OF ok that(1)] that(2) by (auto simp: nodes')
  qed
  moreover have "?fs' ?w = map_option File (snd (it_staged it))" "written it \<Longrightarrow> ?fs' (it_spot it) = None"
    using known(3) by (auto simp: nodes')
  moreover have "?fs' p = ?fs p" if "p \<notin> spots (old @ it # rest)" "p \<noteq> ?w" for p
    using that by (auto simp: nodes' spots_def)
  ultimately have "under_way ?start (old @ [it]) rest ?fs'"
    using way unfolding under_way_def by auto
  then show ?thesis
    using ok host assms(5) same_host_trans paths place(2) \<open>\<forall>x \<in> set (old @ it # rest). item_leads ?start ?fs' root x\<close>
    by (auto simp: committing_def replaced_paths_def)
qed

lemma committing_same:
  "committing d0 root old rest d \<Longrightarrow> nodes d' = nodes d \<Longrightarrow> same_host d d' \<Longrightarrow> committing d0 root old rest d'"
  using same_host_trans by (auto simp: committing_def)

text \<open>Where a staged file resolves to, and what is there, while others are put in place.\<close>

lemma resolved_item:
  assumes ready: "commit_ready d0 b root staged" "it_staged it \<in> set staged"
    and state: "committing d0 root old (it # rest) d"
  obtains p where "resolve_staged root (it_staged it) d = (Inr p, d)" "leads_to (nodes d) p (it_place it)"
    "last (it_path it) = ''.'' \<longrightarrow> last p = ''.'' \<or> nodes d (it_place it) = Some Dir"
    "\<not> written it \<longrightarrow> p = it_place it \<and> is_file (nodes d) p"
proof -
  let ?start = "nodes d0" and ?fs = "nodes d" and ?w = "it_place it" and ?cand = "root @ kernel_path (fst (it_staged it))"
  have ok: "item_ok ?start root it" and leads: "item_leads ?start ?fs root it"
    using state by (auto simp: committing_def items_ok_def)
  have w: "place_of ?start root (fst (it_staged it), snd (it_staged it)) = Some ?w" "?w \<noteq> []"
    using ok by (simp_all add: item_ok_def)
  have now: "?fs ?w = ?start ?w \<or> ?start ?w = None \<and> ?fs ?w = Some Dir"
    by (rule place_while_committing(1) [OF state])
  have keeps: "keeps_structure ?start ?fs"
    using state under_way_keeps unfolding committing_def by blast
  have "holds_file ?start ?w \<and> holds_file ?fs ?w
      \<or> ?start ?w = None \<and> (?fs ?w = None \<or> ?fs ?w = Some Dir) \<and> leads_to ?fs ?cand ?w"
    using ok now leads by (auto simp: item_ok_def holds_file_iff item_leads_def)
  from resolved_while_committing [OF ready(1) _ w(1) keeps this] ready(2)
  obtain r where r: "(if snd (it_staged it) = None then resolve_existing ?fs root (fst (it_staged it))
      else resolve_for_write ?fs root (fst (it_staged it))) = Inr r"
    "rp_path r = ?w \<and> ?fs ?w \<noteq> None \<and> canonicalize ?fs ?w = Some ?w
     \<or> written it \<and> rp_path r = ?cand \<and> ?start ?w = None"
    by (auto simp: written_def)
  have "resolve_staged root (it_staged it) d = (Inr (rp_path r), d)"
    using r(1) by (intro resolve_staged_to) (auto simp: resolves_to_def)
  moreover have "leads_to ?fs (rp_path r) ?w"
    using r(2) w(2) leads leads_to_real [of ?w ?fs] canonical_real [of ?fs ?w ?w]
    by (auto simp: item_leads_def)
  moreover have "?fs ?w = Some Dir" if "last (it_path it) = ''.''" "last (rp_path r) \<noteq> ''.''"
  proof -
    have "last ?w \<noteq> ''.''" using leads by (auto simp: item_leads_def leads_to_def dots_def)
    then have "?start ?w = None" "it_path it = ?cand" using that(1) ok by (auto simp: item_ok_def)
    then show ?thesis using that now r(2) by auto
  qed
  moreover have "rp_path r = ?w \<and> is_file ?fs (rp_path r)" if "\<not> written it"
  proof -
    have "holds_file ?start ?w" using ok that by (auto simp: item_ok_def)
    then show ?thesis using r(2) that now by (auto simp: holds_file_iff is_file_def file_at_def)
  qed
  ultimately show thesis using that [of "rp_path r"] by blast
qed

lemma commit_one_outcome:
  assumes ready: "commit_ready d0 b root staged" "it_staged it \<in> set staged"
    and state: "committing d0 root old (it # rest) d"
    and run: "commit_one root bs (temporaries_of (old @ it # rest)) (it_staged it) u d = (r, d')"
  shows "r = Inr () \<and> committing d0 root (old @ [it]) rest d'
    \<or> (\<exists>d1. committing d0 root old (it # rest) d1 \<and> undo bs (temporaries_of (old @ it # rest)) d1 = (r, d'))"
proof -
  let ?w = "it_place it" and ?ts = "temporaries_of (old @ it # rest)"
  obtain p where p: "resolve_staged root (it_staged it) d = (Inr p, d)" "leads_to (nodes d) p ?w"
    "last (it_path it) = ''.'' \<longrightarrow> last p = ''.'' \<or> nodes d ?w = Some Dir"
    "\<not> written it \<longrightarrow> p = ?w \<and> is_file (nodes d) p"
    by (rule resolved_item [OF ready state])
  have next_step: ?thesis
    if z: "replace_one ?ts p (snd (it_staged it)) d = (Inr z, d1)"
      and good: "z = Inr () \<Longrightarrow> committing d0 root (old @ [it]) rest d1"
      and bad: "z \<noteq> Inr () \<Longrightarrow> nodes d1 = nodes d \<and> same_host d d1" for z d1
  proof (cases z)
    case (Inl e)
    with run z have "undo bs ?ts d1 = (r, d')"
      by (simp add: commit_one_def op_bind_Inr [of "resolve_staged root (it_staged it)" d p d] p(1)
          op_bind_Inr [of "replace_one ?ts p (snd (it_staged it))" d z d1])
    then show ?thesis using Inl bad committing_same [OF state] by blast
  next
    case (Inr v)
    with run z have "r = Inr () \<and> d' = d1"
      by (simp add: commit_one_def op_bind_Inr [of "resolve_staged root (it_staged it)" d p d] p(1)
          op_bind_Inr [of "replace_one ?ts p (snd (it_staged it))" d z d1] op_return_def)
    then show ?thesis using Inr good by simp
  qed
  have ok: "items_ok (nodes d0) root (old @ it # rest)" and item: "item_ok (nodes d0) root it"
    and leads: "item_leads (nodes d0) (nodes d) root it"
    using state by (auto simp: committing_def items_ok_def)
  have not_dot: "last ?w \<noteq> ''.''" using p(2) by (auto simp: leads_to_def dots_def)
  show ?thesis
  proof (cases "snd (it_staged it)")
    case None
    then have not_written: "\<not> written it" by (simp add: written_def)
    then have there: "p = ?w" "is_file (nodes d) p" using p(4) by blast+
    obtain z d1 where z: "fs_remove_file p d = (z, d1)" by fastforce
    note effect = remove_place(1,3) [OF z p(2)]
    have no_dir: "nodes d ?w \<noteq> Some Dir" "it_path it = ?w"
      using item not_written place_while_committing(1) [OF state] by (auto simp: item_ok_def holds_file_iff)
    show ?thesis
    proof (rule next_step)
      show "replace_one ?ts p (snd (it_staged it)) d = (Inr z, d1)"
        using None z there by (simp add: replace_one_def op_try_Inr)
      show "committing d0 root (old @ [it]) rest d1" if "z = Inr ()"
        using effect that no_dir not_dot None not_written by (intro committed_one [OF state]) simp_all
      show "nodes d1 = nodes d \<and> same_host d d1" if "z \<noteq> Inr ()"
        using effect that by simp
    qed
  next
    case (Some bytes)
    then have "written it" by (simp add: written_def)
    have "path_get ?ts p \<in> {None, Some (it_temp it)}"
      using state p(2) \<open>written it\<close> by (intro temporary_of_place [OF ok]) (auto simp: committing_def)
    then show ?thesis
    proof (elim insertE emptyE)
      assume "path_get ?ts p = None"
      then show ?thesis using Some by (intro next_step [of "Inl ()" d]) (simp_all add: replace_one_def)
    next
      assume temp: "path_get ?ts p = Some (it_temp it)"
      obtain z d1 where z: "fs_rename (it_temp it) p d = (z, d1)" by fastforce
      have spot: "nodes d (it_spot it) = Some (File bytes)"
        using state \<open>written it\<close> Some by (simp add: committing_def under_way_def)
      note effect = rename_place [OF z _ _ p(2) spot]
      have temp_ok: "leads_to (nodes d) (it_temp it) (it_spot it)" "last (it_temp it) \<noteq> ''.''"
        using leads item \<open>written it\<close> by (simp_all add: item_leads_def item_ok_def)
      show ?thesis
      proof (rule next_step)
        show "replace_one ?ts p (snd (it_staged it)) d = (Inr z, d1)"
          using Some temp z by (simp add: replace_one_def op_try_Inr)
        show "committing d0 root (old @ [it]) rest d1" if "z = Inr ()"
          using effect [OF temp_ok] that p(3) Some \<open>written it\<close>
          by (intro committed_one [OF state]) auto
        show "nodes d1 = nodes d \<and> same_host d d1" if "z \<noteq> Inr ()"
          using effect [OF temp_ok] that by simp
      qed
    qed
  qed
qed

lemma undo_fails: "undo bs ts d = (r, d') \<Longrightarrow> r \<noteq> Inr x"
  by (auto simp: undo_def op_bind_def op_fail_def split: prod.split_asm sum.split_asm)

lemma commit_loop_outcome:
  assumes ready: "commit_ready d0 b root staged"
  shows "committing d0 root old rest d \<Longrightarrow> it_staged ` set rest \<subseteq> set staged \<Longrightarrow>
    op_for (commit_one root bs (temporaries_of (old @ rest))) (map it_staged rest) () d = (r, d') \<Longrightarrow>
    r = Inr () \<and> committing d0 root (old @ rest) [] d'
    \<or> (\<exists>old' rest' d1. old' @ rest' = old @ rest \<and> committing d0 root old' rest' d1
         \<and> undo bs (temporaries_of (old @ rest)) d1 = (r, d'))"
proof (induction rest arbitrary: old d)
  case Nil
  then show ?case by (simp add: op_return_def)
next
  case (Cons it rest)
  let ?ts = "temporaries_of (old @ it # rest)"
  from Cons.prems(3) have "op_bind (commit_one root bs ?ts (it_staged it) ()) (op_for (commit_one root bs ?ts) (map it_staged rest)) d = (r, d')"
    by simp
  then obtain r1 d1 where one: "commit_one root bs ?ts (it_staged it) () d = (r1, d1)"
    "(\<exists>e. r1 = Inl e \<and> r = Inl e \<and> d' = d1)
     \<or> (r1 = Inr () \<and> op_for (commit_one root bs ?ts) (map it_staged rest) () d1 = (r, d'))"
    by (cases rule: op_bind_cases) auto
  have "it_staged it \<in> set staged" using Cons.prems(2) by simp
  from commit_one_outcome [OF ready this Cons.prems(1) one(1)]
  show ?case
  proof (elim disjE)
    assume good: "r1 = Inr () \<and> committing d0 root (old @ [it]) rest d1"
    then have "op_for (commit_one root bs (temporaries_of ((old @ [it]) @ rest))) (map it_staged rest) () d1 = (r, d')"
      using one(2) by auto
    from Cons.IH [OF _ _ this] good Cons.prems(2) show ?thesis by simp
  next
    assume "\<exists>d1'. committing d0 root old (it # rest) d1' \<and> undo bs ?ts d1' = (r1, d1)"
    then obtain d1' where bad: "committing d0 root old (it # rest) d1'" "undo bs ?ts d1' = (r1, d1)" by blast
    have "r1 \<noteq> Inr ()" by (rule undo_fails [OF bad(2)])
    then show ?thesis using one(2) bad by auto
  qed
qed

section \<open>Cleaning up\<close>

definition remove_temporary :: "path \<times> path \<Rightarrow> unit \<Rightarrow> (disk, workspace_error, unit) op" where
  "remove_temporary t u = op_bind (op_try (fs_remove_file (snd t))) (\<lambda>_. op_return ())"

lemma cleanup_is: "cleanup_temporary_files ts d = op_for remove_temporary (temporary_order d ts) () d"
  by (simp add: cleanup_temporary_files_def remove_temporary_def [abs_def] case_prod_unfold)

lemma remove_temporary_run:
  "remove_temporary t u d = (r, d') \<Longrightarrow> r = Inr () \<and> (\<exists>z. fs_remove_file (snd t) d = (z, d'))"
  by (auto simp: remove_temporary_def op_bind_def op_try_def op_return_def split: prod.split_asm)

text \<open>Removing temporary files only clears their places, all of them when nothing is refused.\<close>

definition cleared :: "item list \<Rightarrow> fs \<Rightarrow> fs \<Rightarrow> bool" where
  "cleared items fs fs' \<longleftrightarrow> (\<forall>p. fs' p = fs p \<or> p \<in> spots items \<and> fs' p = None)"

lemma cleanup_effect:
  assumes "\<forall>it \<in> set items. written it \<longrightarrow> leads_to (nodes d) (it_temp it) (it_spot it)"
    and "\<forall>it \<in> set items. written it \<longrightarrow> nodes d (it_spot it) \<noteq> Some Dir \<and> \<not> is_link (nodes d) (it_spot it)"
    and "set ts \<subseteq> set (temporaries_of items)"
    and "op_for remove_temporary ts () d = (r, d')"
  shows "r = Inr () \<and> same_host d d' \<and> cleared items (nodes d) (nodes d')
    \<and> ((\<forall>n p. outcome_of d n (Remove p) = Proceeds) \<longrightarrow>
        (\<forall>it \<in> set items. written it \<longrightarrow> last (it_temp it) \<noteq> ''.'' \<longrightarrow> (it_path it, it_temp it) \<in> set ts \<longrightarrow>
           nodes d' (it_spot it) = None))"
  using assms
proof (induction ts arbitrary: d)
  case Nil
  then show ?case by (simp add: op_return_def cleared_def)
next
  case (Cons t ts)
  from Cons.prems(4) obtain d1 where run: "remove_temporary t () d = (Inr (), d1)" "op_for remove_temporary ts () d1 = (r, d')"
    by (auto elim!: op_bind_cases dest: remove_temporary_run)
  from Cons.prems(3) obtain it where it: "it \<in> set items" "written it" "t = (it_path it, it_temp it)"
    by (auto simp: temporaries_of_def)
  obtain z where z: "fs_remove_file (it_temp it) d = (z, d1)"
    using remove_temporary_run [OF run(1)] it(3) by auto
  have leads: "leads_to (nodes d) (it_temp it) (it_spot it)" using Cons.prems(1) it by simp
  note effect = remove_place [OF z leads]
  have kept: "keeps_structure (nodes d) (nodes d1)"
    using effect(2) Cons.prems(2) it unfolding keeps_structure_def by (auto simp: is_link_def)
  have first: "cleared items (nodes d) (nodes d1)"
    using effect(2) spots_mem [OF it(1,2)] by (auto simp: cleared_def split: if_splits)
  have IH: "r = Inr () \<and> same_host d1 d' \<and> cleared items (nodes d1) (nodes d')
    \<and> ((\<forall>n p. outcome_of d1 n (Remove p) = Proceeds) \<longrightarrow>
        (\<forall>it \<in> set items. written it \<longrightarrow> last (it_temp it) \<noteq> ''.'' \<longrightarrow> (it_path it, it_temp it) \<in> set ts \<longrightarrow>
           nodes d' (it_spot it) = None))"
  proof (rule Cons.IH [OF _ _ _ run(2)])
    show "\<forall>it \<in> set items. written it \<longrightarrow> leads_to (nodes d1) (it_temp it) (it_spot it)"
      using Cons.prems(1) leads_to_kept [OF kept] by blast
    show "\<forall>it \<in> set items. written it \<longrightarrow> nodes d1 (it_spot it) \<noteq> Some Dir \<and> \<not> is_link (nodes d1) (it_spot it)"
      using Cons.prems(2) first unfolding cleared_def is_link_def
      by (metis option.distinct(1) option.simps(4))
    show "set ts \<subseteq> set (temporaries_of items)" using Cons.prems(3) by simp
  qed
  have "cleared items (nodes d) (nodes d')" using first IH unfolding cleared_def by metis
  moreover have "same_host d d'" using effect(1) IH same_host_trans by blast
  moreover have "nodes d' (it_spot x) = None"
    if all: "\<forall>n p. outcome_of d n (Remove p) = Proceeds" and x: "x \<in> set items" "written x"
      "last (it_temp x) \<noteq> ''.''" "(it_path x, it_temp x) \<in> set (t # ts)" for x
  proof (cases "(it_path x, it_temp x) \<in> set ts")
    case True
    have "outcome_of d1 = outcome_of d" using effect(1) by (simp add: same_host_def)
    then show ?thesis using IH all x True by simp
  next
    case False
    then have "it_temp x = it_temp it" using x(4) it(3) by simp
    then have "it_spot x = it_spot it"
      using leads_to_unique [OF _ leads, of "it_temp x"] Cons.prems(1) x(1,2) by auto
    moreover have "nodes d1 (it_spot it) = None"
      using effect(4) all x(3) \<open>it_temp x = it_temp it\<close> Cons.prems(2) it(1,2) by simp
    ultimately show ?thesis using IH unfolding cleared_def by metis
  qed
  ultimately show ?case using IH by blast
qed

section \<open>Restoring\<close>

definition only_new_dir :: "fs \<Rightarrow> fs \<Rightarrow> path \<Rightarrow> bool" where
  "only_new_dir fs0 fs p \<longleftrightarrow> fs p = fs0 p \<or> fs0 p = None \<and> fs p = Some Dir"

definition restorable :: "fs \<Rightarrow> fs \<Rightarrow> item \<Rightarrow> bool" where
  "restorable fs0 fs it \<longleftrightarrow>
     leads_to fs (it_path it) (it_place it) \<and> \<not> is_link fs (it_place it)
     \<and> (holds_file fs0 (it_place it) \<longrightarrow> fs (it_place it) \<noteq> Some Dir)
     \<and> (last (it_path it) = ''.'' \<longrightarrow> only_new_dir fs0 fs (it_place it))"

definition calls_proceed :: "disk \<Rightarrow> bool" where
  "calls_proceed d \<longleftrightarrow> (\<forall>n c. outcome_of d n c = Proceeds \<or> (\<exists>a b. c = Rename a b))"

lemma calls_proceedD:
  "calls_proceed d \<Longrightarrow> outcome_of d n (Write p) = Proceeds" "calls_proceed d \<Longrightarrow> outcome_of d n (Remove p) = Proceeds"
  "calls_proceed d \<Longrightarrow> outcome_of d n (Read p) = Proceeds"
  unfolding calls_proceed_def by blast+

lemma leads_to_self:
  assumes "leads_to fs w w"
  shows "undotted w = w" "is_dir fs (parent_of w)"
proof -
  from assms obtain v c where w: "w = v @ [c]" "c \<notin> dots" "real_dir fs v"
    by (cases w rule: rev_cases) (auto simp: leads_to_def)
  then show undotted: "undotted w = w" using undotted_real [of fs v] by (simp add: undotted_def dots_def)
  show "is_dir fs (parent_of w)"
    using w undotted by (simp add: parent_of_def is_dir_iff canonical_of_real)
qed

text \<open>Restoring one backup puts its place back and touches nothing else.\<close>

lemma restore_one_effect:
  assumes item: "item_ok fs0 root it" "saved fs0 it" and now: "restorable fs0 (nodes d) it"
    and host: "calls_proceed d"
    and run: "restore_one (it_path it, it_data it) u d = (r, d')"
  shows "r = Inr ()" "same_host d d'" "keeps_structure (nodes d) (nodes d')"
    "only_new_dir fs0 (nodes d') (it_place it)" "\<And>p. p \<noteq> it_place it \<Longrightarrow> nodes d' p = nodes d p"
proof -
  let ?w = "it_place it"
  have leads: "leads_to (nodes d) (it_path it) ?w" using now by (simp add: restorable_def)
  have "r = Inr () \<and> same_host d d' \<and> only_new_dir fs0 (nodes d') ?w \<and> (\<forall>p. p \<noteq> ?w \<longrightarrow> nodes d' p = nodes d p)
    \<and> (nodes d ?w = Some Dir \<longrightarrow> nodes d' ?w = Some Dir)"
  proof (cases "it_data it")
    case None
    then have gone: "fs0 ?w = None" using item(2) by (simp add: saved_def)
    obtain z where z: "fs_remove_file (it_path it) d = (z, d')" "r = Inr ()"
      using run None
      by (auto simp: restore_one_def op_bind_def op_try_def op_return_def split: prod.split_asm)
    note effect = remove_place [OF z(1) leads]
    have "only_new_dir fs0 (nodes d') ?w"
    proof (cases "last (it_path it) = ''.'' \<or> nodes d ?w = Some Dir")
      case True
      then have "nodes d' = nodes d" using effect(2) by auto
      with True now gone show ?thesis by (auto simp: restorable_def only_new_dir_def)
    next
      case False
      with effect(4) calls_proceedD(2) [OF host] gone show ?thesis by (auto simp: only_new_dir_def)
    qed
    with effect(1,2) z(2) show ?thesis by auto
  next
    case (Some bytes)
    then have there: "fs0 ?w = Some (File bytes)" using item(2) by (simp add: saved_def)
    then have path: "it_path it = ?w" using item(1) by (auto simp: item_ok_def)
    note self = leads_to_self [OF leads [unfolded path]]
    obtain z where z: "fs_write ?w bytes d = (z, d')" "r = Inr ()"
      using run Some path create_dir_all_present [OF self(2)]
      by (auto simp: restore_one_def op_bind_def op_try_def op_return_def split: prod.split_asm)
    have "nodes d ?w \<noteq> Some Dir" "\<not> is_link (nodes d) ?w"
      using now there by (auto simp: restorable_def holds_file_iff)
    note effect = write_place [OF z(1) leads [unfolded path] self(1) this]
    then show ?thesis
      using z(2) calls_proceedD(1) [OF host] there \<open>nodes d ?w \<noteq> Some Dir\<close> by (simp add: only_new_dir_def)
  qed
  then have *: "r = Inr ()" "same_host d d'" "only_new_dir fs0 (nodes d') ?w" "\<forall>p. p \<noteq> ?w \<longrightarrow> nodes d' p = nodes d p"
    "nodes d ?w = Some Dir \<longrightarrow> nodes d' ?w = Some Dir" by blast+
  then show "r = Inr ()" "same_host d d'" "only_new_dir fs0 (nodes d') ?w" "\<And>p. p \<noteq> ?w \<Longrightarrow> nodes d' p = nodes d p"
    by blast+
  from * show "keeps_structure (nodes d) (nodes d')"
    using now unfolding keeps_structure_def restorable_def is_link_def by metis
qed

lemma restore_effect:
  assumes items: "\<forall>it \<in> set items. item_ok fs0 root it \<and> saved fs0 it"
  shows "\<forall>it \<in> set items. restorable fs0 (nodes d) it \<Longrightarrow> calls_proceed d \<Longrightarrow> set bs \<subseteq> set (backups_of items) \<Longrightarrow>
    op_for restore_one bs () d = (r, d') \<Longrightarrow>
    r = Inr () \<and> (\<forall>p. only_new_dir fs0 (nodes d') p \<or> nodes d' p = nodes d p
        \<and> (\<forall>it \<in> set items. (it_path it, it_data it) \<in> set bs \<longrightarrow> it_place it \<noteq> p))"
proof (induction bs arbitrary: d)
  case Nil
  then show ?case by (simp add: op_return_def)
next
  case (Cons b bs)
  from Cons.prems(3) obtain it where it: "it \<in> set items" "b = (it_path it, it_data it)"
    by (auto simp: backups_of_def)
  from Cons.prems(4) obtain r1 d1 where run: "restore_one b () d = (r1, d1)"
    "r1 = Inr () \<Longrightarrow> op_for restore_one bs () d1 = (r, d')"
    by (auto elim!: op_bind_cases)
  have "item_ok fs0 root it" "saved fs0 it" "restorable fs0 (nodes d) it" using items it(1) Cons.prems(1) by auto
  note one = restore_one_effect [OF this Cons.prems(2) run(1) [unfolded it(2)]]
  have "restorable fs0 (nodes d1) x" if "x \<in> set items" for x
  proof (cases "it_place x = it_place it")
    case True
    have "restorable fs0 (nodes d) x" "item_ok fs0 root x" using that Cons.prems(1) items by auto
    then show ?thesis
      using one(4) leads_to_kept [OF one(3)] True item_ok_places(2) [of fs0 root x]
      by (auto simp: restorable_def only_new_dir_def holds_file_iff is_link_def)
  next
    case False
    have "restorable fs0 (nodes d) x" using that Cons.prems(1) by simp
    then show ?thesis
      using one(5) [OF False] leads_to_kept [OF one(3)] by (auto simp: restorable_def only_new_dir_def is_link_def)
  qed
  moreover have "calls_proceed d1" using Cons.prems(2) one(2) by (simp add: calls_proceed_def same_host_def)
  moreover have "set bs \<subseteq> set (backups_of items)" using Cons.prems(3) by simp
  ultimately have IH: "r = Inr () \<and> (\<forall>p. only_new_dir fs0 (nodes d') p \<or> nodes d' p = nodes d1 p
        \<and> (\<forall>it \<in> set items. (it_path it, it_data it) \<in> set bs \<longrightarrow> it_place it \<noteq> p))"
    using Cons.IH run(2) one(1) by blast
  have "only_new_dir fs0 (nodes d') p \<or> nodes d' p = nodes d p
        \<and> (\<forall>x \<in> set items. (it_path x, it_data x) \<in> set (b # bs) \<longrightarrow> it_place x \<noteq> p)" for p
  proof (cases "only_new_dir fs0 (nodes d') p")
    case False
    then have same: "nodes d' p = nodes d1 p"
      "\<forall>x \<in> set items. (it_path x, it_data x) \<in> set bs \<longrightarrow> it_place x \<noteq> p" using IH by blast+
    then have "p \<noteq> it_place it" using False one(4) by (auto simp: only_new_dir_def)
    moreover have "it_place x \<noteq> p" if "x \<in> set items" "it_path x = it_path it" for x
    proof -
      have "leads_to (nodes d) (it_path x) (it_place x)" "leads_to (nodes d) (it_path it) (it_place it)"
        using Cons.prems(1) that(1) it(1) by (auto simp: restorable_def)
      then have "it_place x = it_place it" using leads_to_unique that(2) by metis
      then show ?thesis using \<open>p \<noteq> it_place it\<close> by simp
    qed
    ultimately show ?thesis using same one(5) it(2) by auto
  qed simp
  with IH show ?case by blast
qed

section \<open>All or nothing\<close>

lemma committing_spots:
  assumes "committing d0 root old rest d" "it \<in> set (old @ rest)" "written it"
  shows "nodes d (it_spot it) \<noteq> Some Dir \<and> \<not> is_link (nodes d) (it_spot it)"
    "leads_to (nodes d) (it_temp it) (it_spot it)" "nodes d0 (it_spot it) = None" "last (it_temp it) \<noteq> ''.''"
proof -
  have "(it \<in> set old \<and> nodes d (it_spot it) = None)
      \<or> (it \<in> set rest \<and> nodes d (it_spot it) = map_option File (snd (it_staged it)))"
    using assms by (auto simp: committing_def under_way_def)
  then show "nodes d (it_spot it) \<noteq> Some Dir \<and> \<not> is_link (nodes d) (it_spot it)"
    by (cases "snd (it_staged it)") (auto simp: is_link_def)
  have "item_leads (nodes d0) (nodes d) root it" "item_ok (nodes d0) root it"
    using assms by (auto simp: committing_def items_ok_def)
  then show "leads_to (nodes d) (it_temp it) (it_spot it)" "nodes d0 (it_spot it) = None" "last (it_temp it) \<noteq> ''.''"
    using assms(3) by (simp_all add: item_leads_def item_ok_def)
qed

lemma cleaned:
  assumes "committing d0 root old rest d"
    and "cleanup_temporary_files (temporaries_of (old @ rest)) d = (r, d')"
    and "\<forall>ts. set (temporary_order d0 ts) = set ts"
  shows "r = Inr ()" "same_host d d'" "cleared (old @ rest) (nodes d) (nodes d')"
    "calls_proceed d0 \<Longrightarrow> it \<in> set (old @ rest) \<Longrightarrow> written it \<Longrightarrow> nodes d' (it_spot it) = None"
proof -
  let ?ts = "temporary_order d (temporaries_of (old @ rest))"
  have host: "same_host d0 d" using assms(1) by (simp add: committing_def)
  then have order: "set ?ts = set (temporaries_of (old @ rest))" using assms(3) by (simp add: same_host_def)
  have "r = Inr () \<and> same_host d d' \<and> cleared (old @ rest) (nodes d) (nodes d')
    \<and> ((\<forall>n p. outcome_of d n (Remove p) = Proceeds) \<longrightarrow>
        (\<forall>it \<in> set (old @ rest). written it \<longrightarrow> last (it_temp it) \<noteq> ''.'' \<longrightarrow> (it_path it, it_temp it) \<in> set ?ts \<longrightarrow>
           nodes d' (it_spot it) = None))"
    using assms(2) order committing_spots [OF assms(1)] by (intro cleanup_effect) (auto simp: cleanup_is)
  note * = this
  then show "r = Inr ()" "same_host d d'" "cleared (old @ rest) (nodes d) (nodes d')" by blast+
  show "nodes d' (it_spot it) = None" if "calls_proceed d0" "it \<in> set (old @ rest)" "written it"
  proof -
    have "\<forall>n p. outcome_of d n (Remove p) = Proceeds"
      using that(1) host calls_proceedD(2) by (simp add: same_host_def)
    moreover have "(it_path it, it_temp it) \<in> set ?ts" unfolding order using that(2,3) by (auto simp: temporaries_of_def)
    ultimately show ?thesis using * that(2,3) committing_spots(4) [OF assms(1) that(2,3)] by blast
  qed
qed

lemma place_no_spot:
  assumes "items_ok fs root items" "it \<in> set items" shows "it_place it \<notin> spots items"
proof
  assume "it_place it \<in> spots items"
  then obtain x where "x \<in> set items" "written x" "it_spot x = it_place it" by (auto simp: spots_def)
  with assms show False by (simp add: items_ok_def)
qed

lemma rest_place:
  assumes "committing d0 root old rest d" "it \<in> set rest"
  shows "only_new_dir (nodes d0) (nodes d) (it_place it)"
proof -
  have ok: "items_ok (nodes d0) root (old @ rest)" using assms(1) by (simp add: committing_def)
  then have "it_place it \<notin> it_place ` set old" using assms(2) unfolding items_ok_def by auto
  moreover have "it_place it \<notin> spots (old @ rest)" using place_no_spot [OF ok] assms(2) by simp
  ultimately show ?thesis
    using assms(1) unfolding committing_def under_way_def only_new_dir_def by blast
qed

lemma old_place:
  "committing d0 root old rest d \<Longrightarrow> it \<in> set old \<Longrightarrow> nodes d (it_place it) = map_option File (snd (it_staged it))"
  by (simp add: committing_def under_way_def)

lemma undo_restores:
  assumes state: "committing d0 root old rest d"
    and saved: "\<forall>it \<in> set (old @ rest). saved (nodes d0) it" "calls_proceed d0"
    and orders: "\<forall>ts. set (temporary_order d0 ts) = set ts" "\<forall>bs. set (backup_order d0 bs) = set bs"
    and run: "undo (backups_of (old @ rest)) (temporaries_of (old @ rest)) d = (r, d')"
  shows "r = Inl patch_failed \<and> only_new_dir (nodes d0) (nodes d') p"
proof -
  let ?items = "old @ rest"
  have ok: "items_ok (nodes d0) root ?items" and host: "same_host d0 d"
    and leads: "\<forall>it \<in> set ?items. item_leads (nodes d0) (nodes d) root it"
    using state by (auto simp: committing_def)
  obtain r1 d1 where clean: "cleanup_temporary_files (temporaries_of ?items) d = (r1, d1)" by fastforce
  note cleaned = cleaned [OF state clean orders(1)]
  obtain r2 d2 where restore: "restore_backups (backups_of ?items) d1 = (r2, d2)" by fastforce
  have host1: "same_host d0 d1" using host cleaned(2) same_host_trans by blast
  have at_place: "nodes d1 (it_place it) = nodes d (it_place it)" if "it \<in> set ?items" for it
  proof -
    have "it_place it \<notin> spots ?items" by (rule place_no_spot [OF ok that])
    then show ?thesis using cleaned(3) unfolding cleared_def by blast
  qed
  have kept: "keeps_structure (nodes d) (nodes d1)"
  proof -
    have "nodes d1 q = nodes d q" if "nodes d q = Some Dir \<or> is_link (nodes d) q" for q
    proof -
      have "q \<notin> spots ?items" using that committing_spots(1) [OF state] by (auto simp: spots_def)
      then show ?thesis using cleaned(3) unfolding cleared_def by blast
    qed
    then show ?thesis by (auto simp: keeps_structure_def)
  qed
  have "restorable (nodes d0) (nodes d1) it" if it: "it \<in> set ?items" for it
  proof -
    have item: "item_ok (nodes d0) root it" using ok it by (simp add: items_ok_def)
    have "leads_to (nodes d1) (it_path it) (it_place it)"
      using leads it leads_to_kept [OF kept] by (auto simp: item_leads_def)
    moreover have "it \<in> set old \<Longrightarrow> last (it_path it) \<noteq> ''.''"
      using state by (auto simp: committing_def replaced_paths_def)
    ultimately show ?thesis
      using at_place [OF it] it rest_place [OF state, of it] old_place [OF state, of it] item_ok_places(2) [OF item]
      by (cases "it \<in> set old"; cases "snd (it_staged it)")
         (auto simp: restorable_def only_new_dir_def is_link_def holds_file_iff)
  qed
  moreover have "calls_proceed d1" using saved(2) host1 by (simp add: calls_proceed_def same_host_def)
  moreover have order: "set (backup_order d1 (backups_of ?items)) = set (backups_of ?items)"
    using orders(2) host1 by (simp add: same_host_def)
  moreover have "\<forall>it \<in> set ?items. item_ok (nodes d0) root it \<and> saved (nodes d0) it"
    using ok saved(1) by (simp add: items_ok_def)
  ultimately have restored: "r2 = Inr () \<and> (\<forall>p. only_new_dir (nodes d0) (nodes d2) p \<or> nodes d2 p = nodes d1 p
        \<and> (\<forall>it \<in> set ?items. (it_path it, it_data it) \<in> set (backup_order d1 (backups_of ?items)) \<longrightarrow> it_place it \<noteq> p))"
    using restore_effect [of ?items "nodes d0" root d1 "backup_order d1 (backups_of ?items)" r2 d2] restore
    by (simp add: restore_backups_def)
  have "r = Inl patch_failed \<and> d' = d2"
    using run clean cleaned(1) restore restored
    by (simp add: undo_def op_bind_def op_fail_def)
  moreover have "only_new_dir (nodes d0) (nodes d2) p"
  proof (cases "only_new_dir (nodes d0) (nodes d2) p")
    case False
    moreover have "(it_path it, it_data it) \<in> set (backup_order d1 (backups_of ?items))" if "it \<in> set ?items" for it
      unfolding order using that by (auto simp: backups_of_def)
    ultimately have p: "nodes d2 p = nodes d1 p" "\<forall>it \<in> set ?items. it_place it \<noteq> p"
      using restored by blast+
    show ?thesis
    proof (cases "p \<in> spots ?items")
      case True
      then obtain it where it: "it \<in> set ?items" "written it" "p = it_spot it" by (auto simp: spots_def)
      show ?thesis
        using cleaned(4) [OF saved(2) it(1,2)] committing_spots(3) [OF state it(1,2)] p(1) it(3)
        by (simp add: only_new_dir_def)
    next
      case False
      then have "nodes d1 p = nodes d p" using cleaned(3) unfolding cleared_def by blast
      moreover have "p \<notin> it_place ` set old" using p(2) by auto
      ultimately show ?thesis
        using False p(1) state unfolding committing_def under_way_def only_new_dir_def by metis
    qed
  qed simp
  ultimately show ?thesis by simp
qed

text \<open>The calls of a commit are numbered in order.\<close>

lemma op_for_calls:
  assumes "\<And>x a d r d'. body x a d = (r, d') \<Longrightarrow> calls d \<le> calls d'"
  shows "op_for body xs a d = (r, d') \<Longrightarrow> calls d \<le> calls d'"
proof (induction xs arbitrary: a d)
  case Nil
  then show ?case by (simp add: op_return_def)
next
  case (Cons x xs)
  then have "op_bind (body x a) (op_for body xs) d = (r, d')" by simp
  then show ?case
    by (cases rule: op_bind_cases) (use assms Cons.IH in \<open>fastforce intro: le_trans\<close>)+
qed

lemma remove_calls: "fs_remove_file p d = (r, d') \<Longrightarrow> calls d \<le> calls d'"
  unfolding fs_remove_file_def by (drule system_call_host) (simp add: same_host_def)

lemma rename_calls: "fs_rename p q d = (r, d') \<Longrightarrow> calls d \<le> calls d'"
  unfolding fs_rename_def by (drule system_call_host) (simp add: same_host_def)

lemma commit_all_calls:
  assumes "commit_all root staged bs ts d = (Inr x, d')"
  shows "x = bs" "calls d \<le> calls d'"
    "\<exists>d1. op_for (commit_one root bs ts) staged () d = (Inr (), d1) \<and> cleanup_temporary_files ts d1 = (Inr (), d')"
proof -
  from assms obtain d1 where d1: "op_for (commit_one root bs ts) staged () d = (Inr (), d1)"
    "cleanup_temporary_files ts d1 = (Inr (), d')" "x = bs"
    unfolding commit_all_def by (auto elim!: op_bind_cases simp: op_return_def)
  then show "x = bs"
    "\<exists>d1. op_for (commit_one root bs ts) staged () d = (Inr (), d1) \<and> cleanup_temporary_files ts d1 = (Inr (), d')"
    by blast+
  have clean: "calls d1 \<le> calls d'"
    using d1(2) unfolding cleanup_is
    by (rule op_for_calls [rotated]) (auto dest!: remove_temporary_run remove_calls)
  have "calls d \<le> calls d1"
    using d1(1)
  proof (induction staged arbitrary: d)
    case Nil
    then show ?case by (simp add: op_return_def)
  next
    case (Cons s staged)
    then have "op_bind (commit_one root bs ts s ()) (op_for (commit_one root bs ts) staged) d = (Inr (), d1)" by simp
    then obtain d2 where d2: "commit_one root bs ts s () d = (Inr (), d2)"
      "op_for (commit_one root bs ts) staged () d2 = (Inr (), d1)"
      by (cases rule: op_bind_cases) auto
    from d2(1) obtain p z where p: "resolve_staged root s d = (Inr p, d)" "replace_one ts p (snd s) d = (Inr z, d2)"
      by (cases s)
         (auto simp: commit_one_def undo_def op_bind_def op_fail_def op_return_def resolve_staged_Inr
           split: prod.split_asm sum.split_asm)
    from p(2) have "calls d \<le> calls d2"
      by (auto simp: replace_one_def op_try_Inr split: if_split_asm option.split_asm
          dest: remove_calls rename_calls)
    then show ?case using Cons.IH [OF d2(2)] by simp
  qed
  with clean show "calls d \<le> calls d'" by simp
qed

text \<open>The state of the staged files after each half of the commit.\<close>

lemma staged_items:
  assumes "commit_ready d b root staged" "stage_all root staged d = (Inr acc, d1)" "calls d1 \<le> b"
  obtains items where "staged = map it_staged items" "committing d root [] items d1"
    "acc = (backups_of items, temporaries_of items)"
    "reads_proceed d \<longrightarrow> (\<forall>it \<in> set items. saved (nodes d) it)"
proof -
  have "distinct (map (place_of (nodes d) root) staged)"
    using assms(1) by (simp add: commit_ready_def stageable_def)
  from staging_all [OF assms(1,2) subset_refl this assms(3)] that staging_committing
  show thesis by (metis staging_def)
qed

lemma all_in_place:
  assumes "committing d0 root items [] d"
  shows "nodes d p = staged_result (nodes d0) root (map it_staged items) p
    \<or> staged_result (nodes d0) root (map it_staged items) p = None \<and> nodes d p = Some Dir"
proof -
  let ?find = "find (\<lambda>s. place_of (nodes d0) root s = Some p) (map it_staged items)"
  have ok: "items_ok (nodes d0) root items" using assms by (simp add: committing_def)
  have place: "place_of (nodes d0) root (it_staged it) = Some (it_place it)" if "it \<in> set items" for it
    using ok that by (simp add: items_ok_def item_ok_def)
  show ?thesis
  proof (cases ?find)
    case (Some s)
    then have "s \<in> set (map it_staged items)" "place_of (nodes d0) root s = Some p"
      by (auto simp: find_Some_iff)
    then obtain it where it: "it \<in> set items" "it_staged it = s" by auto
    then have "it_place it = p" using place [OF it(1)] \<open>place_of (nodes d0) root s = Some p\<close> by simp
    then show ?thesis using old_place [OF assms it(1)] Some it(2) by (simp add: staged_result_def)
  next
    case None
    then have result: "staged_result (nodes d0) root (map it_staged items) p = nodes d0 p"
      by (simp add: staged_result_def)
    have "p \<notin> it_place ` set items" using None place by (auto simp: find_None_iff)
    moreover have "p \<in> spots items \<Longrightarrow> nodes d p = None \<and> nodes d0 p = None"
      using committing_spots(3) [OF assms] assms by (auto simp: spots_def committing_def under_way_def)
    ultimately show ?thesis
      using assms result unfolding committing_def under_way_def by (metis append_Nil2)
  qed
qed

lemma committed_files:
  assumes "commit_staged_bytes root staged d = (Inr backups, d')"
    and "commit_ready d (calls d') root staged"
    and "\<forall>ts. set (temporary_order d ts) = set ts"
  shows "\<forall>p. nodes d' p = staged_result (nodes d) root staged p
    \<or> staged_result (nodes d) root staged p = None \<and> nodes d' p = Some Dir"
proof -
  from assms(1) obtain bs ts d1 where run: "stage_all root staged d = (Inr (bs, ts), d1)"
    "commit_all root staged bs ts d1 = (Inr backups, d')"
    unfolding commit_staged_bytes_def by (auto elim!: op_bind_cases)
  note commit = commit_all_calls [OF run(2)]
  obtain items where items: "staged = map it_staged items" "committing d root [] items d1"
    "(bs, ts) = (backups_of items, temporaries_of items)"
    by (rule staged_items [OF assms(2) run(1) commit(2)])
  obtain d2 where d2: "op_for (commit_one root bs ts) staged () d1 = (Inr (), d2)"
    "cleanup_temporary_files ts d2 = (Inr (), d')" using commit(3) by blast
  have "committing d root items [] d2"
    using commit_loop_outcome [OF assms(2) items(2), of bs "Inr ()" d2] d2(1) items(1,3) undo_fails
    by fastforce
  note all = this
  have "cleared items (nodes d2) (nodes d')"
    using cleaned(3) [of d root items "[]" d2] all d2(2) items(3) assms(3) by simp
  moreover have "nodes d2 p = None" if "p \<in> spots items" for p
    using all that by (auto simp: committing_def under_way_def spots_def)
  ultimately have "nodes d' p = nodes d2 p" for p unfolding cleared_def by metis
  then show ?thesis using all_in_place [OF all] items(1) by simp
qed

text \<open>
  C6.  A commit that returns has put every staged file in its place: the contents are the staged ones,
  the deleted files are gone, no temporary file is left, and nothing else changed except that the
  directories of new files were made.  This holds whatever calls the system refused on the way.
\<close>

theorem commit_writes_what_was_staged:
  assumes "commit_staged_bytes root staged d = (Inr backups, d')"
    and "commit_ready d (calls d') root staged"
    and "\<forall>ts. set (temporary_order d ts) = set ts"
  shows "\<forall>p. nodes d' p = staged_result (nodes d) root staged p
    \<or> staged_result (nodes d) root staged p = None \<and> nodes d' p = Some Dir"
  using assms by (rule committed_files)


section \<open>What an early error leaves behind\<close>

lemma plain_name_paths:
  assumes "plain_name x"
  shows "kernel_path x = [x]" "components x = [x]" "reject_unsafe_text x = Inr ()"
    "first_segment x = x"
proof -
  have *: "list_all plain_name [x]" "[x] \<noteq> []" using assms by simp_all
  show kernel: "kernel_path x = [x]" using plain_join(1) [OF *] by simp
  show "components x = [x]"
    using kernel assms undotted_kernel_path [of x] by (simp add: undotted_def plain_name_def dots_def)
  show "reject_unsafe_text x = Inr ()" using plain_text_safe [OF *] by simp
  have "BACKSLASH \<notin> set x" "CHR ''/'' \<notin> set x" using assms by (auto simp: plain_name_def)
  then show "first_segment x = x" by (simp add: first_segment_def forward_slashes_id split_on_no_sep)
qed

lemma plain_pair_paths:
  assumes "plain_name f" "plain_name y"
  shows "kernel_path (f @ CHR ''/'' # y) = [f, y]" "components (f @ CHR ''/'' # y) = [f, y]"
    "reject_unsafe_text (f @ CHR ''/'' # y) = Inr ()" "first_segment (f @ CHR ''/'' # y) = f"
proof -
  have *: "list_all plain_name [f, y]" "[f, y] \<noteq> []" "join ''/'' [f, y] = f @ CHR ''/'' # y"
    using assms by simp_all
  show kernel: "kernel_path (f @ CHR ''/'' # y) = [f, y]" using plain_join(1) [OF *(1,2)] *(3) by simp
  show "components (f @ CHR ''/'' # y) = [f, y]"
    using kernel assms undotted_kernel_path [of "f @ CHR ''/'' # y"] by (simp add: undotted_def plain_name_def dots_def)
  show "reject_unsafe_text (f @ CHR ''/'' # y) = Inr ()" using plain_text_safe [OF *(1,2)] *(3) by simp
  have "BACKSLASH \<notin> set (f @ CHR ''/'' # y)" "CHR ''/'' \<notin> set f"
    using assms by (auto simp: plain_name_def BACKSLASH_def)
  then show "first_segment (f @ CHR ''/'' # y) = f" by (simp add: first_segment_def forward_slashes_id split_on_append)
qed

lemma new_file_resolves:
  assumes "real_dir fs root" "plain_name x" "x \<notin> {''.git'', ''.github''}" "fs (root @ [x]) = None"
  shows "resolve_for_write fs root x = Inr \<lparr>rp_display = x, rp_path = root @ [x], rp_existed = False\<rparr>"
proof -
  have x: "x \<notin> dots" "BACKSLASH \<notin> set x" using assms(2) by (auto simp: plain_name_def)
  have "\<not> path_exists fs (root @ [x])"
    using canonical_real_dir [OF assms(1), of "[x]"] assms(4) x(1) by (simp add: path_exists_def dots_def)
  moreover have root: "canonicalize fs root = Some root" using assms(1) canonical_of_real by blast
  moreover have "\<not> is_symlink fs (root @ [x])" using root assms(4) by (simp add: is_symlink_def is_link_def)
  ultimately show ?thesis
    using plain_name_paths [OF assms(2)] assms(3) x(2)
    by (simp add: resolve_for_write_def reject_protected_write_path_def Let_def forward_slashes_id butlast_append)
qed

lemma below_file_resolves:
  assumes "real_dir fs root" "plain_name f" "plain_name y" "f \<notin> {''.git'', ''.github''}"
    and "fs (root @ [f]) = Some (File data)" "fs (root @ [f, y]) = None"
  shows "\<exists>r. resolve_for_write fs root (f @ CHR ''/'' # y) = Inr r \<and> rp_path r = root @ [f, y]"
proof -
  have f: "f \<notin> dots" using assms(2) by (auto simp: plain_name_def)
  have there: "canonicalize fs (root @ [f]) = Some (root @ [f])" "\<not> path_exists fs (root @ [f, y])"
    using canonical_real_dir [OF assms(1), of "[f]"] canonical_real_dir [OF assms(1), of "[f, y]"] assms(5) f
    by (simp_all add: path_exists_def dots_def)
  moreover have "\<not> is_symlink fs (root @ [f, y])"
    using there(1) assms(6) by (simp add: is_symlink_def is_link_def butlast_append)
  ultimately show ?thesis
    using plain_pair_paths [OF assms(2,3)] assms(4)
    by (simp add: resolve_for_write_def reject_protected_write_path_def Let_def butlast_append prefix_def)
qed

lemma make_below_file:
  assumes "real_dir (nodes d) root" "f \<notin> dots" "nodes d (root @ [f]) = Some (File data)"
  shows "\<exists>d'. fs_create_dir_all (root @ [f]) d = (Inl (), d') \<and> nodes d' = nodes d"
proof -
  have there: "canonicalize (nodes d) (root @ [f]) = Some (root @ [f])" "canonicalize (nodes d) root = Some root"
    using canonical_real_dir [OF assms(1), of "[f]"] assms canonical_of_real by (simp_all add: dots_def)
  have root: "is_dir (nodes d) root" using there(2) assms(1) by (simp add: is_dir_iff)
  have not_dir: "\<not> is_dir (nodes d) (root @ [f])" using there(1) assms(3) by (simp add: is_dir_iff)
  have "entry (nodes d) (root @ [f]) = Some (root @ [f])"
    using there(2) root assms(2) by (simp add: entry_def)
  then have mkdir: "\<exists>d'. fs_mkdir (root @ [f]) d = (Inl (), d') \<and> nodes d' = nodes d"
    using assms(3) by (simp add: fs_mkdir_def system_call_def Let_def)
  have "\<exists>d'. create_dirs p (cs @ [f]) d = (Inl (), d') \<and> nodes d' = nodes d" if "p @ cs = root" for p cs
    using that
  proof (induction cs arbitrary: p)
    case Nil
    then show ?case using not_dir mkdir by (auto simp: op_bind_def)
  next
    case (Cons c cs)
    then have "is_dir (nodes d) (p @ [c])" using is_dir_prefix [of "nodes d" "p @ [c]" cs] root by simp
    with Cons show ?case by simp
  qed
  from this [of "[]" root] show ?thesis by (simp add: fs_create_dir_all_def)
qed

text \<open>
  An error while directories are made leaves temporary files behind: when one staged file is new
  and the next one names a path below an existing file, which the path checks accept, the commit fails
  and the temporary file of the first stays in the workspace.
\<close>

lemma early_error_leaves_temporary_file:
  assumes "new_workspace (nodes d) given = Inr root" "tree (nodes d)" "calls_proceed d"
    and "plain_name x" "plain_name f" "plain_name y" "x \<notin> {''.git'', ''.github''}" "f \<notin> {''.git'', ''.github''}"
    and "nodes d (root @ [x]) = None" "nodes d (root @ [f]) = Some (File data)"
    and "nodes d (root @ [stage_name x (uuid_of d (calls d))]) = None"
    and "stage_name x (uuid_of d (calls d)) \<notin> {x, f}"
    and "commit_staged_bytes root [(x, Some bytes), (f @ ''/'' @ y, Some bytes2)] d = (r, d')"
  shows "r = Inl patch_failed
    \<and> nodes d' (root @ [stage_name x (uuid_of d (calls d))]) = Some (File bytes)"
proof -
  let ?spot = "root @ [stage_name x (uuid_of d (calls d))]"
  have root: "canonicalize (nodes d) root = Some root" "real_dir (nodes d) root"
    using workspace_root [OF assms(1)] by auto
  have names: "x \<notin> dots" "f \<notin> dots" using assms(4,5) by (auto simp: plain_name_def)
  have protected: "reject_protected_write_path x = Inr ()"
    "reject_protected_write_path (f @ CHR ''/'' # y) = Inr ()"
    using plain_name_paths(4) [OF assms(4)] plain_pair_paths(4) [OF assms(5,6)] assms(7,8)
    by (simp_all add: reject_protected_write_path_def)
  have path: "undotted (root @ [x]) = root @ [x]" "parent_of (root @ [x]) = root"
    "stage_path (root @ [x]) (uuid_of d (calls d)) = ?spot"
    using undotted_real [of "nodes d" root] root(2) names(1)
    by (simp_all add: parent_of_def stage_path_def file_name_of_def) (simp_all add: undotted_def dots_def)
  define d1 where "d1 = d\<lparr>calls := Suc (calls d)\<rparr>"
  obtain z d2 where wrote: "fs_write ?spot bytes d1 = (z, d2)" by fastforce
  have "leads_to (nodes d1) ?spot ?spot"
    using root stage_name_not_dots path(3) undotted_real [of "nodes d" root]
    by (simp add: leads_to_def d1_def) (simp add: undotted_def dots_def stage_name_def)
  note effect = write_place [OF wrote this leads_to_self(1) [OF this]]
  have proceeds: "outcome_of d1 (calls d1) (Write ?spot) = Proceeds"
    using calls_proceedD(1) [OF assms(3)] by (simp add: d1_def)
  have free: "nodes d1 ?spot = None" using assms(11) by (simp add: d1_def)
  then have d2: "z = Inr ()" "nodes d2 = (nodes d)(?spot \<mapsto> File bytes)"
    using effect proceeds free by (simp_all add: d1_def is_link_def)
  have first: "stage_one root (x, Some bytes) ([], []) d = (Inr ([(root @ [x], None)], [(root @ [x], ?spot)]), d2)"
  proof -
    have "resolve_staged root (x, Some bytes) d = (Inr (root @ [x]), d)"
      using new_file_resolves [OF root(2) assms(4,7) assms(9)] by (simp add: resolve_staged_Inr)
    moreover have "backup_of (root @ [x]) d = (Inr None, d)"
      using canonical_real_dir [OF root(2), of "[x]"] assms(9) names(1)
      by (simp add: backup_of_def is_file_def file_at_def dots_def)
    moreover have "fs_create_dir_all root d = (Inr (), d)"
      by (rule create_dir_all_present) (use root in \<open>simp add: is_dir_iff\<close>)
    ultimately show ?thesis
      using wrote d2(1) protected path
      by (simp add: stage_one_def stage_content_def op_bind_def op_lift_def new_uuid_def op_try_def
          op_map_err_def op_return_def d1_def)
  qed
  have kept: "real_dir (nodes d2) root" "nodes d2 (root @ [f]) = Some (File data)" "nodes d2 (root @ [f, y]) = None"
  proof -
    show "nodes d2 (root @ [f]) = Some (File data)" using assms(10,12) d2(2) by auto
    have "nodes d (root @ [f, y]) = None"
      using tree_below_file [OF assms(2), of "root @ [f]" data y] assms(10) by simp
    then show "nodes d2 (root @ [f, y]) = None" using d2(2) by simp
    have "keeps_structure (nodes d) (nodes d2)"
      using assms(11) by (auto simp: d2(2) keeps_structure_def is_link_def)
    then show "real_dir (nodes d2) root" using real_dir_kept root(2) by blast
  qed
  obtain d3 where d3: "fs_create_dir_all (root @ [f]) d2 = (Inl (), d3)" "nodes d3 = nodes d2"
    using make_below_file [OF kept(1) names(2) kept(2)] by blast
  have second: "stage_one root (f @ CHR ''/'' # y, Some bytes2) acc d2 = (Inl patch_failed, d3)" for acc
  proof -
    have "resolve_staged root (f @ CHR ''/'' # y, Some bytes2) d2 = (Inr (root @ [f, y]), d2)"
      using below_file_resolves [OF kept(1) assms(5,6) assms(8) kept(2,3)] by (auto simp: resolve_staged_Inr)
    moreover have "backup_of (root @ [f, y]) d2 = (Inr None, d2)"
      using canonical_real_dir [OF kept(1), of "[f, y]"] kept(2) names(2)
      by (simp add: backup_of_def is_file_def file_at_def dots_def)
    moreover have "parent_of (root @ [f, y]) = root @ [f]"
      using undotted_real [of "nodes d" root] root(2) names(2) assms(6)
      by (simp add: parent_of_def) (auto simp: undotted_def dots_def plain_name_def butlast_append)
    ultimately show ?thesis
      using d3(1) protected
      by (cases acc) (simp add: stage_one_def stage_content_def op_bind_def op_lift_def op_map_err_def)
  qed
  have "stage_all root [(x, Some bytes), (f @ CHR ''/'' # y, Some bytes2)] d = (Inl patch_failed, d3)"
    using first second by (simp add: stage_all_def op_bind_def)
  then show ?thesis
    using assms(13) d3(2) d2(2) by (auto simp: commit_staged_bytes_def op_bind_def)
qed

section \<open>Witnesses\<close>

text \<open>
  A sample disk: the UUID of the \<open>n\<close>-th call ends in its own letter, and the calls for which
  \<open>refused\<close> holds are refused.
\<close>

definition sample_disk :: "(call \<Rightarrow> bool) \<Rightarrow> disk" where
  "sample_disk refused =
     \<lparr>nodes = sample_fs, calls = 0, outcome_of = (\<lambda>n c. if refused c then Refused else Proceeds),
      uuid_of = (\<lambda>n. [char_of (97 + n)]), backup_order = id, temporary_order = id\<rparr>"

lemma sample_disk_simps [simp]:
  "nodes (sample_disk refused) = sample_fs" "calls (sample_disk refused) = 0"
  "uuid_of (sample_disk refused) n = [char_of (97 + n)]"
  "backup_order (sample_disk refused) = id" "temporary_order (sample_disk refused) = id"
  by (simp_all add: sample_disk_def)

definition sample_staged :: "(string \<times> string option) list" where
  "sample_staged = [(''lib/a.rs'', Some ''new''), (''src/sub/b.rs'', Some ''two'')]"

lemma sample_tree: "tree sample_fs"
proof -
  have "c \<notin> dots \<and> (p = [] \<or> sample_fs p = Some Dir)" if "sample_fs (p @ [c]) \<noteq> None" for p c
  proof -
    have "p @ [c] \<in> {[''w''], [''w'', ''src''], [''w'', ''src'', ''a.rs''], [''etc''], [''w'', ''lib''],
        [''w'', ''out''], [''w'', ''.git''], [''w'', ''.git'', ''hooks'']}"
      using that by (auto simp: sample_fs_def split: if_split_asm)
    then have "(p, c) \<in> {([], ''w''), ([''w''], ''src''), ([''w'', ''src''], ''a.rs''), ([], ''etc''), ([''w''], ''lib''),
        ([''w''], ''out''), ([''w''], ''.git''), ([''w'', ''.git''], ''hooks'')}"
      by (auto simp: append_eq_Cons_conv)
    then show ?thesis by (auto simp: sample_fs_def dots_def)
  qed
  then show ?thesis by (auto simp: tree_def)
qed

lemma stage_name_last: "last (stage_name n [c]) = c"
  by (simp add: stage_name_def)

lemma sample_unused:
  assumes "b \<le> 100" "list_all (\<lambda>s. list_all (\<lambda>c. length c \<le> 16) (kernel_path (fst s))) staged"
  shows "unused_names (sample_disk refused) b staged"
proof -
  have long: "16 < length c" if "c \<in> stage_names (sample_disk refused) b" for c
    using that by (auto simp: stage_names_def stage_name_def sample_disk_def)
  have short: "length c \<le> 16" if "sample_fs (p @ [c]) \<noteq> None" for p c
    using that by (auto simp: sample_fs_def append_eq_Cons_conv split: if_split_asm)
  have "sample_fs (p @ [c]) = None" if "c \<in> stage_names (sample_disk refused) b" for p c
    using long [OF that] short [of p c] by fastforce
  moreover have "set (kernel_path (fst s)) \<inter> stage_names (sample_disk refused) b = {}" if "s \<in> set staged" for s
    using assms(2) that long by (fastforce simp: list_all_iff)
  moreover have "stage_name n [char_of (97 + j)] \<noteq> stage_name m [char_of (97 + k)]" if "j < k" "k < b"
    for j k :: nat and n m
  proof
    assume "stage_name n [char_of (97 + j)] = stage_name m [char_of (97 + k)]"
    then have "char_of (97 + j) = (char_of (97 + k) :: char)"
      using stage_name_last [of n] stage_name_last [of m] by metis
    then have "(97 + j) mod 256 = (97 + k) mod 256" by (metis of_char_of)
    then show False using that assms(1) by simp
  qed
  ultimately show ?thesis by (auto simp: unused_names_def sample_disk_def)
qed

lemma sample_ready:
  assumes "b \<le> 100"
  shows "commit_ready (sample_disk refused) b [''w''] sample_staged"
proof -
  have "stageable sample_fs [''w''] sample_staged" by code_simp
  moreover have "canonicalize sample_fs [''w''] = Some [''w'']" "is_dir sample_fs [''w'']" by code_simp+
  moreover have "list_all (\<lambda>s. list_all (\<lambda>c. length c \<le> 16) (kernel_path (fst s))) sample_staged" by code_simp
  ultimately show ?thesis
    using sample_unused [OF assms] sample_tree by (simp add: commit_ready_def sample_disk_def)
qed

abbreviation sample_commit :: "(call \<Rightarrow> bool) \<Rightarrow> (workspace_error + backups) \<times> disk" where
  "sample_commit refused \<equiv> commit_staged_bytes [''w''] sample_staged (sample_disk refused)"

lemma commit_writes_what_was_staged_witness:
  "is_ok (fst (sample_commit (\<lambda>_. False)))
   \<and> nodes (snd (sample_commit (\<lambda>_. False))) [''w'', ''src'', ''a.rs''] = Some (File ''new'')
   \<and> nodes (snd (sample_commit (\<lambda>_. False))) [''w'', ''src'', ''sub'', ''b.rs''] = Some (File ''two'')"
proof -
  let ?run = "sample_commit (\<lambda>_. False)"
  have ok: "is_ok (fst ?run)" by code_simp
  then obtain bs d' where run: "?run = (Inr bs, d')" by (cases ?run; cases "fst ?run") (auto simp: is_ok_def)
  have "calls (snd ?run) \<le> 100" by code_simp
  then have "commit_ready (sample_disk (\<lambda>_. False)) (calls d') [''w''] sample_staged"
    using run sample_ready by simp
  note result = commit_writes_what_was_staged [OF run this]
  have "staged_result sample_fs [''w''] sample_staged [''w'', ''src'', ''a.rs''] = Some (File ''new'')"
    "staged_result sample_fs [''w''] sample_staged [''w'', ''src'', ''sub'', ''b.rs''] = Some (File ''two'')"
    by code_simp+
  moreover from result have "nodes d' p = staged_result sample_fs [''w''] sample_staged p
      \<or> staged_result sample_fs [''w''] sample_staged p = None" for p by auto
  ultimately have "nodes d' [''w'', ''src'', ''a.rs''] = Some (File ''new'')"
    "nodes d' [''w'', ''src'', ''sub'', ''b.rs''] = Some (File ''two'')" by (metis option.distinct(1))+
  then show ?thesis using ok run by simp
qed

lemma sample_places:
  "sample_fs [''w'', ''src'', ''notes''] = None" "sample_fs [''w'', ''src'', ''a.rs''] = Some (File ''fn'')"
  "sample_fs [''w'', ''src'', ''.notes.harness-stage-a''] = None"
  by (simp_all add: sample_fs_def)

definition second_rename :: "call \<Rightarrow> bool" where
  "second_rename c = (case c of Rename _ b \<Rightarrow> last b = ''b.rs'' | _ \<Rightarrow> False)"


text \<open>A file \<open>notes\<close> is new; \<open>a.rs\<close> is an existing file.\<close>

lemma early_error_leaves_temporary_file_witness:
  "is_ok (fst (stage_one [''w'', ''src''] (''notes'', Some ''one'') ([], []) (sample_disk (\<lambda>_. False))))
   \<and> nodes (snd (commit_staged_bytes [''w'', ''src''] [(''notes'', Some ''one''), (''a.rs/b'', Some ''two'')]
         (sample_disk (\<lambda>_. False)))) [''w'', ''src'', ''.notes.harness-stage-a''] = Some (File ''one'')"
proof -
  let ?d = "sample_disk (\<lambda>_. False)"
  let ?staged = "[(''notes'', Some ''one''), (''a.rs'' @ ''/'' @ ''b'', Some ''two'')]"
  obtain r d' where run: "commit_staged_bytes [''w'', ''src''] ?staged ?d = (r, d')" by fastforce
  have "new_workspace sample_fs [''w'', ''src''] = Inr [''w'', ''src'']" "plain_name ''notes''" "plain_name ''a.rs''"
    "plain_name ''b''" "stage_name ''notes'' [char_of (97::nat)] = ''.notes.harness-stage-a''" by code_simp+
  moreover have "calls_proceed ?d" by (simp add: calls_proceed_def sample_disk_def)
  ultimately have "nodes d' [''w'', ''src'', ''.notes.harness-stage-a''] = Some (File ''one'')"
    using early_error_leaves_temporary_file [of ?d "[''w'', ''src'']" "[''w'', ''src'']" "''notes''" "''a.rs''" "''b''"
        "''fn''" "''one''" "''two''" r d'] run sample_tree
    by (simp add: sample_places)
  moreover have "is_ok (fst (stage_one [''w'', ''src''] (''notes'', Some ''one'') ([], []) ?d))" by code_simp
  ultimately show ?thesis using run by simp
qed

end
