(* ===== verification/Utf8.thy ===== *)
theory Utf8
  imports Rust_Str
begin

text \<open>
  UTF-8 as \<open>std::str::from_utf8\<close> checks it: which bytes make a character, what an error reports,
  and what the lossy conversions put in place of broken bytes.
\<close>

section \<open>Characters\<close>

text \<open>
  The first character of a non-empty byte sequence: its length, or that the sequence ends inside
  it, or how many bytes of it are malformed.
\<close>

datatype utf8_part = Complete nat | Incomplete | Malformed nat

definition continuation :: "char \<Rightarrow> bool" where
  "continuation b \<longleftrightarrow> 0x80 \<le> code b \<and> code b \<le> 0xBF"

definition utf8_width :: "char \<Rightarrow> nat" where
  "utf8_width b =
     (if code b < 0x80 then 1
      else if 0xC2 \<le> code b \<and> code b \<le> 0xDF then 2
      else if 0xE0 \<le> code b \<and> code b \<le> 0xEF then 3
      else if 0xF0 \<le> code b \<and> code b \<le> 0xF4 then 4 else 0)"

text \<open>The second byte is restricted after some first bytes (overlong forms, surrogates, range).\<close>

definition second_ok :: "char \<Rightarrow> char \<Rightarrow> bool" where
  "second_ok a b \<longleftrightarrow> continuation b
     \<and> (code a = 0xE0 \<longrightarrow> 0xA0 \<le> code b) \<and> (code a = 0xED \<longrightarrow> code b \<le> 0x9F)
     \<and> (code a = 0xF0 \<longrightarrow> 0x90 \<le> code b) \<and> (code a = 0xF4 \<longrightarrow> code b \<le> 0x8F)"

fun utf8_head :: "string \<Rightarrow> utf8_part" where
  "utf8_head [] = Incomplete"
| "utf8_head (a # r) =
     (let w = utf8_width a in
      if w = 0 then Malformed 1 else if w = 1 then Complete 1
      else case r of [] \<Rightarrow> Incomplete
        | b # r' \<Rightarrow> if \<not> second_ok a b then Malformed 1 else if w = 2 then Complete 2
          else (case r' of [] \<Rightarrow> Incomplete
            | c # r'' \<Rightarrow> if \<not> continuation c then Malformed 2 else if w = 3 then Complete 3
              else (case r'' of [] \<Rightarrow> Incomplete
                | d # _ \<Rightarrow> if \<not> continuation d then Malformed 3 else Complete 4)))"

lemma utf8_head_bounds:
  "utf8_head s = Complete n \<Longrightarrow> 0 < n \<and> n \<le> 4 \<and> n \<le> length s"
  "utf8_head s = Malformed n \<Longrightarrow> 0 < n \<and> n \<le> 3 \<and> n \<le> length s"
  by (cases s; auto simp: Let_def split: if_splits list.splits)+

text \<open>\<open>Utf8Error\<close>: the length of the valid part and, unless the input only ends too early, of the fault.\<close>

datatype utf8_error = Utf8Error (valid_up_to: nat) (error_len: "nat option")

function from_utf8 :: "string \<Rightarrow> utf8_error option" where
  "from_utf8 s =
     (if s = [] then None
      else case utf8_head s of
        Incomplete \<Rightarrow> Some (Utf8Error 0 None)
      | Malformed n \<Rightarrow> Some (Utf8Error 0 (Some n))
      | Complete n \<Rightarrow> map_option (\<lambda>e. Utf8Error (n + valid_up_to e) (error_len e)) (from_utf8 (drop n s)))"
  by pat_completeness auto
termination
  by (relation "measure length") (auto dest: utf8_head_bounds)

declare from_utf8.simps [simp del]

definition REPLACEMENT :: string where
  "REPLACEMENT = [char_of (0xEF::nat), char_of (0xBF::nat), char_of (0xBD::nat)]"

text \<open>\<open>String::from_utf8_lossy\<close>: every malformed part, and an unfinished end, becomes U+FFFD.\<close>

function from_utf8_lossy :: "string \<Rightarrow> string" where
  "from_utf8_lossy s =
     (if s = [] then []
      else case utf8_head s of
        Incomplete \<Rightarrow> REPLACEMENT
      | Malformed n \<Rightarrow> REPLACEMENT @ from_utf8_lossy (drop n s)
      | Complete n \<Rightarrow> take n s @ from_utf8_lossy (drop n s))"
  by pat_completeness auto
termination
  by (relation "measure length") (auto dest: utf8_head_bounds)

declare from_utf8_lossy.simps [simp del]

section \<open>Texts\<close>

definition utf8_char :: "string \<Rightarrow> bool" where
  "utf8_char c \<longleftrightarrow> utf8_head c = Complete (length c)"

text \<open>A text is a sequence of characters; an unfinished one also has the beginning of a character.\<close>

definition utf8_text :: "string \<Rightarrow> bool" where
  "utf8_text s \<longleftrightarrow> (\<exists>cs. s = concat cs \<and> list_all utf8_char cs)"

definition unfinished :: "string \<Rightarrow> bool" where
  "unfinished p \<longleftrightarrow> (\<exists>q. q \<noteq> [] \<and> utf8_char (p @ q))"

lemma utf8_char_shape:
  assumes "utf8_char c"
  obtains a r where "c = a # r" "\<not> continuation a" "list_all continuation r" "length r < 4"
proof -
  from assms obtain a r where c: "c = a # r" by (cases c) (auto simp: utf8_char_def)
  have "\<not> continuation a"
    using assms c by (auto simp: utf8_char_def utf8_width_def continuation_def Let_def split: if_splits)
  moreover have "list_all continuation r \<and> length r < 4"
    using assms c
    by (auto simp: utf8_char_def Let_def second_ok_def split: if_splits list.splits)
  ultimately show ?thesis using that c by blast
qed

lemma utf8_head_append: "utf8_head s = Complete n \<Longrightarrow> utf8_head (s @ r) = Complete n"
  by (cases s) (auto simp: Let_def split: if_splits list.splits)

lemma utf8_head_malformed: "utf8_head s = Malformed n \<Longrightarrow> utf8_head (s @ r) = Malformed n"
  by (cases s) (auto simp: Let_def split: if_splits list.splits)

lemma utf8_char_append: "utf8_char c \<Longrightarrow> utf8_head (c @ r) = Complete (length c)"
  by (simp add: utf8_char_def utf8_head_append)

lemma utf8_head_take: "utf8_head s = Complete n \<Longrightarrow> utf8_char (take n s)"
  unfolding utf8_char_def
  by (cases s) (auto simp: Let_def eq_commute [of "Suc 0"] split: if_splits list.splits)

lemma utf8_head_unfinished:
  assumes "unfinished p" "p \<noteq> []"
  shows "utf8_head p = Incomplete"
proof -
  from assms(1) obtain q where q: "q \<noteq> []" "utf8_head (p @ q) = Complete (length p + length q)"
    by (auto simp: unfinished_def utf8_char_def)
  show ?thesis
  proof (cases "utf8_head p")
    case (Complete n)
    with q show ?thesis using utf8_head_append [OF Complete, of q] utf8_head_bounds(1) [OF Complete] by simp
  next
    case (Malformed n)
    with q utf8_head_malformed [OF Malformed, of q] show ?thesis by simp
  qed
qed

lemma continuation_head: "continuation a \<Longrightarrow> utf8_head (a # r) = Malformed 1"
  by (auto simp: continuation_def utf8_width_def Let_def)

lemma from_utf8_text:
  assumes "list_all utf8_char cs" "unfinished p"
  shows "from_utf8 (concat cs @ p) = (if p = [] then None else Some (Utf8Error (length (concat cs)) None))"
  using assms(1)
proof (induction cs)
  case Nil
  then show ?case using utf8_head_unfinished [OF assms(2)] by (simp add: from_utf8.simps [of p])
next
  case (Cons c cs)
  then have "utf8_head (concat (c # cs) @ p) = Complete (length c)" "c \<noteq> []"
    using utf8_char_append [of c "concat cs @ p"] utf8_head_bounds(1) [of c] by (auto simp: utf8_char_def)
  with Cons show ?case by (simp add: from_utf8.simps [of "c @ concat cs @ p"])
qed

lemma from_utf8_lossy_text: "list_all utf8_char cs \<Longrightarrow> from_utf8_lossy (concat cs) = concat cs"
proof (induction cs)
  case Nil
  then show ?case by (simp add: from_utf8_lossy.simps)
next
  case (Cons c cs)
  then have "utf8_head (c @ concat cs) = Complete (length c)" "c \<noteq> []"
    using utf8_char_append [of c "concat cs"] utf8_head_bounds(1) [of c] by (auto simp: utf8_char_def)
  with Cons show ?case by (simp add: from_utf8_lossy.simps [of "c @ concat cs"])
qed

lemma unfinished_Nil [simp]: "unfinished []"
  unfolding unfinished_def by (rule exI [of _ "''a''"]) code_simp

lemma utf8_parse_unique:
  assumes "concat cs @ x = concat ds @ p" "list_all utf8_char cs" "list_all utf8_char ds" "unfinished p"
  shows "\<exists>es. ds = cs @ es \<and> x = concat es @ p"
  using assms(1-3)
proof (induction cs arbitrary: ds)
  case (Cons c cs)
  then have head: "utf8_head (concat ds @ p) = Complete (length c)" and c: "c \<noteq> []"
    using utf8_char_append [of c "concat cs @ x"] utf8_head_bounds(1) [of c] by (auto simp: utf8_char_def)
  obtain d ds' where ds: "ds = d # ds'"
  proof (cases ds)
    case Nil
    with head have "utf8_head p = Complete (length c)" by simp
    then show ?thesis using utf8_head_unfinished [OF assms(4)] utf8_head_bounds(1) [of p] by (cases "p = []") auto
  qed blast
  with Cons.prems head have "length d = length c"
    using utf8_char_append [of d "concat ds' @ p"] by simp
  with Cons.prems ds have "d = c" "concat cs @ x = concat ds' @ p" by auto
  with Cons ds show ?case by auto
qed (use assms in auto)

lemma utf8_char_prefix_unfinished: "utf8_char (p @ q) \<Longrightarrow> q \<noteq> [] \<Longrightarrow> unfinished p"
  by (auto simp: unfinished_def)

text \<open>What a process has written so far of a text.\<close>

definition partial_text :: "string \<Rightarrow> bool" where
  "partial_text s \<longleftrightarrow> (\<exists>cs p. s = concat cs @ p \<and> list_all utf8_char cs \<and> unfinished p)"

definition complete_text :: "string \<Rightarrow> string" where
  "complete_text s = (case from_utf8 s of None \<Rightarrow> s | Some e \<Rightarrow> take (valid_up_to e) s)"

definition pending_bytes :: "string \<Rightarrow> string" where
  "pending_bytes s = drop (length (complete_text s)) s"

lemma partial_textE:
  assumes "partial_text s"
  obtains cs p where "s = concat cs @ p" "list_all utf8_char cs" "unfinished p"
    "complete_text s = concat cs" "pending_bytes s = p"
proof -
  from assms obtain cs p where s: "s = concat cs @ p" "list_all utf8_char cs" "unfinished p"
    by (auto simp: partial_text_def)
  then have "complete_text s = concat cs" by (simp add: complete_text_def from_utf8_text)
  with s show ?thesis using that by (simp add: pending_bytes_def)
qed

lemma utf8_prefix_partial: "list_all utf8_char cs \<Longrightarrow> concat cs = s @ r \<Longrightarrow> partial_text s"
proof (induction cs arbitrary: s)
  case (Cons c cs)
  from Cons.prems(2) have "c @ concat cs = s @ r" by simp
  then consider us where "c = s @ us" "us \<noteq> []" | us where "s = c @ us" "concat cs = us @ r"
    unfolding append_eq_append_conv2 by (metis append_Nil append_Nil2)
  then show ?case
  proof cases
    case 1
    then have "unfinished s" using Cons.prems(1) utf8_char_prefix_unfinished by auto
    then have "s = concat [] @ s \<and> list_all utf8_char [] \<and> unfinished s" by simp
    then show ?thesis unfolding partial_text_def by blast
  next
    case 2
    then obtain ds p where "us = concat ds @ p" "list_all utf8_char ds" "unfinished p"
      using Cons by (auto simp: partial_text_def)
    then show ?thesis using 2 Cons.prems(1) unfolding partial_text_def by (intro exI [of _ "c # ds"]) auto
  qed
qed (auto simp: partial_text_def intro!: exI [of _ "[]"])

lemma text_suffix:
  assumes "list_all utf8_char cs" "concat cs = y @ b # x"
  shows "continuation b \<or> (\<exists>ds es. cs = ds @ es \<and> b # x = concat es)"
  using assms
proof (induction cs arbitrary: y)
  case (Cons c cs)
  from Cons.prems(1) obtain a r where c: "c = a # r" "list_all continuation r"
    by (auto elim: utf8_char_shape)
  from Cons.prems(2) have "c @ concat cs = y @ b # x" by simp
  then consider "y = []" | us where "y = c @ us" "concat cs = us @ b # x"
    | us where "c = y @ b # us" "y \<noteq> []"
    unfolding append_eq_append_conv2 append_eq_Cons_conv by (metis append_Nil append_Nil2)
  then show ?case
  proof cases
    case 1
    then have "c # cs = [] @ (c # cs) \<and> b # x = concat (c # cs)" using Cons.prems(2) by simp
    then show ?thesis by blast
  next
    case 2
    with Cons consider "continuation b" | ds es where "cs = ds @ es" "b # x = concat es" by auto
    then show ?thesis by cases (simp, metis append_Cons)
  next
    case 3
    then have "b \<in> set r" using c(1) by (cases y) auto
    then show ?thesis using c(2) by (auto simp: list_all_iff)
  qed
qed simp

end
