(* ===== verification/Edit_Match.thy ===== *)
theory Edit_Match
  imports Utf8 Json
begin

text \<open>
  Finding the places an edit names (\<open>tools/patch/precise_edit.rs\<close>): exact text up to line endings, text
  up to white space, the context around it and line numbers.  Offsets are byte offsets.  The
  \<open>regex\<close> crate is the record \<open>regex_lib\<close>; an index that is not at a character boundary makes Rust
  panic, which is the error \<open>Panics\<close>.
\<close>

section \<open>Errors\<close>

datatype issue_reason =
    EditMustBeObject | TypeRequired | UnsupportedType | UnexpectedField string "string list"
  | MissingRequiredField string | FieldMustBeNonEmpty string | FieldMustBeString string
  | InvalidEnumValue string | FieldMustBePositiveInteger string | LineRangePairRequired
  | LineRangeOrderInvalid nat nat

text \<open>An issue names the edit, and its type when that was read.\<close>

type_synonym issue = "nat \<times> string option \<times> issue_reason"

record candidate_context =
  cc_start_line :: nat
  cc_end_line :: nat
  cc_context_start_line :: nat
  cc_context_end_line :: nat
  cc_preview :: "string list"

record match_mismatch =
  mm_edit_index :: nat
  mm_expected_occurrences :: nat
  mm_actual_occurrences :: nat
  mm_candidate_lines :: "nat list"
  mm_candidate_ranges :: "(nat \<times> nat) list"
  mm_candidate_contexts :: "candidate_context list"

record line_ending_change =
  le_before_line :: nat
  le_after_line :: nat
  le_before_eol :: string
  le_after_eol :: string

datatype newline_kind = NoNewline | OnlyLf | OnlyCrlf | MixedNewlines

record blast_radius =
  br_before_line_count :: nat
  br_after_line_count :: nat
  br_changed_before_lines :: nat
  br_changed_after_lines :: nat
  br_changed_line_count :: nat
  br_expected_budget :: nat
  br_allowed :: nat
  br_bounded_diff :: bool
  br_span_changed :: nat
  br_excessive :: bool

datatype edit_error =
    InvalidArgument
  | ContractInvalid "issue list"
  | ExpectedTextMismatch nat nat nat string
  | MatchCountMismatch match_mismatch
  | RangesOverlap nat nat "nat \<times> nat" "nat \<times> nat"
  | LineRangeInvalid nat nat nat nat
  | NewlineChurn string newline_kind newline_kind nat "line_ending_change list"
  | BlastRadius string blast_radius
  | Panics

section \<open>Searching\<close>

text \<open>\<open>match_indices\<close> for a target that is not empty: from the left, without overlaps.\<close>

function match_indices :: "string \<Rightarrow> string \<Rightarrow> nat \<Rightarrow> nat list" where
  "match_indices target [] k = []"
| "match_indices target (c # cs) k =
     (if starts_with (c # cs) target
      then k # match_indices target (drop (length target - 1) cs) (k + max 1 (length target))
      else match_indices target cs (k + 1))"
  by pat_completeness auto
termination by (relation "measure (\<lambda>(target, s, k). length s)") (auto simp: le_imp_less_Suc)

text \<open>The normalised text and where each of its boundaries was.\<close>

fun normalize_from :: "string \<Rightarrow> nat \<Rightarrow> string \<times> nat list" where
  "normalize_from (a # b # s) i =
     (if a = CR \<and> b = LF
      then (let (t, bs) = normalize_from s (i + 2) in (LF # t, (i + 2) # bs))
      else (let (t, bs) = normalize_from (b # s) (i + 1) in (a # t, (i + 1) # bs)))"
| "normalize_from [a] i = ([a], [i + 1])"
| "normalize_from [] i = ([], [])"

definition normalize_newlines_with_boundary_map :: "string \<Rightarrow> string \<times> nat list" where
  "normalize_newlines_with_boundary_map value =
     (let (t, bs) = normalize_from value 0 in (t, 0 # bs))"

abbreviation normalize_newlines :: "string \<Rightarrow> string" where
  "normalize_newlines \<equiv> normalize_crlf"

definition exact_text_candidates :: "string \<Rightarrow> string \<Rightarrow> nat \<times> nat \<Rightarrow> (nat \<times> nat) list" where
  "exact_text_candidates original target search_range =
     (let haystack = take (snd search_range - fst search_range) (drop (fst search_range) original)
      in if LF \<notin> set target
         then map (\<lambda>offset. let start = fst search_range + offset in (start, start + length target))
                (match_indices target haystack 0)
         else
           let normalized_target = normalize_newlines target;
               (normalized_haystack, original_boundaries) = normalize_newlines_with_boundary_map haystack
           in map (\<lambda>start. (fst search_range + original_boundaries ! start,
                            fst search_range + original_boundaries ! (start + length normalized_target)))
                (match_indices normalized_target normalized_haystack 0))"

section \<open>White space\<close>

text \<open>\<open>find_iter\<close> and \<open>is_match\<close> give nothing when the pattern does not compile.\<close>

record regex_lib =
  rx_escape :: "string \<Rightarrow> string"
  rx_find_iter :: "string \<Rightarrow> string \<Rightarrow> (nat \<times> nat) list option"
  rx_is_match :: "string \<Rightarrow> string \<Rightarrow> bool option"

definition is_whitespace :: "string \<Rightarrow> bool" where
  "is_whitespace c \<longleftrightarrow> 0 < ws_len c"

text \<open>The loop over the characters; the accumulator is \<open>(pattern, literal, in_whitespace)\<close>.\<close>

definition flush_literal :: "regex_lib \<Rightarrow> string \<Rightarrow> string \<Rightarrow> string" where
  "flush_literal rx pat literal = (if literal \<noteq> [] then pat @ rx_escape rx literal else pat)"

definition SPACES :: string where "SPACES = [CHR 0x5C, CHR ''s'', CHR ''+'']"

fun pattern_step :: "regex_lib \<Rightarrow> string \<times> string \<times> bool \<Rightarrow> string \<Rightarrow> string \<times> string \<times> bool" where
  "pattern_step rx (pat, literal, in_whitespace) c =
     (if is_whitespace c
      then (flush_literal rx pat literal @ (if in_whitespace then [] else SPACES), [], True)
      else (pat, literal @ c, False))"

definition whitespace_flexible_pattern :: "regex_lib \<Rightarrow> string \<Rightarrow> string" where
  "whitespace_flexible_pattern rx target =
     (let (pat, literal, _) = foldl (pattern_step rx) ([], [], False) (chars_of target)
      in flush_literal rx pat literal)"

definition whitespace_text_candidates ::
    "regex_lib \<Rightarrow> string \<Rightarrow> string \<Rightarrow> nat \<times> nat \<Rightarrow> edit_error + (nat \<times> nat) list" where
  "whitespace_text_candidates rx original target search_range =
     (case rx_find_iter rx (whitespace_flexible_pattern rx target)
             (take (snd search_range - fst search_range) (drop (fst search_range) original)) of
        None \<Rightarrow> Inl InvalidArgument
      | Some found \<Rightarrow> Inr (map (\<lambda>(s, e). (fst search_range + s, fst search_range + e)) found))"

section \<open>Context\<close>

text \<open>The loops run from the end of the text before and from the start of the text after.\<close>

fun suffix_loop :: "string \<Rightarrow> string \<Rightarrow> bool" where
  "suffix_loop hay [] = True"
| "suffix_loop hay (e # es) =
     (if e = LF
      then (case hay of
              b # a # rest \<Rightarrow>
                if a = CR \<and> b = LF then suffix_loop rest es
                else if b = LF then suffix_loop (a # rest) es else False
            | [b] \<Rightarrow> if b = LF then suffix_loop [] es else False
            | [] \<Rightarrow> False)
      else (case hay of b # rest \<Rightarrow> if b = e then suffix_loop rest es else False | [] \<Rightarrow> False))"

definition newline_flexible_suffix_matches :: "string \<Rightarrow> string \<Rightarrow> bool" where
  "newline_flexible_suffix_matches haystack expected =
     (if LF \<notin> set expected then ends_with haystack expected
      else suffix_loop (rev haystack) (rev (normalize_newlines expected)))"

fun prefix_loop :: "string \<Rightarrow> string \<Rightarrow> bool" where
  "prefix_loop hay [] = True"
| "prefix_loop hay (e # es) =
     (if e = LF
      then (case hay of
              a # b # rest \<Rightarrow>
                if a = CR \<and> b = LF then prefix_loop rest es
                else if a = LF then prefix_loop (b # rest) es else False
            | [a] \<Rightarrow> if a = LF then prefix_loop [] es else False
            | [] \<Rightarrow> False)
      else (case hay of a # rest \<Rightarrow> if a = e then prefix_loop rest es else False | [] \<Rightarrow> False))"

definition newline_flexible_prefix_matches :: "string \<Rightarrow> string \<Rightarrow> bool" where
  "newline_flexible_prefix_matches haystack expected =
     (if LF \<notin> set expected then starts_with haystack expected
      else prefix_loop haystack (normalize_newlines expected))"

definition flexible_suffix_matches :: "regex_lib \<Rightarrow> string \<Rightarrow> string \<Rightarrow> bool" where
  "flexible_suffix_matches rx haystack expected =
     (rx_is_match rx (''(?:'' @ whitespace_flexible_pattern rx expected @ '')$'') haystack = Some True)"

definition flexible_prefix_matches :: "regex_lib \<Rightarrow> string \<Rightarrow> string \<Rightarrow> bool" where
  "flexible_prefix_matches rx haystack expected =
     (rx_is_match rx (''^(?:'' @ whitespace_flexible_pattern rx expected @ '')'') haystack = Some True)"

definition context_matches ::
    "regex_lib \<Rightarrow> string \<Rightarrow> nat \<Rightarrow> nat \<Rightarrow> string option \<Rightarrow> string option \<Rightarrow> string \<Rightarrow> bool" where
  "context_matches rx original start end_byte before_context after_context match_mode =
     ((case before_context of None \<Rightarrow> True | Some before \<Rightarrow>
         (if match_mode = ''whitespace'' then flexible_suffix_matches rx else newline_flexible_suffix_matches)
           (take start original) before)
      \<and> (case after_context of None \<Rightarrow> True | Some after \<Rightarrow>
         (if match_mode = ''whitespace'' then flexible_prefix_matches rx else newline_flexible_prefix_matches)
           (drop end_byte original) after))"

section \<open>Lines\<close>

definition is_char_boundary :: "string \<Rightarrow> nat \<Rightarrow> bool" where
  "is_char_boundary s i \<longleftrightarrow> i = 0 \<or> i = length s \<or> i < length s \<and> \<not> continuation (s ! i)"

text \<open>\<open>content[..byte]\<close> panics when \<open>byte\<close> is inside a character.\<close>

definition byte_to_line :: "string \<Rightarrow> nat \<Rightarrow> edit_error + nat" where
  "byte_to_line content byte =
     (if is_char_boundary content byte
      then Inr (length (filter (\<lambda>b. b = LF) (take byte content)) + 1) else Inl Panics)"

fun map_res :: "('a \<Rightarrow> 'e + 'b) \<Rightarrow> 'a list \<Rightarrow> 'e + 'b list" where
  "map_res f [] = Inr []"
| "map_res f (x # xs) = and_then (f x) (\<lambda>y. and_then (map_res f xs) (\<lambda>ys. Inr (y # ys)))"

definition candidate_range :: "string \<Rightarrow> nat \<times> nat \<Rightarrow> edit_error + nat \<times> nat" where
  "candidate_range original c =
     and_then (byte_to_line original (fst c)) (\<lambda>a.
     and_then (byte_to_line original (snd c - 1)) (\<lambda>b. Inr (a, b)))"

definition text_candidate_context ::
    "string \<Rightarrow> nat \<Rightarrow> nat \<times> nat \<Rightarrow> edit_error + candidate_context" where
  "text_candidate_context original radius c =
     (let ls = map strip_suffix_cr (split_on LF original)
      in and_then (candidate_range original c) (\<lambda>(match_start, match_end).
         let context_start = max (match_start - radius) 1;
             context_end = min (sat_add match_end radius) (length ls)
         in Inr \<lparr>cc_start_line = match_start, cc_end_line = match_end,
                 cc_context_start_line = context_start, cc_context_end_line = context_end,
                 cc_preview = take (context_end - (context_start - 1)) (drop (context_start - 1) ls)\<rparr>))"

definition text_candidate_contexts ::
    "string \<Rightarrow> (nat \<times> nat) list \<Rightarrow> nat \<Rightarrow> edit_error + candidate_context list" where
  "text_candidate_contexts original candidates radius =
     map_res (text_candidate_context original radius) (take 8 candidates)"

fun line_starts :: "nat \<Rightarrow> string \<Rightarrow> nat list" where
  "line_starts i [] = []"
| "line_starts i (b # bs) = (if b = LF then (i + 1) # line_starts (i + 1) bs else line_starts (i + 1) bs)"

definition line_range_bytes :: "string \<Rightarrow> nat \<Rightarrow> nat \<Rightarrow> nat \<Rightarrow> edit_error + nat \<times> nat" where
  "line_range_bytes content start_line end_line edit_index =
     (let starts = 0 # line_starts 0 content;
          total_lines = length starts
      in if start_line = 0 \<or> start_line > end_line \<or> end_line > total_lines
         then Inl (LineRangeInvalid edit_index start_line end_line total_lines)
         else Inr (starts ! (start_line - 1),
                   if end_line < total_lines then starts ! end_line else length content))"

section \<open>The targets of a text edit\<close>

definition expected_occurrences :: "json \<Rightarrow> nat" where
  "expected_occurrences edit = max (case get_u64 edit ''expected_occurrences'' of Some n \<Rightarrow> n | None \<Rightarrow> 1) 1"

definition match_count_error :: "string \<Rightarrow> nat \<Rightarrow> nat \<Rightarrow> (nat \<times> nat) list \<Rightarrow> edit_error" where
  "match_count_error original index expected candidates =
     (case and_then (map_res (\<lambda>c. byte_to_line original (fst c)) candidates) (\<lambda>ls.
           and_then (map_res (candidate_range original) candidates) (\<lambda>ranges.
           and_then (text_candidate_contexts original candidates 3) (\<lambda>contexts.
             Inr \<lparr>mm_edit_index = index, mm_expected_occurrences = expected,
                  mm_actual_occurrences = length candidates, mm_candidate_lines = ls,
                  mm_candidate_ranges = ranges, mm_candidate_contexts = contexts\<rparr>))) of
        Inl e \<Rightarrow> e
      | Inr m \<Rightarrow> MatchCountMismatch m)"

definition search_range :: "string \<Rightarrow> json \<Rightarrow> nat \<Rightarrow> edit_error + nat \<times> nat" where
  "search_range original edit index =
     (case (get_u64 edit ''start_line'', get_u64 edit ''end_line'') of
        (None, None) \<Rightarrow> Inr (0, length original)
      | (Some a, Some b) \<Rightarrow> line_range_bytes original a b index
      | _ \<Rightarrow> Inl InvalidArgument)"

definition text_candidates ::
    "regex_lib \<Rightarrow> string \<Rightarrow> string \<Rightarrow> nat \<times> nat \<Rightarrow> string \<Rightarrow> edit_error + (nat \<times> nat) list" where
  "text_candidates rx original target bounds match_mode =
     (if match_mode = ''exact'' then Inr (exact_text_candidates original target bounds)
      else if match_mode = ''whitespace'' then whitespace_text_candidates rx original target bounds
      else Inl InvalidArgument)"

definition resolve_text_targets ::
    "regex_lib \<Rightarrow> string \<Rightarrow> json \<Rightarrow> string \<Rightarrow> nat \<Rightarrow> edit_error + (nat \<times> nat) list" where
  "resolve_text_targets rx original edit target index =
     (let before_context = get_str edit ''before_context'';
          after_context = get_str edit ''after_context'';
          match_mode = (case get_str edit ''match_mode'' of Some m \<Rightarrow> m | None \<Rightarrow> ''exact'')
      in and_then (search_range original edit index) (\<lambda>bounds.
         and_then (text_candidates rx original target bounds match_mode) (\<lambda>found.
         let candidates = filter (\<lambda>(s, e).
               context_matches rx original s e before_context after_context match_mode) found;
             expected = expected_occurrences edit
         in if length candidates \<noteq> expected
            then Inl (match_count_error original index expected candidates)
            else Inr candidates)))"

end
