(* ===== verification/Precise_Edit.thy ===== *)
theory Precise_Edit
  imports Edit_Match "HOL-Library.Product_Lexorder"
begin

text \<open>
  Precise edits (\<open>tools/patch/precise_edit.rs\<close>): checking the contract of the edits of one file,
  resolving each to byte ranges of the original text, and applying them all at once.
\<close>

section \<open>The contract\<close>

definition text_fields :: "string list" where
  "text_fields = [''type'', ''old_text'', ''new_text'', ''match_mode'', ''before_context'', ''after_context'',
     ''expected_occurrences'', ''start_line'', ''end_line'']"

definition insert_fields :: "string list" where
  "insert_fields = [''type'', ''anchor'', ''text'', ''match_mode'', ''before_context'', ''after_context'',
     ''expected_occurrences'', ''start_line'', ''end_line'']"

text \<open>Per type: the allowed fields, the required ones, and the texts that must not be empty.\<close>

definition edit_fields :: "string \<Rightarrow> (string list \<times> string list \<times> string list) option" where
  "edit_fields edit_type =
     (if edit_type = ''replace''
      then Some (text_fields, [''type'', ''old_text'', ''new_text''], [''old_text''])
      else if edit_type = ''insert_before'' \<or> edit_type = ''insert_after''
      then Some (insert_fields, [''type'', ''anchor'', ''text''], [''anchor'', ''text''])
      else if edit_type = ''replace_lines''
      then Some ([''type'', ''start_line'', ''end_line'', ''new_text'', ''expected_text''],
                 [''type'', ''start_line'', ''end_line'', ''new_text''], [])
      else if edit_type = ''delete_lines''
      then Some ([''type'', ''start_line'', ''end_line'', ''expected_text''],
                 [''type'', ''start_line'', ''end_line''], [])
      else None)"

definition STRING_FIELDS :: "string list" where
  "STRING_FIELDS =
     [''old_text'', ''new_text'', ''anchor'', ''text'', ''expected_text'', ''before_context'', ''after_context'']"

definition string_field_issue :: "(string \<times> json) list \<Rightarrow> string list \<Rightarrow> string \<Rightarrow> issue_reason list" where
  "string_field_issue object non_empty field =
     (case map_of object field of
        None \<Rightarrow> []
      | Some v \<Rightarrow> (case as_str v of
            Some t \<Rightarrow> if field \<in> set non_empty \<and> t = [] then [FieldMustBeNonEmpty field] else []
          | None \<Rightarrow> [FieldMustBeString field]))"

definition positive_issue :: "(string \<times> json) list \<Rightarrow> string \<Rightarrow> issue_reason list" where
  "positive_issue object field =
     (case map_of object field of
        None \<Rightarrow> []
      | Some v \<Rightarrow> (case as_u64 v of
            Some n \<Rightarrow> if n = 0 then [FieldMustBePositiveInteger field] else []
          | None \<Rightarrow> [FieldMustBePositiveInteger field]))"

definition field_issues :: "(string \<times> json) list \<Rightarrow> string \<Rightarrow> string list \<times> string list \<times> string list
    \<Rightarrow> issue_reason list" where
  "field_issues object edit_type rules =
     (case rules of (allowed, required, non_empty) \<Rightarrow>
        map (\<lambda>k. UnexpectedField k allowed) (filter (\<lambda>k. k \<notin> set allowed) (map fst object))
        @ map MissingRequiredField (filter (\<lambda>f. map_of object f = None) required)
        @ concat (map (string_field_issue object non_empty) STRING_FIELDS)
        @ (case map_of object ''match_mode'' of
             None \<Rightarrow> []
           | Some v \<Rightarrow> if as_str v = Some ''exact'' \<or> as_str v = Some ''whitespace'' then []
                       else [InvalidEnumValue ''match_mode''])
        @ positive_issue object ''expected_occurrences''
        @ positive_issue object ''start_line'' @ positive_issue object ''end_line''
        @ (if edit_type \<in> {''replace'', ''insert_before'', ''insert_after''}
             \<and> (map_of object ''start_line'' \<noteq> None) \<noteq> (map_of object ''end_line'' \<noteq> None)
           then [LineRangePairRequired] else [])
        @ (case (Option.bind (map_of object ''start_line'') as_u64, Option.bind (map_of object ''end_line'') as_u64) of
             (Some a, Some b) \<Rightarrow> if b < a then [LineRangeOrderInvalid a b] else []
           | _ \<Rightarrow> []))"

definition edit_issues :: "nat \<times> json \<Rightarrow> issue list" where
  "edit_issues indexed =
     (case indexed of (edit_index, edit) \<Rightarrow>
        case as_object edit of
          None \<Rightarrow> [(edit_index, None, EditMustBeObject)]
        | Some object \<Rightarrow>
            (case Option.bind (map_of object ''type'') as_str of
               None \<Rightarrow> [(edit_index, None, TypeRequired)]
             | Some edit_type \<Rightarrow>
                 (case edit_fields edit_type of
                    None \<Rightarrow> [(edit_index, Some edit_type, UnsupportedType)]
                  | Some rules \<Rightarrow>
                      map (\<lambda>r. (edit_index, Some edit_type, r)) (field_issues object edit_type rules))))"

definition validate_precise_edit_contract :: "json list \<Rightarrow> edit_error + unit" where
  "validate_precise_edit_contract edits =
     (let issues = concat (map edit_issues (enumerate 0 edits))
      in if issues = [] then Inr () else Inl (ContractInvalid issues))"

section \<open>Line endings\<close>

definition newline_at :: "string \<Rightarrow> nat \<Rightarrow> string" where
  "newline_at value newline_index =
     (if newline_index > 0 \<and> value ! (newline_index - 1) = CR then [CR, LF] else [LF])"

fun position :: "('a \<Rightarrow> bool) \<Rightarrow> 'a list \<Rightarrow> nat option" where
  "position p [] = None"
| "position p (x # xs) = (if p x then Some 0 else map_option Suc (position p xs))"

definition rposition :: "('a \<Rightarrow> bool) \<Rightarrow> 'a list \<Rightarrow> nat option" where
  "rposition p xs = map_option (\<lambda>i. length xs - 1 - i) (position p (rev xs))"

text \<open>The first line feed in the range, else the first one after it, else the last one before it.\<close>

definition preferred_line_ending_near_range :: "string \<Rightarrow> nat \<Rightarrow> nat \<Rightarrow> string" where
  "preferred_line_ending_near_range original start end_byte =
     (let bounded_start = min start (length original);
          bounded_end = min (max end_byte bounded_start) (length original)
      in case position (\<lambda>b. b = LF) (take (bounded_end - bounded_start) (drop bounded_start original)) of
           Some offset \<Rightarrow> newline_at original (bounded_start + offset)
         | None \<Rightarrow> (case position (\<lambda>b. b = LF) (drop bounded_end original) of
             Some offset \<Rightarrow> newline_at original (bounded_end + offset)
           | None \<Rightarrow> (case rposition (\<lambda>b. b = LF) (take bounded_start original) of
               Some index \<Rightarrow> newline_at original index
             | None \<Rightarrow> [LF])))"

definition adapt_newlines_to_range :: "string \<Rightarrow> string \<Rightarrow> nat \<Rightarrow> nat \<Rightarrow> string" where
  "adapt_newlines_to_range value original start end_byte =
     (if preferred_line_ending_near_range original start end_byte = [CR, LF]
      then expand_crlf (normalize_newlines value) else normalize_newlines value)"

record LineEditRange =
  lr_start_byte :: nat
  lr_end_byte :: nat
  lr_content_end :: nat
  lr_trailing_newline_len :: nat
  lr_preceding_newline_len :: nat

definition newline_ending_len_at :: "string \<Rightarrow> nat \<Rightarrow> nat" where
  "newline_ending_len_at value end_offset =
     (if end_offset = 0 \<or> value ! (end_offset - 1) \<noteq> LF then 0
      else if end_offset > 1 \<and> value ! (end_offset - 2) = CR then 2 else 1)"

definition line_edit_range :: "string \<Rightarrow> nat \<Rightarrow> nat \<Rightarrow> nat \<Rightarrow> edit_error + LineEditRange" where
  "line_edit_range content start_line end_line edit_index =
     and_then (line_range_bytes content start_line end_line edit_index) (\<lambda>(start_byte, end_byte).
       let trailing = (if end_byte > start_byte then newline_ending_len_at content end_byte else 0)
       in Inr \<lparr>lr_start_byte = start_byte, lr_end_byte = end_byte, lr_content_end = end_byte - trailing,
               lr_trailing_newline_len = trailing,
               lr_preceding_newline_len = newline_ending_len_at content start_byte\<rparr>)"

section \<open>Resolving an edit\<close>

record ResolvedEdit =
  re_input_index :: nat
  re_start_byte :: nat
  re_end_byte :: nat
  re_replacement :: string

definition required_edit_text :: "json \<Rightarrow> string \<Rightarrow> edit_error + string" where
  "required_edit_text edit key =
     (case get_str edit key of
        None \<Rightarrow> Inl InvalidArgument
      | Some value \<Rightarrow> if value = [] then Inl InvalidArgument else Inr value)"

definition required_line :: "json \<Rightarrow> string \<Rightarrow> edit_error + nat" where
  "required_line edit key =
     (case get_u64 edit key of
        Some line \<Rightarrow> if line > 0 then Inr line else Inl InvalidArgument
      | None \<Rightarrow> Inl InvalidArgument)"

definition resolve_replace :: "regex_lib \<Rightarrow> string \<Rightarrow> json \<Rightarrow> nat \<Rightarrow> edit_error + ResolvedEdit list" where
  "resolve_replace rx original edit index =
     and_then (required_edit_text edit ''old_text'') (\<lambda>old_text.
     let requested = (case get_str edit ''new_text'' of Some t \<Rightarrow> t | None \<Rightarrow> [])
     in and_then (resolve_text_targets rx original edit old_text index) (\<lambda>targets.
        Inr (map (\<lambda>(s, e). \<lparr>re_input_index = index, re_start_byte = s, re_end_byte = e,
                            re_replacement = adapt_newlines_to_range requested original s e\<rparr>) targets)))"

definition resolve_insert ::
    "regex_lib \<Rightarrow> string \<Rightarrow> json \<Rightarrow> string \<Rightarrow> nat \<Rightarrow> edit_error + ResolvedEdit list" where
  "resolve_insert rx original edit edit_type index =
     and_then (required_edit_text edit ''anchor'') (\<lambda>anchor.
     and_then (required_edit_text edit ''text'') (\<lambda>requested.
     and_then (resolve_text_targets rx original edit anchor index) (\<lambda>targets.
        Inr (map (\<lambda>(s, e). let position = (if edit_type = ''insert_before'' then s else e)
                 in \<lparr>re_input_index = index, re_start_byte = position, re_end_byte = position,
                     re_replacement = adapt_newlines_to_range requested original s e\<rparr>) targets))))"

definition expected_text_ok :: "string \<Rightarrow> json \<Rightarrow> LineEditRange \<Rightarrow> nat \<Rightarrow> nat \<Rightarrow> nat \<Rightarrow> edit_error + unit" where
  "expected_text_ok original edit lr start_line end_line index =
     (case get_str edit ''expected_text'' of
        None \<Rightarrow> Inr ()
      | Some expected \<Rightarrow>
          let actual = take (lr_content_end lr - lr_start_byte lr) (drop (lr_start_byte lr) original)
          in if normalize_newlines actual \<noteq> normalize_newlines expected
             then Inl (ExpectedTextMismatch index start_line end_line actual) else Inr ())"

definition resolve_lines :: "string \<Rightarrow> json \<Rightarrow> string \<Rightarrow> nat \<Rightarrow> edit_error + ResolvedEdit list" where
  "resolve_lines original edit edit_type index =
     and_then (required_line edit ''start_line'') (\<lambda>start_line.
     and_then (required_line edit ''end_line'') (\<lambda>end_line.
     and_then (line_edit_range original start_line end_line index) (\<lambda>lr.
     and_then (expected_text_ok original edit lr start_line end_line index) (\<lambda>_.
       Inr [if edit_type = ''delete_lines''
            then \<lparr>re_input_index = index,
                  re_start_byte = (if lr_trailing_newline_len lr > 0 \<or> lr_preceding_newline_len lr = 0
                    then lr_start_byte lr else lr_start_byte lr - lr_preceding_newline_len lr),
                  re_end_byte = lr_end_byte lr, re_replacement = []\<rparr>
            else \<lparr>re_input_index = index, re_start_byte = lr_start_byte lr, re_end_byte = lr_content_end lr,
                  re_replacement = adapt_newlines_to_range
                    (case get_str edit ''new_text'' of Some t \<Rightarrow> t | None \<Rightarrow> []) original
                    (lr_start_byte lr) (lr_end_byte lr)\<rparr>]))))"

definition resolve_precise_edit :: "regex_lib \<Rightarrow> string \<Rightarrow> json \<Rightarrow> nat \<Rightarrow> edit_error + ResolvedEdit list" where
  "resolve_precise_edit rx original edit index =
     (case get_str edit ''type'' of
        None \<Rightarrow> Inl InvalidArgument
      | Some edit_type \<Rightarrow>
          if edit_type = ''replace'' then resolve_replace rx original edit index
          else if edit_type = ''insert_before'' \<or> edit_type = ''insert_after''
          then resolve_insert rx original edit edit_type index
          else if edit_type = ''replace_lines'' \<or> edit_type = ''delete_lines''
          then resolve_lines original edit edit_type index
          else Inl InvalidArgument)"

section \<open>Applying the edits\<close>

definition clash :: "ResolvedEdit \<Rightarrow> ResolvedEdit \<Rightarrow> bool" where
  "clash left right \<longleftrightarrow>
     re_start_byte left < re_end_byte right \<and> re_start_byte right < re_end_byte left
     \<or> re_start_byte left = re_end_byte left \<and> re_start_byte left > re_start_byte right
         \<and> re_start_byte left < re_end_byte right
     \<or> re_start_byte right = re_end_byte right \<and> re_start_byte right > re_start_byte left
         \<and> re_start_byte right < re_end_byte left"

text \<open>The first clash, each edit compared with the later ones.\<close>

fun validate_resolved_edits :: "ResolvedEdit list \<Rightarrow> edit_error + unit" where
  "validate_resolved_edits [] = Inr ()"
| "validate_resolved_edits (left # rest) =
     (case find (clash left) rest of
        Some right \<Rightarrow> Inl (RangesOverlap (re_input_index left) (re_input_index right)
          (re_start_byte left, re_end_byte left) (re_start_byte right, re_end_byte right))
      | None \<Rightarrow> validate_resolved_edits rest)"

text \<open>\<open>sort_by\<close> is stable: from the end of the text to its start.\<close>

definition edit_key :: "ResolvedEdit \<Rightarrow> int \<times> int \<times> int" where
  "edit_key e = (- int (re_start_byte e), - int (re_end_byte e), - int (re_input_index e))"

definition replace_range :: "string \<Rightarrow> nat \<Rightarrow> nat \<Rightarrow> string \<Rightarrow> string" where
  "replace_range content a b replacement = take a content @ replacement @ drop b content"

definition apply_one :: "string \<Rightarrow> ResolvedEdit \<Rightarrow> string" where
  "apply_one content e = replace_range content (re_start_byte e) (re_end_byte e) (re_replacement e)"

definition apply_resolved :: "string \<Rightarrow> ResolvedEdit list \<Rightarrow> string" where
  "apply_resolved original resolved = foldl apply_one original (sort_key edit_key resolved)"

definition resolve_all :: "regex_lib \<Rightarrow> string \<Rightarrow> json list \<Rightarrow> edit_error + ResolvedEdit list" where
  "resolve_all rx original edits =
     map_sum id concat (map_res (\<lambda>(index, edit). resolve_precise_edit rx original edit index) (enumerate 0 edits))"

definition apply_precise_edits :: "regex_lib \<Rightarrow> string \<Rightarrow> json list \<Rightarrow> edit_error + string" where
  "apply_precise_edits rx original edits =
     and_then (resolve_all rx original edits) (\<lambda>resolved.
     and_then (validate_resolved_edits resolved) (\<lambda>_. Inr (apply_resolved original resolved)))"

end
