(* ===== verification/Edit_Exact.thy ===== *)
theory Edit_Exact
  imports Precise_Edit "HOL-Library.Multiset"
begin

text \<open>
  Correctness of precise edits: the edits of a file are applied to its original text as if at once.
\<close>

section \<open>Found ranges are in order\<close>

fun ascending :: "nat \<Rightarrow> nat \<Rightarrow> (nat \<times> nat) list \<Rightarrow> bool" where
  "ascending lo hi [] \<longleftrightarrow> lo \<le> hi"
| "ascending lo hi ((s, e) # rs) \<longleftrightarrow> lo \<le> s \<and> s < e \<and> ascending e hi rs"

lemma ascending_bounds: "ascending lo hi rs \<Longrightarrow> (s, e) \<in> set rs \<Longrightarrow> lo \<le> s \<and> s < e \<and> e \<le> hi"
proof (induction lo hi rs arbitrary: s e rule: ascending.induct)
  case (2 lo hi s' e' rs)
  from "2.prems"(1) have rest: "lo \<le> s'" "s' < e'" "ascending e' hi rs" by simp_all
  have "e' \<le> hi"
  proof (cases rs)
    case (Cons r rs')
    obtain a b where "(a, b) \<in> set rs" using Cons by (cases r) auto
    with "2.IH" [OF rest(3) this] show ?thesis by simp
  qed (use rest in simp)
  with "2.IH" [OF rest(3), of s e] "2.prems"(2) rest show ?case by fastforce
qed simp

lemma ascending_weaken: "ascending lo hi rs \<Longrightarrow> lo' \<le> lo \<Longrightarrow> hi \<le> hi' \<Longrightarrow> ascending lo' hi' rs"
  by (induction lo hi rs arbitrary: lo' rule: ascending.induct) auto

lemma ascending_filter: "ascending lo hi rs \<Longrightarrow> ascending lo hi (filter P rs)"
proof (induction lo hi rs rule: ascending.induct)
  case (2 lo hi s e rs)
  then show ?case using ascending_weaken [of e hi "filter P rs" lo hi] by auto
qed simp

lemma ascending_distinct: "ascending lo hi rs \<Longrightarrow> distinct (map fst rs) \<and> distinct (map snd rs)"
proof (induction lo hi rs rule: ascending.induct)
  case (2 lo hi s e rs)
  have "e \<le> a \<and> e < b" if "(a, b) \<in> set rs" for a b
    using ascending_bounds [of e hi rs a b] that 2 by auto
  then have "s \<notin> fst ` set rs" "e \<notin> snd ` set rs" using 2 by fastforce+
  with 2 show ?case by simp
qed simp

lemma ascending_map:
  assumes "ascending lo hi rs" and "\<And>i j. lo \<le> i \<Longrightarrow> i < j \<Longrightarrow> j \<le> hi \<Longrightarrow> f i < f j"
  shows "ascending (f lo) (f hi) (map (\<lambda>(s, e). (f s, f e)) rs)"
  using assms
proof (induction lo hi rs rule: ascending.induct)
  case (1 lo hi)
  then show ?case by (cases "lo = hi") (auto simp: less_imp_le)
next
  case (2 lo hi s e rs)
  have "s < e \<and> e \<le> hi \<and> lo \<le> s" using ascending_bounds [OF "2.prems"(1), of s e] by simp
  moreover have "f lo \<le> f s" using calculation "2.prems"(2) [of lo s] by (cases "lo = s") auto
  ultimately show ?case using 2 by auto
qed

lemma match_indices_ascending:
  "target \<noteq> [] \<Longrightarrow> ascending k (k + length s) (map (\<lambda>i. (i, i + length target)) (match_indices target s k))"
proof (induction target s k rule: match_indices.induct)
  case (2 target c cs k)
  show ?case
  proof (cases "starts_with (c # cs) target")
    case True
    then have len: "length target \<le> Suc (length cs)" "max 1 (length target) = length target"
      using 2(3) by (auto simp: starts_with_iff Suc_le_eq dest: arg_cong [where f = length])
    from 2 True have "ascending (k + length target) (k + length target + length (drop (length target - 1) cs))
        (map (\<lambda>i. (i, i + length target)) (match_indices target (drop (length target - 1) cs) (k + length target)))"
      unfolding len(2) by simp
    moreover have "k + length target + length (drop (length target - 1) cs) = k + length (c # cs)"
      using len(1) 2(3) by (cases target) auto
    ultimately show ?thesis using True 2(3) unfolding match_indices.simps len(2) by simp
  next
    case False
    with 2 show ?thesis by (auto elim!: ascending_weaken)
  qed
qed simp

text \<open>The boundary map.\<close>

lemma normalize_from_result:
  "normalize_from s i = (t, bs) \<Longrightarrow>
   t = normalize_newlines s \<and> length bs = length t \<and> sorted_wrt (<) (i # bs) \<and> last (i # bs) = i + length s"
proof (induction s i arbitrary: t bs rule: normalize_from.induct)
  case (1 a b s i)
  show ?case
  proof (cases "a = CR \<and> b = LF")
    case True
    obtain t' bs' where "normalize_from s (i + 2) = (t', bs')" by fastforce
    with 1 True show ?thesis by fastforce
  next
    case False
    obtain t' bs' where "normalize_from (b # s) (i + 1) = (t', bs')" by fastforce
    with 1 False show ?thesis by fastforce
  qed
qed auto

lemma boundaries:
  assumes "normalize_newlines_with_boundary_map s = (t, bs)"
  shows "t = normalize_newlines s" "length bs = Suc (length t)"
    "i < j \<Longrightarrow> j \<le> length t \<Longrightarrow> bs ! i < bs ! j" "bs ! 0 = 0" "bs ! length t = length s"
proof -
  obtain bs' where b: "normalize_from s 0 = (t, bs')" "bs = 0 # bs'"
    using assms by (auto simp: normalize_newlines_with_boundary_map_def split: prod.split_asm)
  note r = normalize_from_result [OF b(1)]
  show "t = normalize_newlines s" "length bs = Suc (length t)" "bs ! 0 = 0" using r b(2) by simp_all
  show "bs ! i < bs ! j" if "i < j" "j \<le> length t"
    using r b(2) that sorted_wrt_nth_less [of "(<)" bs i j] by simp
  show "bs ! length t = length s"
    using r b(2) last_conv_nth [of "0 # bs'"] by simp
qed

lemma normalize_nonempty: "s \<noteq> [] \<Longrightarrow> normalize_newlines s \<noteq> []"
  by (cases s rule: normalize_crlf.cases) auto

lemma exact_ascending:
  assumes "target \<noteq> []" "a \<le> b" "b \<le> length original"
  shows "ascending a b (exact_text_candidates original target (a, b))"
proof -
  define h where "h = take (b - a) (drop a original)"
  have h: "length h = b - a" using assms by (simp add: h_def)
  show ?thesis
  proof (cases "LF \<in> set target")
    case False
    have "ascending 0 (length h) (map (\<lambda>i. (i, i + length target)) (match_indices target h 0))"
      using match_indices_ascending [OF assms(1), of 0 h] by simp
    from ascending_map [OF this, of "\<lambda>i. a + i"] False assms(2) h show ?thesis
      by (simp add: exact_text_candidates_def h_def [symmetric] Let_def comp_def add.assoc)
  next
    case True
    obtain t bs where bs: "normalize_newlines_with_boundary_map h = (t, bs)" by fastforce
    let ?n = "normalize_newlines target"
    have "ascending 0 (length t) (map (\<lambda>i. (i, i + length ?n)) (match_indices ?n t 0))"
      using match_indices_ascending [of ?n 0 t] normalize_nonempty [OF assms(1)] by simp
    from ascending_map [OF this, of "\<lambda>i. a + bs ! i"] boundaries [OF bs] True assms(2) h show ?thesis
      by (simp add: exact_text_candidates_def h_def [symmetric] Let_def comp_def bs)
  qed
qed

text \<open>What is assumed of the \<open>regex\<close> crate: matches are in order, inside the text and, for a pattern
  made from a text that is not empty, not empty.\<close>

definition regex_ok :: "regex_lib \<Rightarrow> bool" where
  "regex_ok rx \<longleftrightarrow> (\<forall>target text_in found. target \<noteq> [] \<longrightarrow>
     rx_find_iter rx (whitespace_flexible_pattern rx target) text_in = Some found \<longrightarrow>
     ascending 0 (length text_in) found)"

lemma line_starts_bounds: "x \<in> set (line_starts i s) \<Longrightarrow> i < x \<and> x \<le> i + length s"
  by (induction s arbitrary: i) (fastforce split: if_split_asm)+

lemma line_starts_sorted: "sorted_wrt (<) (i # line_starts i s)"
proof (induction s arbitrary: i)
  case (Cons b s)
  have "\<forall>x \<in> set (line_starts (i + 1) s). i + 1 < x" using line_starts_bounds by fastforce
  with Cons [of "i + 1"] show ?case by auto
qed simp

lemma line_starts_after: "x \<in> set (line_starts i s) \<Longrightarrow> s ! (x - i - 1) = LF"
proof (induction s arbitrary: i)
  case (Cons b s)
  show ?case
  proof (cases "x \<in> set (line_starts (i + 1) s)")
    case True
    with Cons.IH have "s ! (x - (i + 1) - 1) = LF" by blast
    moreover have "x - i - 1 = Suc (x - (i + 1) - 1)" using line_starts_bounds [OF True] by auto
    ultimately show ?thesis by simp
  qed (use Cons.prems in \<open>auto split: if_split_asm\<close>)
qed simp

lemma line_range_bounds:
  assumes "line_range_bytes content a b index = Inr (s, e)"
  shows "s \<le> e" "e \<le> length content" "s = 0 \<or> content ! (s - 1) = LF"
proof -
  let ?starts = "0 # line_starts 0 content"
  have ok: "0 < a" "a \<le> b" "b \<le> length ?starts" and se: "s = ?starts ! (a - 1)"
      "e = (if b < length ?starts then ?starts ! b else length content)"
    using assms by (auto simp: line_range_bytes_def Let_def split: if_split_asm)
  have all: "x \<le> length content" if "x \<in> set ?starts" for x
    using that line_starts_bounds by fastforce
  have "s \<in> set ?starts" using se(1) ok nth_mem [of "a - 1" ?starts] by simp
  then show "s = 0 \<or> content ! (s - 1) = LF" using line_starts_after [of s 0 content] by auto
  show "e \<le> length content"
    using se(2) all [OF nth_mem, of b] by (auto split: if_split_asm)
  show "s \<le> e"
  proof (cases "b < length ?starts")
    case True
    moreover have "a - 1 < b" using ok(1,2) by simp
    ultimately have "?starts ! (a - 1) < ?starts ! b"
      using sorted_wrt_nth_less [OF line_starts_sorted [of 0 content], of "a - 1" b] by blast
    with True se show ?thesis by simp
  next
    case False
    then show ?thesis using se ok all [OF nth_mem, of "a - 1"] by auto
  qed
qed

lemma targets_ascending:
  assumes "regex_ok rx" "target \<noteq> []" "resolve_text_targets rx original edit target index = Inr cs"
  shows "ascending 0 (length original) cs"
proof -
  obtain a b mode found where found: "search_range original edit index = Inr (a, b)"
      "text_candidates rx original target (a, b) mode = Inr found"
      "\<exists>P. cs = filter P found"
    using assms(3) by (auto simp: resolve_text_targets_def Let_def and_then_Inr_iff split: if_split_asm)
  have ab: "a \<le> b" "b \<le> length original"
    using found(1) line_range_bounds by (auto simp: search_range_def split: option.split_asm)
  have "ascending a b found"
  proof (cases "mode = ''exact''")
    case True
    with found(2) exact_ascending [OF assms(2) ab] show ?thesis by (simp add: text_candidates_def)
  next
    case False
    define h where "h = take (b - a) (drop a original)"
    from False found(2) obtain ms where ms: "found = map (\<lambda>(s, e). (a + s, a + e)) ms"
        "rx_find_iter rx (whitespace_flexible_pattern rx target) h = Some ms"
      by (auto simp: text_candidates_def whitespace_text_candidates_def h_def
          split: if_split_asm option.split_asm)
    then have "ascending 0 (length h) ms" using assms(1,2) unfolding regex_ok_def by blast
    from ascending_map [OF this, of "\<lambda>i. a + i"] ms(1) ab show ?thesis by (simp add: h_def)
  qed
  then have "ascending 0 (length original) found" using ab ascending_weaken by blast
  with found(3) show ?thesis using ascending_filter by blast
qed

section \<open>The edits of a file as one substitution\<close>

text \<open>
  The specification: every byte outside the edited ranges stays, and at each offset stand the
  insertions of that offset, in the order of the edits, before the replacement that starts there.
\<close>

definition kept_at :: "string \<Rightarrow> ResolvedEdit list \<Rightarrow> nat \<Rightarrow> string" where
  "kept_at original es p =
     (if p < length original \<and> list_all (\<lambda>e. \<not> (re_start_byte e \<le> p \<and> p < re_end_byte e)) es
      then [original ! p] else [])"

definition inserted_at :: "ResolvedEdit list \<Rightarrow> nat \<Rightarrow> string" where
  "inserted_at es p =
     concat (map re_replacement
       (sort_key re_input_index (filter (\<lambda>e. re_start_byte e = p \<and> re_end_byte e = p) es)
        @ filter (\<lambda>e. re_start_byte e = p \<and> p < re_end_byte e) es))"

definition edited_from :: "string \<Rightarrow> ResolvedEdit list \<Rightarrow> nat \<Rightarrow> string" where
  "edited_from original es k =
     concat (map (\<lambda>p. inserted_at es p @ kept_at original es p) [k..<Suc (length original)])"

definition edited_text :: "string \<Rightarrow> ResolvedEdit list \<Rightarrow> string" where
  "edited_text original es = edited_from original es 0"

text \<open>The edits of one file: in range, clash free, and told apart by offset and index.\<close>

definition edit_set_ok :: "string \<Rightarrow> ResolvedEdit list \<Rightarrow> bool" where
  "edit_set_ok original es \<longleftrightarrow>
     (\<forall>e \<in> set es. re_start_byte e \<le> re_end_byte e \<and> re_end_byte e \<le> length original)
     \<and> (\<forall>x \<in> set es. \<forall>y \<in> set es. x \<noteq> y \<longrightarrow> \<not> clash x y)
     \<and> distinct (map edit_key es)"

lemma edited_from_split:
  "k \<le> m \<Longrightarrow> m \<le> Suc (length original) \<Longrightarrow>
   edited_from original es k =
     concat (map (\<lambda>p. inserted_at es p @ kept_at original es p) [k..<m]) @ edited_from original es m"
proof -
  assume "k \<le> m" "m \<le> Suc (length original)"
  then have "[k..<Suc (length original)] = [k..<m] @ [m..<Suc (length original)]"
    using upt_add_eq_append [of k m "Suc (length original) - m"] by simp
  then show ?thesis unfolding edited_from_def by (simp del: upt_Suc)
qed

lemma untouched_prefix:
  assumes "\<forall>e \<in> set es. k \<le> re_start_byte e" "k \<le> length original"
  shows "concat (map (\<lambda>p. inserted_at es p @ kept_at original es p) [0..<k]) = take k original"
proof -
  have "inserted_at es p @ kept_at original es p = [original ! p]" if "p < k" for p
  proof -
    have none: "filter (\<lambda>e. re_start_byte e = p \<and> re_end_byte e = p) es = []"
      "filter (\<lambda>e. re_start_byte e = p \<and> p < re_end_byte e) es = []"
      using assms(1) that by (auto simp: filter_empty_conv)
    have "list_all (\<lambda>e. \<not> (re_start_byte e \<le> p \<and> p < re_end_byte e)) es"
      using assms(1) that by (auto simp: list_all_iff)
    then show ?thesis using that assms(2) unfolding inserted_at_def none by (simp add: kept_at_def)
  qed
  then have "concat (map (\<lambda>p. inserted_at es p @ kept_at original es p) [0..<k])
      = concat (map (\<lambda>p. [original ! p]) [0..<k])"
    by (intro arg_cong [where f = concat] map_cong) auto
  also have "\<dots> = map (\<lambda>p. original ! p) [0..<k]" by (simp add: concat_map_singleton)
  also have "\<dots> = take k original" using assms(2) by (intro nth_equalityI) simp_all
  finally show ?thesis .
qed

lemma edited_text_from:
  assumes "\<forall>e \<in> set es. k \<le> re_start_byte e" "k \<le> length original"
  shows "edited_text original es = take k original @ edited_from original es k"
  using edited_from_split [of 0 k original es] untouched_prefix [OF assms] assms(2)
  by (simp add: edited_text_def)

text \<open>The next edit to apply stands before those already applied.\<close>

definition before_all :: "ResolvedEdit \<Rightarrow> ResolvedEdit list \<Rightarrow> bool" where
  "before_all e xs \<longleftrightarrow> (\<forall>x \<in> set xs. edit_key x < edit_key e \<and> \<not> clash x e)"

lemma key_less:
  "edit_key x < edit_key e \<longleftrightarrow> re_start_byte e < re_start_byte x
     \<or> re_start_byte e = re_start_byte x \<and> (re_end_byte e < re_end_byte x
       \<or> re_end_byte e = re_end_byte x \<and> re_input_index e < re_input_index x)"
  by (auto simp: edit_key_def less_prod_def)

lemma sort_key_snoc_first: "(\<forall>x \<in> set xs. f e < f x) \<Longrightarrow> sort_key f (xs @ [e]) = e # sort_key f xs"
  by (induction xs) auto

definition edited_at :: "string \<Rightarrow> ResolvedEdit list \<Rightarrow> nat \<Rightarrow> string" where
  "edited_at original es p = inserted_at es p @ kept_at original es p"

lemma edited_from_at: "edited_from original es k = concat (map (edited_at original es) [k..<Suc (length original)])"
  by (simp add: edited_from_def edited_at_def [abs_def])

lemma edited_from_Suc:
  "k \<le> length original \<Longrightarrow> edited_from original es k = edited_at original es k @ edited_from original es (Suc k)"
  unfolding edited_from_at by (simp add: upt_conv_Cons del: upt_Suc)

lemma edited_from_cong:
  "(\<And>p. k \<le> p \<Longrightarrow> edited_at original es p = edited_at original es' p) \<Longrightarrow>
   edited_from original es k = edited_from original es' k"
  unfolding edited_from_at by (intro arg_cong [where f = concat] map_cong) auto

text \<open>Adding the edit \<open>e\<close> to those behind it.\<close>

lemma edited_at_behind:
  assumes "re_end_byte e \<le> p" "p \<noteq> re_start_byte e"
  shows "edited_at original (xs @ [e]) p = edited_at original xs p"
  using assms by (simp add: edited_at_def inserted_at_def kept_at_def)

lemma edited_at_insertion:
  assumes "re_start_byte e = re_end_byte e" "p = re_start_byte e"
    and "\<forall>x \<in> set xs. re_start_byte x = p \<longrightarrow> re_end_byte x = p \<longrightarrow> re_input_index e < re_input_index x"
  shows "edited_at original (xs @ [e]) p = re_replacement e @ edited_at original xs p"
proof -
  let ?P = "\<lambda>e. re_start_byte e = p \<and> re_end_byte e = p"
  have "sort_key re_input_index (filter ?P xs @ [e]) = e # sort_key re_input_index (filter ?P xs)"
    using assms(3) by (intro sort_key_snoc_first) auto
  then show ?thesis using assms(1,2) by (simp add: edited_at_def inserted_at_def kept_at_def)
qed

lemma edited_at_replacement:
  assumes "re_start_byte e < re_end_byte e" "\<forall>x \<in> set xs. re_end_byte e \<le> re_start_byte x"
    and "re_start_byte e \<le> p" "p < re_end_byte e"
  shows "edited_at original (xs @ [e]) p = (if p = re_start_byte e then re_replacement e else [])"
proof -
  have none: "filter (\<lambda>x. re_start_byte x = p \<and> re_end_byte x = p) xs = []"
    "filter (\<lambda>x. re_start_byte x = p \<and> p < re_end_byte x) xs = []"
    using assms(2,4) by (fastforce simp: filter_empty_conv)+
  then show ?thesis using assms by (simp add: edited_at_def inserted_at_def kept_at_def none)
qed

lemma apply_before_all:
  assumes e: "re_start_byte e \<le> re_end_byte e" "re_end_byte e \<le> length original"
    and valid: "\<forall>x \<in> set xs. re_start_byte x \<le> re_end_byte x" and first: "before_all e xs"
  shows "apply_one (edited_text original xs) e = edited_text original (xs @ [e])"
proof -
  let ?s = "re_start_byte e" and ?t = "re_end_byte e"
  have behind: "?t \<le> re_start_byte x" if "x \<in> set xs" for x
    using first valid that e(1) unfolding before_all_def key_less clash_def by force
  have later: "re_input_index e < re_input_index x"
    if "x \<in> set xs" "re_start_byte x = ?s" "re_end_byte x = ?s" "?s = ?t" for x
    using first that unfolding before_all_def key_less by force
  have "edited_text original xs = take ?t original @ edited_from original xs ?t"
    using behind e(2) by (intro edited_text_from) auto
  then have "apply_one (edited_text original xs) e
      = take ?s original @ re_replacement e @ edited_from original xs ?t"
    using e by (simp add: apply_one_def replace_range_def min_def)
  moreover have "edited_text original (xs @ [e]) = take ?s original @ edited_from original (xs @ [e]) ?s"
    using behind e by (intro edited_text_from) fastforce+
  moreover have "edited_from original (xs @ [e]) ?s = re_replacement e @ edited_from original xs ?t"
  proof (cases "?s = ?t")
    case True
    have "edited_from original (xs @ [e]) (Suc ?s) = edited_from original xs (Suc ?s)"
      using True by (intro edited_from_cong edited_at_behind) auto
    with True later e show ?thesis
      by (simp add: edited_from_Suc edited_at_insertion)
  next
    case False
    then have "?s < ?t" using e(1) by simp
    have "edited_from original (xs @ [e]) ?s
        = concat (map (edited_at original (xs @ [e])) [?s..<?t]) @ edited_from original (xs @ [e]) ?t"
      using edited_from_split [of ?s ?t original "xs @ [e]"] e by (simp add: edited_at_def [abs_def])
    moreover have "map (edited_at original (xs @ [e])) [?s..<?t]
        = map (\<lambda>p. if p = ?s then re_replacement e else []) [?s..<?t]"
      using edited_at_replacement [OF \<open>?s < ?t\<close>] behind by (intro map_cong) auto
    moreover have "concat (map (\<lambda>p. if p = ?s then re_replacement e else []) [?s..<?t]) = re_replacement e"
      using \<open>?s < ?t\<close> by (simp add: upt_conv_Cons concat_eq_Nil_conv)
    moreover have "edited_from original (xs @ [e]) ?t = edited_from original xs ?t"
      using False e by (intro edited_from_cong edited_at_behind) auto
    ultimately show ?thesis by simp
  qed
  ultimately show ?thesis by simp
qed

lemma edited_text_Nil: "edited_text original [] = original"
  using untouched_prefix [of "[]" "length original" original]
  by (simp add: edited_text_def edited_from_def inserted_at_def kept_at_def)

lemma apply_in_order:
  assumes "sorted_wrt (\<lambda>x e. edit_key x < edit_key e \<and> \<not> clash x e) xs"
    and "\<forall>e \<in> set xs. re_start_byte e \<le> re_end_byte e \<and> re_end_byte e \<le> length original"
  shows "foldl apply_one original xs = edited_text original xs"
  using assms
proof (induction xs rule: rev_induct)
  case (snoc e xs)
  then have "before_all e xs" by (simp add: sorted_wrt_append before_all_def)
  with snoc apply_before_all [of e original xs] show ?case by (simp add: sorted_wrt_append)
qed (simp add: edited_text_Nil)

section \<open>From the order of application to the set of edits\<close>

lemma clash_sym: "clash x y \<longleftrightarrow> clash y x"
  by (auto simp: clash_def)

lemma resolved_no_clash: "validate_resolved_edits es = Inr () \<Longrightarrow> sorted_wrt (\<lambda>x y. \<not> clash x y) es"
proof (induction es)
  case (Cons e es)
  then show ?case by (auto split: option.split_asm simp: find_None_iff)
qed simp

lemma sorted_wrt_pairs:
  "sorted_wrt P es \<Longrightarrow> x \<in> set es \<Longrightarrow> y \<in> set es \<Longrightarrow> x \<noteq> y \<Longrightarrow> P x y \<or> P y x"
  by (induction es) auto

lemma all_equal_list: "distinct xs \<Longrightarrow> (\<And>x y. x \<in> set xs \<Longrightarrow> y \<in> set xs \<Longrightarrow> x = y) \<Longrightarrow> xs = [] \<or> (\<exists>x. xs = [x])"
proof -
  assume "distinct xs" and same: "\<And>x y. x \<in> set xs \<Longrightarrow> y \<in> set xs \<Longrightarrow> x = y"
  show ?thesis
  proof (cases xs)
    case (Cons x ys)
    have "y \<notin> set ys" for y using same [of x y] \<open>distinct xs\<close> Cons by auto
    then have "ys = []" by (cases ys) auto
    with Cons show ?thesis by simp
  qed simp
qed

lemma mset_short: "mset xs = mset ys \<Longrightarrow> ys = [] \<or> (\<exists>x. ys = [x]) \<Longrightarrow> xs = ys"
  by auto

lemma edited_at_sorted:
  assumes ok: "edit_set_ok original es"
  shows "edited_at original (sort_key edit_key es) p = edited_at original es p"
proof -
  let ?ys = "sort_key edit_key es"
  let ?P = "\<lambda>e. re_start_byte e = p \<and> re_end_byte e = p"
    and ?Q = "\<lambda>e. re_start_byte e = p \<and> p < re_end_byte e"
  have keys: "distinct (map edit_key es)" and apart: "\<And>x y. x \<in> set es \<Longrightarrow> y \<in> set es \<Longrightarrow> x \<noteq> y \<Longrightarrow> \<not> clash x y"
    using ok by (auto simp: edit_set_ok_def)
  have inj: "inj_on edit_key (set es)" and dist: "distinct es" using keys by (auto simp: distinct_map)
  have "inj_on re_input_index (set (filter ?P ?ys))"
  proof (rule inj_onI)
    fix x y
    assume "x \<in> set (filter ?P ?ys)" "y \<in> set (filter ?P ?ys)" "re_input_index x = re_input_index y"
    then have "edit_key x = edit_key y" "x \<in> set es" "y \<in> set es" by (auto simp: edit_key_def)
    then show "x = y" using inj by (simp add: inj_on_def)
  qed
  moreover have "mset (filter ?P ?ys) = mset (filter ?P es)" by simp
  ultimately have zero: "sort_key re_input_index (filter ?P ?ys) = sort_key re_input_index (filter ?P es)"
    by (intro sort_key_inj_key_eq) auto
  have "x = y" if "x \<in> set (filter ?Q es)" "y \<in> set (filter ?Q es)" for x y
    using that apart [of x y] by (auto simp: clash_def)
  then have "filter ?Q es = [] \<or> (\<exists>x. filter ?Q es = [x])"
    using dist by (intro all_equal_list) auto
  then have wide: "filter ?Q ?ys = filter ?Q es"
    by (intro mset_short) simp_all
  show ?thesis
    by (simp add: edited_at_def inserted_at_def zero wide kept_at_def list_all_iff)
qed

lemma edited_text_sorted:
  "edit_set_ok original es \<Longrightarrow> edited_text original (sort_key edit_key es) = edited_text original es"
  unfolding edited_text_def using edited_at_sorted by (intro edited_from_cong) blast

lemma apply_resolved_text:
  assumes ok: "edit_set_ok original es"
  shows "apply_resolved original es = edited_text original es"
proof -
  let ?ys = "sort_key edit_key es"
  have keys: "distinct (map edit_key es)" and apart: "\<And>x y. x \<in> set es \<Longrightarrow> y \<in> set es \<Longrightarrow> x \<noteq> y \<Longrightarrow> \<not> clash x y"
    and range: "\<forall>e \<in> set ?ys. re_start_byte e \<le> re_end_byte e \<and> re_end_byte e \<le> length original"
    using ok by (auto simp: edit_set_ok_def)
  have "distinct (map edit_key ?ys)"
    using keys by (simp add: distinct_map)
  then have "sorted_wrt (<) (map edit_key ?ys)" by (simp add: strict_sorted_iff)
  then have "sorted_wrt (\<lambda>x e. edit_key x < edit_key e) ?ys" by (simp add: sorted_wrt_map)
  then have "sorted_wrt (\<lambda>x e. edit_key x < edit_key e \<and> \<not> clash x e) ?ys"
    by (rule sorted_wrt_mono_rel [rotated]) (use apart in auto)
  from apply_in_order [OF this range] edited_text_sorted [OF ok] show ?thesis
    by (simp add: apply_resolved_def)
qed

section \<open>Resolved edits\<close>

lemma map_res_Inr: "map_res f xs = Inr ys \<Longrightarrow> list_all2 (\<lambda>x y. f x = Inr y) xs ys"
  by (induction xs arbitrary: ys) (auto simp: and_then_Inr_iff)

definition from_edit :: "string \<Rightarrow> nat \<Rightarrow> ResolvedEdit list \<Rightarrow> bool" where
  "from_edit original index es \<longleftrightarrow>
     (\<forall>e \<in> set es. re_input_index e = index \<and> re_start_byte e \<le> re_end_byte e
        \<and> re_end_byte e \<le> length original) \<and> distinct (map edit_key es)"

lemma line_edit_bounds:
  assumes "line_edit_range content a b index = Inr lr"
  shows "lr_start_byte lr \<le> lr_content_end lr" "lr_content_end lr \<le> lr_end_byte lr"
    "lr_end_byte lr \<le> length content"
proof -
  obtain s e where se: "line_range_bytes content a b index = Inr (s, e)"
    and lr: "lr_start_byte lr = s" "lr_end_byte lr = e"
      "lr_content_end lr = e - (if e > s then newline_ending_len_at content e else 0)"
    using assms by (auto simp: line_edit_range_def and_then_Inr_iff Let_def)
  note bounds = line_range_bounds [OF se]
  show "lr_content_end lr \<le> lr_end_byte lr" "lr_end_byte lr \<le> length content" using lr bounds by simp_all
  have "s \<le> e - newline_ending_len_at content e" if "s < e"
  proof (rule ccontr)
    assume "\<not> s \<le> e - newline_ending_len_at content e"
    then have "newline_ending_len_at content e = 2" "e = s + 1"
      using that by (auto simp: newline_ending_len_at_def split: if_split_asm)
    then have "s \<noteq> 0" "content ! (s - 1) = CR"
      by (auto simp: newline_ending_len_at_def split: if_split_asm)
    with bounds(3) show False by simp
  qed
  then show "lr_start_byte lr \<le> lr_content_end lr" using lr bounds by auto
qed

lemma preceding_len: "newline_ending_len_at content i \<le> i"
  by (auto simp: newline_ending_len_at_def)

lemma targets_edits:
  assumes "ascending 0 (length original) cs"
    and "\<And>s e. re_input_index (mk s e) = index"
    and "(\<forall>s e. re_start_byte (mk s e) = s \<and> re_end_byte (mk s e) = e)
      \<or> (\<forall>s e. re_start_byte (mk s e) = s \<and> re_end_byte (mk s e) = s)
      \<or> (\<forall>s e. re_start_byte (mk s e) = e \<and> re_end_byte (mk s e) = e)"
  shows "from_edit original index (map (\<lambda>(s, e). mk s e) cs)"
proof -
  have bounds: "s < e \<and> e \<le> length original" if "(s, e) \<in> set cs" for s e
    using ascending_bounds [OF assms(1) that] by simp
  have "distinct (map fst cs)" "distinct (map snd cs)" using ascending_distinct [OF assms(1)] by simp_all
  then have inj: "inj_on fst (set cs)" "inj_on snd (set cs)" "distinct cs" by (auto simp: distinct_map)
  have "inj_on (\<lambda>c. edit_key (mk (fst c) (snd c))) (set cs)"
  proof (rule inj_onI)
    fix c d
    assume cd: "c \<in> set cs" "d \<in> set cs" "edit_key (mk (fst c) (snd c)) = edit_key (mk (fst d) (snd d))"
    then have "fst c = fst d \<or> snd c = snd d" using assms(3) by (auto simp: edit_key_def)
    with cd inj(1,2) show "c = d" by (auto dest: inj_onD)
  qed
  then have "distinct (map edit_key (map (\<lambda>(s, e). mk s e) cs))"
    using inj(3) by (simp add: distinct_map comp_def case_prod_unfold)
  moreover have "re_start_byte (mk s e) \<le> re_end_byte (mk s e) \<and> re_end_byte (mk s e) \<le> length original"
    if "(s, e) \<in> set cs" for s e
    using bounds [OF that] assms(3) by (auto simp: less_imp_le)
  ultimately show ?thesis using assms(2) by (auto simp: from_edit_def)
qed

lemma resolve_from_edit:
  assumes "regex_ok rx" "resolve_precise_edit rx original edit index = Inr es"
  shows "from_edit original index es"
proof -
  obtain edit_type where "get_str edit ''type'' = Some edit_type"
    using assms(2) by (auto simp: resolve_precise_edit_def split: option.split_asm)
  with assms(2) consider (replace) "resolve_replace rx original edit index = Inr es"
    | (insert) "resolve_insert rx original edit edit_type index = Inr es"
    | (lines) "resolve_lines original edit edit_type index = Inr es"
    by (auto simp: resolve_precise_edit_def split: if_split_asm)
  then show ?thesis
  proof cases
    case replace
    then obtain old_text cs where "old_text \<noteq> []" "resolve_text_targets rx original edit old_text index = Inr cs"
        "es = map (\<lambda>(s, e). \<lparr>re_input_index = index, re_start_byte = s, re_end_byte = e,
          re_replacement = adapt_newlines_to_range
            (case get_str edit ''new_text'' of Some t \<Rightarrow> t | None \<Rightarrow> []) original s e\<rparr>) cs"
      by (auto simp: resolve_replace_def Let_def and_then_Inr_iff required_edit_text_def
          split: option.split_asm if_split_asm)
    with targets_ascending [OF assms(1)] show ?thesis by (auto intro!: targets_edits)
  next
    case insert
    then obtain anchor requested cs where "anchor \<noteq> []"
        "resolve_text_targets rx original edit anchor index = Inr cs"
        "es = map (\<lambda>(s, e). let position = (if edit_type = ''insert_before'' then s else e)
                 in \<lparr>re_input_index = index, re_start_byte = position, re_end_byte = position,
                     re_replacement = adapt_newlines_to_range requested original s e\<rparr>) cs"
      by (auto simp: resolve_insert_def and_then_Inr_iff required_edit_text_def
          split: option.split_asm if_split_asm)
    with targets_ascending [OF assms(1)] show ?thesis by (auto intro!: targets_edits simp: Let_def)
  next
    case lines
    then obtain a b lr where lr: "line_edit_range original a b index = Inr lr"
      and es: "es = [if edit_type = ''delete_lines''
            then \<lparr>re_input_index = index,
                  re_start_byte = (if lr_trailing_newline_len lr > 0 \<or> lr_preceding_newline_len lr = 0
                    then lr_start_byte lr else lr_start_byte lr - lr_preceding_newline_len lr),
                  re_end_byte = lr_end_byte lr, re_replacement = []\<rparr>
            else \<lparr>re_input_index = index, re_start_byte = lr_start_byte lr, re_end_byte = lr_content_end lr,
                  re_replacement = adapt_newlines_to_range
                    (case get_str edit ''new_text'' of Some t \<Rightarrow> t | None \<Rightarrow> []) original
                    (lr_start_byte lr) (lr_end_byte lr)\<rparr>]"
      by (auto simp: resolve_lines_def and_then_Inr_iff)
    show ?thesis using line_edit_bounds [OF lr] unfolding es from_edit_def by auto
  qed
qed

lemma distinct_concat_edits:
  assumes "list_all2 (\<lambda>(index, edit) es. from_edit original index es) (enumerate n edits) ess"
  shows "distinct (map edit_key (concat ess)) \<and> (\<forall>e \<in> set (concat ess).
    n \<le> re_input_index e \<and> re_start_byte e \<le> re_end_byte e \<and> re_end_byte e \<le> length original)"
  using assms
proof (induction edits arbitrary: n ess)
  case (Cons edit edits)
  then obtain es ess' where ess: "ess = es # ess'" "from_edit original n es"
    "list_all2 (\<lambda>(index, edit) es. from_edit original index es) (enumerate (Suc n) edits) ess'"
    by (auto simp: list_all2_Cons1)
  note rest = Cons.IH [OF ess(3)]
  have "edit_key e \<noteq> edit_key x" if "e \<in> set es" "x \<in> set (concat ess')" for e x
    using rest ess(2) that unfolding from_edit_def edit_key_def by fastforce
  then have "set (map edit_key es) \<inter> set (map edit_key (concat ess')) = {}" by fastforce
  with rest ess(1,2) show ?case unfolding from_edit_def by (auto simp: Suc_le_eq less_imp_le)
qed simp

lemma resolved_set_ok:
  assumes "regex_ok rx" "resolve_all rx original edits = Inr es" "validate_resolved_edits es = Inr ()"
  shows "edit_set_ok original es"
proof -
  obtain ess where ess: "es = concat ess"
    "map_res (\<lambda>(index, edit). resolve_precise_edit rx original edit index) (enumerate 0 edits) = Inr ess"
    using assms(2) by (cases "map_res (\<lambda>(index, edit). resolve_precise_edit rx original edit index) (enumerate 0 edits)")
      (auto simp: resolve_all_def)
  have "list_all2 (\<lambda>(index, edit) es. from_edit original index es) (enumerate 0 edits) ess"
    by (rule list_all2_mono [OF map_res_Inr [OF ess(2)]]) (use resolve_from_edit [OF assms(1)] in auto)
  with ess(1) have "distinct (map edit_key es)"
    "\<forall>e \<in> set es. re_start_byte e \<le> re_end_byte e \<and> re_end_byte e \<le> length original"
    using distinct_concat_edits by blast+
  moreover have "\<not> clash x y" if "x \<in> set es" "y \<in> set es" "x \<noteq> y" for x y
    using sorted_wrt_pairs [OF resolved_no_clash [OF assms(3)] that] clash_sym by blast
  ultimately show ?thesis unfolding edit_set_ok_def by blast
qed

text \<open>
  C16. The precise edits of a file act as one substitution on its original text: when they are applied,
  every edit was resolved against that text to ranges inside it, the result holds every byte outside
  those ranges, in order, and at each offset the texts inserted there, in the order of the edits,
  before the replacement that starts there.  (Assumed of the \<open>regex\<close> crate: its matches are in order
  and not empty.)
\<close>

theorem precise_edits_are_simultaneous:
  assumes "regex_ok rx" and "apply_precise_edits rx original edits = Inr updated"
  shows "\<exists>es. resolve_all rx original edits = Inr es \<and> updated = edited_text original es
    \<and> (\<forall>e \<in> set es. re_start_byte e \<le> re_end_byte e \<and> re_end_byte e \<le> length original)"
proof -
  from assms(2) obtain es where es: "resolve_all rx original edits = Inr es"
    "validate_resolved_edits es = Inr ()" "updated = apply_resolved original es"
    by (auto simp: apply_precise_edits_def and_then_Inr_iff)
  note ok = resolved_set_ok [OF assms(1) es(1,2)]
  with es apply_resolved_text [OF ok] show ?thesis unfolding edit_set_ok_def by blast
qed

text \<open>A library that finds literal patterns.\<close>

definition literal_regex :: regex_lib where
  "literal_regex = \<lparr>rx_escape = id,
     rx_find_iter = \<lambda>pat t. Some (if pat = [] then [] else map (\<lambda>i. (i, i + length pat)) (match_indices pat t 0)),
     rx_is_match = \<lambda>pat t. Some True\<rparr>"

lemma literal_regex_ok: "regex_ok literal_regex"
  using match_indices_ascending [where k = 0] by (auto simp: regex_ok_def literal_regex_def)

theorem precise_edits_are_simultaneous_witness:
  "\<exists>es. resolve_all literal_regex ''let x = 1'' [JObj [(''new_text'', JStr ''y''), (''old_text'', JStr ''x''), (''type'', JStr ''replace'')]]
      = Inr es \<and> ''let y = 1'' = edited_text ''let x = 1'' es"
proof -
  have "apply_precise_edits literal_regex ''let x = 1''
      [JObj [(''new_text'', JStr ''y''), (''old_text'', JStr ''x''), (''type'', JStr ''replace'')]] = Inr ''let y = 1''"
    by code_simp
  from precise_edits_are_simultaneous [OF literal_regex_ok this] show ?thesis by blast
qed

end
