(* ===== verification/Edit_Properties.thy ===== *)
theory Edit_Properties
  imports Edit_Exact
begin

text \<open>
  What single edits do: edits of whole lines on a text with one kind of line ending, the contract of
  the edits and the report on a text that is not unique.
\<close>

section \<open>Lines of a terminated text\<close>

definition eols :: "string set" where "eols = {[LF], [CR, LF]}"

lemma line_starts_append: "line_starts i (x @ y) = line_starts i x @ line_starts (i + length x) y"
  by (induction x arbitrary: i) auto

lemma line_starts_none: "LF \<notin> set x \<Longrightarrow> line_starts i x = []"
  by (induction x arbitrary: i) auto

lemma line_starts_eol: "eol \<in> eols \<Longrightarrow> line_starts i eol = [i + length eol]"
  by (auto simp: eols_def)

lemma terminated_append: "terminated eol (xs @ ys) = terminated eol xs @ terminated eol ys"
  by (simp add: terminated_def)

lemma line_starts_terminated:
  assumes "\<forall>l \<in> set ls. LF \<notin> set l" "eol \<in> eols"
  shows "line_starts i (terminated eol ls) = map (\<lambda>k. i + length (terminated eol (take (Suc k) ls))) [0..<length ls]"
  using assms(1)
proof (induction ls rule: rev_induct)
  case (snoc l ls)
  have "map (\<lambda>k. i + length (terminated eol (take (Suc k) (ls @ [l])))) [0..<length ls]
      = map (\<lambda>k. i + length (terminated eol (take (Suc k) ls))) [0..<length ls]"
    by (intro map_cong) auto
  with snoc assms(2) show ?case
    by (simp add: terminated_append line_starts_append line_starts_none line_starts_eol)
qed simp

definition text_of :: "string \<Rightarrow> string list \<Rightarrow> bool" where
  "text_of eol ls \<longleftrightarrow> eol \<in> eols \<and> list_all clean_line ls"

lemma starts_nth:
  assumes "text_of eol ls" "k \<le> length ls"
  shows "(0 # line_starts 0 (terminated eol ls)) ! k = length (terminated eol (take k ls))"
    "length (0 # line_starts 0 (terminated eol ls)) = Suc (length ls)"
  using line_starts_terminated [of ls eol 0] assms
  by (cases k; auto simp: text_of_def list_all_iff clean_line_def)+

text \<open>The lines \<open>a\<close> to \<open>b\<close> and what is around them.\<close>

lemma line_split:
  assumes "0 < a" "a \<le> b" "b \<le> length ls"
  obtains xs l ys zs where "ls = xs @ (l # ys) @ zs" "xs = take (a - 1) ls" "zs = drop b ls"
    "take b ls = xs @ l # ys"
proof -
  obtain n where n: "b = (a - 1) + Suc n" using assms by (metis Suc_diff_1 add_Suc_shift le_Suc_ex)
  then have take_b: "take b ls = take (a - 1) ls @ take (Suc n) (drop (a - 1) ls)" by (simp only: take_add)
  have "drop (a - 1) ls \<noteq> []" using assms by simp
  then obtain l r where "drop (a - 1) ls = l # r" by (cases "drop (a - 1) ls") auto
  with take_b have split: "take b ls = take (a - 1) ls @ l # take n r" by simp
  with append_take_drop_id [of b ls] show thesis
    using that [of "take (a - 1) ls" l "take n r" "drop b ls"] by simp
qed

text \<open>A line ending after a text that does not end in a carriage return.\<close>

lemma eol_reads:
  assumes "eol \<in> eols" "q = [] \<or> last q \<noteq> CR"
  shows "newline_at (q @ eol @ rest) (length q + length eol - 1) = eol"
    "newline_ending_len_at (q @ eol @ rest) (length q + length eol) = length eol"
proof -
  have prev: "(q @ r) ! (length q - 1) \<noteq> CR" if "q \<noteq> []" for r
    using assms(2) that by (simp add: nth_append last_conv_nth)
  have at: "(q @ r) ! length q = r ! 0" "(q @ r) ! Suc (length q) = r ! 1" for r
    by (simp_all add: nth_append)
  consider "eol = [LF]" | "eol = [CR, LF]" using assms(1) by (auto simp: eols_def)
  then have "newline_at (q @ eol @ rest) (length q + length eol - 1) = eol
      \<and> newline_ending_len_at (q @ eol @ rest) (length q + length eol) = length eol"
  proof cases
    case 1
    then show ?thesis using prev [of "LF # rest"] at [of "LF # rest"]
      by (cases "q = []") (simp_all add: newline_at_def newline_ending_len_at_def)
  next
    case 2
    then show ?thesis using at [of "CR # LF # rest"]
      by (simp add: newline_at_def newline_ending_len_at_def)
  qed
  then show "newline_at (q @ eol @ rest) (length q + length eol - 1) = eol"
    "newline_ending_len_at (q @ eol @ rest) (length q + length eol) = length eol" by simp_all
qed

lemma before_eol:
  assumes "text_of eol (xs @ [l])"
  shows "terminated eol xs @ l = [] \<or> last (terminated eol xs @ l) \<noteq> CR"
  using assms by (cases xs rule: rev_cases; cases l rule: rev_cases)
    (auto simp: text_of_def eols_def terminated_append clean_line_def)

lemma position_first: "LF \<notin> set l \<Longrightarrow> position (\<lambda>b. b = LF) (l @ LF # r) = Some (length l)"
  by (induction l) auto

lemma take_whole: "length p \<le> n \<Longrightarrow> take n (p @ r) = p @ take (n - length p) r"
  by simp

lemma preferred_is_eol:
  assumes "text_of eol (xs @ [l])" "length (terminated eol xs @ l @ eol) \<le> e"
  shows "preferred_line_ending_near_range (terminated eol xs @ l @ eol @ rest) (length (terminated eol xs)) e = eol"
proof -
  let ?p = "terminated eol xs"
  obtain cr where cr: "eol = cr @ [LF]" "LF \<notin> set cr" using assms(1) by (auto simp: text_of_def eols_def)
  have l: "LF \<notin> set l" using assms(1) by (simp add: text_of_def clean_line_def)
  let ?o = "?p @ l @ eol @ rest" and ?n = "min e (length (?p @ l @ eol @ rest)) - length ?p"
  have "length (l @ eol) \<le> ?n" using assms(2) by simp
  then have "take ?n ((l @ eol) @ rest) = (l @ eol) @ take (?n - length (l @ eol)) rest"
    by (rule take_whole)
  then obtain r where r: "take ?n (drop (length ?p) ?o) = (l @ cr) @ LF # r" using cr(1) by simp
  moreover have "newline_at ?o (length ?p + length (l @ cr)) = eol"
    using eol_reads(1) [where eol = eol and rest = rest, OF _ before_eol [OF assms(1)]] assms(1) cr(1) by (simp add: text_of_def add.assoc)
  moreover have "position (\<lambda>b. b = LF) ((l @ cr) @ LF # r) = Some (length (l @ cr))"
    using l cr(2) by (intro position_first) simp
  moreover have "min (length ?p) (length ?o) = length ?p" "min (max e (length ?p)) (length ?o) = min e (length ?o)"
    using assms(2) by simp_all
  ultimately show ?thesis
    unfolding preferred_line_ending_near_range_def Let_def by (simp only: r option.case)
qed

lemma line_edit_range_terminated:
  assumes whole: "text_of eol ls" and ab: "0 < a" "a \<le> b" "b \<le> length ls"
  shows "line_edit_range (terminated eol ls) a b index = Inr
    \<lparr>lr_start_byte = length (terminated eol (take (a - 1) ls)), lr_end_byte = length (terminated eol (take b ls)),
     lr_content_end = length (terminated eol (take b ls)) - length eol, lr_trailing_newline_len = length eol,
     lr_preceding_newline_len = newline_ending_len_at (terminated eol ls) (length (terminated eol (take (a - 1) ls)))\<rparr>"
proof -
  have range: "line_range_bytes (terminated eol ls) a b index
      = Inr (length (terminated eol (take (a - 1) ls)), length (terminated eol (take b ls)))"
    using starts_nth [OF whole, of "a - 1"] starts_nth [OF whole, of b] ab by (simp add: line_range_bytes_def Let_def)
  obtain xs l ys zs where s: "ls = xs @ (l # ys) @ zs" "xs = take (a - 1) ls" "take b ls = xs @ l # ys"
    using line_split [OF ab] by metis
  obtain us m where us: "l # ys = us @ [m]" by (metis append_butlast_last_id list.distinct(1))
  have "text_of eol ((xs @ us) @ [m])" using whole unfolding s(1) us by (simp add: text_of_def)
  from eol_reads(2) [where eol = eol and rest = "terminated eol zs", OF _ before_eol [OF this]] whole
  have "newline_ending_len_at (terminated eol ls) (length (terminated eol (take b ls))) = length eol"
    unfolding s(3) unfolding s(1) us by (simp add: terminated_append text_of_def add.assoc)
  moreover have "length (terminated eol (take (a - 1) ls)) < length (terminated eol (take b ls))"
    using whole unfolding s(2) [symmetric] s(3) by (auto simp: terminated_append text_of_def eols_def)
  ultimately show ?thesis using range by (simp add: line_edit_range_def Let_def)
qed

definition line_edit :: "string \<Rightarrow> nat \<Rightarrow> nat \<Rightarrow> (string \<times> json) list \<Rightarrow> json" where
  "line_edit edit_type a b others =
     JObj ([(''type'', JStr edit_type), (''start_line'', JInt (int a)), (''end_line'', JInt (int b))] @ others)"

lemma one_edit:
  assumes "resolve_precise_edit rx original edit 0 = Inr [e]"
  shows "apply_precise_edits rx original [edit] = Inr (apply_one original e)"
  using assms by (simp add: apply_precise_edits_def resolve_all_def apply_resolved_def)

lemma line_edit_reads:
  assumes "edit = line_edit edit_type a b others" "a \<le> u64_max" "b \<le> u64_max" "0 < a" "0 < b"
    and "edit_type = ''replace_lines'' \<or> edit_type = ''delete_lines''" "map_of others ''expected_text'' = None"
  shows "resolve_precise_edit rx original edit 0 =
    and_then (line_edit_range original a b 0) (\<lambda>lr.
       Inr [if edit_type = ''delete_lines''
            then \<lparr>re_input_index = 0,
                  re_start_byte = (if lr_trailing_newline_len lr > 0 \<or> lr_preceding_newline_len lr = 0
                    then lr_start_byte lr else lr_start_byte lr - lr_preceding_newline_len lr),
                  re_end_byte = lr_end_byte lr, re_replacement = []\<rparr>
            else \<lparr>re_input_index = 0, re_start_byte = lr_start_byte lr, re_end_byte = lr_content_end lr,
                  re_replacement = adapt_newlines_to_range
                    (case Option.bind (map_of others ''new_text'') as_str of Some t \<Rightarrow> t | None \<Rightarrow> []) original
                    (lr_start_byte lr) (lr_end_byte lr)\<rparr>])"
proof -
  have "get_str edit ''type'' = Some edit_type" "get_u64 edit ''start_line'' = Some a"
    "get_u64 edit ''end_line'' = Some b" "get_str edit ''expected_text'' = None"
    "get_str edit ''new_text'' = Option.bind (map_of others ''new_text'') as_str"
    using assms by (simp_all add: line_edit_def get_str_def get_u64_def jget_def as_str_def as_u64_def)
  note reads = this
  from assms(6) have "resolve_precise_edit rx original edit 0 = resolve_lines original edit edit_type 0"
    by (elim disjE) (simp_all add: resolve_precise_edit_def reads(1))
  also have "\<dots> = and_then (line_edit_range original a b 0) (\<lambda>lr. Inr [if edit_type = ''delete_lines''
            then \<lparr>re_input_index = 0,
                  re_start_byte = (if lr_trailing_newline_len lr > 0 \<or> lr_preceding_newline_len lr = 0
                    then lr_start_byte lr else lr_start_byte lr - lr_preceding_newline_len lr),
                  re_end_byte = lr_end_byte lr, re_replacement = []\<rparr>
            else \<lparr>re_input_index = 0, re_start_byte = lr_start_byte lr, re_end_byte = lr_content_end lr,
                  re_replacement = adapt_newlines_to_range
                    (case Option.bind (map_of others ''new_text'') as_str of Some t \<Rightarrow> t | None \<Rightarrow> []) original
                    (lr_start_byte lr) (lr_end_byte lr)\<rparr>])"
    using assms(4,5) by (simp add: resolve_lines_def required_line_def expected_text_ok_def reads(2-5) cong: if_cong)
  finally show ?thesis .
qed

lemma normalize_plain: "\<not> contains s [CR, LF] \<Longrightarrow> normalize_newlines s = s"
proof (induction s rule: normalize_crlf.induct)
  case (1 a b s)
  then show ?case by (auto simp: starts_with_def)
qed auto

lemma expand_plain: "LF \<notin> set s \<Longrightarrow> expand_crlf s = s"
  by (induction s) (auto simp: expand_crlf_def)

lemma expand_append: "expand_crlf (s @ t) = expand_crlf s @ expand_crlf t"
  by (simp add: expand_crlf_def)

lemma adapted_lines:
  assumes "new \<noteq> []" "list_all clean_line new" "eol \<in> eols"
  shows "(if eol = [CR, LF] then expand_crlf (normalize_newlines (join [LF] new))
          else normalize_newlines (join [LF] new)) = join eol new"
proof -
  have "\<not> contains (join [LF] new) [CR, LF]"
  proof
    assume "contains (join [LF] new) [CR, LF]"
    then have "contains (terminated [LF] new) [CR, LF]"
      unfolding join_terminated [OF assms(1), symmetric] contains_iff by fastforce
    with assms contains_crlf_terminated [of new "[LF]"] show False by (simp add: list_all_iff)
  qed
  then have "normalize_newlines (join [LF] new) = join [LF] new" by (rule normalize_plain)
  moreover have "expand_crlf (join [LF] new) = join [CR, LF] new"
    using assms(1,2)
  proof (induction "[LF]" new rule: join.induct)
    case (2 x)
    then show ?case by (simp add: expand_plain clean_line_def)
  next
    case (3 x y xs)
    then have "expand_crlf (join [LF] (y # xs)) = join [CR, LF] (y # xs)" "expand_crlf x = x"
      by (simp_all add: expand_plain clean_line_def)
    then show ?case by (simp add: expand_append) (simp add: expand_crlf_def)
  qed simp
  ultimately show ?thesis using assms(3) by (auto simp: eols_def)
qed

text \<open>
  C33. Edits of whole lines mean lines: on a text whose lines all end the same way, deleting the lines
  \<open>a\<close> to \<open>b\<close> leaves the others, and replacing them by new lines, given with line feeds, puts those
  lines in their place with the line ending of the file.
\<close>

theorem line_edits_exact:
  assumes "text_of eol ls" and "0 < a" "a \<le> b" "b \<le> length ls" "b \<le> u64_max"
    and "new \<noteq> []" "list_all clean_line new"
  shows "apply_precise_edits rx (terminated eol ls) [line_edit ''delete_lines'' a b []]
      = Inr (terminated eol (take (a - 1) ls @ drop b ls))
    \<and> apply_precise_edits rx (terminated eol ls)
        [line_edit ''replace_lines'' a b [(''new_text'', JStr (join [LF] new))]]
      = Inr (terminated eol (take (a - 1) ls @ new @ drop b ls))"
proof -
  obtain xs l ys zs where s: "ls = xs @ (l # ys) @ zs" "xs = take (a - 1) ls" "zs = drop b ls"
    "take b ls = xs @ l # ys" using line_split [OF assms(2-4)] by metis
  note range = line_edit_range_terminated [OF assms(1-4), of 0, folded s(2), unfolded s(4)]
  have eol: "0 < length eol" "eol \<in> eols" using assms(1) by (auto simp: text_of_def eols_def)
  have a: "a \<le> u64_max" "0 < b" using assms by simp_all
  let ?o = "terminated eol ls" and ?s = "length (terminated eol xs)" and ?e = "length (terminated eol (xs @ l # ys))"
  have o: "?o = terminated eol (xs @ l # ys) @ terminated eol zs" unfolding s(1) by (simp add: terminated_append)
  have "apply_precise_edits rx ?o [line_edit ''delete_lines'' a b []]
      = Inr (replace_range ?o ?s ?e [])"
    using one_edit [of rx ?o "line_edit ''delete_lines'' a b []"] assms(2) a assms(5) eol(1)
    by (simp add: line_edit_reads range apply_one_def)
  also have "replace_range ?o ?s ?e [] = terminated eol (xs @ zs)"
    unfolding o replace_range_def by (simp add: terminated_append)
  finally have delete: "apply_precise_edits rx ?o [line_edit ''delete_lines'' a b []] = Inr (terminated eol (xs @ zs))" .
  have "preferred_line_ending_near_range ?o ?s ?e = eol"
    using preferred_is_eol [of eol xs l ?e "terminated eol (ys @ zs)"] assms(1)
    unfolding s(1) by (simp add: terminated_append text_of_def)
  then have "adapt_newlines_to_range (join [LF] new) ?o ?s ?e = join eol new"
    using adapted_lines [OF assms(6,7) eol(2)] by (simp add: adapt_newlines_to_range_def)
  then have "apply_precise_edits rx ?o [line_edit ''replace_lines'' a b [(''new_text'', JStr (join [LF] new))]]
      = Inr (replace_range ?o ?s (?e - length eol) (join eol new))"
    using one_edit [of rx ?o "line_edit ''replace_lines'' a b [(''new_text'', JStr (join [LF] new))]"] assms(2) a assms(5)
    by (simp add: line_edit_reads range apply_one_def as_str_def)
  also have "replace_range ?o ?s (?e - length eol) (join eol new) = terminated eol (xs @ new @ zs)"
  proof -
    obtain us m where us: "l # ys = us @ [m]" by (metis append_butlast_last_id list.distinct(1))
    have "drop (?e - length eol) ?o = eol @ terminated eol zs"
      unfolding o us by (simp add: terminated_append)
    moreover have "take ?s ?o = terminated eol xs" unfolding o by (simp add: terminated_append)
    ultimately show ?thesis
      using join_terminated [OF assms(6), of eol] by (simp add: replace_range_def terminated_append)
  qed
  finally show ?thesis using delete unfolding s(2) [symmetric] s(3) [symmetric] by blast
qed

section \<open>The contract\<close>

lemma edit_issues_none:
  assumes "validate_precise_edit_contract edits = Inr ()" "(index, edit) \<in> set (enumerate 0 edits)"
  obtains object edit_type rules where "edit = JObj object" "get_str edit ''type'' = Some edit_type"
    "edit_fields edit_type = Some rules" "field_issues object edit_type rules = []"
proof -
  have "concat (map edit_issues (enumerate 0 edits)) = []"
    using assms(1) by (auto simp: validate_precise_edit_contract_def Let_def split: if_split_asm)
  then have none: "edit_issues (index, edit) = []" using assms(2) unfolding concat_eq_Nil_conv by fastforce
  then obtain object where object: "edit = JObj object" by (cases edit) (auto simp: edit_issues_def as_object_def)
  then have "get_str edit ''type'' = Option.bind (map_of object ''type'') as_str"
    by (simp add: get_str_def jget_def)
  then show thesis using none object that
    by (auto simp: edit_issues_def as_object_def split: option.split_asm)
qed

lemma positive_field:
  "positive_issue object field = [] \<Longrightarrow> map_of object field \<noteq> None \<Longrightarrow>
   \<exists>n. get_u64 (JObj object) field = Some n \<and> 0 < n"
  by (auto simp: positive_issue_def get_u64_def jget_def split: option.split_asm if_split_asm)

lemma text_field:
  "string_field_issue object non_empty field = [] \<Longrightarrow> map_of object field \<noteq> None \<Longrightarrow>
   \<exists>t. get_str (JObj object) field = Some t \<and> (field \<in> set non_empty \<longrightarrow> t \<noteq> [])"
  by (auto simp: string_field_issue_def get_str_def jget_def split: option.split_asm if_split_asm)

lemma field_issues_none:
  assumes "field_issues object edit_type (allowed, required, non_empty) = []"
  shows "\<And>f. f \<in> set required \<Longrightarrow> map_of object f \<noteq> None"
    "\<And>f. f \<in> set STRING_FIELDS \<Longrightarrow> string_field_issue object non_empty f = []"
    "positive_issue object ''start_line'' = []" "positive_issue object ''end_line'' = []"
    "edit_type \<in> {''replace'', ''insert_before'', ''insert_after''} \<Longrightarrow>
      (map_of object ''start_line'' = None) = (map_of object ''end_line'' = None)"
    "map_of object ''match_mode'' = None \<or> get_str (JObj object) ''match_mode'' = Some ''exact''
      \<or> get_str (JObj object) ''match_mode'' = Some ''whitespace''"
proof -
  note parts = assms [unfolded field_issues_def case_prod_conv append_is_Nil_conv map_is_Nil_conv]
  show "map_of object f \<noteq> None" if "f \<in> set required" for f
    using parts that unfolding filter_empty_conv by blast
  show "string_field_issue object non_empty f = []" if "f \<in> set STRING_FIELDS" for f
    using parts that unfolding concat_eq_Nil_conv by auto
  show "positive_issue object ''start_line'' = []" "positive_issue object ''end_line'' = []" using parts by blast+
  show "(map_of object ''start_line'' = None) = (map_of object ''end_line'' = None)"
    if "edit_type \<in> {''replace'', ''insert_before'', ''insert_after''}"
  proof (rule ccontr)
    assume "(map_of object ''start_line'' = None) \<noteq> (map_of object ''end_line'' = None)"
    then have "(map_of object ''start_line'' \<noteq> None) \<noteq> (map_of object ''end_line'' \<noteq> None)" by argo
    with parts that show False by simp
  qed
  show "map_of object ''match_mode'' = None \<or> get_str (JObj object) ''match_mode'' = Some ''exact''
      \<or> get_str (JObj object) ''match_mode'' = Some ''whitespace''"
  proof (cases "map_of object ''match_mode''")
    case (Some v)
    then have "get_str (JObj object) ''match_mode'' = as_str v" by (simp add: get_str_def jget_def)
    with Some parts show ?thesis by (cases "as_str v = Some ''exact'' \<or> as_str v = Some ''whitespace''") simp_all
  qed simp
qed

lemma map_res_Inl: "map_res f xs = Inl e \<Longrightarrow> \<exists>x \<in> set xs. f x = Inl e"
  by (induction xs) (auto simp: and_then_Inl_iff)

lemma map_res_fails: "x \<in> set xs \<Longrightarrow> f x = Inl e \<Longrightarrow> \<exists>e'. map_res f xs = Inl e'"
proof (induction xs)
  case (Cons y xs)
  then show ?case by (cases "f y"; cases "map_res f xs") auto
qed simp

lemma line_errors: "byte_to_line content i = Inl e \<Longrightarrow> e = Panics" "candidate_range original c = Inl e \<Longrightarrow> e = Panics"
  "text_candidate_context original r c = Inl e \<Longrightarrow> e = Panics"
proof -
  have byte: "e = Panics" if "byte_to_line x i = Inl e" for x i e
    using that by (simp add: byte_to_line_def split: if_split_asm)
  have range: "e = Panics" if "candidate_range x c = Inl e" for x c e
    using that by (auto simp: candidate_range_def and_then_Inl_iff dest: byte)
  show "byte_to_line content i = Inl e \<Longrightarrow> e = Panics" "candidate_range original c = Inl e \<Longrightarrow> e = Panics"
    by (fact byte range)+
  show "text_candidate_context original r c = Inl e \<Longrightarrow> e = Panics"
    by (auto simp: text_candidate_context_def Let_def and_then_Inl_iff dest: range)
qed

lemma match_count_error_cases:
  obtains "match_count_error original index n cs = Panics" "\<exists>c \<in> set cs. candidate_range original c = Inl Panics
      \<or> byte_to_line original (fst c) = Inl Panics"
  | m where "match_count_error original index n cs = MatchCountMismatch m"
      "\<forall>c \<in> set cs. candidate_range original c \<noteq> Inl Panics"
proof (cases "map_res (\<lambda>c. byte_to_line original (fst c)) cs")
  case (Inl e)
  with map_res_Inl [OF this] line_errors(1) show thesis
    by (intro that(1)) (auto simp: match_count_error_def)
next
  case first: (Inr ls)
  show thesis
  proof (cases "map_res (candidate_range original) cs")
    case (Inl e)
    then obtain c where c: "c \<in> set cs" "candidate_range original c = Inl e" by (blast dest: map_res_Inl)
    with line_errors(2) have "e = Panics" by blast
    with c Inl first show thesis by (intro that(1)) (auto simp: match_count_error_def)
  next
    case second: (Inr rs)
    then have none: "\<forall>c \<in> set cs. candidate_range original c \<noteq> Inl Panics"
      using map_res_fails by fastforce
    then obtain shown where "text_candidate_contexts original cs 3 = Inr shown"
    proof (cases "text_candidate_contexts original cs 3")
      case (Inl e)
      then obtain c where "c \<in> set cs" "text_candidate_context original 3 c = Inl e"
        unfolding text_candidate_contexts_def by (blast dest: map_res_Inl in_set_takeD)
      with none line_errors(3) [of original 3 c e] show thesis
        by (auto simp: text_candidate_context_def Let_def and_then_Inl_iff)
    qed blast
    with first second none show thesis by (intro that(2)) (auto simp: match_count_error_def)
  qed
qed

lemma targets_not_invalid:
  assumes "\<forall>pat t. rx_find_iter rx pat t \<noteq> None"
    and "(get_u64 edit ''start_line'' = None) = (get_u64 edit ''end_line'' = None)"
    and "get_str edit ''match_mode'' \<in> {None, Some ''exact'', Some ''whitespace''}"
  shows "resolve_text_targets rx original edit target index \<noteq> Inl InvalidArgument"
proof
  assume "resolve_text_targets rx original edit target index = Inl InvalidArgument"
  then consider "search_range original edit index = Inl InvalidArgument"
    | bounds mode where "text_candidates rx original target bounds mode = Inl InvalidArgument"
        "mode = ''exact'' \<or> mode = ''whitespace''"
    | n cs where "match_count_error original index n cs = InvalidArgument"
    using assms(3) by (auto simp: resolve_text_targets_def Let_def and_then_Inl_iff split: if_split_asm)
  then show False
  proof cases
    case 1
    with assms(2) show False
      by (auto simp: search_range_def line_range_bytes_def Let_def split: option.split_asm if_split_asm)
  next
    case 2
    have "whitespace_text_candidates rx original target bounds \<noteq> Inl InvalidArgument"
      using assms(1) [rule_format, of "whitespace_flexible_pattern rx target"]
      by (auto simp: whitespace_text_candidates_def split: option.split)
    with 2 show False by (auto simp: text_candidates_def split: if_split_asm)
  next
    case 3
    then show False using match_count_error_cases [of original index n cs] by fastforce
  qed
qed

lemma lines_not_invalid: "line_edit_range original a b index \<noteq> Inl InvalidArgument"
  by (auto simp: line_edit_range_def line_range_bytes_def Let_def and_then_Inl_iff)

lemma edit_fields_cases:
  assumes "edit_fields edit_type = Some (allowed, required, non_empty)"
  obtains "edit_type = ''replace''" "set required = {''type'', ''old_text'', ''new_text''}" "set non_empty = {''old_text''}"
  | "edit_type = ''insert_before'' \<or> edit_type = ''insert_after''" "set required = {''type'', ''anchor'', ''text''}"
    "set non_empty = {''anchor'', ''text''}"
  | "edit_type = ''replace_lines'' \<or> edit_type = ''delete_lines''" "''start_line'' \<in> set required" "''end_line'' \<in> set required"
  using assms by (auto simp: edit_fields_def split: if_split_asm)

lemma valid_edit_resolves:
  assumes rx: "\<forall>pat t. rx_find_iter rx pat t \<noteq> None"
    and "get_str (JObj object) ''type'' = Some edit_type" "edit_fields edit_type = Some (allowed, required, non_empty)"
    and none: "field_issues object edit_type (allowed, required, non_empty) = []"
  shows "resolve_precise_edit rx original (JObj object) index \<noteq> Inl InvalidArgument"
proof -
  note f = field_issues_none [OF none]
  have needed: "required_edit_text (JObj object) k \<noteq> Inl InvalidArgument"
    if k: "k \<in> set required" "k \<in> set non_empty" "k \<in> set STRING_FIELDS" for k
  proof -
    obtain t where "get_str (JObj object) k = Some t" "t \<noteq> []"
      using text_field [OF f(2) [OF k(3)] f(1) [OF k(1)]] k(2) by blast
    then show ?thesis by (simp add: required_edit_text_def)
  qed
  have strings: "''old_text'' \<in> set STRING_FIELDS" "''anchor'' \<in> set STRING_FIELDS" "''text'' \<in> set STRING_FIELDS"
    by (simp_all add: STRING_FIELDS_def)
  have mode: "get_str (JObj object) ''match_mode'' \<in> {None, Some ''exact'', Some ''whitespace''}"
    using f(6) by (auto simp: get_str_def jget_def)
  have absent: "map_of object k = None \<Longrightarrow> get_u64 (JObj object) k = None" for k
    by (simp add: get_u64_def jget_def)
  have line_pair: "(get_u64 (JObj object) ''start_line'' = None) = (get_u64 (JObj object) ''end_line'' = None)"
    if "edit_type \<in> {''replace'', ''insert_before'', ''insert_after''}"
    using f(5) [OF that] positive_field [OF f(3)] positive_field [OF f(4)] absent by force
  from assms(3) show ?thesis
  proof (cases rule: edit_fields_cases)
    case 1
    then have "required_edit_text (JObj object) ''old_text'' \<noteq> Inl InvalidArgument"
      by (intro needed strings) simp_all
    moreover have "resolve_text_targets rx original (JObj object) t index \<noteq> Inl InvalidArgument" for t
      using targets_not_invalid [OF rx line_pair mode] 1(1) by simp
    ultimately show ?thesis using assms(2) 1(1)
      by (simp add: resolve_precise_edit_def resolve_replace_def and_then_Inl_iff Let_def)
  next
    case 2
    then have "required_edit_text (JObj object) ''anchor'' \<noteq> Inl InvalidArgument"
      "required_edit_text (JObj object) ''text'' \<noteq> Inl InvalidArgument"
      by (intro needed strings; simp)+
    moreover have "resolve_text_targets rx original (JObj object) t index \<noteq> Inl InvalidArgument" for t
      using targets_not_invalid [OF rx line_pair mode] 2(1) by auto
    ultimately have "resolve_insert rx original (JObj object) edit_type index \<noteq> Inl InvalidArgument"
      by (simp add: resolve_insert_def and_then_Inl_iff)
    then show ?thesis using assms(2) 2(1) by (auto simp: resolve_precise_edit_def)
  next
    case 3
    then obtain a b where "get_u64 (JObj object) ''start_line'' = Some a" "0 < a"
      "get_u64 (JObj object) ''end_line'' = Some b" "0 < b"
      using positive_field [OF f(3)] positive_field [OF f(4)] f(1) by metis
    then have "required_line (JObj object) ''start_line'' \<noteq> Inl InvalidArgument"
      "required_line (JObj object) ''end_line'' \<noteq> Inl InvalidArgument" by (simp_all add: required_line_def)
    moreover have "expected_text_ok original e lr a b i \<noteq> Inl InvalidArgument" for e lr a b i
      by (simp add: expected_text_ok_def Let_def split: option.split)
    ultimately have "resolve_lines original (JObj object) edit_type index \<noteq> Inl InvalidArgument"
      using lines_not_invalid by (simp add: resolve_lines_def and_then_Inl_iff)
    then show ?thesis using assms(2) 3(1) by (auto simp: resolve_precise_edit_def)
  qed
qed

text \<open>
  The contract of the edits is complete: edits that pass it are never refused as malformed when they
  are resolved and applied (provided the patterns made from their texts compile); what can still fail
  is that a text or a line is not there.
\<close>

lemma valid_edits_are_well_formed:
  assumes "validate_precise_edit_contract edits = Inr ()" and "\<forall>pat t. rx_find_iter rx pat t \<noteq> None"
  shows "apply_precise_edits rx original edits \<noteq> Inl InvalidArgument"
proof
  assume "apply_precise_edits rx original edits = Inl InvalidArgument"
  then consider "resolve_all rx original edits = Inl InvalidArgument"
    | es where "validate_resolved_edits es = Inl InvalidArgument"
    by (auto simp: apply_precise_edits_def and_then_Inl_iff)
  then show False
  proof cases
    case 1
    then have "map_res (\<lambda>(index, edit). resolve_precise_edit rx original edit index) (enumerate 0 edits)
        = Inl InvalidArgument"
      unfolding resolve_all_def by (cases rule: sum.exhaust) (auto simp: map_sum_def split: sum.split_asm)
    then obtain index edit where e: "(index, edit) \<in> set (enumerate 0 edits)"
      "resolve_precise_edit rx original edit index = Inl InvalidArgument" by (auto dest!: map_res_Inl)
    from edit_issues_none [OF assms(1) e(1)] obtain object edit_type rules where "edit = JObj object"
      "get_str edit ''type'' = Some edit_type" "edit_fields edit_type = Some rules"
      "field_issues object edit_type rules = []" by metis
    with valid_edit_resolves [OF assms(2)] e(2) show False by (cases rules) auto
  next
    case 2
    then show False by (induction es) (auto split: option.split_asm)
  qed
qed

section \<open>The report on a text that is not unique\<close>

lemma match_indices_found:
  "target \<noteq> [] \<Longrightarrow> i \<in> set (match_indices target s k) \<Longrightarrow> \<exists>u v. s = u @ target @ v \<and> i = k + length u"
proof (induction target s k rule: match_indices.induct)
  case (2 target c cs k)
  show ?case
  proof (cases "starts_with (c # cs) target")
    case True
    then obtain r where r: "c # cs = target @ r" by (auto simp: starts_with_iff)
    then have rest: "drop (length target - 1) cs = r" "max 1 (length target) = length target"
      using 2(3) by (cases target; auto)+
    from 2(4) True have "i = k \<or> i \<in> set (match_indices target r (k + length target))"
      unfolding match_indices.simps rest by simp
    then show ?thesis
    proof
      assume "i = k"
      with r show ?thesis by (intro exI [of _ "[]"] exI [of _ r]) simp
    next
      assume "i \<in> set (match_indices target r (k + length target))"
      with "2.IH"(1) [OF True] 2(3) obtain u v where "r = u @ target @ v" "i = k + length target + length u"
        unfolding rest by auto
      with r show ?thesis by (intro exI [of _ "target @ u"] exI [of _ v]) simp
    qed
  next
    case False
    with "2.IH"(2) 2(3,4) obtain u v where "cs = u @ target @ v" "i = k + 1 + length u" by auto
    then show ?thesis by (intro exI [of _ "c # u"] exI [of _ v]) simp
  qed
qed simp

text \<open>
  C34. Replacing a text that ends in a character of more than one byte and occurs more than once makes
  the tool panic: the report of the candidates cuts the file one byte before the end of a match, which
  is inside that character.
\<close>

theorem ambiguous_multibyte_text_panics:
  assumes "LF \<notin> set target" "1 < length target" "continuation (last target)"
    and "1 < length (match_indices target original 0)"
  shows "apply_precise_edits rx original
      [JObj [(''new_text'', JStr new), (''old_text'', JStr target), (''type'', JStr ''replace'')]] = Inl Panics"
proof -
  let ?edit = "JObj [(''new_text'', JStr new), (''old_text'', JStr target), (''type'', JStr ''replace'')]"
  let ?cs = "exact_text_candidates original target (0, length original)"
  have target: "target \<noteq> []" using assms(2) by auto
  have cs: "?cs = map (\<lambda>i. (i, i + length target)) (match_indices target original 0)"
    using assms(1) by (simp add: exact_text_candidates_def)
  obtain i where i: "i \<in> set (match_indices target original 0)"
    using assms(4) by (cases "match_indices target original 0") auto
  then obtain u v where uv: "original = u @ target @ v" "i = length u"
    using match_indices_found [OF target] by fastforce
  let ?b = "i + length target - 1"
  have "original ! ?b = last target" "?b < length original" "?b \<noteq> 0"
    using assms(2) unfolding uv by (auto simp: nth_append last_conv_nth [OF target])
  then have "byte_to_line original ?b = Inl Panics"
    using assms(3) by (simp add: byte_to_line_def is_char_boundary_def)
  moreover have "byte_to_line original i = Inl Panics \<or> (\<exists>n. byte_to_line original i = Inr n)"
    by (simp add: byte_to_line_def)
  ultimately have "candidate_range original (i, i + length target) = Inl Panics"
    by (auto simp: candidate_range_def)
  moreover have "(i, i + length target) \<in> set ?cs" using i unfolding cs by auto
  ultimately have panic: "match_count_error original 0 1 ?cs = Panics"
    using match_count_error_cases [of original 0 1 ?cs] by metis
  have "length ?cs \<noteq> 1" using assms(4) unfolding cs by simp
  then have "resolve_text_targets rx original ?edit target 0 = Inl Panics"
    by (simp add: resolve_text_targets_def search_range_def text_candidates_def expected_occurrences_def
        get_str_def get_u64_def jget_def context_matches_def panic [unfolded One_nat_def] filter_True)
  then have "resolve_precise_edit rx original ?edit 0 = Inl Panics"
    using target by (simp add: resolve_precise_edit_def resolve_replace_def required_edit_text_def
        get_str_def jget_def as_str_def)
  then show ?thesis by (simp add: apply_precise_edits_def resolve_all_def)
qed

theorem line_edits_exact_witness:
  "apply_precise_edits \<lparr>rx_escape = id, rx_find_iter = \<lambda>_ _. None, rx_is_match = \<lambda>_ _. None\<rparr>
     (terminated [CR, LF] [''a'', ''b'', ''c'']) [line_edit ''delete_lines'' 2 3 []]
   = Inr (terminated [CR, LF] [''a''])"
proof -
  have "text_of [CR, LF] [''a'', ''b'', ''c'']" "list_all clean_line [''x'']" "3 \<le> u64_max"
    by (simp_all add: text_of_def eols_def clean_line_def LF_CR_lit u64_max_def)
  from line_edits_exact [OF this(1) _ _ _ this(3) _ this(2), of 2] show ?thesis by simp
qed

theorem valid_edits_are_well_formed_witness:
  "apply_precise_edits \<lparr>rx_escape = id, rx_find_iter = \<lambda>_ _. Some [], rx_is_match = \<lambda>_ _. None\<rparr> ''fn main''
     [JObj [(''new_text'', JStr ''y''), (''old_text'', JStr ''x''), (''type'', JStr ''replace'')]] \<noteq> Inl InvalidArgument"
proof -
  have "validate_precise_edit_contract
     [JObj [(''new_text'', JStr ''y''), (''old_text'', JStr ''x''), (''type'', JStr ''replace'')]] = Inr ()" by code_simp
  from valid_edits_are_well_formed [OF this] show ?thesis by simp
qed

text \<open>The bytes of an accented letter.\<close>

definition e_acute :: string where "e_acute = [CHR 0xC3, CHR 0xA9]"

theorem ambiguous_multibyte_text_panics_witness:
  "apply_precise_edits \<lparr>rx_escape = id, rx_find_iter = \<lambda>_ _. None, rx_is_match = \<lambda>_ _. None\<rparr>
     (''caf'' @ e_acute @ '' - th'' @ e_acute)
     [JObj [(''new_text'', JStr ''e''), (''old_text'', JStr e_acute), (''type'', JStr ''replace'')]] = Inl Panics"
proof (rule ambiguous_multibyte_text_panics)
  show "LF \<notin> set e_acute" "1 < length e_acute" by (simp_all add: e_acute_def LF_CR_lit)
  show "continuation (last e_acute)" by code_simp
  show "1 < length (match_indices e_acute (''caf'' @ e_acute @ '' - th'' @ e_acute) 0)" by code_simp
qed

end
