(* ===== verification/Line_Distance.thy ===== *)
theory Line_Distance
  imports Prelude "HOL-Library.Code_Target_Nat"
begin

text \<open>
  \<open>bounded_line_edit_distance\<close> of \<open>tools/patch/precise_edit.rs\<close>: the number of lines to delete and to
  insert to turn one text into another, found by walking the diagonals of the edit grid from the
  corner outwards.  Lines are opaque here.  Offsets are naturals: the line counts fit an \<open>isize\<close>.
\<close>

section \<open>The search\<close>

text \<open>Equal lines are skipped along the diagonal.\<close>

function slide :: "'a list \<Rightarrow> 'a list \<Rightarrow> nat \<Rightarrow> int \<Rightarrow> nat \<times> int" where
  "slide before after x y =
     (if x < length before \<and> y \<ge> 0 \<and> nat y < length after \<and> before ! x = after ! nat y
      then slide before after (x + 1) (y + 1) else (x, y))"
  by pat_completeness auto
termination by (relation "measure (\<lambda>(before, after, x, y). length before - x)") auto

declare slide.simps [simp del]

text \<open>The furthest point of the previous round on a diagonal, if it was visited.\<close>

type_synonym frontier = "int \<Rightarrow> nat option"

definition start_x :: "frontier \<Rightarrow> nat \<Rightarrow> int \<Rightarrow> nat" where
  "start_x frontier distance diagonal =
     (let down = frontier (diagonal + 1);
          right = frontier (diagonal - 1);
          rank = (\<lambda>v. case v of Some x \<Rightarrow> int x | None \<Rightarrow> -1)
      in if diagonal = - int distance \<or> (diagonal \<noteq> int distance \<and> rank right < rank down)
         then (case down of Some x \<Rightarrow> x | None \<Rightarrow> 0)
         else (case right of Some x \<Rightarrow> x | None \<Rightarrow> 0) + 1)"

text \<open>One round visits the diagonals in order; it stops at the far corner.\<close>

fun visit_diagonals ::
    "'a list \<Rightarrow> 'a list \<Rightarrow> frontier \<Rightarrow> nat \<Rightarrow> int list \<Rightarrow> frontier \<Rightarrow> nat + frontier" where
  "visit_diagonals before after frontier distance [] reached = Inr reached"
| "visit_diagonals before after frontier distance (diagonal # rest) reached =
     (let x0 = start_x frontier distance diagonal;
          (x, y) = slide before after x0 (int x0 - diagonal)
      in if x \<ge> length before \<and> y \<ge> int (length after) then Inl distance
         else visit_diagonals before after frontier distance rest (reached(diagonal \<mapsto> x)))"

definition diagonals :: "nat \<Rightarrow> int list" where
  "diagonals distance = map (\<lambda>i. 2 * int i - int distance) [0..<Suc distance]"

fun rounds :: "'a list \<Rightarrow> 'a list \<Rightarrow> frontier \<Rightarrow> nat list \<Rightarrow> nat option" where
  "rounds before after frontier [] = None"
| "rounds before after frontier (distance # rest) =
     (case visit_diagonals before after frontier distance (diagonals distance) Map.empty of
        Inl d \<Rightarrow> Some d
      | Inr reached \<Rightarrow> rounds before after reached rest)"

definition bounded_line_edit_distance :: "'a list \<Rightarrow> 'a list \<Rightarrow> nat \<Rightarrow> nat option" where
  "bounded_line_edit_distance before after max_distance =
     (if max (length before) (length after) - min (length before) (length after) > max_distance then None
      else rounds before after [1 \<mapsto> 0]
             [0..<Suc (min max_distance (sat_add (length before) (length after)))])"

section \<open>Reference: scripts of deletions and insertions\<close>

inductive edited :: "nat \<Rightarrow> 'a list \<Rightarrow> 'a list \<Rightarrow> bool" where
  nothing: "edited 0 [] []"
| keep: "edited d xs ys \<Longrightarrow> edited d (z # xs) (z # ys)"
| delete: "edited d xs ys \<Longrightarrow> edited (Suc d) (x # xs) ys"
| insert: "edited d xs ys \<Longrightarrow> edited (Suc d) xs (y # ys)"

definition least_edits :: "nat \<Rightarrow> 'a list \<Rightarrow> 'a list \<Rightarrow> bool" where
  "least_edits d xs ys \<longleftrightarrow> edited d xs ys \<and> (\<forall>e < d. \<not> edited e xs ys)"

lemma edited_all: "edited (length xs + length ys) xs ys"
proof (induction xs)
  case Nil
  show ?case by (induction ys) (auto intro: edited.intros)
qed (auto intro: edited.delete)

lemma edited_append: "edited d xs ys \<Longrightarrow> edited e us vs \<Longrightarrow> edited (d + e) (xs @ us) (ys @ vs)"
  by (induction rule: edited.induct) (auto intro: edited.intros)

lemma edited_snoc:
  assumes "edited d xs ys"
  shows "edited d (xs @ [z]) (ys @ [z])" "edited (Suc d) (xs @ [x]) ys" "edited (Suc d) xs (ys @ [y])"
proof -
  have "edited 0 [z] [z]" "edited (Suc 0) [x] []" "edited (Suc 0) [] [y]"
    by (rule edited.intros, rule edited.intros)+
  from this [THEN edited_append [OF assms]] show "edited d (xs @ [z]) (ys @ [z])"
    "edited (Suc d) (xs @ [x]) ys" "edited (Suc d) xs (ys @ [y])" by simp_all
qed

section \<open>The grid\<close>

text \<open>
  \<open>at d x y\<close>: the point \<open>(x, y)\<close> is reached with \<open>d\<close> steps to the right or down.  As in the code a
  step may leave the grid.
\<close>

inductive at :: "'a list \<Rightarrow> 'a list \<Rightarrow> nat \<Rightarrow> nat \<Rightarrow> nat \<Rightarrow> bool" for before after where
  origin: "at before after 0 0 0"
| right: "at before after d x y \<Longrightarrow> at before after (Suc d) (Suc x) y"
| down: "at before after d x y \<Longrightarrow> at before after (Suc d) x (Suc y)"
| diagonal: "at before after d x y \<Longrightarrow> x < length before \<Longrightarrow> y < length after \<Longrightarrow>
    before ! x = after ! y \<Longrightarrow> at before after d (Suc x) (Suc y)"

lemma take_beyond: "length xs \<le> n \<Longrightarrow> take (Suc n) xs = take n xs"
  by simp

lemma at_edited: "at before after d x y \<Longrightarrow> \<exists>e \<le> d. edited e (take x before) (take y after)"
proof (induction rule: at.induct)
  case (right d x y)
  then obtain e where e: "e \<le> d" "edited e (take x before) (take y after)" by blast
  show ?case
  proof (cases "x < length before")
    case True
    with e(2) have "edited (Suc e) (take (Suc x) before) (take y after)"
      by (simp add: take_Suc_conv_app_nth edited_snoc)
    with e(1) show ?thesis by (meson Suc_le_mono)
  qed (use e in \<open>auto intro!: exI [of _ e]\<close>)
next
  case (down d x y)
  then obtain e where e: "e \<le> d" "edited e (take x before) (take y after)" by blast
  show ?case
  proof (cases "y < length after")
    case True
    with e(2) have "edited (Suc e) (take x before) (take (Suc y) after)"
      by (simp add: take_Suc_conv_app_nth edited_snoc)
    with e(1) show ?thesis by (meson Suc_le_mono)
  qed (use e in \<open>auto intro!: exI [of _ e]\<close>)
next
  case (diagonal d x y)
  then show ?case by (auto simp: take_Suc_conv_app_nth intro: edited_snoc)
qed (auto intro: edited.nothing)

lemma edited_at:
  assumes "edited e xs ys"
  shows "at before after d x y \<Longrightarrow> drop x before = xs \<Longrightarrow> drop y after = ys \<Longrightarrow>
    at before after (d + e) (x + length xs) (y + length ys)"
  using assms
proof (induction arbitrary: d x y rule: edited.induct)
  case (keep e xs ys z)
  then have "x < length before" "y < length after" "before ! x = after ! y"
    "drop (Suc x) before = xs" "drop (Suc y) after = ys"
    by (metis drop_all leI list.distinct(1), metis drop_all leI list.distinct(1),
        metis hd_drop_conv_nth drop_all leI list.distinct(1) list.sel(1),
        metis drop_Suc list.sel(3) tl_drop, metis drop_Suc list.sel(3) tl_drop)
  with keep.IH [of d "Suc x" "Suc y"] keep.prems(1) show ?case by (simp add: at.diagonal)
next
  case (delete e xs ys z)
  then have "drop (Suc x) before = xs" by (metis drop_Suc list.sel(3) tl_drop)
  with delete.IH [of "Suc d" "Suc x" y] delete.prems show ?case by (simp add: at.right)
next
  case (insert e xs ys z)
  then have "drop (Suc y) after = ys" by (metis drop_Suc list.sel(3) tl_drop)
  with insert.IH [of "Suc d" x "Suc y"] insert.prems show ?case by (simp add: at.down)
qed simp

text \<open>The last edit step, and the run of equal lines after it.\<close>

definition run :: "'a list \<Rightarrow> 'a list \<Rightarrow> nat \<Rightarrow> nat \<Rightarrow> nat \<Rightarrow> bool" where
  "run before after x y n \<longleftrightarrow>
     (\<forall>i < n. x + i < length before \<and> y + i < length after \<and> before ! (x + i) = after ! (y + i))"

lemma at_run: "at before after d x y \<Longrightarrow> run before after x y n \<Longrightarrow> at before after d (x + n) (y + n)"
proof (induction n)
  case (Suc n)
  then have "at before after d (x + n) (y + n)" by (simp add: run_def)
  moreover have "x + n < length before \<and> y + n < length after \<and> before ! (x + n) = after ! (y + n)"
    using Suc.prems(2) unfolding run_def by blast
  ultimately show ?case by (simp add: at.diagonal)
qed simp

lemma run_Suc:
  "run before after x y n \<Longrightarrow> x + n < length before \<Longrightarrow> y + n < length after \<Longrightarrow>
   before ! (x + n) = after ! (y + n) \<Longrightarrow> run before after x y (Suc n)"
  unfolding run_def using less_Suc_eq by auto

lemma at_0_cases: "at before after d x y \<Longrightarrow> d = 0 \<Longrightarrow> x = y \<and> run before after 0 0 x"
proof (induction rule: at.induct)
  case (diagonal d x y)
  then show ?case using run_Suc [of before after 0 0 x] by auto
qed (auto simp: run_def)

lemma at_Suc_cases:
  assumes "at before after d x y"
  shows "d = Suc e \<Longrightarrow> \<exists>u v n. x = u + n \<and> y = v + n \<and> run before after u v n
    \<and> ((\<exists>w. u = Suc w \<and> at before after e w v) \<or> (\<exists>w. v = Suc w \<and> at before after e u w))"
  using assms
proof (induction rule: at.induct)
  case (right d x y)
  then show ?case by (intro exI [of _ "Suc x"] exI [of _ y] exI [of _ 0]) (auto simp: run_def)
next
  case (down d x y)
  then show ?case by (intro exI [of _ x] exI [of _ "Suc y"] exI [of _ 0]) (auto simp: run_def)
next
  case (diagonal d x y)
  then obtain u v n where "x = u + n" "y = v + n" "run before after u v n"
    "(\<exists>w. u = Suc w \<and> at before after e w v) \<or> (\<exists>w. v = Suc w \<and> at before after e u w)" by blast
  with diagonal.hyps show ?case
    by (intro exI [of _ u] exI [of _ v] exI [of _ "Suc n"]) (auto intro!: run_Suc)
qed simp

text \<open>The diagonals that \<open>d\<close> steps can reach.\<close>

lemma at_diagonal: "at before after d x y \<Longrightarrow> \<bar>int x - int y\<bar> \<le> int d \<and> even (int x - int y - int d)"
  by (induction rule: at.induct) auto

lemma set_diagonals: "k \<in> set (diagonals d) \<longleftrightarrow> \<bar>k\<bar> \<le> int d \<and> even (k - int d)"
proof
  assume k: "\<bar>k\<bar> \<le> int d \<and> even (k - int d)"
  then obtain m where m: "k - int d = 2 * m" by (metis dvdE)
  have "k = 2 * int (nat (m + int d)) - int d" "nat (m + int d) < Suc d" using k m by auto
  then show "k \<in> set (diagonals d)"
    by (auto simp: diagonals_def simp del: upt_Suc intro!: image_eqI [where x = "nat (m + int d)"])
qed (auto simp: diagonals_def simp del: upt_Suc)

section \<open>The furthest points\<close>

definition furthest :: "'a list \<Rightarrow> 'a list \<Rightarrow> nat \<Rightarrow> int \<Rightarrow> nat \<Rightarrow> bool" where
  "furthest before after d k x \<longleftrightarrow>
     int x \<ge> k \<and> at before after d x (nat (int x - k))
     \<and> (\<forall>u v. at before after d u v \<longrightarrow> int u - int v = k \<longrightarrow> u \<le> x)"

lemma slide_run:
  "slide before after x y = (x', y') \<Longrightarrow> 0 \<le> y \<Longrightarrow>
   \<exists>n. x' = x + n \<and> y' = y + int n \<and> run before after x (nat y) n
     \<and> \<not> (x' < length before \<and> nat y' < length after \<and> before ! x' = after ! nat y')"
proof (induction before after x y rule: slide.induct)
  case (1 before after x y)
  show ?case
  proof (cases "x < length before \<and> y \<ge> 0 \<and> nat y < length after \<and> before ! x = after ! nat y")
    case True
    with "1.prems" have "slide before after (x + 1) (y + 1) = (x', y')"
      by (simp add: slide.simps [of before after x y])
    from "1.IH" [OF True this] "1.prems"(2) obtain n where n: "x' = x + 1 + n" "y' = y + 1 + int n"
      "run before after (x + 1) (nat (y + 1)) n"
      "\<not> (x' < length before \<and> nat y' < length after \<and> before ! x' = after ! nat y')" by auto
    have "run before after x (nat y) (Suc n)"
      using n(3) True "1.prems"(2) unfolding run_def by (auto simp: less_Suc_eq_0_disj nat_add_distrib)
    with n show ?thesis by (intro exI [of _ "Suc n"]) auto
  next
    case False
    with "1.prems" show ?thesis by (auto simp: slide.simps [of before after x y] run_def intro!: exI [of _ 0])
  qed
qed

text \<open>A run that starts before a slide ends no later than the slide.\<close>

lemma slide_furthest:
  assumes "slide before after s (int s - k) = (x', y')" "k \<le> int s"
    and "run before after u v n" "int u - int v = k" "u \<le> s"
  shows "u + n \<le> x'"
proof (rule ccontr)
  assume "\<not> u + n \<le> x'"
  then have late: "x' < u + n" by simp
  from slide_run [OF assms(1)] assms(2) obtain m where m: "x' = s + m" "y' = int s - k + int m"
    "\<not> (x' < length before \<and> nat y' < length after \<and> before ! x' = after ! nat y')" by auto
  have i: "x' - u < n" "u + (x' - u) = x'" "v + (x' - u) = nat y'"
    using late assms(4,5) m(1,2) by auto
  from assms(3) [unfolded run_def, rule_format, OF i(1)] i(2,3) m(3) show False by simp
qed

text \<open>What a round knows of the previous one.\<close>

definition frontier_of :: "'a list \<Rightarrow> 'a list \<Rightarrow> nat \<Rightarrow> frontier \<Rightarrow> bool" where
  "frontier_of before after d f \<longleftrightarrow>
     (\<forall>k. if k \<in> set (diagonals d) then \<exists>x. f k = Some x \<and> furthest before after d k x else f k = None)"

lemma start_is_furthest_step:
  assumes f: "frontier_of before after d f" and k: "k \<in> set (diagonals (Suc d))"
    and s: "s = start_x f (Suc d) k"
  shows "k \<le> int s" "at before after (Suc d) s (nat (int s - k))"
    "at before after d w v \<Longrightarrow> int (Suc w) - int v = k \<Longrightarrow> Suc w \<le> s"
    "at before after d u w \<Longrightarrow> int u - int (Suc w) = k \<Longrightarrow> u \<le> s"
proof -
  have range: "\<bar>k\<bar> \<le> int (Suc d)" "even (k - int (Suc d))" using k unfolding set_diagonals by auto
  have "k + 1 \<in> set (diagonals d) \<longleftrightarrow> k \<noteq> int (Suc d)" "k - 1 \<in> set (diagonals d) \<longleftrightarrow> k \<noteq> - int (Suc d)"
    unfolding set_diagonals using range by presburger+
  with f have below: "if k = int (Suc d) then f (k + 1) = None
      else \<exists>x. f (k + 1) = Some x \<and> furthest before after d (k + 1) x"
    and above: "if k = - int (Suc d) then f (k - 1) = None
      else \<exists>x. f (k - 1) = Some x \<and> furthest before after d (k - 1) x"
    unfolding frontier_of_def by metis+
  consider (down) a where "f (k + 1) = Some a" "furthest before after d (k + 1) a" "s = a"
      "k = - int (Suc d) \<or> (\<exists>b. furthest before after d (k - 1) b \<and> b < a)"
    | (right) b where "f (k - 1) = Some b" "furthest before after d (k - 1) b" "s = Suc b"
      "k = int (Suc d) \<or> (\<exists>a. furthest before after d (k + 1) a \<and> a \<le> b)"
  proof (cases "k = - int (Suc d)")
    case True
    with below obtain a where "f (k + 1) = Some a" "furthest before after d (k + 1) a" by auto
    with True s that(1) [of a] show thesis by (simp add: start_x_def)
  next
    case notlow: False
    with above obtain b where b: "f (k - 1) = Some b" "furthest before after d (k - 1) b" by auto
    show thesis
    proof (cases "k = int (Suc d)")
      case True
      with b s notlow that(2) show thesis by (simp add: start_x_def)
    next
      case False
      with below obtain a where a: "f (k + 1) = Some a" "furthest before after d (k + 1) a" by auto
      show thesis
      proof (cases "b < a")
        case True
        with a b s notlow False that(1) [of a] show thesis by (auto simp: start_x_def)
      next
        case le: False
        then have "a \<le> b" by simp
        with a b s notlow False that(2) [of b] show thesis by (auto simp: start_x_def)
      qed
    qed
  qed
  note cases = this
  show "k \<le> int s" using cases by cases (auto simp: furthest_def)
  show "at before after (Suc d) s (nat (int s - k))"
    using cases
  proof cases
    case down
    then have "at before after d a (nat (int a - (k + 1)))" "k + 1 \<le> int a" by (auto simp: furthest_def)
    moreover from this(2) have "nat (int a - k) = Suc (nat (int a - (k + 1)))" by auto
    ultimately show ?thesis using down(3) by (simp add: at.down)
  next
    case right
    then have "at before after d b (nat (int b - (k - 1)))" by (auto simp: furthest_def)
    moreover have "int (Suc b) - k = int b - (k - 1)" by simp
    ultimately show ?thesis using right(3) by (metis at.right)
  qed
  show "Suc w \<le> s" if "at before after d w v" "int (Suc w) - int v = k" for w v
    using cases
  proof cases
    case down
    have "\<bar>int w - int v\<bar> \<le> int d" using at_diagonal [OF that(1)] by simp
    with that(2) down(4) obtain b where "furthest before after d (k - 1) b" "b < a" by auto
    with that down(3) show ?thesis by (fastforce simp: furthest_def)
  qed (use that in \<open>auto simp: furthest_def\<close>)
  show "u \<le> s" if "at before after d u w" "int u - int (Suc w) = k" for u w
    using cases
  proof cases
    case right
    have "\<bar>int u - int w\<bar> \<le> int d" using at_diagonal [OF that(1)] by simp
    with that(2) right(4) obtain a where "furthest before after d (k + 1) a" "a \<le> b" by auto
    with that right(3) show ?thesis by (fastforce simp: furthest_def)
  qed (use that in \<open>auto simp: furthest_def\<close>)
qed

lemma slide_reaches_furthest:
  assumes f: "frontier_of before after d f" and k: "k \<in> set (diagonals (Suc d))"
    and slid: "slide before after (start_x f (Suc d) k) (int (start_x f (Suc d) k) - k) = (x, y)"
  shows "furthest before after (Suc d) k x \<and> y = int x - k"
proof -
  define s where "s = start_x f (Suc d) k"
  note start = start_is_furthest_step [OF f k s_def]
  from slide_run [OF slid] start(1) obtain n where n: "x = s + n" "y = int x - k"
    "run before after s (nat (int s - k)) n" by (auto simp: s_def)
  have "at before after (Suc d) x (nat (int s - k) + n)"
    using at_run [OF start(2) n(3)] n(1) by simp
  moreover have "nat (int s - k) + n = nat (int x - k)" using n(1) start(1) by auto
  moreover have "u \<le> x" if "at before after (Suc d) u v" "int u - int v = k" for u v
  proof -
    from at_Suc_cases [OF that(1) refl] obtain u0 v0 m where m: "u = u0 + m" "v = v0 + m"
      "run before after u0 v0 m"
      "(\<exists>w. u0 = Suc w \<and> at before after d w v0) \<or> (\<exists>w. v0 = Suc w \<and> at before after d u0 w)" by blast
    have "int u0 - int v0 = k" using m(1,2) that(2) by simp
    moreover from this m(4) start(3,4) have "u0 \<le> s" by auto
    ultimately show ?thesis
      using slide_furthest [OF slid [folded s_def] start(1) m(3)] m(1) by simp
  qed
  ultimately show ?thesis using n(1,2) start(1) unfolding furthest_def by auto
qed

text \<open>The first round has no previous one.\<close>

lemma first_slide_furthest:
  assumes "slide before after 0 0 = (x, y)"
  shows "furthest before after 0 0 x \<and> y = int x"
proof -
  from slide_run [OF assms] obtain n where n: "x = n" "y = int n" "run before after 0 0 n" by auto
  have "at before after 0 x x" using at_run [OF at.origin n(3)] n(1) by simp
  moreover have "u \<le> x" if "at before after 0 u v" for u v
  proof -
    from at_0_cases [OF that refl] have "u = v" "run before after 0 0 u" by blast+
    from slide_furthest [OF _ _ this(2), of 0 0] assms this(1) show ?thesis by simp
  qed
  ultimately show ?thesis using n unfolding furthest_def by auto
qed

section \<open>The rounds\<close>

definition at_corner :: "'a list \<Rightarrow> 'a list \<Rightarrow> nat \<Rightarrow> bool" where
  "at_corner before after d \<longleftrightarrow> (\<exists>e \<le> d. edited e before after)"

lemma furthest_corner:
  assumes "furthest before after d k x"
  shows "x \<ge> length before \<and> int x - k \<ge> int (length after) \<Longrightarrow> at_corner before after d"
    "at before after d (length before) (length after) \<Longrightarrow> k = int (length before) - int (length after) \<Longrightarrow>
     x \<ge> length before \<and> int x - k \<ge> int (length after)"
proof -
  assume "x \<ge> length before \<and> int x - k \<ge> int (length after)"
  moreover have "at before after d x (nat (int x - k))" using assms by (simp add: furthest_def)
  ultimately show "at_corner before after d"
    using at_edited [of before after d x "nat (int x - k)"] by (auto simp: at_corner_def)
next
  assume "at before after d (length before) (length after)" "k = int (length before) - int (length after)"
  then show "x \<ge> length before \<and> int x - k \<ge> int (length after)"
    using assms by (auto simp: furthest_def)
qed

definition round_slide :: "'a list \<Rightarrow> 'a list \<Rightarrow> frontier \<Rightarrow> nat \<Rightarrow> int \<Rightarrow> nat \<times> int" where
  "round_slide before after f d k = slide before after (start_x f d k) (int (start_x f d k) - k)"

text \<open>A round over diagonals whose slides end at the furthest points.\<close>

lemma visit_diagonals_result:
  assumes "\<forall>k \<in> set ks. \<exists>x. round_slide before after f d k = (x, int x - k) \<and> furthest before after d k x"
    and "\<forall>k. if k \<in> set old then \<exists>x. reached k = Some x \<and> furthest before after d k x else reached k = None"
  shows "case visit_diagonals before after f d ks reached of
      Inl e \<Rightarrow> e = d \<and> at_corner before after d
    | Inr reached' \<Rightarrow>
        (\<forall>k. if k \<in> set old \<union> set ks then \<exists>x. reached' k = Some x \<and> furthest before after d k x
             else reached' k = None)
        \<and> (\<forall>k \<in> set ks. at before after d (length before) (length after) \<longrightarrow>
             k \<noteq> int (length before) - int (length after))"
  using assms
proof (induction ks arbitrary: old reached)
  case (Cons k ks)
  then obtain x where x: "round_slide before after f d k = (x, int x - k)" "furthest before after d k x" by auto
  show ?case
  proof (cases "x \<ge> length before \<and> int x - k \<ge> int (length after)")
    case True
    then have "visit_diagonals before after f d (k # ks) reached = Inl d"
      using x(1) by (simp add: round_slide_def Let_def)
    with furthest_corner(1) [OF x(2) True] show ?thesis by simp
  next
    case False
    define new where "new = reached(k \<mapsto> x)"
    from False have step: "visit_diagonals before after f d (k # ks) reached
        = visit_diagonals before after f d ks new"
      unfolding new_def using x(1) by (auto simp: round_slide_def Let_def)
    have "\<forall>j. if j \<in> set (k # old) then \<exists>z. new j = Some z \<and> furthest before after d j z
        else new j = None" unfolding new_def using Cons.prems(2) x(2) by auto
    note IH = Cons.IH [OF _ this]
    show ?thesis
    proof (cases "visit_diagonals before after f d ks new")
      case (Inl e)
      with IH Cons.prems(1) show ?thesis unfolding step by simp
    next
      case (Inr reached')
      with IH Cons.prems(1) have
        "\<forall>j. if j \<in> set (k # old) \<union> set ks then \<exists>z. reached' j = Some z \<and> furthest before after d j z
           else reached' j = None"
        "\<forall>j \<in> set ks. at before after d (length before) (length after) \<longrightarrow>
           j \<noteq> int (length before) - int (length after)" by simp_all
      then show ?thesis unfolding step using Inr False furthest_corner(2) [OF x(2)] by auto
    qed
  qed
qed simp

lemma round_result:
  assumes "\<forall>k \<in> set (diagonals d). \<exists>x. round_slide before after f d k = (x, int x - k) \<and> furthest before after d k x"
  shows "case visit_diagonals before after f d (diagonals d) Map.empty of
      Inl e \<Rightarrow> e = d \<and> at_corner before after d
    | Inr f' \<Rightarrow> frontier_of before after d f' \<and> \<not> edited d before after"
proof -
  have "int (length before) - int (length after) \<in> set (diagonals d)
      \<and> at before after d (length before) (length after)" if "edited d before after"
  proof -
    have corner: "at before after d (length before) (length after)"
      using edited_at [OF that at.origin [of before after]] by simp
    with at_diagonal [OF corner] show ?thesis unfolding set_diagonals by blast
  qed
  with visit_diagonals_result [OF assms, of "[]" Map.empty] show ?thesis
    by (auto simp: frontier_of_def split: sum.split_asm)
qed

lemma rounds_result:
  assumes "frontier_of before after d f" "\<forall>e \<le> d. \<not> edited e before after"
  shows "case rounds before after f [Suc d..<n] of
      Some e \<Rightarrow> e < n \<and> least_edits e before after
    | None \<Rightarrow> \<forall>e < n. \<not> edited e before after"
  using assms
proof (induction "n - Suc d" arbitrary: d f)
  case 0
  then show ?case by auto
next
  case (Suc m)
  then have range: "[Suc d..<n] = Suc d # [Suc (Suc d)..<n]" by (simp add: upt_conv_Cons)
  have slides: "\<forall>k \<in> set (diagonals (Suc d)). \<exists>x. round_slide before after f (Suc d) k = (x, int x - k)
      \<and> furthest before after (Suc d) k x"
    using slide_reaches_furthest [OF Suc.prems(1)] unfolding round_slide_def by (metis surj_pair)
  show ?case
  proof (cases "visit_diagonals before after f (Suc d) (diagonals (Suc d)) Map.empty")
    case (Inl e)
    with round_result [OF slides] have "e = Suc d" "at_corner before after (Suc d)" by auto
    with Suc.prems(2) Suc.hyps(2) show ?thesis
      unfolding range using Inl by (auto simp: at_corner_def least_edits_def le_Suc_eq)
  next
    case (Inr f')
    with round_result [OF slides] have new: "frontier_of before after (Suc d) f'" "\<not> edited (Suc d) before after"
      by auto
    from Suc.hyps(1) [OF _ new(1)] new(2) Suc.prems(2) Suc.hyps(2) show ?thesis
      unfolding range using Inr by (auto simp: le_Suc_eq)
  qed
qed

lemma all_rounds_result:
  "case rounds before after [1 \<mapsto> 0] [0..<Suc n] of
      Some e \<Rightarrow> e \<le> n \<and> least_edits e before after
    | None \<Rightarrow> \<forall>e \<le> n. \<not> edited e before after"
proof -
  have range: "[0..<Suc n] = 0 # [Suc 0..<Suc n]" by (simp add: upt_conv_Cons del: upt_Suc)
  have start: "start_x [1 \<mapsto> 0] 0 0 = 0" by (simp add: start_x_def)
  have slides: "\<forall>k \<in> set (diagonals 0). \<exists>x. round_slide before after [1 \<mapsto> 0] 0 k = (x, int x - k)
      \<and> furthest before after 0 k x"
    using first_slide_furthest [of before after] start
    by (cases "slide before after 0 0") (auto simp: diagonals_def round_slide_def)
  show ?thesis
  proof (cases "visit_diagonals before after [1 \<mapsto> 0] 0 (diagonals 0) Map.empty")
    case (Inl e)
    with round_result [OF slides] show ?thesis
      unfolding range by (auto simp: at_corner_def least_edits_def)
  next
    case (Inr f')
    with round_result [OF slides] have "frontier_of before after 0 f'" "\<not> edited 0 before after" by auto
    from rounds_result [OF this(1), of "Suc n"] this(2) Inr show ?thesis
      unfolding range by (auto simp: less_Suc_eq_le split: option.split_asm)
  qed
qed

lemma edited_lengths: "edited d xs ys \<Longrightarrow> max (length xs) (length ys) - min (length xs) (length ys) \<le> d"
  by (induction rule: edited.induct) auto

lemma bounded_distance_exact:
  assumes "length before + length after \<le> u64_max"
  shows "(bounded_line_edit_distance before after m = Some d \<longleftrightarrow> d \<le> m \<and> least_edits d before after)
    \<and> (bounded_line_edit_distance before after m = None \<longleftrightarrow> (\<forall>d \<le> m. \<not> edited d before after))"
proof -
  let ?n = "length before + length after" and ?r = "bounded_line_edit_distance before after m"
  have unique: "d = e" if "least_edits d before after" "least_edits e before after" for d e
    using that unfolding least_edits_def by (metis linorder_neqE_nat)
  have "case ?r of Some e \<Rightarrow> e \<le> m \<and> least_edits e before after | None \<Rightarrow> \<forall>e \<le> m. \<not> edited e before after"
  proof (cases "max (length before) (length after) - min (length before) (length after) > m")
    case True
    moreover have "\<not> edited e before after" if "e \<le> m" for e
      using edited_lengths [of e before after] True that by linarith
    ultimately show ?thesis unfolding bounded_line_edit_distance_def by simp
  next
    case False
    define r where "r = rounds before after [1 \<mapsto> 0] [0..<Suc (min m ?n)]"
    note result = all_rounds_result [where n = "min m ?n" and before = before and after = after, folded r_def]
    from False have r: "?r = rounds before after [1 \<mapsto> 0] [0..<Suc (min m ?n)]"
      using assms by (simp add: bounded_line_edit_distance_def sat_add_exact)
    then have r: "?r = r" by (simp only: r_def)
    show ?thesis
    proof (cases r)
      case None
      with result have no: "\<forall>e \<le> min m ?n. \<not> edited e before after" by simp
      with edited_all [of before after] have "\<not> ?n \<le> m" by (metis min_def order_refl)
      with no None show ?thesis unfolding r by (simp add: min_def)
    next
      case (Some e)
      with result show ?thesis unfolding r by simp
    qed
  qed
  then show ?thesis
    using unique by (auto split: option.split_asm simp: least_edits_def)
qed

text \<open>
  C18. The bounded line diff that measures how far an edit reaches is exact: it returns \<open>d\<close> just when
  \<open>d\<close> is within the bound and is the least number of deleted and inserted lines that turns one text
  into the other, and nothing just when the least number is above the bound.  The line counts
  together fit 64 bits.
\<close>

theorem bounded_line_edit_distance_exact:
  assumes "length before + length after \<le> u64_max"
  shows "(bounded_line_edit_distance before after m = Some d \<longleftrightarrow> d \<le> m \<and> least_edits d before after)
    \<and> (bounded_line_edit_distance before after m = None \<longleftrightarrow> (\<forall>d \<le> m. \<not> edited d before after))"
  using assms by (rule bounded_distance_exact)

theorem bounded_line_edit_distance_exact_witness:
  "bounded_line_edit_distance [1, 2, 3, 4 :: nat] [2, 5, 4] 12 = Some 3
   \<and> \<not> edited 2 [1, 2, 3, 4 :: nat] [2, 5, 4]"
proof -
  have found: "bounded_line_edit_distance [1, 2, 3, 4 :: nat] [2, 5, 4] 12 = Some 3" by code_simp
  have "length [1, 2, 3, 4 :: nat] + length [2, 5, 4 :: nat] \<le> u64_max" by (simp add: u64_max_def)
  from bounded_line_edit_distance_exact [OF this, of 12 3] found
  have "least_edits 3 [1, 2, 3, 4 :: nat] [2, 5, 4]" by simp
  then show ?thesis using found by (simp add: least_edits_def)
qed

end
