(* ===== verification/Edit_Guards.thy ===== *)
theory Edit_Guards
  imports Edit_Properties Line_Distance
begin

text \<open>
  The guards on the result of an edit (\<open>tools/patch/precise_edit.rs\<close>): line endings of lines that were
  not edited stay, and an edit with a narrow contract does not rewrite the file.
\<close>

section \<open>Line endings\<close>

text \<open>A line with its ending; a text that ends in a line feed has an empty last line.\<close>

type_synonym token = "string \<times> string"

function line_ending_tokens_from :: "string \<Rightarrow> token list" where
  "line_ending_tokens_from s =
     (if s = [] then []
      else case position (\<lambda>b. b = LF) s of
        None \<Rightarrow> [(s, [])]
      | Some offset \<Rightarrow>
          let crlf = (offset > 0 \<and> s ! (offset - 1) = CR)
          in (take (if crlf then offset - 1 else offset) s, if crlf then [CR, LF] else [LF])
             # line_ending_tokens_from (drop (offset + 1) s))"
  by pat_completeness auto
termination by (relation "measure length") auto

declare line_ending_tokens_from.simps [simp del]

definition line_ending_tokens :: "string \<Rightarrow> token list" where
  "line_ending_tokens value =
     line_ending_tokens_from value @ (if value \<noteq> [] \<and> last value = LF then [([], [])] else [])"

text \<open>The lengths of the common prefix and suffix that the guards look at.\<close>

fun common_prefix :: "'a list \<Rightarrow> 'a list \<Rightarrow> nat" where
  "common_prefix (x # xs) (y # ys) = (if x = y then Suc (common_prefix xs ys) else 0)"
| "common_prefix _ _ = 0"

definition common_suffix :: "nat \<Rightarrow> 'a list \<Rightarrow> 'a list \<Rightarrow> nat" where
  "common_suffix bound xs ys = min bound (common_prefix (rev xs) (rev ys))"

definition unambiguous :: "token list \<Rightarrow> token list \<Rightarrow> string \<Rightarrow> bool" where
  "unambiguous before after content \<longleftrightarrow>
     count_list (map fst before) content = 1 \<and> count_list (map fst after) content = 1"

definition ending_change :: "token list \<Rightarrow> token list \<Rightarrow> nat \<Rightarrow> nat \<Rightarrow> line_ending_change" where
  "ending_change before after i j =
     \<lparr>le_before_line = i + 1, le_after_line = j + 1, le_before_eol = snd (before ! i), le_after_eol = snd (after ! j)\<rparr>"

definition prefix_changes :: "token list \<Rightarrow> token list \<Rightarrow> nat \<Rightarrow> line_ending_change list" where
  "prefix_changes before after pre =
     concat (map (\<lambda>index.
       if snd (before ! index) = snd (after ! index) \<or> \<not> unambiguous before after (fst (before ! index)) then []
       else
         let allowed_final_deletion_boundary =
               index = pre - 1 \<and> index = length after - 1 \<and> snd (after ! index) = [] \<and> length before > length after
         in if allowed_final_deletion_boundary then [] else [ending_change before after index index]) [0..<pre])"

definition suffix_changes :: "token list \<Rightarrow> token list \<Rightarrow> nat \<Rightarrow> line_ending_change list" where
  "suffix_changes before after suf =
     concat (map (\<lambda>offset.
       let i = length before - 1 - offset; j = length after - 1 - offset
       in if snd (before ! i) = snd (after ! j) \<or> \<not> unambiguous before after (fst (before ! i)) then []
          else [ending_change before after i j]) [0..<suf])"

definition unchanged_line_ending_changes :: "string \<Rightarrow> string \<Rightarrow> line_ending_change list" where
  "unchanged_line_ending_changes original updated =
     (let before = line_ending_tokens original;
          after = line_ending_tokens updated;
          pre = common_prefix (map fst before) (map fst after);
          suf = common_suffix (min (length before) (length after) - pre) (map fst before) (map fst after)
      in sort_key (\<lambda>c. (le_before_line c, le_after_line c))
           (prefix_changes before after pre @ suffix_changes before after suf))"

definition newline_style :: "string \<Rightarrow> newline_kind" where
  "newline_style value =
     (let has_crlf = list_ex (\<lambda>i. value ! i = LF \<and> i > 0 \<and> value ! (i - 1) = CR) [0..<length value];
          has_lf = list_ex (\<lambda>i. value ! i = LF \<and> \<not> (i > 0 \<and> value ! (i - 1) = CR)) [0..<length value]
      in if has_crlf then (if has_lf then MixedNewlines else OnlyCrlf)
         else if has_lf then OnlyLf else NoNewline)"

definition assert_no_unexpected_newline_churn :: "string \<Rightarrow> string \<Rightarrow> string \<Rightarrow> edit_error + unit" where
  "assert_no_unexpected_newline_churn file original updated =
     (let changes = unchanged_line_ending_changes original updated
      in if changes = [] then Inr ()
         else Inl (NewlineChurn file (newline_style original) (newline_style updated) (length changes) (take 20 changes)))"

section \<open>How far an edit reaches\<close>

definition semantic_lines :: "string \<Rightarrow> string list" where
  "semantic_lines value = map strip_suffix_cr (split_on LF value)"

definition edit_text_line_units :: "string option \<Rightarrow> nat" where
  "edit_text_line_units value =
     (case value of None \<Rightarrow> 0 | Some t \<Rightarrow> if t = [] then 0 else length (semantic_lines t))"

definition removed_lines :: "json \<Rightarrow> nat" where
  "removed_lines edit =
     (let start = (case get_u64 edit ''start_line'' of Some n \<Rightarrow> n | None \<Rightarrow> 1);
          end_line = (case get_u64 edit ''end_line'' of Some n \<Rightarrow> n | None \<Rightarrow> start)
      in sat_add (end_line - start) 1)"

definition edit_budget :: "json \<Rightarrow> nat" where
  "edit_budget edit =
     (let occurrences = expected_occurrences edit;
          edit_type = (case get_str edit ''type'' of Some t \<Rightarrow> t | None \<Rightarrow> [])
      in if edit_type = ''replace''
         then sat_mul occurrences (sat_add (edit_text_line_units (get_str edit ''old_text''))
                                           (edit_text_line_units (get_str edit ''new_text'')))
         else if edit_type = ''insert_before'' \<or> edit_type = ''insert_after''
         then sat_mul occurrences (edit_text_line_units (get_str edit ''text''))
         else if edit_type = ''replace_lines''
         then sat_add (removed_lines edit) (edit_text_line_units (get_str edit ''new_text''))
         else if edit_type = ''delete_lines'' then removed_lines edit
         else 1)"

definition expected_edit_line_budget :: "json list \<Rightarrow> nat" where
  "expected_edit_line_budget edits = max (foldl (\<lambda>budget edit. sat_add budget (edit_budget edit)) 0 edits) 1"

text \<open>
  \<open>change_ratio\<close> is a quotient of line counts, compared with 0.6; on counts below \<open>2 ^ 50\<close> the rounded
  quotient is below just when the exact one is.
\<close>

definition edit_blast_radius :: "string \<Rightarrow> string \<Rightarrow> json list \<Rightarrow> blast_radius" where
  "edit_blast_radius original updated edits =
     (let before = semantic_lines original;
          after = semantic_lines updated;
          pre = common_prefix before after;
          suf = common_suffix (min (length before) (length after) - pre) before after;
          changed_before = length before - (pre + suf);
          changed_after = length after - (pre + suf);
          span = sat_add changed_before changed_after;
          budget = (if edits = [] then max span 1 else expected_edit_line_budget edits);
          allowed = max 40 (sat_mul budget 12);
          bounded = (if edits \<noteq> [] \<and> span > allowed then bounded_line_edit_distance before after allowed else None);
          changed = (case bounded of Some d \<Rightarrow> d | None \<Rightarrow> span);
          denominator = max (sat_add (length before) (length after)) 1
      in \<lparr>br_before_line_count = length before, br_after_line_count = length after,
          br_changed_before_lines = changed_before, br_changed_after_lines = changed_after,
          br_changed_line_count = changed, br_expected_budget = budget, br_allowed = allowed,
          br_bounded_diff = (bounded \<noteq> None), br_span_changed = span,
          br_excessive = (max (length before) (length after) \<ge> 80 \<and> changed > allowed
            \<and> 10 * changed \<ge> 6 * denominator)\<rparr>)"

definition assert_no_unexpected_edit_blast_radius ::
    "string \<Rightarrow> string \<Rightarrow> string \<Rightarrow> json list \<Rightarrow> edit_error + blast_radius" where
  "assert_no_unexpected_edit_blast_radius file original updated edits =
     (let radius = edit_blast_radius original updated edits
      in if br_excessive radius then Inl (BlastRadius file radius) else Inr radius)"

section \<open>Tokens of a terminated text\<close>

lemma tokens_from_eol:
  assumes "LF \<notin> set l" "l = [] \<or> last l \<noteq> CR" "eol \<in> eols"
  shows "line_ending_tokens_from (l @ eol @ rest) = (l, eol) # line_ending_tokens_from rest"
proof -
  obtain cr where cr: "eol = cr @ [LF]" "cr = [] \<or> cr = [CR]" using assms(3) by (auto simp: eols_def)
  have pos: "position (\<lambda>b. b = LF) (l @ eol @ rest) = Some (length (l @ cr))"
    using position_first [of "l @ cr" rest] assms(1) cr by auto
  have "(length (l @ cr) > 0 \<and> (l @ eol @ rest) ! (length (l @ cr) - 1) = CR) \<longleftrightarrow> cr = [CR]"
    using assms(2) cr by (cases l rule: rev_cases) (auto simp: nth_append)
  with pos cr show ?thesis
    by (subst line_ending_tokens_from.simps) (auto simp: Let_def)
qed

lemma tokens_terminated_append:
  assumes "text_of eol ls"
  shows "line_ending_tokens_from (terminated eol ls @ rest) = map (\<lambda>l. (l, eol)) ls @ line_ending_tokens_from rest"
  using assms by (induction ls) (simp_all add: text_of_def tokens_from_eol clean_line_def)

lemma tokens_terminated:
  assumes "text_of eol ls" "ls \<noteq> []"
  shows "line_ending_tokens (terminated eol ls) = map (\<lambda>l. (l, eol)) ls @ [([], [])]"
proof -
  have "last (terminated eol ls) = LF \<and> terminated eol ls \<noteq> []"
    using assms by (cases ls rule: rev_cases) (auto simp: terminated_append text_of_def eols_def)
  then show ?thesis
    using tokens_terminated_append [OF assms(1), of "[]"]
    by (simp add: line_ending_tokens_def line_ending_tokens_from.simps)
qed

lemma common_prefix_nth: "i < common_prefix xs ys \<Longrightarrow> i < length xs \<and> i < length ys \<and> xs ! i = ys ! i"
proof (induction xs ys arbitrary: i rule: common_prefix.induct)
  case (1 x xs y ys)
  then show ?case by (cases i) (auto split: if_split_asm)
qed auto

lemma common_suffix_nth:
  assumes "i < common_suffix b xs ys"
  shows "i < length xs \<and> i < length ys \<and> xs ! (length xs - 1 - i) = ys ! (length ys - 1 - i)"
proof -
  have "i < common_prefix (rev xs) (rev ys)" using assms by (simp add: common_suffix_def)
  from common_prefix_nth [OF this] show ?thesis by (auto simp: rev_nth)
qed

text \<open>A token list where only a unique empty line has no ending.\<close>

lemma same_endings:
  assumes "before = map (\<lambda>l. (l, eol)) xs @ [([], [])]" "after = map (\<lambda>l. (l, eol)) ys @ [([], [])]"
    and "i < length before" "j < length after" "fst (before ! i) = fst (after ! j)"
    and "unambiguous before after (fst (before ! i))"
  shows "snd (before ! i) = snd (after ! j)"
proof (cases "i < length xs \<longleftrightarrow> j < length ys")
  case True
  then show ?thesis using assms(1-4) by (auto simp: nth_append)
next
  case False
  have fst: "map fst before = xs @ [[]]" "map fst after = ys @ [[]]" using assms(1,2) by (simp_all add: comp_def)
  from False assms(1-5) have "([] \<in> set xs \<or> [] \<in> set ys) \<and> fst (before ! i) = []"
    by (auto simp: nth_append in_set_conv_nth split: if_split_asm)
  with assms(6) have False
    unfolding unambiguous_def fst by (auto simp: count_list_0_iff)
  then show ?thesis ..
qed

text \<open>
  The line-ending guard never stands in the way of a file with uniform line endings: between two
  texts whose lines all end the same way it reports nothing, whatever lines were edited.
\<close>

lemma uniform_line_endings_pass:
  assumes "text_of eol old" "text_of eol new" "old \<noteq> []" "new \<noteq> []"
  shows "assert_no_unexpected_newline_churn file (terminated eol old) (terminated eol new) = Inr ()"
proof -
  define before after where "before = line_ending_tokens (terminated eol old)"
    and "after = line_ending_tokens (terminated eol new)"
  note tokens = tokens_terminated [OF assms(1,3)] tokens_terminated [OF assms(2,4)]
  have same: "snd (before ! i) = snd (after ! j) \<or> \<not> unambiguous before after (fst (before ! i))"
    if "i < length before" "j < length after" "fst (before ! i) = fst (after ! j)" for i j
    using same_endings [OF tokens [folded before_def after_def] that] by blast
  have "prefix_changes before after pre = []" if pre: "pre = common_prefix (map fst before) (map fst after)" for pre
  proof -
    have "snd (before ! i) = snd (after ! i) \<or> \<not> unambiguous before after (fst (before ! i))" if "i < pre" for i
      using common_prefix_nth [of i "map fst before" "map fst after"] that same [of i i] unfolding pre by auto
    then show ?thesis by (simp add: prefix_changes_def)
  qed
  moreover have "suffix_changes before after suf = []"
    if suf: "suf = common_suffix b (map fst before) (map fst after)" for b suf
  proof -
    have "snd (before ! (length before - 1 - i)) = snd (after ! (length after - 1 - i))
        \<or> \<not> unambiguous before after (fst (before ! (length before - 1 - i)))" if "i < suf" for i
      using common_suffix_nth [of i b "map fst before" "map fst after"] that
        same [of "length before - 1 - i" "length after - 1 - i"] unfolding suf by auto
    then show ?thesis by (simp add: suffix_changes_def Let_def)
  qed
  ultimately show ?thesis
    by (simp add: assert_no_unexpected_newline_churn_def unchanged_line_ending_changes_def Let_def
        before_def after_def)
qed

text \<open>
  A line cannot be added at the end of a file whose last line is not terminated: when that line
  occurs only once, the guard takes the line ending it now needs for a change of an unedited line and
  refuses the edit.
\<close>

lemma appending_to_unterminated_file_is_refused:
  assumes "text_of eol ls" "clean_line l" "l \<noteq> []" "l \<notin> set ls" "clean_line new" "new \<noteq> []" "l \<noteq> new"
  shows "\<exists>e. assert_no_unexpected_newline_churn file (terminated eol ls @ l) (terminated eol (ls @ [l]) @ new)
      = Inl (NewlineChurn file (newline_style (terminated eol ls @ l))
          (newline_style (terminated eol (ls @ [l]) @ new)) 1 [e])
    \<and> e = \<lparr>le_before_line = length ls + 1, le_after_line = length ls + 1, le_before_eol = [], le_after_eol = eol\<rparr>"
proof -
  define before after where "before = map (\<lambda>l. (l, eol)) ls @ [(l, [])]"
    and "after = map (\<lambda>l. (l, eol)) (ls @ [l]) @ [(new, [])]"
  have eol: "eol \<noteq> []" using assms(1) by (auto simp: text_of_def eols_def)
  have one: "line_ending_tokens_from x = [(x, [])]" "last (y @ x) \<noteq> LF" if "x \<noteq> []" "clean_line x" for x y
  proof -
    have "LF \<notin> set x" using that(2) by (simp add: clean_line_def)
    then have "position (\<lambda>b. b = LF) x = None" by (induction x) auto
    then show "line_ending_tokens_from x = [(x, [])]" using that(1) by (simp add: line_ending_tokens_from.simps)
    show "last (y @ x) \<noteq> LF" using \<open>LF \<notin> set x\<close> that(1) by (metis last_appendR last_in_set)
  qed
  have tokens: "line_ending_tokens (terminated eol ls @ l) = before"
    "line_ending_tokens (terminated eol (ls @ [l]) @ new) = after"
    using tokens_terminated_append [OF assms(1), of l] tokens_terminated_append [of eol "ls @ [l]" new]
      assms(1,2,3,5,6) one by (simp_all add: line_ending_tokens_def before_def after_def text_of_def)
  have "common_prefix (xs @ [l]) (xs @ [l, new]) = Suc (length xs)" for xs by (induction xs) auto
  then have pre: "common_prefix (map fst before) (map fst after) = Suc (length ls)"
    by (simp add: before_def after_def comp_def)
  have suf: "min (length before) (length after) - Suc (length ls) = 0" by (simp add: before_def after_def)
  have unique: "unambiguous before after l"
    using assms(4,7) by (simp add: unambiguous_def before_def after_def comp_def count_list_0_iff)
  have inner: "concat (map (\<lambda>index.
       if snd (before ! index) = snd (after ! index) \<or> \<not> unambiguous before after (fst (before ! index)) then []
       else (if index = Suc (length ls) - 1 \<and> index = length after - 1 \<and> snd (after ! index) = []
                \<and> length before > length after then [] else [ending_change before after index index])) [0..<length ls]) = []"
    by (auto simp: before_def after_def nth_append)
  have "prefix_changes before after (Suc (length ls)) = [ending_change before after (length ls) (length ls)]"
    unfolding prefix_changes_def Let_def upt_Suc_append [OF le0] map_append concat_append inner
    using unique eol by (simp add: before_def after_def nth_append)
  then have "unchanged_line_ending_changes (terminated eol ls @ l) (terminated eol (ls @ [l]) @ new)
      = [ending_change before after (length ls) (length ls)]"
    unfolding unchanged_line_ending_changes_def tokens Let_def pre suf
    by (simp add: common_suffix_def suffix_changes_def)
  then show ?thesis
    by (simp add: assert_no_unexpected_newline_churn_def ending_change_def before_def after_def nth_append)
qed

text \<open>
  C35. The guard on the reach of an edit raises no false alarm: when it refuses the edits of a file, no
  way of deleting and inserting at most as many lines as it allows turns the old text into the new
  one.
\<close>

theorem blast_radius_no_false_alarm:
  assumes "assert_no_unexpected_edit_blast_radius file original updated edits = Inl (BlastRadius path radius)"
    and "edits \<noteq> []" and "length (semantic_lines original) + length (semantic_lines updated) \<le> u64_max"
  shows "\<forall>d \<le> br_allowed radius. \<not> edited d (semantic_lines original) (semantic_lines updated)"
proof -
  let ?before = "semantic_lines original" and ?after = "semantic_lines updated"
  from assms(1) have radius: "radius = edit_blast_radius original updated edits" "br_excessive radius"
    by (auto simp: assert_no_unexpected_edit_blast_radius_def Let_def split: if_split_asm)
  define bounded where "bounded = (if br_span_changed radius > br_allowed radius
      then bounded_line_edit_distance ?before ?after (br_allowed radius) else None)"
  have "br_changed_line_count radius = (case bounded of Some d \<Rightarrow> d | None \<Rightarrow> br_span_changed radius)"
    using assms(2) unfolding bounded_def radius(1) edit_blast_radius_def Let_def
    by (simp only: blast_radius.select_convs if_False simp_thms not_False_eq_True)
  moreover have "br_changed_line_count radius > br_allowed radius"
    using radius(2) unfolding radius(1) by (simp add: edit_blast_radius_def Let_def)
  moreover have "d \<le> br_allowed radius" if "bounded_line_edit_distance ?before ?after (br_allowed radius) = Some d" for d
    using bounded_distance_exact [OF assms(3), of "br_allowed radius" d] that by blast
  ultimately have "bounded_line_edit_distance ?before ?after (br_allowed radius) = None"
    unfolding bounded_def by (fastforce split: option.split_asm if_split_asm)
  with bounded_distance_exact [OF assms(3), of "br_allowed radius"] show ?thesis by blast
qed

section \<open>Instances\<close>

theorem uniform_line_endings_pass_witness:
  "assert_no_unexpected_newline_churn ''f'' (terminated [CR, LF] [''a'', []]) (terminated [CR, LF] [''b'']) = Inr ()"
  by (rule uniform_line_endings_pass) (simp_all add: text_of_def eols_def clean_line_def LF_CR_lit)

theorem appending_to_unterminated_file_is_refused_witness:
  "\<not> is_ok (assert_no_unexpected_newline_churn ''notes'' (''one'' @ [LF] @ ''two'')
      (''one'' @ [LF] @ ''two'' @ [LF] @ ''three''))"
proof -
  have "text_of [LF] [''one'']" "clean_line ''two''" "clean_line ''three''"
    by (simp_all add: text_of_def eols_def clean_line_def LF_CR_lit)
  from appending_to_unterminated_file_is_refused [OF this(1,2) _ _ this(3)] show ?thesis by auto
qed

definition sample_rewrite :: string where
  "sample_rewrite = concat (replicate 90 (''b'' @ [LF]))"

theorem blast_radius_no_false_alarm_witness:
  "\<not> edited 40 (semantic_lines (''a'' @ [LF])) (semantic_lines sample_rewrite)"
proof -
  let ?edits = "[JObj [(''new_text'', JStr ''b''), (''old_text'', JStr ''a''), (''type'', JStr ''replace'')]]"
  let ?radius = "edit_blast_radius (''a'' @ [LF]) sample_rewrite ?edits"
  have refused: "br_excessive ?radius" "br_allowed ?radius = 40"
    "length (semantic_lines (''a'' @ [LF])) + length (semantic_lines sample_rewrite) = 93"
    by code_simp+
  have "assert_no_unexpected_edit_blast_radius ''f'' (''a'' @ [LF]) sample_rewrite ?edits
      = Inl (BlastRadius ''f'' ?radius)"
    using refused(1) by (simp add: assert_no_unexpected_edit_blast_radius_def)
  from blast_radius_no_false_alarm [OF this] refused(2,3) show ?thesis by (simp add: u64_max_def)
qed

end
