(* ===== verification/Process_Output.thy ===== *)
theory Process_Output
  imports Utf8 Json "HOL-Library.Sublist"
begin

text \<open>
  The retained output of a process (\<open>tools/session/output.rs\<close>): bounded buffers with an encoding,
  the bytes of an unfinished character before a chunk, aligned pages, and the texts made of them.
\<close>

section \<open>Options\<close>

datatype OutputMode = Delta | Tail | All | OutputNone | Summary

datatype EventDetail = Compact | Full

definition event_detail_parse :: "string option \<Rightarrow> EventDetail \<Rightarrow> EventDetail" where
  "event_detail_parse value dflt =
     (if value = Some ''compact'' then Compact else if value = Some ''full'' then Full else dflt)"

definition event_detail_as_str :: "EventDetail \<Rightarrow> string" where
  "event_detail_as_str d = (case d of Compact \<Rightarrow> ''compact'' | Full \<Rightarrow> ''full'')"

definition output_mode_parse :: "string option \<Rightarrow> OutputMode \<Rightarrow> OutputMode" where
  "output_mode_parse value dflt =
     (if value = Some ''delta'' then Delta else if value = Some ''tail'' then Tail
      else if value = Some ''all'' then All else if value = Some ''none'' then OutputNone
      else if value = Some ''summary'' then Summary else dflt)"

definition output_mode_as_str :: "OutputMode \<Rightarrow> string" where
  "output_mode_as_str m =
     (case m of Delta \<Rightarrow> ''delta'' | Tail \<Rightarrow> ''tail'' | All \<Rightarrow> ''all'' | OutputNone \<Rightarrow> ''none''
      | Summary \<Rightarrow> ''summary'')"

record OutputOptions =
  oo_mode :: OutputMode
  oo_event_detail :: EventDetail
  oo_cursor :: nat
  oo_max_output_bytes :: nat
  oo_tail_lines :: nat

definition or_default :: "nat \<Rightarrow> nat option \<Rightarrow> nat" where
  "or_default d n = (case n of None \<Rightarrow> d | Some x \<Rightarrow> x)"

definition from_args :: "json \<Rightarrow> OutputMode \<Rightarrow> OutputOptions" where
  "from_args args default_mode =
     \<lparr>oo_mode = output_mode_parse (get_str args ''output_mode'') default_mode,
      oo_event_detail = event_detail_parse (get_str args ''event_detail'') Full,
      oo_cursor = or_default 0 (get_u64 args ''cursor''),
      oo_max_output_bytes = clamp (or_default 65536 (get_u64 args ''max_output_bytes'')) 1 1048576,
      oo_tail_lines = clamp (or_default 100 (get_u64 args ''tail_lines'')) 1 10000\<rparr>"

definition tail_options :: "nat \<Rightarrow> OutputOptions" where
  "tail_options max_output_bytes =
     \<lparr>oo_mode = Tail, oo_event_detail = Full, oo_cursor = 0, oo_max_output_bytes = max_output_bytes,
      oo_tail_lines = 100\<rparr>"

section \<open>Encodings\<close>

datatype ProcessOutputEncoding = Unknown | Utf16Le | Utf16Be

definition encoding_as_str :: "ProcessOutputEncoding \<Rightarrow> string" where
  "encoding_as_str e = (case e of Unknown \<Rightarrow> ''utf-8'' | Utf16Le \<Rightarrow> ''utf-16le'' | Utf16Be \<Rightarrow> ''utf-16be'')"

definition is_utf16 :: "ProcessOutputEncoding \<Rightarrow> bool" where
  "is_utf16 e \<longleftrightarrow> e \<in> {Utf16Le, Utf16Be}"

text \<open>Two bytes as a unit; the code indexes them, so it is called where both are present.\<close>

definition decode_utf16_unit :: "char \<Rightarrow> char \<Rightarrow> ProcessOutputEncoding \<Rightarrow> nat" where
  "decode_utf16_unit a b e = (if e = Utf16Le then code a + 256 * code b else 256 * code a + code b)"

definition is_utf8_continuation :: "char \<Rightarrow> bool" where
  "is_utf8_continuation byte \<longleftrightarrow> and (code byte) 0xC0 = 0x80"

definition low_surrogate :: "nat \<Rightarrow> bool" where "low_surrogate u \<longleftrightarrow> 0xDC00 \<le> u \<and> u \<le> 0xDFFF"
definition high_surrogate :: "nat \<Rightarrow> bool" where "high_surrogate u \<longleftrightarrow> 0xD800 \<le> u \<and> u \<le> 0xDBFF"

definition slice :: "nat \<Rightarrow> nat \<Rightarrow> 'a list \<Rightarrow> 'a list" where
  "slice a b xs = take (b - a) (drop a xs)"

definition unit_at :: "string \<Rightarrow> nat \<Rightarrow> ProcessOutputEncoding \<Rightarrow> nat" where
  "unit_at data i e = decode_utf16_unit (data ! i) (data ! Suc i) e"

text \<open>\<open>chunks_exact(2)\<close>\<close>

fun byte_pairs :: "string \<Rightarrow> (char \<times> char) list" where
  "byte_pairs (a # b # r) = (a, b) # byte_pairs r"
| "byte_pairs _ = []"

definition BOM_LE :: string where "BOM_LE = [char_of (0xFF::nat), char_of (0xFE::nat)]"
definition BOM_BE :: string where "BOM_BE = [char_of (0xFE::nat), char_of (0xFF::nat)]"

definition detect_process_output_encoding :: "string \<Rightarrow> ProcessOutputEncoding" where
  "detect_process_output_encoding bytes =
     (if starts_with bytes BOM_LE then Utf16Le
      else if starts_with bytes BOM_BE then Utf16Be
      else
        let sample = take 4096 bytes;
            pairs = length sample div 2;
            even_nuls = length (filter (\<lambda>p. fst p = CHR 0x00) (byte_pairs sample));
            odd_nuls = length (filter (\<lambda>p. snd p = CHR 0x00) (byte_pairs sample))
        in if pairs \<ge> 2 \<and> odd_nuls * 3 \<ge> pairs \<and> even_nuls * 10 \<le> pairs then Utf16Le
           else if pairs \<ge> 2 \<and> even_nuls * 3 \<ge> pairs \<and> odd_nuls * 10 \<le> pairs then Utf16Be
           else Unknown)"

section \<open>Decoding\<close>

definition encode_utf8 :: "nat \<Rightarrow> string" where
  "encode_utf8 n =
     (if n < 0x80 then [char_of n]
      else if n < 0x800 then [char_of (0xC0 + n div 64), char_of (0x80 + n mod 64)]
      else if n < 0x10000
      then [char_of (0xE0 + n div 4096), char_of (0x80 + n div 64 mod 64), char_of (0x80 + n mod 64)]
      else [char_of (0xF0 + n div 262144), char_of (0x80 + n div 4096 mod 64),
            char_of (0x80 + n div 64 mod 64), char_of (0x80 + n mod 64)])"

text \<open>\<open>String::from_utf16_lossy\<close>: an unpaired surrogate becomes U+FFFD.\<close>

fun from_utf16_lossy :: "nat list \<Rightarrow> string" where
  "from_utf16_lossy [] = []"
| "from_utf16_lossy (u # us) =
     (if high_surrogate u
      then (case us of
              v # vs \<Rightarrow> if low_surrogate v
                then encode_utf8 (0x10000 + (u - 0xD800) * 1024 + (v - 0xDC00)) @ from_utf16_lossy vs
                else REPLACEMENT @ from_utf16_lossy us
            | [] \<Rightarrow> REPLACEMENT)
      else if low_surrogate u then REPLACEMENT @ from_utf16_lossy us
      else encode_utf8 u @ from_utf16_lossy us)"

definition decode_process_output_with_encoding :: "string \<Rightarrow> ProcessOutputEncoding \<Rightarrow> string" where
  "decode_process_output_with_encoding bytes e =
     (if bytes = [] then []
      else
        let enc = (if e = Unknown then detect_process_output_encoding bytes else e)
        in if is_utf16 enc
           then (let payload = (if starts_with bytes BOM_LE \<or> starts_with bytes BOM_BE
                                then drop 2 bytes else bytes)
                 in from_utf16_lossy (map (\<lambda>(a, b). decode_utf16_unit a b enc) (byte_pairs payload)))
           else from_utf8_lossy bytes)"

text \<open>Where the last complete character ends.\<close>

definition complete_output_boundary :: "string \<Rightarrow> ProcessOutputEncoding \<Rightarrow> nat" where
  "complete_output_boundary bytes e =
     (if is_utf16 e
      then (let last_end = length bytes - length bytes mod 2
            in if last_end \<ge> 2 \<and> high_surrogate (unit_at bytes (last_end - 2) e) then last_end - 2 else last_end)
      else (case from_utf8 bytes of
              None \<Rightarrow> length bytes
            | Some err \<Rightarrow> if error_len err = None then valid_up_to err else length bytes))"

definition decode_complete_process_output :: "string \<Rightarrow> ProcessOutputEncoding \<Rightarrow> string" where
  "decode_complete_process_output bytes e =
     decode_process_output_with_encoding (take (complete_output_boundary bytes e) bytes) e"

section \<open>Streams\<close>

definition SESSION_BUFFER_BYTES :: nat where "SESSION_BUFFER_BYTES = 1048576"

text \<open>The number of bytes dropped at the front when a buffer exceeds its limit.\<close>

definition utf16_drop :: "string \<Rightarrow> nat \<Rightarrow> ProcessOutputEncoding \<Rightarrow> nat \<Rightarrow> nat" where
  "utf16_drop buf limit e total_bytes =
     (let retained_start = total_bytes - length buf;
          first = length buf - limit;
          even_first = (if (retained_start + first) mod 2 \<noteq> 0 then first + 1 else first)
      in if even_first + 1 < length buf \<and> low_surrogate (unit_at buf even_first e)
         then even_first + 2 else even_first)"

definition trim_process_buffer :: "string \<Rightarrow> nat \<Rightarrow> ProcessOutputEncoding \<Rightarrow> nat \<Rightarrow> string" where
  "trim_process_buffer buf limit e total_bytes =
     (if length buf \<le> limit then buf
      else if is_utf16 e then drop (min (utf16_drop buf limit e total_bytes) (length buf)) buf
      else dropWhile is_utf8_continuation (drop (length buf - limit) buf))"

text \<open>The bytes of an unfinished character at the end of the retained bytes.\<close>

definition utf16_pending :: "string \<Rightarrow> ProcessOutputEncoding \<Rightarrow> nat \<Rightarrow> nat" where
  "utf16_pending previous e absolute_start =
     (let dangling_byte = (absolute_start + length previous) mod 2;
          complete_end = length previous - dangling_byte
      in if complete_end \<ge> 2 \<and> high_surrogate (unit_at previous (complete_end - 2) e)
         then dangling_byte + 2 else dangling_byte)"

fun first_unfinished :: "string \<Rightarrow> string" where
  "first_unfinished [] = []"
| "first_unfinished (b # r) =
     (case from_utf8 (b # r) of
        None \<Rightarrow> []
      | Some err \<Rightarrow>
          if error_len err = None \<and> valid_up_to err = 0 then b # r else first_unfinished r)"

definition process_output_prefix :: "string \<Rightarrow> ProcessOutputEncoding \<Rightarrow> nat \<Rightarrow> string" where
  "process_output_prefix previous e absolute_start =
     (if previous = [] then []
      else if is_utf16 e then drop (length previous - utf16_pending previous e absolute_start) previous
      else first_unfinished (drop (length previous - 4) previous))"

record ProcessOutputStream =
  ps_data :: string
  ps_total_bytes :: nat
  ps_encoding :: ProcessOutputEncoding

definition new_stream :: ProcessOutputStream where
  "new_stream = \<lparr>ps_data = [], ps_total_bytes = 0, ps_encoding = Unknown\<rparr>"

text \<open>A chunk read: the stream after it, its offset and the bytes before it that it completes.\<close>

definition stream_append :: "ProcessOutputStream \<Rightarrow> string \<Rightarrow> ProcessOutputStream \<times> nat \<times> string" where
  "stream_append st chunk =
     (let stream_offset = ps_total_bytes st;
          retained_start = ps_total_bytes st - length (ps_data st);
          data = ps_data st @ chunk;
          total_bytes = sat_add (ps_total_bytes st) (length chunk);
          e = (if ps_encoding st = Unknown then detect_process_output_encoding data else ps_encoding st)
      in (\<lparr>ps_data = trim_process_buffer data SESSION_BUFFER_BYTES e total_bytes,
           ps_total_bytes = total_bytes, ps_encoding = e\<rparr>,
          stream_offset, process_output_prefix (ps_data st) e retained_start))"

section \<open>Pages\<close>

fun back_to_start :: "string \<Rightarrow> nat \<Rightarrow> nat" where
  "back_to_start data 0 = 0"
| "back_to_start data (Suc n) =
     (if Suc n < length data \<and> is_utf8_continuation (data ! Suc n) then back_to_start data n else Suc n)"

definition align_output_start :: "string \<Rightarrow> nat \<Rightarrow> ProcessOutputEncoding \<Rightarrow> nat \<Rightarrow> nat" where
  "align_output_start data requested e retained_start =
     (let offset = min requested (length data)
      in if is_utf16 e
         then (let even_offset = (if (retained_start + offset) mod 2 \<noteq> 0 then offset - 1 else offset)
               in if even_offset \<ge> 2 \<and> even_offset + 1 < length data \<and> low_surrogate (unit_at data even_offset e)
                  then even_offset - 2 else even_offset)
         else back_to_start data offset)"

definition bounded_output_end :: "string \<Rightarrow> nat \<Rightarrow> nat \<Rightarrow> ProcessOutputEncoding \<Rightarrow> nat" where
  "bounded_output_end data start limit e =
     (if start \<ge> length data then min start (length data)
      else
        let requested_end = min (length data) (start + limit);
            complete = complete_output_boundary (slice start requested_end data) e
        in if complete > 0 then start + complete
           else
             let expanded_end = min (length data) (requested_end + 4)
             in case find (\<lambda>candidate. complete_output_boundary (slice start candidate data) e > 0)
                       [requested_end + 1 ..< expanded_end + 1] of
                  Some candidate \<Rightarrow> start + complete_output_boundary (slice start candidate data) e
                | None \<Rightarrow> min (max requested_end (start + 1)) (length data))"

section \<open>Texts of events and buffers\<close>

record OutputEvent =
  ev_sequence :: nat
  ev_stream :: string
  ev_stream_offset :: nat
  ev_prefix :: string
  ev_data :: string

definition decode_output_event :: "OutputEvent \<Rightarrow> ProcessOutputEncoding \<Rightarrow> string" where
  "decode_output_event event e = decode_complete_process_output (ev_prefix event @ ev_data event) e"

definition truncate_decoded_tail :: "string \<Rightarrow> nat \<Rightarrow> string \<times> bool" where
  "truncate_decoded_tail decoded max_bytes =
     (let start = length decoded - max_bytes
      in (if start = 0 then decoded else dropWhile is_utf8_continuation (drop start decoded),
          length decoded > max_bytes))"

definition truncate_tail :: "string \<Rightarrow> nat \<Rightarrow> ProcessOutputEncoding \<Rightarrow> string \<times> bool" where
  "truncate_tail bytes max_bytes e =
     truncate_decoded_tail (decode_complete_process_output bytes e) max_bytes"

definition push_line :: "string \<Rightarrow> string list \<Rightarrow> string list" where
  "push_line line ls = (if ls \<noteq> [] \<and> last ls = line then ls else ls @ [line])"

definition summarize_stream :: "string \<Rightarrow> nat \<Rightarrow> nat \<Rightarrow> ProcessOutputEncoding \<Rightarrow> string \<times> bool" where
  "summarize_stream bytes max_bytes tail_lines e =
     (let source = decode_complete_process_output bytes e;
          ls = fold push_line (filter (\<lambda>l. l \<noteq> []) (map trim_end (lines source))) []
      in truncate_decoded_tail (join [LF] (drop (length ls - tail_lines) ls)) max_bytes)"

section \<open>Streams of texts\<close>

lemma is_utf8_continuation_iff [simp]: "is_utf8_continuation b \<longleftrightarrow> continuation b"
proof -
  have shift: "and n (push_bit 6 m) = push_bit 6 (and (drop_bit 6 n) m)" for n m :: nat
    by (rule bit_eqI) (auto simp: bit_simps)
  have "and n 0xC0 = 64 * (n div 64 mod 4)" for n :: nat
    using shift [of n 3] take_bit_eq_mask [of 2 "n div 64"] by (simp add: push_bit_eq_mult drop_bit_eq_div take_bit_eq_mod mask_eq_exp_minus_1)
  moreover have "code b < 256" by (simp add: code_def)
  ultimately show ?thesis by (auto simp: is_utf8_continuation_def continuation_def)
qed

text \<open>A part of a text without NUL characters.\<close>

definition plain_output :: "string \<Rightarrow> bool" where
  "plain_output w \<longleftrightarrow> partial_text w \<and> CHR 0x00 \<notin> set w"

definition plain_byte :: "char \<Rightarrow> bool" where
  "plain_byte b \<longleftrightarrow> b \<noteq> CHR 0x00 \<and> code b < 0xF5"

lemma utf8_char_bytes:
  assumes "utf8_char c" "b \<in> set c"
  shows "code b < 0xF5"
proof -
  from assms(1) obtain a r where c: "c = a # r" "list_all continuation r"
    by (auto elim: utf8_char_shape)
  have "code a < 0xF5"
    using assms(1) c(1) by (auto simp: utf8_char_def utf8_width_def Let_def split: if_splits)
  with assms(2) c show ?thesis by (auto simp: list_all_iff continuation_def)
qed

lemma plain_output_bytes:
  assumes "plain_output w"
  shows "list_all plain_byte w"
proof -
  from assms obtain cs p q where w: "w = concat cs @ p" "list_all utf8_char cs" "utf8_char (p @ q)"
    by (auto simp: plain_output_def partial_text_def unfinished_def)
  have "code b < 0xF5" if "b \<in> set w" for b
    using that w utf8_char_bytes [of _ b] utf8_char_bytes [OF w(3), of b] by (auto simp: list_all_iff)
  then show ?thesis using assms by (auto simp: plain_output_def plain_byte_def list_all_iff)
qed

lemma plain_output_prefix: "plain_output (w @ d) \<Longrightarrow> plain_output w"
proof -
  assume a: "plain_output (w @ d)"
  then obtain cs p q where w: "w @ d = concat cs @ p" "list_all utf8_char cs" "utf8_char (p @ q)"
    by (auto simp: plain_output_def partial_text_def unfinished_def)
  then have "partial_text w" by (intro utf8_prefix_partial [of "cs @ [p @ q]" w "d @ q"]) auto
  with a show ?thesis by (simp add: plain_output_def)
qed

lemma byte_pairs_bytes: "(a, b) \<in> set (byte_pairs s) \<Longrightarrow> a \<in> set s \<and> b \<in> set s"
  by (induction s rule: byte_pairs.induct) auto

lemma plain_detect:
  assumes "list_all plain_byte bytes"
  shows "detect_process_output_encoding bytes = Unknown"
proof -
  have "fst p \<noteq> CHR 0x00 \<and> snd p \<noteq> CHR 0x00" if "p \<in> set (byte_pairs (take 4096 bytes))" for p
  proof -
    have "fst p \<in> set bytes" "snd p \<in> set bytes"
      using byte_pairs_bytes [of "fst p" "snd p"] that in_set_takeD by fastforce+
    then show ?thesis using assms by (auto simp: list_all_iff plain_byte_def)
  qed
  then have nul: "filter (\<lambda>p. fst p = CHR 0x00) (byte_pairs (take 4096 bytes)) = []"
    "filter (\<lambda>p. snd p = CHR 0x00) (byte_pairs (take 4096 bytes)) = []"
    by (simp_all add: filter_empty_conv)
  have "\<not> starts_with bytes BOM_LE" "\<not> starts_with bytes BOM_BE"
    using assms by (auto simp: starts_with_iff BOM_LE_def BOM_BE_def plain_byte_def code_def)
  with nul show ?thesis by (simp add: detect_process_output_encoding_def Let_def)
qed

lemma text_delta:
  assumes "plain_output (w @ d)"
  shows "complete_text (w @ d) = complete_text w @ decode_complete_process_output (pending_bytes w @ d) Unknown"
    "pending_bytes (w @ d) = drop (length (complete_text (w @ d)) - length (complete_text w)) (pending_bytes w @ d)"
proof -
  have "partial_text w" "partial_text (w @ d)"
    using assms plain_output_prefix by (auto simp: plain_output_def)
  then obtain cs p ds q where w: "w = concat cs @ p" "list_all utf8_char cs"
      "complete_text w = concat cs" "pending_bytes w = p"
    and wd: "w @ d = concat ds @ q" "list_all utf8_char ds" "unfinished q"
      "complete_text (w @ d) = concat ds" "pending_bytes (w @ d) = q"
    by (metis partial_textE)
  obtain es where es: "ds = cs @ es" "p @ d = concat es @ q"
    using utf8_parse_unique [of cs "p @ d" ds q] w wd by auto
  then have chars: "list_all utf8_char es" using wd(2) by simp
  have bytes: "list_all plain_byte (concat es)"
    using plain_output_bytes [OF assms] wd(1) es(1) by simp
  have "complete_output_boundary (concat es @ q) Unknown = length (concat es)"
    using from_utf8_text [OF chars wd(3)] by (simp add: complete_output_boundary_def is_utf16_def)
  then have "decode_complete_process_output (p @ d) Unknown = concat es"
    using es(2) plain_detect [OF bytes] from_utf8_lossy_text [OF chars]
    by (simp add: decode_complete_process_output_def decode_process_output_with_encoding_def is_utf16_def)
  then show "complete_text (w @ d) = complete_text w @ decode_complete_process_output (pending_bytes w @ d) Unknown"
    using w wd es by simp
  show "pending_bytes (w @ d) = drop (length (complete_text (w @ d)) - length (complete_text w)) (pending_bytes w @ d)"
    using w wd es by simp
qed

text \<open>The prefix of a chunk: the bytes of the unfinished character before it.\<close>

lemma first_unfinished_pending:
  assumes "list_all utf8_char cs" "concat cs = y @ x" "unfinished p"
  shows "first_unfinished (x @ p) = p"
  using assms(2)
proof (induction x arbitrary: y)
  case Nil
  show ?case
  proof (cases p)
    case (Cons b r)
    then show ?thesis using from_utf8_text [OF _ assms(3), of "[]"] by simp
  qed simp
next
  case (Cons b x)
  then have IH: "first_unfinished (x @ p) = p" by (metis append.assoc append_Cons append_Nil)
  from text_suffix [OF assms(1) Cons.prems] consider "continuation b"
    | es where "list_all utf8_char es" "b # x = concat es" using assms(1) by auto
  then show ?case
  proof cases
    case 1
    then have "from_utf8 (b # x @ p) = Some (Utf8Error 0 (Some 1))"
      by (simp add: from_utf8.simps [of "b # x @ p"] continuation_head del: utf8_head.simps)
    with IH show ?thesis by simp
  next
    case 2
    then have "from_utf8 (b # x @ p) = (if p = [] then None else Some (Utf8Error (length (concat es)) None))"
      using from_utf8_text [OF 2(1) assms(3)] 2(2) by (metis append_Cons)
    moreover have "length (concat es) = Suc (length x)" using 2(2) by (metis length_Cons)
    ultimately have "from_utf8 (b # x @ p) = (if p = [] then None else Some (Utf8Error (Suc (length x)) None))"
      by (simp only:)
    then show ?thesis using IH by simp
  qed
qed

lemma unfinished_length: "unfinished p \<Longrightarrow> length p < 4"
proof -
  assume "unfinished p"
  then obtain q where "q \<noteq> []" "utf8_head (p @ q) = Complete (length (p @ q))"
    by (auto simp: unfinished_def utf8_char_def)
  then show ?thesis using utf8_head_bounds(1) [of "p @ q"] by (cases q) auto
qed

lemma prefix_is_pending:
  assumes "partial_text (y @ previous)" "y = [] \<or> 4 \<le> length previous"
  shows "process_output_prefix previous Unknown start = pending_bytes (y @ previous)"
proof -
  obtain cs p where w: "y @ previous = concat cs @ p" "list_all utf8_char cs" "unfinished p"
    "pending_bytes (y @ previous) = p" using assms(1) by (rule partial_textE)
  let ?last = "drop (length previous - 4) previous"
  have "length p \<le> length ?last"
    using unfinished_length [OF w(3)] assms(2) w(1) by (auto simp: append_eq_append_conv2)
  moreover obtain z where z: "concat cs @ p = z @ ?last" using w(1) by (metis append.assoc append_take_drop_id)
  moreover have "suffix p (z @ ?last)" using z by (metis suffixI)
  ultimately obtain x where x: "?last = x @ p" by (metis suffixE suffixI suffix_length_suffix)
  then have "concat cs = z @ x" using z by simp
  then have "first_unfinished ?last = p" using first_unfinished_pending [OF w(2) _ w(3)] x by simp
  then show ?thesis using w by (auto simp: process_output_prefix_def is_utf16_def)
qed

section \<open>The retained bytes\<close>

lemma takeWhile_text: "list_all utf8_char cs \<Longrightarrow> takeWhile continuation (concat cs) = []"
  by (induction cs) (auto elim: utf8_char_shape)

lemma text_resync:
  assumes "list_all utf8_char cs" "concat cs = y @ x"
  shows "length (takeWhile continuation x) \<le> 3"
  using assms
proof (induction cs arbitrary: y)
  case (Cons c cs)
  from Cons.prems(1) obtain a r where c: "c = a # r" "\<not> continuation a" "length r < 4"
    by (auto elim: utf8_char_shape)
  from Cons.prems(2) have "c @ concat cs = y @ x" by simp
  then consider us where "y = c @ us" "concat cs = us @ x" | us where "c = y @ us" "x = us @ concat cs"
    by (auto simp: append_eq_append_conv2)
  then show ?case
  proof cases
    case 1
    then show ?thesis using Cons by auto
  next
    case 2
    show ?thesis
    proof (cases y)
      case Nil
      then have "x = a # r @ concat cs" using 2 c(1) by simp
      then show ?thesis using c(2) by simp
    next
      case (Cons b y')
      then have "length us \<le> 3" using 2(1) c by auto
      moreover have "length (takeWhile continuation x) \<le> length us"
        using 2(2) takeWhile_text [of cs] Cons.prems(1) length_takeWhile_le [of continuation us]
        by (auto simp: takeWhile_append)
      ultimately show ?thesis by simp
    qed
  qed
qed simp

lemma partial_resync:
  assumes "partial_text (y @ x)"
  shows "length (takeWhile continuation x) \<le> 3"
proof -
  obtain cs p q where "y @ x = concat cs @ p" "list_all utf8_char cs" "utf8_char (p @ q)"
    using assms by (auto simp: partial_text_def unfinished_def)
  then have "list_all utf8_char (cs @ [p @ q])" "concat (cs @ [p @ q]) = y @ x @ q" by auto
  then have "length (takeWhile continuation (x @ q)) \<le> 3" by (rule text_resync)
  moreover have "length (takeWhile continuation x) \<le> length (takeWhile continuation (x @ q))"
    using length_takeWhile_le [of continuation x] by (simp add: takeWhile_append trans_le_add1)
  ultimately show ?thesis by simp
qed

text \<open>The stream after the bytes \<open>w\<close>, whatever they are.\<close>

definition keeps_tail :: "string \<Rightarrow> ProcessOutputStream \<Rightarrow> bool" where
  "keeps_tail w st \<longleftrightarrow> ps_total_bytes st = length w \<and> suffix (ps_data st) w
     \<and> length (ps_data st) \<le> SESSION_BUFFER_BYTES"

lemma trim_suffix: "suffix (trim_process_buffer buf limit e n) buf"
  using suffix_order.trans [OF suffix_dropWhile suffix_drop]
  by (auto simp: trim_process_buffer_def suffix_drop)

lemma utf16_drop_ge: "length buf - limit \<le> utf16_drop buf limit e n"
  by (simp add: utf16_drop_def Let_def)

lemma trim_length: "length (trim_process_buffer buf limit e n) \<le> limit"
  using utf16_drop_ge [of buf limit e n] length_dropWhile_le [of is_utf8_continuation "drop (length buf - limit) buf"]
  by (auto simp: trim_process_buffer_def)

lemma append_keeps_tail:
  assumes "keeps_tail w st" "length (w @ chunk) \<le> u64_max"
  shows "keeps_tail (w @ chunk) (fst (stream_append st chunk))"
proof -
  from assms(1) obtain y where w: "w = y @ ps_data st" "ps_total_bytes st = length w"
    by (auto simp: keeps_tail_def elim: suffixE)
  let ?e = "if ps_encoding st = Unknown then detect_process_output_encoding (ps_data st @ chunk) else ps_encoding st"
  have total: "sat_add (ps_total_bytes st) (length chunk) = length (w @ chunk)"
    using w(2) assms(2) by (simp add: sat_add_exact)
  have "suffix (trim_process_buffer (ps_data st @ chunk) SESSION_BUFFER_BYTES ?e (length (w @ chunk))) (w @ chunk)"
    using trim_suffix w(1) by (metis append.assoc suffixI suffix_order.trans)
  then show ?thesis
    using total trim_length by (simp add: keeps_tail_def stream_append_def Let_def)
qed

text \<open>The stream after a part of a text: it is retained from the start of a character on.\<close>

definition keeps_text :: "string \<Rightarrow> ProcessOutputStream \<Rightarrow> bool" where
  "keeps_text w st \<longleftrightarrow> keeps_tail w st \<and> ps_encoding st = Unknown
     \<and> (ps_data st = w
        \<or> SESSION_BUFFER_BYTES - 3 \<le> length (ps_data st) \<and> \<not> continuation (hd (ps_data st)))"

lemma new_stream_keeps: "keeps_tail [] new_stream" "keeps_text [] new_stream"
  by (simp_all add: keeps_text_def keeps_tail_def new_stream_def SESSION_BUFFER_BYTES_def)

lemma trim_text:
  assumes "partial_text (y @ buf)" "limit < length buf" "3 < limit"
  shows "limit - 3 \<le> length (trim_process_buffer buf limit Unknown n)
    \<and> \<not> continuation (hd (trim_process_buffer buf limit Unknown n))"
proof -
  let ?x = "drop (length buf - limit) buf"
  have "partial_text ((y @ take (length buf - limit) buf) @ ?x)" using assms(1) by simp
  then have "length (takeWhile continuation ?x) \<le> 3" by (rule partial_resync)
  moreover have "length (takeWhile continuation ?x) + length (dropWhile continuation ?x) = limit"
    using assms(2) by (metis diff_diff_cancel length_append length_drop less_imp_le takeWhile_dropWhile_id)
  moreover have "is_utf8_continuation = continuation" by (rule ext) simp
  moreover from calculation have "0 < length (dropWhile continuation ?x)" using assms(3) by linarith
  then have "dropWhile continuation ?x \<noteq> []" by (rule length_greater_0_conv [THEN iffD1])
  ultimately show ?thesis
    using assms(2) hd_dropWhile [of continuation ?x] by (auto simp: trim_process_buffer_def is_utf16_def)
qed

lemma append_keeps_text:
  assumes "keeps_text w st" "plain_output (w @ chunk)" "length (w @ chunk) \<le> u64_max"
  shows "keeps_text (w @ chunk) (fst (stream_append st chunk))"
    and "snd (stream_append st chunk) = (length w, pending_bytes w)"
proof -
  from assms(1) obtain y where y: "w = y @ ps_data st"
    by (auto simp: keeps_text_def keeps_tail_def elim: suffixE)
  have st: "ps_total_bytes st = length w" "ps_encoding st = Unknown" "y = [] \<or> 4 \<le> length (ps_data st)"
    using assms(1) y by (auto simp: keeps_text_def keeps_tail_def SESSION_BUFFER_BYTES_def)
  have "list_all plain_byte (ps_data st @ chunk)" using plain_output_bytes [OF assms(2)] y by simp
  then have e: "detect_process_output_encoding (ps_data st @ chunk) = Unknown" by (rule plain_detect)
  have "partial_text w" using plain_output_prefix [OF assms(2)] by (simp add: plain_output_def)
  then show "snd (stream_append st chunk) = (length w, pending_bytes w)"
    using st e prefix_is_pending [of y "ps_data st"] y by (simp add: stream_append_def Let_def)
  have whole: "partial_text (y @ ps_data st @ chunk)" using assms(2) y by (simp add: plain_output_def)
  let ?data = "ps_data (fst (stream_append st chunk))"
  have trim: "?data = trim_process_buffer (ps_data st @ chunk) SESSION_BUFFER_BYTES Unknown
      (sat_add (ps_total_bytes st) (length chunk))" "ps_encoding (fst (stream_append st chunk)) = Unknown"
    using st e by (simp_all add: stream_append_def Let_def)
  have "?data = w @ chunk \<or> SESSION_BUFFER_BYTES - 3 \<le> length ?data \<and> \<not> continuation (hd ?data)"
  proof (cases "length (ps_data st @ chunk) \<le> SESSION_BUFFER_BYTES")
    case True
    then have "?data = ps_data st @ chunk" by (simp add: trim(1) trim_process_buffer_def)
    then show ?thesis using assms(1)
      by (cases "ps_data st") (auto simp: keeps_text_def SESSION_BUFFER_BYTES_def)
  next
    case False
    then have "SESSION_BUFFER_BYTES < length (ps_data st @ chunk)" "3 < SESSION_BUFFER_BYTES"
      by (simp_all add: SESSION_BUFFER_BYTES_def)
    then show ?thesis using trim_text [OF whole] unfolding trim(1) by blast
  qed
  then show "keeps_text (w @ chunk) (fst (stream_append st chunk))"
    using append_keeps_tail [OF _ assms(3), of st] assms(1) trim(2) by (simp add: keeps_text_def)
qed

definition append_chunks :: "string list \<Rightarrow> ProcessOutputStream" where
  "append_chunks chunks = fold (\<lambda>c st. fst (stream_append st c)) chunks new_stream"

lemma append_chunks_snoc: "append_chunks (cs @ [c]) = fst (stream_append (append_chunks cs) c)"
  by (simp add: append_chunks_def)

lemma chunks_keep_tail: "length (concat cs) \<le> u64_max \<Longrightarrow> keeps_tail (concat cs) (append_chunks cs)"
proof (induction cs rule: rev_induct)
  case (snoc c cs)
  then show ?case using append_keeps_tail [of "concat cs" "append_chunks cs" c] by (simp add: append_chunks_snoc)
qed (simp add: append_chunks_def new_stream_keeps)

lemma chunks_keep_text:
  "length (concat cs) \<le> u64_max \<Longrightarrow> plain_output (concat cs) \<Longrightarrow> keeps_text (concat cs) (append_chunks cs)"
proof (induction cs rule: rev_induct)
  case (snoc c cs)
  then show ?case
    using append_keeps_text(1) [of "concat cs" "append_chunks cs" c] plain_output_prefix [of "concat cs" c]
    by (simp add: append_chunks_snoc)
qed (simp add: append_chunks_def new_stream_keeps)

end
