(* ===== verification/Output_Pages.thy ===== *)
theory Output_Pages
  imports Process_Output
begin

text \<open>
  Reading the retained output of a stream by offset (\<open>read_output\<close> in \<open>tools/session/control.rs\<close>),
  and a client that follows \<open>next_offset\<close> until the answer has none.
\<close>

record Page =
  pg_offset :: nat
  pg_content :: string
  pg_next_offset :: "nat option"
  pg_cursor_expired :: bool

definition read_page :: "ProcessOutputStream \<Rightarrow> nat \<Rightarrow> nat \<Rightarrow> Page" where
  "read_page snapshot requested_offset limit =
     (let data = ps_data snapshot;
          total_stream_bytes = ps_total_bytes snapshot;
          e = ps_encoding snapshot;
          retained_start = total_stream_bytes - length data;
          requested_local_offset =
            min (min (max requested_offset retained_start) total_stream_bytes - retained_start) (length data);
          local_offset = align_output_start data requested_local_offset e retained_start;
          local_end = bounded_output_end data local_offset limit e;
          absolute_end = retained_start + local_end
      in \<lparr>pg_offset = retained_start + local_offset,
          pg_content = decode_process_output_with_encoding (slice local_offset local_end data) e,
          pg_next_offset = (if absolute_end < total_stream_bytes then Some absolute_end else None),
          pg_cursor_expired = requested_offset < retained_start\<rparr>)"

text \<open>The \<open>offset\<close> and \<open>limit\<close> arguments.\<close>

definition read_output_args :: "ProcessOutputStream \<Rightarrow> json \<Rightarrow> Page" where
  "read_output_args snapshot args =
     read_page snapshot (or_default 0 (get_u64 args ''offset''))
       (clamp (or_default 4096 (get_u64 args ''limit'')) 1 1048576)"

partial_function (option) read_pages :: "ProcessOutputStream \<Rightarrow> nat \<Rightarrow> nat \<Rightarrow> Page list option" where
  "read_pages st limit offset =
     (case pg_next_offset (read_page st offset limit) of
        None \<Rightarrow> Some [read_page st offset limit]
      | Some n \<Rightarrow> Option.bind (read_pages st limit n) (\<lambda>ps. Some (read_page st offset limit # ps)))"

section \<open>Texts are read page by page\<close>

lemma back_to_char: "offset < length data \<Longrightarrow> \<not> continuation (data ! offset) \<Longrightarrow> back_to_start data offset = offset"
  by (cases offset) auto

lemma text_start:
  assumes "list_all utf8_char bs" "bs \<noteq> []"
  shows "concat bs \<noteq> []" "\<not> continuation (hd (concat bs))"
  using assms by (cases bs; auto elim: utf8_char_shape)+

lemma boundary_in_text:
  assumes "list_all utf8_char bs"
  shows "\<exists>es fs. bs = es @ fs \<and> complete_output_boundary (take m (concat bs)) Unknown = length (concat es)"
proof -
  have "partial_text (take m (concat bs))"
    by (rule utf8_prefix_partial [OF assms, of _ "drop m (concat bs)"]) simp
  then obtain es p where es: "take m (concat bs) = concat es @ p" "list_all utf8_char es" "unfinished p"
    by (auto simp: partial_text_def)
  have "concat es @ p @ drop m (concat bs) = concat bs @ []"
    using es(1) by (metis append.assoc append_Nil2 append_take_drop_id)
  then obtain fs where "bs = es @ fs"
    using utf8_parse_unique [of es "p @ drop m (concat bs)" bs "[]"] es(2) assms by auto
  moreover have "complete_output_boundary (concat es @ p) Unknown = length (concat es)"
    using from_utf8_text [OF es(2,3)] by (simp add: complete_output_boundary_def is_utf16_def)
  ultimately show ?thesis using es(1) by metis
qed

lemma bounded_end_in_text:
  assumes "list_all utf8_char bs" "bs \<noteq> []" "0 < limit"
  shows "\<exists>es fs. bs = es @ fs \<and> es \<noteq> []
    \<and> bounded_output_end (y @ concat bs) (length y) limit Unknown = length y + length (concat es)"
proof -
  let ?data = "y @ concat bs" and ?req = "min (length (y @ concat bs)) (length y + limit)"
  let ?b = "\<lambda>e. complete_output_boundary (slice (length y) e ?data) Unknown"
  have cut: "slice (length y) e ?data = take (e - length y) (concat bs)" for e by (simp add: slice_def)
  obtain c cs where bs: "bs = c # cs" using assms(2) by (cases bs) auto
  have c: "utf8_char c" "c \<noteq> []" "length c \<le> 4"
    using bs assms(1) utf8_head_bounds(1) [of c] by (auto simp: utf8_char_def)
  have "\<exists>e. 0 < ?b e \<and> bounded_output_end ?data (length y) limit Unknown = length y + ?b e"
  proof (cases "0 < ?b ?req")
    case True
    then show ?thesis using bs c(2) by (auto simp: bounded_output_end_def Let_def)
  next
    case False
    have whole: "0 < ?b (length y + m)" if "length c \<le> m" for m
    proof -
      have "take m (concat bs) = concat [c] @ take (m - length c) (concat cs)" using bs that by simp
      moreover have "partial_text (take m (concat bs))"
        by (rule utf8_prefix_partial [OF assms(1), of _ "drop m (concat bs)"]) simp
      then obtain es p where es: "take m (concat bs) = concat es @ p" "list_all utf8_char es" "unfinished p"
        by (auto simp: partial_text_def)
      ultimately have "es \<noteq> []"
        using utf8_parse_unique [of "[c]" "take (m - length c) (concat cs)" es p] c(1) by auto
      then have "concat es \<noteq> []" using text_start(1) es(2) by blast
      moreover have "complete_output_boundary (take m (concat bs)) Unknown = length (concat es)"
        using es from_utf8_text [OF es(2,3)] by (simp add: complete_output_boundary_def is_utf16_def)
      ultimately show ?thesis using cut [of "length y + m"] by (simp del: length_concat)
    qed
    have req: "?req < length y + length c"
    proof (rule ccontr)
      assume "\<not> ?req < length y + length c"
      then have "0 < ?b (length y + (?req - length y))" by (intro whole) simp
      then show False using False bs by auto
    qed
    let ?found = "find (\<lambda>e. 0 < ?b e) [?req + 1 ..< min (length ?data) (?req + 4) + 1]"
    have "length y + length c \<in> set [?req + 1 ..< min (length ?data) (?req + 4) + 1]"
    proof -
      obtain k where "length ?data = length y + length c + k" using bs by simp
      with req c assms(3) show ?thesis by (auto simp: min_def)
    qed
    moreover have "0 < ?b (length y + length c)" by (rule whole) simp
    ultimately obtain e where "?found = Some e" "0 < ?b e"
      by (metis (no_types, lifting) find_None_iff find_Some_iff not_None_eq)
    then show ?thesis using False bs c(2)
      by (auto simp: bounded_output_end_def Let_def)
  qed
  then obtain e where e: "0 < ?b e" "bounded_output_end ?data (length y) limit Unknown = length y + ?b e" by blast
  obtain es fs where "bs = es @ fs" "?b e = length (concat es)"
    using boundary_in_text [OF assms(1), of "e - length y"] cut by metis
  moreover from this e(1) have "es \<noteq> []" by auto
  ultimately show ?thesis using e(2) by auto
qed

lemma char_in_data: "bs \<noteq> [] \<Longrightarrow> list_all utf8_char bs \<Longrightarrow>
    length y < length (y @ concat bs) \<and> (y @ concat bs) ! length y = hd (concat bs)"
  using text_start(1) [of bs] by (simp add: nth_append hd_conv_nth)

text \<open>The page at the start of a character holds whole characters, at least one.\<close>

lemma page_in_text:
  assumes "list_all utf8_char bs" "bs \<noteq> []" "0 < limit" "list_all plain_byte (concat bs)"
    and "ps_data st = y @ concat bs" "ps_encoding st = Unknown" "length (ps_data st) \<le> ps_total_bytes st"
    and "max offset (ps_total_bytes st - length (ps_data st)) = ps_total_bytes st - length (concat bs)"
  obtains es fs where "bs = es @ fs" "es \<noteq> []" "pg_content (read_page st offset limit) = concat es"
    "pg_next_offset (read_page st offset limit)
       = (if fs = [] then None else Some (ps_total_bytes st - length (concat fs)))"
proof -
  obtain es fs where es: "bs = es @ fs" "es \<noteq> []"
    "bounded_output_end (y @ concat bs) (length y) limit Unknown = length y + length (concat es)"
    using bounded_end_in_text [OF assms(1-3)] by blast
  let ?data = "ps_data st" and ?first = "ps_total_bytes st - length (ps_data st)"
  have align: "align_output_start ?data (length y) Unknown k = length y" for k
    using char_in_data [OF assms(2,1), of y] text_start(2) [OF assms(1,2)] assms(5)
    by (simp add: align_output_start_def is_utf16_def back_to_char del: length_append)
  have bounded: "bounded_output_end ?data (length y) limit Unknown = length y + length (concat es)"
    using es(3) assms(5) by simp
  have cut: "slice (length y) (length y + length (concat es)) ?data = concat es"
    using es(1) assms(5) by (simp add: slice_def del: length_concat)
  have decode: "decode_process_output_with_encoding (concat es) Unknown = concat es"
    using assms(1,4) es(1) plain_detect [of "concat es"] from_utf8_lossy_text [of es]
    by (auto simp: decode_process_output_with_encoding_def is_utf16_def)
  have offset: "min (min (max offset ?first) (ps_total_bytes st) - ?first) (length ?data) = length y"
    unfolding assms(8) using assms(5,7) by simp
  have sizes: "length ?data = length y + length (concat es) + length (concat fs)"
    using assms(5) es(1) by simp
  have "0 < length (concat fs) \<longleftrightarrow> fs \<noteq> []"
    using text_start(1) [of fs] assms(1) es(1) by (cases "fs = []") (auto simp del: length_concat)
  moreover define k where "k = length (concat fs)"
  ultimately have "(if ?first + (length y + length (concat es)) < ps_total_bytes st
      then Some (?first + (length y + length (concat es))) else None)
    = (if fs = [] then None else Some (ps_total_bytes st - length (concat fs)))"
    using sizes assms(7) unfolding k_def [symmetric] by (cases "fs = []") (auto simp del: length_concat)
  then show ?thesis
    using that [OF es(1,2)]
    unfolding read_page_def Let_def assms(6) offset align bounded cut decode by simp
qed

lemma pages_in_text:
  assumes "list_all utf8_char bs" "bs \<noteq> []" "0 < limit" "list_all plain_byte (concat bs)"
    and "ps_data st = y @ concat bs" "ps_encoding st = Unknown" "length (ps_data st) \<le> ps_total_bytes st"
    and "max offset (ps_total_bytes st - length (ps_data st)) = ps_total_bytes st - length (concat bs)"
  shows "\<exists>ps. read_pages st limit offset = Some ps \<and> concat (map pg_content ps) = concat bs"
  using assms
proof (induction "length bs" arbitrary: bs y offset rule: less_induct)
  case less
  obtain es fs where page: "bs = es @ fs" "es \<noteq> []" "pg_content (read_page st offset limit) = concat es"
    "pg_next_offset (read_page st offset limit)
       = (if fs = [] then None else Some (ps_total_bytes st - length (concat fs)))"
    using page_in_text [OF less.prems] by blast
  show ?case
  proof (cases "fs = []")
    case True
    with page show ?thesis by (subst read_pages.simps) simp
  next
    case False
    have len: "length (concat fs) \<le> ps_total_bytes st" "length (concat fs) \<le> length (ps_data st)"
      using less.prems(5,7) page(1) by auto
    have "\<exists>ps. read_pages st limit (ps_total_bytes st - length (concat fs)) = Some ps
        \<and> concat (map pg_content ps) = concat fs"
      by (rule less.hyps [of fs "y @ concat es"]) (use less.prems page(1,2) False len in auto)
    then show ?thesis using page False by (subst read_pages.simps) auto
  qed
qed

lemma start_of_text:
  assumes "list_all utf8_char cs" "concat cs = y @ x" "x = [] \<or> \<not> continuation (hd x)"
  shows "\<exists>ds. list_all utf8_char ds \<and> x = concat ds"
proof (cases x)
  case Nil
  then show ?thesis by (auto intro: exI [of _ "[]"])
next
  case (Cons b r)
  then show ?thesis using text_suffix [OF assms(1), of y b r] assms by auto
qed



section \<open>A run of continuation bytes\<close>

lemma back_to_start_run: "list_all is_utf8_continuation data \<Longrightarrow> offset < length data \<Longrightarrow> back_to_start data offset = 0"
  by (induction offset) (auto simp: list_all_length)

lemma read_pages_stuck:
  assumes "\<And>offset. offset \<in> S \<Longrightarrow> \<exists>n \<in> S. pg_next_offset (read_page st offset limit) = Some n" "offset \<in> S"
  shows "read_pages st limit offset = None"
proof -
  have "read_pages st limit offset \<noteq> Some ps" if "offset \<in> S" for ps offset
    using that
  proof (induction ps arbitrary: offset)
    case Nil
    then show ?case
      by (subst read_pages.simps) (auto split: option.split bind_splits)
  next
    case (Cons pg ps)
    with assms(1) obtain n where "n \<in> S" "pg_next_offset (read_page st offset limit) = Some n" by blast
    with Cons.IH show ?case by (subst read_pages.simps) (auto split: bind_splits)
  qed
  with assms(2) show ?thesis by (meson not_Some_eq)
qed

text \<open>
  A run of bytes \<open>0x80\<close> longer than the page limit is never read to its end: the next offset is
  moved back to the start of the run, so a client that follows \<open>next_offset\<close> gets the same page for ever.
\<close>

lemma pages_stuck_on_continuation_bytes:
  assumes "0 < limit" "limit < n" "n \<le> SESSION_BUFFER_BYTES"
  shows "read_pages (append_chunks [replicate n (char_of (0x80::nat))]) limit 0 = None"
proof -
  let ?b = "char_of (0x80::nat)" and ?st = "append_chunks [replicate n (char_of (0x80::nat))]"
  have b: "continuation ?b" "?b \<noteq> CHR 0x00" by code_simp+
  have "list_all plain_byte (replicate n ?b)"
    using b(2) by (auto simp: list_all_iff plain_byte_def code_def)
  then have st: "ps_data ?st = replicate n ?b" "ps_total_bytes ?st = n" "ps_encoding ?st = Unknown"
    using plain_detect assms(3)
    by (simp_all add: append_chunks_def stream_append_def Let_def new_stream_def trim_process_buffer_def
        sat_add_def u64_max_def SESSION_BUFFER_BYTES_def)
  have stuck: "pg_next_offset (read_page ?st offset limit) = Some limit" if "offset \<in> {0, limit}" for offset
  proof -
    have "align_output_start (replicate n ?b) offset Unknown 0 = 0"
      using that b(1) assms(1,2) back_to_start_run [of "replicate n ?b" offset]
      by (auto simp: align_output_start_def is_utf16_def list_all_iff)
    moreover have "bounded_output_end (replicate n ?b) 0 limit Unknown = limit"
    proof -
      obtain k where k: "limit = Suc k" using assms(1) by (cases limit) auto
      then have "from_utf8 (replicate limit ?b) = Some (Utf8Error 0 (Some 1))"
        using continuation_head [OF b(1)] by (simp add: from_utf8.simps [of "?b # replicate k ?b"] del: utf8_head.simps)
      then show ?thesis
        using assms(1,2) by (simp add: bounded_output_end_def Let_def slice_def complete_output_boundary_def is_utf16_def)
    qed
    ultimately show ?thesis using that assms(2) by (auto simp: read_page_def Let_def st)
  qed
  then show ?thesis by (intro read_pages_stuck [of "{0, limit}"]) auto
qed

lemma pages_stuck_on_continuation_bytes_witness:
  "read_pages (append_chunks [replicate 5 (char_of (0x80::nat))]) 2 0 = None"
  using pages_stuck_on_continuation_bytes [of 2 5] by (simp add: SESSION_BUFFER_BYTES_def)

end
