(* ===== verification/Output_Events.thy ===== *)
theory Output_Events
  imports Output_Pages
begin

text \<open>
  The output events of a session and the deltas a client polls with a cursor
  (\<open>push_event\<close> in \<open>tools/session/process_lifecycle.rs\<close>, \<open>event_batch_after\<close> and the delta branch of
  \<open>build_snapshot_with_options\<close> in \<open>tools/session/snapshot.rs\<close>).
\<close>

definition SESSION_EVENT_BYTES :: nat where "SESSION_EVENT_BYTES = 1048576"

record EventState =
  es_next_sequence :: nat
  es_retained_bytes :: nat
  es_events :: "OutputEvent list"

definition no_events :: EventState where
  "no_events = \<lparr>es_next_sequence = 1, es_retained_bytes = 0, es_events = []\<rparr>"

text \<open>The two streams of a session and its events.\<close>

record SessionOutput =
  so_stdout :: ProcessOutputStream
  so_stderr :: ProcessOutputStream
  so_events :: EventState

definition new_output :: SessionOutput where
  "new_output = \<lparr>so_stdout = new_stream, so_stderr = new_stream, so_events = no_events\<rparr>"

fun evict_events :: "nat \<Rightarrow> OutputEvent list \<Rightarrow> nat \<times> OutputEvent list" where
  "evict_events retained [] = (retained, [])"
| "evict_events retained (e # es) =
     (if retained > SESSION_EVENT_BYTES then evict_events (retained - length (ev_data e)) es
      else (retained, e # es))"

definition push_event :: "EventState \<Rightarrow> string \<Rightarrow> nat \<Rightarrow> string \<Rightarrow> string \<Rightarrow> EventState" where
  "push_event state stream stream_offset pre data =
     (let event = \<lparr>ev_sequence = es_next_sequence state, ev_stream = stream,
                   ev_stream_offset = stream_offset, ev_prefix = pre, ev_data = data\<rparr>;
          evicted = evict_events (es_retained_bytes state + length data) (es_events state @ [event])
      in \<lparr>es_next_sequence = Suc (es_next_sequence state), es_retained_bytes = fst evicted,
          es_events = snd evicted\<rparr>)"

text \<open>One chunk read from a stream.\<close>

definition read_chunk :: "SessionOutput \<Rightarrow> bool \<Rightarrow> string \<Rightarrow> SessionOutput" where
  "read_chunk s is_stdout chunk =
     (if is_stdout
      then (case stream_append (so_stdout s) chunk of (st, stream_offset, pre) \<Rightarrow>
              s\<lparr>so_stdout := st, so_events := push_event (so_events s) ''stdout'' stream_offset pre chunk\<rparr>)
      else (case stream_append (so_stderr s) chunk of (st, stream_offset, pre) \<Rightarrow>
              s\<lparr>so_stderr := st, so_events := push_event (so_events s) ''stderr'' stream_offset pre chunk\<rparr>))"

definition latest_cursor :: "EventState \<Rightarrow> nat" where
  "latest_cursor state = es_next_sequence state - 1"

record EventBatch =
  eb_events :: "OutputEvent list"
  eb_next_cursor :: nat
  eb_cursor_expired :: bool
  eb_has_more :: bool

text \<open>Events are taken while they fit; the first one always is.\<close>

fun take_events :: "nat \<Rightarrow> nat \<Rightarrow> OutputEvent list \<Rightarrow> OutputEvent list \<Rightarrow> OutputEvent list" where
  "take_events max_output_bytes bytes taken [] = taken"
| "take_events max_output_bytes bytes taken (e # es) =
     (if taken \<noteq> [] \<and> bytes + length (ev_data e) > max_output_bytes then taken
      else take_events max_output_bytes (bytes + length (ev_data e)) (taken @ [e]) es)"

definition oldest_sequence :: "EventState \<Rightarrow> nat option" where
  "oldest_sequence state = (case es_events state of [] \<Rightarrow> None | e # _ \<Rightarrow> Some (ev_sequence e))"

definition cursor_expired :: "EventState \<Rightarrow> nat \<Rightarrow> bool" where
  "cursor_expired state cursor =
     (case oldest_sequence state of None \<Rightarrow> False | Some oldest \<Rightarrow> sat_add cursor 1 < oldest)"

definition effective_cursor :: "EventState \<Rightarrow> nat \<Rightarrow> nat" where
  "effective_cursor state cursor =
     (if cursor_expired state cursor then or_default 1 (oldest_sequence state) - 1 else cursor)"

definition event_batch_after :: "EventState \<Rightarrow> nat \<Rightarrow> nat \<Rightarrow> EventBatch" where
  "event_batch_after state cursor max_output_bytes =
     (let events = take_events max_output_bytes 0 []
                     (filter (\<lambda>e. ev_sequence e > effective_cursor state cursor) (es_events state));
          next_cursor = (if events = [] then min (effective_cursor state cursor) (latest_cursor state)
                         else ev_sequence (last events))
      in \<lparr>eb_events = events, eb_next_cursor = next_cursor, eb_cursor_expired = cursor_expired state cursor,
          eb_has_more = next_cursor < latest_cursor state\<rparr>)"

text \<open>The text of one stream in a batch, from its first prefix on.\<close>

definition batch_text :: "OutputEvent list \<Rightarrow> string \<Rightarrow> ProcessOutputEncoding \<Rightarrow> string" where
  "batch_text events stream e =
     (let own = filter (\<lambda>ev. ev_stream ev = stream) events;
          pre = (case own of [] \<Rightarrow> [] | ev # _ \<Rightarrow> ev_prefix ev);
          bytes = pre @ concat (map ev_data own)
      in decode_process_output_with_encoding (take (complete_output_boundary bytes e) bytes) e)"

record Delta =
  dl_stdout :: string
  dl_stderr :: string
  dl_next_cursor :: nat
  dl_cursor_expired :: bool
  dl_has_more :: bool

definition delta :: "SessionOutput \<Rightarrow> nat \<Rightarrow> nat \<Rightarrow> Delta" where
  "delta s cursor max_output_bytes =
     (let batch = event_batch_after (so_events s) cursor max_output_bytes
      in \<lparr>dl_stdout = batch_text (eb_events batch) ''stdout'' (ps_encoding (so_stdout s)),
          dl_stderr = batch_text (eb_events batch) ''stderr'' (ps_encoding (so_stderr s)),
          dl_next_cursor = eb_next_cursor batch, dl_cursor_expired = eb_cursor_expired batch,
          dl_has_more = eb_has_more batch\<rparr>)"

section \<open>A client that polls while the process writes\<close>

datatype step = Wrote bool string | Polled nat

record Client =
  cl_cursor :: nat
  cl_stdout :: string
  cl_stderr :: string
  cl_expired :: bool
  cl_has_more :: bool

definition new_client :: Client where
  "new_client = \<lparr>cl_cursor = 0, cl_stdout = [], cl_stderr = [], cl_expired = False, cl_has_more = False\<rparr>"

definition poll :: "SessionOutput \<Rightarrow> nat \<Rightarrow> Client \<Rightarrow> Client" where
  "poll s max_output_bytes c =
     (let d = delta s (cl_cursor c) max_output_bytes
      in \<lparr>cl_cursor = dl_next_cursor d, cl_stdout = cl_stdout c @ dl_stdout d,
          cl_stderr = cl_stderr c @ dl_stderr d, cl_expired = (cl_expired c \<or> dl_cursor_expired d),
          cl_has_more = dl_has_more d\<rparr>)"

fun run_step :: "step \<Rightarrow> SessionOutput \<times> Client \<Rightarrow> SessionOutput \<times> Client" where
  "run_step (Wrote is_stdout chunk) (s, c) = (read_chunk s is_stdout chunk, c)"
| "run_step (Polled max_output_bytes) (s, c) = (s, poll s max_output_bytes c)"

definition run_steps :: "step list \<Rightarrow> SessionOutput \<times> Client" where
  "run_steps steps = fold run_step steps (new_output, new_client)"

definition written :: "bool \<Rightarrow> step list \<Rightarrow> string" where
  "written is_stdout steps =
     concat (map (\<lambda>st. case st of Wrote b chunk \<Rightarrow> if b = is_stdout then chunk else [] | Polled _ \<Rightarrow> []) steps)"

section \<open>The log of events\<close>

text \<open>
  All events a session ever had, in order; those before position \<open>gone\<close> are evicted.  Every prefix
  holds the bytes of the unfinished character before its chunk.
\<close>

definition stream_bytes :: "string \<Rightarrow> OutputEvent list \<Rightarrow> string" where
  "stream_bytes stream log = concat (map ev_data (filter (\<lambda>e. ev_stream e = stream) log))"

definition prefixed :: "OutputEvent list \<Rightarrow> bool" where
  "prefixed log \<longleftrightarrow>
     (\<forall>l e r. log = l @ e # r \<longrightarrow> ev_prefix e = pending_bytes (stream_bytes (ev_stream e) l))"

definition logged :: "EventState \<Rightarrow> OutputEvent list \<Rightarrow> nat \<Rightarrow> bool" where
  "logged state log gone \<longleftrightarrow>
     map ev_sequence log = [1 ..< Suc (length log)] \<and> es_next_sequence state = Suc (length log)
     \<and> gone \<le> length log \<and> es_events state = drop gone log
     \<and> es_retained_bytes state = sum_list (map (\<lambda>e. length (ev_data e)) (es_events state))
     \<and> (es_events state = [] \<longrightarrow> log = [])"

lemma stream_bytes_append [simp]: "stream_bytes s (a @ b) = stream_bytes s a @ stream_bytes s b"
  by (simp add: stream_bytes_def)

lemma stream_bytes_Nil [simp]: "stream_bytes s [] = []"
  by (simp add: stream_bytes_def)

lemma stream_bytes_one [simp]: "stream_bytes s [e] = (if ev_stream e = s then ev_data e else [])"
  by (simp add: stream_bytes_def)

lemma evict_suffix:
  assumes "retained = sum_list (map (\<lambda>e. length (ev_data e)) es)"
  shows "\<exists>n. evict_events retained es = (sum_list (map (\<lambda>e. length (ev_data e)) (drop n es)), drop n es)
    \<and> n \<le> length es \<and> (es \<noteq> [] \<and> length (ev_data (last es)) \<le> SESSION_EVENT_BYTES \<longrightarrow> n < length es)"
  using assms
proof (induction es arbitrary: retained)
  case (Cons e es)
  show ?case
  proof (cases "retained > SESSION_EVENT_BYTES")
    case True
    then obtain n where n: "evict_events (retained - length (ev_data e)) es
        = (sum_list (map (\<lambda>e. length (ev_data e)) (drop n es)), drop n es)" "n \<le> length es"
      "es \<noteq> [] \<and> length (ev_data (last es)) \<le> SESSION_EVENT_BYTES \<longrightarrow> n < length es"
      using Cons.IH [of "retained - length (ev_data e)"] Cons.prems by auto
    have "es = [] \<Longrightarrow> SESSION_EVENT_BYTES < length (ev_data e)" using True Cons.prems by simp
    with True n show ?thesis by (intro exI [of _ "Suc n"]) auto
  next
    case False
    then show ?thesis using Cons.prems by (intro exI [of _ 0]) auto
  qed
qed simp

lemma push_logged:
  fixes stream off pre data
  assumes "logged state log gone" "length data \<le> SESSION_EVENT_BYTES"
  defines "event \<equiv> \<lparr>ev_sequence = es_next_sequence state, ev_stream = stream, ev_stream_offset = off,
      ev_prefix = pre, ev_data = data\<rparr>"
  shows "\<exists>gone'. logged (push_event state stream off pre data) (log @ [event]) gone'"
proof -
  let ?es = "es_events state @ [event]" and ?sizes = "map (\<lambda>e. length (ev_data e))"
  from assms(1) have state: "map ev_sequence log = [1 ..< Suc (length log)]"
    "es_next_sequence state = Suc (length log)" "gone \<le> length log" "es_events state = drop gone log"
    "es_retained_bytes state = sum_list (?sizes (es_events state))"
    unfolding logged_def by blast+
  have "es_retained_bytes state + length data = sum_list (?sizes ?es)"
    unfolding state(5) by (simp add: event_def)
  from evict_suffix [OF this] obtain n where n:
    "evict_events (es_retained_bytes state + length data) ?es = (sum_list (?sizes (drop n ?es)), drop n ?es)"
    "n < length ?es"
    using assms(2) by (auto simp: event_def)
  have es: "drop n ?es = drop (gone + n) (log @ [event])" "gone + n \<le> length log"
    using state(3) n(2) unfolding state(4) by (simp_all add: add.commute)
  have pushed: "es_events (push_event state stream off pre data) = drop (gone + n) (log @ [event])"
    "es_retained_bytes (push_event state stream off pre data) = sum_list (?sizes (drop (gone + n) (log @ [event])))"
    "es_next_sequence (push_event state stream off pre data) = Suc (Suc (length log))"
    unfolding push_event_def Let_def event_def [symmetric] n(1) es(1)
    by (simp_all add: state(2) del: drop_append)
  have "map ev_sequence (log @ [event]) = [1 ..< Suc (length (log @ [event]))]"
    using state(1,2) by (simp add: event_def)
  with pushed es(2) have "logged (push_event state stream off pre data) (log @ [event]) (gone + n)"
    unfolding logged_def by simp
  then show ?thesis by blast
qed

lemma prefixed_snoc:
  "prefixed log \<Longrightarrow> ev_prefix e = pending_bytes (stream_bytes (ev_stream e) log) \<Longrightarrow> prefixed (log @ [e])"
  by (auto simp: prefixed_def append_eq_append_conv2 append_eq_Cons_conv Cons_eq_append_conv)

lemma prefixed_Nil: "prefixed []"
  by (simp add: prefixed_def)

text \<open>The text of a batch continues the text of the events before it.\<close>

lemma batch_text_continues:
  assumes "prefixed (l @ b @ r)" "plain_output (stream_bytes s (l @ b))"
  shows "complete_text (stream_bytes s (l @ b)) = complete_text (stream_bytes s l) @ batch_text b s Unknown"
proof (cases "filter (\<lambda>ev. ev_stream ev = s) b")
  case Nil
  then show ?thesis
    by (simp add: batch_text_def stream_bytes_def decode_process_output_with_encoding_def)
next
  case (Cons ev own)
  then obtain b1 b2 where b: "b = b1 @ ev # b2" "ev_stream ev = s" "filter (\<lambda>ev. ev_stream ev = s) b1 = []"
    by (auto simp: filter_eq_Cons_iff filter_empty_conv)
  have "l @ b @ r = (l @ b1) @ ev # b2 @ r" using b(1) by simp
  then have "ev_prefix ev = pending_bytes (stream_bytes s (l @ b1))"
    using assms(1) b(2) unfolding prefixed_def by blast
  then have "ev_prefix ev = pending_bytes (stream_bytes s l)" using b(3) by (simp add: stream_bytes_def)
  then have "batch_text b s Unknown
      = decode_complete_process_output (pending_bytes (stream_bytes s l) @ stream_bytes s b) Unknown"
    using Cons unfolding batch_text_def stream_bytes_def decode_complete_process_output_def Let_def
    by (simp del: take_append)
  then show ?thesis using text_delta(1) [of "stream_bytes s l" "stream_bytes s b"] assms(2) by simp
qed

lemma take_events_prefix:
  "\<exists>n. take_events m bytes taken es = taken @ take n es \<and> (taken = [] \<and> es \<noteq> [] \<longrightarrow> 0 < n)"
proof (induction m bytes taken es rule: take_events.induct)
  case (2 m bytes taken e es)
  show ?case
  proof (cases "taken \<noteq> [] \<and> bytes + length (ev_data e) > m")
    case True
    then show ?thesis by (intro exI [of _ 0]) auto
  next
    case False
    with 2 obtain n where "take_events m (bytes + length (ev_data e)) (taken @ [e]) es = (taken @ [e]) @ take n es"
      by blast
    with False show ?thesis by (intro exI [of _ "Suc n"]) auto
  qed
qed simp

lemma filter_log:
  "map ev_sequence log = [1 ..< Suc (length log)] \<Longrightarrow>
   filter (\<lambda>e. ev_sequence e > c) (drop g log) = drop (max g c) log"
proof (induction log rule: rev_induct)
  case (snoc e log)
  then have "map ev_sequence log = [1 ..< Suc (length log)]" "ev_sequence e = Suc (length log)" by simp_all
  with snoc.IH show ?case by (cases "g \<le> length log"; cases "c \<le> length log") auto
qed simp

text \<open>What a poll returns: events from the cursor on, or from the oldest retained one when it expired.\<close>

lemma loggedD:
  assumes "logged state log gone"
  shows "map ev_sequence log = [1 ..< Suc (length log)]" "latest_cursor state = length log"
    "gone \<le> length log" "es_events state = drop gone log" "gone = length log \<Longrightarrow> log = []"
    "oldest_sequence state = (if gone < length log then Some (Suc gone) else None)"
    "i < length log \<Longrightarrow> ev_sequence (log ! i) = Suc i"
proof -
  from assms have state: "map ev_sequence log = [1 ..< Suc (length log)]"
    "es_next_sequence state = Suc (length log)" "gone \<le> length log" "es_events state = drop gone log"
    "es_events state = [] \<longrightarrow> log = []"
    unfolding logged_def by blast+
  show seq: "ev_sequence (log ! i) = Suc i" if "i < length log" for i
    using arg_cong [OF state(1), of "\<lambda>xs. xs ! i"] that by (simp del: upt_Suc)
  show "map ev_sequence log = [1 ..< Suc (length log)]" "gone \<le> length log" "es_events state = drop gone log"
    by (fact state)+
  show "latest_cursor state = length log" using state(2) by (simp add: latest_cursor_def)
  show "log = []" if "gone = length log"
  proof -
    have "drop gone log = []" using that by simp
    with state(4,5) show ?thesis by metis
  qed
  show "oldest_sequence state = (if gone < length log then Some (Suc gone) else None)"
    using state(4) seq [of gone] by (simp add: oldest_sequence_def Cons_nth_drop_Suc [symmetric])
qed

lemma effective_of_log:
  assumes "logged state log gone" "cursor \<le> length log"
  shows "effective_cursor state cursor = (if cursor_expired state cursor then gone else cursor)"
    "gone \<le> effective_cursor state cursor" "effective_cursor state cursor \<le> length log"
proof -
  have expired: "cursor_expired state cursor \<longleftrightarrow> gone < length log \<and> sat_add cursor 1 < Suc gone"
    by (simp add: cursor_expired_def loggedD(6) [OF assms(1)])
  then show *: "effective_cursor state cursor = (if cursor_expired state cursor then gone else cursor)"
    by (simp add: effective_cursor_def loggedD(6) [OF assms(1)] or_default_def)
  show "gone \<le> effective_cursor state cursor"
  proof (cases "gone < length log")
    case True
    then show ?thesis using * expired by (auto simp: sat_add_def min_def split: if_splits)
  next
    case False
    then have "log = []" "gone = length log" using loggedD(3,5) [OF assms(1)] by linarith+
    then show ?thesis by simp
  qed
  show "effective_cursor state cursor \<le> length log" using * assms(2) loggedD(3) [OF assms(1)] by simp
qed

text \<open>What a poll returns: events from the cursor on, or from the oldest retained one when it expired.\<close>

lemma batch_of_log:
  assumes "logged state log gone" "cursor \<le> length log"
  obtains n where
    "event_batch_after state cursor m =
       \<lparr>eb_events = take n (drop (effective_cursor state cursor) log),
        eb_next_cursor = effective_cursor state cursor + n,
        eb_cursor_expired = cursor_expired state cursor,
        eb_has_more = effective_cursor state cursor + n < length log\<rparr>"
    "effective_cursor state cursor + n \<le> length log" "effective_cursor state cursor < length log \<longrightarrow> 0 < n"
proof -
  note state = loggedD [OF assms(1)] and effective = effective_of_log [OF assms]
  let ?c = "effective_cursor state cursor"
  have "max gone ?c = ?c" using effective(2) by simp
  then have events: "filter (\<lambda>e. ev_sequence e > ?c) (es_events state) = drop ?c log"
    unfolding state(4) filter_log [OF state(1)] by (simp only:)
  obtain n0 where n0: "take_events m 0 [] (drop ?c log) = take n0 (drop ?c log)" "drop ?c log \<noteq> [] \<longrightarrow> 0 < n0"
    using take_events_prefix [of m 0 "[]" "drop ?c log"] by auto
  define n where "n = min n0 (length log - ?c)"
  have n: "take_events m 0 [] (drop ?c log) = take n (drop ?c log)" "?c < length log \<longrightarrow> 0 < n"
    "?c + n \<le> length log"
    using n0 effective(3) by (auto simp: n_def min_def)
  have "ev_sequence (last (take n (drop ?c log))) = ?c + n" if "take n (drop ?c log) \<noteq> []"
    using that state(7) [of "?c + n - 1"] n(3) by (auto simp: last_conv_nth)
  moreover have "?c + n = length log \<and> n = 0" if "take n (drop ?c log) = []"
    using that n(2,3) by auto
  ultimately have "(if take n (drop ?c log) = [] then min ?c (length log)
      else ev_sequence (last (take n (drop ?c log)))) = ?c + n" by auto
  then show ?thesis
    using that [of n] n(2,3) unfolding event_batch_after_def Let_def events n(1) state(2) by simp
qed

end
