(* ===== verification/Output_Polling.thy ===== *)
theory Output_Polling
  imports Output_Events "HOL-Library.Code_Target_Nat"
begin

text \<open>
  What a client that polls deltas receives, for a process that writes texts without NUL characters
  in chunks that fit the read buffer.
\<close>

definition READ_BUFFER :: nat where "READ_BUFFER = 4096"

fun fits_buffer :: "step \<Rightarrow> bool" where
  "fits_buffer (Wrote _ chunk) \<longleftrightarrow> length chunk \<le> READ_BUFFER"
| "fits_buffer (Polled _) \<longleftrightarrow> True"

definition plain_run :: "step list \<Rightarrow> bool" where
  "plain_run steps \<longleftrightarrow> list_all fits_buffer steps
     \<and> plain_output (written True steps) \<and> plain_output (written False steps)
     \<and> length (written True steps) \<le> u64_max \<and> length (written False steps) \<le> u64_max"

abbreviation stream_name :: "bool \<Rightarrow> string" where
  "stream_name is_stdout \<equiv> (if is_stdout then ''stdout'' else ''stderr'')"

abbreviation stream_of :: "bool \<Rightarrow> SessionOutput \<Rightarrow> ProcessOutputStream" where
  "stream_of is_stdout s \<equiv> (if is_stdout then so_stdout s else so_stderr s)"

abbreviation received :: "bool \<Rightarrow> Client \<Rightarrow> string" where
  "received is_stdout c \<equiv> (if is_stdout then cl_stdout c else cl_stderr c)"

text \<open>The session after the steps, and the client that has read the log up to its cursor.\<close>

definition session_ok :: "step list \<Rightarrow> SessionOutput \<Rightarrow> OutputEvent list \<Rightarrow> bool" where
  "session_ok steps s log \<longleftrightarrow> (\<exists>gone. logged (so_events s) log gone) \<and> prefixed log
     \<and> (\<forall>b. stream_bytes (stream_name b) log = written b steps \<and> keeps_text (written b steps) (stream_of b s))"

definition client_ok :: "OutputEvent list \<Rightarrow> Client \<Rightarrow> bool" where
  "client_ok log c \<longleftrightarrow> cl_cursor c \<le> length log
     \<and> (\<not> cl_expired c \<longrightarrow>
         (\<forall>b. received b c = complete_text (stream_bytes (stream_name b) (take (cl_cursor c) log))))"

lemma written_snoc:
  "written b (steps @ [Wrote b' chunk]) = written b steps @ (if b' = b then chunk else [])"
  "written b (steps @ [Polled m]) = written b steps"
  by (simp_all add: written_def)

lemma plain_run_butlast: "plain_run (steps @ [x]) \<Longrightarrow> plain_run steps"
proof -
  assume a: "plain_run (steps @ [x])"
  obtain d where d: "written b (steps @ [x]) = written b steps @ d b" for b
    by (cases x) (auto simp: written_snoc)
  then show ?thesis using a plain_output_prefix by (auto simp: plain_run_def)
qed

lemma run_steps_snoc: "run_steps (steps @ [x]) = run_step x (run_steps steps)"
  by (simp add: run_steps_def)

lemma chunk_session_ok:
  assumes "session_ok steps s log" "plain_run (steps @ [Wrote b chunk])"
  shows "\<exists>e. session_ok (steps @ [Wrote b chunk]) (read_chunk s b chunk) (log @ [e])"
proof -
  let ?w = "written b steps"
  have chunk: "plain_output (?w @ chunk)" "length (?w @ chunk) \<le> u64_max" "length chunk \<le> SESSION_EVENT_BYTES"
    using assms(2) by (cases b; simp add: plain_run_def written_snoc READ_BUFFER_def SESSION_EVENT_BYTES_def)+
  from assms(1) obtain gone where ok: "logged (so_events s) log gone" "prefixed log"
    "\<And>b. stream_bytes (stream_name b) log = written b steps" "\<And>b. keeps_text (written b steps) (stream_of b s)"
    unfolding session_ok_def by blast
  define st where "st = fst (stream_append (stream_of b s) chunk)"
  have app: "stream_append (stream_of b s) chunk = (st, length ?w, pending_bytes ?w)"
    using append_keeps_text(2) [OF ok(4) chunk(1,2)] by (simp add: st_def prod_eq_iff)
  have kept: "keeps_text (?w @ chunk) st" using append_keeps_text(1) [OF ok(4) chunk(1,2)] by (simp add: st_def)
  let ?e = "\<lparr>ev_sequence = es_next_sequence (so_events s), ev_stream = stream_name b,
      ev_stream_offset = length ?w, ev_prefix = pending_bytes ?w, ev_data = chunk\<rparr>"
  have read: "so_events (read_chunk s b chunk)
      = push_event (so_events s) (stream_name b) (length ?w) (pending_bytes ?w) chunk"
    "stream_of b (read_chunk s b chunk) = st" "stream_of (\<not> b) (read_chunk s b chunk) = stream_of (\<not> b) s"
    using app by (cases b; simp add: read_chunk_def)+
  obtain gone' where "logged (so_events (read_chunk s b chunk)) (log @ [?e]) gone'"
    using push_logged [OF ok(1) chunk(3)] unfolding read(1) by blast
  moreover have "prefixed (log @ [?e])" by (rule prefixed_snoc [OF ok(2)]) (simp add: ok(3))
  moreover have "stream_bytes (stream_name b') (log @ [?e]) = written b' (steps @ [Wrote b chunk])
      \<and> keeps_text (written b' (steps @ [Wrote b chunk])) (stream_of b' (read_chunk s b chunk))" for b'
  proof (cases "b' = b")
    case True
    then show ?thesis using ok(3) [of b] kept read(2) by (simp add: written_snoc)
  next
    case False
    then have "b' = (\<not> b)" by blast
    then show ?thesis using ok(3,4) [of "\<not> b"] read(3) by (cases b) (auto simp: written_snoc)
  qed
  ultimately show ?thesis unfolding session_ok_def by blast
qed

lemma poll_client_ok:
  assumes "session_ok steps s log" "client_ok log c" "plain_run steps"
  shows "client_ok log (poll s m c)"
    and "cl_has_more (poll s m c) = (cl_cursor (poll s m c) < length log)"
    and "\<not> cursor_expired (so_events s) (cl_cursor c) \<Longrightarrow>
      min (length log) (Suc (cl_cursor c)) \<le> cl_cursor (poll s m c)"
    and "cl_expired (poll s m c) = (cl_expired c \<or> cursor_expired (so_events s) (cl_cursor c))"
proof -
  from assms(1) obtain gone where ok: "logged (so_events s) log gone" "prefixed log"
    "\<And>b. stream_bytes (stream_name b) log = written b steps" "\<And>b. keeps_text (written b steps) (stream_of b s)"
    unfolding session_ok_def by blast
  have cursor: "cl_cursor c \<le> length log" using assms(2) by (simp add: client_ok_def)
  let ?c = "effective_cursor (so_events s) (cl_cursor c)"
  obtain n where n: "event_batch_after (so_events s) (cl_cursor c) m =
       \<lparr>eb_events = take n (drop ?c log), eb_next_cursor = ?c + n,
        eb_cursor_expired = cursor_expired (so_events s) (cl_cursor c), eb_has_more = ?c + n < length log\<rparr>"
    "?c + n \<le> length log" "?c < length log \<longrightarrow> 0 < n"
    by (rule batch_of_log [OF ok(1) cursor])
  have same: "?c = cl_cursor c" if "\<not> cursor_expired (so_events s) (cl_cursor c)"
    using that effective_of_log(1) [OF ok(1) cursor] by simp
  have polled: "cl_cursor (poll s m c) = ?c + n" "cl_has_more (poll s m c) = (?c + n < length log)"
    "cl_expired (poll s m c) = (cl_expired c \<or> cursor_expired (so_events s) (cl_cursor c))"
    "received b (poll s m c) = received b c @ batch_text (take n (drop ?c log)) (stream_name b) Unknown" for b
    using ok(4) [of True] ok(4) [of False] n(1)
    by (auto simp: poll_def delta_def Let_def keeps_text_def)
  show "cl_expired (poll s m c) = (cl_expired c \<or> cursor_expired (so_events s) (cl_cursor c))" by (fact polled(3))
  show "cl_has_more (poll s m c) = (cl_cursor (poll s m c) < length log)" using polled by simp
  show "\<not> cursor_expired (so_events s) (cl_cursor c) \<Longrightarrow>
      min (length log) (Suc (cl_cursor c)) \<le> cl_cursor (poll s m c)"
    using polled(1) same n(3) by (cases "?c < length log") auto
  have "received b (poll s m c) = complete_text (stream_bytes (stream_name b) (take (?c + n) log))"
    if "\<not> cl_expired (poll s m c)" for b
  proof -
    from that polled(3) have "\<not> cl_expired c" "?c = cl_cursor c" using same by auto
    then have before: "received b c = complete_text (stream_bytes (stream_name b) (take ?c log))"
      using assms(2) unfolding client_ok_def by auto
    have upto: "take (?c + n) log = take ?c log @ take n (drop ?c log)" by (rule take_add)
    have split: "take ?c log @ take n (drop ?c log) @ drop (?c + n) log = log"
      unfolding append.assoc [symmetric] upto [symmetric] by simp
    have "plain_output (written b steps)" using assms(3) by (cases b) (simp_all add: plain_run_def)
    then have "plain_output (stream_bytes (stream_name b) (take ?c log @ take n (drop ?c log))
        @ stream_bytes (stream_name b) (drop (?c + n) log))"
      unfolding stream_bytes_append [symmetric] append.assoc split ok(3) .
    then have "plain_output (stream_bytes (stream_name b) (take ?c log @ take n (drop ?c log)))"
      by (rule plain_output_prefix)
    with ok(2) split
    have "complete_text (stream_bytes (stream_name b) (take ?c log @ take n (drop ?c log)))
        = complete_text (stream_bytes (stream_name b) (take ?c log)) @ batch_text (take n (drop ?c log)) (stream_name b) Unknown"
      by (intro batch_text_continues [of _ _ "drop (?c + n) log"]) (simp_all only:)
    then show ?thesis unfolding upto polled(4) before by (rule sym)
  qed
  then show "client_ok log (poll s m c)" using polled(1) n(2) unfolding client_ok_def by simp
qed

text \<open>How many chunks the process writes.\<close>

definition chunks :: "step list \<Rightarrow> nat" where
  "chunks steps = length (filter (\<lambda>st. case st of Wrote _ _ \<Rightarrow> True | Polled _ \<Rightarrow> False) steps)"

lemma run_ok:
  "plain_run steps \<Longrightarrow>
     \<exists>log. session_ok steps (fst (run_steps steps)) log \<and> client_ok log (snd (run_steps steps)) \<and> length log \<le> chunks steps"
proof (induction steps rule: rev_induct)
  case Nil
  have "logged no_events [] 0" by (simp add: logged_def no_events_def)
  then have "session_ok [] new_output []"
    using new_stream_keeps(2) prefixed_Nil by (auto simp: session_ok_def written_def new_output_def)
  moreover have "client_ok [] new_client"
    by (simp add: client_ok_def new_client_def complete_text_def from_utf8.simps)
  ultimately show ?case by (auto simp: run_steps_def chunks_def)
next
  case (snoc x steps)
  then obtain log where log: "session_ok steps (fst (run_steps steps)) log" "client_ok log (snd (run_steps steps))"
    "length log \<le> chunks steps"
    using plain_run_butlast by blast
  obtain s c where run: "run_steps steps = (s, c)" by fastforce
  show ?case
  proof (cases x)
    case (Wrote b chunk)
    then obtain e where "session_ok (steps @ [x]) (read_chunk s b chunk) (log @ [e])"
      using chunk_session_ok [of steps s log b chunk] snoc.prems log(1) run by auto
    moreover have "client_ok (log @ [e]) c" using log(2) run by (simp add: client_ok_def)
    ultimately show ?thesis using Wrote run log(3) by (auto simp: run_steps_snoc chunks_def)
  next
    case (Polled m)
    then have "client_ok log (poll s m c)"
      using poll_client_ok(1) [of steps s log c m] log(1,2) snoc.prems plain_run_butlast run by simp
    moreover have "session_ok (steps @ [x]) s log"
      using log(1) run Polled by (simp add: session_ok_def written_snoc)
    ultimately show ?thesis using Polled run log(3) by (auto simp: run_steps_snoc chunks_def)
  qed
qed

lemma complete_text_prefix: "prefix (complete_text w) (w @ v)"
  by (simp add: complete_text_def prefix_prefix take_is_prefix split: option.split)

lemma client_text:
  assumes "session_ok steps s log" "client_ok log c" "plain_run steps" "\<not> cl_expired c"
  shows "prefix (received b c) (written b steps)"
    and "cl_cursor c = length log \<Longrightarrow> received b c = complete_text (written b steps)"
proof -
  have collected: "received b c = complete_text (stream_bytes (stream_name b) (take (cl_cursor c) log))"
    using assms(2,4) unfolding client_ok_def by blast
  have bytes: "stream_bytes (stream_name b) log = written b steps" using assms(1) unfolding session_ok_def by blast
  have "stream_bytes (stream_name b) (take (cl_cursor c) log) @ stream_bytes (stream_name b) (drop (cl_cursor c) log)
      = written b steps"
    unfolding stream_bytes_append [symmetric] append_take_drop_id by (fact bytes)
  then show "prefix (received b c) (written b steps)"
    unfolding collected using complete_text_prefix by metis
  show "received b c = complete_text (written b steps)" if "cl_cursor c = length log"
    unfolding collected using that bytes by simp
qed

text \<open>Output that the log can hold is never evicted, and no cursor into it expires.\<close>

definition total_written :: "step list \<Rightarrow> nat" where
  "total_written steps = length (written True steps) + length (written False steps)"

definition unevicted :: "EventState \<Rightarrow> nat \<Rightarrow> bool" where
  "unevicted es n \<longleftrightarrow> es_retained_bytes es = n
     \<and> (case es_events es of [] \<Rightarrow> es_next_sequence es = 1 | e # _ \<Rightarrow> ev_sequence e = 1)"

lemma unevicted_push:
  assumes "unevicted es n" "n + length data \<le> SESSION_EVENT_BYTES"
  shows "unevicted (push_event es stream off pre data) (n + length data)"
proof -
  have "evict_events (n + length data) (x # xs) = (n + length data, x # xs)" for x xs using assms(2) by simp
  then show ?thesis
    using assms(1) by (cases "es_events es") (simp_all add: unevicted_def push_event_def Let_def)
qed

lemma unevicted_read:
  assumes "unevicted (so_events s) n" "n + length chunk \<le> SESSION_EVENT_BYTES"
  shows "unevicted (so_events (read_chunk s b chunk)) (n + length chunk)"
  using unevicted_push [OF assms] by (simp add: read_chunk_def split: prod.split)

lemma unevicted_poll: "unevicted (so_events s) n \<Longrightarrow> cl_expired (poll s m c) = cl_expired c"
  by (auto simp: poll_def delta_def event_batch_after_def cursor_expired_def oldest_sequence_def unevicted_def
      sat_add_def u64_max_def Let_def split: list.split_asm)

lemma small_output_never_expires:
  "total_written steps \<le> SESSION_EVENT_BYTES \<Longrightarrow>
     unevicted (so_events (fst (run_steps steps))) (total_written steps) \<and> \<not> cl_expired (snd (run_steps steps))"
proof (induction steps rule: rev_induct)
  case Nil
  show ?case
    by (simp add: run_steps_def new_output_def no_events_def new_client_def unevicted_def total_written_def written_def)
next
  case (snoc x steps)
  obtain s c where run: "run_steps steps = (s, c)" by fastforce
  show ?case
  proof (cases x)
    case (Wrote b chunk)
    then have total: "total_written (steps @ [x]) = total_written steps + length chunk"
      by (cases b) (simp_all add: total_written_def written_snoc)
    then have IH: "unevicted (so_events s) (total_written steps)" "\<not> cl_expired c" using snoc run by simp_all
    have "total_written steps + length chunk \<le> SESSION_EVENT_BYTES" using snoc.prems total by simp
    from unevicted_read [OF IH(1) this, of b] show ?thesis using IH(2) Wrote run total by (simp add: run_steps_snoc)
  next
    case (Polled m)
    then have total: "total_written (steps @ [x]) = total_written steps"
      by (simp add: total_written_def written_snoc)
    then have IH: "unevicted (so_events s) (total_written steps)" "\<not> cl_expired c" using snoc run by simp_all
    then show ?thesis using Polled run total unevicted_poll [OF IH(1), of m c] by (simp add: run_steps_snoc)
  qed
qed

text \<open>
  C4.  Polled output is exact: for a process that writes UTF-8 text without NUL characters, in chunks that
  fit the read buffer and at whatever moments between the polls, the texts a client has collected by
  passing on \<open>next_cursor\<close> are a prefix of what was written, and they are all of it, up to an unfinished
  character at the end, when the last answer says that there is no more.  This is so for as long as no
  answer has said that the cursor had expired, and none says so while the process has written no more
  than the 1 MiB the log holds.
\<close>

theorem polled_output_is_exact:
  assumes "plain_run steps" "run_steps (steps @ [Polled m]) = (s, c)"
    and "\<not> cl_expired c \<or> total_written steps \<le> SESSION_EVENT_BYTES"
  shows "prefix (cl_stdout c) (written True steps) \<and> prefix (cl_stderr c) (written False steps)
    \<and> (cl_has_more c \<or> cl_stdout c = complete_text (written True steps)
        \<and> cl_stderr c = complete_text (written False steps))"
proof -
  have "total_written (steps @ [Polled m]) = total_written steps" by (simp add: total_written_def written_snoc)
  then have unexpired: "\<not> cl_expired c" using assms(2,3) small_output_never_expires [of "steps @ [Polled m]"] by auto
  obtain c0 where run: "run_steps steps = (s, c0)" "c = poll s m c0"
    using assms(2) by (cases "run_steps steps") (auto simp: run_steps_snoc)
  obtain log where log: "session_ok steps s log" "client_ok log c0" using run_ok [OF assms(1)] run by auto
  note polled = poll_client_ok [OF log assms(1), of m, folded run(2)]
  have "cl_cursor c \<le> length log" using polled(1) by (simp add: client_ok_def)
  then show ?thesis
    using client_text [OF log(1) polled(1) assms(1) unexpired, of True] client_text [OF log(1) polled(1) assms(1) unexpired, of False]
      polled(2) by auto
qed

lemma polls_advance:
  assumes "session_ok steps s log" "client_ok log c" "plain_run steps"
    and "c' = (poll s m ^^ n) c" "\<not> cl_expired c'"
  shows "client_ok log c' \<and> min (length log) n \<le> cl_cursor c' \<and> (0 < n \<longrightarrow> cl_has_more c' = (cl_cursor c' < length log))"
  using assms(4,5)
proof (induction n arbitrary: c')
  case 0
  then show ?case using assms(2) by simp
next
  case (Suc n)
  let ?c = "(poll s m ^^ n) c"
  have c': "c' = poll s m ?c" using Suc.prems by simp
  have expired: "cl_expired c' = (cl_expired ?c \<or> cursor_expired (so_events s) (cl_cursor ?c))"
    if "client_ok log ?c" using poll_client_ok(4) [OF assms(1) that assms(3)] c' by simp
  have kept: "client_ok log ((poll s m ^^ k) c)" for k
    by (induction k) (use assms(2) poll_client_ok(1) [OF assms(1) _ assms(3)] in auto)
  have IH: "min (length log) n \<le> cl_cursor ?c" using Suc.IH [of ?c] expired kept Suc.prems(2) by auto
  have "min (length log) (Suc (cl_cursor ?c)) \<le> cl_cursor c'"
    using poll_client_ok(3) [OF assms(1) kept [of n] assms(3), of m] expired [OF kept] Suc.prems(2) c' by simp
  moreover have "cl_has_more c' = (cl_cursor c' < length log)"
    using poll_client_ok(2) [OF assms(1) kept [of n] assms(3), of m] c' by simp
  moreover have "client_ok log c'" using kept [of "Suc n"] c' by simp
  ultimately show ?case using IH by auto
qed

lemma run_polls: "(run_step (Polled m) ^^ n) (s, c) = (s, (poll s m ^^ n) c)"
  by (induction n) simp_all

text \<open>
  C36.  Polling catches up: once a process that has written UTF-8 text without NUL characters, in
  chunks that fit the read buffer, is silent, any number of polls above the number of chunks it wrote brings the client everything, up to an
  unfinished character at the end, whatever the size limit of an answer is; provided that no answer has
  said that the cursor had expired, which none does when the process wrote no more than the 1 MiB the
  log holds.
\<close>

theorem polling_catches_up:
  assumes "plain_run steps" "chunks steps < n"
    and "run_steps (steps @ replicate n (Polled m)) = (s, c)"
    and "\<not> cl_expired c \<or> total_written steps \<le> SESSION_EVENT_BYTES"
  shows "\<not> cl_has_more c \<and> cl_stdout c = complete_text (written True steps)
    \<and> cl_stderr c = complete_text (written False steps)"
proof -
  have "total_written (steps @ replicate n (Polled m)) = total_written steps" by (simp add: total_written_def written_def)
  then have unexpired: "\<not> cl_expired c" using assms(3,4) small_output_never_expires [of "steps @ replicate n (Polled m)"] by auto
  obtain c0 where run: "run_steps steps = (s, c0)" "c = (poll s m ^^ n) c0"
    using assms(3) by (cases "run_steps steps") (auto simp: run_steps_def run_polls)
  obtain log where log: "session_ok steps s log" "client_ok log c0" "length log \<le> chunks steps"
    using run_ok [OF assms(1)] run by auto
  note polled = polls_advance [OF log(1,2) assms(1) run(2) unexpired]
  then have "cl_cursor c = length log" using assms(2) log(3) by (auto simp: client_ok_def)
  then show ?thesis
    using polled assms(2) client_text(2) [OF log(1) _ assms(1) unexpired, of True]
      client_text(2) [OF log(1) _ assms(1) unexpired, of False]
    by auto
qed

section \<open>Witnesses\<close>

text \<open>The process writes the two bytes of a character in two chunks, with a poll between them.\<close>

definition sample_steps :: "step list" where
  "sample_steps = [Wrote True ''a'', Wrote True [char_of (0xC3::nat)], Polled 10, Wrote False ''no'',
     Wrote True (char_of (0xA9::nat) # ''b'')]"

lemma sample_steps_plain: "plain_run sample_steps"
proof -
  let ?e = "[char_of (0xC3::nat), char_of (0xA9::nat)]"
  have out: "written True sample_steps = concat [''a'', ?e, ''b''] @ []" "written False sample_steps = concat [''n'', ''o''] @ []"
    by (simp_all add: written_def sample_steps_def)
  have chars: "list_all utf8_char [''a'', ?e, ''b'']" "list_all utf8_char [''n'', ''o'']" by code_simp+
  have "partial_text (written True sample_steps)" "partial_text (written False sample_steps)"
    unfolding out partial_text_def using chars unfinished_Nil by blast+
  moreover have "CHR 0x00 \<notin> set (written True sample_steps)" "CHR 0x00 \<notin> set (written False sample_steps)"
    "list_all fits_buffer sample_steps" by code_simp+
  moreover have "length (written True sample_steps) \<le> u64_max" "length (written False sample_steps) \<le> u64_max"
    unfolding out by (simp_all add: u64_max_def)
  ultimately show ?thesis by (simp add: plain_run_def plain_output_def)
qed

lemma polled_output_is_exact_witness:
  "(case run_steps (sample_steps @ [Polled 10]) of (s, c) \<Rightarrow>
      \<not> cl_has_more c \<and> cl_stdout c = complete_text (written True sample_steps) \<and> cl_stderr c = ''no'')"
proof -
  obtain s c where run: "run_steps (sample_steps @ [Polled 10]) = (s, c)" by fastforce
  have "\<not> cl_expired (snd (run_steps (sample_steps @ [Polled 10])))"
    "\<not> cl_has_more (snd (run_steps (sample_steps @ [Polled 10])))"
    "complete_text (written False sample_steps) = ''no''" by code_simp+
  then show ?thesis using polled_output_is_exact [OF sample_steps_plain run] run by auto
qed

lemma polling_catches_up_witness:
  "(case run_steps (sample_steps @ replicate 5 (Polled 1)) of (s, c) \<Rightarrow>
      \<not> cl_has_more c \<and> cl_stdout c = complete_text (written True sample_steps) \<and> cl_stderr c = ''no'')"
proof -
  obtain s c where run: "run_steps (sample_steps @ replicate 5 (Polled 1)) = (s, c)" by fastforce
  have "\<not> cl_expired (snd (run_steps (sample_steps @ replicate 5 (Polled 1))))"
    "complete_text (written False sample_steps) = ''no''" "chunks sample_steps < 5" by code_simp+
  then show ?thesis using polling_catches_up [OF sample_steps_plain _ run] run by auto
qed

end
