(* ===== verification/Session_Snapshot.thy ===== *)
theory Session_Snapshot
  imports Output_Events
begin

text \<open>
  The snapshot of a command session (\<open>build_snapshot_with_options\<close> in \<open>tools/session/snapshot.rs\<close>):
  its outcome, the output of the requested mode, the results of the post checks and the redaction of
  sensitive output.  The fields that only copy identifiers and durations are left out.
\<close>

record ExecSession =
  ss_output :: SessionOutput
  ss_sensitive :: bool
  ss_exit_code :: "int option"
  ss_exited :: bool
  ss_termination_reason :: "string option"
  ss_post_checks_pending :: bool
  ss_post_check_result :: "json option"

definition REDACTED :: string where "REDACTED = ''[REDACTED]''"

definition capture_stream_snapshot :: "ExecSession \<Rightarrow> string \<Rightarrow> ProcessOutputStream" where
  "capture_stream_snapshot s stream =
     (if ss_sensitive s
      then \<lparr>ps_data = REDACTED, ps_total_bytes = length REDACTED, ps_encoding = Unknown\<rparr>
      else if stream = ''stderr'' then so_stderr (ss_output s) else so_stdout (ss_output s))"

definition stream_encoding :: "ExecSession \<Rightarrow> string \<Rightarrow> ProcessOutputEncoding" where
  "stream_encoding s stream =
     ps_encoding (if stream = ''stderr'' then so_stderr (ss_output s) else so_stdout (ss_output s))"

section \<open>Outcome\<close>

definition reason_of :: "ExecSession \<Rightarrow> string" where
  "reason_of s = (case ss_termination_reason s of None \<Rightarrow> ''running'' | Some r \<Rightarrow> r)"

definition verification_ok :: "ExecSession \<Rightarrow> bool option" where
  "verification_ok s =
     (if ss_post_checks_pending s then None
      else case Option.bind (ss_post_check_result s) (\<lambda>v. get_bool v ''ok'') of
             Some b \<Rightarrow> Some b | None \<Rightarrow> Some True)"

definition execution_ok :: "ExecSession \<Rightarrow> bool option" where
  "execution_ok s =
     (if ss_exited s then Some (reason_of s = ''exited'' \<and> ss_exit_code s = Some 0) else None)"

definition command_ok :: "ExecSession \<Rightarrow> bool option" where
  "command_ok s = (case (execution_ok s, verification_ok s) of
     (Some execution, Some verification) \<Rightarrow> Some (execution \<and> verification) | _ \<Rightarrow> None)"

definition failure_origin :: "ExecSession \<Rightarrow> string option" where
  "failure_origin s =
     (if command_ok s \<noteq> Some False then None
      else if execution_ok s = Some True \<and> verification_ok s = Some False then Some ''post_check''
      else if reason_of s = ''exited'' then Some ''child_process''
      else Some ''process_lifecycle'')"

definition session_status :: "ExecSession \<Rightarrow> string" where
  "session_status s =
     (if \<not> ss_exited s then ''running''
      else if ss_post_checks_pending s then ''verifying''
      else if reason_of s = ''process_timeout'' then ''timed_out''
      else if reason_of s = ''killed'' then ''killed'' else ''exited'')"

section \<open>Output\<close>

record EventView =
  vw_sequence :: nat
  vw_stream :: string
  vw_stream_offset :: nat
  vw_decoded :: "(nat \<times> string \<times> string) option"

text \<open>A full event also shows its decoded offset, the encoding and the text.\<close>

definition event_view :: "ExecSession \<Rightarrow> EventDetail \<Rightarrow> OutputEvent \<Rightarrow> EventView" where
  "event_view s detail ev =
     (let e = stream_encoding s (ev_stream ev)
      in \<lparr>vw_sequence = ev_sequence ev, vw_stream = ev_stream ev, vw_stream_offset = ev_stream_offset ev,
          vw_decoded = (if detail = Compact then None
             else Some (ev_stream_offset ev - length (ev_prefix ev), encoding_as_str e, decode_output_event ev e))\<rparr>)"

record OutputView =
  ov_stdout :: string
  ov_stderr :: string
  ov_stdout_truncated :: bool
  ov_stderr_truncated :: bool
  ov_events :: "EventView list"
  ov_next_cursor :: nat
  ov_cursor_expired :: bool
  ov_has_more :: bool
  ov_post_checks :: "json option"

text \<open>The results of the post checks are in every answer, whatever the mode is.\<close>

definition retained_view :: "ExecSession \<Rightarrow> (ProcessOutputStream \<Rightarrow> string \<times> bool) \<Rightarrow> OutputView" where
  "retained_view s shorten =
     (let out = shorten (capture_stream_snapshot s ''stdout''); err = shorten (capture_stream_snapshot s ''stderr'')
      in \<lparr>ov_stdout = fst out, ov_stderr = fst err, ov_stdout_truncated = snd out,
          ov_stderr_truncated = snd err, ov_events = [],
          ov_next_cursor = latest_cursor (so_events (ss_output s)), ov_cursor_expired = False,
          ov_has_more = False, ov_post_checks = ss_post_check_result s\<rparr>)"

definition output_view :: "ExecSession \<Rightarrow> OutputOptions \<Rightarrow> OutputView" where
  "output_view s opts =
     (case oo_mode opts of
        Delta \<Rightarrow>
          (let batch = event_batch_after (so_events (ss_output s)) (oo_cursor opts) (oo_max_output_bytes opts)
           in \<lparr>ov_stdout = batch_text (eb_events batch) ''stdout'' (stream_encoding s ''stdout''),
               ov_stderr = batch_text (eb_events batch) ''stderr'' (stream_encoding s ''stderr''),
               ov_stdout_truncated = False, ov_stderr_truncated = False,
               ov_events = map (event_view s (oo_event_detail opts)) (eb_events batch),
               ov_next_cursor = eb_next_cursor batch, ov_cursor_expired = eb_cursor_expired batch,
               ov_has_more = eb_has_more batch, ov_post_checks = ss_post_check_result s\<rparr>)
      | OutputNone \<Rightarrow> retained_view s (\<lambda>_. ([], False))
      | Summary \<Rightarrow> retained_view s (\<lambda>st.
          summarize_stream (ps_data st) (oo_max_output_bytes opts) (oo_tail_lines opts) (ps_encoding st))
      | _ \<Rightarrow> retained_view s (\<lambda>st. truncate_tail (ps_data st) (oo_max_output_bytes opts) (ps_encoding st)))"

definition redact_text :: "string \<Rightarrow> string" where
  "redact_text t = (if t = [] then [] else REDACTED)"

definition redact_event :: "EventView \<Rightarrow> EventView" where
  "redact_event v =
     v\<lparr>vw_decoded := map_option (\<lambda>(off, e, t). (off, e, redact_text t)) (vw_decoded v)\<rparr>"

text \<open>What the process of the session wrote is withheld; the results of the post checks are not.\<close>

definition redact_view :: "OutputView \<Rightarrow> OutputView" where
  "redact_view v = v\<lparr>ov_stdout := redact_text (ov_stdout v), ov_stderr := redact_text (ov_stderr v),
     ov_events := map redact_event (ov_events v)\<rparr>"

definition redaction_count :: "OutputView \<Rightarrow> nat" where
  "redaction_count v =
     length (filter (\<lambda>t. t \<noteq> []) ([ov_stdout v, ov_stderr v]
       @ List.map_filter (\<lambda>e. map_option (\<lambda>(_, _, t). t) (vw_decoded e)) (ov_events v)))"

text \<open>The output of a snapshot and the number of texts withheld.\<close>

definition snapshot_output :: "ExecSession \<Rightarrow> OutputOptions \<Rightarrow> OutputView \<times> nat" where
  "snapshot_output s opts =
     (let v = output_view s opts
      in if ss_sensitive s then (redact_view v, redaction_count v) else (v, 0))"

section \<open>Waiting\<close>

definition wait_condition_satisfied :: "ExecSession \<Rightarrow> bool \<Rightarrow> nat \<Rightarrow> string \<Rightarrow> bool" where
  "wait_condition_satisfied s finalized cursor until =
     (if until = ''finalized'' then finalized
      else if until = ''exit'' then ss_exited s
      else latest_cursor (so_events (ss_output s)) > cursor
        \<or> cursor = 0 \<and> es_next_sequence (so_events (ss_output s)) > 1 \<or> ss_exited s)"

section \<open>Sensitive output\<close>

text \<open>The texts of an answer that the process of the session wrote.\<close>

definition shown_texts :: "OutputView \<Rightarrow> string list" where
  "shown_texts v = [ov_stdout v, ov_stderr v]
     @ List.map_filter (\<lambda>e. map_option (\<lambda>(_, _, t). t) (vw_decoded e)) (ov_events v)"

lemma redacted_texts: "t \<in> set (shown_texts (redact_view v)) \<Longrightarrow> t \<in> {[], REDACTED}"
  by (auto simp: shown_texts_def redact_view_def redact_event_def List.map_filter_def redact_text_def
      split: if_split_asm)

lemma ascii_lossy:
  assumes "list_all (\<lambda>b. code b < 0x80) bytes"
  shows "from_utf8_lossy bytes = bytes"
proof -
  have "list_all utf8_char (map (\<lambda>b. [b]) bytes)"
    using assms by (auto simp: list_all_iff utf8_char_def utf8_width_def)
  then show ?thesis using from_utf8_lossy_text [of "map (\<lambda>b. [b]) bytes"] by simp
qed

lemma slice_sublist: "sublist (slice a b xs) xs"
  unfolding slice_def by (metis append_take_drop_id sublist_def append.assoc)

lemma view_post_checks: "ov_post_checks (fst (snapshot_output s opts)) = ss_post_check_result s"
  by (simp add: snapshot_output_def output_view_def retained_view_def redact_view_def Let_def split: OutputMode.split)

text \<open>
  C37.  What the process of a sensitive session writes is withheld: every text of its \<open>stdout\<close>, its
  \<open>stderr\<close> and its output events that a snapshot shows, in any mode and detail, is empty or
  \<open>[REDACTED]\<close>, the number of withheld texts is reported, and a page read from its retained output is a
  part of \<open>[REDACTED]\<close>.  This does not extend to its post checks: their results, with what the checks
  wrote, are in the snapshot as they are.
\<close>

theorem sensitive_output_is_withheld:
  assumes "ss_sensitive s"
  shows "set (shown_texts (fst (snapshot_output s opts))) \<subseteq> {[], REDACTED}
    \<and> snd (snapshot_output s opts) = length (filter (\<lambda>t. t = REDACTED) (shown_texts (fst (snapshot_output s opts))))
    \<and> sublist (pg_content (read_page (capture_stream_snapshot s stream) offset limit)) REDACTED
    \<and> ov_post_checks (fst (snapshot_output s opts)) = ss_post_check_result s"
proof (intro conjI)
  let ?v = "output_view s opts" and ?text = "\<lambda>e. map_option (\<lambda>(_, _, t). t) (vw_decoded e)"
  have shown: "fst (snapshot_output s opts) = redact_view ?v" "snd (snapshot_output s opts) = redaction_count ?v"
    using assms by (simp_all add: snapshot_output_def Let_def)
  show "set (shown_texts (fst (snapshot_output s opts))) \<subseteq> {[], REDACTED}"
    unfolding shown(1) using redacted_texts by blast
  have "length (filter (\<lambda>t. t = REDACTED) (List.map_filter ?text (map redact_event es)))
      = length (filter (\<lambda>t. t \<noteq> []) (List.map_filter ?text es))" for es
    by (induction es) (auto simp: redact_event_def redact_text_def REDACTED_def map_option_case split: option.splits)
  then show "snd (snapshot_output s opts)
      = length (filter (\<lambda>t. t = REDACTED) (shown_texts (fst (snapshot_output s opts))))"
    unfolding shown by (auto simp: redaction_count_def shown_texts_def redact_view_def redact_text_def REDACTED_def)
  obtain a b where "pg_content (read_page (capture_stream_snapshot s stream) offset limit)
      = decode_process_output_with_encoding (slice a b REDACTED) Unknown"
    using assms by (auto simp: read_page_def capture_stream_snapshot_def Let_def)
  moreover have "list_all (\<lambda>b. code b < 0x80) REDACTED" "list_all plain_byte REDACTED" by code_simp+
  then have "list_all (\<lambda>b. code b < 0x80) (slice a b REDACTED)" "list_all plain_byte (slice a b REDACTED)"
    using set_mono_sublist [OF slice_sublist [of a b REDACTED]] by (auto simp: list_all_iff)
  then have "decode_process_output_with_encoding (slice a b REDACTED) Unknown = slice a b REDACTED"
    using plain_detect ascii_lossy by (simp add: decode_process_output_with_encoding_def is_utf16_def)
  ultimately show "sublist (pg_content (read_page (capture_stream_snapshot s stream) offset limit)) REDACTED"
    using slice_sublist by simp
qed (rule view_post_checks)

definition sample_session :: ExecSession where
  "sample_session =
     \<lparr>ss_output = read_chunk (read_chunk new_output True ''token'') False ''more'', ss_sensitive = True,
      ss_exit_code = None, ss_exited = False, ss_termination_reason = None, ss_post_checks_pending = False,
      ss_post_check_result = None\<rparr>"

lemma sensitive_output_is_withheld_witness:
  "set (shown_texts (fst (snapshot_output sample_session (tail_options 100)))) \<subseteq> {[], REDACTED}
   \<and> ov_post_checks (fst (snapshot_output sample_session (tail_options 100))) = None
   \<and> sublist (pg_content (read_page (capture_stream_snapshot sample_session ''stdout'') 2 4)) REDACTED"
  using sensitive_output_is_withheld [of sample_session] by (simp add: sample_session_def)

text \<open>A post check that reads the secret shows it.\<close>

definition leaking_check :: json where
  "leaking_check = JObj [(''ok'', JBool True), (''results'', JArr [JObj [(''stdout'', JStr ''token'')]])]"

lemma sensitive_post_checks_are_shown:
  "let s = sample_session\<lparr>ss_exited := True, ss_post_check_result := Some leaking_check\<rparr>
   in ss_sensitive s \<and> ov_post_checks (fst (snapshot_output s opts)) = Some leaking_check"
  by (simp add: view_post_checks sample_session_def)

end
