(* ===== verification/Session_Registry.thy ===== *)
theory Session_Registry
  imports Prelude "HOL-Library.AList"
begin

text \<open>
  The registry of command sessions (\<open>tools/session/registry.rs\<close>, \<open>prune_finalized_sessions\<close> of
  \<open>tools/session/lifecycle.rs\<close>): sessions by id, the indexes by operation and by command fingerprint,
  and the pruning of finished sessions.  Times are milliseconds of one monotonic clock.
\<close>

definition MAX_RETAINED_FINALIZED_SESSIONS :: nat where "MAX_RETAINED_FINALIZED_SESSIONS = 128"
definition FINALIZED_SESSION_RETENTION :: nat where "FINALIZED_SESSION_RETENTION = 3600000"

record session_entry =
  en_operation_id :: "string option"
  en_fingerprint :: "string option"
  en_started_ts_ms :: nat
  en_finalized_at :: "nat option"

text \<open>A \<open>HashMap\<close> is an association list with distinct keys, in the order it is walked.\<close>

record SessionRegistry =
  rg_sessions :: "(string \<times> session_entry) list"
  rg_operation_index :: "(string \<times> string) list"
  rg_fingerprint_index :: "(string \<times> string) list"

definition empty_registry :: SessionRegistry where
  "empty_registry = \<lparr>rg_sessions = [], rg_operation_index = [], rg_fingerprint_index = []\<rparr>"

definition expired :: "nat \<Rightarrow> session_entry \<Rightarrow> bool" where
  "expired now e = (case en_finalized_at e of None \<Rightarrow> False | Some t \<Rightarrow> now - t \<ge> FINALIZED_SESSION_RETENTION)"

definition drop_oldest_finalized :: "(string \<times> session_entry) list \<Rightarrow> (string \<times> session_entry) list" where
  "drop_oldest_finalized sessions =
     (let finalized = List.map_filter (\<lambda>(k, e). map_option (\<lambda>t. (k, t)) (en_finalized_at e)) sessions;
          remove_count = length finalized - MAX_RETAINED_FINALIZED_SESSIONS;
          removed = map fst (take remove_count (sort_key snd finalized))
      in if length finalized > MAX_RETAINED_FINALIZED_SESSIONS
         then filter (\<lambda>(k, _). k \<notin> set removed) sessions else sessions)"

definition prune_finalized_sessions :: "nat \<Rightarrow> SessionRegistry \<Rightarrow> SessionRegistry" where
  "prune_finalized_sessions now r =
     (let live = filter (\<lambda>(_, e). \<not> expired now e) (rg_sessions r);
          sessions = drop_oldest_finalized live;
          retained = fst ` set sessions
      in r\<lparr>rg_sessions := sessions,
           rg_operation_index := filter (\<lambda>(_, sid). sid \<in> retained) (rg_operation_index r),
           rg_fingerprint_index := filter (\<lambda>(_, sid). sid \<in> retained) (rg_fingerprint_index r)\<rparr>)"

definition index_put :: "string option \<Rightarrow> string \<Rightarrow> (string \<times> string) list \<Rightarrow> (string \<times> string) list" where
  "index_put key session_id index = (case key of None \<Rightarrow> index | Some k \<Rightarrow> AList.update k session_id index)"

definition registry_insert :: "nat \<Rightarrow> string \<Rightarrow> session_entry \<Rightarrow> SessionRegistry \<Rightarrow> SessionRegistry" where
  "registry_insert now session_id e r =
     (let r' = prune_finalized_sessions now r
      in \<lparr>rg_sessions = AList.update session_id e (rg_sessions r'),
          rg_operation_index = index_put (en_operation_id e) session_id (rg_operation_index r'),
          rg_fingerprint_index = index_put (en_fingerprint e) session_id (rg_fingerprint_index r')\<rparr>)"

definition registry_get :: "string \<Rightarrow> SessionRegistry \<Rightarrow> session_entry option" where
  "registry_get session_id r = map_of (rg_sessions r) session_id"

definition get_by_operation ::
    "nat \<Rightarrow> string \<Rightarrow> SessionRegistry \<Rightarrow> session_entry option \<times> SessionRegistry" where
  "get_by_operation now operation_id r =
     (let r' = prune_finalized_sessions now r
      in (Option.bind (map_of (rg_operation_index r') operation_id) (map_of (rg_sessions r')), r'))"

definition get_by_fingerprint ::
    "nat \<Rightarrow> string \<Rightarrow> SessionRegistry \<Rightarrow> session_entry option \<times> SessionRegistry" where
  "get_by_fingerprint now fingerprint r =
     (let r' = prune_finalized_sessions now r
      in (Option.bind (map_of (rg_fingerprint_index r') fingerprint) (map_of (rg_sessions r')), r'))"

text \<open>The newest sessions first.\<close>

definition registry_list ::
    "nat \<Rightarrow> bool \<Rightarrow> nat \<Rightarrow> SessionRegistry \<Rightarrow> (string \<times> session_entry) list \<times> SessionRegistry" where
  "registry_list now include_finalized limit r =
     (let r' = prune_finalized_sessions now r;
          sessions = filter (\<lambda>(_, e). include_finalized \<or> en_finalized_at e = None) (rg_sessions r')
      in (take limit (sort_key (\<lambda>(_, e). - int (en_started_ts_ms e)) sessions), r'))"

definition registry_remove :: "string \<Rightarrow> SessionRegistry \<Rightarrow> SessionRegistry" where
  "registry_remove session_id r =
     \<lparr>rg_sessions = filter (\<lambda>(k, _). k \<noteq> session_id) (rg_sessions r),
      rg_operation_index = filter (\<lambda>(_, sid). sid \<noteq> session_id) (rg_operation_index r),
      rg_fingerprint_index = filter (\<lambda>(_, sid). sid \<noteq> session_id) (rg_fingerprint_index r)\<rparr>"

text \<open>A session that ends keeps its first end time (\<open>finish_session\<close>).\<close>

definition finish_session :: "nat \<Rightarrow> string \<Rightarrow> SessionRegistry \<Rightarrow> SessionRegistry" where
  "finish_session now session_id r =
     r\<lparr>rg_sessions := map (\<lambda>(k, e). (k, if k = session_id \<and> en_finalized_at e = None
                                      then e\<lparr>en_finalized_at := Some now\<rparr> else e)) (rg_sessions r)\<rparr>"

section \<open>Reachable registries\<close>

text \<open>Session ids are random UUIDs: a new session has an id that no retained one has.\<close>

inductive registry_step :: "SessionRegistry \<Rightarrow> SessionRegistry \<Rightarrow> bool" where
  Insert: "registry_get session_id r = None \<Longrightarrow> registry_step r (registry_insert now session_id e r)"
| Lookup: "registry_step r (prune_finalized_sessions now r)"
| Remove: "registry_step r (registry_remove session_id r)"
| Finish: "registry_step r (finish_session now session_id r)"

definition index_names :: "(session_entry \<Rightarrow> string option) \<Rightarrow> (string \<times> string) list
    \<Rightarrow> (string \<times> session_entry) list \<Rightarrow> bool" where
  "index_names key index sessions \<longleftrightarrow>
     (\<forall>k sid. map_of index k = Some sid \<longrightarrow> (\<exists>e. map_of sessions sid = Some e \<and> key e = Some k))"

definition registry_ok :: "SessionRegistry \<Rightarrow> bool" where
  "registry_ok r \<longleftrightarrow> distinct (map fst (rg_sessions r))
     \<and> distinct (map fst (rg_operation_index r)) \<and> distinct (map fst (rg_fingerprint_index r))
     \<and> index_names en_operation_id (rg_operation_index r) (rg_sessions r)
     \<and> index_names en_fingerprint (rg_fingerprint_index r) (rg_sessions r)"

lemma map_of_filter:
  "distinct (map fst xs) \<Longrightarrow> map_of (filter P xs) k = Some v \<longleftrightarrow> map_of xs k = Some v \<and> P (k, v)"
  by (induction xs) (auto dest: map_of_SomeD simp: image_iff)

lemma distinct_fst_filter: "distinct (map fst xs) \<Longrightarrow> distinct (map fst (filter P xs))"
  by (induction xs) auto

lemma index_names_filter:
  assumes "index_names key index sessions" "distinct (map fst index)" "distinct (map fst sessions)"
  shows "index_names key (filter (\<lambda>(_, sid). sid \<in> fst ` set (filter P sessions)) index) (filter P sessions)"
  unfolding index_names_def
proof (intro allI impI)
  fix k sid
  assume "map_of (filter (\<lambda>(_, sid). sid \<in> fst ` set (filter P sessions)) index) k = Some sid"
  then have "map_of index k = Some sid" and kept: "sid \<in> fst ` set (filter P sessions)"
    by (simp_all add: map_of_filter [OF assms(2)])
  with assms(1) obtain e where e: "map_of sessions sid = Some e" "key e = Some k"
    unfolding index_names_def by blast
  from kept obtain e' where "map_of (filter P sessions) sid = Some e'"
    by (meson map_of_eq_None_iff not_None_eq)
  with e show "\<exists>e. map_of (filter P sessions) sid = Some e \<and> key e = Some k"
    by (metis map_of_filter [OF assms(3)] option.inject)
qed

text \<open>Pruning is a filter that only drops finished sessions and leaves at most the limit of them.\<close>

lemma drop_oldest_filter:
  "\<exists>P. drop_oldest_finalized xs = filter P xs \<and> (distinct (map fst xs) \<longrightarrow> (\<forall>(k, e) \<in> set xs. en_finalized_at e = None \<longrightarrow> P (k, e)))"
proof (cases "length (List.map_filter (\<lambda>(k, e). map_option (\<lambda>t. (k, t)) (en_finalized_at e)) xs)
    > MAX_RETAINED_FINALIZED_SESSIONS")
  case False
  then show ?thesis by (intro exI [of _ "\<lambda>_. True"]) (simp add: drop_oldest_finalized_def Let_def)
next
  case True
  let ?finalized = "List.map_filter (\<lambda>(k, e). map_option (\<lambda>t. (k, t)) (en_finalized_at e)) xs"
  let ?removed = "map fst (take (length ?finalized - MAX_RETAINED_FINALIZED_SESSIONS) (sort_key snd ?finalized))"
  have "k \<notin> set ?removed" if "distinct (map fst xs)" "(k, e) \<in> set xs" "en_finalized_at e = None" for k e
  proof
    assume "k \<in> set ?removed"
    then have "k \<in> fst ` set ?finalized" by (auto dest!: in_set_takeD)
    then obtain e' where "(k, e') \<in> set xs" "en_finalized_at e' \<noteq> None"
      by (auto simp: List.map_filter_def split: if_split_asm)
    then show False using that by (metis eq_key_imp_eq_value)
  qed
  then show ?thesis using True
    by (intro exI [of _ "\<lambda>(k, _). k \<notin> set ?removed"]) (auto simp: drop_oldest_finalized_def Let_def)
qed

lemma keys_without:
  "map fst (filter P (filter (\<lambda>(k, _). k \<notin> gone) xs)) = filter (\<lambda>k. k \<notin> gone) (map fst (filter P xs))"
  by (induction xs) auto

lemma drop_oldest_bound:
  assumes "distinct (map fst xs)"
  shows "length (filter (\<lambda>(_, e). en_finalized_at e \<noteq> None) (drop_oldest_finalized xs)) \<le> MAX_RETAINED_FINALIZED_SESSIONS"
proof -
  let ?final = "\<lambda>(k, e). map_option (\<lambda>t. (k, t)) (en_finalized_at e)"
  let ?finalized = "List.map_filter ?final xs"
  let ?n = "length ?finalized - MAX_RETAINED_FINALIZED_SESSIONS"
  let ?removed = "map fst (take ?n (sort_key snd ?finalized))"
  have keys: "map fst (List.map_filter ?final ys) = map fst (filter (\<lambda>(_, e). en_finalized_at e \<noteq> None) ys)" for ys
    by (induction ys) auto
  have len: "length (filter (\<lambda>(_, e). en_finalized_at e \<noteq> None) ys) = length (List.map_filter ?final ys)" for ys
    using arg_cong [OF keys [of ys], of length] by simp
  show ?thesis
  proof (cases "length ?finalized > MAX_RETAINED_FINALIZED_SESSIONS")
    case False
    then show ?thesis using len [of xs] by (simp add: drop_oldest_finalized_def Let_def)
  next
    case True
    have dist: "distinct (map fst ?finalized)" using assms distinct_fst_filter unfolding keys by blast
    then have "distinct (map fst (sort_key snd ?finalized))"
      by (simp add: distinct_map)
    then have removed: "distinct ?removed" "set ?removed \<subseteq> set (map fst ?finalized)" "length ?removed = ?n"
      by (auto simp: take_map [symmetric] dest!: in_set_takeD)
    let ?left = "filter (\<lambda>k. k \<notin> set ?removed) (map fst ?finalized)"
    have "drop_oldest_finalized xs = filter (\<lambda>(k, _). k \<notin> set ?removed) xs"
      using True by (simp add: drop_oldest_finalized_def Let_def)
    then have "map fst (filter (\<lambda>(_, e). en_finalized_at e \<noteq> None) (drop_oldest_finalized xs)) = ?left"
      unfolding keys by (simp only: keys_without)
    then have left: "length (filter (\<lambda>(_, e). en_finalized_at e \<noteq> None) (drop_oldest_finalized xs)) = length ?left"
      by (metis length_map)
    have "length ?left = card (set (map fst ?finalized) - set ?removed)"
    proof -
      have "set ?left = set (map fst ?finalized) - set ?removed" by auto
      then show ?thesis using distinct_card [OF distinct_filter [OF dist]] by metis
    qed
    also have "\<dots> = length ?finalized - ?n"
      using card_Diff_subset [of "set ?removed" "set (map fst ?finalized)"] removed distinct_card [OF removed(1)]
        distinct_card [OF dist] by simp
    finally show ?thesis using left True by simp
  qed
qed

lemma prune_ok:
  fixes now :: nat
  assumes "registry_ok r"
  defines "r' \<equiv> prune_finalized_sessions now r"
  shows "registry_ok r'"
    and "registry_get sid r' = Some e \<Longrightarrow> registry_get sid r = Some e \<and> \<not> expired now e"
    and "registry_get sid r = Some e \<Longrightarrow> en_finalized_at e = None \<Longrightarrow> registry_get sid r' = Some e"
    and "length (filter (\<lambda>(_, e). en_finalized_at e \<noteq> None) (rg_sessions r')) \<le> MAX_RETAINED_FINALIZED_SESSIONS"
proof -
  let ?live = "filter (\<lambda>(_, e). \<not> expired now e) (rg_sessions r)"
  have ok: "distinct (map fst (rg_sessions r))" "distinct (map fst (rg_operation_index r))"
    "distinct (map fst (rg_fingerprint_index r))"
    "index_names en_operation_id (rg_operation_index r) (rg_sessions r)"
    "index_names en_fingerprint (rg_fingerprint_index r) (rg_sessions r)"
    using assms(1) by (simp_all add: registry_ok_def)
  have live: "distinct (map fst ?live)" using ok(1) by (rule distinct_fst_filter)
  obtain P where P: "drop_oldest_finalized ?live = filter P ?live"
    "\<forall>(k, e) \<in> set ?live. en_finalized_at e = None \<longrightarrow> P (k, e)"
    using drop_oldest_filter [of ?live] live by blast
  let ?Q = "\<lambda>x. P x \<and> \<not> expired now (snd x)"
  have "rg_sessions r' = drop_oldest_finalized ?live"
    by (simp add: r'_def prune_finalized_sessions_def Let_def)
  also have "\<dots> = filter ?Q (rg_sessions r)" unfolding P(1) by (simp add: case_prod_unfold conj_commute)
  finally have sessions: "rg_sessions r' = filter ?Q (rg_sessions r)" .
  then have indexes: "rg_operation_index r' = filter (\<lambda>(_, sid). sid \<in> fst ` set (filter ?Q (rg_sessions r))) (rg_operation_index r)"
    "rg_fingerprint_index r' = filter (\<lambda>(_, sid). sid \<in> fst ` set (filter ?Q (rg_sessions r))) (rg_fingerprint_index r)"
    unfolding r'_def prune_finalized_sessions_def Let_def by simp_all
  show "registry_ok r'"
    unfolding registry_ok_def sessions indexes
    by (intro conjI distinct_fst_filter index_names_filter ok)
  show "registry_get sid r' = Some e \<Longrightarrow> registry_get sid r = Some e \<and> \<not> expired now e"
    by (simp add: registry_get_def sessions map_of_filter [OF ok(1)])
  show "registry_get sid r' = Some e" if "registry_get sid r = Some e" "en_finalized_at e = None"
  proof -
    have "(sid, e) \<in> set ?live" using that by (auto simp: registry_get_def expired_def dest: map_of_SomeD)
    with P(2) have "case (sid, e) of (k, e) \<Rightarrow> en_finalized_at e = None \<longrightarrow> P (k, e)" by (rule bspec)
    then have "P (sid, e)" using that(2) by simp
    then show ?thesis using that by (simp add: registry_get_def sessions map_of_filter [OF ok(1)] expired_def)
  qed
  show "length (filter (\<lambda>(_, e). en_finalized_at e \<noteq> None) (rg_sessions r')) \<le> MAX_RETAINED_FINALIZED_SESSIONS"
    using drop_oldest_bound [OF live] by (simp add: r'_def prune_finalized_sessions_def Let_def)
qed

lemma index_put_names:
  assumes "index_names key index sessions" "map_of sessions sid = None"
  shows "index_names key (index_put (key e) sid index) (AList.update sid e sessions)"
proof -
  have kept: "map_of (AList.update sid e sessions) k' = (if k' = sid then Some e else map_of sessions k')" for k'
    by (simp add: update_conv')
  have "\<exists>e'. map_of (AList.update sid e sessions) sid' = Some e' \<and> key e' = Some k"
    if "map_of (index_put (key e) sid index) k = Some sid'" for k sid'
  proof (cases "key e = Some k")
    case True
    then show ?thesis using that kept by (auto simp: index_put_def update_conv')
  next
    case False
    then have "map_of index k = Some sid'" using that by (auto simp: index_put_def update_conv' split: option.splits)
    then obtain e' where e': "map_of sessions sid' = Some e'" "key e' = Some k"
      using assms(1) unfolding index_names_def by blast
    moreover have "sid' \<noteq> sid" using e'(1) assms(2) by auto
    ultimately show ?thesis using kept by simp
  qed
  then show ?thesis unfolding index_names_def by blast
qed

lemma insert_ok:
  assumes "registry_ok r" "registry_get sid r = None"
  shows "registry_ok (registry_insert now sid e r)"
proof -
  let ?r = "prune_finalized_sessions now r"
  have ok: "registry_ok ?r" by (rule prune_ok(1) [OF assms(1)])
  have "registry_get sid ?r = None"
    using prune_ok(2) [OF assms(1)] assms(2) by (metis not_None_eq option.distinct(1))
  then have "map_of (rg_sessions ?r) sid = None" by (simp add: registry_get_def)
  note names = index_put_names [OF _ this]
  have "distinct (map fst (index_put k sid index))" if "distinct (map fst index)" for k index
    using that by (simp add: index_put_def distinct_update split: option.split)
  then show ?thesis
    using ok names by (auto simp: registry_ok_def registry_insert_def Let_def distinct_update)
qed

lemma remove_ok: "registry_ok r \<Longrightarrow> registry_ok (registry_remove sid r)"
proof -
  assume ok: "registry_ok r"
  have "index_names key (filter (\<lambda>(_, i). i \<noteq> sid) index) (filter (\<lambda>(k, _). k \<noteq> sid) (rg_sessions r))"
    if "index_names key index (rg_sessions r)" "distinct (map fst index)" for key index
    using that ok by (auto simp: index_names_def registry_ok_def map_of_filter)
  with ok show ?thesis by (auto simp: registry_ok_def registry_remove_def distinct_fst_filter)
qed

lemma finish_ok: "registry_ok r \<Longrightarrow> registry_ok (finish_session now sid r)"
proof -
  assume ok: "registry_ok r"
  let ?f = "\<lambda>k e. if k = sid \<and> en_finalized_at e = None then e\<lparr>en_finalized_at := Some now\<rparr> else e"
  have map_of: "map_of (map (\<lambda>(k, e). (k, ?f k e)) xs) k = map_option (?f k) (map_of xs k)" for xs k
    by (induction xs) auto
  have keys: "map fst (map (\<lambda>(k, e). (k, ?f k e)) xs) = map fst xs" for xs by (induction xs) auto
  have "index_names key index (map (\<lambda>(k, e). (k, ?f k e)) (rg_sessions r))"
    if "index_names key index (rg_sessions r)" "\<And>e. key (e\<lparr>en_finalized_at := Some now\<rparr>) = key e" for key index
    using that unfolding index_names_def map_of by fastforce
  then have "index_names en_operation_id (rg_operation_index r) (map (\<lambda>(k, e). (k, ?f k e)) (rg_sessions r))"
    "index_names en_fingerprint (rg_fingerprint_index r) (map (\<lambda>(k, e). (k, ?f k e)) (rg_sessions r))"
    using ok by (simp_all add: registry_ok_def)
  then show ?thesis using ok unfolding registry_ok_def finish_session_def by (simp add: keys del: map_map)
qed

lemma reachable_registry_ok: "registry_step\<^sup>*\<^sup>* empty_registry r \<Longrightarrow> registry_ok r"
proof (induction rule: rtranclp_induct)
  case base
  show ?case by (simp add: registry_ok_def empty_registry_def index_names_def)
next
  case (step r r')
  from step(2) step(3) show ?case
    by cases (simp_all add: insert_ok prune_ok(1) remove_ok finish_ok)
qed

text \<open>
  The registry answers with the right session: in every registry that insertions, lookups,
  removals and finishing sessions can reach, a lookup by operation finds only a retained session of
  that operation which has not expired, it loses no running session, and it leaves at most 128
  finished ones.
\<close>

lemma operation_lookup_is_sound:
  assumes "registry_step\<^sup>*\<^sup>* empty_registry r" "get_by_operation now op r = (found, r')"
  shows "(case found of None \<Rightarrow> True
      | Some e \<Rightarrow> en_operation_id e = Some op \<and> \<not> expired now e \<and> (\<exists>sid. registry_get sid r = Some e))
    \<and> (\<forall>sid e. registry_get sid r = Some e \<and> en_finalized_at e = None \<longrightarrow> registry_get sid r' = Some e)
    \<and> length (filter (\<lambda>(_, e). en_finalized_at e \<noteq> None) (rg_sessions r')) \<le> MAX_RETAINED_FINALIZED_SESSIONS"
proof -
  have ok: "registry_ok r" using assms(1) by (rule reachable_registry_ok)
  have r': "r' = prune_finalized_sessions now r"
    "found = Option.bind (map_of (rg_operation_index r') op) (map_of (rg_sessions r'))"
    using assms(2) by (auto simp: get_by_operation_def Let_def)
  note pruned = prune_ok [OF ok, where now = now, folded r'(1)]
  have "en_operation_id e = Some op \<and> \<not> expired now e \<and> (\<exists>sid. registry_get sid r = Some e)" if "found = Some e" for e
  proof -
    from that r'(2) obtain sid where sid: "map_of (rg_operation_index r') op = Some sid" "registry_get sid r' = Some e"
      by (auto simp: registry_get_def bind_eq_Some_conv)
    then have "en_operation_id e = Some op"
      using pruned(1) unfolding registry_ok_def index_names_def registry_get_def by fastforce
    with pruned(2) [OF sid(2)] show ?thesis by blast
  qed
  then show ?thesis using pruned(3,4) by (auto split: option.split)
qed

lemma operation_lookup_is_sound_witness:
  "(case get_by_operation 5 ''op''
      (registry_insert 3 ''s1'' \<lparr>en_operation_id = Some ''op'', en_fingerprint = None, en_started_ts_ms = 3,
         en_finalized_at = None\<rparr> empty_registry) of
      (None, _) \<Rightarrow> False
    | (Some e, _) \<Rightarrow> en_operation_id e = Some ''op'')"
proof -
  let ?e = "\<lparr>en_operation_id = Some ''op'', en_fingerprint = None, en_started_ts_ms = 3, en_finalized_at = None\<rparr>"
  let ?r = "registry_insert 3 ''s1'' ?e empty_registry"
  have "registry_step empty_registry ?r" by (rule Insert) (simp add: registry_get_def empty_registry_def)
  then have reach: "registry_step\<^sup>*\<^sup>* empty_registry ?r" by simp
  obtain found r' where run: "get_by_operation 5 ''op'' ?r = (found, r')" by fastforce
  have "fst (get_by_operation 5 ''op'' ?r) \<noteq> None"
    by (simp add: get_by_operation_def registry_insert_def prune_finalized_sessions_def empty_registry_def
        index_put_def drop_oldest_finalized_def expired_def MAX_RETAINED_FINALIZED_SESSIONS_def Let_def)
  then show ?thesis using operation_lookup_is_sound [OF reach run] run by (auto split: option.splits)
qed

end
