(* ===== verification/Security_Policy.thy ===== *)
theory Security_Policy
  imports Rust_Str
begin

text \<open>
  The security policy of a workspace (\<open>workspace/model.rs\<close>): the guards every tool reads, and the
  policy that stands for the two settings older profiles store instead of it.
\<close>

record SecurityPolicy =
  restrict_tool_catalog :: bool
  advertise_read_only_annotations :: bool
  enforce_command_allowlist :: bool
  require_dangerous_confirmation :: bool
  require_shell_confirmation :: bool
  block_network_commands :: bool
  enforce_workspace_boundary :: bool
  protect_repository_metadata :: bool
  block_symlink_escape :: bool
  protect_environment_variables :: bool
  enforce_harness_baseline :: bool
  require_write_confirmation :: bool
  verify_write_conflicts :: bool
  enforce_resource_limits :: bool
  redact_sensitive_output :: bool
  withhold_sensitive_source_output :: bool
  redact_telemetry :: bool
  redact_history :: bool

definition default_security_policy :: SecurityPolicy where
  "default_security_policy =
     \<lparr>restrict_tool_catalog = True, advertise_read_only_annotations = False,
      enforce_command_allowlist = True, require_dangerous_confirmation = True,
      require_shell_confirmation = True, block_network_commands = False,
      enforce_workspace_boundary = True, protect_repository_metadata = True,
      block_symlink_escape = True, protect_environment_variables = True,
      enforce_harness_baseline = True, require_write_confirmation = True,
      verify_write_conflicts = True, enforce_resource_limits = True,
      redact_sensitive_output = True, withhold_sensitive_source_output = True,
      redact_telemetry = True, redact_history = True\<rparr>"

definition legacy :: "string \<Rightarrow> string \<Rightarrow> SecurityPolicy" where
  "legacy permission_mode tool_profile = default_security_policy
     \<lparr>restrict_tool_catalog := tool_profile \<notin> {''advanced'', ''compat-readonly-all''},
      advertise_read_only_annotations := tool_profile = ''compat-readonly-all'',
      require_dangerous_confirmation := permission_mode \<noteq> ''dangerous'',
      require_shell_confirmation := permission_mode \<noteq> ''dangerous'',
      require_write_confirmation := permission_mode \<noteq> ''dangerous'',
      block_network_commands := permission_mode \<notin> {''trusted'', ''dangerous''}\<rparr>"

definition compatibility_permission_mode :: "SecurityPolicy \<Rightarrow> string" where
  "compatibility_permission_mode p =
     (if \<not> require_dangerous_confirmation p \<and> \<not> require_shell_confirmation p \<and> \<not> require_write_confirmation p
      then ''dangerous''
      else if block_network_commands p then ''safe'' else ''trusted'')"

definition compatibility_tool_profile :: "SecurityPolicy \<Rightarrow> string" where
  "compatibility_tool_profile p =
     (if restrict_tool_catalog p then ''trusted-core''
      else if advertise_read_only_annotations p then ''compat-readonly-all'' else ''advanced'')"

text \<open>
  The two stored settings survive the way through the policy: an unknown permission mode is read as
  \<open>safe\<close>, an unknown profile as \<open>trusted-core\<close>.
\<close>

lemma legacy_compatible:
  "compatibility_permission_mode (legacy mode profile) =
     (if mode \<in> {''dangerous'', ''trusted''} then mode else ''safe'')"
  "compatibility_tool_profile (legacy mode profile) =
     (if profile \<in> {''advanced'', ''compat-readonly-all''} then profile else ''trusted-core'')"
  by (auto simp: compatibility_permission_mode_def compatibility_tool_profile_def legacy_def
      default_security_policy_def)

text \<open>The older settings never switch off the guards they do not name.\<close>

lemma legacy_guards [simp]:
  "enforce_command_allowlist (legacy mode profile)" "enforce_workspace_boundary (legacy mode profile)"
  "protect_repository_metadata (legacy mode profile)" "block_symlink_escape (legacy mode profile)"
  "protect_environment_variables (legacy mode profile)" "verify_write_conflicts (legacy mode profile)"
  "enforce_resource_limits (legacy mode profile)"
  by (simp_all add: legacy_def default_security_policy_def)

end
