(* ===== verification/Tool_Policy.thy ===== *)
theory Tool_Policy
  imports Security_Policy Command_Policy Workspace_Paths Edit_Match
begin

text \<open>
  The policy gate every tool call passes first (\<open>tools/policy.rs\<close>): which commands, environments,
  patches, edits and formatter calls a workspace admits.  The \<open>regex\<close> crate is the record
  \<open>regex_lib\<close>, \<open>shell_words::split\<close> and the length of the JSON text \<open>serde_json\<close> writes are arguments
  of the host.  Commands are read byte by byte: every character the gate asks for is ASCII, and a
  byte of a longer character is never one.
\<close>

section \<open>Settings\<close>

definition BASIC_READ_ONLY_COMMANDS :: "string list" where
  "BASIC_READ_ONLY_COMMANDS =
     [''pwd'', ''ls'', ''dir'', ''cat'', ''head'', ''tail'', ''grep'', ''find'', ''which'', ''echo'']"

definition DEFAULT_ALLOWED_COMMANDS :: "string list" where
  "DEFAULT_ALLOWED_COMMANDS =
     [''pytest'', ''python'', ''python3'', ''npm'', ''npx'', ''node'', ''pnpm'', ''yarn'', ''make'', ''mvn'',
      ''mvnw'', ''gradle'', ''gradlew'', ''cargo'', ''go'', ''ruff'', ''mypy'', ''eslint'', ''tsc'', ''msbuild'',
      ''dotnet'', ''deno'', ''bun'', ''ruby'', ''java'', ''javac'', ''cmake'', ''clang'', ''gcc'', ''g++'',
      ''git'', ''cmd'', ''powershell'', ''pwsh'', ''sh'']"

record PolicySettings =
  ps_allowed_commands :: "string list"
  ps_workspace_local_entries :: bool
  ps_workspace_script_extensions :: "string list"
  ps_max_patch_bytes :: nat
  ps_permission_mode :: string
  ps_security_policy :: SecurityPolicy
  ps_explicit_security_policy :: bool
  ps_sandbox_enabled :: bool

definition default_allowed_command_set :: "string list" where
  "default_allowed_command_set = DEFAULT_ALLOWED_COMMANDS @ BASIC_READ_ONLY_COMMANDS"

definition configured_entries :: "string \<Rightarrow> string list" where
  "configured_entries configured = filter (\<lambda>s. s \<noteq> []) (map trim (split_on (CHR '','') configured))"

definition parse_allowed_commands :: "string \<Rightarrow> string list" where
  "parse_allowed_commands configured =
     (if trim configured = [] then default_allowed_command_set
      else configured_entries (trim configured) @ BASIC_READ_ONLY_COMMANDS)"

definition default_workspace_script_extension_set :: "string list" where
  "default_workspace_script_extension_set = [''.exe'', ''.bat'', ''.cmd'', ''.ps1'']"

definition parse_workspace_script_extensions :: "string \<Rightarrow> string list" where
  "parse_workspace_script_extensions configured =
     (let extensions = map (\<lambda>value. if starts_with value ''.'' then to_ascii_lowercase value
                                     else CHR ''.'' # to_ascii_lowercase value) (configured_entries configured)
      in if extensions = [] then default_workspace_script_extension_set else extensions)"

definition merge_default_allowed_commands :: "string \<Rightarrow> string list" where
  "merge_default_allowed_commands configured = default_allowed_command_set @ parse_allowed_commands configured"

definition default_policy_settings :: PolicySettings where
  "default_policy_settings =
     \<lparr>ps_allowed_commands = default_allowed_command_set, ps_workspace_local_entries = True,
      ps_workspace_script_extensions = default_workspace_script_extension_set,
      ps_max_patch_bytes = 200000, ps_permission_mode = ''safe'',
      ps_security_policy = legacy ''safe'' ''core'', ps_explicit_security_policy = False,
      ps_sandbox_enabled = False\<rparr>"

text \<open>The fields of the runtime configuration the settings are made of.\<close>

record RuntimeConfig =
  rt_allowed_commands :: string
  rt_workspace_local_entries :: bool
  rt_workspace_script_extensions :: string
  rt_permission_mode :: string
  rt_tool_profile :: string
  rt_security_policy :: "SecurityPolicy option"
  rt_sandbox_enabled :: bool

definition from_runtime :: "RuntimeConfig \<Rightarrow> PolicySettings" where
  "from_runtime runtime =
     (let security = (case rt_security_policy runtime of Some p \<Rightarrow> p
                      | None \<Rightarrow> legacy (rt_permission_mode runtime) (rt_tool_profile runtime))
      in \<lparr>ps_allowed_commands = merge_default_allowed_commands (rt_allowed_commands runtime),
          ps_workspace_local_entries = rt_workspace_local_entries runtime,
          ps_workspace_script_extensions = parse_workspace_script_extensions (rt_workspace_script_extensions runtime),
          ps_max_patch_bytes = 200000,
          ps_permission_mode = compatibility_permission_mode security,
          ps_security_policy = security,
          ps_explicit_security_policy = (rt_security_policy runtime \<noteq> None),
          ps_sandbox_enabled = rt_sandbox_enabled runtime\<rparr>)"

definition from_actions_config :: "string \<Rightarrow> string \<Rightarrow> nat \<Rightarrow> PolicySettings" where
  "from_actions_config permission_mode allowed_commands max_patch_bytes =
     (let security = legacy permission_mode ''core''
      in \<lparr>ps_allowed_commands = merge_default_allowed_commands allowed_commands,
          ps_workspace_local_entries = True,
          ps_workspace_script_extensions = default_workspace_script_extension_set,
          ps_max_patch_bytes = max_patch_bytes,
          ps_permission_mode = compatibility_permission_mode security,
          ps_security_policy = security, ps_explicit_security_policy = False, ps_sandbox_enabled = False\<rparr>)"

definition network_allowed :: "PolicySettings \<Rightarrow> bool" where
  "network_allowed policy \<longleftrightarrow> \<not> block_network_commands (ps_security_policy policy)"

definition skip_permission_gates :: "PolicySettings \<Rightarrow> bool" where
  "skip_permission_gates policy \<longleftrightarrow>
     \<not> require_dangerous_confirmation (ps_security_policy policy)
     \<and> \<not> require_shell_confirmation (ps_security_policy policy)
     \<and> \<not> require_write_confirmation (ps_security_policy policy)"

section \<open>Errors and the host\<close>

datatype policy_error =
    ExactlyOneCommand | BadShell | ProgramNeedsNoShell | ScriptNeedsShell | ShellNeedsConfirmation
  | ArgsNotStrings | EmptyCommand | CommandTooLong | ExternalExecution | WorkdirOutside
  | ShellSyntax | ProtectedAsset | ExternalWrite | DangerousCommand | NetworkBlocked
  | InvalidSyntax | NotAllowlisted string
  | EnvNotObject | TooManyVariables | InvalidKey string | ProtectedVariable string | EnvNotString
  | InvalidValue string | SecretEnvNotObject | SecretNotString | BadSecretReference
  | SecretConflict string | StdinConflict | RemoveEnvNotArray | RemoveEnvNotString
  | TimeoutRejected timeout_error
  | PostChecksNotArray | TooManyPostChecks | PostCheckNotObject nat | PostCheckJob | NestedPostChecks
  | PostCheckRejected nat policy_error
  | PatchRequired | PatchTooLarge | PathRequired | EditsRequired | PayloadTooLarge
  | FilesRequired | TooManyFiles | TooManyEdits nat | BadFormatMode | BadFormatScope
  | FormatPathsInvalid | FormatPathOutside | FormatNeedsConfirmation | NetworkPushBlocked
  | NotExposed

text \<open>What the gate asks of libraries and of the host.\<close>

record gate_host =
  gh_regex :: regex_lib
  gh_shell_split :: "string \<Rightarrow> string list option"
  gh_json_len :: "json \<Rightarrow> nat"
  gh_utf16_len :: "string \<Rightarrow> nat"
  gh_workspace :: "(fs \<times> path) option"
  gh_job_timeout_max_ms :: nat

section \<open>Reading a command line\<close>

text \<open>The loop over the characters; the state is the open quote and whether the last one was a backslash.\<close>

definition DQ :: char where "DQ = CHR 0x22"
definition SQ :: char where "SQ = CHR 0x27"

fun shell_scan :: "char option \<Rightarrow> bool \<Rightarrow> string \<Rightarrow> bool" where
  "shell_scan quote escaped [] = False"
| "shell_scan quote escaped (ch # rest) =
     (if escaped then shell_scan quote False rest
      else case quote of
        Some q \<Rightarrow>
          if q = SQ then shell_scan (if ch = SQ then None else quote) False rest
          else if ch = BACKSLASH then shell_scan quote True rest
          else shell_scan (if ch = DQ then None else quote) False rest
      | None \<Rightarrow>
          if ch = BACKSLASH then shell_scan None True rest
          else if ch = SQ \<or> ch = DQ then shell_scan (Some ch) False rest
          else if ch \<in> set '';&|><`''
            \<or> ch = CHR ''$'' \<and> rest \<noteq> [] \<and> (hd rest = CHR ''('' \<or> hd rest = CHR ''{'') then True
          else shell_scan None False rest)"

definition has_forbidden_shell_syntax :: "string \<Rightarrow> bool" where
  "has_forbidden_shell_syntax command \<longleftrightarrow> CR \<in> set command \<or> LF \<in> set command \<or> shell_scan None False command"

definition is_match :: "gate_host \<Rightarrow> string \<Rightarrow> string \<Rightarrow> bool" where
  "is_match host pat s \<longleftrightarrow> rx_is_match (gh_regex host) pat s = Some True"

text \<open>The four patterns, as the texts given to the \<open>regex\<close> crate.\<close>

definition BS :: string where "BS = [BACKSLASH]"

definition network_command_pattern :: string where
  "network_command_pattern =
     ''(?i)(https?://|urllib'' @ BS @ ''.request|requests'' @ BS @ ''.|http'' @ BS @ ''.client|'' @ BS @ ''bcurl''
     @ BS @ ''b|'' @ BS @ ''bwget'' @ BS @ ''b|'' @ BS @ ''bssh'' @ BS @ ''b|'' @ BS @ ''bscp'' @ BS @ ''b|'' @ BS @ ''bftp''
     @ BS @ ''b)''"

definition dangerous_command_pattern :: string where
  "dangerous_command_pattern =
     ''(?i)(git'' @ BS @ ''s+reset'' @ BS @ ''s+--hard|git'' @ BS @ ''s+clean'' @ BS @ ''s+-[^'' @ BS @ ''r'' @ BS
     @ ''n]*f|git'' @ BS @ ''s+checkout'' @ BS @ ''s+--'' @ BS @ ''s+'' @ BS @ ''.|(^|'' @ BS @ ''s)rm'' @ BS @ ''s+(-[^''
     @ BS @ ''r'' @ BS @ ''n]*r[^'' @ BS @ ''r'' @ BS @ ''n]*f|--recursive)|remove-item'' @ BS @ ''s+[^'' @ BS @ ''r'' @ BS
     @ ''n]*-recurse|(^|'' @ BS @ ''s)(rmdir|del)'' @ BS @ ''s+/s'' @ BS @ ''b)''"

definition interpreter_mutation_pattern :: string where
  "interpreter_mutation_pattern =
     ''(?i)(shutil'' @ BS @ ''.(rmtree|move)|os'' @ BS @ ''.(remove|unlink|rmdir)|pathlib'' @ BS @ ''.[^'' @ BS
     @ ''s;]+'' @ BS @ ''.(unlink|rename)|write_text|write_bytes|fs'' @ BS
     @ ''.(writefile|writefilesync|unlink|rm)|set-content|out-file|new-item|files?'' @ BS
     @ ''.(write|delete)|open'' @ BS @ ''([^)]*['' @ [SQ] @ BS @ [DQ] @ '']w)''"

definition command_contains_external_path :: "gate_host \<Rightarrow> string \<Rightarrow> bool" where
  "command_contains_external_path host command =
     (let normalized = forward_slashes command
      in contains normalized ''../''
         \<or> contains normalized (''..'' @ BS)
         \<or> is_match host (''(?i)(^|['' @ [DQ, SQ] @ BS @ ''s])/[^'' @ [DQ] @ '']'') normalized
         \<or> is_match host (''(?i)'' @ BS @ ''b[A-Z]:/'') normalized)"

definition trim_matches :: "(char \<Rightarrow> bool) \<Rightarrow> string \<Rightarrow> string" where
  "trim_matches p s = rev (dropWhile p (rev (dropWhile p s)))"

definition or_self :: "string option \<Rightarrow> string \<Rightarrow> string" where
  "or_self r s = (case r of Some t \<Rightarrow> t | None \<Rightarrow> s)"

definition protected_token :: "string \<Rightarrow> bool" where
  "protected_token part =
     (let token = forward_slashes (trim_matches (\<lambda>ch. ch \<in> set [SQ, DQ, CHR ''`'', CHR '','', CHR '';'']) part);
          token = or_self (strip_prefix token ''./'') token
      in token = ''.git'' \<or> starts_with token ''.git/'' \<or> token = ''.github'' \<or> starts_with token ''.github/'')"

definition command_targets_protected_repository_asset :: "string \<Rightarrow> bool" where
  "command_targets_protected_repository_asset command =
     (let normalized = forward_slashes (to_ascii_lowercase command)
      in (contains normalized ''.git'' \<or> contains normalized ''.github'')
         \<and> (list_ex (contains normalized)
               [''rm '', ''remove-item'', ''rmdir'', ''del '', ''unlink'', ''rmtree'', ''write_text'', ''writefile'',
                ''rename'', ''move'', ''checkout'', ''clean '']
            \<or> list_ex protected_token (split_whitespace command)))"

section \<open>The environment of a command\<close>

definition PROTECTED_VARIABLES :: "string list" where
  "PROTECTED_VARIABLES =
     [''PATH'', ''PATHEXT'', ''COMSPEC'', ''LD_PRELOAD'', ''LD_LIBRARY_PATH'', ''DYLD_INSERT_LIBRARIES'',
      ''DYLD_LIBRARY_PATH'']"

definition is_protected_variable :: "string \<Rightarrow> bool" where
  "is_protected_variable key = list_ex (\<lambda>item. eq_ignore_ascii_case item key) PROTECTED_VARIABLES"

definition valid_environment_key :: "string \<Rightarrow> bool" where
  "valid_environment_key key =
     (case key of
        [] \<Rightarrow> False
      | first # chars \<Rightarrow>
          (first = CHR ''_'' \<or> is_ascii_alphabetic first)
          \<and> list_all (\<lambda>ch. ch = CHR ''_'' \<or> is_ascii_alphanumeric ch) chars \<and> length key \<le> 128)"

definition validate_environment_key :: "string \<Rightarrow> policy_error + unit" where
  "validate_environment_key key = ensure (valid_environment_key key) (InvalidKey key)"

definition validate_secret_reference :: "string \<Rightarrow> policy_error + unit" where
  "validate_secret_reference reference =
     ensure (reference \<noteq> [] \<and> length reference \<le> 128
       \<and> list_all (\<lambda>ch. is_ascii_alphanumeric ch \<or> ch \<in> set ''._-'') reference) BadSecretReference"

text \<open>A \<open>for\<close> loop that stops at the first error.\<close>

fun each :: "('a \<Rightarrow> 'e + unit) \<Rightarrow> 'a list \<Rightarrow> 'e + unit" where
  "each f [] = Inr ()"
| "each f (x # xs) = and_then (f x) (\<lambda>_. each f xs)"

definition validate_variable :: "bool \<Rightarrow> bool \<Rightarrow> string \<times> json \<Rightarrow> policy_error + unit" where
  "validate_variable protect limits kv =
     (case kv of (key, v) \<Rightarrow>
        and_then (validate_environment_key key) (\<lambda>_.
        and_then (ensure (\<not> (protect \<and> is_protected_variable key)) (ProtectedVariable key)) (\<lambda>_.
        case as_str v of
          None \<Rightarrow> Inl EnvNotString
        | Some value \<Rightarrow>
            ensure (\<not> (limits \<and> 4096 < length value \<or> CHR 0x00 \<in> set value)) (InvalidValue key))))"

definition validate_env :: "bool \<Rightarrow> bool \<Rightarrow> json \<Rightarrow> policy_error + unit" where
  "validate_env protect limits arguments =
     (case jget arguments ''env'' of
        None \<Rightarrow> Inr ()
      | Some env \<Rightarrow> (case as_object env of
            None \<Rightarrow> Inl EnvNotObject
          | Some kvs \<Rightarrow>
              and_then (ensure (\<not> (limits \<and> 64 < length kvs)) TooManyVariables) (\<lambda>_.
                each (validate_variable protect limits) kvs)))"

definition secret_conflict :: "json \<Rightarrow> string \<Rightarrow> bool" where
  "secret_conflict arguments key \<longleftrightarrow>
     (case Option.bind (jget arguments ''env'') as_object of
        None \<Rightarrow> False | Some values \<Rightarrow> list_ex (\<lambda>candidate. eq_ignore_ascii_case candidate key) (map fst values))
     \<or> (case get_array arguments ''remove_env'' of
        None \<Rightarrow> False
      | Some values \<Rightarrow> list_ex (\<lambda>candidate. eq_ignore_ascii_case candidate key) (List.map_filter as_str values))"

definition validate_secret :: "bool \<Rightarrow> json \<Rightarrow> string \<times> json \<Rightarrow> policy_error + unit" where
  "validate_secret protect arguments kv =
     (case kv of (key, v) \<Rightarrow>
        and_then (validate_environment_key key) (\<lambda>_.
        and_then (ensure (\<not> (protect \<and> is_protected_variable key)) (ProtectedVariable key)) (\<lambda>_.
        case as_str v of
          None \<Rightarrow> Inl SecretNotString
        | Some reference \<Rightarrow>
            and_then (validate_secret_reference reference) (\<lambda>_.
              ensure (\<not> secret_conflict arguments key) (SecretConflict key)))))"

definition validate_secret_env :: "bool \<Rightarrow> bool \<Rightarrow> json \<Rightarrow> policy_error + unit" where
  "validate_secret_env protect limits arguments =
     (case jget arguments ''secret_env'' of
        None \<Rightarrow> Inr ()
      | Some env \<Rightarrow> (case as_object env of
            None \<Rightarrow> Inl SecretEnvNotObject
          | Some kvs \<Rightarrow>
              and_then (ensure (\<not> (limits \<and> 64 < length kvs)) TooManyVariables) (\<lambda>_.
                each (validate_secret protect arguments) kvs)))"

definition validate_stdin_secret :: "json \<Rightarrow> policy_error + unit" where
  "validate_stdin_secret arguments =
     (case jget arguments ''stdin_secret'' of
        None \<Rightarrow> Inr ()
      | Some v \<Rightarrow> (case as_str v of
            None \<Rightarrow> Inl SecretNotString
          | Some reference \<Rightarrow>
              and_then (validate_secret_reference reference) (\<lambda>_.
                ensure (get_str arguments ''stdin'' \<in> {None, Some []}) StdinConflict)))"

definition validate_remove_env :: "bool \<Rightarrow> json \<Rightarrow> policy_error + unit" where
  "validate_remove_env limits arguments =
     (case jget arguments ''remove_env'' of
        None \<Rightarrow> Inr ()
      | Some v \<Rightarrow> (case as_array v of
            None \<Rightarrow> Inl RemoveEnvNotArray
          | Some keys \<Rightarrow>
              and_then (ensure (\<not> (limits \<and> 64 < length keys)) TooManyVariables) (\<lambda>_.
                each (\<lambda>key. case as_str key of
                        None \<Rightarrow> Inl RemoveEnvNotString | Some k \<Rightarrow> validate_environment_key k) keys)))"

definition validate_environment_arguments :: "json \<Rightarrow> bool \<Rightarrow> bool \<Rightarrow> policy_error + unit" where
  "validate_environment_arguments arguments protect limits =
     and_then (validate_env protect limits arguments) (\<lambda>_.
     and_then (validate_secret_env protect limits arguments) (\<lambda>_.
     and_then (validate_stdin_secret arguments) (\<lambda>_.
       validate_remove_env limits arguments)))"

section \<open>Commands\<close>

definition lower_shell :: "json \<Rightarrow> string" where
  "lower_shell arguments =
     to_ascii_lowercase (case get_str arguments ''shell'' of Some s \<Rightarrow> s | None \<Rightarrow> ''none'')"

definition confirmed :: "json \<Rightarrow> bool" where
  "confirmed arguments \<longleftrightarrow> get_bool arguments ''confirm'' = Some True"

text \<open>Exactly one of \<open>cmd\<close>, \<open>script\<close> and \<open>program\<close>, in a mode it fits.\<close>

definition check_mode :: "PolicySettings \<Rightarrow> json \<Rightarrow> policy_error + unit" where
  "check_mode policy arguments =
     (let supplied = length (filter (\<lambda>k. get_str arguments k \<noteq> None) [''cmd'', ''script'', ''program'']);
          shell = lower_shell arguments
      in and_then (ensure (supplied = 1) ExactlyOneCommand) (\<lambda>_.
         and_then (ensure (shell \<in> {''none'', ''cmd'', ''powershell'', ''sh''}) BadShell) (\<lambda>_.
         and_then (ensure (\<not> (get_str arguments ''program'' \<noteq> None \<and> shell \<noteq> ''none'')) ProgramNeedsNoShell) (\<lambda>_.
         and_then (ensure (\<not> (get_str arguments ''script'' \<noteq> None \<and> shell = ''none'')) ScriptNeedsShell) (\<lambda>_.
           ensure (\<not> (require_shell_confirmation (ps_security_policy policy) \<and> shell \<noteq> ''none''
                     \<and> \<not> confirmed arguments)) ShellNeedsConfirmation)))))"

definition args_texts :: "json \<Rightarrow> policy_error + string list" where
  "args_texts arguments =
     (case get_array arguments ''args'' of
        None \<Rightarrow> Inr []
      | Some args \<Rightarrow> map_res (\<lambda>arg. case as_str arg of None \<Rightarrow> Inl ArgsNotStrings | Some s \<Rightarrow> Inr s) args)"

definition command_text :: "json \<Rightarrow> policy_error + string" where
  "command_text arguments =
     (case (get_str arguments ''cmd'', get_str arguments ''script'', get_str arguments ''program'') of
        (Some command, None, None) \<Rightarrow> Inr command
      | (None, Some command, None) \<Rightarrow> Inr command
      | (None, None, Some program) \<Rightarrow>
          and_then (args_texts arguments) (\<lambda>args. Inr (join '' '' (program # args)))
      | _ \<Rightarrow> Inl ExactlyOneCommand)"

definition leaves_base :: "string \<Rightarrow> bool" where
  "leaves_base p \<longleftrightarrow> p \<noteq> [] \<and> hd p = CHR ''/'' \<or> ''..'' \<in> set (components p)"

definition check_workdir :: "PolicySettings \<Rightarrow> json \<Rightarrow> policy_error + unit" where
  "check_workdir policy arguments =
     each (\<lambda>key. case get_str arguments key of
              None \<Rightarrow> Inr ()
            | Some workdir \<Rightarrow>
                ensure (\<not> (enforce_workspace_boundary (ps_security_policy policy) \<and> leaves_base workdir)) WorkdirOutside)
       [''workdir'', ''cwd'']"

text \<open>The guards on the text of the command, in their order.\<close>

definition check_command_text :: "gate_host \<Rightarrow> PolicySettings \<Rightarrow> json \<Rightarrow> string \<Rightarrow> policy_error + unit" where
  "check_command_text host policy arguments command =
     (let security = ps_security_policy policy;
          dangerous = is_match host dangerous_command_pattern command;
          mutation = is_match host interpreter_mutation_pattern command
      in and_then (ensure (trim command \<noteq> []) EmptyCommand) (\<lambda>_.
         and_then (ensure (\<not> (enforce_resource_limits security \<and> 64000 < length command)) CommandTooLong) (\<lambda>_.
         and_then (ensure (\<not> (enforce_workspace_boundary security
            \<and> (case get_str arguments ''filesystem_scope'' of Some s \<Rightarrow> s | None \<Rightarrow> ''workspace'') \<noteq> ''workspace''))
            ExternalExecution) (\<lambda>_.
         and_then (check_workdir policy arguments) (\<lambda>_.
         and_then (ensure (\<not> (lower_shell arguments = ''none''
            \<and> (case get_str arguments ''cmd'' of Some cmd \<Rightarrow> has_forbidden_shell_syntax cmd | None \<Rightarrow> False)))
            ShellSyntax) (\<lambda>_.
         and_then (ensure (\<not> (protect_repository_metadata security \<and> (dangerous \<or> mutation)
            \<and> command_targets_protected_repository_asset command)) ProtectedAsset) (\<lambda>_.
         and_then (ensure (\<not> (enforce_workspace_boundary security \<and> \<not> ps_sandbox_enabled policy \<and> mutation
            \<and> command_contains_external_path host command)) ExternalWrite) (\<lambda>_.
         and_then (ensure (\<not> (require_dangerous_confirmation security \<and> dangerous \<and> \<not> confirmed arguments))
            DangerousCommand) (\<lambda>_.
           ensure (\<not> (block_network_commands security \<and> is_match host network_command_pattern command))
             NetworkBlocked)))))))))"

text \<open>The program a command names.\<close>

definition raw_executable :: "gate_host \<Rightarrow> json \<Rightarrow> policy_error + string" where
  "raw_executable host arguments =
     (case get_str arguments ''program'' of
        Some program \<Rightarrow> Inr program
      | None \<Rightarrow>
          if lower_shell arguments \<noteq> ''none'' then Inr (lower_shell arguments)
          else (case gh_shell_split host (case get_str arguments ''cmd'' of Some cmd \<Rightarrow> cmd | None \<Rightarrow> []) of
                  None \<Rightarrow> Inl InvalidSyntax
                | Some [] \<Rightarrow> Inl EmptyCommand
                | Some (p # _) \<Rightarrow> Inr p))"

fun trim_start_matches :: "string \<Rightarrow> string" where
  "trim_start_matches (a # b # s) =
     (if a = CHR ''.'' \<and> b = CHR ''/'' then trim_start_matches s else a # b # s)"
| "trim_start_matches s = s"

text \<open>The text after the last separator.\<close>

definition base_name :: "string \<Rightarrow> string" where
  "base_name executable = last (split_on (CHR ''/'') (forward_slashes executable))"

definition strip_suffix :: "string \<Rightarrow> string \<Rightarrow> string option" where
  "strip_suffix s t = map_option rev (strip_prefix (rev s) (rev t))"

definition program_stem :: "string \<Rightarrow> string" where
  "program_stem name =
     (case strip_suffix name ''.exe'' of Some stem \<Rightarrow> stem | None \<Rightarrow>
     (case strip_suffix name ''.cmd'' of Some stem \<Rightarrow> stem | None \<Rightarrow>
     or_self (strip_suffix name ''.bat'') name))"

definition workspace_local_entry_exists :: "(fs \<times> path) option \<Rightarrow> json \<Rightarrow> string \<Rightarrow> bool" where
  "workspace_local_entry_exists workspace arguments executable =
     (case workspace of
        None \<Rightarrow> False
      | Some (fs, root) \<Rightarrow>
          let workdir = (case (case jget arguments ''workdir'' of Some v \<Rightarrow> Some v | None \<Rightarrow> jget arguments ''cwd'') of
                           Some v \<Rightarrow> (case as_str v of Some s \<Rightarrow> s | None \<Rightarrow> ''.'')
                         | None \<Rightarrow> ''.'')
          in case resolve_existing fs root workdir of
               Inl _ \<Rightarrow> False
             | Inr base \<Rightarrow>
                 (case canonicalize fs
                    (if executable \<noteq> [] \<and> hd executable = CHR ''/'' then kernel_path executable
                     else rp_path base @ kernel_path executable) of
                    None \<Rightarrow> False
                  | Some p \<Rightarrow> (case fs p of Some (File _) \<Rightarrow> prefix root p | _ \<Rightarrow> False)))"

definition workspace_entry_candidate :: "gate_host \<Rightarrow> PolicySettings \<Rightarrow> json \<Rightarrow> string \<Rightarrow> bool" where
  "workspace_entry_candidate host policy arguments executable \<longleftrightarrow>
     workspace_local_entry_exists (gh_workspace host) arguments executable
     \<or> CHR ''/'' \<in> set executable \<or> BACKSLASH \<in> set executable
     \<or> list_ex (ends_with (to_ascii_lowercase (base_name executable))) (ps_workspace_script_extensions policy)"

definition check_allowlist :: "gate_host \<Rightarrow> PolicySettings \<Rightarrow> json \<Rightarrow> policy_error + unit" where
  "check_allowlist host policy arguments =
     and_then (raw_executable host arguments) (\<lambda>raw.
       let executable = trim_start_matches raw;
           stem = program_stem (base_name executable)
       in ensure (\<not> (enforce_command_allowlist (ps_security_policy policy)
            \<and> \<not> (stem \<in> set (ps_allowed_commands policy)
                 \<or> ps_workspace_local_entries policy \<and> workspace_entry_candidate host policy arguments executable)))
            (NotAllowlisted stem))"

definition ABSOLUTE_COMMAND_TIMEOUT_MAX_MS :: nat where "ABSOLUTE_COMMAND_TIMEOUT_MAX_MS = 60 * 60000"

definition check_timeout :: "gate_host \<Rightarrow> json \<Rightarrow> policy_error + unit" where
  "check_timeout host arguments =
     (case resolve_process_timeout (gh_utf16_len host) arguments 30000 ABSOLUTE_COMMAND_TIMEOUT_MAX_MS
             (gh_job_timeout_max_ms host) of
        Inl e \<Rightarrow> Inl (TimeoutRejected e)
      | Inr _ \<Rightarrow> Inr ())"

text \<open>Everything but the post checks.\<close>

definition validate_single :: "gate_host \<Rightarrow> PolicySettings \<Rightarrow> json \<Rightarrow> policy_error + unit" where
  "validate_single host policy arguments =
     and_then (check_mode policy arguments) (\<lambda>_.
     and_then (command_text arguments) (\<lambda>command.
     and_then (check_command_text host policy arguments command) (\<lambda>_.
     and_then (check_allowlist host policy arguments) (\<lambda>_.
     and_then (validate_environment_arguments arguments
        (protect_environment_variables (ps_security_policy policy))
        (enforce_resource_limits (ps_security_policy policy))) (\<lambda>_.
       check_timeout host arguments)))))"

lemma jget_smaller: "jget v k = Some w \<Longrightarrow> size w < size v"
proof (cases v)
  case (JObj kvs)
  assume "jget v k = Some w"
  then have "(k, w) \<in> set kvs" using JObj by (auto simp: jget_def dest: map_of_SomeD)
  then have "size (k, w) \<le> size_list size kvs \<or> size w < size_list (size_prod size size) kvs"
    by (induction kvs) auto
  moreover have "(k, w) \<in> set kvs \<Longrightarrow> size w < size_list (size_prod (\<lambda>_. 0) size) kvs" for kvs
    by (induction kvs) auto
  ultimately show ?thesis using JObj \<open>(k, w) \<in> set kvs\<close> by fastforce
qed (simp_all add: jget_def)

lemma as_array_smaller: "as_array v = Some xs \<Longrightarrow> size_list size xs < size v"
  by (auto simp: as_array_def split: json.splits)

text \<open>A post check is a command of its own, without post checks and without a job.\<close>

function validate_command_for_workspace :: "gate_host \<Rightarrow> PolicySettings \<Rightarrow> json \<Rightarrow> policy_error + unit"
  and validate_post_checks :: "gate_host \<Rightarrow> PolicySettings \<Rightarrow> nat \<Rightarrow> json list \<Rightarrow> policy_error + unit" where
  "validate_command_for_workspace host policy arguments =
     (case validate_single host policy arguments of
        Inl e \<Rightarrow> Inl e
      | Inr _ \<Rightarrow>
          (case jget arguments ''post_checks'' of
             None \<Rightarrow> Inr ()
           | Some v \<Rightarrow> (case as_array v of
                 None \<Rightarrow> Inl PostChecksNotArray
               | Some checks \<Rightarrow>
                   if enforce_resource_limits (ps_security_policy policy) \<and> 16 < length checks
                   then Inl TooManyPostChecks
                   else validate_post_checks host policy 0 checks)))"
| "validate_post_checks host policy index [] = Inr ()"
| "validate_post_checks host policy index (check # checks) =
     (if as_object check = None then Inl (PostCheckNotObject index)
      else if jget check ''job_timeout_ms'' \<noteq> None then Inl PostCheckJob
      else if jget check ''post_checks'' \<noteq> None then Inl NestedPostChecks
      else (case validate_command_for_workspace host policy check of
              Inl e \<Rightarrow> Inl (PostCheckRejected index e)
            | Inr _ \<Rightarrow> validate_post_checks host policy (index + 1) checks))"
  by pat_completeness auto
termination
  by (relation "measure (\<lambda>x. case x of Inl (_, _, v) \<Rightarrow> size v | Inr (_, _, _, vs) \<Rightarrow> size_list size vs)")
    (auto dest!: jget_smaller as_array_smaller)

declare validate_command_for_workspace.simps [simp del]

section \<open>Files\<close>

definition validate_patch :: "PolicySettings \<Rightarrow> json \<Rightarrow> policy_error + unit" where
  "validate_patch policy arguments =
     (case get_str arguments ''patch'' of
        None \<Rightarrow> Inl PatchRequired
      | Some patch \<Rightarrow>
          if trim patch = [] then Inl PatchRequired
          else ensure (length patch \<le> ps_max_patch_bytes policy) PatchTooLarge)"

definition validate_edit_file :: "gate_host \<Rightarrow> PolicySettings \<Rightarrow> json \<Rightarrow> policy_error + unit" where
  "validate_edit_file host policy arguments =
     (case get_str arguments ''path'' of
        None \<Rightarrow> Inl PathRequired
      | Some p \<Rightarrow>
          if trim p = [] then Inl PathRequired
          else
            let edits = get_array arguments ''edits'';
                proposal = Option.bind (jget arguments ''apply_proposal'') as_object
            in if (case edits of Some es \<Rightarrow> es = [] | None \<Rightarrow> proposal = None) then Inl EditsRequired
               else ensure (\<not> (enforce_resource_limits (ps_security_policy policy)
                 \<and> ps_max_patch_bytes policy < gh_json_len host arguments)) PayloadTooLarge)"

definition validate_bounded_mutation :: "gate_host \<Rightarrow> PolicySettings \<Rightarrow> json \<Rightarrow> policy_error + unit" where
  "validate_bounded_mutation host policy arguments =
     ensure (\<not> (enforce_resource_limits (ps_security_policy policy)
       \<and> sat_mul (ps_max_patch_bytes policy) 4 < gh_json_len host arguments)) PayloadTooLarge"

definition validate_edit_entry :: "PolicySettings \<Rightarrow> nat \<times> json \<Rightarrow> policy_error + unit" where
  "validate_edit_entry policy indexed =
     (case indexed of (index, file) \<Rightarrow>
        if as_object file = None then Inl PathRequired
        else (case get_str file ''path'' of
          None \<Rightarrow> Inl PathRequired
        | Some p \<Rightarrow>
            if trim p = [] then Inl PathRequired
            else ensure (\<not> (enforce_resource_limits (ps_security_policy policy)
              \<and> (case get_array file ''edits'' of Some es \<Rightarrow> 100 < length es | None \<Rightarrow> False)))
              (TooManyEdits index)))"

definition validate_edit :: "gate_host \<Rightarrow> PolicySettings \<Rightarrow> json \<Rightarrow> policy_error + unit" where
  "validate_edit host policy arguments =
     (case get_array arguments ''files'' of
        None \<Rightarrow> Inl FilesRequired
      | Some files \<Rightarrow>
          if files = [] \<or> enforce_resource_limits (ps_security_policy policy) \<and> 100 < length files
          then Inl TooManyFiles
          else and_then (each (validate_edit_entry policy) (enumerate 0 files)) (\<lambda>_.
            validate_bounded_mutation host policy arguments))"

definition validate_format_path :: "bool \<Rightarrow> string \<Rightarrow> policy_error + unit" where
  "validate_format_path boundary p =
     (if trim p = [] then Inl FormatPathsInvalid
      else ensure (\<not> (boundary \<and> leaves_base p)) FormatPathOutside)"

definition validate_format_patterns :: "bool \<Rightarrow> json \<Rightarrow> string \<Rightarrow> policy_error + unit" where
  "validate_format_patterns boundary arguments key =
     (case jget arguments key of
        None \<Rightarrow> Inr ()
      | Some v \<Rightarrow> (case as_array v of
            None \<Rightarrow> Inl FormatPathsInvalid
          | Some patterns \<Rightarrow>
              each (\<lambda>p. case as_str p of
                      None \<Rightarrow> Inl FormatPathsInvalid
                    | Some s \<Rightarrow> ensure (\<not> (boundary \<and> leaves_base s)) FormatPathOutside) patterns))"

definition validate_format_files :: "gate_host \<Rightarrow> PolicySettings \<Rightarrow> json \<Rightarrow> policy_error + unit" where
  "validate_format_files host policy arguments =
     (let security = ps_security_policy policy;
          boundary = enforce_workspace_boundary security;
          mode = (case get_str arguments ''mode'' of Some s \<Rightarrow> s | None \<Rightarrow> ''plan'');
          scope = (case get_str arguments ''scope'' of Some s \<Rightarrow> s | None \<Rightarrow> ''files'');
          max_files = (case get_u64 arguments ''max_files'' of Some n \<Rightarrow> n | None \<Rightarrow> 500)
      in and_then (validate_bounded_mutation host policy arguments) (\<lambda>_.
         and_then (ensure (mode \<in> {''plan'', ''check'', ''apply''}) BadFormatMode) (\<lambda>_.
         and_then (ensure (scope \<in> {''files'', ''changed'', ''staged'', ''project''}) BadFormatScope) (\<lambda>_.
         and_then (case jget arguments ''paths'' of
             None \<Rightarrow> Inr ()
           | Some v \<Rightarrow> (case as_array v of
                 None \<Rightarrow> Inl FormatPathsInvalid
               | Some paths \<Rightarrow>
                   each (\<lambda>p. case as_str p of
                           None \<Rightarrow> Inl FormatPathsInvalid | Some s \<Rightarrow> validate_format_path boundary s) paths)) (\<lambda>_.
         and_then (case jget arguments ''expected_sha256'' of
             None \<Rightarrow> Inr ()
           | Some v \<Rightarrow> (case as_object v of
                 None \<Rightarrow> Inl FormatPathsInvalid
               | Some kvs \<Rightarrow> each (validate_format_path boundary) (map fst kvs))) (\<lambda>_.
         and_then (each (validate_format_patterns boundary arguments) [''include_patterns'', ''exclude_patterns'']) (\<lambda>_.
         and_then (ensure (\<not> (require_write_confirmation security \<and> mode = ''apply'' \<and> scope = ''project''
             \<and> \<not> confirmed arguments)) FormatNeedsConfirmation) (\<lambda>_.
           ensure (\<not> (require_write_confirmation security \<and> enforce_resource_limits security \<and> mode = ''apply''
             \<and> 2000 < max_files \<and> \<not> confirmed arguments)) FormatNeedsConfirmation))))))))"

definition validate_tool_arguments_for_workspace ::
    "gate_host \<Rightarrow> string \<Rightarrow> json \<Rightarrow> PolicySettings \<Rightarrow> policy_error + unit" where
  "validate_tool_arguments_for_workspace host tool_name arguments policy =
     (if tool_name = ''exec_command'' then validate_command_for_workspace host policy arguments
      else if tool_name = ''git_push'' \<and> \<not> network_allowed policy then Inl NetworkPushBlocked
      else if tool_name = ''apply_patch'' \<or> tool_name = ''patch_check'' then validate_patch policy arguments
      else if tool_name = ''edit'' then validate_edit host policy arguments
      else if tool_name = ''edit_file'' then validate_edit_file host policy arguments
      else if tool_name = ''edit_many'' \<or> tool_name = ''file_ops'' then validate_bounded_mutation host policy arguments
      else if tool_name = ''format_files'' then validate_format_files host policy arguments
      else Inr ())"

text \<open>What the Actions interface may call, given the exposed tools.\<close>

definition validate_actions_exposure :: "string list \<Rightarrow> string \<Rightarrow> policy_error + unit" where
  "validate_actions_exposure allowed_tools tool_name =
     (if tool_name \<in> {''switch_workspace_folder'', ''conversation_bootstrap''} then Inl NotExposed
      else ensure (tool_name \<in> set allowed_tools) NotExposed)"

end
