(* ===== verification/Exec_Spec.thy ===== *)
theory Exec_Spec
  imports Tool_Policy
begin

text \<open>
  What a command call runs (\<open>tools/exec/spec.rs\<close>): the program, resolved in the workspace or on the
  search path, its arguments and environment, and the same for its post checks.  The Unix build is
  modelled, for a workspace that is no WSL share; \<open>which\<close> and the PowerShell found at start are the
  host's.
\<close>

section \<open>Specifications\<close>

record ExecSpec =
  xs_display :: string
  xs_program :: string
  xs_args :: "string list"
  xs_shell :: string
  xs_env :: "(string \<times> string) list"
  xs_remove_env :: "string list"

record PostCheckSpec =
  pc_name :: string
  pc_exec :: ExecSpec
  pc_expected_exit_code :: int
  pc_timeout :: nat
  pc_max_output_bytes :: nat

datatype ExecResolutionTarget = Host | PortableSandbox

definition resolution_target_for_sandbox :: "(string \<Rightarrow> bool) \<Rightarrow> bool \<Rightarrow> string \<Rightarrow> ExecResolutionTarget" where
  "resolution_target_for_sandbox uses_portable_command enabled backend =
     (if enabled \<and> uses_portable_command backend then PortableSandbox else Host)"

text \<open>The programs the host finds.\<close>

record exec_host =
  eh_gate :: gate_host
  eh_fs :: fs
  eh_which :: "string \<Rightarrow> string option"

datatype exec_error =
    InvalidArg | ProgramNotFound | RootUnavailable | ExecutableOutsideWorkspace | EntryNotAllowed
  | NotOnPath | PowerShellUnavailable | TimeoutInvalid timeout_error

definition preferred_powershell_program :: "exec_host \<Rightarrow> exec_error + string" where
  "preferred_powershell_program host =
     (case eh_which host ''pwsh'' of
        Some program \<Rightarrow> Inr program
      | None \<Rightarrow> (case eh_which host ''powershell'' of
          Some program \<Rightarrow> Inr program | None \<Rightarrow> Inl PowerShellUnavailable))"

definition powershell_utf8_script :: "string \<Rightarrow> string" where
  "powershell_utf8_script script =
     ''$__ctmcp_utf8=[System.Text.UTF8Encoding]::new($false); ''
     @ ''[Console]::InputEncoding = $__ctmcp_utf8; '' @ ''[Console]::OutputEncoding = $__ctmcp_utf8; ''
     @ ''$global:OutputEncoding = $__ctmcp_utf8; '' @ script"

definition powershell_script :: "string \<Rightarrow> string" where
  "powershell_script script = powershell_utf8_script script"

definition powershell_literal :: "string \<Rightarrow> string" where
  "powershell_literal value = SQ # concat (map (\<lambda>c. if c = SQ then [SQ, SQ] else [c]) value) @ [SQ]"

fun normalize_powershell_args :: "string list \<Rightarrow> string list" where
  "normalize_powershell_args [] = []"
| "normalize_powershell_args (arg # args) =
     (if eq_ignore_ascii_case arg ''-command'' \<or> eq_ignore_ascii_case arg ''-c''
      then (case args of [] \<Rightarrow> [arg] | script # rest \<Rightarrow> arg # powershell_script script # rest)
      else arg # normalize_powershell_args args)"

text \<open>
  \<open>file_stem\<close> and \<open>extension\<close> of a file name: split at the last dot, unless that is the first
  character.
\<close>

definition after_dot :: "string \<Rightarrow> string option" where
  "after_dot name =
     (if CHR ''.'' \<in> set (tl name) \<and> name \<noteq> ''..''
      then Some (last (split_on (CHR ''.'') name)) else None)"

definition file_stem :: "string \<Rightarrow> string" where
  "file_stem name = (case after_dot name of Some e \<Rightarrow> take (length name - length e - 1) name | None \<Rightarrow> name)"

definition is_powershell_name :: "string \<Rightarrow> bool" where
  "is_powershell_name value =
     (components value \<noteq> [] \<and> last (components value) \<noteq> ''..''
      \<and> (let stem = file_stem (last (components value))
         in eq_ignore_ascii_case stem ''pwsh'' \<or> eq_ignore_ascii_case stem ''powershell''))"

section \<open>Programs\<close>

definition workspace_local_program_allowed :: "path \<Rightarrow> PolicySettings \<Rightarrow> bool" where
  "workspace_local_program_allowed resolved policy =
     (let extension = (case after_dot (last resolved) of
            Some e \<Rightarrow> CHR ''.'' # to_ascii_lowercase e | None \<Rightarrow> [])
      in \<not> enforce_command_allowlist (ps_security_policy policy)
         \<or> ps_workspace_local_entries policy
            \<and> (extension = [] \<or> extension \<in> set (ps_workspace_script_extensions policy)))"

definition path_text :: "path \<Rightarrow> string" where
  "path_text p = CHR ''/'' # join ''/'' p"

text \<open>The file a text names from the working directory, when there is one.\<close>

definition program_file :: "fs \<Rightarrow> path \<Rightarrow> string \<Rightarrow> path option" where
  "program_file fs cwd name =
     (case canonicalize fs (if name \<noteq> [] \<and> hd name = CHR ''/'' then kernel_path name
                            else cwd @ kernel_path name) of
        None \<Rightarrow> None
      | Some p \<Rightarrow> (case fs p of Some (File _) \<Rightarrow> Some p | _ \<Rightarrow> None))"

definition resolve_program_for_target ::
    "exec_host \<Rightarrow> string \<Rightarrow> path \<Rightarrow> path \<Rightarrow> PolicySettings \<Rightarrow> ExecResolutionTarget \<Rightarrow> exec_error + string" where
  "resolve_program_for_target host raw cwd workspace_root policy target =
     (let trimmed = trim raw
      in if trimmed = [] then Inl InvalidArg
         else (case program_file (eh_fs host) cwd trimmed of
           Some resolved \<Rightarrow>
             (case canonicalize (eh_fs host) workspace_root of
                None \<Rightarrow> Inl RootUnavailable
              | Some canonical_workspace \<Rightarrow>
                  if enforce_workspace_boundary (ps_security_policy policy) \<and> \<not> prefix canonical_workspace resolved
                  then Inl ExecutableOutsideWorkspace
                  else if workspace_local_program_allowed resolved policy then Inr (path_text resolved)
                  else Inl EntryNotAllowed)
         | None \<Rightarrow>
             if CHR ''/'' \<in> set trimmed \<or> BACKSLASH \<in> set trimmed then Inl ProgramNotFound
             else if target = PortableSandbox then Inr trimmed
             else (case eh_which host trimmed of Some p \<Rightarrow> Inr p | None \<Rightarrow> Inl NotOnPath)))"

definition parse_and_resolve ::
    "exec_host \<Rightarrow> string \<Rightarrow> path \<Rightarrow> path \<Rightarrow> PolicySettings \<Rightarrow> ExecResolutionTarget
     \<Rightarrow> exec_error + string \<times> string list" where
  "parse_and_resolve host cmd cwd workspace_root policy target =
     (case gh_shell_split (eh_gate host) cmd of
        None \<Rightarrow> Inl InvalidArg
      | Some [] \<Rightarrow> Inl InvalidArg
      | Some (p # args) \<Rightarrow>
          and_then (resolve_program_for_target host p cwd workspace_root policy target) (\<lambda>program.
            Inr (program, args)))"

text \<open>PowerShell of the host takes the place of a program of that name.\<close>

definition with_powershell ::
    "exec_host \<Rightarrow> ExecResolutionTarget \<Rightarrow> string \<Rightarrow> string list \<Rightarrow> exec_error + string \<times> string list" where
  "with_powershell host target program args =
     (if target = Host \<and> is_powershell_name program
      then and_then (preferred_powershell_program host) (\<lambda>p. Inr (p, normalize_powershell_args args))
      else Inr (program, args))"

definition env_entries :: "json \<Rightarrow> (string \<times> string) list" where
  "env_entries arguments =
     (case Option.bind (jget arguments ''env'') as_object of
        None \<Rightarrow> []
      | Some values \<Rightarrow> List.map_filter (\<lambda>(key, value). map_option (Pair key) (as_str value)) values)"

definition remove_entries :: "json \<Rightarrow> string list" where
  "remove_entries arguments =
     (case get_array arguments ''remove_env'' of None \<Rightarrow> [] | Some values \<Rightarrow> List.map_filter as_str values)"

definition program_args :: "json \<Rightarrow> exec_error + string list" where
  "program_args arguments =
     (case get_array arguments ''args'' of
        None \<Rightarrow> Inr []
      | Some values \<Rightarrow> map_res (\<lambda>v. case as_str v of None \<Rightarrow> Inl InvalidArg | Some s \<Rightarrow> Inr s) values)"

definition shell_command ::
    "exec_host \<Rightarrow> string \<Rightarrow> string \<Rightarrow> path \<Rightarrow> path \<Rightarrow> PolicySettings \<Rightarrow> ExecResolutionTarget
     \<Rightarrow> exec_error + string \<times> string list" where
  "shell_command host shell cmd cwd workspace_root policy target =
     (if shell = ''powershell'' then
        if target = PortableSandbox then Inl InvalidArg
        else and_then (preferred_powershell_program host) (\<lambda>program.
          Inr (program, [''-NoLogo'', ''-NoProfile'', ''-NonInteractive'', ''-Command'', powershell_script cmd]))
      else if shell = ''sh'' then
        and_then (resolve_program_for_target host ''sh'' cwd workspace_root policy target) (\<lambda>program.
          Inr (program, [''-c'', cmd]))
      else Inl InvalidArg)"

definition resolve_exec_spec_for_target ::
    "exec_host \<Rightarrow> json \<Rightarrow> path \<Rightarrow> path \<Rightarrow> PolicySettings \<Rightarrow> ExecResolutionTarget \<Rightarrow> exec_error + ExecSpec" where
  "resolve_exec_spec_for_target host arguments cwd workspace_root policy target =
     (let shell = lower_shell arguments;
          spec = (\<lambda>display (program, args).
            \<lparr>xs_display = display, xs_program = program, xs_args = args, xs_shell = shell,
             xs_env = env_entries arguments, xs_remove_env = remove_entries arguments\<rparr>)
      in case get_str arguments ''program'' of
           Some program \<Rightarrow>
             if shell \<noteq> ''none'' then Inl InvalidArg
             else and_then (program_args arguments) (\<lambda>args.
               and_then (resolve_program_for_target host program cwd workspace_root policy target) (\<lambda>program.
               and_then (with_powershell host target program args) (\<lambda>(program, args).
                 Inr (spec (join '' '' (program # args)) (program, args)))))
         | None \<Rightarrow>
             (case (get_str arguments ''cmd'', get_str arguments ''script'') of
                (Some _, Some _) \<Rightarrow> Inl InvalidArg
              | (None, None) \<Rightarrow> Inl InvalidArg
              | (None, Some script) \<Rightarrow>
                  if shell = ''none'' then Inl InvalidArg
                  else and_then (shell_command host shell script cwd workspace_root policy target) (\<lambda>run.
                    Inr (spec script run))
              | (Some cmd, None) \<Rightarrow>
                  if shell = ''none''
                  then and_then (parse_and_resolve host cmd cwd workspace_root policy target) (\<lambda>(program, args).
                       and_then (with_powershell host target program args) (\<lambda>run. Inr (spec cmd run)))
                  else and_then (shell_command host shell cmd cwd workspace_root policy target) (\<lambda>run.
                    Inr (spec cmd run))))"

section \<open>Post checks\<close>

definition as_i64 :: "json \<Rightarrow> int option" where
  "as_i64 v = (case v of JInt i \<Rightarrow> if - (2 ^ 63) \<le> i \<and> i < 2 ^ 63 then Some i else None | _ \<Rightarrow> None)"

definition clamp_i32 :: "int \<Rightarrow> int" where
  "clamp_i32 i = max (- (2 ^ 31)) (min i (2 ^ 31 - 1))"

definition resolve_post_check ::
    "exec_host \<Rightarrow> path \<Rightarrow> path \<Rightarrow> PolicySettings \<Rightarrow> ExecResolutionTarget \<Rightarrow> nat \<times> json
     \<Rightarrow> exec_error + PostCheckSpec" where
  "resolve_post_check host cwd workspace_root policy target indexed =
     (case indexed of (index, check) \<Rightarrow>
        if jget check ''job_timeout_ms'' \<noteq> None then Inl InvalidArg
        else (case resolve_process_timeout (gh_utf16_len (eh_gate host)) check 30000
                 ABSOLUTE_COMMAND_TIMEOUT_MAX_MS 0 of
          Inl e \<Rightarrow> Inl (TimeoutInvalid e)
        | Inr contract \<Rightarrow>
            and_then (resolve_exec_spec_for_target host check cwd workspace_root policy target) (\<lambda>exec.
              Inr \<lparr>pc_name = (case get_str check ''name'' of
                     Some n \<Rightarrow> if trim n \<noteq> [] then n else ''post-check-'' @ decimal (index + 1)
                   | None \<Rightarrow> ''post-check-'' @ decimal (index + 1)),
                   pc_exec = exec,
                   pc_expected_exit_code = clamp_i32
                     (case Option.bind (jget check ''expected_exit_code'') as_i64 of Some i \<Rightarrow> i | None \<Rightarrow> 0),
                   pc_timeout = tc_effective_timeout_ms contract,
                   pc_max_output_bytes = clamp
                     (case get_u64 check ''max_output_bytes'' of Some n \<Rightarrow> n | None \<Rightarrow> 16384) 1 1048576\<rparr>)))"

definition resolve_post_checks_for_target ::
    "exec_host \<Rightarrow> json \<Rightarrow> path \<Rightarrow> path \<Rightarrow> PolicySettings \<Rightarrow> ExecResolutionTarget
     \<Rightarrow> exec_error + PostCheckSpec list" where
  "resolve_post_checks_for_target host arguments cwd workspace_root policy target =
     (case jget arguments ''post_checks'' of
        None \<Rightarrow> Inr []
      | Some v \<Rightarrow> (case as_array v of
            None \<Rightarrow> Inl InvalidArg
          | Some checks \<Rightarrow>
              if 16 < length checks then Inl InvalidArg
              else map_res (resolve_post_check host cwd workspace_root policy target) (enumerate 0 checks)))"

section \<open>Absolute programs in a WSL distribution\<close>

fun push_segments :: "string list \<Rightarrow> string list \<Rightarrow> string list option" where
  "push_segments segments [] = Some segments"
| "push_segments segments (s # rest) =
     (if s = [] \<or> s = ''.'' then push_segments segments rest
      else if s = ''..''
      then (if segments = [] then None else push_segments (butlast segments) rest)
      else push_segments (segments @ [s]) rest)"

text \<open>A control character: below \<open>0x20\<close>, \<open>0x7F\<close>, and \<open>0xC2\<close> followed by \<open>0x80\<close> to \<open>0x9F\<close>.\<close>

definition is_control :: "string \<Rightarrow> bool" where
  "is_control c = (case c of
     [b] \<Rightarrow> code b < 32 \<or> code b = 127
   | [a, b] \<Rightarrow> code a = 0xC2 \<and> code b < 0xA0
   | _ \<Rightarrow> False)"

definition normalize_wsl_absolute_program_path :: "string \<Rightarrow> string option" where
  "normalize_wsl_absolute_program_path raw =
     (if \<not> starts_with raw ''/'' \<or> BACKSLASH \<in> set raw \<or> CHR 0x00 \<in> set raw \<or> list_ex is_control (chars_of raw)
      then None
      else map_option (\<lambda>segments. CHR ''/'' # join ''/'' segments) (push_segments [] (split_on (CHR ''/'') raw)))"

definition is_trusted_wsl_system_program :: "string \<Rightarrow> bool" where
  "is_trusted_wsl_system_program p =
     (CHR ''/'' \<in> set p
      \<and> (let name = last (split_on (CHR ''/'') p);
              parent = take (length p - length name - 1) p
         in name \<noteq> [] \<and> parent \<in> {''/bin'', ''/sbin'', ''/usr/bin'', ''/usr/sbin'', ''/usr/local/bin'',
              ''/usr/local/sbin'', ''/snap/bin''}))"

definition looks_like_windows_drive_path :: "string \<Rightarrow> bool" where
  "looks_like_windows_drive_path value \<longleftrightarrow>
     3 \<le> length value \<and> is_ascii_alphabetic (value ! 0) \<and> value ! 1 = CHR '':''
     \<and> (value ! 2 = BACKSLASH \<or> value ! 2 = CHR ''/'')"

definition looks_like_windows_host_path :: "string \<Rightarrow> bool" where
  "looks_like_windows_host_path value \<longleftrightarrow>
     looks_like_windows_drive_path value \<or> starts_with value [BACKSLASH, BACKSLASH]"

definition valid_wsl_environment_key :: "string \<Rightarrow> bool" where
  "valid_wsl_environment_key key \<longleftrightarrow>
     key \<noteq> [] \<and> \<not> starts_with key ''-'' \<and> CHR ''='' \<notin> set key \<and> CHR 0x00 \<notin> set key"

end
