(* ===== verification/Exec_Gate.thy ===== *)
theory Exec_Gate
  imports Exec_Spec "HOL-Library.Code_Target_Nat"
begin

text \<open>
  What the gate and the program resolution guarantee together: which programs an accepted command
  can run, and which environment they get.
\<close>

section \<open>What the gate has checked\<close>

lemma each_Inr_iff: "each f xs = Inr () \<longleftrightarrow> (\<forall>x \<in> set xs. f x = Inr ())"
  by (induction xs) (auto simp: and_then_Inr_iff)

lemma validated:
  assumes "validate_command_for_workspace host policy arguments = Inr ()"
  shows "validate_single host policy arguments = Inr ()"
  using assms by (subst (asm) validate_command_for_workspace.simps) (auto split: sum.split_asm)

lemma single_allowlist:
  assumes "validate_single host policy arguments = Inr ()"
  shows "check_allowlist host policy arguments = Inr ()"
  using assms by (auto simp: validate_single_def and_then_Inr_iff)

lemma single_environment:
  assumes "validate_single host policy arguments = Inr ()"
  shows "validate_environment_arguments arguments
    (protect_environment_variables (ps_security_policy policy)) (enforce_resource_limits (ps_security_policy policy)) = Inr ()"
  using assms by (auto simp: validate_single_def and_then_Inr_iff)

text \<open>Every post check has passed the gate as a command.\<close>

lemma post_checks_validated:
  "validate_post_checks host policy index checks = Inr () \<Longrightarrow> check \<in> set checks \<Longrightarrow>
   validate_single host policy check = Inr () \<and> jget check ''post_checks'' = None \<and> jget check ''job_timeout_ms'' = None"
proof (induction checks arbitrary: index)
  case (Cons c checks)
  from Cons.prems(1) have "validate_command_for_workspace host policy c = Inr ()"
    "validate_post_checks host policy (index + 1) checks = Inr ()" "jget c ''post_checks'' = None"
    "jget c ''job_timeout_ms'' = None"
    by (auto split: if_split_asm sum.split_asm)
  then show ?case using Cons validated by auto
qed simp

lemma accepted_post_checks:
  assumes "validate_command_for_workspace host policy arguments = Inr ()"
    and "jget arguments ''post_checks'' = Some (JArr checks)" "check \<in> set checks"
  shows "validate_single host policy check = Inr ()"
  using assms post_checks_validated [of host policy 0 checks check]
  by (subst (asm) validate_command_for_workspace.simps) (auto simp: as_array_def split: sum.split_asm if_split_asm)

section \<open>The environment\<close>

text \<open>
  \<open>safe_environment arguments env\<close>: what a command's own variables may be.  The secrets are named by
  \<open>secret_env\<close>.
\<close>

definition safe_environment :: "json \<Rightarrow> (string \<times> string) list \<Rightarrow> bool" where
  "safe_environment arguments env \<longleftrightarrow>
     length env \<le> 64
     \<and> (\<forall>(key, value) \<in> set env. valid_environment_key key
          \<and> to_ascii_lowercase key \<notin> to_ascii_lowercase ` set PROTECTED_VARIABLES
          \<and> length value \<le> 4096 \<and> CHR 0x00 \<notin> set value)
     \<and> (\<forall>secrets key reference. jget arguments ''secret_env'' = Some (JObj secrets) \<longrightarrow> (key, reference) \<in> set secrets \<longrightarrow>
          valid_environment_key key \<and> to_ascii_lowercase key \<notin> to_ascii_lowercase ` set PROTECTED_VARIABLES
          \<and> (\<forall>(own, value) \<in> set env. to_ascii_lowercase own \<noteq> to_ascii_lowercase key))"

lemma is_protected_variable_iff:
  "is_protected_variable key \<longleftrightarrow> to_ascii_lowercase key \<in> to_ascii_lowercase ` set PROTECTED_VARIABLES"
  unfolding is_protected_variable_def list_ex_iff eq_ignore_ascii_case_def image_iff by metis

lemma as_str_Some: "as_str v = Some s \<longleftrightarrow> v = JStr s"
  by (auto simp: as_str_def split: json.split)

lemma env_entries_iff:
  "(key, value) \<in> set (env_entries arguments)
   \<longleftrightarrow> (\<exists>kvs. jget arguments ''env'' = Some (JObj kvs) \<and> (key, JStr value) \<in> set kvs)"
proof -
  have "(key, value) \<in> set (List.map_filter (\<lambda>(key, value). map_option (Pair key) (as_str value)) kvs)
      \<longleftrightarrow> (key, JStr value) \<in> set kvs" for kvs
    by (induction kvs) (auto simp: as_str_Some map_filter_simps split: option.split, simp add: as_str_def)
  then show ?thesis
    by (auto simp: env_entries_def as_object_def split: option.splits json.splits Option.bind_splits)
qed

lemma env_entries_length:
  assumes "jget arguments ''env'' = Some (JObj kvs)"
  shows "length (env_entries arguments) \<le> length kvs"
  using assms by (simp add: env_entries_def as_object_def List.map_filter_def)

lemma environment_checked:
  assumes "validate_environment_arguments arguments True True = Inr ()"
  shows "safe_environment arguments (env_entries arguments)"
proof -
  from assms have env: "validate_env True True arguments = Inr ()" "validate_secret_env True True arguments = Inr ()"
    by (auto simp: validate_environment_arguments_def and_then_Inr_iff)
  have "length (env_entries arguments) \<le> 64"
  proof (cases "\<exists>kvs. jget arguments ''env'' = Some (JObj kvs)")
    case True
    then obtain kvs where kvs: "jget arguments ''env'' = Some (JObj kvs)" by blast
    then have "length kvs \<le> 64"
      using env(1) by (auto simp: validate_env_def as_object_def and_then_Inr_iff ensure_Inr_iff)
    then show ?thesis using env_entries_length [OF kvs] by simp
  next
    case False
    then have "env_entries arguments = []" using env_entries_iff [of _ _ arguments] by (metis equals0I set_empty surj_pair)
    then show ?thesis by simp
  qed
  moreover have "valid_environment_key key \<and> \<not> is_protected_variable key \<and> length value \<le> 4096 \<and> CHR 0x00 \<notin> set value"
    if "(key, value) \<in> set (env_entries arguments)" for key "value"
  proof -
    from that obtain kvs where kvs: "jget arguments ''env'' = Some (JObj kvs)" "(key, JStr value) \<in> set kvs"
      by (auto simp: env_entries_iff)
    then have "validate_variable True True (key, JStr value) = Inr ()"
      using env(1) by (auto simp: validate_env_def as_object_def and_then_Inr_iff each_Inr_iff)
    then show ?thesis
      by (auto simp: validate_variable_def validate_environment_key_def and_then_Inr_iff ensure_Inr_iff as_str_def)
  qed
  moreover have "valid_environment_key key \<and> \<not> is_protected_variable key \<and> \<not> secret_conflict arguments key"
    if "jget arguments ''secret_env'' = Some (JObj secrets)" "(key, reference) \<in> set secrets" for secrets key reference
  proof -
    have "validate_secret True arguments (key, reference) = Inr ()"
      using that env(2) by (auto simp: validate_secret_env_def as_object_def and_then_Inr_iff each_Inr_iff)
    then show ?thesis
      by (auto simp: validate_secret_def validate_environment_key_def and_then_Inr_iff ensure_Inr_iff split: option.split_asm)
  qed
  moreover have "to_ascii_lowercase own \<noteq> to_ascii_lowercase key"
    if "\<not> secret_conflict arguments key" "(own, value) \<in> set (env_entries arguments)" for own key "value"
    using that by (fastforce simp: secret_conflict_def env_entries_iff as_object_def list_ex_iff eq_ignore_ascii_case_def)
  ultimately show ?thesis
    unfolding safe_environment_def is_protected_variable_iff by blast
qed

lemma spec_environment:
  assumes "resolve_exec_spec_for_target host arguments cwd root policy target = Inr spec"
  shows "xs_env spec = env_entries arguments"
  using assms
  by (auto simp: resolve_exec_spec_for_target_def Let_def and_then_Inr_iff split: option.split_asm if_split_asm)

lemma map_res_result:
  "map_res f xs = Inr ys \<Longrightarrow> y \<in> set ys \<Longrightarrow> \<exists>x \<in> set xs. f x = Inr y"
  by (induction xs arbitrary: ys) (auto simp: and_then_Inr_iff)

lemma post_check_arguments:
  assumes "resolve_post_checks_for_target host arguments cwd root policy target = Inr checks" "pc \<in> set checks"
  obtains raw check where "jget arguments ''post_checks'' = Some (JArr raw)" "check \<in> set raw"
    "resolve_exec_spec_for_target host check cwd root policy target = Inr (pc_exec pc)"
proof -
  from assms obtain raw where raw: "jget arguments ''post_checks'' = Some (JArr raw)"
    "map_res (resolve_post_check host cwd root policy target) (enumerate 0 raw) = Inr checks"
    by (auto simp: resolve_post_checks_for_target_def as_array_def split: option.split_asm json.split_asm if_split_asm)
  from map_res_result [OF raw(2) assms(2)] obtain i check where "(i, check) \<in> set (enumerate 0 raw)"
    "resolve_post_check host cwd root policy target (i, check) = Inr pc" by auto
  then show ?thesis using that raw(1)
    by (auto simp: resolve_post_check_def in_set_enumerate_eq and_then_Inr_iff nth_mem
        split: if_split_asm sum.split_asm) force
qed


section \<open>The program\<close>

text \<open>
  \<open>permitted host policy root cwd target name program\<close>: a name may stand for a file of the workspace
  that is an allowed entry, or, when the working directory has no file of that name, for a program
  found by its bare name that is allow-listed or ends like a workspace script.
\<close>

definition script_name :: "PolicySettings \<Rightarrow> string \<Rightarrow> bool" where
  "script_name policy name =
     list_ex (ends_with (to_ascii_lowercase name)) (ps_workspace_script_extensions policy)"

definition permitted ::
    "exec_host \<Rightarrow> PolicySettings \<Rightarrow> path \<Rightarrow> path \<Rightarrow> ExecResolutionTarget \<Rightarrow> string \<Rightarrow> string \<Rightarrow> bool" where
  "permitted host policy root cwd target name program =
     (case program_file (eh_fs host) cwd name of
        Some p \<Rightarrow> prefix root p \<and> program = path_text p
          \<and> ps_workspace_local_entries policy \<and> workspace_local_program_allowed p policy
      | None \<Rightarrow> CHR ''/'' \<notin> set name
          \<and> (if target = PortableSandbox then program = name else eh_which host name = Some program)
          \<and> (program_stem name \<in> set (ps_allowed_commands policy)
             \<or> ps_workspace_local_entries policy \<and> script_name policy name))"

lemma no_dot_slash: "CHR ''/'' \<notin> set s \<Longrightarrow> trim_start_matches s = s"
  by (cases s rule: trim_start_matches.cases) auto

lemma plain_base_name: "CHR ''/'' \<notin> set s \<Longrightarrow> BACKSLASH \<notin> set s \<Longrightarrow> base_name s = s"
proof -
  have one: "c \<notin> set t \<Longrightarrow> split_on c t = [t]" for c t by (induction t) auto
  have "BACKSLASH \<notin> set s \<Longrightarrow> forward_slashes s = s" unfolding forward_slashes_def replace_char_def by (induction s) auto
  then show "CHR ''/'' \<notin> set s \<Longrightarrow> BACKSLASH \<notin> set s \<Longrightarrow> base_name s = s" by (simp add: base_name_def one)
qed

lemma entry_is_program_file:
  assumes "workspace_local_entry_exists (Some (fs, root)) arguments name"
    and "resolve_existing fs root (case (case jget arguments ''workdir'' of Some v \<Rightarrow> Some v | None \<Rightarrow> jget arguments ''cwd'') of
           Some v \<Rightarrow> (case as_str v of Some s \<Rightarrow> s | None \<Rightarrow> ''.'') | None \<Rightarrow> ''.'') = Inr base"
  shows "program_file fs (rp_path base) name \<noteq> None"
  using assms by (auto simp: workspace_local_entry_exists_def program_file_def Let_def
      split: option.split_asm node.split_asm if_split_asm)

lemma allowlist_checked:
  assumes "check_allowlist host policy arguments = Inr ()" "enforce_command_allowlist (ps_security_policy policy)"
  obtains raw where "raw_executable host arguments = Inr raw"
    "program_stem (base_name (trim_start_matches raw)) \<in> set (ps_allowed_commands policy)
     \<or> ps_workspace_local_entries policy \<and> workspace_entry_candidate host policy arguments (trim_start_matches raw)"
  using assms by (auto simp: check_allowlist_def Let_def and_then_Inr_iff ensure_Inr_iff)

text \<open>The program a command without a shell resolves to, before PowerShell takes its place.\<close>

lemma resolved_program:
  assumes "resolve_exec_spec_for_target host arguments cwd root policy target = Inr spec"
    and "lower_shell arguments = ''none''" "raw_executable (eh_gate host) arguments = Inr raw"
  obtains program args where "resolve_program_for_target host raw cwd root policy target = Inr program"
    "with_powershell host target program args = Inr (xs_program spec, xs_args spec)"
proof (cases "get_str arguments ''program''")
  case (Some p)
  with assms that show ?thesis
    by (auto simp: resolve_exec_spec_for_target_def raw_executable_def Let_def and_then_Inr_iff)
next
  case None
  with assms that show ?thesis
    by (auto simp: resolve_exec_spec_for_target_def raw_executable_def parse_and_resolve_def Let_def and_then_Inr_iff
        split: option.split_asm list.split_asm if_split_asm)
qed

definition arguments_workdir :: "json \<Rightarrow> string" where
  "arguments_workdir arguments =
     (case (case jget arguments ''workdir'' of Some v \<Rightarrow> Some v | None \<Rightarrow> jget arguments ''cwd'') of
        Some v \<Rightarrow> (case as_str v of Some s \<Rightarrow> s | None \<Rightarrow> ''.'') | None \<Rightarrow> ''.'')"

text \<open>
  C2.  What an accepted command runs: with the allowlist and the workspace boundary enforced, a command
  without a shell, whose program has no blanks around its name, runs a file inside the workspace that
  is an allowed entry, or a program found by its bare name that is allow-listed or ends like a
  workspace script; only the host's PowerShell may take the place of a program of that name.  The
  condition on blanks is needed: the allowlist is asked about the name as given and the program is
  looked up by the name without blanks, see \<open>padded_name_runs_unlisted_program\<close>.
\<close>

theorem accepted_program_is_permitted:
  assumes "validate_command_for_workspace (eh_gate host) policy arguments = Inr ()"
    and "resolve_exec_spec_for_target host arguments (rp_path base) root policy target = Inr spec"
    and "enforce_command_allowlist (ps_security_policy policy)" "enforce_workspace_boundary (ps_security_policy policy)"
    and "lower_shell arguments = ''none''" "raw_executable (eh_gate host) arguments = Inr raw" "trim raw = raw"
    and "gh_workspace (eh_gate host) = Some (eh_fs host, root)" "canonicalize (eh_fs host) root = Some root"
    and "resolve_existing (eh_fs host) root (arguments_workdir arguments) = Inr base"
  shows "\<exists>program. permitted host policy root (rp_path base) target raw program
    \<and> (xs_program spec = program
       \<or> is_powershell_name program \<and> preferred_powershell_program host = Inr (xs_program spec))"
proof -
  obtain program args where program:
    "resolve_program_for_target host raw (rp_path base) root policy target = Inr program"
    "with_powershell host target program args = Inr (xs_program spec, xs_args spec)"
    by (rule resolved_program [OF assms(2,5,6)])
  have listed: "program_stem (base_name (trim_start_matches raw)) \<in> set (ps_allowed_commands policy)
     \<or> ps_workspace_local_entries policy \<and> workspace_entry_candidate (eh_gate host) policy arguments (trim_start_matches raw)"
    using allowlist_checked [OF single_allowlist [OF validated [OF assms(1)]] assms(3)] assms(6) by auto
  have "permitted host policy root (rp_path base) target raw program"
  proof (cases "program_file (eh_fs host) (rp_path base) raw")
    case (Some p)
    with program(1) assms(3,4,7,9) show ?thesis
      by (auto simp: resolve_program_for_target_def permitted_def workspace_local_program_allowed_def Let_def
          split: if_split_asm)
  next
    case None
    with program(1) assms(7) have bare: "CHR ''/'' \<notin> set raw" "BACKSLASH \<notin> set raw"
      "if target = PortableSandbox then program = raw else eh_which host raw = Some program"
      by (auto simp: resolve_program_for_target_def Let_def split: if_split_asm option.split_asm)
    have "\<not> workspace_local_entry_exists (gh_workspace (eh_gate host)) arguments raw"
      using entry_is_program_file [of "eh_fs host" root arguments raw base] None assms(8,10)
      by (auto simp: arguments_workdir_def)
    with listed bare have "program_stem raw \<in> set (ps_allowed_commands policy)
        \<or> ps_workspace_local_entries policy \<and> script_name policy raw"
      by (simp add: no_dot_slash plain_base_name workspace_entry_candidate_def script_name_def)
    with None bare show ?thesis by (simp add: permitted_def)
  qed
  moreover have "xs_program spec = program
      \<or> is_powershell_name program \<and> preferred_powershell_program host = Inr (xs_program spec)"
    using program(2) by (auto simp: with_powershell_def and_then_Inr_iff split: if_split_asm)
  ultimately show ?thesis by blast
qed

section \<open>Blanks after a program name\<close>

text \<open>A call of a program by name under the shipped policy, with any allowlist.\<close>

definition program_call :: "string \<Rightarrow> json" where
  "program_call raw = JObj [(''program'', JStr raw)]"

definition shipped :: "string list \<Rightarrow> PolicySettings" where
  "shipped allowed = default_policy_settings\<lparr>ps_allowed_commands := allowed\<rparr>"

lemma program_call_gets [simp]:
  "jget (program_call raw) k = (if k = ''program'' then Some (JStr raw) else None)"
  "get_str (program_call raw) k = (if k = ''program'' then Some raw else None)"
  "get_array (program_call raw) k = None" "get_u64 (program_call raw) k = None" "get_bool (program_call raw) k = None"
  by (auto simp: program_call_def jget_def get_str_def get_array_def get_u64_def get_bool_def as_str_def as_array_def
      as_u64_def as_bool_def)

lemma to_lower_none [simp]: "to_ascii_lowercase ''none'' = ''none''"
  by code_simp

lemma shipped_settings [simp]:
  "ps_allowed_commands (shipped allowed) = allowed" "ps_workspace_local_entries (shipped allowed)"
  "ps_workspace_script_extensions (shipped allowed) = [''.exe'', ''.bat'', ''.cmd'', ''.ps1'']"
  "ps_security_policy (shipped allowed) = legacy ''safe'' ''core''"
  by (simp_all add: shipped_def default_policy_settings_def default_workspace_script_extension_set_def)

lemma program_call_gate:
  assumes "\<And>pat. \<not> is_match host pat raw" "trim raw \<noteq> []" "length raw \<le> 64000"
  shows "validate_command_for_workspace host (shipped allowed) (program_call raw) =
    (let executable = trim_start_matches raw; stem = program_stem (base_name executable)
     in if stem \<in> set allowed \<or> workspace_entry_candidate host (shipped allowed) (program_call raw) executable
        then Inr () else Inl (NotAllowlisted stem))"
proof -
  have mode: "check_mode (shipped allowed) (program_call raw) = Inr ()" 
    by (simp add: check_mode_def lower_shell_def ensure_def)
  have cmd: "command_text (program_call raw) = Inr raw"
    by (simp add: command_text_def args_texts_def)
  have chk: "check_command_text host (shipped allowed) (program_call raw) raw = Inr ()"
    using assms by (simp add: check_command_text_def lower_shell_def check_workdir_def ensure_def confirmed_def Let_def)
  have env: "validate_environment_arguments (program_call raw) a b = Inr ()" for a b
    by (simp add: validate_environment_arguments_def validate_env_def validate_secret_env_def validate_stdin_secret_def
        validate_remove_env_def)
  have tm: "check_timeout host (program_call raw) = Inr ()"
    by (simp add: check_timeout_def resolve_process_timeout_def ABSOLUTE_COMMAND_TIMEOUT_MAX_MS_def Let_def)
  have "check_allowlist host (shipped allowed) (program_call raw) =
    (let executable = trim_start_matches raw; stem = program_stem (base_name executable)
     in if stem \<in> set allowed \<or> workspace_entry_candidate host (shipped allowed) (program_call raw) executable
        then Inr () else Inl (NotAllowlisted stem))"
    by (simp add: check_allowlist_def raw_executable_def ensure_def Let_def)
  then show ?thesis
    by (subst validate_command_for_workspace.simps) (simp add: validate_single_def mode cmd chk env tm Let_def)
qed

lemma ws_len_plain: "is_ascii_alphanumeric c \<Longrightarrow> ws_len (c # s) = 0"
proof -
  assume "is_ascii_alphanumeric c"
  then have "48 \<le> code c" "code c < 128"
    by (auto simp: is_ascii_alphanumeric_def is_ascii_digit_def less_eq_char_def code_def)
  then show ?thesis by (cases s; cases "tl s") (auto simp: ws_len_def)
qed

lemma lower_no_dot:
  assumes "is_ascii_alphanumeric c"
  shows "ascii_lower c \<noteq> CHR ''.''"
proof -
  have "48 \<le> code c" "code c < 128"
    using assms by (auto simp: is_ascii_alphanumeric_def is_ascii_digit_def less_eq_char_def code_def)
  then have "code (ascii_lower c) \<noteq> code (CHR ''.'')" by (auto simp: ascii_lower_def code_def)
  then show ?thesis by metis
qed

lemma ws_len_end_plain:
  assumes "list_all is_ascii_alphanumeric r"
  shows "ws_len_end r = 0"
proof -
  have "ws_len (rev (take k r)) = 0" for k
  proof (cases "rev (take k r)")
    case Nil
    show ?thesis unfolding Nil by simp
  next
    case (Cons c s)
    then have "c \<in> set r" by (metis in_set_takeD list.set_intros(1) set_rev)
    then show ?thesis using assms Cons ws_len_plain by (auto simp: list_all_iff)
  qed
  then show ?thesis by (simp add: ws_len_end_def)
qed

lemma strip_suffix_dot: "CHR ''.'' \<notin> set s \<Longrightarrow> strip_suffix s (CHR ''.'' # t) = None"
proof (rule ccontr)
  assume "CHR ''.'' \<notin> set s" "strip_suffix s (CHR ''.'' # t) \<noteq> None"
  then obtain r where "rev s = rev (CHR ''.'' # t) @ r" by (auto simp: strip_suffix_def strip_prefix_Some_iff)
  then have "CHR ''.'' \<in> set s" by (metis Un_iff in_set_conv_decomp rev.simps(2) set_append set_rev)
  with \<open>CHR ''.'' \<notin> set s\<close> show False by simp
qed

lemma no_dot_stem: "CHR ''.'' \<notin> set s \<Longrightarrow> program_stem s = s"
  by (simp add: program_stem_def strip_suffix_dot or_self_def)

text \<open>A name of ASCII letters and digits, alone or with a blank after it.\<close>

lemma plain_chars:
  assumes "list_all is_ascii_alphanumeric n" "n \<noteq> []"
  shows "CHR ''/'' \<notin> set n" "BACKSLASH \<notin> set n" "CHR ''.'' \<notin> set n" "CHR '':'' \<notin> set n" "CHR 0x00 \<notin> set n"
    "trim n = n" "trim (n @ '' '') = n"
proof -
  show "CHR ''/'' \<notin> set n" "BACKSLASH \<notin> set n" "CHR ''.'' \<notin> set n" "CHR '':'' \<notin> set n" "CHR 0x00 \<notin> set n"
    using assms by (auto simp: list_all_iff is_ascii_alphanumeric_def is_ascii_digit_def code_def BACKSLASH_def)
  have start: "trim_start (n @ s) = n @ s" for s
    using assms by (cases n) (simp_all add: trim_start.simps [of "_ # _"] ws_len_plain)
  have tail: "trim_end_rev (rev n) = rev n"
    using assms by (simp add: trim_end_rev.simps [of "rev n"] ws_len_end_plain)
  have "ws_len_end ('' '' @ rev n) = 1" by (simp add: ws_len_end_def ws_len_def code_def)
  then have "trim_end_rev ('' '' @ rev n) = rev n"
    using tail by (subst trim_end_rev.simps) simp
  then show "trim n = n" "trim (n @ '' '') = n"
    using start [of "[]"] start [of "'' ''"] tail by (simp_all add: trim_def trim_end_def)
qed

lemma plain_single_path:
  assumes "CHR ''/'' \<notin> set s" "s \<noteq> []"
  shows "kernel_path s = [s]"
proof -
  have "split_on (CHR ''/'') s = [s]" using assms(1) by (induction s) auto
  moreover have "\<not> ends_with s ''/''" using assms(1) by (auto simp: ends_with_iff)
  ultimately show ?thesis using assms(2) by (simp add: kernel_path_def)
qed

lemma base_of_dot:
  assumes "canonicalize fs root = Some root" "is_dir fs root"
  shows "\<exists>base. resolve_existing fs root ''.'' = Inr base \<and> rp_path base = root"
proof -
  have parts: "kernel_path ''.'' = [''.'']" "reject_unsafe_text ''.'' = Inr ()"
    by (simp_all add: kernel_path_def ends_with_iff reject_unsafe_text_def components_def BACKSLASH_def)
  have "canonicalize fs (root @ [''.'']) = Some root"
    using assms canonical_real_dir [of fs root "[''.'']"] by (auto simp: is_dir_iff)
  then show ?thesis
    using assms parts
    by (auto simp: resolve_existing_def resolve_existing_at_def validate_base_def ensure_inside_workspace_def Let_def)
qed

text \<open>
  The gate reads the name as it is, the resolution of the program without blanks around it: a file
  of the workspace called \<open>n\<close> with a blank at its end lets the program \<open>n\<close> of the search path run
  that the allowlist refuses.
\<close>

lemma padded_name_runs_unlisted_program:
  assumes "new_workspace (eh_fs host) raw_root = Inr root" "gh_workspace (eh_gate host) = Some (eh_fs host, root)"
    and "list_all is_ascii_alphanumeric n" "n \<noteq> []" "length n < 64000" "n \<notin> set allowed"
    and "eh_fs host (root @ [n @ '' '']) = Some (File bytes)" "eh_fs host (root @ [n]) = None"
    and "eh_which host n = Some program" "\<not> is_powershell_name program"
    and "\<forall>pat. \<not> is_match (eh_gate host) pat n \<and> \<not> is_match (eh_gate host) pat (n @ '' '')"
  shows "validate_command_for_workspace (eh_gate host) (shipped allowed) (program_call n) = Inl (NotAllowlisted n)
    \<and> validate_command_for_workspace (eh_gate host) (shipped allowed) (program_call (n @ '' '')) = Inr ()
    \<and> (\<exists>spec. resolve_exec_spec_for_target host (program_call (n @ '' '')) root root (shipped allowed) Host = Inr spec
         \<and> xs_program spec = program)"
proof -
  note chars = plain_chars [OF assms(3,4)]
  have root: "canonicalize (eh_fs host) root = Some root" "real_dir (eh_fs host) root"
    using workspace_root [OF assms(1)] by auto
  have dir: "is_dir (eh_fs host) root" using root by (auto simp: is_dir_iff)
  have names: "n \<notin> dots" "n @ '' '' \<notin> dots" using chars(3) by (auto simp: dots_def)
  have there: "canonicalize (eh_fs host) (root @ [n @ '' '']) = Some (root @ [n @ '' ''])"
    using names(2) root assms(7) by (intro canonical_of_real) auto
  have missing: "canonicalize (eh_fs host) (root @ [n]) = None"
    using names(1) root assms(8) canonical_real_dir [of "eh_fs host" root "[n]"] by (auto simp: dots_def)
  have paths: "kernel_path n = [n]" "kernel_path (n @ '' '') = [n @ '' '']"
    using chars(1) assms(4) by (auto intro!: plain_single_path)
  obtain base where base: "resolve_existing (eh_fs host) root ''.'' = Inr base" "rp_path base = root"
    using base_of_dot [OF root(1) dir] by blast
  have heads: "hd n \<noteq> CHR ''/''" "hd (n @ '' '') \<noteq> CHR ''/''" using chars(1) assms(4) by (cases n; auto)+
  have exists: "workspace_local_entry_exists (gh_workspace (eh_gate host)) (program_call (n @ '' '')) (n @ '' '')"
    using assms(2,7) base paths there heads by (simp add: workspace_local_entry_exists_def)
  have unlisted: "\<not> workspace_entry_candidate (eh_gate host) (shipped allowed) (program_call n) n"
  proof -
    have "\<not> ends_with (to_ascii_lowercase n) (CHR ''.'' # t)" for t
    proof
      assume "ends_with (to_ascii_lowercase n) (CHR ''.'' # t)"
      then have "CHR ''.'' \<in> set (to_ascii_lowercase n)" by (auto simp: ends_with_iff)
      then obtain c where "c \<in> set n" "ascii_lower c = CHR ''.''" by (auto simp: to_ascii_lowercase_def)
      with assms(3) show False using lower_no_dot by (auto simp: list_all_iff)
    qed
    then show ?thesis
      using assms(2) base paths missing heads chars
      by (simp add: workspace_entry_candidate_def workspace_local_entry_exists_def plain_base_name)
  qed
  have "validate_command_for_workspace (eh_gate host) (shipped allowed) (program_call n) = Inl (NotAllowlisted n)"
    using program_call_gate [of "eh_gate host" n allowed] assms(4,5,6,11) chars unlisted
    by (simp add: no_dot_slash plain_base_name no_dot_stem)
  moreover have "validate_command_for_workspace (eh_gate host) (shipped allowed) (program_call (n @ '' '')) = Inr ()"
    using program_call_gate [of "eh_gate host" "n @ '' ''" allowed] assms(4,5,11) chars exists
    by (simp add: no_dot_slash workspace_entry_candidate_def)
  moreover have "resolve_program_for_target host (n @ '' '') root root (shipped allowed) Host = Inr program"
    using chars paths heads missing assms(4,9)
    by (simp add: resolve_program_for_target_def program_file_def)
  ultimately show ?thesis
    using assms(10)
    by (simp add: resolve_exec_spec_for_target_def lower_shell_def program_args_def with_powershell_def Let_def)
qed

section \<open>Witnesses\<close>

text \<open>A host whose search path holds \<open>shutdown\<close>; the workspace has a file of that name with a blank.\<close>

definition sample_regex :: regex_lib where
  "sample_regex = \<lparr>rx_escape = (\<lambda>s. s), rx_find_iter = (\<lambda>_ _. Some []), rx_is_match = (\<lambda>_ _. Some False)\<rparr>"

definition gate_fs :: fs where
  "gate_fs = map_of [([''w''], Dir), ([''w'', ''shutdown ''], File [])]"

definition sample_host :: exec_host where
  "sample_host =
     \<lparr>eh_gate = \<lparr>gh_regex = sample_regex, gh_shell_split = (\<lambda>s. Some (split_whitespace s)),
        gh_json_len = (\<lambda>_. 100), gh_utf16_len = length, gh_workspace = Some (gate_fs, [''w'']),
        gh_job_timeout_max_ms = 0\<rparr>,
      eh_fs = gate_fs,
      eh_which = (\<lambda>n. if n \<in> {''shutdown'', ''shutdown.exe'', ''git''} then Some (''/sbin/'' @ n) else None)\<rparr>"

lemma padded_name_runs_unlisted_program_witness:
  "validate_command_for_workspace (eh_gate sample_host) (shipped [''git'']) (program_call ''shutdown '') = Inr ()
   \<and> (\<exists>spec. resolve_exec_spec_for_target sample_host (program_call ''shutdown '') [''w''] [''w''] (shipped [''git'']) Host
          = Inr spec \<and> xs_program spec = ''/sbin/shutdown'')"
proof -
  have "new_workspace (eh_fs sample_host) [''w''] = Inr [''w'']" "list_all is_ascii_alphanumeric ''shutdown''"
    "\<not> is_powershell_name ''/sbin/shutdown''" "eh_which sample_host ''shutdown'' = Some ''/sbin/shutdown''"
    "eh_fs sample_host [''w'', ''shutdown ''] = Some (File [])" "eh_fs sample_host [''w'', ''shutdown''] = None"
    by code_simp+
  moreover have "gh_workspace (eh_gate sample_host) = Some (eh_fs sample_host, [''w''])"
    "\<not> is_match (eh_gate sample_host) pat s" for pat s
    by (simp_all add: sample_host_def is_match_def sample_regex_def)
  ultimately show ?thesis
    using padded_name_runs_unlisted_program [of sample_host "[''w'']" "[''w'']" "''shutdown''" "[''git'']" "[]"
        "''/sbin/shutdown''"] by simp
qed

lemma accepted_program_is_permitted_witness:
  "\<exists>program. permitted sample_host (shipped [''git'']) [''w''] [''w''] Host ''git'' program
    \<and> program = ''/sbin/git''"
proof -
  let ?call = "program_call ''git''"
  have "is_ok (validate_command_for_workspace (eh_gate sample_host) (shipped [''git'']) ?call)"
    "is_ok (resolve_exec_spec_for_target sample_host ?call [''w''] [''w''] (shipped [''git'']) Host)"
    by code_simp+
  then obtain spec where run: "validate_command_for_workspace (eh_gate sample_host) (shipped [''git'']) ?call = Inr ()"
      "resolve_exec_spec_for_target sample_host ?call [''w''] [''w''] (shipped [''git'']) Host = Inr spec"
    by (auto simp: is_ok_def split: sum.split_asm)
  have "map_sum id rp_path (resolve_existing (eh_fs sample_host) [''w''] (arguments_workdir ?call)) = Inr [''w'']"
    by code_simp
  then obtain base where base: "resolve_existing (eh_fs sample_host) [''w''] (arguments_workdir ?call) = Inr base"
      "rp_path base = [''w'']"
    by (cases "resolve_existing (eh_fs sample_host) [''w''] (arguments_workdir ?call)") auto
  have "lower_shell ?call = ''none''" "trim ''git'' = ''git''" "canonicalize (eh_fs sample_host) [''w''] = Some [''w'']"
    "raw_executable (eh_gate sample_host) ?call = Inr ''git''"
    by code_simp+
  moreover have "gh_workspace (eh_gate sample_host) = Some (eh_fs sample_host, [''w''])"
    by (simp add: sample_host_def)
  ultimately obtain program where "permitted sample_host (shipped [''git'']) [''w''] [''w''] Host ''git'' program"
    using accepted_program_is_permitted [of sample_host "shipped [''git'']" ?call base "[''w'']" Host spec "''git''"]
      run base by auto
  moreover have "program_file gate_fs [''w''] ''git'' = None" by code_simp
  ultimately show ?thesis by (auto simp: permitted_def sample_host_def)
qed

definition env_call :: json where
  "env_call = JObj [(''program'', JStr ''git''), (''env'', JObj [(''LANG'', JStr ''C'')]),
     (''secret_env'', JObj [(''TOKEN'', JStr ''ci.token'')]),
     (''post_checks'', JArr [JObj [(''program'', JStr ''git''), (''env'', JObj [(''GIT_DIR'', JStr ''.git'')])]])]"


end
