(* ===== verification/Patch_Support.thy ===== *)
theory Patch_Support
  imports Patch_Atomic Patch_Parser Patch_Hunk Utf8 Security_Policy Edit_Guards "HOL-Library.List_Lexorder"
    "HOL-Library.Char_ord"
begin

text \<open>
  What the patch and edit tools share (\<open>tools/patch/support.rs\<close>): versions of files and their check,
  error details with recovery actions, replayable plans, and the guards of repository assets.
\<close>

section \<open>Errors and the host\<close>

text \<open>An edit error with details is enriched with the file, its version, and its index in the call.\<close>

datatype tool_error =
    Workspace workspace_error
  | Hunks apply_error
  | PatchMismatch apply_error
  | Edits edit_error
  | EditOf edit_error string string "nat option"

text \<open>SHA-256 and the text diff are libraries; a \<open>HashMap\<close> is walked in an order of its own.\<close>

record patch_host =
  ph_sha256 :: "string \<Rightarrow> string"
  ph_text_diff :: "string \<Rightarrow> string \<Rightarrow> string \<Rightarrow> string \<Rightarrow> string"
  ph_order :: "(string \<times> string option) list \<Rightarrow> (string \<times> string option) list"

type_synonym 'a tool = "(disk, tool_error, 'a) op"

definition tool_fail :: "workspace_error \<Rightarrow> 'a tool" where
  "tool_fail e = op_fail (Workspace e)"

text \<open>A step of the workspace that reads the file system, and one that may change it.\<close>

definition looks_up :: "(fs \<Rightarrow> workspace_error + 'a) \<Rightarrow> 'a tool" where
  "looks_up f = op_reads (\<lambda>d. map_sum Workspace id (f (nodes d)))"

definition changes :: "(disk, workspace_error, 'a) op \<Rightarrow> 'a tool" where
  "changes m = op_map_err Workspace m"

definition read_or :: "workspace_error \<Rightarrow> path \<Rightarrow> string tool" where
  "read_or e p = op_map_err (\<lambda>_. Workspace e) (fs_read p)"

definition str_or_null :: "string option \<Rightarrow> json" where
  "str_or_null v = (case v of Some s \<Rightarrow> JStr s | None \<Rightarrow> JNull)"

section \<open>Diffs and plans\<close>

definition unified_diff :: "patch_host \<Rightarrow> string \<Rightarrow> string \<Rightarrow> string \<Rightarrow> bool \<Rightarrow> bool \<Rightarrow> string" where
  "unified_diff host p original updated is_new_file is_deleted =
     ph_text_diff host original updated
       (if is_new_file then ''/dev/null'' else ''a/'' @ p)
       (if is_deleted then ''/dev/null'' else ''b/'' @ p)"

definition int_text :: "int \<Rightarrow> string" where
  "int_text i = (if i < 0 then CHR ''-'' # decimal (nat (- i)) else decimal (nat i))"

fun canonical_json :: "json \<Rightarrow> string" where
  "canonical_json JNull = ''null''"
| "canonical_json (JBool b) = (if b then ''true'' else ''false'')"
| "canonical_json (JInt i) = int_text i"
| "canonical_json (JFloat t) = t"
| "canonical_json (JStr s) = json_string s"
| "canonical_json (JArr values) = CHR ''['' # join '','' (map canonical_json values) @ '']''"
| "canonical_json (JObj kvs) =
     CHR ''{'' # join '','' (map (\<lambda>(key, t). json_string key @ '':'' @ t)
       (sort_key fst (map (\<lambda>(key, v). (key, canonical_json v)) kvs))) @ ''}''"

definition replayable_edit_plan :: "patch_host \<Rightarrow> string \<Rightarrow> json \<Rightarrow> json \<Rightarrow> json \<Rightarrow> json" where
  "replayable_edit_plan host tool arguments files stateful_dependencies =
     (let members = [(''schema_version'', JInt 1), (''tool'', JStr tool), (''arguments'', arguments),
            (''expected_result'', JObj [(''files'', files)]), (''stateful_dependencies'', stateful_dependencies)]
      in JObj (members @ [(''plan_sha256'', JStr (ph_sha256 host (canonical_json (JObj members))))]))"

definition replay_reason :: "json \<Rightarrow> json option" where
  "replay_reason args =
     (case get_str args ''reason'' of
        Some reason \<Rightarrow> if reason \<noteq> [] then Some (JStr reason) else None
      | None \<Rightarrow> None)"

section \<open>Versions\<close>

definition edit_recovery_actions :: "string \<Rightarrow> string \<Rightarrow> string \<Rightarrow> json" where
  "edit_recovery_actions p actual_sha256 reason =
     JArr [JObj [(''action'', JStr ''read_current_file''), (''tool'', JStr ''read_file''),
                 (''arguments'', JObj [(''path'', JStr p)]), (''reason'', JStr reason)],
           JObj [(''action'', JStr ''rebuild_guarded_edit''), (''tool'', JStr ''edit''),
                 (''arguments'', JObj [(''files'', JArr [JObj [(''path'', JStr p),
                    (''expected_sha256'', JStr actual_sha256)]])]),
                 (''required_arguments'', JArr [JStr ''files[0].edits'']),
                 (''reason'', JStr ''rebuild_from_fresh_content'')]]"

definition version_mismatch :: "string \<Rightarrow> string \<Rightarrow> string \<Rightarrow> workspace_error" where
  "version_mismatch p expected actual =
     ToolDetails ''FILE_VERSION_MISMATCH'' (JObj
       [(''path'', JStr p), (''expected_sha256'', JStr expected), (''actual_sha256'', JStr actual),
        (''suggestion'', JStr ''Read the file again and rebuild the edit or patch''),
        (''recovery_actions'', edit_recovery_actions p actual ''file_version_changed'')])"

definition or_insert :: "string \<Rightarrow> json \<Rightarrow> (string \<times> json) list \<Rightarrow> (string \<times> json) list" where
  "or_insert k v kvs = (if map_of kvs k = None then obj_insert k v kvs else kvs)"

text \<open>Only errors that carry details can be enriched.\<close>

definition has_details :: "edit_error \<Rightarrow> bool" where
  "has_details e \<longleftrightarrow> e \<noteq> InvalidArgument \<and> e \<noteq> Panics"

definition enrich_edit_error :: "tool_error \<Rightarrow> string \<Rightarrow> string \<Rightarrow> tool_error" where
  "enrich_edit_error error p actual_sha256 =
     (case error of
        Workspace (ToolDetails c (JObj details)) \<Rightarrow>
          Workspace (ToolDetails c (JObj
            (or_insert ''recovery_actions'' (edit_recovery_actions p actual_sha256 c)
            (or_insert ''actual_sha256'' (JStr actual_sha256) (or_insert ''path'' (JStr p) details)))))
      | Edits e \<Rightarrow> if has_details e then EditOf e p actual_sha256 None else Edits e
      | other \<Rightarrow> other)"

definition enrich_edit_many_error :: "tool_error \<Rightarrow> string \<Rightarrow> string \<Rightarrow> nat \<Rightarrow> tool_error" where
  "enrich_edit_many_error error p actual_sha256 file_index =
     (case enrich_edit_error error p actual_sha256 of
        Workspace (ToolDetails c (JObj details)) \<Rightarrow>
          Workspace (ToolDetails c (JObj (or_insert ''file_index'' (JInt (int file_index)) details)))
      | EditOf e q sha _ \<Rightarrow> EditOf e q sha (Some file_index)
      | other \<Rightarrow> other)"

definition expected_hash_for :: "json \<Rightarrow> string \<Rightarrow> string option" where
  "expected_hash_for args p =
     (case Option.bind (jget args ''expected_sha256'') as_object of
        None \<Rightarrow> None
      | Some hashes \<Rightarrow>
          Option.bind (case map_of hashes p of Some v \<Rightarrow> Some v | None \<Rightarrow> map_of hashes (forward_slashes p)) as_str)"

definition target_appeared :: "string \<Rightarrow> string \<Rightarrow> workspace_error" where
  "target_appeared p actual_sha256 =
     ToolDetails ''FILE_VERSION_MISMATCH'' (JObj
       [(''path'', JStr p), (''expected'', JStr ''missing''), (''actual'', JStr ''exists''),
        (''actual_sha256'', JStr actual_sha256),
        (''recovery_actions'', edit_recovery_actions p actual_sha256 ''new_file_target_appeared'')])"

definition verify_file_version :: "patch_host \<Rightarrow> path \<Rightarrow> string \<times> string option \<Rightarrow> unit tool" where
  "verify_file_version host root version =
     (case version of (p, expected_sha256) \<Rightarrow>
        (case expected_sha256 of
           Some expected \<Rightarrow>
             op_bind (looks_up (\<lambda>fs. resolve_existing fs root p)) (\<lambda>resolved.
             op_bind (read_or not_found (rp_path resolved)) (\<lambda>bytes.
               let actual = ph_sha256 host bytes
               in op_check (eq_ignore_ascii_case expected actual) (Workspace (version_mismatch p expected actual))))
         | None \<Rightarrow>
             op_bind (op_try (looks_up (\<lambda>fs. resolve_existing fs root p))) (\<lambda>r.
               case r of
                 Inl _ \<Rightarrow> op_return ()
               | Inr resolved \<Rightarrow>
                   op_bind (op_try (fs_read (rp_path resolved))) (\<lambda>bytes.
                     tool_fail (target_appeared p
                       (case bytes of Inr b \<Rightarrow> ph_sha256 host b | Inl _ \<Rightarrow> []))))))"

definition verify_versions :: "patch_host \<Rightarrow> path \<Rightarrow> (string \<times> string option) list \<Rightarrow> unit tool" where
  "verify_versions host root versions =
     op_for (\<lambda>version _. verify_file_version host root version) (ph_order host versions) ()"

definition affected_paths :: "json list \<Rightarrow> string \<Rightarrow> string list" where
  "affected_paths affected operation =
     List.map_filter (\<lambda>file. get_str file ''path'')
       (filter (\<lambda>file. get_str file ''operation'' = Some operation) affected)"

section \<open>Repository assets\<close>

definition is_protected_repository_asset :: "string \<Rightarrow> bool" where
  "is_protected_repository_asset p \<longleftrightarrow> first_segment p \<in> {''.git'', ''.github''}"

definition is_critical_file :: "string \<Rightarrow> bool" where
  "is_critical_file p \<longleftrightarrow>
     first_segment p \<in> {''.git'', ''.github''}
     \<or> (let name = last (split_on (CHR ''/'') (forward_slashes p))
        in name \<in> {''.gitignore'', ''Cargo.toml'', ''Cargo.lock'', ''package.json'', ''package-lock.json'',
             ''pnpm-lock.yaml'', ''tauri.conf.json'', ''pyproject.toml''}
           \<or> starts_with name ''README'' \<or> starts_with name ''LICENSE'' \<or> starts_with name ''vite.config.'')"

definition dangerous_operation :: workspace_error where
  "dangerous_operation = Tool ''DANGEROUS_OPERATION_REQUIRES_CONFIRMATION''"

definition protected_repository_asset :: workspace_error where
  "protected_repository_asset = Tool ''PROTECTED_REPOSITORY_ASSET''"

definition already_exists :: "(string \<times> json) list \<Rightarrow> workspace_error" where
  "already_exists details = ToolDetails ''FILE_ALREADY_EXISTS'' (JObj details)"

definition tool_ok :: "(string \<times> json) list \<Rightarrow> json" where
  "tool_ok members = JObj (or_insert ''ok'' (JBool True) members)"

definition strings_json :: "string list \<Rightarrow> json" where
  "strings_json xs = JArr (map JStr xs)"

end
