(* ===== verification/Patch_Apply.thy ===== *)
theory Patch_Apply
  imports Patch_Support
begin

text \<open>
  The patch tool and its check (\<open>tools/patch/apply_ops.rs\<close>): every section of a patch is applied to
  the text of its file in memory, then all versions are checked again and the files committed.
\<close>

section \<open>One section\<close>

text \<open>What the loop over the sections collects.\<close>

record patch_run =
  pr_affected :: "json list"
  pr_summaries :: "string list"
  pr_staged :: "(string \<times> string option) list"
  pr_versions :: "(string \<times> string option) list"
  pr_file_versions :: "json list"
  pr_diff :: string

definition new_run :: patch_run where
  "new_run = \<lparr>pr_affected = [], pr_summaries = [], pr_staged = [], pr_versions = [], pr_file_versions = [],
      pr_diff = []\<rparr>"

definition resolve_section :: "SecurityPolicy \<Rightarrow> path \<Rightarrow> FilePatch \<Rightarrow> ResolvedPath tool" where
  "resolve_section security root fp =
     op_bind (op_lift (map_sum Workspace id (reject_unsafe_text (fp_path fp)))) (\<lambda>_.
     op_bind (if block_symlink_escape security then looks_up (\<lambda>fs. reject_write_symlink fs root (fp_path fp))
              else op_return ()) (\<lambda>_.
       looks_up (\<lambda>fs. if fp_is_new_file fp then resolve_for_write fs root (fp_path fp)
                      else resolve_existing fs root (fp_path fp))))"

definition read_existing :: "ResolvedPath \<Rightarrow> workspace_error \<Rightarrow> string option tool" where
  "read_existing resolved e =
     (if rp_existed resolved
      then op_bind (read_or e (rp_path resolved)) (\<lambda>bytes. op_return (Some bytes))
      else op_return None)"

definition check_expected :: "SecurityPolicy \<Rightarrow> json \<Rightarrow> string \<Rightarrow> string option \<Rightarrow> unit tool" where
  "check_expected security args p before_sha256 =
     (if verify_write_conflicts security
      then (case expected_hash_for args p of
          None \<Rightarrow> op_return ()
        | Some expected \<Rightarrow>
            (case before_sha256 of
               Some actual \<Rightarrow> op_check (eq_ignore_ascii_case expected actual) (Workspace (version_mismatch p expected actual))
             | None \<Rightarrow> tool_fail (version_mismatch p expected ''missing'')))
      else op_return ())"

definition original_text :: "FilePatch \<Rightarrow> string option \<Rightarrow> tool_error + string" where
  "original_text fp bytes =
     (if fp_is_new_file fp then Inr []
      else (case bytes of
          None \<Rightarrow> Inl (Workspace not_found)
        | Some b \<Rightarrow> if from_utf8 b = None then Inr b else Inl (Workspace (Tool ''UNSUPPORTED_ENCODING''))))"

definition file_version :: "string \<Rightarrow> string option \<Rightarrow> string option \<Rightarrow> json" where
  "file_version p before_sha256 after_sha256 =
     JObj [(''path'', JStr p), (''before_sha256'', str_or_null before_sha256), (''after_sha256'', str_or_null after_sha256)]"

text \<open>\<open>entry(...).or_insert\<close> on the versions: the first one of a file is kept.\<close>

definition first_version :: "string \<Rightarrow> string option \<Rightarrow> (string \<times> string option) list \<Rightarrow> (string \<times> string option) list" where
  "first_version p v versions = (if map_of versions p = None then al_put p v versions else versions)"

definition staged_section ::
    "patch_host \<Rightarrow> string \<Rightarrow> string option \<Rightarrow> string \<Rightarrow> string option \<Rightarrow> bool \<Rightarrow> string \<Rightarrow> patch_run \<Rightarrow> patch_run" where
  "staged_section host p before_sha256 original updated is_new operation acc =
     acc\<lparr>pr_versions := first_version p before_sha256 (pr_versions acc),
         pr_diff := pr_diff acc @ unified_diff host p original (case updated of Some u \<Rightarrow> u | None \<Rightarrow> [])
            is_new (updated = None),
         pr_staged := al_put p updated (pr_staged acc),
         pr_affected := pr_affected acc @ [JObj [(''path'', JStr p), (''operation'', JStr operation)]],
         pr_summaries := pr_summaries acc
            @ [(if operation = ''delete'' then ''D '' else if operation = ''add'' then ''A '' else ''M '') @ p],
         pr_file_versions := pr_file_versions acc
            @ [file_version p before_sha256 (map_option (ph_sha256 host) updated)]\<rparr>"

text \<open>A section whose file is resolved and read.\<close>

definition stage_read ::
    "patch_host \<Rightarrow> SecurityPolicy \<Rightarrow> json \<Rightarrow> FilePatch \<Rightarrow> patch_run \<Rightarrow> ResolvedPath \<Rightarrow> string option \<Rightarrow> patch_run tool" where
  "stage_read host security args fp acc resolved actual_bytes =
     (let before_sha256 = map_option (ph_sha256 host) actual_bytes;
          replacing_after_delete = map_of (pr_staged acc) (rp_display resolved) = Some None
      in op_bind (check_expected security args (fp_path fp) before_sha256) (\<lambda>_.
         op_bind (op_check (\<not> (fp_is_new_file fp \<and> rp_existed resolved \<and> \<not> replacing_after_delete))
           (Workspace (already_exists [(''path'', JStr (fp_path fp)), (''actual_sha256'', str_or_null before_sha256)]))) (\<lambda>_.
         op_bind (op_lift (original_text fp actual_bytes)) (\<lambda>original.
         if fp_is_deleted fp
         then op_return (staged_section host (rp_display resolved) before_sha256 original None False ''delete'' acc)
         else
           op_bind (op_lift (map_sum Hunks id (apply_hunks original (fp_hunks fp) (Some (fp_path fp))))) (\<lambda>updated.
           op_bind (op_check (updated \<noteq> original) (Workspace patch_failed)) (\<lambda>_.
             op_return (staged_section host (rp_display resolved) before_sha256 original (Some updated)
               (fp_is_new_file fp)
               (if fp_is_new_file fp \<and> \<not> replacing_after_delete then ''add'' else ''update'') acc)))))))"

definition stage_section ::
    "patch_host \<Rightarrow> SecurityPolicy \<Rightarrow> path \<Rightarrow> json \<Rightarrow> FilePatch \<Rightarrow> patch_run \<Rightarrow> patch_run tool" where
  "stage_section host security root args fp acc =
     op_bind (resolve_section security root fp) (\<lambda>resolved.
     op_bind (read_existing resolved not_found) (\<lambda>actual_bytes.
       stage_read host security args fp acc resolved actual_bytes))"

definition stage_sections ::
    "patch_host \<Rightarrow> SecurityPolicy \<Rightarrow> path \<Rightarrow> json \<Rightarrow> FilePatch list \<Rightarrow> patch_run tool" where
  "stage_sections host security root args file_patches =
     op_for (stage_section host security root args) file_patches new_run"

section \<open>The tools\<close>

definition check_assets :: "SecurityPolicy \<Rightarrow> bool \<Rightarrow> FilePatch list \<Rightarrow> unit tool" where
  "check_assets security confirm file_patches =
     op_bind (op_check (file_patches \<noteq> []) (Workspace patch_failed)) (\<lambda>_.
     op_bind (op_check (\<not> (protect_repository_metadata security
         \<and> list_ex (\<lambda>fp. is_protected_repository_asset (fp_path fp)) file_patches))
        (Workspace protected_repository_asset)) (\<lambda>_.
       op_check (\<not> (require_write_confirmation security \<and> \<not> confirm
         \<and> list_ex (\<lambda>fp. fp_is_deleted fp \<and> is_critical_file (fp_path fp)) file_patches))
        (Workspace dangerous_operation)))"

definition run_report :: "patch_run \<Rightarrow> (string \<times> json) list" where
  "run_report acc =
     [(''summary'', JStr (join [LF] (pr_summaries acc))), (''diff'', JStr (pr_diff acc)),
      (''file_versions'', JArr (pr_file_versions acc)), (''affected_files'', JArr (pr_affected acc))]"

definition commit_run :: "patch_host \<Rightarrow> path \<Rightarrow> patch_run \<Rightarrow> json tool" where
  "commit_run host root acc =
     op_bind (verify_versions host root (pr_versions acc)) (\<lambda>_.
     op_bind (changes (commit_staged root (ph_order host (pr_staged acc)))) (\<lambda>_.
     op_bind new_uuid (\<lambda>change_id.
       op_return (tool_ok
         ([(''dry_run'', JBool False), (''preflight'', JBool True), (''applied'', JBool True), (''clean'', JBool True),
           (''change_id'', JStr change_id)] @ run_report acc
          @ [(''files_created'', strings_json (affected_paths (pr_affected acc) ''add'')),
             (''files_modified'', strings_json (affected_paths (pr_affected acc) ''update'')),
             (''files_deleted'', strings_json (affected_paths (pr_affected acc) ''delete'')),
             (''recovery'', JStr ''git''), (''warnings'', JArr [])])))))"

definition preview_run :: "patch_run \<Rightarrow> json" where
  "preview_run acc = tool_ok
     ([(''dry_run'', JBool True), (''preflight'', JBool True), (''applied'', JBool False), (''clean'', JBool True)]
      @ run_report acc
      @ [(''would_create'', strings_json (affected_paths (pr_affected acc) ''add'')),
         (''would_modify'', strings_json (affected_paths (pr_affected acc) ''update'')),
         (''would_delete'', strings_json (affected_paths (pr_affected acc) ''delete'')),
         (''warnings'', JArr [])])"

definition run_patch :: "patch_host \<Rightarrow> SecurityPolicy \<Rightarrow> path \<Rightarrow> json \<Rightarrow> json tool" where
  "run_patch host security root args =
     (case get_str args ''patch'' of
        None \<Rightarrow> tool_fail invalid_argument
      | Some patch \<Rightarrow>
          let dry_run = (get_bool args ''dry_run'' = Some True);
              confirm = (get_bool args ''confirm'' = Some True);
              file_patches = parse_unified_diff patch
          in op_bind (check_assets security confirm file_patches) (\<lambda>_.
             op_bind (stage_sections host security root args file_patches) (\<lambda>acc.
               if \<not> dry_run \<and> verify_write_conflicts security
               then commit_run host root acc
               else op_return (preview_run acc))))"

text \<open>\<open>check_args["dry_run"] = true\<close>; the arguments of a tool are an object.\<close>

definition run_check :: "patch_host \<Rightarrow> SecurityPolicy \<Rightarrow> path \<Rightarrow> json \<Rightarrow> json tool" where
  "run_check host security root args =
     op_bind (run_patch host security root
        (case args of JObj kvs \<Rightarrow> JObj (obj_insert ''dry_run'' (JBool True) kvs)
                    | other \<Rightarrow> JObj [(''dry_run'', JBool True)])) (\<lambda>result.
       op_return (case result of JObj kvs \<Rightarrow> JObj (obj_insert ''preflight'' (JBool True) kvs) | other \<Rightarrow> other))"

end
