(* ===== verification/Patch_Preview.thy ===== *)
theory Patch_Preview
  imports Patch_Apply "HOL-Library.Code_Target_Nat"
begin

text \<open>
  What a patch call does to the files: a preview nothing, an applied patch exactly what its sections
  say, a refused one nothing before the commit.
\<close>

section \<open>Operations that only look at the files\<close>

definition looks_only :: "(disk, 'e, 'a) op \<Rightarrow> bool" where
  "looks_only m \<longleftrightarrow> (\<forall>d r d'. m d = (r, d') \<longrightarrow> nodes d' = nodes d \<and> same_host d d')"

lemma looks_onlyI: "(\<And>d r d'. m d = (r, d') \<Longrightarrow> nodes d' = nodes d \<and> same_host d d') \<Longrightarrow> looks_only m"
  by (auto simp: looks_only_def)

lemma looks_onlyD: "looks_only m \<Longrightarrow> m d = (r, d') \<Longrightarrow> nodes d' = nodes d \<and> same_host d d'"
  by (auto simp: looks_only_def)

named_theorems looking \<open>operations that only look at the files\<close>

lemma looks_only_simple [looking]:
  "looks_only (op_return x)" "looks_only (op_fail e)" "looks_only (op_reads f)" "looks_only (op_check b e)"
  "looks_only (op_lift r)" "looks_only (looks_up g)" "looks_only (tool_fail w)"
  by (auto simp: looks_only_def op_return_def op_fail_def op_reads_def op_check_def op_lift_def looks_up_def
      tool_fail_def)

lemma looks_only_bind [looking]: "looks_only m \<Longrightarrow> (\<And>x. looks_only (f x)) \<Longrightarrow> looks_only (op_bind m f)"
proof (rule looks_onlyI)
  fix d r d' assume m: "looks_only m" "\<And>x. looks_only (f x)" "op_bind m f d = (r, d')"
  from m(3) show "nodes d' = nodes d \<and> same_host d d'"
  proof (cases rule: op_bind_cases)
    case (1 e)
    then show ?thesis using looks_onlyD [OF m(1)] by simp
  next
    case (2 x d1)
    then show ?thesis using looks_onlyD [OF m(1) 2(1)] looks_onlyD [OF m(2) 2(2)] same_host_trans by auto
  qed
qed

lemma looks_only_try [looking]: "looks_only m \<Longrightarrow> looks_only (op_try m)"
  by (auto simp: looks_only_def op_try_def split: prod.split_asm)

lemma looks_only_map_err [looking]: "looks_only m \<Longrightarrow> looks_only (op_map_err g m)"
  by (auto simp: looks_only_def op_map_err_def split: prod.split_asm)

lemma looks_only_read [looking]: "looks_only (fs_read p)" "looks_only (read_or e p)"
proof -
  show read: "looks_only (fs_read p)"
  proof (rule looks_onlyI)
    fix d r d' assume run: "fs_read p d = (r, d')"
    have "same_host d d'" using run unfolding fs_read_def by (rule system_call_host)
    moreover have "nodes d' = nodes d"
      using run unfolding fs_read_def by (cases rule: system_call_cases) auto
    ultimately show "nodes d' = nodes d \<and> same_host d d'" by simp
  qed
  show "looks_only (read_or e p)" unfolding read_or_def by (rule looks_only_map_err [OF read])
qed

lemma looks_only_uuid [looking]: "looks_only new_uuid"
  by (auto simp: looks_only_def new_uuid_def same_host_def)

lemma looks_only_for [looking]: "(\<And>x acc. looks_only (body x acc)) \<Longrightarrow> looks_only (op_for body xs acc)"
  by (induction xs arbitrary: acc) (auto intro!: looking)

lemma looks_only_if [looking]:
  "looks_only m \<Longrightarrow> looks_only n \<Longrightarrow> looks_only (if b then m else n)"
  "looks_only m \<Longrightarrow> (\<And>x. looks_only (f x)) \<Longrightarrow> looks_only (case v of None \<Rightarrow> m | Some x \<Rightarrow> f x)"
  "(\<And>e. looks_only (g e)) \<Longrightarrow> (\<And>x. looks_only (f x)) \<Longrightarrow> looks_only (case s of Inl e \<Rightarrow> g e | Inr x \<Rightarrow> f x)"
  by (auto split: option.split sum.split)

lemma looks_only_verify [looking]: "looks_only (verify_file_version host root version)"
  unfolding verify_file_version_def by (cases version) (auto simp: Let_def intro!: looking)

lemma looks_only_versions [looking]: "looks_only (verify_versions host root versions)"
  unfolding verify_versions_def by (intro looking)

lemma looks_only_section [looking]: "looks_only (stage_section host security root args fp acc)"
  unfolding stage_section_def stage_read_def resolve_section_def read_existing_def check_expected_def Let_def
  by (intro looking)

lemma looks_only_sections [looking]: "looks_only (stage_sections host security root args file_patches)"
  unfolding stage_sections_def by (intro looking)

lemma looks_only_assets [looking]: "looks_only (check_assets security confirm file_patches)"
  unfolding check_assets_def by (intro looking)

lemma preview_looks_only:
  assumes "get_bool args ''dry_run'' = Some True \<or> \<not> verify_write_conflicts security"
  shows "looks_only (run_patch host security root args)"
proof -
  have "\<not> (get_bool args ''dry_run'' \<noteq> Some True \<and> verify_write_conflicts security)" using assms by auto
  then show ?thesis unfolding run_patch_def Let_def by (simp only: if_False) (intro looking)
qed

lemma check_looks_only: "looks_only (run_check host security root args)"
  unfolding run_check_def
  by (intro looking preview_looks_only)
    (auto simp: get_bool_def jget_def as_bool_def obj_insert_def split: json.split)

section \<open>What is staged\<close>

text \<open>What one section makes of its file, read off the file system.\<close>

definition section_outcome :: "fs \<Rightarrow> path \<Rightarrow> FilePatch \<Rightarrow> (string \<times> string option) option" where
  "section_outcome fs root fp =
     (case (if fp_is_new_file fp then resolve_for_write fs root (fp_path fp)
            else resolve_existing fs root (fp_path fp)) of
        Inl _ \<Rightarrow> None
      | Inr r \<Rightarrow>
          if fp_is_deleted fp then Some (rp_display r, None)
          else (case apply_hunks
                  (if fp_is_new_file fp then [] else case file_at fs (rp_path r) of Some t \<Rightarrow> t | None \<Rightarrow> [])
                  (fp_hunks fp) (Some (fp_path fp)) of
                  Inl _ \<Rightarrow> None
                | Inr updated \<Rightarrow> Some (rp_display r, Some updated)))"

text \<open>The sections one after the other: the last one of a file decides.\<close>

definition patched :: "fs \<Rightarrow> path \<Rightarrow> FilePatch list \<Rightarrow> (string \<times> string option) list" where
  "patched fs root file_patches =
     foldl (\<lambda>staged fp. case section_outcome fs root fp of
              None \<Rightarrow> staged | Some (p, content) \<Rightarrow> al_put p content staged) [] file_patches"

lemma read_or_Inr: "read_or e p d = (Inr bytes, d') \<Longrightarrow> file_at (nodes d) p = Some bytes"
  by (auto simp: read_or_def op_map_err_def fs_read_def system_call_def Let_def split: prod.split_asm option.split_asm
      if_split_asm sum.split_asm)

lemma check_Inr: "op_check b e d = (Inr u, d') \<longleftrightarrow> b \<and> d' = d"
  by (auto simp: op_check_def op_return_def op_fail_def)

lemma lift_Inr: "op_lift r d = (Inr x, d') \<longleftrightarrow> r = Inr x \<and> d' = d"
  by (auto simp: op_lift_def)

lemma staged_section_simps [simp]:
  "pr_staged (staged_section host p b original updated n operation acc) = al_put p updated (pr_staged acc)"
  by (simp add: staged_section_def)

lemma map_sum_Inr: "map_sum f id r = Inr x \<longleftrightarrow> r = Inr x"
  by (cases r) auto

lemma resolve_section_Inr:
  assumes "resolve_section security root fp d = (Inr r, d')"
  shows "(if fp_is_new_file fp then resolve_for_write (nodes d) root (fp_path fp)
          else resolve_existing (nodes d) root (fp_path fp)) = Inr r" "nodes d' = nodes d"
proof -
  have "looks_only (resolve_section security root fp)" unfolding resolve_section_def by (intro looking)
  then show "nodes d' = nodes d" using assms by (auto dest: looks_onlyD)
  show "(if fp_is_new_file fp then resolve_for_write (nodes d) root (fp_path fp)
          else resolve_existing (nodes d) root (fp_path fp)) = Inr r"
    using assms unfolding resolve_section_def
    by (auto elim!: op_bind_cases simp: lift_Inr looks_up_def op_reads_def op_return_def map_sum_Inr split: if_split_asm)
qed

lemma stage_section_Inr:
  assumes "stage_section host security root args fp acc d = (Inr acc', d')"
  obtains p content operation where "section_outcome (nodes d) root fp = Some (p, content)"
    "pr_staged acc' = al_put p content (pr_staged acc)"
    "pr_affected acc' = pr_affected acc @ [JObj [(''path'', JStr p), (''operation'', JStr operation)]]"
    "\<not> fp_is_new_file fp \<Longrightarrow> content \<noteq> None \<Longrightarrow> operation = ''update''"
proof -
  from assms obtain r d1 where r: "resolve_section security root fp d = (Inr r, d1)"
    and rest: "op_bind (read_existing r not_found) (stage_read host security args fp acc r) d1 = (Inr acc', d')"
    unfolding stage_section_def by (rule op_bind_cases) blast+
  note place = resolve_section_Inr [OF r]
  from rest obtain bytes d2 where bytes: "read_existing r not_found d1 = (Inr bytes, d2)"
    and later: "stage_read host security args fp acc r bytes d2 = (Inr acc', d')"
    by (rule op_bind_cases) blast+
  note later = later [unfolded stage_read_def Let_def]
  have read: "bytes = (if rp_existed r then file_at (nodes d) (rp_path r) else None)"
    using bytes place(2) unfolding read_existing_def
    by (auto elim!: op_bind_cases dest: read_or_Inr simp: op_return_def split: if_split_asm)
  obtain original where original: "original_text fp bytes = Inr original"
    using later by (auto elim!: op_bind_cases simp: lift_Inr check_Inr)
  have said: "original = (if fp_is_new_file fp then [] else case file_at (nodes d) (rp_path r) of Some t \<Rightarrow> t | None \<Rightarrow> [])"
    using original read by (auto simp: original_text_def split: if_split_asm option.split_asm)
  show ?thesis
  proof (cases "fp_is_deleted fp")
    case True
    then have "section_outcome (nodes d) root fp = Some (rp_display r, None)"
      using place by (simp add: section_outcome_def)
    moreover have "pr_staged acc' = al_put (rp_display r) None (pr_staged acc)"
      "pr_affected acc' = pr_affected acc @ [JObj [(''path'', JStr (rp_display r)), (''operation'', JStr ''delete'')]]"
      using later True original by (auto elim!: op_bind_cases simp: lift_Inr check_Inr op_return_def staged_section_def)
    ultimately show ?thesis using that by blast
  next
    case False
    then obtain updated where updated: "apply_hunks original (fp_hunks fp) (Some (fp_path fp)) = Inr updated"
      "pr_staged acc' = al_put (rp_display r) (Some updated) (pr_staged acc)"
      "pr_affected acc' = pr_affected acc @ [JObj [(''path'', JStr (rp_display r)), (''operation'', JStr
         (if fp_is_new_file fp \<and> \<not> map_of (pr_staged acc) (rp_display r) = Some None then ''add'' else ''update''))]]"
      using later original by (auto elim!: op_bind_cases simp: lift_Inr check_Inr op_return_def map_sum_Inr staged_section_def)
    then have "section_outcome (nodes d) root fp = Some (rp_display r, Some updated)"
      using place False said by (simp add: section_outcome_def)
    then show ?thesis by (rule that [OF _ updated(2,3)]) simp_all
  qed
qed

lemma stage_sections_Inr:
  assumes "stage_sections host security root args file_patches d = (Inr acc, d')"
  shows "pr_staged acc = patched (nodes d) root file_patches"
proof -
  have "op_for (stage_section host security root args) fps acc0 d0 = (Inr acc1, d1) \<Longrightarrow>
      pr_staged acc1 = foldl (\<lambda>staged fp. case section_outcome (nodes d0) root fp of
              None \<Rightarrow> staged | Some (p, content) \<Rightarrow> al_put p content staged) (pr_staged acc0) fps" for fps acc0 acc1 d0 d1
  proof (induction fps arbitrary: acc0 d0)
    case Nil
    then show ?case by (simp add: op_return_def)
  next
    case (Cons fp fps)
    from Cons.prems obtain acc2 d2 where one: "stage_section host security root args fp acc0 d0 = (Inr acc2, d2)"
      and rest: "op_for (stage_section host security root args) fps acc2 d2 = (Inr acc1, d1)"
      by (auto elim: op_bind_cases)
    obtain p content where "section_outcome (nodes d0) root fp = Some (p, content)"
      "pr_staged acc2 = al_put p content (pr_staged acc0)"
      by (rule stage_section_Inr [OF one])
    moreover have "nodes d2 = nodes d0" using looks_onlyD [OF looks_only_section one] by simp
    ultimately show ?case using Cons.IH [OF rest] by simp
  qed
  from this [OF assms [unfolded stage_sections_def]] show ?thesis by (simp add: patched_def new_run_def)
qed

section \<open>What is written\<close>

lemma patch_parts:
  assumes "run_patch host security root args d = (Inr result, d')" "get_str args ''patch'' = Some patch"
    and "get_bool args ''dry_run'' \<noteq> Some True" "verify_write_conflicts security"
  obtains d0 acc d1 where "stage_sections host security root args (parse_unified_diff patch) d0 = (Inr acc, d1)"
    "nodes d0 = nodes d" "nodes d1 = nodes d" "same_host d d1" "commit_run host root acc d1 = (Inr result, d')"
proof -
  from assms have run: "op_bind (check_assets security (get_bool args ''confirm'' = Some True) (parse_unified_diff patch)) (\<lambda>_.
       op_bind (stage_sections host security root args (parse_unified_diff patch)) (commit_run host root)) d = (Inr result, d')"
    by (simp add: run_patch_def Let_def)
  then obtain u d0 where assets: "check_assets security (get_bool args ''confirm'' = Some True) (parse_unified_diff patch) d = (Inr u, d0)"
    and rest: "op_bind (stage_sections host security root args (parse_unified_diff patch)) (commit_run host root) d0 = (Inr result, d')"
    by (rule op_bind_cases) blast+
  from rest obtain acc d1 where staged: "stage_sections host security root args (parse_unified_diff patch) d0 = (Inr acc, d1)"
    and commit: "commit_run host root acc d1 = (Inr result, d')"
    by (rule op_bind_cases) blast+
  note one = looks_onlyD [OF looks_only_assets assets] and two = looks_onlyD [OF looks_only_sections staged]
  show ?thesis
  proof (rule that [OF staged _ _ _ commit])
    show "nodes d0 = nodes d" "nodes d1 = nodes d" using one two by simp_all
    show "same_host d d1" using one two same_host_trans by blast
  qed
qed

lemma commit_ready_later:
  assumes "commit_ready d b root staged" "nodes d' = nodes d" "same_host d d'" "b' \<le> b"
  shows "commit_ready d' b' root staged"
proof -
  have "stage_names d' b' \<subseteq> stage_names d b"
    using assms(3,4) unfolding stage_names_def same_host_def by fastforce
  moreover have "calls d \<le> calls d'" "uuid_of d' = uuid_of d" using assms(3) by (auto simp: same_host_def)
  ultimately show ?thesis
    using assms(1,2,4) unfolding commit_ready_def unused_names_def by (simp add: subset_iff disjoint_iff) (meson le_trans less_le_trans)
qed

lemma committed_run:
  assumes "commit_run host root acc d = (Inr result, d')"
    and "commit_ready d (calls d') root (ph_order host (pr_staged acc))"
    and "\<forall>ts. set (temporary_order d ts) = set ts"
  shows "\<forall>p. nodes d' p = staged_result (nodes d) root (ph_order host (pr_staged acc)) p
    \<or> staged_result (nodes d) root (ph_order host (pr_staged acc)) p = None \<and> nodes d' p = Some Dir"
    and "get_bool result ''applied'' = Some True"
    and "jget result ''files_modified'' = Some (strings_json (affected_paths (pr_affected acc) ''update''))"
proof -
  from assms(1) obtain u d1 where verify: "verify_versions host root (pr_versions acc) d = (Inr u, d1)"
    and rest: "op_bind (changes (commit_staged root (ph_order host (pr_staged acc)))) (\<lambda>_.
     op_bind new_uuid (\<lambda>change_id.
       op_return (tool_ok
         ([(''dry_run'', JBool False), (''preflight'', JBool True), (''applied'', JBool True), (''clean'', JBool True),
           (''change_id'', JStr change_id)] @ run_report acc
          @ [(''files_created'', strings_json (affected_paths (pr_affected acc) ''add'')),
             (''files_modified'', strings_json (affected_paths (pr_affected acc) ''update'')),
             (''files_deleted'', strings_json (affected_paths (pr_affected acc) ''delete'')),
             (''recovery'', JStr ''git''), (''warnings'', JArr [])])))) d1 = (Inr result, d')"
    unfolding commit_run_def by (rule op_bind_cases) blast+
  note same = looks_onlyD [OF looks_only_versions verify]
  from rest obtain backups d2 where commit: "changes (commit_staged root (ph_order host (pr_staged acc))) d1 = (Inr backups, d2)"
    and report: "d' = d2\<lparr>calls := Suc (calls d2)\<rparr>" "result = tool_ok
         ([(''dry_run'', JBool False), (''preflight'', JBool True), (''applied'', JBool True), (''clean'', JBool True),
           (''change_id'', JStr (uuid_of d2 (calls d2)))] @ run_report acc
          @ [(''files_created'', strings_json (affected_paths (pr_affected acc) ''add'')),
             (''files_modified'', strings_json (affected_paths (pr_affected acc) ''update'')),
             (''files_deleted'', strings_json (affected_paths (pr_affected acc) ''delete'')),
             (''recovery'', JStr ''git''), (''warnings'', JArr [])])"
    by (elim op_bind_cases) (auto simp: new_uuid_def op_return_def)
  have "commit_staged_bytes root (ph_order host (pr_staged acc)) d1 = (Inr backups, d2)"
    using commit by (simp add: changes_def op_map_err_Inr commit_staged_def)
  moreover have "commit_ready d1 (calls d2) root (ph_order host (pr_staged acc))"
    using commit_ready_later [OF assms(2)] same report(1) by simp
  moreover have "\<forall>ts. set (temporary_order d1 ts) = set ts" using same assms(3) by (simp add: same_host_def)
  ultimately show "\<forall>p. nodes d' p = staged_result (nodes d) root (ph_order host (pr_staged acc)) p
    \<or> staged_result (nodes d) root (ph_order host (pr_staged acc)) p = None \<and> nodes d' p = Some Dir"
    using committed_files [of root "ph_order host (pr_staged acc)" d1 backups d2] same report(1) by simp
  show "get_bool result ''applied'' = Some True"
    "jget result ''files_modified'' = Some (strings_json (affected_paths (pr_affected acc) ''update''))"
    by (simp_all add: report(2) tool_ok_def or_insert_def get_bool_def jget_def as_bool_def run_report_def obj_insert_def
        obj_remove_def)
qed

text \<open>
  C1.  An applied patch is exact: every file a section names holds the text its hunks make of the text
  the file held (the last section of a file decides), the deleted files are gone, and every other file
  is as it was; only the directories of new files were made.
\<close>

theorem applied_patch_is_exact:
  assumes "run_patch host security root args d = (Inr result, d')" "get_str args ''patch'' = Some patch"
    and "get_bool args ''dry_run'' \<noteq> Some True" "verify_write_conflicts security"
    and "commit_ready d (calls d') root (ph_order host (patched (nodes d) root (parse_unified_diff patch)))"
    and "\<forall>ts. set (temporary_order d ts) = set ts"
  shows "get_bool result ''applied'' = Some True
    \<and> (let after = staged_result (nodes d) root (ph_order host (patched (nodes d) root (parse_unified_diff patch)))
       in \<forall>p. nodes d' p = after p \<or> after p = None \<and> nodes d' p = Some Dir)"
proof -
  obtain d0 acc d1 where parts: "stage_sections host security root args (parse_unified_diff patch) d0 = (Inr acc, d1)"
    "nodes d0 = nodes d" "nodes d1 = nodes d" "same_host d d1" "commit_run host root acc d1 = (Inr result, d')"
    by (rule patch_parts [OF assms(1-4)])
  have staged: "pr_staged acc = patched (nodes d) root (parse_unified_diff patch)"
    using stage_sections_Inr [OF parts(1)] parts(2) by simp
  have "commit_ready d1 (calls d') root (ph_order host (pr_staged acc))"
    using commit_ready_later [OF assms(5) parts(3,4)] staged by simp
  moreover have "\<forall>ts. set (temporary_order d1 ts) = set ts" using parts(4) assms(6) by (simp add: same_host_def)
  ultimately show ?thesis using committed_run [OF parts(5)] staged parts(3) by (simp add: Let_def)
qed


text \<open>
  C31.  Two sections for one file in one patch: each is applied to the text on the disk, so the second
  replaces what the first one staged.  The call succeeds and lists the file twice, and the change of
  the first section is lost.
\<close>

theorem repeated_section_loses_the_first_change:
  assumes "run_patch host security root args d = (Inr result, d')" "get_str args ''patch'' = Some patch"
    and "get_bool args ''dry_run'' \<noteq> Some True" "verify_write_conflicts security"
    and "parse_unified_diff patch = [first, second]" "fp_path first = p" "fp_path second = p"
    and "list_all (\<lambda>fp. \<not> fp_is_new_file fp \<and> \<not> fp_is_deleted fp) [first, second]"
    and "resolve_existing (nodes d) root p = Inr r" "file_at (nodes d) (rp_path r) = Some original"
    and "apply_hunks original (fp_hunks second) (Some p) = Inr updated"
    and "ph_order host [(rp_display r, Some updated)] = [(rp_display r, Some updated)]"
    and "place_of (nodes d) root (rp_display r, Some updated) = Some (rp_path r)"
    and "commit_ready d (calls d') root [(rp_display r, Some updated)]" "\<forall>ts. set (temporary_order d ts) = set ts"
  shows "get_bool result ''applied'' = Some True \<and> nodes d' (rp_path r) = Some (File updated)
    \<and> jget result ''files_modified'' = Some (strings_json [rp_display r, rp_display r])"
proof -
  obtain d0 acc d1 where parts: "stage_sections host security root args (parse_unified_diff patch) d0 = (Inr acc, d1)"
    "nodes d0 = nodes d" "nodes d1 = nodes d" "same_host d d1" "commit_run host root acc d1 = (Inr result, d')"
    by (rule patch_parts [OF assms(1-4)])
  from parts(1) obtain acc1 d2 where one: "stage_section host security root args first new_run d0 = (Inr acc1, d2)"
    and two: "stage_section host security root args second acc1 d2 = (Inr acc, d1)"
    by (auto simp: stage_sections_def assms(5) op_return_def elim!: op_bind_cases)
  have outcome: "section_outcome (nodes d) root second = Some (rp_display r, Some updated)"
    using assms(7-11) by (simp add: section_outcome_def)
  obtain c1 where c1: "section_outcome (nodes d) root first = Some (rp_display r, Some c1)"
    using stage_section_Inr [OF one] assms(6,8,9) parts(2)
    by (fastforce simp: section_outcome_def split: sum.split_asm)
  have first: "pr_staged acc1 = [(rp_display r, Some c1)]"
    "pr_affected acc1 = [JObj [(''path'', JStr (rp_display r)), (''operation'', JStr ''update'')]]"
    using stage_section_Inr [OF one] c1 parts(2) assms(8) by (fastforce simp: new_run_def al_put_def)+
  have "nodes d2 = nodes d" using looks_onlyD [OF looks_only_section one] parts(2) by simp
  then have second: "pr_staged acc = [(rp_display r, Some updated)]"
    "pr_affected acc = [JObj [(''path'', JStr (rp_display r)), (''operation'', JStr ''update'')],
        JObj [(''path'', JStr (rp_display r)), (''operation'', JStr ''update'')]]"
    using stage_section_Inr [OF two] outcome first assms(8) by (fastforce simp: al_put_def)+
  have ready: "commit_ready d1 (calls d') root (ph_order host (pr_staged acc))"
    using commit_ready_later [OF assms(14) parts(3,4)] second(1) assms(12) by simp
  have "\<forall>ts. set (temporary_order d1 ts) = set ts" using parts(4) assms(15) by (simp add: same_host_def)
  note done_ = committed_run [OF parts(5) ready this]
  have "staged_result (nodes d1) root (ph_order host (pr_staged acc)) (rp_path r) = Some (File updated)"
    using second(1) assms(12,13) parts(3) by (simp add: staged_result_def)
  then have "nodes d' (rp_path r) = Some (File updated)" using done_(1) by (metis option.distinct(1))
  moreover have "affected_paths (pr_affected acc) ''update'' = [rp_display r, rp_display r]"
    by (simp add: second(2) affected_paths_def get_str_def jget_def as_str_def map_filter_simps)
  ultimately show ?thesis using done_(2,3) by simp
qed

section \<open>Witnesses\<close>

definition three_lines :: "string list \<Rightarrow> string" where
  "three_lines ls = join [LF] ls @ [LF]"

text \<open>The sample file system with three lines in \<open>src/a.rs\<close>; hashes are the texts.\<close>

definition patch_fs :: fs where
  "patch_fs = sample_fs([''w'', ''src'', ''a.rs''] \<mapsto> File (three_lines [''one'', ''two'', ''three'']))"

definition patch_disk :: disk where
  "patch_disk = (sample_disk (\<lambda>_. False))\<lparr>nodes := patch_fs\<rparr>"

definition plain_host :: patch_host where
  "plain_host = \<lparr>ph_sha256 = (\<lambda>s. s), ph_text_diff = (\<lambda>_ _ _ _. []), ph_order = (\<lambda>m. m)\<rparr>"

definition section_lines :: "string \<Rightarrow> string \<Rightarrow> string list" where
  "section_lines old new = [''--- a/src/a.rs'', ''+++ b/src/a.rs'', ''@@'', CHR ''-'' # old, CHR ''+'' # new]"

definition patch_call :: "string list \<Rightarrow> json" where
  "patch_call ls = JObj [(''patch'', JStr (three_lines ls))]"

abbreviation one_section :: "string list" where
  "one_section \<equiv> section_lines ''one'' ''ONE''"

abbreviation two_sections :: "string list" where
  "two_sections \<equiv> section_lines ''one'' ''ONE'' @ section_lines ''three'' ''THREE''"

lemma patch_disk_simps [simp]:
  "nodes patch_disk = patch_fs" "calls patch_disk = 0" "temporary_order patch_disk = id" "ph_order plain_host = (\<lambda>m. m)"
  by (simp_all add: patch_disk_def plain_host_def)

lemma ph_sha256_plain: "ph_sha256 plain_host s = s"
  by (simp add: plain_host_def)

lemma patch_fs_names: "patch_fs p = None \<longleftrightarrow> sample_fs p = None" "patch_fs p = Some Dir \<longleftrightarrow> sample_fs p = Some Dir"
  by (auto simp: patch_fs_def sample_fs_def)

lemma patch_disk_ready:
  assumes "b \<le> 100" "stageable patch_fs [''w''] staged"
    and "list_all (\<lambda>s. list_all (\<lambda>c. length c \<le> 16) (kernel_path (fst s))) staged"
  shows "commit_ready patch_disk b [''w''] staged"
proof -
  have "stage_names patch_disk b = stage_names (sample_disk (\<lambda>_. False)) b" "uuid_of patch_disk = uuid_of (sample_disk (\<lambda>_. False))"
    by (simp_all add: stage_names_def patch_disk_def)
  then have "unused_names patch_disk b staged"
    using sample_unused [OF assms(1,3), of "\<lambda>_. False"] by (simp add: unused_names_def patch_fs_names)
  moreover have "tree patch_fs" using sample_tree by (simp add: tree_def patch_fs_names)
  moreover have "canonicalize patch_fs [''w''] = Some [''w'']" "is_dir patch_fs [''w'']" by code_simp+
  ultimately show ?thesis using assms(2) by (simp add: commit_ready_def)
qed

abbreviation sample_run :: "string list \<Rightarrow> (tool_error + json) \<times> disk" where
  "sample_run ls \<equiv> run_patch plain_host default_security_policy [''w''] (patch_call ls) patch_disk"

lemma sample_call [simp]:
  "get_str (patch_call ls) ''patch'' = Some (three_lines ls)" "get_bool (patch_call ls) ''dry_run'' = None"
  "verify_write_conflicts default_security_policy"
  by (simp_all add: patch_call_def get_str_def get_bool_def jget_def as_str_def default_security_policy_def)

lemma applied_patch_is_exact_witness:
  "nodes (snd (sample_run one_section)) [''w'', ''src'', ''a.rs''] = Some (File (three_lines [''ONE'', ''two'', ''three'']))"
proof -
  let ?fps = "parse_unified_diff (three_lines one_section)"
  have "is_ok (fst (sample_run one_section))" "calls (snd (sample_run one_section)) \<le> 100" by code_simp+
  then obtain result d' where run: "sample_run one_section = (Inr result, d')" "calls d' \<le> 100"
    by (cases "sample_run one_section"; cases "fst (sample_run one_section)") (auto simp: is_ok_def)
  have ready: "commit_ready patch_disk (calls d') [''w''] (patched patch_fs [''w''] ?fps)"
    by (rule patch_disk_ready [OF run(2)]) code_simp+
  have "staged_result patch_fs [''w''] (patched patch_fs [''w''] ?fps) [''w'', ''src'', ''a.rs'']
      = Some (File (three_lines [''ONE'', ''two'', ''three'']))"
    by code_simp
  then show ?thesis
    using applied_patch_is_exact [OF run(1) sample_call(1)] ready run(1)
    by (auto simp: Let_def) (metis option.distinct(1))
qed


lemma repeated_section_loses_the_first_change_witness:
  "nodes (snd (sample_run two_sections)) [''w'', ''src'', ''a.rs''] = Some (File (three_lines [''one'', ''two'', ''THREE'']))"
proof -
  let ?fps = "parse_unified_diff (three_lines two_sections)"
  let ?second = "hd (tl ?fps)"
  have "is_ok (fst (sample_run two_sections))" "calls (snd (sample_run two_sections)) \<le> 100" by code_simp+
  then obtain result d' where run: "sample_run two_sections = (Inr result, d')" "calls d' \<le> 100"
    by (cases "sample_run two_sections"; cases "fst (sample_run two_sections)") (auto simp: is_ok_def)
  have parsed: "?fps = [hd ?fps, ?second]" "fp_path (hd ?fps) = ''src/a.rs''" "fp_path ?second = ''src/a.rs''"
    "list_all (\<lambda>fp. \<not> fp_is_new_file fp \<and> \<not> fp_is_deleted fp) [hd ?fps, ?second]"
    "apply_hunks (three_lines [''one'', ''two'', ''three'']) (fp_hunks ?second) (Some ''src/a.rs'')
       = Inr (three_lines [''one'', ''two'', ''THREE''])"
    by code_simp+
  have r: "resolve_existing patch_fs [''w''] ''src/a.rs''
      = Inr \<lparr>rp_display = ''src/a.rs'', rp_path = [''w'', ''src'', ''a.rs''], rp_existed = True\<rparr>"
    "file_at patch_fs [''w'', ''src'', ''a.rs''] = Some (three_lines [''one'', ''two'', ''three''])"
    "place_of patch_fs [''w''] (''src/a.rs'', Some (three_lines [''one'', ''two'', ''THREE''])) = Some [''w'', ''src'', ''a.rs'']"
    by code_simp+
  have "commit_ready patch_disk (calls d') [''w''] [(''src/a.rs'', Some (three_lines [''one'', ''two'', ''THREE'']))]"
    by (rule patch_disk_ready [OF run(2)]) code_simp+
  then show ?thesis
    using repeated_section_loses_the_first_change [OF run(1) sample_call(1) _ sample_call(3) parsed(1-4),
        of "\<lparr>rp_display = ''src/a.rs'', rp_path = [''w'', ''src'', ''a.rs''], rp_existed = True\<rparr>"
           "three_lines [''one'', ''two'', ''three'']" "three_lines [''one'', ''two'', ''THREE'']"] parsed(5) r run(1)
    by simp
qed

end
