(* ===== verification/File_Ops.thy ===== *)
theory File_Ops
  imports Patch_Preview
begin

text \<open>
  Structured file operations (\<open>tools/patch/file_ops.rs\<close>): create, delete, copy, move and mkdir in one
  call.  All targets are checked first, every path may be touched once; then the versions are checked
  again, the files committed and the directories made.
\<close>

section \<open>Collecting the operations\<close>

record file_plan =
  fo_staged :: "(string \<times> string option) list"
  fo_versions :: "(string \<times> string option) list"
  fo_directories :: "(string \<times> path \<times> bool) list"
  fo_affected :: "json list"
  fo_diffs :: string
  fo_touched :: "string list"

definition new_plan :: file_plan where
  "new_plan = \<lparr>fo_staged = [], fo_versions = [], fo_directories = [], fo_affected = [], fo_diffs = [], fo_touched = []\<rparr>"

definition check_operation_hash :: "patch_host \<Rightarrow> json \<Rightarrow> string \<Rightarrow> string option \<Rightarrow> unit tool" where
  "check_operation_hash host operation p bytes =
     (case get_str operation ''expected_sha256'' of
        None \<Rightarrow> op_return ()
      | Some expected \<Rightarrow>
          let actual = (case bytes of Some b \<Rightarrow> ph_sha256 host b | None \<Rightarrow> ''missing'')
          in op_check (eq_ignore_ascii_case expected actual) (Workspace (version_mismatch p expected actual)))"

definition checked_hash :: "patch_host \<Rightarrow> SecurityPolicy \<Rightarrow> json \<Rightarrow> string \<Rightarrow> string option \<Rightarrow> unit tool" where
  "checked_hash host security operation p bytes =
     (if verify_write_conflicts security then check_operation_hash host operation p bytes else op_return ())"

definition invalid :: tool_error where "invalid = Workspace invalid_argument"

definition guard_path :: "SecurityPolicy \<Rightarrow> path \<Rightarrow> string \<Rightarrow> unit tool" where
  "guard_path security root p =
     op_bind (op_lift (map_sum Workspace id (reject_unsafe_text p))) (\<lambda>_.
     op_bind (if block_symlink_escape security then looks_up (\<lambda>fs. reject_write_symlink fs root p)
              else op_return ()) (\<lambda>_.
       if protect_repository_metadata security then op_lift (map_sum Workspace id (reject_protected_write_path p))
       else op_return ()))"

definition wants :: "json \<Rightarrow> string \<Rightarrow> bool" where
  "wants v field \<longleftrightarrow> get_bool v field = Some True"

text \<open>A target that is there needs \<open>overwrite\<close>, and \<open>confirm\<close> with it.\<close>

definition check_target :: "SecurityPolicy \<Rightarrow> bool \<Rightarrow> json \<Rightarrow> nat \<Rightarrow> string \<Rightarrow> ResolvedPath \<Rightarrow> unit tool" where
  "check_target security confirm operation index p resolved =
     op_bind (op_check (\<not> (rp_existed resolved \<and> wants operation ''overwrite''
         \<and> require_write_confirmation security \<and> \<not> confirm)) (Workspace dangerous_operation)) (\<lambda>_.
       op_check (\<not> (rp_existed resolved \<and> \<not> wants operation ''overwrite''))
         (Workspace (already_exists [(''path'', JStr p), (''operation_index'', JInt (int index))])))"

definition touch :: "string \<Rightarrow> file_plan \<Rightarrow> file_plan tool" where
  "touch p plan =
     (if p \<in> set (fo_touched plan) then op_fail invalid
      else op_return (plan\<lparr>fo_touched := p # fo_touched plan\<rparr>))"

definition is_file_tool :: "path \<Rightarrow> bool tool" where
  "is_file_tool p = op_reads (\<lambda>d. Inr (is_file (nodes d) p))"

definition create_op ::
    "patch_host \<Rightarrow> SecurityPolicy \<Rightarrow> path \<Rightarrow> bool \<Rightarrow> nat \<Rightarrow> json \<Rightarrow> string \<Rightarrow> file_plan \<Rightarrow> file_plan tool" where
  "create_op host security root confirm index operation p plan =
     op_bind (looks_up (\<lambda>fs. resolve_for_write fs root p)) (\<lambda>resolved.
     op_bind (check_target security confirm operation index p resolved) (\<lambda>_.
     op_bind (touch (rp_display resolved) plan) (\<lambda>plan.
     op_bind (read_existing resolved patch_failed) (\<lambda>before.
     op_bind (checked_hash host security operation (rp_display resolved) before) (\<lambda>_.
       let content = (case get_str operation ''content'' of Some t \<Rightarrow> t | None \<Rightarrow> []);
           diff = (case before of
               Some b \<Rightarrow> if from_utf8 b = None \<and> from_utf8 content = None
                 then unified_diff host (rp_display resolved) b content False False
                 else if from_utf8 content = None then unified_diff host (rp_display resolved) [] content True False
                 else []
             | None \<Rightarrow> if from_utf8 content = None
                 then unified_diff host (rp_display resolved) [] content True False else [])
       in op_return (plan\<lparr>fo_versions := al_put (rp_display resolved) (map_option (ph_sha256 host) before) (fo_versions plan),
            fo_diffs := fo_diffs plan @ diff,
            fo_staged := al_put (rp_display resolved) (Some content) (fo_staged plan),
            fo_affected := fo_affected plan @ [JObj [(''path'', JStr (rp_display resolved)),
              (''operation'', JStr (if rp_existed resolved then ''update'' else ''add''))]]\<rparr>))))))"

definition delete_op ::
    "patch_host \<Rightarrow> SecurityPolicy \<Rightarrow> path \<Rightarrow> bool \<Rightarrow> json \<Rightarrow> string \<Rightarrow> file_plan \<Rightarrow> file_plan tool" where
  "delete_op host security root confirm operation p plan =
     op_bind (op_check (\<not> (is_critical_file p \<and> require_write_confirmation security \<and> \<not> confirm))
        (Workspace dangerous_operation)) (\<lambda>_.
     op_bind (looks_up (\<lambda>fs. resolve_existing fs root p)) (\<lambda>resolved.
     op_bind (is_file_tool (rp_path resolved)) (\<lambda>there.
     op_bind (op_check there invalid) (\<lambda>_.
     op_bind (touch (rp_display resolved) plan) (\<lambda>plan.
     op_bind (read_or patch_failed (rp_path resolved)) (\<lambda>before.
     op_bind (checked_hash host security operation (rp_display resolved) (Some before)) (\<lambda>_.
       op_return (plan\<lparr>fo_versions := al_put (rp_display resolved) (Some (ph_sha256 host before)) (fo_versions plan),
            fo_diffs := fo_diffs plan
              @ (if from_utf8 before = None then unified_diff host (rp_display resolved) before [] False True else []),
            fo_staged := al_put (rp_display resolved) None (fo_staged plan),
            fo_affected := fo_affected plan
              @ [JObj [(''path'', JStr (rp_display resolved)), (''operation'', JStr ''delete'')]]\<rparr>))))))))"

definition transfer_op ::
    "patch_host \<Rightarrow> SecurityPolicy \<Rightarrow> path \<Rightarrow> bool \<Rightarrow> nat \<Rightarrow> json \<Rightarrow> string \<Rightarrow> bool \<Rightarrow> file_plan \<Rightarrow> file_plan tool" where
  "transfer_op host security root confirm index operation p moves plan =
     op_bind (looks_up (\<lambda>fs. resolve_existing fs root p)) (\<lambda>source.
     op_bind (is_file_tool (rp_path source)) (\<lambda>there.
     op_bind (op_check there invalid) (\<lambda>_.
     case get_str operation ''destination'' of
       None \<Rightarrow> op_fail invalid
     | Some destination \<Rightarrow>
         op_bind (guard_path security root destination) (\<lambda>_.
         op_bind (looks_up (\<lambda>fs. resolve_for_write fs root destination)) (\<lambda>target.
         op_bind (op_check (rp_display source \<noteq> rp_display target) invalid) (\<lambda>_.
         op_bind (check_target security confirm operation index destination target) (\<lambda>_.
         op_bind (touch (rp_display target) plan) (\<lambda>plan.
         op_bind (if moves then touch (rp_display source) plan else op_return plan) (\<lambda>plan.
         op_bind (read_or patch_failed (rp_path source)) (\<lambda>bytes.
         op_bind (checked_hash host security operation (rp_display source) (Some bytes)) (\<lambda>_.
         op_bind (read_existing target patch_failed) (\<lambda>replaced.
           let versions = al_put (rp_display target) (map_option (ph_sha256 host) replaced)
                 (al_put (rp_display source) (Some (ph_sha256 host bytes)) (fo_versions plan));
               staged = al_put (rp_display target) (Some bytes) (fo_staged plan)
           in op_return (plan\<lparr>fo_versions := versions,
                fo_staged := (if moves then al_put (rp_display source) None staged else staged),
                fo_affected := fo_affected plan @ [JObj [(''path'', JStr (rp_display source)),
                  (''destination'', JStr (rp_display target)),
                  (''operation'', JStr (if moves then ''move'' else ''copy''))]]\<rparr>)))))))))))))"

definition mkdir_op :: "path \<Rightarrow> string \<Rightarrow> file_plan \<Rightarrow> file_plan tool" where
  "mkdir_op root p plan =
     op_bind (looks_up (\<lambda>fs. resolve_for_write fs root p)) (\<lambda>resolved.
     op_bind (op_reads (\<lambda>d. Inr (is_dir (nodes d) (rp_path resolved)))) (\<lambda>directory.
     op_bind (op_check (\<not> (rp_existed resolved \<and> \<not> directory)) invalid) (\<lambda>_.
       op_return (plan\<lparr>fo_directories := fo_directories plan
            @ [(rp_display resolved, rp_path resolved, rp_existed resolved)],
          fo_affected := fo_affected plan
            @ [JObj [(''path'', JStr (rp_display resolved)), (''operation'', JStr ''mkdir'')]]\<rparr>))))"

definition plan_operation ::
    "patch_host \<Rightarrow> SecurityPolicy \<Rightarrow> path \<Rightarrow> bool \<Rightarrow> nat \<times> json \<Rightarrow> file_plan \<Rightarrow> file_plan tool" where
  "plan_operation host security root confirm indexed plan =
     (case indexed of (index, operation) \<Rightarrow>
        (case (get_str operation ''type'', get_str operation ''path'') of
           (Some kind, Some p) \<Rightarrow>
             op_bind (guard_path security root p) (\<lambda>_.
             if kind = ''create'' then create_op host security root confirm index operation p plan
             else if kind = ''delete'' then delete_op host security root confirm operation p plan
             else if kind = ''copy'' \<or> kind = ''move''
             then transfer_op host security root confirm index operation p (kind = ''move'') plan
             else if kind = ''mkdir'' then mkdir_op root p plan
             else op_fail invalid)
         | _ \<Rightarrow> op_fail invalid))"

section \<open>Committing\<close>

definition empty_dir :: "fs \<Rightarrow> path \<Rightarrow> bool" where
  "empty_dir fs p \<longleftrightarrow> fs p = Some Dir \<and> (\<forall>c. fs (p @ [c]) = None)"

definition fs_remove_dir :: "path \<Rightarrow> unit disk_op" where
  "fs_remove_dir p = system_call (call.Remove p) (\<lambda>fs.
     case entry fs p of
       None \<Rightarrow> (Inl (), fs)
     | Some e \<Rightarrow> if empty_dir fs e then (Inr (), fs(e := None)) else (Inl (), fs))"

definition remove_created :: "path list \<Rightarrow> (disk, workspace_error, unit) op" where
  "remove_created created = op_for (\<lambda>p _. op_bind (op_try (fs_remove_dir p)) (\<lambda>_. op_return ())) (rev created) ()"

definition make_directory :: "backups \<Rightarrow> string \<times> path \<times> bool \<Rightarrow> path list \<Rightarrow> path list tool" where
  "make_directory backups directory created_dirs =
     (case directory of (_, p, existed) \<Rightarrow>
        if existed then op_return created_dirs
        else op_bind (op_try (fs_create_dir_all p)) (\<lambda>r.
          case r of
            Inl _ \<Rightarrow>
              op_bind (changes (restore_backups backups)) (\<lambda>_.
              op_bind (changes (remove_created created_dirs)) (\<lambda>_. tool_fail patch_failed))
          | Inr _ \<Rightarrow> op_return (created_dirs @ [p])))"

definition commit_plan :: "patch_host \<Rightarrow> path \<Rightarrow> file_plan \<Rightarrow> unit tool" where
  "commit_plan host root plan =
     op_bind (verify_versions host root (fo_versions plan)) (\<lambda>_.
     op_bind (changes (commit_staged_bytes root (ph_order host (fo_staged plan)))) (\<lambda>backups.
     op_bind (op_for (make_directory backups) (fo_directories plan) []) (\<lambda>_. op_return ())))"

definition plan_report :: "bool \<Rightarrow> json \<Rightarrow> file_plan \<Rightarrow> json" where
  "plan_report dry_run change_id plan = tool_ok
     [(''dry_run'', JBool dry_run), (''preflight'', JBool True), (''applied'', JBool (\<not> dry_run)),
      (''atomic'', JBool True), (''change_id'', change_id), (''diff'', JStr (fo_diffs plan)),
      (''affected_files'', JArr (fo_affected plan)),
      (''files_created'', strings_json (affected_paths (fo_affected plan) ''add'')),
      (''files_modified'', strings_json (affected_paths (fo_affected plan) ''update'')),
      (''files_deleted'', strings_json (affected_paths (fo_affected plan) ''delete'')), (''warnings'', JArr [])]"

definition run_file_ops :: "patch_host \<Rightarrow> SecurityPolicy \<Rightarrow> path \<Rightarrow> json \<Rightarrow> json tool" where
  "run_file_ops host security root args =
     (case get_array args ''operations'' of
        None \<Rightarrow> op_fail invalid
      | Some operations \<Rightarrow>
          let dry_run = wants args ''dry_run''
          in op_bind (op_check (operations \<noteq> []) invalid) (\<lambda>_.
             op_bind (op_for (plan_operation host security root (wants args ''confirm'')) (enumerate 0 operations) new_plan)
               (\<lambda>plan.
             op_bind (if \<not> dry_run \<and> verify_write_conflicts security then commit_plan host root plan
                      else op_return ()) (\<lambda>_.
             op_bind (if dry_run then op_return JNull else op_bind new_uuid (\<lambda>u. op_return (JStr u))) (\<lambda>change_id.
               op_return (plan_report dry_run change_id plan))))))"

section \<open>Previews\<close>

lemma looks_only_plan [looking]: "looks_only (plan_operation host security root confirm operation plan)"
  unfolding plan_operation_def guard_path_def create_op_def delete_op_def transfer_op_def mkdir_op_def touch_def
    check_target_def check_operation_hash_def checked_hash_def read_existing_def is_file_tool_def Let_def
  by (cases operation) (auto intro!: looking)

lemma file_ops_preview:
  assumes "wants args ''dry_run'' \<or> \<not> verify_write_conflicts security"
  shows "looks_only (run_file_ops host security root args)"
proof -
  have "\<not> (\<not> wants args ''dry_run'' \<and> verify_write_conflicts security)" using assms by auto
  then show ?thesis unfolding run_file_ops_def Let_def by (simp only: if_False) (intro looking)
qed

end
