(* ===== verification/Edit_Proposal.thy ===== *)
theory Edit_Proposal
  imports File_Ops
begin

text \<open>
  Edit proposals (\<open>tools/patch/proposal.rs\<close>): when a single replacement does not match exactly but one
  place matches up to white space, the change of that place is stored and can be applied by its id,
  as it is or amended, for as long as the file keeps its version.
\<close>

section \<open>The store\<close>

record EditProposal =
  ep_path :: string
  ep_file_sha256 :: string
  ep_start_byte :: nat
  ep_end_byte :: nat
  ep_actual_text :: string
  ep_replacement :: string
  ep_created_at :: nat

type_synonym proposals = "(string \<times> EditProposal) list"

text \<open>Times are in milliseconds.\<close>

definition EDIT_PROPOSAL_TTL :: nat where "EDIT_PROPOSAL_TTL = 300 * 1000"
definition MAX_EDIT_PROPOSALS :: nat where "MAX_EDIT_PROPOSALS = 200"
definition MAX_PROPOSAL_PATCH_BYTES :: nat where "MAX_PROPOSAL_PATCH_BYTES = 64 * 1024"
definition MAX_PROPOSAL_REPLACEMENT_BYTES :: nat where "MAX_PROPOSAL_REPLACEMENT_BYTES = 128 * 1024"
definition MAX_PROPOSAL_PREVIEW_BYTES :: nat where "MAX_PROPOSAL_PREVIEW_BYTES = 128 * 1024"
definition SMALL_PROPOSAL_REPLACEMENT_BYTES :: nat where "SMALL_PROPOSAL_REPLACEMENT_BYTES = 8 * 1024"
definition PATCH_EFFICIENCY_PERCENT :: nat where "PATCH_EFFICIENCY_PERCENT = 80"

text \<open>\<open>min_by_key\<close> gives the first of the oldest proposals.\<close>

fun oldest :: "string \<times> EditProposal \<Rightarrow> proposals \<Rightarrow> string" where
  "oldest best [] = fst best"
| "oldest best (e # es) =
     (if ep_created_at (snd e) < ep_created_at (snd best) then oldest e es else oldest best es)"

function drop_oldest :: "proposals \<Rightarrow> proposals" where
  "drop_oldest proposals =
     (if length proposals < MAX_EDIT_PROPOSALS then proposals
      else case proposals of
        [] \<Rightarrow> []
      | e # es \<Rightarrow> drop_oldest (al_del (oldest e es) proposals))"
  by pat_completeness auto

lemma oldest_in: "oldest best es \<in> insert (fst best) (fst ` set es)"
  by (induction best es rule: oldest.induct) auto

lemma al_del_smaller: "k \<in> fst ` set kvs \<Longrightarrow> length (al_del k kvs) < length kvs"
proof -
  assume "k \<in> fst ` set kvs"
  then obtain v where "(k, v) \<in> set kvs" by auto
  then show ?thesis unfolding al_del_def by (rule length_filter_less) simp
qed

termination drop_oldest
proof (relation "measure length")
  fix proposals :: proposals and e es
  assume "proposals = e # es"
  then show "(al_del (oldest e es) proposals, proposals) \<in> measure length"
    using oldest_in [of e es] al_del_smaller [of "oldest e es" proposals] by auto
qed simp

declare drop_oldest.simps [simp del]

text \<open>A proposal from the future is dropped: its age cannot be told.\<close>

definition fresh_proposal :: "nat \<Rightarrow> EditProposal \<Rightarrow> bool" where
  "fresh_proposal now proposal \<longleftrightarrow>
     ep_created_at proposal \<le> now \<and> now - ep_created_at proposal \<le> EDIT_PROPOSAL_TTL"

definition prune_edit_proposals :: "nat \<Rightarrow> proposals \<Rightarrow> proposals" where
  "prune_edit_proposals now proposals = drop_oldest (filter (\<lambda>(_, proposal). fresh_proposal now proposal) proposals)"

definition remove_edit_proposal :: "string \<Rightarrow> proposals \<Rightarrow> proposals" where
  "remove_edit_proposal proposal_id proposals = al_del proposal_id proposals"

section \<open>Making a proposal\<close>

definition edits_err :: "edit_error + 'a \<Rightarrow> tool_error + 'a" where
  "edits_err r = map_sum Edits id r"

text \<open>The only place that matches up to white space, for one exact replacement.\<close>

definition proposal_place :: "regex_lib \<Rightarrow> string \<Rightarrow> json list \<Rightarrow> tool_error + (json \<times> string \<times> nat \<times> nat) option" where
  "proposal_place rx original edits =
     (case edits of
        [edit] \<Rightarrow>
          if get_str edit ''type'' \<noteq> Some ''replace''
            \<or> (case get_str edit ''match_mode'' of Some m \<Rightarrow> m | None \<Rightarrow> ''exact'') \<noteq> ''exact''
            \<or> expected_occurrences edit \<noteq> 1
          then Inr None
          else and_then (edits_err (required_edit_text edit ''old_text'')) (\<lambda>old_text.
            let search = (\<lambda>bounds. and_then (edits_err (whitespace_text_candidates rx original old_text bounds)) (\<lambda>candidates.
                  case candidates of [(a, b)] \<Rightarrow> Inr (Some (edit, old_text, a, b)) | _ \<Rightarrow> Inr None))
            in case (get_u64 edit ''start_line'', get_u64 edit ''end_line'') of
                 (None, None) \<Rightarrow> search (0, length original)
               | (Some first_line, Some last_line) \<Rightarrow>
                   and_then (edits_err (line_range_bytes original first_line last_line 0)) search
               | _ \<Rightarrow> Inr None)
      | _ \<Rightarrow> Inr None)"

definition proposal_json ::
    "patch_host \<Rightarrow> string \<Rightarrow> EditProposal \<Rightarrow> string \<Rightarrow> string \<Rightarrow> string \<Rightarrow> nat \<Rightarrow> nat \<Rightarrow> json" where
  "proposal_json host proposal_id proposal original old_text requested first_line last_line =
     (let content = replace_range original (ep_start_byte proposal) (ep_end_byte proposal) (ep_replacement proposal);
          included = (length content \<le> MAX_PROPOSAL_PREVIEW_BYTES);
          small = (length (ep_replacement proposal) \<le> SMALL_PROPOSAL_REPLACEMENT_BYTES)
      in JObj
        [(''status'', JStr ''proposal_required''), (''applied'', JBool False), (''proposal_id'', JStr proposal_id),
         (''proposal_ttl_seconds'', JInt 300), (''path'', JStr (ep_path proposal)),
         (''file_sha256'', JStr (ep_file_sha256 proposal)),
         (''candidate_start_line'', JInt (int first_line)), (''candidate_end_line'', JInt (int last_line)),
         (''actual_text'', JStr (ep_actual_text proposal)), (''requested_old_text'', JStr old_text),
         (''requested_new_text'', JStr requested),
         (''candidate_diff'', JStr (unified_diff host (ep_path proposal) old_text (ep_actual_text proposal) False False)),
         (''proposed_content'', if included then JStr content else JNull),
         (''proposed_content_bytes'', JInt (int (length content))),
         (''proposed_content_included'', JBool included),
         (''proposed_content_sha256'', JStr (ph_sha256 host content)),
         (''accepted_formats'', strings_json [''accept'', ''replacement'', ''patch'']),
         (''preferred_format'', JStr (if small then ''replacement'' else ''patch'')),
         (''preferred_format_reason'', JStr (if small then ''small_replacement_is_cheaper''
            else ''large_replacement_may_benefit_from_patch'')),
         (''replacement_bytes'', JInt (int (length (ep_replacement proposal)))),
         (''replacement_max_bytes'', JInt (int MAX_PROPOSAL_REPLACEMENT_BYTES)),
         (''small_replacement_threshold_bytes'', JInt (int SMALL_PROPOSAL_REPLACEMENT_BYTES)),
         (''patch_efficiency_percent'', JInt (int PATCH_EFFICIENCY_PERCENT)),
         (''proposal_patch_format'', JStr ''unified_diff_single_file_single_hunk''),
         (''proposal_patch_max_bytes'', JInt (int MAX_PROPOSAL_PATCH_BYTES)),
         (''next_action'', JStr ''apply_proposal''), (''warnings'', JArr [])])"

text \<open>The proposal is stored before the lines of its place are computed.\<close>

definition build_edit_proposal ::
    "patch_host \<Rightarrow> regex_lib \<Rightarrow> nat \<Rightarrow> string \<Rightarrow> string \<Rightarrow> string \<Rightarrow> string \<Rightarrow> json list \<Rightarrow> proposals
     \<Rightarrow> (tool_error + json option) \<times> proposals" where
  "build_edit_proposal host rx now proposal_id p file_sha256 original edits proposals =
     (case proposal_place rx original edits of
        Inl e \<Rightarrow> (Inl e, proposals)
      | Inr None \<Rightarrow> (Inr None, proposals)
      | Inr (Some (edit, old_text, a, b)) \<Rightarrow>
          if \<not> (is_char_boundary original a \<and> is_char_boundary original b) then (Inl (Edits Panics), proposals)
          else
            let requested = (case get_str edit ''new_text'' of Some t \<Rightarrow> t | None \<Rightarrow> []);
                proposal = \<lparr>ep_path = p, ep_file_sha256 = file_sha256, ep_start_byte = a, ep_end_byte = b,
                  ep_actual_text = take (b - a) (drop a original),
                  ep_replacement = adapt_newlines_to_range requested original a b, ep_created_at = now\<rparr>
            in (map_sum Edits id
                  (and_then (byte_to_line original a) (\<lambda>first_line.
                   and_then (byte_to_line original (b - 1)) (\<lambda>last_line.
                     Inr (Some (proposal_json host proposal_id proposal original old_text requested first_line last_line))))),
                al_put proposal_id proposal (prune_edit_proposals now proposals)))"

section \<open>Applying a proposal\<close>

definition conflict :: "string \<Rightarrow> (string \<times> json) list \<Rightarrow> tool_error" where
  "conflict c details = Workspace (ToolDetails c (JObj details))"

definition stale :: "string \<Rightarrow> string \<Rightarrow> tool_error" where
  "stale proposal_id reason =
     conflict ''EDIT_PROPOSAL_STALE'' [(''proposal_id'', JStr proposal_id), (''reason'', JStr reason)]"

text \<open>One file with one update hunk; the error of a hunk that does not fit is kept.\<close>

definition apply_restricted_proposal_patch :: "string \<Rightarrow> string \<Rightarrow> tool_error + string" where
  "apply_restricted_proposal_patch proposed_text patch =
     (let files = parse_unified_diff patch
      in case files of
           [file_patch] \<Rightarrow>
             if length (fp_hunks file_patch) \<noteq> 1 \<or> fp_is_new_file file_patch \<or> fp_is_deleted file_patch
             then Inl (conflict ''EDIT_PROPOSAL_PATCH_INVALID''
               [(''reason'', JStr ''single_file_single_hunk_required''), (''file_count'', JInt 1),
                (''hunk_count'', JInt (int (length (fp_hunks file_patch))))])
             else (case apply_hunks proposed_text (fp_hunks file_patch) None of
               Inl e \<Rightarrow> Inl (PatchMismatch e)
             | Inr updated \<Rightarrow>
                 if updated = proposed_text
                 then Inl (conflict ''EDIT_PROPOSAL_PATCH_NO_CHANGES'' [(''reason'', JStr ''no_changes'')])
                 else Inr updated)
         | _ \<Rightarrow> Inl (conflict ''EDIT_PROPOSAL_PATCH_INVALID''
             [(''reason'', JStr ''single_file_single_hunk_required''), (''file_count'', JInt (int (length files))),
              (''hunk_count'', JInt (case files of [] \<Rightarrow> 0 | f # _ \<Rightarrow> int (length (fp_hunks f))))]))"

definition char_slice :: "string \<Rightarrow> nat \<Rightarrow> nat \<Rightarrow> string option" where
  "char_slice s a b =
     (if a \<le> b \<and> b \<le> length s \<and> is_char_boundary s a \<and> is_char_boundary s b
      then Some (take (b - a) (drop a s)) else None)"

definition inefficient :: "string \<Rightarrow> string \<Rightarrow> tool_error" where
  "inefficient patch patched_text = conflict ''EDIT_PROPOSAL_PATCH_INEFFICIENT''
     [(''reason'', JStr ''replacement_is_cheaper''), (''patch_bytes'', JInt (int (length patch))),
      (''replacement_bytes'', JInt (int (length patched_text))),
      (''patch_efficiency_percent'', JInt (int PATCH_EFFICIENCY_PERCENT)),
      (''recommended_format'', JStr ''replacement''), (''recommended_replacement'', JStr patched_text)]"

text \<open>The text the proposal's place is to get, and the format of the answer.\<close>

definition chosen_replacement :: "EditProposal \<Rightarrow> json \<Rightarrow> tool_error + string \<times> string" where
  "chosen_replacement proposal apply =
     (case get_str apply ''patch'' of
        Some patch \<Rightarrow>
          and_then (apply_restricted_proposal_patch (ep_replacement proposal) patch) (\<lambda>patched_text.
            if sat_mul (length patch) 100 \<ge> sat_mul (length patched_text) PATCH_EFFICIENCY_PERCENT
            then Inl (inefficient patch patched_text) else Inr (patched_text, ''patch''))
      | None \<Rightarrow> (case get_str apply ''replacement'' of
            Some replacement \<Rightarrow> Inr (replacement, ''replacement'')
          | None \<Rightarrow> Inr (ep_replacement proposal, ''accept'')))"

definition check_proposal_arguments :: "json \<Rightarrow> tool_error + string" where
  "check_proposal_arguments apply =
     (case get_str apply ''proposal_id'' of
        None \<Rightarrow> Inl invalid
      | Some proposal_id \<Rightarrow>
          if get_str apply ''patch'' \<noteq> None \<and> get_str apply ''replacement'' \<noteq> None then Inl invalid
          else if (case get_str apply ''patch'' of Some t \<Rightarrow> length t > MAX_PROPOSAL_PATCH_BYTES | None \<Rightarrow> False)
          then Inl invalid
          else if (case get_str apply ''replacement'' of
                     Some t \<Rightarrow> length t > MAX_PROPOSAL_REPLACEMENT_BYTES | None \<Rightarrow> False)
          then Inl invalid
          else Inr proposal_id)"

definition apply_found_proposal ::
    "string \<Rightarrow> EditProposal \<Rightarrow> string \<Rightarrow> string \<Rightarrow> string \<Rightarrow> json \<Rightarrow> tool_error + string \<times> string option \<times> string" where
  "apply_found_proposal proposal_id proposal p file_sha256 original apply =
     (if ep_path proposal \<noteq> p \<or> ep_file_sha256 proposal \<noteq> file_sha256 then Inl (stale proposal_id ''file_changed'')
      else if char_slice original (ep_start_byte proposal) (ep_end_byte proposal) \<noteq> Some (ep_actual_text proposal)
      then Inl (stale proposal_id ''candidate_changed'')
      else and_then (chosen_replacement proposal apply) (\<lambda>(replacement, apply_format).
        Inr (replace_range original (ep_start_byte proposal) (ep_end_byte proposal)
               (adapt_newlines_to_range replacement original (ep_start_byte proposal) (ep_end_byte proposal)),
             Some proposal_id, apply_format)))"

definition proposal_missing :: "string \<Rightarrow> tool_error" where
  "proposal_missing proposal_id =
     conflict ''EDIT_PROPOSAL_NOT_FOUND'' [(''proposal_id'', JStr proposal_id), (''reason'', JStr ''missing_or_expired'')]"

definition apply_edit_proposal ::
    "nat \<Rightarrow> string \<Rightarrow> string \<Rightarrow> string \<Rightarrow> json \<Rightarrow> proposals
     \<Rightarrow> (tool_error + string \<times> string option \<times> string) \<times> proposals" where
  "apply_edit_proposal now p file_sha256 original apply proposals =
     (case check_proposal_arguments apply of
        Inl e \<Rightarrow> (Inl e, proposals)
      | Inr proposal_id \<Rightarrow>
          let kept = prune_edit_proposals now proposals
          in (case map_of kept proposal_id of
                None \<Rightarrow> Inl (proposal_missing proposal_id)
              | Some proposal \<Rightarrow> apply_found_proposal proposal_id proposal p file_sha256 original apply, kept))"

end
