(* ===== verification/Edit_Tools.thy ===== *)
theory Edit_Tools
  imports Edit_Proposal
begin

text \<open>
  The edit tools (\<open>tools/patch/edit_ops.rs\<close>): precise edits of one file or several, or the application
  of a stored proposal, with the guards on the result, the check of versions and the commit.
\<close>

section \<open>State and host\<close>

text \<open>The files and the proposals of the process.\<close>

type_synonym 'a edit_tool = "(disk \<times> proposals, tool_error, 'a) op"

definition on_disk :: "'a tool \<Rightarrow> 'a edit_tool" where
  "on_disk m = (\<lambda>(d, proposals). case m d of (r, d') \<Rightarrow> (r, (d', proposals)))"

definition on_store :: "(proposals \<Rightarrow> (tool_error + 'a) \<times> proposals) \<Rightarrow> 'a edit_tool" where
  "on_store f = (\<lambda>(d, proposals). case f proposals of (r, proposals') \<Rightarrow> (r, (d, proposals')))"

text \<open>The libraries, the clock, the measured durations and the text of a rounded quotient.\<close>

record edit_host =
  ed_host :: patch_host
  ed_regex :: regex_lib
  ed_now :: nat
  ed_durations :: json
  ed_ratio :: "nat \<Rightarrow> nat \<Rightarrow> string"

fun newline_text :: "newline_kind \<Rightarrow> string" where
  "newline_text MixedNewlines = ''mixed''"
| "newline_text OnlyCrlf = ''crlf''"
| "newline_text OnlyLf = ''lf''"
| "newline_text NoNewline = ''none''"

definition radius_json :: "edit_host \<Rightarrow> blast_radius \<Rightarrow> json" where
  "radius_json host r = JObj
     [(''before_line_count'', JInt (int (br_before_line_count r))), (''after_line_count'', JInt (int (br_after_line_count r))),
      (''changed_before_lines'', JInt (int (br_changed_before_lines r))),
      (''changed_after_lines'', JInt (int (br_changed_after_lines r))),
      (''changed_line_count'', JInt (int (br_changed_line_count r))),
      (''expected_change_line_budget'', JInt (int (br_expected_budget r))),
      (''allowed_changed_line_count'', JInt (int (br_allowed r))),
      (''change_ratio'', JFloat (ed_ratio host (br_changed_line_count r)
         (max (sat_add (br_before_line_count r) (br_after_line_count r)) 1))),
      (''change_measure'', JStr (if br_bounded_diff r then ''bounded_line_diff'' else ''prefix_suffix'')),
      (''span_changed_line_count'', JInt (int (br_span_changed r))), (''excessive'', JBool (br_excessive r))]"

section \<open>Reading the file\<close>

definition read_text :: "SecurityPolicy \<Rightarrow> path \<Rightarrow> string \<Rightarrow> tool_error \<Rightarrow> (ResolvedPath \<times> string) tool" where
  "read_text security root p not_a_file =
     op_bind (op_lift (map_sum Workspace id (reject_unsafe_text p))) (\<lambda>_.
     op_bind (if block_symlink_escape security then looks_up (\<lambda>fs. reject_write_symlink fs root p)
              else op_return ()) (\<lambda>_.
     op_bind (looks_up (\<lambda>fs. resolve_existing fs root p)) (\<lambda>resolved.
     op_bind (is_file_tool (rp_path resolved)) (\<lambda>there.
     op_bind (op_check there not_a_file) (\<lambda>_.
     op_bind (read_or not_found (rp_path resolved)) (\<lambda>bytes.
     op_bind (op_check (CHR 0x00 \<notin> set (take 4096 bytes)) (Workspace (Tool ''BINARY_FILE''))) (\<lambda>_.
       op_return (resolved, bytes))))))))"

definition decoded :: "string \<Rightarrow> tool_error + string" where
  "decoded bytes = (if from_utf8 bytes = None then Inr bytes else Inl (Workspace (Tool ''UNSUPPORTED_ENCODING'')))"

definition edit_version_ok :: "SecurityPolicy \<Rightarrow> json \<Rightarrow> string \<Rightarrow> string \<Rightarrow> tool_error + unit" where
  "edit_version_ok security v p before_sha256 =
     (if verify_write_conflicts security
      then (case get_str v ''expected_sha256'' of
          Some expected \<Rightarrow> ensure (eq_ignore_ascii_case expected before_sha256)
            (Workspace (version_mismatch p expected before_sha256))
        | None \<Rightarrow> Inr ())
      else Inr ())"

definition changed_text :: "string \<Rightarrow> string \<Rightarrow> tool_error + unit" where
  "changed_text original updated = ensure (updated \<noteq> original) (Workspace patch_failed)"

text \<open>The guards on the result; the reach is part of the report.\<close>

definition result_guards :: "string \<Rightarrow> string \<Rightarrow> string \<Rightarrow> json list \<Rightarrow> tool_error + blast_radius" where
  "result_guards p original updated edits =
     and_then (edits_err (assert_no_unexpected_newline_churn p original updated)) (\<lambda>_.
       edits_err (assert_no_unexpected_edit_blast_radius p original updated edits))"

section \<open>One file\<close>

datatype edit_outcome = Edited string "string option" string | ProposalRequired json

definition apply_edits ::
    "edit_host \<Rightarrow> string \<Rightarrow> string \<Rightarrow> string \<Rightarrow> string \<Rightarrow> json list \<Rightarrow> edit_outcome edit_tool" where
  "apply_edits host proposal_id p before_sha256 original edits =
     (case validate_precise_edit_contract edits of
        Inl e \<Rightarrow> op_fail (enrich_edit_error (Edits e) p before_sha256)
      | Inr _ \<Rightarrow>
          (case apply_precise_edits (ed_regex host) original edits of
             Inr updated \<Rightarrow> op_return (Edited updated None ''direct'')
           | Inl e \<Rightarrow>
               if e = Panics then op_fail (Edits Panics)
               else
                 op_bind (on_store (build_edit_proposal (ed_host host) (ed_regex host) (ed_now host) proposal_id p
                    before_sha256 original edits)) (\<lambda>proposal.
                 case proposal of
                   Some v \<Rightarrow> op_return (ProposalRequired v)
                 | None \<Rightarrow> op_fail (enrich_edit_error (Edits e) p before_sha256))))"

definition updated_text ::
    "edit_host \<Rightarrow> json \<Rightarrow> string \<Rightarrow> string \<Rightarrow> string \<Rightarrow> edit_outcome edit_tool" where
  "updated_text host args p before_sha256 original =
     (case jget args ''apply_proposal'' of
        Some apply \<Rightarrow>
          op_bind (on_store (apply_edit_proposal (ed_now host) p before_sha256 original apply)) (\<lambda>(updated, proposal_id, format).
            op_return (Edited updated proposal_id format))
      | None \<Rightarrow>
          (case get_array args ''edits'' of
             None \<Rightarrow> op_fail invalid
           | Some edits \<Rightarrow>
               if edits = [] then op_fail invalid
               else op_bind (on_disk new_uuid) (\<lambda>proposal_id.
                 apply_edits host proposal_id p before_sha256 original edits)))"

definition optional_member :: "string \<Rightarrow> json option \<Rightarrow> (string \<times> json) list" where
  "optional_member k v = (case v of Some x \<Rightarrow> [(k, x)] | None \<Rightarrow> [])"

definition file_edit_plan :: "edit_host \<Rightarrow> json \<Rightarrow> string \<Rightarrow> string \<Rightarrow> string \<Rightarrow> string option \<Rightarrow> json" where
  "file_edit_plan host args p before_sha256 after_sha256 proposal_id =
     replayable_edit_plan (ed_host host) ''edit''
       (JObj ([(''files'', JArr [JObj ([(''path'', JStr p), (''expected_sha256'', JStr before_sha256)]
            @ optional_member ''edits'' (jget args ''edits'')
            @ optional_member ''apply_proposal'' (jget args ''apply_proposal''))]),
          (''dry_run'', JBool False)] @ optional_member ''reason'' (replay_reason args)))
       (JArr [JObj [(''path'', JStr p), (''before_sha256'', JStr before_sha256), (''after_sha256'', JStr after_sha256)]])
       (JArr (case proposal_id of
          Some i \<Rightarrow> [JObj [(''type'', JStr ''edit_proposal''), (''proposal_id'', JStr i), (''ttl_seconds'', JInt 300)]]
        | None \<Rightarrow> []))"

definition commit_edit :: "edit_host \<Rightarrow> path \<Rightarrow> string \<Rightarrow> string \<Rightarrow> string \<Rightarrow> string option \<Rightarrow> unit edit_tool" where
  "commit_edit host root p before_sha256 updated proposal_id =
     op_bind (on_disk (verify_file_version (ed_host host) root (p, Some before_sha256))) (\<lambda>_.
     op_bind (on_disk (changes (commit_staged root (ph_order (ed_host host) [(p, Some updated)])))) (\<lambda>_.
       on_store (\<lambda>proposals. (Inr (), case proposal_id of
          Some i \<Rightarrow> remove_edit_proposal i proposals | None \<Rightarrow> proposals))))"

definition edit_report ::
    "edit_host \<Rightarrow> json \<Rightarrow> bool \<Rightarrow> json \<Rightarrow> string \<Rightarrow> string \<Rightarrow> string \<Rightarrow> string option \<Rightarrow> string \<Rightarrow> blast_radius \<Rightarrow> json" where
  "edit_report host args dry_run change_id p original updated proposal_id format radius =
     (let before_sha256 = ph_sha256 (ed_host host) original;
          after_sha256 = ph_sha256 (ed_host host) updated
      in tool_ok
        [(''status'', JStr (if proposal_id \<noteq> None then ''proposal_applied'' else ''edited'')),
         (''proposal_id'', str_or_null proposal_id), (''proposal_apply_format'', JStr format),
         (''dry_run'', JBool dry_run), (''preflight'', JBool True), (''applied'', JBool (\<not> dry_run)),
         (''clean'', JBool True), (''change_id'', change_id), (''path'', JStr p), (''operation'', JStr ''update''),
         (''before_sha256'', JStr before_sha256), (''after_sha256'', JStr after_sha256),
         (''edit_plan'', if dry_run then file_edit_plan host args p before_sha256 after_sha256 proposal_id else JNull),
         (''newline_before'', JStr (newline_text (newline_style original))),
         (''newline_after'', JStr (newline_text (newline_style updated))),
         (''newline_guard'', JStr ''passed''), (''blast_radius_guard'', JStr ''passed''),
         (''blast_radius'', radius_json host radius),
         (''diff'', JStr (unified_diff (ed_host host) p original updated False False)),
         (''phase_durations_ms'', ed_durations host),
         (''affected_files'', JArr [JObj [(''path'', JStr p), (''operation'', JStr ''update'')]]),
         (''files_created'', JArr []), (''files_modified'', JArr [JStr p]), (''files_deleted'', JArr []),
         (''recovery'', if dry_run then JNull else JStr ''git''), (''warnings'', JArr [])])"

definition finish_edit ::
    "edit_host \<Rightarrow> SecurityPolicy \<Rightarrow> path \<Rightarrow> json \<Rightarrow> string \<Rightarrow> string \<Rightarrow> string \<Rightarrow> string option \<Rightarrow> string \<Rightarrow> json edit_tool" where
  "finish_edit host security root args p original updated proposal_id format =
     (let dry_run = wants args ''dry_run'';
          edits = (case get_array args ''edits'' of Some es \<Rightarrow> es | None \<Rightarrow> [])
      in op_bind (op_lift (changed_text original updated)) (\<lambda>_.
         op_bind (op_lift (result_guards p original updated edits)) (\<lambda>radius.
         op_bind (if dry_run then op_return JNull else op_bind (on_disk new_uuid) (\<lambda>u. op_return (JStr u))) (\<lambda>change_id.
         op_bind (if \<not> dry_run \<and> verify_write_conflicts security
                  then commit_edit host root p (ph_sha256 (ed_host host) original) updated proposal_id
                  else op_return ()) (\<lambda>_.
           op_return (edit_report host args dry_run change_id p original updated proposal_id format radius))))))"

definition both_modes :: "string \<Rightarrow> tool_error" where
  "both_modes p = Workspace (ToolDetails ''EDIT_CONTRACT_INVALID'' (JObj
     [(''path'', JStr p), (''issue_count'', JInt 1),
      (''issues'', JArr [JObj [(''field'', JStr ''edits,apply_proposal''), (''reason'', JStr ''mutually_exclusive_fields'')]]),
      (''suggestion'', JStr ''Send precise edits or apply one stored proposal''),
      (''recovery_actions'', JArr [JObj [(''action'', JStr ''choose_edit_mode''), (''tool'', JStr ''edit''),
        (''arguments'', JObj [(''files'', JArr [JObj [(''path'', JStr p)]])]),
        (''required_arguments'', JArr [JStr ''files[0].edits_or_apply_proposal'']),
        (''reason'', JStr ''mutually_exclusive_fields'')]])]))"

definition run_file :: "edit_host \<Rightarrow> SecurityPolicy \<Rightarrow> path \<Rightarrow> json \<Rightarrow> json edit_tool" where
  "run_file host security root args =
     (case get_str args ''path'' of
        None \<Rightarrow> op_fail invalid
      | Some p \<Rightarrow>
          op_bind (op_check (\<not> (jget args ''edits'' \<noteq> None \<and> jget args ''apply_proposal'' \<noteq> None)) (both_modes p)) (\<lambda>_.
          op_bind (on_disk (read_text security root p (Workspace (Tool ''IS_DIRECTORY'')))) (\<lambda>(resolved, bytes).
          let before_sha256 = ph_sha256 (ed_host host) bytes
          in op_bind (op_lift (edit_version_ok security args (rp_display resolved) before_sha256)) (\<lambda>_.
             op_bind (op_lift (decoded bytes)) (\<lambda>original.
             op_bind (updated_text host args (rp_display resolved) before_sha256 original) (\<lambda>outcome.
             case outcome of
               ProposalRequired v \<Rightarrow> op_return (case v of JObj members \<Rightarrow> tool_ok members | other \<Rightarrow> other)
             | Edited updated proposal_id format \<Rightarrow>
                 finish_edit host security root args (rp_display resolved) original updated proposal_id format))))))"

section \<open>Several files\<close>

record edit_batch =
  eb_staged :: "(string \<times> string option) list"
  eb_versions :: "(string \<times> string option) list"
  eb_file_versions :: "json list"
  eb_affected :: "json list"
  eb_diffs :: string
  eb_seen :: "string list"

definition new_batch :: edit_batch where
  "new_batch = \<lparr>eb_staged = [], eb_versions = [], eb_file_versions = [], eb_affected = [], eb_diffs = [], eb_seen = []\<rparr>"

text \<open>The new text of one file and how far its change reaches.\<close>

definition edited_file :: "edit_host \<Rightarrow> string \<Rightarrow> string \<Rightarrow> json list \<Rightarrow> tool_error + string \<times> blast_radius" where
  "edited_file host p original edits =
     and_then (edits_err (validate_precise_edit_contract edits)) (\<lambda>_.
     and_then (edits_err (apply_precise_edits (ed_regex host) original edits)) (\<lambda>updated.
     and_then (changed_text original updated) (\<lambda>_.
     and_then (result_guards p original updated edits) (\<lambda>radius. Inr (updated, radius)))))"

definition batch_file_version :: "edit_host \<Rightarrow> string \<Rightarrow> string \<Rightarrow> string \<Rightarrow> blast_radius \<Rightarrow> json" where
  "batch_file_version host p original updated radius = JObj
     [(''path'', JStr p), (''before_sha256'', JStr (ph_sha256 (ed_host host) original)),
      (''after_sha256'', JStr (ph_sha256 (ed_host host) updated)),
      (''newline_before'', JStr (newline_text (newline_style original))),
      (''newline_after'', JStr (newline_text (newline_style updated))), (''newline_guard'', JStr ''passed''),
      (''blast_radius_guard'', JStr ''passed''), (''blast_radius'', radius_json host radius)]"

definition batch_file ::
    "edit_host \<Rightarrow> SecurityPolicy \<Rightarrow> path \<Rightarrow> nat \<times> json \<Rightarrow> edit_batch \<Rightarrow> edit_batch tool" where
  "batch_file host security root indexed batch =
     (case indexed of (file_index, file) \<Rightarrow>
        (case get_str file ''path'' of
           None \<Rightarrow> op_fail invalid
         | Some p \<Rightarrow>
             if p \<in> set (eb_seen batch) then op_fail invalid
             else (case get_array file ''edits'' of
               None \<Rightarrow> op_fail invalid
             | Some edits \<Rightarrow>
                 op_bind (op_check (edits \<noteq> []) invalid) (\<lambda>_.
                 op_bind (read_text security root p invalid) (\<lambda>(resolved, bytes).
                 let q = rp_display resolved;
                     before_sha256 = ph_sha256 (ed_host host) bytes;
                     enrich = (\<lambda>e. enrich_edit_many_error e q before_sha256 file_index)
                 in op_bind (op_lift (map_sum enrich id (edit_version_ok security file q before_sha256))) (\<lambda>_.
                    op_bind (op_lift (decoded bytes)) (\<lambda>original.
                    op_bind (op_lift (map_sum enrich id (edited_file host q original edits))) (\<lambda>(updated, radius).
                      op_return (batch\<lparr>eb_seen := p # eb_seen batch,
                        eb_diffs := eb_diffs batch @ unified_diff (ed_host host) q original updated False False,
                        eb_versions := al_put q (Some before_sha256) (eb_versions batch),
                        eb_staged := al_put q (Some updated) (eb_staged batch),
                        eb_file_versions := eb_file_versions batch @ [batch_file_version host q original updated radius],
                        eb_affected := eb_affected batch
                          @ [JObj [(''path'', JStr q), (''operation'', JStr ''update'')]]\<rparr>))))))))) "

definition batch_edit_plan :: "edit_host \<Rightarrow> json \<Rightarrow> json list \<Rightarrow> edit_batch \<Rightarrow> json" where
  "batch_edit_plan host args files batch =
     (let member = (\<lambda>v k. case jget v k of Some x \<Rightarrow> x | None \<Rightarrow> JNull)
      in replayable_edit_plan (ed_host host) ''edit''
        (JObj ([(''files'', JArr (map (\<lambda>(file, version). JObj
              [(''path'', member version ''path''), (''edits'', member file ''edits''),
               (''expected_sha256'', member version ''before_sha256'')]) (zip files (eb_file_versions batch)))),
            (''dry_run'', JBool False)] @ optional_member ''reason'' (replay_reason args)))
        (JArr (eb_file_versions batch)) (JArr []))"

definition commit_batch :: "edit_host \<Rightarrow> path \<Rightarrow> edit_batch \<Rightarrow> unit tool" where
  "commit_batch host root batch =
     op_bind (verify_versions (ed_host host) root (eb_versions batch)) (\<lambda>_.
     op_bind (changes (commit_staged root (ph_order (ed_host host) (eb_staged batch)))) (\<lambda>_. op_return ()))"

definition run_many :: "edit_host \<Rightarrow> SecurityPolicy \<Rightarrow> path \<Rightarrow> json \<Rightarrow> json tool" where
  "run_many host security root args =
     (case get_array args ''files'' of
        None \<Rightarrow> op_fail invalid
      | Some files \<Rightarrow>
          let dry_run = wants args ''dry_run''
          in op_bind (op_check (files \<noteq> []) invalid) (\<lambda>_.
             op_bind (op_for (batch_file host security root) (enumerate 0 files) new_batch) (\<lambda>batch.
             op_bind (if \<not> dry_run \<and> verify_write_conflicts security then commit_batch host root batch
                      else op_return ()) (\<lambda>_.
             op_bind (if dry_run then op_return JNull else op_bind new_uuid (\<lambda>u. op_return (JStr u))) (\<lambda>change_id.
               op_return (tool_ok
                 [(''dry_run'', JBool dry_run), (''preflight'', JBool True), (''applied'', JBool (\<not> dry_run)),
                  (''atomic'', JBool True), (''change_id'', change_id), (''diff'', JStr (eb_diffs batch)),
                  (''file_versions'', JArr (eb_file_versions batch)), (''affected_files'', JArr (eb_affected batch)),
                  (''edit_plan'', if dry_run then batch_edit_plan host args files batch else JNull),
                  (''phase_durations_ms'', ed_durations host), (''files_created'', JArr []),
                  (''files_modified'', strings_json (affected_paths (eb_affected batch) ''update'')),
                  (''files_deleted'', JArr []), (''warnings'', JArr [])]))))))"

definition single_arguments :: "json \<Rightarrow> (string \<times> json) list \<Rightarrow> json" where
  "single_arguments args file =
     JObj (concat (map (\<lambda>field. optional_member field (map_of file field))
              [''path'', ''expected_sha256'', ''edits'', ''apply_proposal''])
           @ concat (map (\<lambda>field. optional_member field (jget args field)) [''dry_run'', ''reason'']))"

definition proposal_in_batch :: "nat \<Rightarrow> tool_error" where
  "proposal_in_batch file_count = Workspace (ToolDetails ''EDIT_CONTRACT_INVALID'' (JObj
     [(''file_count'', JInt (int file_count)), (''suggestion'', JStr ''Apply a proposal in a single-file edit call''),
      (''recovery_actions'', JArr [JObj [(''action'', JStr ''split_proposal_edit''), (''tool'', JStr ''edit''),
        (''required_arguments'', JArr [JStr ''files'']), (''reason'', JStr ''proposal_requires_single_file'')]])]))"

definition run_edit :: "edit_host \<Rightarrow> SecurityPolicy \<Rightarrow> path \<Rightarrow> json \<Rightarrow> json edit_tool" where
  "run_edit host security root args =
     (case get_array args ''files'' of
        None \<Rightarrow> op_fail invalid
      | Some files \<Rightarrow>
          if files = [] \<or> enforce_resource_limits security \<and> 100 < length files then op_fail invalid
          else (case files of
            [file] \<Rightarrow>
              (case as_object file of
                 None \<Rightarrow> op_fail invalid
               | Some members \<Rightarrow>
                   op_bind (run_file host security root (single_arguments args members)) (\<lambda>result.
                     op_return (case result of
                         JObj kvs \<Rightarrow> JObj (obj_insert ''atomic'' (JBool True) kvs) | other \<Rightarrow> other)))
          | _ \<Rightarrow>
              if list_ex (\<lambda>file. jget file ''apply_proposal'' \<noteq> None) files then op_fail (proposal_in_batch (length files))
              else on_disk (run_many host security root args)))"

end
