(* ===== verification/Edit_Safety.thy ===== *)
theory Edit_Safety
  imports Edit_Tools
begin

text \<open>
  What the edit tools do to files and proposals: a preview changes no file, an applied proposal only
  its place, an applied edit exactly its file; the store of proposals is bounded.
\<close>

section \<open>Previews\<close>

definition keeps_files :: "(disk \<times> proposals, 'e, 'a) op \<Rightarrow> bool" where
  "keeps_files m \<longleftrightarrow>
     (\<forall>st r st'. m st = (r, st') \<longrightarrow> nodes (fst st') = nodes (fst st) \<and> same_host (fst st) (fst st'))"

named_theorems keeping \<open>edit operations that change no file\<close>

lemma keeps_files_simple [keeping]:
  "keeps_files (op_return x)" "keeps_files (op_fail e)" "keeps_files (op_check b e)" "keeps_files (op_lift r)"
  "keeps_files (on_store f)"
  by (auto simp: keeps_files_def op_return_def op_fail_def op_check_def op_lift_def on_store_def split: prod.splits)

lemma keeps_files_disk [keeping]: "looks_only m \<Longrightarrow> keeps_files (on_disk m)"
  by (auto simp: keeps_files_def on_disk_def split: prod.splits dest: looks_onlyD)

lemma keeps_files_bind [keeping]: "keeps_files m \<Longrightarrow> (\<And>x. keeps_files (f x)) \<Longrightarrow> keeps_files (op_bind m f)"
  unfolding keeps_files_def op_bind_def by (fastforce split: prod.splits sum.splits intro: same_host_trans)

lemma keeps_filesD: "keeps_files m \<Longrightarrow> m (d, ps) = (r, (d', ps')) \<Longrightarrow> nodes d' = nodes d \<and> same_host d d'"
  by (force simp: keeps_files_def)

lemma keeps_files_if [keeping]:
  "keeps_files m \<Longrightarrow> keeps_files n \<Longrightarrow> keeps_files (if b then m else n)"
  "keeps_files m \<Longrightarrow> (\<And>x. keeps_files (f x)) \<Longrightarrow> keeps_files (case v of None \<Rightarrow> m | Some x \<Rightarrow> f x)"
  "(\<And>e. keeps_files (g e)) \<Longrightarrow> (\<And>x. keeps_files (f x)) \<Longrightarrow> keeps_files (case s of Inl e \<Rightarrow> g e | Inr x \<Rightarrow> f x)"
  "(\<And>x y. keeps_files (h x y)) \<Longrightarrow> keeps_files (case q of (x, y) \<Rightarrow> h x y)"
  by (auto split: option.split sum.split prod.split)

lemma looks_only_text [looking]: "looks_only (read_text security root p e)"
  unfolding read_text_def is_file_tool_def by (intro looking)

lemma looks_only_pair [looking]: "(\<And>x y. looks_only (h x y)) \<Longrightarrow> looks_only (case q of (x, y) \<Rightarrow> h x y)"
  by (auto split: prod.split)

lemma looks_only_batch_file [looking]: "looks_only (batch_file host security root indexed batch)"
  unfolding batch_file_def Let_def by (intro looking)

lemma updated_text_keeps [keeping]: "keeps_files (updated_text host args p sha original)"
  unfolding updated_text_def apply_edits_def by (intro keeping looking)

lemma finish_edit_preview [keeping]:
  assumes "wants args ''dry_run'' \<or> \<not> verify_write_conflicts security"
  shows "keeps_files (finish_edit host security root args p original updated proposal_id format)"
proof -
  have "\<not> (\<not> wants args ''dry_run'' \<and> verify_write_conflicts security)" using assms by auto
  then show ?thesis unfolding finish_edit_def Let_def by (simp only: if_False) (intro keeping looking)
qed

lemma run_file_preview [keeping]:
  assumes "wants args ''dry_run'' \<or> \<not> verify_write_conflicts security"
  shows "keeps_files (run_file host security root args)"
  unfolding run_file_def Let_def
  by (intro keeping looking) (auto split: edit_outcome.split intro!: keeping assms)

lemma run_many_preview [looking]:
  assumes "wants args ''dry_run'' \<or> \<not> verify_write_conflicts security"
  shows "looks_only (run_many host security root args)"
proof -
  have "\<not> (\<not> wants args ''dry_run'' \<and> verify_write_conflicts security)" using assms by auto
  then show ?thesis unfolding run_many_def Let_def by (simp only: if_False) (intro looking)
qed

lemma single_dry_run: "wants (single_arguments args members) ''dry_run'' = wants args ''dry_run''"
  by (auto simp: wants_def single_arguments_def get_bool_def jget_def optional_member_def split: option.split json.split)

lemma run_edit_preview:
  assumes "wants args ''dry_run'' \<or> \<not> verify_write_conflicts security"
  shows "keeps_files (run_edit host security root args)"
proof -
  have single: "keeps_files (run_file host security root (single_arguments args members))" for members
    using assms by (intro run_file_preview) (simp add: single_dry_run)
  have several: "keeps_files (on_disk (run_many host security root args))"
    using run_many_preview [OF assms] by (rule keeps_files_disk)
  have one: "keeps_files (case as_object f of None \<Rightarrow> op_fail invalid
      | Some members \<Rightarrow> op_bind (run_file host security root (single_arguments args members)) (\<lambda>result.
          op_return (case result of JObj kvs \<Rightarrow> JObj (obj_insert ''atomic'' (JBool True) kvs) | other \<Rightarrow> other)))" for f
    by (intro keeping single)
  have many: "keeps_files (if bad then op_fail e else on_disk (run_many host security root args))" for bad e
    by (intro keeping several)
  show ?thesis unfolding run_edit_def by (intro keeping) (simp split: list.split add: one several keeps_files_simple)
qed

text \<open>
  C14.  A preview changes no file: the patch check, and each of the tools as a dry run or where write
  conflicts are not verified (then it also commits nothing), leaves every file as it is, whatever the
  call and whatever the system refuses.
\<close>

theorem previews_change_no_file:
  assumes "wants args ''dry_run'' \<or> \<not> verify_write_conflicts security"
  shows "nodes (snd (run_patch host security root args d)) = nodes d
    \<and> nodes (snd (run_file_ops host security root args d)) = nodes d
    \<and> nodes (fst (snd (run_edit edits security root args (d, proposals)))) = nodes d
    \<and> (\<forall>check_args. nodes (snd (run_check host security root check_args d)) = nodes d)"
proof -
  have kept: "nodes (snd (m d)) = nodes d" if "looks_only m" for m :: "'a tool"
    using looks_onlyD [OF that] by (metis prod.collapse)
  have "nodes (fst (snd (run_edit edits security root args (d, proposals)))) = nodes d"
    using run_edit_preview [OF assms, of edits root] unfolding keeps_files_def by (metis fst_conv prod.collapse)
  then show ?thesis
    using kept [OF preview_looks_only] kept [OF file_ops_preview] kept [OF check_looks_only] assms
    by (auto simp: wants_def)
qed

definition plain_edits :: edit_host where
  "plain_edits = \<lparr>ed_host = plain_host, ed_regex = literal_regex, ed_now = 0, ed_durations = JNull, ed_ratio = (\<lambda>_ _. [])\<rparr>"

lemma previews_change_no_file_witness:
  "let args = JObj [(''patch'', JStr (three_lines one_section)), (''dry_run'', JBool True)];
       run = run_patch plain_host default_security_policy [''w''] args patch_disk
   in is_ok (fst run) \<and> nodes (snd run) = patch_fs"
proof -
  let ?args = "JObj [(''patch'', JStr (three_lines one_section)), (''dry_run'', JBool True)]"
  have "is_ok (fst (run_patch plain_host default_security_policy [''w''] ?args patch_disk))" by code_simp
  moreover have "wants ?args ''dry_run''" by code_simp
  ultimately show ?thesis
    using previews_change_no_file [of ?args default_security_policy plain_host "[''w'']" patch_disk plain_edits "[]"]
    by (simp add: Let_def)
qed

section \<open>Applied edits\<close>

lemma on_disk_Inr: "on_disk m (d, ps) = (Inr x, (d', ps')) \<longleftrightarrow> m d = (Inr x, d') \<and> ps' = ps"
  by (auto simp: on_disk_def split: prod.splits)

lemma on_store_Inr: "on_store f (d, ps) = (Inr x, (d', ps')) \<longleftrightarrow> f ps = (Inr x, ps') \<and> d' = d"
  by (auto simp: on_store_def split: prod.splits)

lemma bind_check_Inr: "op_bind (op_check b e) f st = (Inr y, st') \<longleftrightarrow> b \<and> f () st = (Inr y, st')"
  by (auto simp: op_bind_def op_check_def op_return_def op_fail_def)

lemma bind_lift_Inr: "op_bind (op_lift r) f st = (Inr y, st') \<longleftrightarrow> (\<exists>x. r = Inr x \<and> f x st = (Inr y, st'))"
  by (cases r) (auto simp: op_bind_def op_lift_def)

lemma bind_disk_Inr:
  "op_bind (on_disk m) f (d, ps) = (Inr y, st') \<longleftrightarrow> (\<exists>x d1. m d = (Inr x, d1) \<and> f x (d1, ps) = (Inr y, st'))"
  by (auto simp: op_bind_def on_disk_def split: prod.splits sum.splits)

lemma read_text_Inr:
  assumes "read_text security root p e d = (Inr (resolved, bytes), d')"
  shows "resolve_existing (nodes d) root p = Inr resolved" "file_at (nodes d) (rp_path resolved) = Some bytes"
  using assms unfolding read_text_def
  by (auto elim!: op_bind_cases dest!: read_or_Inr simp: looks_up_def op_reads_def op_return_def map_sum_Inr lift_Inr
      is_file_tool_def check_Inr split: if_split_asm)

text \<open>Only a stored proposal is answered with \<open>ProposalRequired\<close>, and its report says that nothing was applied.\<close>

lemma proposal_not_applied:
  "build_edit_proposal host rx now i p sha original edits ps = (Inr (Some v), ps') \<Longrightarrow>
   \<exists>members. v = JObj members \<and> get_bool (tool_ok members) ''applied'' = Some False"
  by (auto simp: build_edit_proposal_def proposal_json_def Let_def and_then_Inr_iff map_sum_Inr tool_ok_def or_insert_def
      get_bool_def jget_def as_bool_def obj_insert_def split: sum.split_asm option.split_asm if_split_asm prod.split_asm)

lemma apply_edits_Inr:
  assumes "apply_edits host i p sha original edits st = (Inr outcome, st')"
  shows "(\<exists>updated. outcome = Edited updated None ''direct'' \<and> apply_precise_edits (ed_regex host) original edits = Inr updated)
    \<or> (\<exists>members. outcome = ProposalRequired (JObj members) \<and> get_bool (tool_ok members) ''applied'' = Some False)"
  using assms proposal_not_applied
  by (auto simp: apply_edits_def op_return_def op_fail_def on_store_def elim!: op_bind_cases
      split: sum.split_asm if_split_asm option.split_asm prod.split_asm)

lemma updated_text_Inr:
  assumes "updated_text host args p sha original st = (Inr outcome, st')"
    and "jget args ''apply_proposal'' = None" "get_array args ''edits'' = Some edits"
  shows "(\<exists>updated. outcome = Edited updated None ''direct'' \<and> apply_precise_edits (ed_regex host) original edits = Inr updated)
    \<or> (\<exists>members. outcome = ProposalRequired (JObj members) \<and> get_bool (tool_ok members) ''applied'' = Some False)"
  using assms by (auto simp: updated_text_def op_fail_def elim!: op_bind_cases dest!: apply_edits_Inr split: if_split_asm)

lemma commit_edit_Inr:
  assumes "commit_edit host root p sha updated None (d, ps) = (Inr u, (d', ps'))"
  obtains d1 backups where "nodes d1 = nodes d" "same_host d d1"
    "commit_staged_bytes root (ph_order (ed_host host) [(p, Some updated)]) d1 = (Inr backups, d')"
proof -
  from assms obtain x d1 where "verify_file_version (ed_host host) root (p, Some sha) d = (Inr x, d1)"
    and commit: "\<exists>backups. changes (commit_staged root (ph_order (ed_host host) [(p, Some updated)])) d1 = (Inr backups, d')"
    unfolding commit_edit_def by (auto elim!: op_bind_cases simp: on_disk_Inr on_store_Inr)
  moreover from this have "nodes d1 = nodes d" "same_host d d1" using looks_onlyD [OF looks_only_verify] by blast+
  ultimately show ?thesis using that by (auto simp: changes_def op_map_err_Inr commit_staged_def)
qed

lemma edit_report_applied:
  "get_bool (edit_report host args dry_run change_id p original updated i format radius) ''applied'' = Some (\<not> dry_run)"
  by (simp add: edit_report_def tool_ok_def or_insert_def get_bool_def jget_def as_bool_def obj_insert_def Let_def)

lemma finish_edit_Inr:
  assumes "finish_edit host security root args p original updated i format (d, ps) = (Inr result, (d', ps'))"
    and "get_bool result ''applied'' = Some True" "verify_write_conflicts security"
  obtains d1 where "updated \<noteq> original" "nodes d1 = nodes d" "same_host d d1"
    "commit_edit host root p (ph_sha256 (ed_host host) original) updated i (d1, ps) = (Inr (), (d', ps'))"
proof -
  have "\<not> wants args ''dry_run''"
    using assms(1,2) by (auto simp: finish_edit_def Let_def op_return_def edit_report_applied elim!: op_bind_cases)
  then obtain u d1 where drawn: "new_uuid d = ((Inr u :: tool_error + string), d1)" and "updated \<noteq> original"
    "commit_edit host root p (ph_sha256 (ed_host host) original) updated i (d1, ps) = (Inr (), (d', ps'))"
    using assms(1,3)
    by (auto simp: finish_edit_def Let_def op_return_def lift_Inr changed_text_def on_disk_Inr elim!: op_bind_cases)
  moreover have "nodes d1 = nodes d" "same_host d d1" using looks_onlyD [OF looks_only_uuid drawn] by auto
  ultimately show ?thesis using that by blast
qed

lemma run_file_Inr:
  assumes "run_file host security root args (d, ps) = (Inr result, (d', ps'))" "get_str args ''path'' = Some p"
  obtains r original d1 outcome st where
    "read_text security root p (Workspace (Tool ''IS_DIRECTORY'')) d = (Inr (r, original), d1)"
    "updated_text host args (rp_display r) (ph_sha256 (ed_host host) original) original (d1, ps) = (Inr outcome, st)"
    "(case outcome of
        ProposalRequired v \<Rightarrow> op_return (case v of JObj members \<Rightarrow> tool_ok members | other \<Rightarrow> other)
      | Edited updated proposal_id format \<Rightarrow>
          finish_edit host security root args (rp_display r) original updated proposal_id format) st = (Inr result, (d', ps'))"
proof -
  have "\<exists>r original d1. read_text security root p (Workspace (Tool ''IS_DIRECTORY'')) d = (Inr (r, original), d1)
    \<and> op_bind (updated_text host args (rp_display r) (ph_sha256 (ed_host host) original) original) (\<lambda>outcome.
        case outcome of
          ProposalRequired v \<Rightarrow> op_return (case v of JObj members \<Rightarrow> tool_ok members | other \<Rightarrow> other)
        | Edited updated proposal_id format \<Rightarrow>
            finish_edit host security root args (rp_display r) original updated proposal_id format) (d1, ps)
      = (Inr result, (d', ps'))"
    using assms by (auto simp: run_file_def Let_def bind_check_Inr bind_lift_Inr bind_disk_Inr decoded_def split: if_split_asm)
  then show ?thesis using that by (elim exE conjE op_bind_cases) (simp, blast)
qed


abbreviation edit_call :: json where
  "edit_call \<equiv> JObj [(''path'', JStr ''src/a.rs''),
     (''edits'', JArr [JObj [(''new_text'', JStr ''ONE''), (''old_text'', JStr ''one''), (''type'', JStr ''replace'')]])]"

abbreviation edit_run :: "(tool_error + json) \<times> disk \<times> proposals" where
  "edit_run \<equiv> run_file plain_edits default_security_policy [''w''] edit_call (patch_disk, [])"


section \<open>The store of proposals\<close>

lemma store_bound_after_pruning: "length (drop_oldest proposals) < MAX_EDIT_PROPOSALS"
proof (induction proposals rule: drop_oldest.induct)
  case (1 proposals)
  then show ?case
    by (subst drop_oldest.simps) (auto simp: MAX_EDIT_PROPOSALS_def split: list.split)
qed

lemma drop_oldest_subset: "set (drop_oldest proposals) \<subseteq> set proposals"
proof (induction proposals rule: drop_oldest.induct)
  case (1 proposals)
  show ?case
  proof (cases "length proposals < MAX_EDIT_PROPOSALS")
    case False
    then obtain e es where es: "proposals = e # es" by (cases proposals) (auto simp: MAX_EDIT_PROPOSALS_def)
    with False 1 have "set (drop_oldest (al_del (oldest e es) proposals)) \<subseteq> set (al_del (oldest e es) proposals)" by simp
    then show ?thesis using False es by (subst drop_oldest.simps) (auto simp: al_del_def)
  qed (subst drop_oldest.simps, simp)
qed

lemma prune_fresh: "(i, proposal) \<in> set (prune_edit_proposals now proposals) \<Longrightarrow>
   (i, proposal) \<in> set proposals \<and> fresh_proposal now proposal"
  using drop_oldest_subset by (fastforce simp: prune_edit_proposals_def)

lemma apply_edit_proposal_store:
  assumes "check_proposal_arguments apply = Inr proposal_id"
  shows "fst (apply_edit_proposal now p file_sha256 original apply proposals) =
      (case map_of (prune_edit_proposals now proposals) proposal_id of
         None \<Rightarrow> Inl (proposal_missing proposal_id)
       | Some proposal \<Rightarrow> apply_found_proposal proposal_id proposal p file_sha256 original apply)"
    "snd (apply_edit_proposal now p file_sha256 original apply proposals) = prune_edit_proposals now proposals"
  by (simp_all only: apply_edit_proposal_def assms sum.case Let_def fst_conv snd_conv)

lemma char_slice_parts:
  assumes "char_slice s a b = Some t"
  shows "s = take a s @ t @ drop b s" "length (take a s) = a"
proof -
  have bounds: "a \<le> b" "b \<le> length s" and t: "t = take (b - a) (drop a s)"
    using assms by (auto simp: char_slice_def split: if_split_asm)
  have "drop b s = drop (b - a) (drop a s)" using bounds by simp
  then show "s = take a s @ t @ drop b s" unfolding t by (simp only: append_take_drop_id)
  show "length (take a s) = a" using bounds by simp
qed

text \<open>
  C30.  An applied proposal changes only its place: what is applied is a stored proposal, at most 300
  seconds old, for this file in this version, the file holds the text it was made for at that place,
  and the result has another text there and nothing else changed.
\<close>

theorem applied_proposal_changes_its_place:
  assumes "apply_edit_proposal now p file_sha256 original apply proposals = (Inr (updated, applied_id, format), proposals')"
  shows "\<exists>proposal_id proposal before after replacement.
    applied_id = Some proposal_id \<and> (proposal_id, proposal) \<in> set proposals
    \<and> now - ep_created_at proposal \<le> 300000 \<and> ep_created_at proposal \<le> now
    \<and> ep_path proposal = p \<and> ep_file_sha256 proposal = file_sha256
    \<and> original = before @ ep_actual_text proposal @ after \<and> updated = before @ replacement @ after
    \<and> length before = ep_start_byte proposal \<and> length proposals' < MAX_EDIT_PROPOSALS"
proof -
  let ?kept = "prune_edit_proposals now proposals"
  obtain proposal_id where given: "check_proposal_arguments apply = Inr proposal_id"
    using assms by (cases "check_proposal_arguments apply") (simp_all only: apply_edit_proposal_def sum.case prod.inject, simp)
  note stored = apply_edit_proposal_store [OF given, of now p file_sha256 original proposals]
  have kept: "proposals' = ?kept" using stored(2) assms by simp
  have outcome: "(case map_of ?kept proposal_id of
        None \<Rightarrow> Inl (proposal_missing proposal_id)
      | Some proposal \<Rightarrow> apply_found_proposal proposal_id proposal p file_sha256 original apply)
      = Inr (updated, applied_id, format)" using stored(1) assms by simp
  from outcome obtain proposal where found: "map_of ?kept proposal_id = Some proposal"
    "apply_found_proposal proposal_id proposal p file_sha256 original apply = Inr (updated, applied_id, format)"
    by (cases "map_of ?kept proposal_id") (simp_all only: option.case, simp)
  let ?a = "ep_start_byte proposal" and ?b = "ep_end_byte proposal"
  from found(2) obtain replacement where place: "ep_path proposal = p" "ep_file_sha256 proposal = file_sha256"
    "char_slice original ?a ?b = Some (ep_actual_text proposal)" "applied_id = Some proposal_id"
    "updated = take ?a original @ replacement @ drop ?b original"
    by (auto simp: apply_found_proposal_def and_then_Inr_iff replace_range_def split: if_split_asm)
  note parts = char_slice_parts [OF place(3)]
  have "(proposal_id, proposal) \<in> set proposals \<and> fresh_proposal now proposal"
    using prune_fresh map_of_SomeD [OF found(1)] by blast
  moreover have "length proposals' < MAX_EDIT_PROPOSALS"
    using store_bound_after_pruning kept by (simp add: prune_edit_proposals_def)
  moreover have "original = take ?a original @ ep_actual_text proposal @ drop ?b original"
    "updated = take ?a original @ replacement @ drop ?b original" "length (take ?a original) = ?a"
    using parts place(5) by auto
  ultimately show ?thesis using place(1,2,4) unfolding fresh_proposal_def EDIT_PROPOSAL_TTL_def
    by (intro exI [of _ proposal_id] exI [of _ proposal] exI [of _ "take ?a original"] exI [of _ "drop ?b original"]
        exI [of _ replacement]) simp
qed

definition plain_proposal :: "nat \<Rightarrow> EditProposal" where
  "plain_proposal created_at = \<lparr>ep_path = ''a.rs'', ep_file_sha256 = ''h'', ep_start_byte = 1, ep_end_byte = 3,
     ep_actual_text = ''bc'', ep_replacement = ''x'', ep_created_at = created_at\<rparr>"

lemma applied_proposal_changes_its_place_witness:
  "fst (apply_edit_proposal 9 ''a.rs'' ''h'' ''abcd'' (JObj [(''proposal_id'', JStr ''p'')]) [(''p'', plain_proposal 5)])
     = Inr (''axd'', Some ''p'', ''accept'')
   \<and> (\<exists>before after. ''abcd'' = before @ ''bc'' @ after \<and> length before = 1)"
proof -
  have "fst (apply_edit_proposal 9 ''a.rs'' ''h'' ''abcd'' (JObj [(''proposal_id'', JStr ''p'')]) [(''p'', plain_proposal 5)])
     = Inr (''axd'', Some ''p'', ''accept'')"
    by code_simp
  then obtain proposals' where run: "apply_edit_proposal 9 ''a.rs'' ''h'' ''abcd'' (JObj [(''proposal_id'', JStr ''p'')])
     [(''p'', plain_proposal 5)] = (Inr (''axd'', Some ''p'', ''accept''), proposals')"
    by (metis prod.collapse)
  show ?thesis using applied_proposal_changes_its_place [OF run] run by (auto simp: plain_proposal_def)
qed

lemma oldest_first: "(\<And>q. q \<in> set qs \<Longrightarrow> ep_created_at (snd e) \<le> ep_created_at (snd q)) \<Longrightarrow> oldest e qs = fst e"
proof (induction qs)
  case (Cons q qs)
  then have "\<not> ep_created_at (snd q) < ep_created_at (snd e)" by (simp add: not_less)
  with Cons show ?case by simp
qed simp

text \<open>
  A full store loses its oldest proposal when a proposal is applied: with 200 proposals, all of
  them fresh, the application of the oldest one is refused as missing or expired.
\<close>

lemma full_store_loses_its_oldest_proposal:
  assumes "check_proposal_arguments apply = Inr proposal_id"
    and "proposals = (proposal_id, proposal) # others" "length proposals = MAX_EDIT_PROPOSALS"
    and "\<forall>q \<in> set proposals. fresh_proposal now (snd q) \<and> ep_created_at proposal \<le> ep_created_at (snd q)"
  shows "fst (apply_edit_proposal now p file_sha256 original apply proposals) = Inl (proposal_missing proposal_id)"
proof -
  have all: "filter (\<lambda>(_, proposal). fresh_proposal now proposal) proposals = proposals"
    using assms(4) by (intro filter_True) auto
  have "oldest (proposal_id, proposal) others = proposal_id"
    using oldest_first [of others "(proposal_id, proposal)"] assms(2,4) by simp
  then have "drop_oldest proposals = drop_oldest (al_del proposal_id proposals)"
    using assms(2,3) by (subst drop_oldest.simps) simp
  also have "length (al_del proposal_id proposals) < MAX_EDIT_PROPOSALS"
    using al_del_smaller [of proposal_id proposals] assms(2,3) by simp
  then have "drop_oldest (al_del proposal_id proposals) = al_del proposal_id proposals"
    by (subst drop_oldest.simps) simp
  finally have "prune_edit_proposals now proposals = al_del proposal_id proposals"
    by (simp add: prune_edit_proposals_def all)
  moreover have "map_of (al_del proposal_id proposals) proposal_id = None"
    by (auto simp: map_of_eq_None_iff al_del_def)
  ultimately show ?thesis using apply_edit_proposal_store(1) [OF assms(1)] by simp
qed

lemma full_store_loses_its_oldest_proposal_witness:
  "fst (apply_edit_proposal 500 ''a.rs'' ''h'' ''abcd'' (JObj [(''proposal_id'', JStr [])])
      (([], plain_proposal 1) # map (\<lambda>n. (replicate n CHR ''p'', plain_proposal (n + 1))) [1..<200]))
     = Inl (proposal_missing [])"
proof -
  have "check_proposal_arguments (JObj [(''proposal_id'', JStr [])]) = Inr []" by code_simp
  then show ?thesis
    by (rule full_store_loses_its_oldest_proposal [OF _ refl])
      (auto simp: MAX_EDIT_PROPOSALS_def fresh_proposal_def EDIT_PROPOSAL_TTL_def plain_proposal_def)
qed

end
