(* ===== verification/Device_Registry.thy ===== *)
theory Device_Registry
  imports Tunnel_Auth Tunnel_Routes Operations
begin

text \<open>
  The device registry of the tunnel server (\<open>services/tunnel-server/src/device_auth.rs\<close>): enrollment
  codes, devices and their routes in a database with a cache of the devices in front of it.  Every
  SQL statement may fail, as the environment decides; a transaction then leaves the tables as they were.
\<close>

section \<open>Libraries and errors\<close>

datatype AllowedServices = OnlyMcp | OnlyActions | Both

definition parse_services :: "string \<Rightarrow> AllowedServices option" where
  "parse_services value =
     (let v = to_ascii_lowercase (trim value)
      in if v = ''mcp'' then Some OnlyMcp
         else if v = ''actions'' then Some OnlyActions
         else if v = ''both'' then Some Both
         else None)"

fun services_as_str :: "AllowedServices \<Rightarrow> string" where
  "services_as_str OnlyMcp = ''mcp''"
| "services_as_str OnlyActions = ''actions''"
| "services_as_str Both = ''both''"

fun flags :: "AllowedServices \<Rightarrow> int \<times> int" where
  "flags OnlyMcp = (1, 0)"
| "flags OnlyActions = (0, 1)"
| "flags Both = (1, 1)"

datatype DeviceAuthError =
  InvalidEnrollment | EnrollmentExpired | EnrollmentUsed | DeviceIdConflict | InvalidClientId
| InvalidDeviceName | InvalidPublicKey | UnknownDevice | RevokedDevice | DeviceNotRevoked
| ServiceNotAllowed | ChallengeExpired | InvalidSignature | Storage

text \<open>
  SHA-256, base64, Ed25519 (which keys are valid, and which signatures a key accepts for a text) and
  whether the n-th statement that is sent to the database succeeds.
\<close>

record device_lib =
  dl_sha256 :: "string \<Rightarrow> string"
  dl_b64 :: "string \<Rightarrow> string option"
  dl_key_ok :: "string \<Rightarrow> bool"
  dl_signature_ok :: "string \<Rightarrow> bool"
  dl_verify :: "string \<Rightarrow> string \<Rightarrow> string \<Rightarrow> bool"
  dl_storage_ok :: "nat \<Rightarrow> bool"

definition DEFAULT_ENROLLMENT_TTL_SECONDS :: nat where "DEFAULT_ENROLLMENT_TTL_SECONDS = 600"
definition ENROLLMENT_RETENTION_MILLIS :: nat where "ENROLLMENT_RETENTION_MILLIS = 30 * 24 * 60 * 60 * 1000"
definition MAX_DEVICE_NAME_BYTES :: nat where "MAX_DEVICE_NAME_BYTES = 128"
definition LAST_SEEN_FLUSH_INTERVAL_MILLIS :: nat where "LAST_SEEN_FLUSH_INTERVAL_MILLIS = 60000"

text \<open>\<open>u64\<close> values are stored as \<open>i64\<close>, with the same bits.\<close>

definition i64_of :: "nat \<Rightarrow> int" where
  "i64_of n = (if n < 2 ^ 63 then int n else int n - 2 ^ 64)"

definition u64_of :: "int \<Rightarrow> nat" where
  "u64_of i = nat (i mod 2 ^ 64)"

lemma u64_of_i64 [simp]: "n \<le> u64_max \<Longrightarrow> u64_of (i64_of n) = n"
proof -
  assume "n \<le> u64_max"
  then have "int n < 2 ^ 64" by (simp add: u64_max_def)
  moreover have "(int n - 2 ^ 64) mod 2 ^ 64 = int n mod 2 ^ 64" by simp
  ultimately show ?thesis by (simp add: u64_of_def i64_of_def mod_pos_pos_trivial)
qed

section \<open>Tables and cache\<close>

record enrollment_row =
  en_client_id :: string
  en_allow_mcp :: int
  en_allow_actions :: int
  en_created_at :: int
  en_expires_at :: int
  en_used_at :: "int option"
  en_enrolled_device_id :: "string option"

record device_row =
  dr_client_id :: string
  dr_device_name :: string
  dr_public_key :: string
  dr_allow_mcp :: int
  dr_allow_actions :: int
  dr_created_at :: int
  dr_last_seen_at :: "int option"
  dr_revoked_at :: "int option"

record device_tables =
  enrollment_codes :: "(string \<times> enrollment_row) list"
  device_rows :: "(string \<times> device_row) list"
  route_grants :: "((string \<times> string \<times> string) \<times> int) list"

record DeviceSummary =
  ds_device_id :: string
  ds_client_id :: string
  ds_device_name :: string
  ds_allow_mcp :: bool
  ds_allow_actions :: bool
  ds_created_at_unix_ms :: nat
  ds_last_seen_at_unix_ms :: "nat option"
  ds_revoked_at_unix_ms :: "nat option"

record CachedDevice =
  cd_summary :: DeviceSummary
  cd_public_key :: string
  cd_persisted_last_seen :: "nat option"

record device_store =
  st_tables :: device_tables
  st_cache :: "(string \<times> CachedDevice) list"
  st_statements :: nat

type_synonym 'a auth_op = "(device_store, DeviceAuthError, 'a) op"

section \<open>Statements and transactions\<close>

definition sql :: "device_lib \<Rightarrow> (device_tables \<Rightarrow> 'a \<times> device_tables) \<Rightarrow> 'a auth_op" where
  "sql lib f = (\<lambda>st.
     let st' = st\<lparr>st_statements := Suc (st_statements st)\<rparr>
     in if dl_storage_ok lib (st_statements st)
        then (case f (st_tables st) of (x, t) \<Rightarrow> (Inr x, st'\<lparr>st_tables := t\<rparr>))
        else (Inl Storage, st'))"

definition select :: "device_lib \<Rightarrow> (device_tables \<Rightarrow> 'a) \<Rightarrow> 'a auth_op" where
  "select lib f = sql lib (\<lambda>t. (f t, t))"

definition execute :: "device_lib \<Rightarrow> (device_tables \<Rightarrow> device_tables) \<Rightarrow> unit auth_op" where
  "execute lib f = sql lib (\<lambda>t. ((), f t))"

text \<open>A job for the writer thread: the queue may be closed.\<close>

definition database_call :: "device_lib \<Rightarrow> 'a auth_op \<Rightarrow> 'a auth_op" where
  "database_call lib job = op_bind (select lib (\<lambda>_. ())) (\<lambda>_. job)"

text \<open>Begin, body and commit; what the body did is undone unless it asks for the commit and gets it.\<close>

definition in_transaction :: "device_lib \<Rightarrow> (bool \<times> 'a) auth_op \<Rightarrow> (bool \<times> 'a) auth_op" where
  "in_transaction lib body = op_bind (select lib (\<lambda>_. ())) (\<lambda>_ st.
     case body st of
       (Inr (True, x), st') \<Rightarrow>
         (case select lib (\<lambda>_. ()) st' of
            (Inr _, st'') \<Rightarrow> (Inr (True, x), st'')
          | (Inl e, st'') \<Rightarrow> (Inl e, st''\<lparr>st_tables := st_tables st\<rparr>))
     | (r, st') \<Rightarrow> (r, st'\<lparr>st_tables := st_tables st\<rparr>))"

definition cache_put :: "string \<Rightarrow> CachedDevice \<Rightarrow> unit auth_op" where
  "cache_put device_id device = (\<lambda>st. (Inr (), st\<lparr>st_cache := al_put device_id device (st_cache st)\<rparr>))"

definition cache_remove :: "string list \<Rightarrow> unit auth_op" where
  "cache_remove device_ids = (\<lambda>st. (Inr (), st\<lparr>st_cache := foldl (\<lambda>c i. al_del i c) (st_cache st) device_ids\<rparr>))"

definition cached :: "string \<Rightarrow> CachedDevice option auth_op" where
  "cached device_id = op_reads (\<lambda>st. Inr (map_of (st_cache st) device_id))"

section \<open>Enrollment codes\<close>

definition purge_stale_enrollments :: "device_lib \<Rightarrow> nat \<Rightarrow> unit auth_op" where
  "purge_stale_enrollments lib now = execute lib (\<lambda>t. t\<lparr>enrollment_codes :=
     filter (\<lambda>(_, row). \<not> en_expires_at row < i64_of (now - ENROLLMENT_RETENTION_MILLIS)) (enrollment_codes t)\<rparr>)"

record EnrollmentGrant =
  eg_code :: string
  eg_client_id :: string
  eg_expires_at_unix_ms :: nat
  eg_services :: AllowedServices

text \<open>The primary key refuses a second row for a code.\<close>

definition insert_enrollment :: "device_lib \<Rightarrow> string \<Rightarrow> enrollment_row \<Rightarrow> unit auth_op" where
  "insert_enrollment lib code_hash row =
     op_bind (sql lib (\<lambda>t.
        if map_of (enrollment_codes t) code_hash = None
        then (True, t\<lparr>enrollment_codes := al_put code_hash row (enrollment_codes t)\<rparr>) else (False, t)))
       (\<lambda>inserted. op_check inserted Storage)"

definition create_enrollment ::
    "device_lib \<Rightarrow> nat \<Rightarrow> string \<Rightarrow> string \<Rightarrow> AllowedServices \<Rightarrow> nat option \<Rightarrow> EnrollmentGrant auth_op" where
  "create_enrollment lib created_at enrollment_code client_id services ttl_seconds =
     op_bind (op_check (valid_client_id client_id) InvalidClientId) (\<lambda>_.
       let ttl = clamp (case ttl_seconds of Some t \<Rightarrow> t | None \<Rightarrow> DEFAULT_ENROLLMENT_TTL_SECONDS) 30 86400;
           expires_at = sat_add created_at (sat_mul ttl 1000)
       in op_bind (database_call lib (op_bind (purge_stale_enrollments lib created_at) (\<lambda>_.
            insert_enrollment lib (dl_sha256 lib enrollment_code)
              \<lparr>en_client_id = client_id, en_allow_mcp = fst (flags services), en_allow_actions = snd (flags services),
               en_created_at = i64_of created_at, en_expires_at = i64_of expires_at, en_used_at = None,
               en_enrolled_device_id = None\<rparr>))) (\<lambda>_.
          op_return \<lparr>eg_code = enrollment_code, eg_client_id = client_id, eg_expires_at_unix_ms = expires_at,
            eg_services = services\<rparr>))"

section \<open>Enrolling a device\<close>

record EnrollmentRequest =
  er_device_id :: string
  er_client_id :: string
  er_device_name :: string
  er_public_key :: string

record EnrollmentResponse =
  es_device_id :: string
  es_client_id :: string
  es_server_id :: string
  es_server_public_key :: string

definition decode_public_key :: "device_lib \<Rightarrow> string \<Rightarrow> DeviceAuthError + string" where
  "decode_public_key lib value =
     (case dl_b64 lib (trim value) of
        None \<Rightarrow> Inl InvalidPublicKey
      | Some bytes \<Rightarrow> if length bytes = 32 \<and> dl_key_ok lib bytes then Inr bytes else Inl InvalidPublicKey)"

text \<open>\<open>INSERT OR IGNORE\<close>.\<close>

definition or_ignore :: "'k \<Rightarrow> 'v \<Rightarrow> ('k \<times> 'v) list \<Rightarrow> ('k \<times> 'v) list" where
  "or_ignore k v kvs = (if map_of kvs k = None then al_put k v kvs else kvs)"

definition insert_route_grants ::
    "device_lib \<Rightarrow> string \<Rightarrow> string \<Rightarrow> int \<Rightarrow> int \<Rightarrow> nat \<Rightarrow> unit auth_op" where
  "insert_route_grants lib device_id client_id allow_mcp allow_actions created_at =
     op_for (\<lambda>(service, allowed) _.
        if allowed \<noteq> 0
        then execute lib (\<lambda>t. t\<lparr>route_grants := or_ignore (device_id, client_id, service) (i64_of created_at) (route_grants t)\<rparr>)
        else op_return ()) [(''mcp'', allow_mcp), (''actions'', allow_actions)] ()"

definition delete_grants_of :: "string \<Rightarrow> device_tables \<Rightarrow> device_tables" where
  "delete_grants_of device_id t =
     t\<lparr>route_grants := filter (\<lambda>((d, _, _), _). d \<noteq> device_id) (route_grants t)\<rparr>"

definition enrolled_row :: "enrollment_row \<Rightarrow> string \<Rightarrow> string \<Rightarrow> nat \<Rightarrow> device_row" where
  "enrolled_row enrollment device_name public_key now =
     \<lparr>dr_client_id = en_client_id enrollment, dr_device_name = device_name, dr_public_key = public_key,
      dr_allow_mcp = en_allow_mcp enrollment, dr_allow_actions = en_allow_actions enrollment,
      dr_created_at = i64_of now, dr_last_seen_at = None, dr_revoked_at = None\<rparr>"

definition write_device ::
    "device_lib \<Rightarrow> string \<Rightarrow> enrollment_row \<Rightarrow> string \<Rightarrow> string \<Rightarrow> nat \<Rightarrow> unit auth_op" where
  "write_device lib device_id enrollment device_name public_key now =
     op_bind (select lib (\<lambda>t. map_of (device_rows t) device_id)) (\<lambda>existing.
     case existing of
       Some row \<Rightarrow>
         if dr_public_key row \<noteq> public_key then op_fail DeviceIdConflict
         else
           op_bind (if dr_revoked_at row \<noteq> None then execute lib (delete_grants_of device_id) else op_return ()) (\<lambda>_.
             execute lib (\<lambda>t. t\<lparr>device_rows := al_put device_id (enrolled_row enrollment device_name (dr_public_key row) now)
                (device_rows t)\<rparr>))
     | None \<Rightarrow>
         execute lib (\<lambda>t. t\<lparr>device_rows := al_put device_id (enrolled_row enrollment device_name public_key now)
            (device_rows t)\<rparr>))"

text \<open>The number of rows changed is one, or zero when the code was used meanwhile.\<close>

definition consume_code :: "device_lib \<Rightarrow> string \<Rightarrow> string \<Rightarrow> nat \<Rightarrow> unit auth_op" where
  "consume_code lib code_hash device_id now =
     op_bind (sql lib (\<lambda>t. case map_of (enrollment_codes t) code_hash of
        Some row \<Rightarrow>
          if en_used_at row = None
          then (True, t\<lparr>enrollment_codes := al_put code_hash
                 (row\<lparr>en_used_at := Some (i64_of now), en_enrolled_device_id := Some device_id\<rparr>) (enrollment_codes t)\<rparr>)
          else (False, t)
      | None \<Rightarrow> (False, t))) (\<lambda>consumed. op_check consumed EnrollmentUsed)"

text \<open>A code that is used already: the device that used it may ask again.\<close>

definition used_code :: "device_lib \<Rightarrow> enrollment_row \<Rightarrow> string \<Rightarrow> string \<Rightarrow> unit auth_op" where
  "used_code lib enrollment device_id public_key =
     (if en_enrolled_device_id enrollment = Some device_id
      then op_bind (select lib (\<lambda>t. map_of (device_rows t) device_id)) (\<lambda>existing.
        op_check (\<exists>row \<in> set_option existing. dr_client_id row = en_client_id enrollment \<and> dr_public_key row = public_key)
          EnrollmentUsed)
      else op_fail EnrollmentUsed)"

definition find_enrollment :: "device_lib \<Rightarrow> string \<Rightarrow> enrollment_row auth_op" where
  "find_enrollment lib code_hash =
     op_bind (select lib (\<lambda>t. map_of (enrollment_codes t) code_hash)) (\<lambda>found.
     case found of Some row \<Rightarrow> op_return row | None \<Rightarrow> op_fail InvalidEnrollment)"

text \<open>The body of the transaction, and whether there is something to commit.\<close>

definition enroll_body ::
    "device_lib \<Rightarrow> nat \<Rightarrow> string \<Rightarrow> string \<Rightarrow> string \<Rightarrow> string \<Rightarrow> (bool \<times> enrollment_row) auth_op" where
  "enroll_body lib now code_hash device_id device_name public_key =
     op_bind (find_enrollment lib code_hash) (\<lambda>enrollment.
     if en_used_at enrollment \<noteq> None
     then op_bind (used_code lib enrollment device_id public_key) (\<lambda>_. op_return (False, enrollment))
     else if en_expires_at enrollment < i64_of now then op_fail EnrollmentExpired
     else
       op_bind (write_device lib device_id enrollment device_name public_key now) (\<lambda>_.
       op_bind (insert_route_grants lib device_id (en_client_id enrollment) (en_allow_mcp enrollment)
         (en_allow_actions enrollment) now) (\<lambda>_.
       op_bind (consume_code lib code_hash device_id now) (\<lambda>_. op_return (True, enrollment)))))"

definition enrolled_device ::
    "string \<Rightarrow> enrollment_row \<Rightarrow> string \<Rightarrow> string \<Rightarrow> nat \<Rightarrow> CachedDevice" where
  "enrolled_device device_id enrollment device_name public_key now =
     \<lparr>cd_summary = \<lparr>ds_device_id = device_id, ds_client_id = en_client_id enrollment, ds_device_name = device_name,
        ds_allow_mcp = (en_allow_mcp enrollment \<noteq> 0), ds_allow_actions = (en_allow_actions enrollment \<noteq> 0),
        ds_created_at_unix_ms = now, ds_last_seen_at_unix_ms = None, ds_revoked_at_unix_ms = None\<rparr>,
      cd_public_key = public_key, cd_persisted_last_seen = None\<rparr>"

text \<open>The client named in the request is ignored: the code decides the route.\<close>

definition enroll :: "device_lib \<Rightarrow> nat \<Rightarrow> string \<Rightarrow> EnrollmentRequest \<Rightarrow> EnrollmentResponse auth_op" where
  "enroll lib now enrollment_code request =
     (let device_id = er_device_id request;
          device_name = trim (er_device_name request)
      in op_bind (op_check (valid_client_id device_id) UnknownDevice) (\<lambda>_.
         op_bind (op_check (device_name \<noteq> [] \<and> length device_name \<le> MAX_DEVICE_NAME_BYTES) InvalidDeviceName) (\<lambda>_.
         op_bind (op_lift (decode_public_key lib (er_public_key request))) (\<lambda>public_key.
           database_call lib (op_bind (purge_stale_enrollments lib now) (\<lambda>_.
             op_bind (in_transaction lib (enroll_body lib now (dl_sha256 lib (trim enrollment_code)) device_id device_name public_key))
               (\<lambda>(committed, enrollment).
             op_bind (if committed
                      then cache_put device_id (enrolled_device device_id enrollment device_name public_key now)
                      else op_return ()) (\<lambda>_.
               op_return \<lparr>es_device_id = device_id, es_client_id = en_client_id enrollment, es_server_id = [],
                 es_server_public_key = []\<rparr>))))))))"

section \<open>Devices\<close>

definition list_devices :: "DeviceSummary list auth_op" where
  "list_devices = op_reads (\<lambda>st. Inr (sort_key (\<lambda>d. - int (ds_created_at_unix_ms d))
     (map (\<lambda>(_, device). cd_summary device) (st_cache st))))"

definition revoke_device :: "device_lib \<Rightarrow> nat \<Rightarrow> string \<Rightarrow> bool auth_op" where
  "revoke_device lib revoked_at device_id =
     database_call lib (op_bind (sql lib (\<lambda>t. case map_of (device_rows t) device_id of
          Some row \<Rightarrow>
            if dr_revoked_at row = None
            then (True, t\<lparr>device_rows := al_put device_id (row\<lparr>dr_revoked_at := Some (i64_of revoked_at)\<rparr>) (device_rows t)\<rparr>)
            else (False, t)
        | None \<Rightarrow> (False, t))) (\<lambda>changed.
       op_bind (if changed
         then op_bind (cached device_id) (\<lambda>device. case device of
             Some c \<Rightarrow> cache_put device_id (c\<lparr>cd_summary := (cd_summary c)\<lparr>ds_revoked_at_unix_ms := Some revoked_at\<rparr>\<rparr>)
           | None \<Rightarrow> op_return ())
         else op_return ()) (\<lambda>_. op_return changed)))"

definition delete_revoked_device :: "device_lib \<Rightarrow> string \<Rightarrow> unit auth_op" where
  "delete_revoked_device lib device_id =
     database_call lib (op_bind (select lib (\<lambda>t. map_of (device_rows t) device_id)) (\<lambda>found.
       case found of
         None \<Rightarrow> op_fail UnknownDevice
       | Some row \<Rightarrow>
           op_bind (op_check (dr_revoked_at row \<noteq> None) DeviceNotRevoked) (\<lambda>_.
           op_bind (execute lib (delete_grants_of device_id)) (\<lambda>_.
           op_bind (sql lib (\<lambda>t. case map_of (device_rows t) device_id of
                Some row \<Rightarrow> if dr_revoked_at row \<noteq> None
                  then (True, t\<lparr>device_rows := al_del device_id (device_rows t)\<rparr>) else (False, t)
              | None \<Rightarrow> (False, t))) (\<lambda>changed.
           op_bind (op_check changed UnknownDevice) (\<lambda>_. cache_remove [device_id]))))))"

definition revoked_ids :: "device_tables \<Rightarrow> string list" where
  "revoked_ids t = map fst (filter (\<lambda>(_, row). dr_revoked_at row \<noteq> None) (device_rows t))"

definition purge_revoked_devices :: "device_lib \<Rightarrow> nat auth_op" where
  "purge_revoked_devices lib =
     database_call lib (op_bind (select lib revoked_ids) (\<lambda>ids.
       if ids = [] then op_return 0
       else
         op_bind (execute lib (\<lambda>t. t\<lparr>route_grants :=
           filter (\<lambda>((d, _, _), _). d \<notin> set (revoked_ids t)) (route_grants t)\<rparr>)) (\<lambda>_.
         op_bind (sql lib (\<lambda>t. (length (revoked_ids t), t\<lparr>device_rows :=
           filter (\<lambda>(_, row). dr_revoked_at row = None) (device_rows t)\<rparr>))) (\<lambda>changed.
         op_bind (cache_remove ids) (\<lambda>_. op_return changed)))))"

definition route_allowed :: "device_lib \<Rightarrow> string \<Rightarrow> string \<Rightarrow> TunnelService \<Rightarrow> bool auth_op" where
  "route_allowed lib device_id client_id service =
     (if \<not> valid_client_id device_id \<or> \<not> valid_client_id client_id then op_return False
      else op_bind (cached device_id) (\<lambda>device.
        case device of
          None \<Rightarrow> op_return False
        | Some c \<Rightarrow>
            if ds_revoked_at_unix_ms (cd_summary c) \<noteq> None then op_return False
            else database_call lib (select lib (\<lambda>t.
              map_of (route_grants t) (device_id, client_id, service_as_str service) \<noteq> None))))"

section \<open>Verifying a device\<close>

text \<open>The update of the table is queued; whether it is done does not matter to the caller.\<close>

definition record_last_seen :: "device_lib \<Rightarrow> string \<Rightarrow> nat \<Rightarrow> unit auth_op" where
  "record_last_seen lib device_id now =
     op_bind (cached device_id) (\<lambda>device.
     case device of
       None \<Rightarrow> op_fail UnknownDevice
     | Some c \<Rightarrow>
         if ds_revoked_at_unix_ms (cd_summary c) \<noteq> None then op_fail RevokedDevice
         else
           let seen = c\<lparr>cd_summary := (cd_summary c)\<lparr>ds_last_seen_at_unix_ms := Some now\<rparr>\<rparr>;
               should_flush = (case cd_persisted_last_seen c of
                 None \<Rightarrow> True | Some last_seen \<Rightarrow> now - last_seen \<ge> LAST_SEEN_FLUSH_INTERVAL_MILLIS)
           in op_bind (cache_put device_id (if should_flush then seen\<lparr>cd_persisted_last_seen := Some now\<rparr> else seen)) (\<lambda>_.
              if should_flush
              then op_bind (op_try (execute lib (\<lambda>t. t\<lparr>device_rows := (case map_of (device_rows t) device_id of
                     Some row \<Rightarrow> al_put device_id (row\<lparr>dr_last_seen_at := Some (i64_of now)\<rparr>) (device_rows t)
                   | None \<Rightarrow> device_rows t)\<rparr>))) (\<lambda>_. op_return ())
              else op_return ()))"

definition check_signature :: "device_lib \<Rightarrow> string \<Rightarrow> string \<Rightarrow> string \<Rightarrow> DeviceAuthError + unit" where
  "check_signature lib public_key message signature =
     and_then (ensure (dl_key_ok lib public_key) InvalidPublicKey) (\<lambda>_.
     case dl_b64 lib signature of
       None \<Rightarrow> Inl InvalidSignature
     | Some bytes \<Rightarrow>
         and_then (ensure (dl_signature_ok lib bytes) InvalidSignature) (\<lambda>_.
           ensure (dl_verify lib public_key message bytes) InvalidSignature))"

definition live_device :: "CachedDevice option \<Rightarrow> CachedDevice auth_op" where
  "live_device device =
     (case device of
        None \<Rightarrow> op_fail UnknownDevice
      | Some c \<Rightarrow>
          if ds_revoked_at_unix_ms (cd_summary c) \<noteq> None then op_fail RevokedDevice else op_return c)"

definition verify_cached :: "device_lib \<Rightarrow> nat \<Rightarrow> nat \<Rightarrow> string \<Rightarrow> nat \<Rightarrow> DeviceAuthProof \<Rightarrow> unit auth_op" where
  "verify_cached lib now seen_at nonce expires_at proof =
     op_bind (op_check (now \<le> expires_at) ChallengeExpired) (\<lambda>_.
     op_bind (op_check (valid_client_id (ch_client_id (dp_hello proof))) InvalidClientId) (\<lambda>_.
     op_bind (cached (dp_device_id proof)) (\<lambda>found.
     op_bind (live_device (case found of
         Some c \<Rightarrow> if ds_client_id (cd_summary c) = ch_client_id (dp_hello proof) then Some c else None
       | None \<Rightarrow> None)) (\<lambda>device.
     op_bind (op_check (case ch_service (dp_hello proof) of
         Mcp \<Rightarrow> ds_allow_mcp (cd_summary device) | Actions \<Rightarrow> ds_allow_actions (cd_summary device)) ServiceNotAllowed) (\<lambda>_.
     op_bind (op_lift (check_signature lib (cd_public_key device) (auth_signing_payload nonce proof) (dp_signature proof))) (\<lambda>_.
       record_last_seen lib (dp_device_id proof) seen_at))))))"

definition valid_connection_id :: "string \<Rightarrow> bool" where
  "valid_connection_id c \<longleftrightarrow> trim c \<noteq> [] \<and> length c \<le> 128"

definition verify_device_session_cached ::
    "device_lib \<Rightarrow> nat \<Rightarrow> nat \<Rightarrow> string \<Rightarrow> nat \<Rightarrow> DeviceSessionAuthProof \<Rightarrow> unit auth_op" where
  "verify_device_session_cached lib now seen_at nonce expires_at proof =
     op_bind (op_check (now \<le> expires_at) ChallengeExpired) (\<lambda>_.
     op_bind (op_check (dsh_protocol_version (dsp_hello proof) = MULTIPLEX_PROTOCOL_VERSION
        \<and> valid_client_id (dsp_device_id proof) \<and> valid_connection_id (dsh_connection_id (dsp_hello proof))) InvalidSignature) (\<lambda>_.
     op_bind (cached (dsp_device_id proof)) (\<lambda>found.
     op_bind (live_device found) (\<lambda>device.
     op_bind (op_lift (check_signature lib (cd_public_key device) (device_session_auth_signing_payload nonce proof)
        (dsp_signature proof))) (\<lambda>_.
       record_last_seen lib (dsp_device_id proof) seen_at)))))"

definition verify_split_session_cached ::
    "device_lib \<Rightarrow> nat \<Rightarrow> nat \<Rightarrow> string \<Rightarrow> nat \<Rightarrow> SplitSessionAuthProof \<Rightarrow> unit auth_op" where
  "verify_split_session_cached lib now seen_at nonce expires_at proof =
     op_bind (op_check (now \<le> expires_at) ChallengeExpired) (\<lambda>_.
     op_bind (op_check (ssh_protocol_version (ssp_hello proof) = MULTIPLEX_PROTOCOL_VERSION
        \<and> valid_client_id (ssp_device_id proof) \<and> valid_connection_id (ssh_connection_id (ssp_hello proof))
        \<and> (case ssh_session_id (ssp_hello proof) of None \<Rightarrow> True | Some s \<Rightarrow> valid_connection_id s)) InvalidSignature) (\<lambda>_.
     op_bind (cached (ssp_device_id proof)) (\<lambda>found.
     op_bind (live_device found) (\<lambda>device.
     op_bind (op_lift (check_signature lib (cd_public_key device) (split_session_auth_signing_payload nonce proof)
        (ssp_signature proof))) (\<lambda>_.
       record_last_seen lib (ssp_device_id proof) seen_at)))))"

section \<open>Opening the registry\<close>

text \<open>The grants of the devices are inserted again when they are missing.\<close>

definition regrant :: "string \<Rightarrow> (device_row \<Rightarrow> int) \<Rightarrow> device_tables \<Rightarrow> device_tables" where
  "regrant service allowed t = t\<lparr>route_grants := foldl (\<lambda>gs (d, row).
     if allowed row \<noteq> 0 then or_ignore (d, dr_client_id row, service) (dr_created_at row) gs else gs)
     (route_grants t) (device_rows t)\<rparr>"

definition initialize_schema :: "device_lib \<Rightarrow> unit auth_op" where
  "initialize_schema lib =
     op_bind (execute lib (regrant ''mcp'' dr_allow_mcp)) (\<lambda>_. execute lib (regrant ''actions'' dr_allow_actions))"

definition loaded_device :: "string \<Rightarrow> device_row \<Rightarrow> CachedDevice" where
  "loaded_device device_id row =
     \<lparr>cd_summary = \<lparr>ds_device_id = device_id, ds_client_id = dr_client_id row, ds_device_name = dr_device_name row,
        ds_allow_mcp = (dr_allow_mcp row \<noteq> 0), ds_allow_actions = (dr_allow_actions row \<noteq> 0),
        ds_created_at_unix_ms = u64_of (dr_created_at row),
        ds_last_seen_at_unix_ms = map_option u64_of (dr_last_seen_at row),
        ds_revoked_at_unix_ms = map_option u64_of (dr_revoked_at row)\<rparr>,
      cd_public_key = dr_public_key row, cd_persisted_last_seen = map_option u64_of (dr_last_seen_at row)\<rparr>"

definition load_devices :: "device_lib \<Rightarrow> (string \<times> CachedDevice) list auth_op" where
  "load_devices lib =
     op_bind (select lib device_rows) (\<lambda>rows.
       op_bind (op_check (list_all (\<lambda>(_, row). length (dr_public_key row) = 32) rows) Storage) (\<lambda>_.
         op_return (map (\<lambda>(d, row). (d, loaded_device d row)) rows)))"

text \<open>A restart: the tables stay, the cache is loaded; without it there is no registry.\<close>

definition from_writer :: "device_lib \<Rightarrow> unit auth_op" where
  "from_writer lib =
     op_bind (database_call lib (op_bind (initialize_schema lib) (\<lambda>_. load_devices lib))) (\<lambda>devices st.
       (Inr (), st\<lparr>st_cache := devices\<rparr>))"

end
