(* ===== verification/Device_Effects.thy ===== *)
theory Device_Effects
  imports Device_Registry
begin

text \<open>
  What each operation of the device registry does to the tables and the cache, whatever statement
  fails: the branches of an operation, each with its effect.
\<close>

section \<open>Effects of statements\<close>

lemma sql_cases:
  assumes "sql lib f st = (r, st')"
  obtains (failed) "r = Inl Storage" "st_tables st' = st_tables st" "st_cache st' = st_cache st"
  | (finished) "r = Inr (fst (f (st_tables st)))" "st_tables st' = snd (f (st_tables st))" "st_cache st' = st_cache st"
  using assms by (auto simp: sql_def Let_def split: if_split_asm prod.split_asm)

lemma select_cases:
  assumes "select lib f st = (r, st')"
  obtains (failed) "r = Inl Storage" "st_tables st' = st_tables st" "st_cache st' = st_cache st"
  | (finished) "r = Inr (f (st_tables st))" "st_tables st' = st_tables st" "st_cache st' = st_cache st"
  using assms unfolding select_def by (cases rule: sql_cases) auto

lemma execute_cases:
  assumes "execute lib f st = (r, st')"
  obtains (failed) "r = Inl Storage" "st_tables st' = st_tables st" "st_cache st' = st_cache st"
  | (finished) "r = Inr ()" "st_tables st' = f (st_tables st)" "st_cache st' = st_cache st"
  using assms unfolding execute_def by (cases rule: sql_cases) auto

lemma check_result: "op_check b e st = (r, st') \<longleftrightarrow> st' = st \<and> r = (if b then Inr () else Inl e)"
  by (auto simp: op_check_def op_return_def op_fail_def)

lemma cached_result: "cached d st = (r, st') \<longleftrightarrow> st' = st \<and> r = Inr (map_of (st_cache st) d)"
  by (auto simp: cached_def op_reads_def)

lemma cache_put_result: "cache_put d c st = (r, st') \<longleftrightarrow> r = Inr () \<and> st' = st\<lparr>st_cache := al_put d c (st_cache st)\<rparr>"
  by (auto simp: cache_put_def)

lemma return_result: "op_return x st = (r, st') \<longleftrightarrow> r = Inr x \<and> st' = st"
  "op_fail e st = (r, st') \<longleftrightarrow> r = Inl e \<and> st' = st"
  by (auto simp: op_return_def op_fail_def)

lemma lift_result: "op_lift x st = (r, st') \<longleftrightarrow> x = r \<and> st' = st"
  by (auto simp: op_lift_def)

lemmas job_results = check_result cached_result cache_put_result return_result

section \<open>Effects of the operations\<close>

text \<open>Nothing but enrollment codes changed.\<close>

definition same_devices :: "device_store \<Rightarrow> device_store \<Rightarrow> bool" where
  "same_devices st st' \<longleftrightarrow> device_rows (st_tables st') = device_rows (st_tables st)
     \<and> route_grants (st_tables st') = route_grants (st_tables st) \<and> st_cache st' = st_cache st"

definition live_codes :: "nat \<Rightarrow> device_tables \<Rightarrow> (string \<times> enrollment_row) list" where
  "live_codes now t = filter (\<lambda>(_, row). \<not> en_expires_at row < i64_of (now - ENROLLMENT_RETENTION_MILLIS)) (enrollment_codes t)"

lemma purge_stale_cases:
  assumes "purge_stale_enrollments lib now st = (r, st')"
  obtains (failed) "r = Inl Storage" "st_tables st' = st_tables st" "st_cache st' = st_cache st"
  | (finished) "r = Inr ()" "st_tables st' = (st_tables st)\<lparr>enrollment_codes := live_codes now (st_tables st)\<rparr>"
      "st_cache st' = st_cache st"
  using assms unfolding purge_stale_enrollments_def live_codes_def by (cases rule: execute_cases) auto

lemma database_call_cases:
  assumes "database_call lib job st = (r, st')"
  obtains (failed) "r = Inl Storage" "st_tables st' = st_tables st" "st_cache st' = st_cache st"
  | (started) st1 where "st_tables st1 = st_tables st" "st_cache st1 = st_cache st" "job st1 = (r, st')"
  using assms unfolding database_call_def by (auto elim!: op_bind_cases select_cases)

text \<open>The tables after an enrollment that is written.\<close>

definition granted :: "string \<Rightarrow> enrollment_row \<Rightarrow> nat \<Rightarrow> ((string \<times> string \<times> string) \<times> int) list
    \<Rightarrow> ((string \<times> string \<times> string) \<times> int) list" where
  "granted d e now gs =
     (let gs' = (if en_allow_mcp e \<noteq> 0 then or_ignore (d, en_client_id e, ''mcp'') (i64_of now) gs else gs)
      in if en_allow_actions e \<noteq> 0 then or_ignore (d, en_client_id e, ''actions'') (i64_of now) gs' else gs')"

definition was_revoked :: "device_tables \<Rightarrow> string \<Rightarrow> bool" where
  "was_revoked t d \<longleftrightarrow> (\<exists>row \<in> set_option (map_of (device_rows t) d). dr_revoked_at row \<noteq> None)"

definition enrolled_tables ::
    "nat \<Rightarrow> string \<Rightarrow> string \<Rightarrow> string \<Rightarrow> string \<Rightarrow> enrollment_row \<Rightarrow> device_tables \<Rightarrow> device_tables" where
  "enrolled_tables now h d name key e t =
     t\<lparr>enrollment_codes := al_put h (e\<lparr>en_used_at := Some (i64_of now), en_enrolled_device_id := Some d\<rparr>) (enrollment_codes t),
       device_rows := al_put d (enrolled_row e name key now) (device_rows t),
       route_grants := granted d e now (route_grants (if was_revoked t d then delete_grants_of d t else t))\<rparr>"

lemma delete_grants_simps [simp]:
  "enrollment_codes (delete_grants_of d t) = enrollment_codes t" "device_rows (delete_grants_of d t) = device_rows t"
  by (simp_all add: delete_grants_of_def)

lemma write_device_result:
  assumes "write_device lib d e name key now st = (r, st')"
  shows "st_cache st' = st_cache st
    \<and> (r = Inr u \<longrightarrow> (\<forall>row. map_of (device_rows (st_tables st)) d = Some row \<longrightarrow> dr_public_key row = key)
      \<and> st_tables st' = (if was_revoked (st_tables st) d then delete_grants_of d (st_tables st) else st_tables st)
          \<lparr>device_rows := al_put d (enrolled_row e name key now) (device_rows (st_tables st))\<rparr>)"
  using assms unfolding write_device_def was_revoked_def
  by (auto elim!: op_bind_cases select_cases execute_cases simp: job_results split: option.split_asm if_split_asm)

lemma insert_grants_result:
  assumes "insert_route_grants lib d (en_client_id e) (en_allow_mcp e) (en_allow_actions e) now st = (r, st')"
  shows "st_cache st' = st_cache st
    \<and> (r = Inr u \<longrightarrow> st_tables st' = (st_tables st)\<lparr>route_grants := granted d e now (route_grants (st_tables st))\<rparr>)"
  using assms unfolding insert_route_grants_def granted_def
  by (auto elim!: op_bind_cases execute_cases simp: job_results Let_def split: if_split_asm)

lemma consume_code_result:
  assumes "consume_code lib h d now st = (r, st')"
  shows "st_cache st' = st_cache st
    \<and> (r = Inr u \<longrightarrow> (\<forall>e. map_of (enrollment_codes (st_tables st)) h = Some e \<longrightarrow>
       st_tables st' = (st_tables st)\<lparr>enrollment_codes :=
         al_put h (e\<lparr>en_used_at := Some (i64_of now), en_enrolled_device_id := Some d\<rparr>) (enrollment_codes (st_tables st))\<rparr>))"
  using assms unfolding consume_code_def
  by (auto elim!: op_bind_cases sql_cases simp: job_results split: option.split_asm if_split_asm)

lemma find_enrollment_result:
  assumes "find_enrollment lib h st = (r, st')"
  shows "st_cache st' = st_cache st \<and> st_tables st' = st_tables st
    \<and> (\<forall>e. r = Inr e \<longrightarrow> map_of (enrollment_codes (st_tables st)) h = Some e)"
  using assms unfolding find_enrollment_def
  by (auto elim!: op_bind_cases select_cases simp: job_results split: option.split_asm)

lemma used_code_result:
  assumes "used_code lib e d key st = (r, st')"
  shows "st_cache st' = st_cache st \<and> st_tables st' = st_tables st
    \<and> (r = Inr u \<longrightarrow> en_enrolled_device_id e = Some d \<and> (\<exists>row. map_of (device_rows (st_tables st)) d = Some row
         \<and> dr_client_id row = en_client_id e \<and> dr_public_key row = key))"
  using assms unfolding used_code_def
  by (auto elim!: op_bind_cases select_cases simp: job_results split: if_split_asm)

lemma enroll_body_result:
  assumes "enroll_body lib now h d name key st = (r, st')"
  shows "st_cache st' = st_cache st"
    "r = Inr (True, e) \<Longrightarrow> map_of (enrollment_codes (st_tables st)) h = Some e \<and> en_used_at e = None
      \<and> \<not> en_expires_at e < i64_of now
      \<and> (\<forall>row. map_of (device_rows (st_tables st)) d = Some row \<longrightarrow> dr_public_key row = key)"
    "r = Inr (True, e) \<Longrightarrow> st_tables st' = enrolled_tables now h d name key e (st_tables st)"
    "r = Inr (False, e) \<Longrightarrow> map_of (enrollment_codes (st_tables st)) h = Some e \<and> en_used_at e \<noteq> None
      \<and> en_enrolled_device_id e = Some d
      \<and> (\<exists>row. map_of (device_rows (st_tables st)) d = Some row \<and> dr_client_id row = en_client_id e \<and> dr_public_key row = key)"
  using assms unfolding enroll_body_def
  by (auto elim!: op_bind_cases dest!: find_enrollment_result used_code_result write_device_result insert_grants_result
      consume_code_result simp: job_results enrolled_tables_def split: if_split_asm)

lemma in_transaction_cases:
  assumes "in_transaction lib body st = (r, st')" "\<forall>st r st'. body st = (r, st') \<longrightarrow> st_cache st' = st_cache st"
  obtains (undone) "st_tables st' = st_tables st" "st_cache st' = st_cache st"
    "\<And>x. r = Inr x \<Longrightarrow> \<exists>y st1 st2. x = (False, y) \<and> st_tables st1 = st_tables st \<and> body st1 = (Inr (False, y), st2)"
  | (committed) x st1 st2 where "r = Inr (True, x)" "st_tables st1 = st_tables st" "body st1 = (Inr (True, x), st2)"
    "st_tables st' = st_tables st2" "st_cache st' = st_cache st"
proof -
  from assms(1) consider (failed) "r = Inl Storage" "st_tables st' = st_tables st" "st_cache st' = st_cache st"
    | (begun) st1 where "st_tables st1 = st_tables st" "st_cache st1 = st_cache st" "(case body st1 of
       (Inr (True, x), st') \<Rightarrow>
         (case select lib (\<lambda>_. ()) st' of
            (Inr _, st'') \<Rightarrow> (Inr (True, x), st'')
          | (Inl e, st'') \<Rightarrow> (Inl e, st''\<lparr>st_tables := st_tables st1\<rparr>))
     | (r, st') \<Rightarrow> (r, st'\<lparr>st_tables := st_tables st1\<rparr>)) = (r, st')"
    unfolding in_transaction_def by (rule op_bind_cases) (erule select_cases; simp)+
  then show ?thesis
  proof cases
    case failed
    then show ?thesis using undone by simp
  next
    case begun
    obtain rb st2 where body: "body st1 = (rb, st2)" by fastforce
    note kept = assms(2) [rule_format, OF body]
    show ?thesis
    proof (cases "\<exists>x. rb = Inr (True, x)")
      case True
      then obtain x where x: "rb = Inr (True, x)" ..
      obtain rc st3 where commit: "select lib (\<lambda>_. ()) st2 = (rc, st3)" by fastforce
      then show ?thesis
      proof (cases rule: select_cases)
        case failed
        then show ?thesis using begun kept body x commit by (intro undone) auto
      next
        case finished
        then show ?thesis using begun kept body x commit committed [of x st1 st2] by simp
      qed
    next
      case False
      then have "r = rb" "st' = st2\<lparr>st_tables := st_tables st1\<rparr>"
        using begun(3) body by (auto split: sum.split_asm prod.split_asm bool.split_asm)
      moreover have "\<exists>y. x = (False, y)" if "rb = Inr x" for x using False that by (cases x) auto
      ultimately show ?thesis using begun kept body undone by fastforce
    qed
  qed
qed

text \<open>How an enrollment ends: nothing but codes that are too old changed, or all of it was written.\<close>

lemma enroll_result:
  assumes "enroll lib now c request st = (r, st')"
  defines "h \<equiv> dl_sha256 lib (trim c)" and "d \<equiv> er_device_id request" and "name \<equiv> trim (er_device_name request)"
  obtains (unchanged) "same_devices st st'"
    "enrollment_codes (st_tables st') = enrollment_codes (st_tables st) \<or> enrollment_codes (st_tables st') = live_codes now (st_tables st)"
    "\<And>x. r = Inr x \<Longrightarrow> \<exists>e row. map_of (live_codes now (st_tables st)) h = Some e \<and> en_used_at e \<noteq> None
       \<and> en_enrolled_device_id e = Some d \<and> map_of (device_rows (st_tables st)) d = Some row
       \<and> dr_client_id row = en_client_id e \<and> decode_public_key lib (er_public_key request) = Inr (dr_public_key row)"
  | (written) e key where "map_of (live_codes now (st_tables st)) h = Some e" "en_used_at e = None"
    "\<not> en_expires_at e < i64_of now" "decode_public_key lib (er_public_key request) = Inr key"
    "\<And>row. map_of (device_rows (st_tables st)) d = Some row \<Longrightarrow> dr_public_key row = key"
    "st_tables st' = enrolled_tables now h d name key e ((st_tables st)\<lparr>enrollment_codes := live_codes now (st_tables st)\<rparr>)"
    "st_cache st' = al_put d (enrolled_device d e name key now) (st_cache st)"
    "r = Inr \<lparr>es_device_id = d, es_client_id = en_client_id e, es_server_id = [], es_server_public_key = []\<rparr>"
proof -
  let ?t = "(st_tables st)\<lparr>enrollment_codes := live_codes now (st_tables st)\<rparr>"
  have idle: thesis if "st_tables st' = st_tables st \<or> st_tables st' = ?t" "st_cache st' = st_cache st" "\<And>x. r \<noteq> Inr x"
    using that unchanged by (auto simp: same_devices_def)
  from assms(1) consider (early) "st' = st" "\<And>x. r \<noteq> Inr x"
    | (called) key where "decode_public_key lib (er_public_key request) = Inr key"
      "database_call lib (op_bind (purge_stale_enrollments lib now) (\<lambda>_.
             op_bind (in_transaction lib (enroll_body lib now h d name key)) (\<lambda>(committed, enrollment).
             op_bind (if committed then cache_put d (enrolled_device d enrollment name key now)
                      else op_return ()) (\<lambda>_.
               op_return \<lparr>es_device_id = d, es_client_id = en_client_id enrollment, es_server_id = [], es_server_public_key = []\<rparr>)))) st = (r, st')"
    unfolding enroll_def Let_def h_def d_def name_def
    by (auto elim!: op_bind_cases simp: check_result lift_result split: if_split_asm)
  then show ?thesis
  proof cases
    case early
    show ?thesis by (rule idle) (use early in auto)
  next
    case called
    from called(2) show ?thesis
    proof (cases rule: database_call_cases)
      case failed
      show ?thesis by (rule idle) (use failed in auto)
    next
      case (started st1)
      from started(3) show ?thesis
      proof (cases rule: op_bind_cases)
        case (1 e)
        show ?thesis by (rule idle) (use 1 started in \<open>auto elim!: purge_stale_cases\<close>)
      next
        case (2 u st2)
        have st2: "st_tables st2 = ?t" "st_cache st2 = st_cache st" using 2(1) started by (auto elim!: purge_stale_cases)
        obtain rt st3 where run: "in_transaction lib (enroll_body lib now h d name key) st2 = (rt, st3)" by fastforce
        have kept: "\<forall>sa ra sb. enroll_body lib now h d name key sa = (ra, sb) \<longrightarrow> st_cache sb = st_cache sa"
          using enroll_body_result(1) by blast
        show ?thesis
        proof (cases rule: in_transaction_cases [OF run kept, case_names undone committed])
          case undone
          show ?thesis
          proof (cases rt)
            case (Inl e)
            show ?thesis by (rule idle) (use Inl 2(2) run undone st2 in \<open>auto simp: op_bind_def\<close>)
          next
            case (Inr x)
            then obtain y sa sb where body: "x = (False, y)" "st_tables sa = st_tables st2"
              "enroll_body lib now h d name key sa = (Inr (False, y), sb)" using undone(3) by blast
            have "st' = st3" using 2(2) run Inr body(1) by (simp add: op_bind_def op_return_def)
            with enroll_body_result(4) [OF body(3) refl] undone st2 body(2) called(1) show ?thesis
              by (intro unchanged) (auto simp: same_devices_def)
          qed
        next
          case (committed x sa sb)
          note body = enroll_body_result(2,3) [OF committed(3) refl]
          have "r = Inr \<lparr>es_device_id = d, es_client_id = en_client_id x, es_server_id = [], es_server_public_key = []\<rparr>"
            "st' = st3\<lparr>st_cache := al_put d (enrolled_device d x name key now) (st_cache st3)\<rparr>"
            using 2(2) run committed(1) by (auto simp: op_bind_def op_return_def cache_put_def)
          with body committed st2 called(1) show ?thesis by (intro written) auto
        qed
      qed
    qed
  qed
qed

lemma revoke_result:
  assumes "revoke_device lib now d st = (r, st')"
  obtains (unchanged) "st_tables st' = st_tables st" "st_cache st' = st_cache st" "r \<noteq> Inr True"
  | (written) row where "r = Inr True" "map_of (device_rows (st_tables st)) d = Some row" "dr_revoked_at row = None"
    "st_tables st' = (st_tables st)\<lparr>device_rows := al_put d (row\<lparr>dr_revoked_at := Some (i64_of now)\<rparr>) (device_rows (st_tables st))\<rparr>"
    "st_cache st' = (case map_of (st_cache st) d of
       Some c \<Rightarrow> al_put d (c\<lparr>cd_summary := (cd_summary c)\<lparr>ds_revoked_at_unix_ms := Some now\<rparr>\<rparr>) (st_cache st) | None \<Rightarrow> st_cache st)"
  using assms unfolding revoke_device_def
  by (auto elim!: op_bind_cases sql_cases database_call_cases simp: job_results split: option.split_asm if_split_asm)

lemma delete_result:
  assumes "delete_revoked_device lib d st = (r, st')"
  obtains (unchanged) "st_tables st' = st_tables st" "st_cache st' = st_cache st"
  | (grants) row where "map_of (device_rows (st_tables st)) d = Some row" "dr_revoked_at row \<noteq> None"
    "st_tables st' = delete_grants_of d (st_tables st)" "st_cache st' = st_cache st"
  | (deleted) row where "map_of (device_rows (st_tables st)) d = Some row" "dr_revoked_at row \<noteq> None"
    "st_tables st' = (delete_grants_of d (st_tables st))\<lparr>device_rows := al_del d (device_rows (st_tables st))\<rparr>"
    "st_cache st' = al_del d (st_cache st)"
  using assms unfolding delete_revoked_device_def
  by (auto elim!: op_bind_cases sql_cases select_cases execute_cases database_call_cases
      simp: job_results cache_remove_def split: option.split_asm if_split_asm)

lemma purge_result:
  assumes "purge_revoked_devices lib st = (r, st')"
  defines "gone \<equiv> (st_tables st)\<lparr>route_grants := filter (\<lambda>((d, _, _), _). d \<notin> set (revoked_ids (st_tables st))) (route_grants (st_tables st))\<rparr>"
  obtains (unchanged) "st_tables st' = st_tables st" "st_cache st' = st_cache st"
  | (grants) "st_tables st' = gone" "st_cache st' = st_cache st"
  | (deleted) "st_tables st' = gone\<lparr>device_rows := filter (\<lambda>(_, row). dr_revoked_at row = None) (device_rows (st_tables st))\<rparr>"
    "st_cache st' = foldl (\<lambda>c i. al_del i c) (st_cache st) (revoked_ids (st_tables st))"
  using assms(1) unfolding purge_revoked_devices_def gone_def
  by (auto elim!: op_bind_cases sql_cases select_cases execute_cases database_call_cases
      simp: job_results cache_remove_def split: if_split_asm)

text \<open>Only the time a device was last seen changed.\<close>

definition forget_seen :: "CachedDevice \<Rightarrow> string \<times> DeviceSummary" where
  "forget_seen c = (cd_public_key c, (cd_summary c)\<lparr>ds_last_seen_at_unix_ms := None\<rparr>)"

definition cache_view :: "(string \<times> CachedDevice) list \<Rightarrow> string \<Rightarrow> (string \<times> DeviceSummary) option" where
  "cache_view cache d = map_option forget_seen (map_of cache d)"

definition row_view :: "(string \<times> device_row) list \<Rightarrow> string \<Rightarrow> device_row option" where
  "row_view rows d = map_option (\<lambda>row. row\<lparr>dr_last_seen_at := None\<rparr>) (map_of rows d)"

definition seen_only :: "device_store \<Rightarrow> device_store \<Rightarrow> bool" where
  "seen_only st st' \<longleftrightarrow> enrollment_codes (st_tables st') = enrollment_codes (st_tables st)
     \<and> route_grants (st_tables st') = route_grants (st_tables st)
     \<and> row_view (device_rows (st_tables st')) = row_view (device_rows (st_tables st))
     \<and> (distinct (map fst (device_rows (st_tables st))) \<longrightarrow> distinct (map fst (device_rows (st_tables st'))))
     \<and> cache_view (st_cache st') = cache_view (st_cache st)"

lemma seen_only_refl [simp]: "seen_only st st" by (simp add: seen_only_def)

lemma record_seen_result: "record_last_seen lib d now st = (r, st') \<Longrightarrow> seen_only st st'"
  unfolding record_last_seen_def Let_def
  by (auto elim!: op_bind_cases execute_cases simp: job_results op_try_def seen_only_def cache_view_def row_view_def
      forget_seen_def fun_eq_iff split: option.split_asm if_split_asm prod.split_asm)

lemma live_device_result: "live_device found st = (r, st') \<longleftrightarrow> st' = st \<and>
   r = (case found of None \<Rightarrow> Inl UnknownDevice
        | Some c \<Rightarrow> if ds_revoked_at_unix_ms (cd_summary c) \<noteq> None then Inl RevokedDevice else Inr c)"
  by (auto simp: live_device_def job_results split: option.splits)

lemma verify_result:
  assumes "verify_cached lib now seen nonce expires_at proof st = (r, st')"
  shows "seen_only st st'"
    "r = Inr u \<Longrightarrow> now \<le> expires_at \<and> (\<exists>c. map_of (st_cache st) (dp_device_id proof) = Some c
      \<and> ds_revoked_at_unix_ms (cd_summary c) = None \<and> ds_client_id (cd_summary c) = ch_client_id (dp_hello proof)
      \<and> (case ch_service (dp_hello proof) of Mcp \<Rightarrow> ds_allow_mcp (cd_summary c) | Actions \<Rightarrow> ds_allow_actions (cd_summary c))
      \<and> check_signature lib (cd_public_key c) (auth_signing_payload nonce proof) (dp_signature proof) = Inr ())"
  using assms unfolding verify_cached_def
  by (auto elim!: op_bind_cases dest!: record_seen_result simp: job_results live_device_result lift_result
      split: option.split_asm if_split_asm)

end
