(* ===== verification/Device_Access.thy ===== *)
theory Device_Access
  imports Device_Effects
begin

text \<open>
  The requests the device registry serves and the states they reach, the invariant that keeps the
  cache in agreement with the tables whatever statement fails, and who has access in a state.
\<close>

section \<open>Requests\<close>

datatype request =
  CreateCode nat string string AllowedServices "nat option"
| Enroll nat string EnrollmentRequest
| Revoke nat string
| DeleteRevoked string
| PurgeRevoked
| Verify nat nat string nat DeviceAuthProof
| VerifySession nat nat string nat DeviceSessionAuthProof
| VerifySplit nat nat string nat SplitSessionAuthProof
| RouteAllowed string string TunnelService
| Restart

fun serve :: "device_lib \<Rightarrow> request \<Rightarrow> device_store \<Rightarrow> device_store" where
  "serve lib (CreateCode now c client_id services ttl) st = snd (create_enrollment lib now c client_id services ttl st)"
| "serve lib (Enroll now c request) st = snd (enroll lib now c request st)"
| "serve lib (Revoke now d) st = snd (revoke_device lib now d st)"
| "serve lib (DeleteRevoked d) st = snd (delete_revoked_device lib d st)"
| "serve lib PurgeRevoked st = snd (purge_revoked_devices lib st)"
| "serve lib (Verify now seen nonce expires proof) st = snd (verify_cached lib now seen nonce expires proof st)"
| "serve lib (VerifySession now seen nonce expires proof) st = snd (verify_device_session_cached lib now seen nonce expires proof st)"
| "serve lib (VerifySplit now seen nonce expires proof) st = snd (verify_split_session_cached lib now seen nonce expires proof st)"
| "serve lib (RouteAllowed d c service) st = snd (route_allowed lib d c service st)"
| "serve lib Restart st = snd (from_writer lib st)"

definition new_store :: device_store where
  "new_store = \<lparr>st_tables = \<lparr>enrollment_codes = [], device_rows = [], route_grants = []\<rparr>, st_cache = [], st_statements = 0\<rparr>"

text \<open>Times are \<open>u64\<close> values.\<close>

fun request_ok :: "request \<Rightarrow> bool" where
  "request_ok (Enroll now _ _) \<longleftrightarrow> now \<le> u64_max"
| "request_ok (Revoke now _) \<longleftrightarrow> now \<le> u64_max"
| "request_ok _ \<longleftrightarrow> True"

text \<open>The states a registry can reach.\<close>

inductive reached :: "device_lib \<Rightarrow> device_store \<Rightarrow> bool" for lib where
  start: "reached lib new_store"
| served: "reached lib st \<Longrightarrow> request_ok q \<Longrightarrow> reached lib (serve lib q st)"

definition serve_all :: "device_lib \<Rightarrow> request list \<Rightarrow> device_store \<Rightarrow> device_store" where
  "serve_all lib requests st = foldl (\<lambda>st q. serve lib q st) st requests"

lemma reached_serve_all: "reached lib st \<Longrightarrow> list_all request_ok requests \<Longrightarrow> reached lib (serve_all lib requests st)"
  by (induction requests arbitrary: st) (simp_all add: serve_all_def served)

section \<open>The invariant\<close>

definition routes_of :: "device_tables \<Rightarrow> string \<Rightarrow> (string \<times> string) set" where
  "routes_of t d = {(c, s). (d, c, s) \<in> dom (map_of (route_grants t))}"

definition row_routes :: "string \<Rightarrow> int \<Rightarrow> int \<Rightarrow> (string \<times> string) set" where
  "row_routes c allow_mcp allow_actions =
     (if allow_mcp \<noteq> 0 then {(c, ''mcp'')} else {}) \<union> (if allow_actions \<noteq> 0 then {(c, ''actions'')} else {})"

text \<open>The rows without the times at which the devices were seen; the routes of each device.\<close>

fun device_ok :: "device_row option \<Rightarrow> (string \<times> string) set \<Rightarrow> bool" where
  "device_ok None routes \<longleftrightarrow> routes = {}"
| "device_ok (Some row) routes \<longleftrightarrow> length (dr_public_key row) = 32 \<and> (dr_revoked_at row = None \<longrightarrow>
     row_routes (dr_client_id row) (dr_allow_mcp row) (dr_allow_actions row) \<subseteq> routes)"

definition rows_ok :: "(string \<Rightarrow> device_row option) \<Rightarrow> (string \<Rightarrow> (string \<times> string) set) \<Rightarrow> bool" where
  "rows_ok rows routes \<longleftrightarrow> (\<forall>d. device_ok (rows d) (routes d))"

definition loaded_view :: "(string \<Rightarrow> device_row option) \<Rightarrow> string \<Rightarrow> (string \<times> DeviceSummary) option" where
  "loaded_view rows d = map_option (\<lambda>row. forget_seen (loaded_device d row)) (rows d)"

definition rows_of :: "device_store \<Rightarrow> string \<Rightarrow> device_row option" where
  "rows_of st = row_view (device_rows (st_tables st))"

definition registry_inv :: "device_store \<Rightarrow> bool" where
  "registry_inv st \<longleftrightarrow> distinct (map fst (device_rows (st_tables st)))
     \<and> distinct (map fst (enrollment_codes (st_tables st)))
     \<and> rows_ok (rows_of st) (routes_of (st_tables st)) \<and> cache_view (st_cache st) = loaded_view (rows_of st)"

lemma forget_loaded: "forget_seen (loaded_device d row) = (dr_public_key row,
   \<lparr>ds_device_id = d, ds_client_id = dr_client_id row, ds_device_name = dr_device_name row,
    ds_allow_mcp = (dr_allow_mcp row \<noteq> 0), ds_allow_actions = (dr_allow_actions row \<noteq> 0),
    ds_created_at_unix_ms = u64_of (dr_created_at row), ds_last_seen_at_unix_ms = None,
    ds_revoked_at_unix_ms = map_option u64_of (dr_revoked_at row)\<rparr>)"
  by (simp add: forget_seen_def loaded_device_def)

lemma row_view_simps [simp]:
  "row_view (al_put d row rows) = (row_view rows)(d \<mapsto> row\<lparr>dr_last_seen_at := None\<rparr>)"
  "row_view (al_del d rows) = (row_view rows)(d := None)"
  by (auto simp: row_view_def fun_eq_iff)

lemma cache_view_simps [simp]:
  "cache_view (al_put d c cache) = (cache_view cache)(d \<mapsto> forget_seen c)"
  "cache_view (al_del d cache) = (cache_view cache)(d := None)"
  by (auto simp: cache_view_def fun_eq_iff)

lemma loaded_view_simps [simp]:
  "loaded_view (rows(d \<mapsto> row)) = (loaded_view rows)(d \<mapsto> forget_seen (loaded_device d row))"
  "loaded_view (rows(d := None)) = (loaded_view rows)(d := None)"
  by (auto simp: loaded_view_def fun_eq_iff)

text \<open>A device in the cache is a row of the table, but for when it was seen.\<close>

lemma cached_row:
  assumes "registry_inv st" "map_of (st_cache st) d = Some c"
  obtains row where "rows_of st d = Some row" "cd_public_key c = dr_public_key row"
    "ds_client_id (cd_summary c) = dr_client_id row" "ds_allow_mcp (cd_summary c) = (dr_allow_mcp row \<noteq> 0)"
    "ds_allow_actions (cd_summary c) = (dr_allow_actions row \<noteq> 0)"
    "ds_revoked_at_unix_ms (cd_summary c) = map_option u64_of (dr_revoked_at row)"
proof -
  have "cache_view (st_cache st) d = loaded_view (rows_of st) d" using assms(1) by (simp add: registry_inv_def)
  then have view: "Some (forget_seen c) = loaded_view (rows_of st) d" using assms(2) by (simp add: cache_view_def)
  then obtain row where row: "rows_of st d = Some row" by (cases "rows_of st d") (simp_all add: loaded_view_def)
  with view have "forget_seen c = forget_seen (loaded_device d row)" by (simp add: loaded_view_def)
  then have same: "cd_public_key c = dr_public_key row" "(cd_summary c)\<lparr>ds_last_seen_at_unix_ms := None\<rparr> =
   \<lparr>ds_device_id = d, ds_client_id = dr_client_id row, ds_device_name = dr_device_name row,
    ds_allow_mcp = (dr_allow_mcp row \<noteq> 0), ds_allow_actions = (dr_allow_actions row \<noteq> 0),
    ds_created_at_unix_ms = u64_of (dr_created_at row), ds_last_seen_at_unix_ms = None,
    ds_revoked_at_unix_ms = map_option u64_of (dr_revoked_at row)\<rparr>"
    unfolding forget_loaded by (simp_all add: forget_seen_def)
  then show ?thesis by (intro that [OF row same(1)]) (cases "cd_summary c"; simp)+
qed

lemma cached_iff_row:
  assumes "registry_inv st"
  shows "map_of (st_cache st) d = None \<longleftrightarrow> rows_of st d = None"
proof -
  have "cache_view (st_cache st) d = loaded_view (rows_of st) d" using assms by (simp add: registry_inv_def)
  then show ?thesis by (cases "rows_of st d"; cases "map_of (st_cache st) d") (simp_all add: cache_view_def loaded_view_def)
qed

section \<open>The invariant is kept\<close>

lemma same_devices_inv:
  assumes "registry_inv st" "same_devices st st'" "distinct (map fst (enrollment_codes (st_tables st')))"
  shows "registry_inv st'"
proof -
  have "rows_of st' = rows_of st" "routes_of (st_tables st') = routes_of (st_tables st)"
    using assms(2) by (simp_all add: same_devices_def rows_of_def routes_of_def fun_eq_iff)
  then show ?thesis using assms by (simp add: registry_inv_def same_devices_def)
qed

lemma seen_only_same:
  assumes "seen_only st st'"
  shows "rows_of st' = rows_of st" "routes_of (st_tables st') = routes_of (st_tables st)"
  using assms by (simp_all add: seen_only_def rows_of_def routes_of_def fun_eq_iff)

lemma seen_only_inv:
  assumes "registry_inv st" "seen_only st st'"
  shows "registry_inv st'"
  using assms seen_only_same [OF assms(2)] by (simp add: registry_inv_def seen_only_def)

lemma rows_okD: "rows_ok rows routes \<Longrightarrow> device_ok (rows d) (routes d)"
  by (simp add: rows_ok_def)

lemma rows_ok_upd:
  assumes "rows_ok rows routes" "\<And>d'. d' \<noteq> d \<Longrightarrow> routes' d' = routes d'" "device_ok r (routes' d)"
  shows "rows_ok (rows(d := r)) routes'"
  using assms unfolding rows_ok_def by simp

section \<open>Routes\<close>

lemma or_ignore_dom [simp]: "dom (map_of (or_ignore k v kvs)) = insert k (dom (map_of kvs))"
  by (auto simp: or_ignore_def)

lemma granted_routes:
  "{(c, s). (d', c, s) \<in> dom (map_of (granted d e now gs))} = {(c, s). (d', c, s) \<in> dom (map_of gs)}
     \<union> (if d' = d then row_routes (en_client_id e) (en_allow_mcp e) (en_allow_actions e) else {})"
  unfolding granted_def Let_def row_routes_def by (simp add: if_distrib [of map_of] if_distrib [of dom]) auto

lemma dom_filter_key: "dom (map_of (filter (\<lambda>((d, _, _), _). P d) kvs)) = {k \<in> dom (map_of kvs). P (fst k)}"
  by (auto simp: dom_map_of_conv_image_fst image_iff)

lemma kept_routes:
  "route_grants t' = filter (\<lambda>((d, _, _), _). P d) (route_grants t) \<Longrightarrow>
   routes_of t' = (\<lambda>d. if P d then routes_of t d else {})"
  by (auto simp: routes_of_def fun_eq_iff dom_filter_key)

lemma deleted_routes: "routes_of (delete_grants_of d t) = (routes_of t)(d := {})"
  using kept_routes [of "delete_grants_of d t" "\<lambda>d'. d' \<noteq> d" t] by (auto simp: delete_grants_of_def fun_eq_iff)

section \<open>Every request keeps the invariant\<close>

definition access_of ::
    "(string \<Rightarrow> device_row option) \<Rightarrow> (string \<Rightarrow> (string \<times> string) set) \<Rightarrow> string
     \<Rightarrow> (string \<times> (string \<times> string) set) option" where
  "access_of rows routes d = (case rows d of
     Some row \<Rightarrow> if dr_revoked_at row = None then Some (dr_public_key row, routes d) else None
   | None \<Rightarrow> None)"

definition access :: "device_store \<Rightarrow> string \<Rightarrow> (string \<times> (string \<times> string) set) option" where
  "access st = access_of (rows_of st) (routes_of (st_tables st))"

lemma access_same: "rows_of st' = rows_of st \<Longrightarrow> routes_of (st_tables st') = routes_of (st_tables st) \<Longrightarrow> access st' = access st"
  by (simp add: access_def)

lemma same_devices_access: "same_devices st st' \<Longrightarrow> access st' = access st"
  by (rule access_same) (simp_all add: same_devices_def rows_of_def routes_of_def fun_eq_iff)

lemma same_state_inv: "registry_inv st \<Longrightarrow> st_tables st' = st_tables st \<Longrightarrow> st_cache st' = st_cache st \<Longrightarrow> registry_inv st'"
  by (simp add: registry_inv_def rows_of_def)

lemma distinct_live: "distinct (map fst (enrollment_codes t)) \<Longrightarrow> distinct (map fst (live_codes now t))"
  by (simp add: live_codes_def distinct_al_filter)

lemma insert_enrollment_result:
  assumes "insert_enrollment lib h row st = (r, st')"
  shows "st_cache st' = st_cache st \<and> device_rows (st_tables st') = device_rows (st_tables st)
    \<and> route_grants (st_tables st') = route_grants (st_tables st)
    \<and> enrollment_codes (st_tables st') \<in> {enrollment_codes (st_tables st), al_put h row (enrollment_codes (st_tables st))}"
  using assms unfolding insert_enrollment_def
  by (auto elim!: op_bind_cases sql_cases simp: job_results split: if_split_asm)

lemma create_result:
  assumes "create_enrollment lib now c client_id services ttl st = (r, st')"
  obtains row where "same_devices st st'" "en_used_at row = None"
    "enrollment_codes (st_tables st') \<in> {enrollment_codes (st_tables st), live_codes now (st_tables st),
        al_put (dl_sha256 lib c) row (live_codes now (st_tables st))}"
proof -
  let ?row = "\<lparr>en_client_id = client_id, en_allow_mcp = fst (flags services), en_allow_actions = snd (flags services),
     en_created_at = i64_of now, en_expires_at = i64_of (sat_add now (sat_mul
       (clamp (case ttl of Some t \<Rightarrow> t | None \<Rightarrow> DEFAULT_ENROLLMENT_TTL_SECONDS) 30 86400) 1000)),
     en_used_at = None, en_enrolled_device_id = None\<rparr>"
  have "same_devices st st' \<and> enrollment_codes (st_tables st') \<in> {enrollment_codes (st_tables st),
     live_codes now (st_tables st), al_put (dl_sha256 lib c) ?row (live_codes now (st_tables st))}"
    using assms unfolding create_enrollment_def Let_def same_devices_def
    by (auto elim!: op_bind_cases database_call_cases purge_stale_cases dest!: insert_enrollment_result
        simp: job_results split: if_split_asm)
  then show ?thesis by (intro that [of ?row]) auto
qed

lemma create_inv:
  assumes "registry_inv st" "create_enrollment lib now c client_id services ttl st = (r, st')"
  shows "registry_inv st' \<and> access st' = access st"
proof -
  obtain row where same: "same_devices st st'" and codes: "enrollment_codes (st_tables st') \<in> {enrollment_codes (st_tables st),
      live_codes now (st_tables st), al_put (dl_sha256 lib c) row (live_codes now (st_tables st))}"
    by (rule create_result [OF assms(2)])
  have "distinct (map fst (enrollment_codes (st_tables st)))" using assms(1) by (simp add: registry_inv_def)
  then have "distinct (map fst (enrollment_codes (st_tables st')))" using codes distinct_live by auto
  then show ?thesis using same_devices_inv [OF assms(1) same] same_devices_access [OF same] by simp
qed

lemma decoded_key: "decode_public_key lib value = Inr key \<Longrightarrow> length key = 32 \<and> dl_key_ok lib key"
  by (auto simp: decode_public_key_def split: option.split_asm if_split_asm)

lemma forget_enrolled: "now \<le> u64_max \<Longrightarrow> forget_seen (enrolled_device d e name key now)
    = forget_seen (loaded_device d (enrolled_row e name key now))"
  by (simp add: forget_seen_def loaded_device_def enrolled_device_def enrolled_row_def)

lemma enrolled_row_unseen: "(enrolled_row e name key now)\<lparr>dr_last_seen_at := None\<rparr> = enrolled_row e name key now"
  by (simp add: enrolled_row_def)

text \<open>What an enrollment that is written does to the rows and routes.\<close>

lemma enrolled_view:
  assumes "st_tables st' = enrolled_tables now h d name key e ((st_tables st)\<lparr>enrollment_codes := codes\<rparr>)"
  shows "rows_of st' = (rows_of st)(d \<mapsto> enrolled_row e name key now)"
    "routes_of (st_tables st') = (routes_of (st_tables st))
       (d := (if was_revoked (st_tables st) d then {} else routes_of (st_tables st) d)
             \<union> row_routes (en_client_id e) (en_allow_mcp e) (en_allow_actions e))"
proof -
  let ?t = "(st_tables st)\<lparr>enrollment_codes := codes\<rparr>"
  have same: "was_revoked ?t d = was_revoked (st_tables st) d" "routes_of ?t = routes_of (st_tables st)"
    by (simp_all add: was_revoked_def routes_of_def fun_eq_iff)
  show "rows_of st' = (rows_of st)(d \<mapsto> enrolled_row e name key now)"
    using assms by (simp add: rows_of_def enrolled_tables_def enrolled_row_unseen)
  have "routes_of (st_tables st') d' = routes_of (if was_revoked ?t d then delete_grants_of d ?t else ?t) d'
      \<union> (if d' = d then row_routes (en_client_id e) (en_allow_mcp e) (en_allow_actions e) else {})" for d'
    using assms granted_routes [of d' d e now] by (simp add: routes_of_def enrolled_tables_def)
  then show "routes_of (st_tables st') = (routes_of (st_tables st))
       (d := (if was_revoked (st_tables st) d then {} else routes_of (st_tables st) d)
             \<union> row_routes (en_client_id e) (en_allow_mcp e) (en_allow_actions e))"
    unfolding same by (auto simp: fun_eq_iff deleted_routes same)
qed

lemma enroll_inv:
  assumes "registry_inv st" "enroll lib now c request st = (r, st')" "now \<le> u64_max"
  shows "registry_inv st'"
proof -
  have distinct: "distinct (map fst (enrollment_codes (st_tables st)))" using assms(1) by (simp add: registry_inv_def)
  from assms(2) show ?thesis
  proof (cases rule: enroll_result)
    case unchanged
    then show ?thesis using same_devices_inv [OF assms(1)] distinct distinct_live by auto
  next
    case (written e key)
    note view = enrolled_view [OF written(6)]
    have "rows_ok (rows_of st') (routes_of (st_tables st'))"
      unfolding view(1)
    proof (rule rows_ok_upd)
      show "rows_ok (rows_of st) (routes_of (st_tables st))" using assms(1) by (simp add: registry_inv_def)
      show "device_ok (Some (enrolled_row e (trim (er_device_name request)) key now)) (routes_of (st_tables st') (er_device_id request))"
        using decoded_key [OF written(4)] by (simp add: view(2) enrolled_row_def)
    qed (simp add: view(2))
    moreover have "cache_view (st_cache st') = loaded_view (rows_of st')"
      unfolding view(1) written(7) using assms(1,3) by (simp add: forget_enrolled registry_inv_def)
    moreover have "distinct (map fst (device_rows (st_tables st')))" "distinct (map fst (enrollment_codes (st_tables st')))"
      using assms(1) distinct distinct_live written(6) by (simp_all add: enrolled_tables_def registry_inv_def)
    ultimately show ?thesis by (simp add: registry_inv_def)
  qed
qed

lemma raw_row: "map_of (device_rows (st_tables st)) d = Some row \<Longrightarrow> rows_of st d = Some (row\<lparr>dr_last_seen_at := None\<rparr>)"
  by (simp add: rows_of_def row_view_def)

lemma revoke_inv:
  assumes "registry_inv st" "revoke_device lib now d st = (r, st')" "now \<le> u64_max"
  shows "registry_inv st' \<and> access st' = (if r = Inr True then (access st)(d := None) else access st)"
  using assms(2)
proof (cases rule: revoke_result)
  case unchanged
  then show ?thesis using same_state_inv [OF assms(1)] by (simp add: access_def rows_of_def)
next
  case (written row)
  let ?row = "row\<lparr>dr_revoked_at := Some (i64_of now), dr_last_seen_at := None\<rparr>"
  have "map_of (st_cache st) d \<noteq> None" using cached_iff_row [OF assms(1)] raw_row [OF written(2)] by simp
  then obtain c where c: "map_of (st_cache st) d = Some c" by blast
  have rows: "rows_of st' = (rows_of st)(d \<mapsto> ?row)" using written(4) by (simp add: rows_of_def)
  have routes: "routes_of (st_tables st') = routes_of (st_tables st)" using written(4) by (simp add: routes_of_def fun_eq_iff)
  have "cache_view (st_cache st) d = loaded_view (rows_of st) d" using assms(1) by (simp add: registry_inv_def)
  then have "forget_seen c = forget_seen (loaded_device d (row\<lparr>dr_last_seen_at := None\<rparr>))"
    using c raw_row [OF written(2)] by (simp add: cache_view_def loaded_view_def)
  then have "forget_seen (c\<lparr>cd_summary := (cd_summary c)\<lparr>ds_revoked_at_unix_ms := Some now\<rparr>\<rparr>) = forget_seen (loaded_device d ?row)"
    using assms(3) unfolding forget_loaded by (cases "cd_summary c") (simp add: forget_seen_def)
  then have "cache_view (st_cache st') = loaded_view (rows_of st')"
    using assms(1) c written(5) by (simp add: rows registry_inv_def)
  moreover have "rows_ok (rows_of st') (routes_of (st_tables st'))"
    unfolding rows
  proof (rule rows_ok_upd)
    have "device_ok (rows_of st d) (routes_of (st_tables st) d)" using assms(1) rows_okD by (simp add: registry_inv_def)
    then show "device_ok (Some ?row) (routes_of (st_tables st') d)" using raw_row [OF written(2)] by simp
  qed (use assms(1) routes in \<open>simp_all add: registry_inv_def\<close>)
  ultimately have "registry_inv st'" using assms(1) written(4) by (simp add: registry_inv_def)
  then show ?thesis using written(1) by (auto simp: access_def access_of_def rows routes fun_eq_iff)
qed

lemma delete_inv:
  assumes "registry_inv st" "delete_revoked_device lib d st = (r, st')"
  shows "registry_inv st' \<and> access st' = access st"
  using assms(2)
proof (cases rule: delete_result)
  case unchanged
  then show ?thesis using same_state_inv [OF assms(1)] by (simp add: access_def rows_of_def)
next
  case (grants row)
  have rows: "rows_of st' = rows_of st" using grants(3) by (simp add: rows_of_def)
  have routes: "routes_of (st_tables st') = (routes_of (st_tables st))(d := {})" using grants(3) deleted_routes by simp
  have ok: "rows_ok (rows_of st) (routes_of (st_tables st))" using assms(1) by (simp add: registry_inv_def)
  have "rows_ok ((rows_of st)(d := rows_of st d)) (routes_of (st_tables st'))"
    using ok rows_okD [OF ok, of d] raw_row [OF grants(1)] grants(2) by (intro rows_ok_upd) (auto simp: routes)
  then have "registry_inv st'" using assms(1) rows grants(3,4) by (simp add: registry_inv_def)
  moreover have "access st' = access st"
    using raw_row [OF grants(1)] grants(2) by (auto simp: access_def access_of_def rows routes fun_eq_iff split: option.split)
  ultimately show ?thesis by simp
next
  case (deleted row)
  have rows: "rows_of st' = (rows_of st)(d := None)" using deleted(3) by (simp add: rows_of_def)
  have routes: "routes_of (st_tables st') = (routes_of (st_tables st))(d := {})"
    using deleted(3) deleted_routes [of d "st_tables st"] by (simp add: routes_of_def fun_eq_iff)
  have "rows_ok (rows_of st') (routes_of (st_tables st'))"
    unfolding rows using assms(1) by (intro rows_ok_upd) (auto simp: routes registry_inv_def)
  then have "registry_inv st'" using assms(1) deleted(3,4) by (simp add: registry_inv_def rows)
  moreover have "access st' = access st"
    using raw_row [OF deleted(1)] deleted(2) by (auto simp: access_def access_of_def rows routes fun_eq_iff split: option.split)
  ultimately show ?thesis by simp
qed

lemma revoked_ids_iff:
  assumes "distinct (map fst (device_rows (st_tables st)))"
  shows "d \<in> set (revoked_ids (st_tables st)) \<longleftrightarrow> (\<exists>row. rows_of st d = Some row \<and> dr_revoked_at row \<noteq> None)"
proof -
  have "d \<in> set (revoked_ids (st_tables st)) \<longleftrightarrow>
      (\<exists>row. map_of (device_rows (st_tables st)) d = Some row \<and> dr_revoked_at row \<noteq> None)"
    using assms by (auto simp: revoked_ids_def image_iff map_of_eq_Some_iff split: prod.splits)
  then show ?thesis by (auto simp: rows_of_def row_view_def)
qed

lemma cache_removed: "cache_view (foldl (\<lambda>c i. al_del i c) cache ids) d = (if d \<in> set ids then None else cache_view cache d)"
  by (induction ids arbitrary: cache) auto

lemma map_of_filter_value: "distinct (map fst kvs) \<Longrightarrow>
   map_of (filter (\<lambda>(_, v). P v) kvs) k = (case map_of kvs k of Some v \<Rightarrow> if P v then Some v else None | None \<Rightarrow> None)"
  by (induction kvs) (auto simp: map_of_eq_None_iff image_iff split: option.split)

lemma purge_inv:
  assumes "registry_inv st" "purge_revoked_devices lib st = (r, st')"
  shows "registry_inv st' \<and> access st' = access st"
proof -
  have distinct: "distinct (map fst (device_rows (st_tables st)))" and ok: "rows_ok (rows_of st) (routes_of (st_tables st))"
    and view: "cache_view (st_cache st) = loaded_view (rows_of st)" using assms(1) by (simp_all add: registry_inv_def)
  note revoked = revoked_ids_iff [OF distinct]
  let ?gone = "\<lambda>d. d \<in> set (revoked_ids (st_tables st))"
  from assms(2) show ?thesis
  proof (cases rule: purge_result)
    case unchanged
    then show ?thesis using same_state_inv [OF assms(1)] by (simp add: access_def rows_of_def)
  next
    case grants
    have rows: "rows_of st' = rows_of st" using grants by (simp add: rows_of_def)
    have routes: "routes_of (st_tables st') = (\<lambda>d. if \<not> ?gone d then routes_of (st_tables st) d else {})"
      using grants by (intro kept_routes) simp
    have "device_ok (rows_of st d) (routes_of (st_tables st') d)" for d
      using rows_okD [OF ok, of d] revoked [of d] by (cases "rows_of st d") (auto simp: routes)
    then have "registry_inv st'" using assms(1) grants by (simp add: registry_inv_def rows rows_ok_def)
    moreover have "access st' = access st"
      using revoked by (auto simp: access_def access_of_def rows routes fun_eq_iff split: option.split)
    ultimately show ?thesis by simp
  next
    case deleted
    have rows: "rows_of st' = (\<lambda>d. if ?gone d then None else rows_of st d)"
    proof
      fix d show "rows_of st' d = (if ?gone d then None else rows_of st d)"
        using deleted(1) revoked [of d] distinct
        by (cases "map_of (device_rows (st_tables st)) d") (auto simp: rows_of_def row_view_def map_of_filter_value)
    qed
    have routes: "routes_of (st_tables st') = (\<lambda>d. if \<not> ?gone d then routes_of (st_tables st) d else {})"
      using deleted by (intro kept_routes) simp
    have "device_ok (rows_of st' d) (routes_of (st_tables st') d)" for d
      using rows_okD [OF ok, of d] by (simp add: rows routes)
    moreover have "cache_view (st_cache st') = loaded_view (rows_of st')"
      using deleted(2) by (simp add: fun_eq_iff cache_removed view rows loaded_view_def)
    moreover have "distinct (map fst (device_rows (st_tables st')))" using deleted(1) distinct by (simp add: distinct_al_filter)
    ultimately have "registry_inv st'" using assms(1) deleted by (simp add: registry_inv_def rows_ok_def)
    moreover have "access st' = access st"
      using revoked by (auto simp: access_def access_of_def rows routes fun_eq_iff split: option.split)
    ultimately show ?thesis by simp
  qed
qed

lemma seen_inv: "registry_inv st \<Longrightarrow> seen_only st st' \<Longrightarrow> registry_inv st' \<and> access st' = access st"
  using seen_only_inv access_same seen_only_same by blast

lemma route_allowed_result:
  assumes "route_allowed lib d c service st = (r, st')"
  shows "st_tables st' = st_tables st \<and> st_cache st' = st_cache st
    \<and> (\<forall>b. r = Inr b \<longrightarrow> (b \<longleftrightarrow> valid_client_id d \<and> valid_client_id c \<and> (\<exists>x. map_of (st_cache st) d = Some x
         \<and> ds_revoked_at_unix_ms (cd_summary x) = None) \<and> (c, service_as_str service) \<in> routes_of (st_tables st) d))"
  using assms unfolding route_allowed_def routes_of_def
  by (auto elim!: op_bind_cases database_call_cases select_cases simp: job_results split: if_split_asm option.split_asm)

lemma verify_session_result:
  assumes "verify_device_session_cached lib now seen nonce expires_at proof st = (r, st')"
  shows "seen_only st st'"
    "r = Inr u \<Longrightarrow> now \<le> expires_at \<and> (\<exists>c. map_of (st_cache st) (dsp_device_id proof) = Some c
      \<and> ds_revoked_at_unix_ms (cd_summary c) = None
      \<and> check_signature lib (cd_public_key c) (device_session_auth_signing_payload nonce proof) (dsp_signature proof) = Inr ())"
  using assms unfolding verify_device_session_cached_def
  by (auto elim!: op_bind_cases dest!: record_seen_result simp: job_results live_device_result lift_result
      split: option.split_asm if_split_asm)

lemma verify_split_result:
  assumes "verify_split_session_cached lib now seen nonce expires_at proof st = (r, st')"
  shows "seen_only st st'"
    "r = Inr u \<Longrightarrow> now \<le> expires_at \<and> (\<exists>c. map_of (st_cache st) (ssp_device_id proof) = Some c
      \<and> ds_revoked_at_unix_ms (cd_summary c) = None
      \<and> check_signature lib (cd_public_key c) (split_session_auth_signing_payload nonce proof) (ssp_signature proof) = Inr ())"
  using assms unfolding verify_split_session_cached_def
  by (auto elim!: op_bind_cases dest!: record_seen_result simp: job_results live_device_result lift_result
      split: option.split_asm if_split_asm)

text \<open>A restart: grants that a device has by its row are inserted, which no live device lacks.\<close>

definition row_route :: "string \<Rightarrow> (device_row \<Rightarrow> int) \<Rightarrow> device_row option \<Rightarrow> (string \<times> string) set" where
  "row_route service allowed r = (case r of
     Some row \<Rightarrow> if allowed row \<noteq> 0 then {(dr_client_id row, service)} else {} | None \<Rightarrow> {})"

lemma regranted_dom:
  "k \<in> dom (map_of (foldl (\<lambda>gs (d, row). if allowed row \<noteq> 0 then or_ignore (d, dr_client_id row, service) (dr_created_at row) gs else gs) gs rows))
    \<longleftrightarrow> k \<in> dom (map_of gs) \<or> (\<exists>(d, row) \<in> set rows. allowed row \<noteq> 0 \<and> k = (d, dr_client_id row, service))"
proof (induction rows arbitrary: gs)
  case (Cons x rows)
  obtain d row where x: "x = (d, row)" by (cases x)
  show ?case unfolding x using Cons [of "if allowed row \<noteq> 0 then or_ignore (d, dr_client_id row, service) (dr_created_at row) gs else gs"]
    by (cases "allowed row \<noteq> 0") (simp_all only: foldl.simps prod.case if_True if_False or_ignore_dom insert_iff list.set
        bex_simps simp_thms disj_assoc, blast)
qed simp

lemma regranted_routes:
  assumes "distinct (map fst (device_rows t))"
  shows "routes_of (regrant service allowed t) d = routes_of t d \<union> row_route service allowed (map_of (device_rows t) d)"
proof -
  have rows: "(d, row) \<in> set (device_rows t) \<longleftrightarrow> map_of (device_rows t) d = Some row" for row
    using assms by (simp add: map_of_eq_Some_iff)
  have "(\<exists>(d', row) \<in> set (device_rows t). allowed row \<noteq> 0 \<and> (d, c, s) = (d', dr_client_id row, service))
      \<longleftrightarrow> (\<exists>row. (d, row) \<in> set (device_rows t) \<and> allowed row \<noteq> 0 \<and> c = dr_client_id row \<and> s = service)" for c s
    by auto
  moreover have "(\<exists>row. (d, row) \<in> set (device_rows t) \<and> allowed row \<noteq> 0 \<and> c = dr_client_id row \<and> s = service)
      \<longleftrightarrow> (c, s) \<in> row_route service allowed (map_of (device_rows t) d)" for c s
    unfolding rows by (cases "map_of (device_rows t) d") (auto simp: row_route_def)
  ultimately have "(d, c, s) \<in> dom (map_of (route_grants (regrant service allowed t)))
      \<longleftrightarrow> (d, c, s) \<in> dom (map_of (route_grants t)) \<or> (c, s) \<in> row_route service allowed (map_of (device_rows t) d)" for c s
    using regranted_dom [of "(d, c, s)" allowed service "route_grants t" "device_rows t"] by (simp add: regrant_def)
  then show ?thesis unfolding routes_of_def by (auto simp del: domIff)
qed

lemma regrant_inv:
  assumes "registry_inv st" "st_tables st' = regrant service allowed (st_tables st)" "st_cache st' = st_cache st"
    and "(service, allowed) = (''mcp'', dr_allow_mcp) \<or> (service, allowed) = (''actions'', dr_allow_actions)"
  shows "registry_inv st' \<and> access st' = access st"
proof -
  have ok: "rows_ok (rows_of st) (routes_of (st_tables st))" and distinct: "distinct (map fst (device_rows (st_tables st)))"
    using assms(1) by (simp_all add: registry_inv_def)
  have same: "device_rows (st_tables st') = device_rows (st_tables st)"
    "enrollment_codes (st_tables st') = enrollment_codes (st_tables st)"
    using assms(2) by (simp_all add: regrant_def)
  have rows: "rows_of st' = rows_of st" by (simp add: rows_of_def same)
  have route: "row_route service allowed (map_of (device_rows (st_tables st)) d) = row_route service allowed (rows_of st d)" for d
    using assms(4) by (cases "map_of (device_rows (st_tables st)) d") (auto simp: row_route_def rows_of_def row_view_def)
  have routes: "routes_of (st_tables st') d = routes_of (st_tables st) d \<union> row_route service allowed (rows_of st d)" for d
    using regranted_routes [OF distinct] assms(2) route by simp
  have live: "routes_of (st_tables st') d = routes_of (st_tables st) d" if "rows_of st d = Some row" "dr_revoked_at row = None" for d row
    using rows_okD [OF ok, of d] that assms(4) by (auto simp: routes row_route_def row_routes_def split: if_split_asm)
  have "device_ok (rows_of st d) (routes_of (st_tables st') d)" for d
    using rows_okD [OF ok, of d] by (cases "rows_of st d") (auto simp: routes row_route_def)
  then have "registry_inv st'" using assms(1,3) by (simp add: registry_inv_def rows rows_ok_def same)
  moreover have "access st' = access st"
    using live by (auto simp: access_def access_of_def rows fun_eq_iff split: option.split)
  ultimately show ?thesis by simp
qed

lemma loaded_cache: "cache_view (map (\<lambda>(d, row). (d, loaded_device d row)) rows) = loaded_view (row_view rows)"
proof
  fix d
  have "map_of (map (\<lambda>(d, row). (d, loaded_device d row)) rows) d = map_option (loaded_device d) (map_of rows d)"
    by (induction rows) auto
  then show "cache_view (map (\<lambda>(d, row). (d, loaded_device d row)) rows) d = loaded_view (row_view rows) d"
    by (cases "map_of rows d") (simp_all add: cache_view_def loaded_view_def row_view_def forget_loaded)
qed

lemma restart_inv:
  assumes "registry_inv st" "from_writer lib st = (r, st')"
  shows "registry_inv st' \<and> access st' = access st \<and> cache_view (st_cache st') = cache_view (st_cache st)"
proof -
  have one: "registry_inv st2 \<and> access st2 = access st1 \<and> st_cache st2 = st_cache st1"
    if "execute lib (regrant service allowed) st1 = (x, st2)" "registry_inv st1"
      "(service, allowed) = (''mcp'', dr_allow_mcp) \<or> (service, allowed) = (''actions'', dr_allow_actions)"
    for service allowed st1 st2 and x :: "DeviceAuthError + unit"
    using that(1)
  proof (cases rule: execute_cases)
    case failed
    then show ?thesis using same_state_inv [OF that(2)] by (simp add: access_def rows_of_def)
  qed (use regrant_inv that in auto)
  have schema: "registry_inv st2 \<and> access st2 = access st1 \<and> st_cache st2 = st_cache st1"
    if "initialize_schema lib st1 = (x, st2)" "registry_inv st1" for st1 st2 and x :: "DeviceAuthError + unit"
    using that one unfolding initialize_schema_def by (elim op_bind_cases) metis+
  have load: "st_tables st2 = st_tables st1 \<and> st_cache st2 = st_cache st1
      \<and> (\<forall>devices. x = Inr devices \<longrightarrow> cache_view devices = loaded_view (rows_of st1))"
    if "load_devices lib st1 = (x, st2)" for st1 st2 x
    using that unfolding load_devices_def
    by (auto elim!: op_bind_cases select_cases simp: job_results loaded_cache rows_of_def split: if_split_asm)
  have same: "registry_inv st1 \<and> access st1 = access st0 \<and> st_cache st1 = st_cache st0"
    if "registry_inv st0" "st_tables st1 = st_tables st0" "st_cache st1 = st_cache st0" for st0 st1
    using same_state_inv that by (simp add: access_def rows_of_def)
  have job: "registry_inv st1 \<and> access st1 = access st \<and> st_cache st1 = st_cache st
      \<and> (\<forall>devices. x = Inr devices \<longrightarrow> cache_view devices = loaded_view (rows_of st1))"
    if "database_call lib (op_bind (initialize_schema lib) (\<lambda>_. load_devices lib)) st = (x, st1)" for x st1
    using that
  proof (cases rule: database_call_cases)
    case failed
    then show ?thesis using same [OF assms(1) failed(2,3)] by simp
  next
    case (started st0)
    note start = same [OF assms(1) started(1,2)]
    from started(3) show ?thesis
    proof (cases rule: op_bind_cases)
      case (1 e)
      then show ?thesis using schema [OF 1(1)] start by simp
    next
      case (2 u sb)
      note mid = schema [OF 2(1)] and final = load [OF 2(2)]
      have ready: "registry_inv sb" "access sb = access st" "st_cache sb = st_cache st" using mid start by auto
      have "rows_of st1 = rows_of sb" using final by (simp add: rows_of_def)
      then show ?thesis using same [OF ready(1), of st1] ready final by simp
    qed
  qed
  from assms(2) show ?thesis
    unfolding from_writer_def
  proof (cases rule: op_bind_cases)
    case (1 e)
    then show ?thesis using job by simp
  next
    case (2 devices st1)
    have st': "st' = st1\<lparr>st_cache := devices\<rparr>" using 2(2) by simp
    have "rows_of st' = rows_of st1" "st_tables st' = st_tables st1" by (simp_all add: st' rows_of_def)
    note done_ = job [OF 2(1)]
    have "cache_view devices = cache_view (st_cache st)" using done_ unfolding registry_inv_def by metis
    moreover have "registry_inv st' \<and> access st' = access st"
      using done_ \<open>rows_of st' = rows_of st1\<close> by (simp add: registry_inv_def access_def st')
    ultimately show ?thesis by (simp add: st')
  qed
qed

section \<open>Runs of requests\<close>

lemma serve_inv:
  assumes "registry_inv st" "request_ok q"
  shows "registry_inv (serve lib q st)"
proof (cases q)
  case (CreateCode now c client_id offered ttl)
  then show ?thesis using create_inv [OF assms(1) prod.collapse [symmetric]] by simp
next
  case (Enroll now c request)
  then show ?thesis using enroll_inv [OF assms(1) prod.collapse [symmetric]] assms(2) by simp
next
  case (Revoke now d)
  then show ?thesis using revoke_inv [OF assms(1) prod.collapse [symmetric]] assms(2) by simp
next
  case (DeleteRevoked d)
  then show ?thesis using delete_inv [OF assms(1) prod.collapse [symmetric]] by simp
next
  case PurgeRevoked
  then show ?thesis using purge_inv [OF assms(1) prod.collapse [symmetric]] by simp
next
  case (Verify now seen nonce expires_at p)
  then show ?thesis using seen_inv [OF assms(1) verify_result(1) [OF prod.collapse [symmetric]]] by simp
next
  case (VerifySession now seen nonce expires_at p)
  then show ?thesis using seen_inv [OF assms(1) verify_session_result(1) [OF prod.collapse [symmetric]]] by simp
next
  case (VerifySplit now seen nonce expires_at p)
  then show ?thesis using seen_inv [OF assms(1) verify_split_result(1) [OF prod.collapse [symmetric]]] by simp
next
  case (RouteAllowed d c service)
  then show ?thesis using same_state_inv [OF assms(1)] route_allowed_result [OF prod.collapse [symmetric]] by simp
next
  case Restart
  then show ?thesis using restart_inv [OF assms(1) prod.collapse [symmetric]] by simp
qed

lemma new_store_inv: "registry_inv new_store"
  by (auto simp: registry_inv_def new_store_def rows_ok_def rows_of_def row_view_def routes_of_def cache_view_def loaded_view_def)

lemma reached_inv: "reached lib st \<Longrightarrow> registry_inv st"
  by (induction rule: reached.induct) (simp_all add: new_store_inv serve_inv)

end
