(* ===== verification/Device_Security.thy ===== *)
theory Device_Security
  imports Device_Access
begin

text \<open>
  Conclusions on the device registry, whatever statement of the database fails: it refines an
  abstract access control, a revoked device stays out, and a code enrolls one device.
\<close>

section \<open>The abstract access control\<close>

text \<open>A device with a key has routes; an enrollment adds some, a revocation takes the device away.\<close>

type_synonym access_map = "string \<Rightarrow> (string \<times> (string \<times> string) set) option"

definition admit :: "access_map \<Rightarrow> string \<Rightarrow> string \<Rightarrow> (string \<times> string) set \<Rightarrow> access_map" where
  "admit A d key routes = A(d \<mapsto> (key, (case A d of Some (_, G) \<Rightarrow> G | None \<Rightarrow> {}) \<union> routes))"

definition offered :: "enrollment_row \<Rightarrow> (string \<times> string) set" where
  "offered e = row_routes (en_client_id e) (en_allow_mcp e) (en_allow_actions e)"

text \<open>An unused code, in time.\<close>

definition usable :: "nat \<Rightarrow> enrollment_row \<Rightarrow> bool" where
  "usable now e \<longleftrightarrow> en_used_at e = None \<and> \<not> en_expires_at e < i64_of now"

text \<open>What the abstract access control allows a request to do.\<close>

fun access_step :: "device_lib \<Rightarrow> request \<Rightarrow> device_store \<Rightarrow> access_map \<Rightarrow> bool" where
  "access_step lib (Enroll now c request) st A' \<longleftrightarrow> A' = access st \<or>
     (\<exists>e key. map_of (enrollment_codes (st_tables st)) (dl_sha256 lib (trim c)) = Some e \<and> usable now e
        \<and> decode_public_key lib (er_public_key request) = Inr key
        \<and> (\<forall>k G. access st (er_device_id request) = Some (k, G) \<longrightarrow> k = key)
        \<and> fst (enroll lib now c request st) = Inr \<lparr>es_device_id = er_device_id request, es_client_id = en_client_id e,
             es_server_id = [], es_server_public_key = []\<rparr>
        \<and> A' = admit (access st) (er_device_id request) key (offered e))"
| "access_step lib (Revoke now d) st A' \<longleftrightarrow>
     A' = (if fst (revoke_device lib now d st) = Inr True then (access st)(d := None) else access st)"
| "access_step lib _ st A' \<longleftrightarrow> A' = access st"

lemma live_code:
  assumes "distinct (map fst (enrollment_codes t))" "map_of (live_codes now t) h = Some e"
  shows "map_of (enrollment_codes t) h = Some e"
  using assms unfolding live_codes_def by (simp add: map_of_filter_value split: option.split_asm if_split_asm)

lemma enroll_access:
  assumes "registry_inv st" "now \<le> u64_max"
  shows "access_step lib (Enroll now c request) st (access (serve lib (Enroll now c request) st))"
proof -
  obtain r st' where run: "enroll lib now c request st = (r, st')" by fastforce
  then show ?thesis
  proof (cases rule: enroll_result)
    case unchanged
    then show ?thesis using run same_devices_access by simp
  next
    case (written e key)
    let ?d = "er_device_id request"
    have distinct: "distinct (map fst (enrollment_codes (st_tables st)))" using assms(1) by (simp add: registry_inv_def)
    note view = enrolled_view [OF written(6)]
    have code: "map_of (enrollment_codes (st_tables st)) (dl_sha256 lib (trim c)) = Some e" "usable now e"
      using live_code [OF distinct] written(1-3) by (auto simp: usable_def)
    have old: "(case access st ?d of Some (_, G) \<Rightarrow> G | None \<Rightarrow> {})
      = (if was_revoked (st_tables st) ?d then {} else routes_of (st_tables st) ?d)"
    proof (cases "map_of (device_rows (st_tables st)) ?d")
      case None
      then have "rows_of st ?d = None" by (simp add: rows_of_def row_view_def)
      moreover have "device_ok (rows_of st ?d) (routes_of (st_tables st) ?d)"
        using assms(1) rows_okD by (simp add: registry_inv_def)
      ultimately show ?thesis using None by (simp add: access_def access_of_def was_revoked_def)
    next
      case (Some row)
      then show ?thesis using raw_row [OF Some] by (simp add: access_def access_of_def was_revoked_def)
    qed
    have key: "k = key" if "access st ?d = Some (k, G)" for k G
    proof (cases "map_of (device_rows (st_tables st)) ?d")
      case None
      then show ?thesis using that by (simp add: access_def access_of_def rows_of_def row_view_def)
    next
      case (Some row)
      then show ?thesis using that raw_row [OF Some] written(5) [OF Some]
        by (simp add: access_def access_of_def split: if_split_asm)
    qed
    have "access st' = admit (access st) ?d key (offered e)"
      unfolding admit_def old offered_def by (auto simp: access_def access_of_def view enrolled_row_def fun_eq_iff split: option.split)
    then show ?thesis using run code key written(4,8) by auto
  qed
qed

lemma serve_access:
  assumes "registry_inv st" "request_ok q"
  shows "access_step lib q st (access (serve lib q st))"
proof (cases q)
  case (CreateCode now c client_id offered ttl)
  then show ?thesis using create_inv [OF assms(1) prod.collapse [symmetric]] by simp
next
  case (Enroll now c request)
  then show ?thesis using enroll_access [OF assms(1)] assms(2) by simp
next
  case (Revoke now d)
  then show ?thesis using revoke_inv [OF assms(1) prod.collapse [symmetric]] assms(2) by simp
next
  case (DeleteRevoked d)
  then show ?thesis using delete_inv [OF assms(1) prod.collapse [symmetric]] by simp
next
  case PurgeRevoked
  then show ?thesis using purge_inv [OF assms(1) prod.collapse [symmetric]] by simp
next
  case (Verify now seen nonce expires_at p)
  then show ?thesis using seen_inv [OF assms(1) verify_result(1) [OF prod.collapse [symmetric]]] by simp
next
  case (VerifySession now seen nonce expires_at p)
  then show ?thesis using seen_inv [OF assms(1) verify_session_result(1) [OF prod.collapse [symmetric]]] by simp
next
  case (VerifySplit now seen nonce expires_at p)
  then show ?thesis using seen_inv [OF assms(1) verify_split_result(1) [OF prod.collapse [symmetric]]] by simp
next
  case (RouteAllowed d c service)
  then show ?thesis using route_allowed_result [OF prod.collapse [symmetric]] by (simp add: access_def rows_of_def)
next
  case Restart
  then show ?thesis using restart_inv [OF assms(1) prod.collapse [symmetric]] by simp
qed

text \<open>A device in the cache that is not revoked has access.\<close>

lemma live_access:
  assumes "registry_inv st" "map_of (st_cache st) d = Some c" "ds_revoked_at_unix_ms (cd_summary c) = None"
  shows "access st d = Some (cd_public_key c, routes_of (st_tables st) d)"
    "ds_allow_mcp (cd_summary c) \<Longrightarrow> (ds_client_id (cd_summary c), ''mcp'') \<in> routes_of (st_tables st) d"
    "ds_allow_actions (cd_summary c) \<Longrightarrow> (ds_client_id (cd_summary c), ''actions'') \<in> routes_of (st_tables st) d"
proof -
  obtain row where row: "rows_of st d = Some row" "cd_public_key c = dr_public_key row"
    "ds_client_id (cd_summary c) = dr_client_id row" "ds_allow_mcp (cd_summary c) = (dr_allow_mcp row \<noteq> 0)"
    "ds_allow_actions (cd_summary c) = (dr_allow_actions row \<noteq> 0)"
    "ds_revoked_at_unix_ms (cd_summary c) = map_option u64_of (dr_revoked_at row)"
    by (rule cached_row [OF assms(1,2)])
  then have live: "dr_revoked_at row = None" using assms(3) by simp
  show "access st d = Some (cd_public_key c, routes_of (st_tables st) d)"
    using row live by (simp add: access_def access_of_def)
  have "device_ok (rows_of st d) (routes_of (st_tables st) d)" using assms(1) rows_okD by (simp add: registry_inv_def)
  then have "row_routes (dr_client_id row) (dr_allow_mcp row) (dr_allow_actions row) \<subseteq> routes_of (st_tables st) d"
    using row(1) live by simp
  then show "ds_allow_mcp (cd_summary c) \<Longrightarrow> (ds_client_id (cd_summary c), ''mcp'') \<in> routes_of (st_tables st) d"
    "ds_allow_actions (cd_summary c) \<Longrightarrow> (ds_client_id (cd_summary c), ''actions'') \<in> routes_of (st_tables st) d"
    using row(3-5) by (auto simp: row_routes_def)
qed

lemma access_cached:
  assumes "registry_inv st" "access st d \<noteq> None"
  shows "\<exists>c. map_of (st_cache st) d = Some c \<and> ds_revoked_at_unix_ms (cd_summary c) = None"
proof -
  obtain row where row: "rows_of st d = Some row" "dr_revoked_at row = None"
    using assms(2) by (auto simp: access_def access_of_def split: option.split_asm if_split_asm)
  then obtain c where c: "map_of (st_cache st) d = Some c" using cached_iff_row [OF assms(1), of d] by auto
  obtain row' where "rows_of st d = Some row'" "ds_revoked_at_unix_ms (cd_summary c) = map_option u64_of (dr_revoked_at row')"
    by (rule cached_row [OF assms(1) c])
  then show ?thesis using row c by simp
qed

lemma checked_signature:
  "check_signature lib key message signature = Inr u \<Longrightarrow>
   \<exists>bytes. dl_b64 lib signature = Some bytes \<and> dl_verify lib key message bytes"
  by (auto simp: check_signature_def and_then_Inr_iff split: option.split_asm)

text \<open>A registry with one device, for the witnesses below: a signature is its key.\<close>

definition plain_lib :: device_lib where
  "plain_lib = \<lparr>dl_sha256 = id, dl_b64 = Some, dl_key_ok = (\<lambda>_. True), dl_signature_ok = (\<lambda>_. True),
     dl_verify = (\<lambda>key message bytes. bytes = key), dl_storage_ok = (\<lambda>_. True)\<rparr>"

definition plain_key :: string where "plain_key = replicate 32 CHR ''k''"

definition plain_enrollment :: "string \<Rightarrow> EnrollmentRequest" where
  "plain_enrollment d = \<lparr>er_device_id = d, er_client_id = [], er_device_name = ''laptop'', er_public_key = plain_key\<rparr>"

definition plain_proof :: DeviceAuthProof where
  "plain_proof = \<lparr>dp_hello = \<lparr>ch_protocol_version = 4, ch_client_id = ''cl'', ch_service = Mcp, ch_worker_id = ''w''\<rparr>,
     dp_device_id = ''d'', dp_signature = plain_key\<rparr>"

definition code_row :: enrollment_row where
  "code_row = \<lparr>en_client_id = ''cl'', en_allow_mcp = 1, en_allow_actions = 0, en_created_at = 1000, en_expires_at = 601000, en_used_at = None, en_enrolled_device_id = None\<rparr>"

definition with_code :: device_store where
  "with_code = \<lparr>st_tables = \<lparr>enrollment_codes = [(''code'', code_row)], device_rows = [], route_grants = []\<rparr>, st_cache = [], st_statements = 3\<rparr>"

definition code_used :: enrollment_row where
  "code_used = code_row\<lparr>en_used_at := Some 2000, en_enrolled_device_id := Some ''d''\<rparr>"

definition device_row_of :: "int option \<Rightarrow> device_row" where
  "device_row_of revoked = \<lparr>dr_client_id = ''cl'', dr_device_name = ''laptop'', dr_public_key = plain_key, dr_allow_mcp = 1,
     dr_allow_actions = 0, dr_created_at = 2000, dr_last_seen_at = None, dr_revoked_at = revoked\<rparr>"

definition with_device :: device_store where
  "with_device = \<lparr>st_tables = \<lparr>enrollment_codes = [(''code'', code_used)], device_rows = [(''d'', device_row_of None)],
      route_grants = [((''d'', ''cl'', ''mcp''), 2000)]\<rparr>,
     st_cache = [(''d'', loaded_device ''d'' (device_row_of None))], st_statements = 12\<rparr>"

lemma plain_checks: "trim ''code'' = ''code''" "valid_client_id ''cl''" "valid_client_id ''d''" "trim ''laptop'' = ''laptop''"
  "trim plain_key = plain_key" "length plain_key = 32"
  by code_simp+

lemmas plain_ops = op_bind_def op_check_def op_return_def op_fail_def op_lift_def op_reads_def sql_def select_def execute_def
  database_call_def in_transaction_def plain_lib_def cached_def cache_put_def i64_of_def al_put_def or_ignore_def

lemma plain_create: "serve plain_lib (CreateCode 1000 ''code'' ''cl'' OnlyMcp None) new_store = with_code"
  by (simp add: new_store_def with_code_def code_row_def create_enrollment_def purge_stale_enrollments_def insert_enrollment_def
     plain_ops plain_checks clamp_def sat_add_def sat_mul_def u64_max_def DEFAULT_ENROLLMENT_TTL_SECONDS_def)

lemma plain_enroll: "enroll plain_lib 2000 ''code'' (plain_enrollment ''d'') with_code =
    (Inr \<lparr>es_device_id = ''d'', es_client_id = ''cl'', es_server_id = [], es_server_public_key = []\<rparr>, with_device)"
  by (simp add: with_code_def with_device_def device_row_of_def code_used_def code_row_def enroll_def purge_stale_enrollments_def ENROLLMENT_RETENTION_MILLIS_def
     decode_public_key_def enroll_body_def find_enrollment_def write_device_def insert_route_grants_def consume_code_def
     enrolled_device_def enrolled_row_def loaded_device_def MAX_DEVICE_NAME_BYTES_def plain_enrollment_def u64_of_def
     plain_ops plain_checks Let_def)

lemma plain_reached: "reached plain_lib with_code" "reached plain_lib with_device"
proof -
  show code: "reached plain_lib with_code"
    using reached.served [OF reached.start [of plain_lib], of "CreateCode 1000 ''code'' ''cl'' OnlyMcp None"] by (simp add: plain_create del: serve.simps)
  show "reached plain_lib with_device"
    using reached.served [OF code, of "Enroll 2000 ''code'' (plain_enrollment ''d'')"] by (simp add: plain_enroll u64_max_def)
qed

text \<open>
  C11.  The registry is an access control: after any sequence of requests, with statements that fail
  where they fail, every further request changes who has access to what exactly as the abstract one
  allows it (only an enrollment with an unused code in time adds, under the same key, the routes of
  the code; only a revocation takes away; a deletion, a verification or a restart changes nothing),
  and a route is answered by who has access.
\<close>

theorem registry_refines_access_control:
  assumes "reached lib st" "request_ok q"
  shows "access_step lib q st (access (serve lib q st))
    \<and> (\<forall>d c service b. fst (route_allowed lib d c service st) = Inr b \<longrightarrow>
         (b \<longleftrightarrow> valid_client_id d \<and> valid_client_id c
              \<and> (\<exists>key routes. access st d = Some (key, routes) \<and> (c, service_as_str service) \<in> routes)))"
proof (intro conjI allI impI)
  have inv: "registry_inv st" by (rule reached_inv [OF assms(1)])
  show "access_step lib q st (access (serve lib q st))" by (rule serve_access [OF inv assms(2)])
  fix d c service b assume "fst (route_allowed lib d c service st) = Inr b"
  then have "b \<longleftrightarrow> valid_client_id d \<and> valid_client_id c \<and> (\<exists>x. map_of (st_cache st) d = Some x
         \<and> ds_revoked_at_unix_ms (cd_summary x) = None) \<and> (c, service_as_str service) \<in> routes_of (st_tables st) d"
    using route_allowed_result [of lib d c service st, OF prod.collapse [symmetric]] by auto
  moreover have "(\<exists>x. map_of (st_cache st) d = Some x \<and> ds_revoked_at_unix_ms (cd_summary x) = None)
      \<longleftrightarrow> (\<exists>key. access st d = Some (key, routes_of (st_tables st) d))"
    using live_access(1) [OF inv] access_cached [OF inv, of d] by blast
  moreover have "routes = routes_of (st_tables st) d" if "access st d = Some (key, routes)" for key routes
    using that by (auto simp: access_def access_of_def split: option.split_asm if_split_asm)
  ultimately show "b \<longleftrightarrow> valid_client_id d \<and> valid_client_id c
      \<and> (\<exists>key routes. access st d = Some (key, routes) \<and> (c, service_as_str service) \<in> routes)"
    by blast
qed

lemma registry_refines_access_control_witness:
  "access_step plain_lib (Enroll 2000 ''code'' (plain_enrollment ''d'')) with_code (access with_device)
   \<and> (\<exists>key routes. access with_device ''d'' = Some (key, routes) \<and> (''cl'', ''mcp'') \<in> routes)"
proof -
  have "access_step plain_lib (Enroll 2000 ''code'' (plain_enrollment ''d'')) with_code
      (access (serve plain_lib (Enroll 2000 ''code'' (plain_enrollment ''d'')) with_code))"
    by (rule conjunct1 [OF registry_refines_access_control [OF plain_reached(1)]]) (simp add: u64_max_def)
  moreover have "fst (route_allowed plain_lib ''d'' ''cl'' Mcp with_device) = Inr True"
    by (simp add: with_device_def device_row_of_def route_allowed_def loaded_device_def u64_of_def plain_ops plain_checks)
  with conjunct2 [OF registry_refines_access_control [OF plain_reached(2), of Restart], rule_format, of "''d''" "''cl''" Mcp True]
  have "\<exists>key routes. access with_device ''d'' = Some (key, routes) \<and> (''cl'', service_as_str Mcp) \<in> routes"
    unfolding request_ok.simps by iprover
  ultimately show ?thesis by (simp add: plain_enroll del: access_step.simps)
qed

text \<open>
  C25.  A verified device has access: when the proof of a device is accepted, the device is enrolled and
  not revoked, the route it asks for is one of its routes, the challenge has not expired, and the key
  it enrolled with accepts its signature for exactly this statement.
\<close>

theorem verified_device_has_access:
  assumes "reached lib st" "fst (verify_cached lib now seen nonce expires_at proof st) = Inr ()"
  shows "\<exists>key routes bytes. access st (dp_device_id proof) = Some (key, routes)
    \<and> (ch_client_id (dp_hello proof), service_as_str (ch_service (dp_hello proof))) \<in> routes \<and> now \<le> expires_at
    \<and> dl_b64 lib (dp_signature proof) = Some bytes \<and> dl_verify lib key (auth_signing_payload nonce proof) bytes"
proof -
  have inv: "registry_inv st" by (rule reached_inv [OF assms(1)])
  obtain st' where "verify_cached lib now seen nonce expires_at proof st = (Inr (), st')"
    using assms(2) by (metis prod.collapse)
  from verify_result(2) [OF this refl] obtain c where c: "now \<le> expires_at" "map_of (st_cache st) (dp_device_id proof) = Some c"
    "ds_revoked_at_unix_ms (cd_summary c) = None" "ds_client_id (cd_summary c) = ch_client_id (dp_hello proof)"
    "case ch_service (dp_hello proof) of Mcp \<Rightarrow> ds_allow_mcp (cd_summary c) | Actions \<Rightarrow> ds_allow_actions (cd_summary c)"
    "check_signature lib (cd_public_key c) (auth_signing_payload nonce proof) (dp_signature proof) = Inr ()"
    by blast
  note live = live_access [OF inv c(2,3)]
  have "(ch_client_id (dp_hello proof), service_as_str (ch_service (dp_hello proof))) \<in> routes_of (st_tables st) (dp_device_id proof)"
    using live(2,3) c(4,5) by (cases "ch_service (dp_hello proof)") simp_all
  then show ?thesis using live(1) c(1) checked_signature [OF c(6)] by blast
qed

lemma verified_device_has_access_witness:
  "\<exists>key routes. access with_device ''d'' = Some (key, routes) \<and> (''cl'', ''mcp'') \<in> routes"
proof -
  have "fst (verify_cached plain_lib 10 11 ''n'' 20 plain_proof with_device) = Inr ()"
    by (simp add: with_device_def device_row_of_def plain_proof_def verify_cached_def live_device_def check_signature_def ensure_def
        and_then_def record_last_seen_def op_try_def loaded_device_def u64_of_def plain_ops plain_checks Let_def)
  from verified_device_has_access [OF plain_reached(2) this] show ?thesis by (auto simp: plain_proof_def)
qed

section \<open>Revocation\<close>

fun enrolls :: "string \<Rightarrow> request \<Rightarrow> bool" where
  "enrolls d (Enroll now c request) \<longleftrightarrow> er_device_id request = d"
| "enrolls d _ \<longleftrightarrow> False"

lemma out_stays_out:
  assumes "registry_inv st" "request_ok q" "access st d = None" "\<not> enrolls d q"
  shows "access (serve lib q st) d = None"
  using serve_access [OF assms(1,2), of lib] assms(3,4)
  by (cases q) (auto simp: admit_def split: if_split_asm)

lemma out_stays_out_run:
  "reached lib st \<Longrightarrow> list_all request_ok requests \<Longrightarrow> access st d = None \<Longrightarrow> list_all (\<lambda>q. \<not> enrolls d q) requests
   \<Longrightarrow> access (serve_all lib requests st) d = None"
proof (induction requests arbitrary: st)
  case (Cons q requests)
  have "access (serve lib q st) d = None" using Cons.prems out_stays_out [OF reached_inv] by simp
  then show ?case using Cons.IH [of "serve lib q st"] Cons.prems served by (simp add: serve_all_def)
qed (simp add: serve_all_def)

text \<open>
  C12.  A revoked device stays out: once its revocation is answered, no sequence of requests without an
  enrollment of this device, restarts and failing statements included, gets it verified in any of the
  three handshakes or allowed on a route.
\<close>

theorem revoked_device_stays_out:
  assumes "reached lib st" "fst (revoke_device lib now d st) = Inr True" "now \<le> u64_max"
    and "list_all request_ok requests" "list_all (\<lambda>q. \<not> enrolls d q) requests"
    and "later = serve_all lib requests (serve lib (Revoke now d) st)"
  shows "access later d = None
    \<and> (dp_device_id p = d \<longrightarrow> fst (verify_cached lib t seen nonce expires_at p later) \<noteq> Inr ())
    \<and> (dsp_device_id sess = d \<longrightarrow> fst (verify_device_session_cached lib t seen nonce expires_at sess later) \<noteq> Inr ())
    \<and> (ssp_device_id spl = d \<longrightarrow> fst (verify_split_session_cached lib t seen nonce expires_at spl later) \<noteq> Inr ())
    \<and> fst (route_allowed lib d c service later) \<noteq> Inr True"
proof -
  let ?st = "serve lib (Revoke now d) st"
  have st: "reached lib ?st" using assms(1,3) by (intro served) simp_all
  have "access ?st d = None"
    using revoke_inv [of st lib now d, OF reached_inv [OF assms(1)] prod.collapse [symmetric] assms(3)] assms(2) by simp
  then have out: "access later d = None" unfolding assms(6) by (rule out_stays_out_run [OF st assms(4) _ assms(5)])
  have inv: "registry_inv later" unfolding assms(6) using reached_inv reached_serve_all [OF st assms(4)] by blast
  have dead: "\<not> (\<exists>c. map_of (st_cache later) d = Some c \<and> ds_revoked_at_unix_ms (cd_summary c) = None)"
    using live_access(1) [OF inv] out by fastforce
  show ?thesis
  proof (intro conjI impI)
    show "fst (verify_cached lib t seen nonce expires_at p later) \<noteq> Inr ()" if "dp_device_id p = d"
      using verify_result(2) [of lib t seen nonce expires_at p later, OF prod.collapse [symmetric]] dead that by blast
    show "fst (verify_device_session_cached lib t seen nonce expires_at sess later) \<noteq> Inr ()" if "dsp_device_id sess = d"
      using verify_session_result(2) [of lib t seen nonce expires_at sess later, OF prod.collapse [symmetric]] dead that by blast
    show "fst (verify_split_session_cached lib t seen nonce expires_at spl later) \<noteq> Inr ()" if "ssp_device_id spl = d"
      using verify_split_result(2) [of lib t seen nonce expires_at spl later, OF prod.collapse [symmetric]] dead that by blast
    show "fst (route_allowed lib d c service later) \<noteq> Inr True"
      using route_allowed_result [of lib d c service later, OF prod.collapse [symmetric]] dead by blast
  qed (rule out)
qed

lemma plain_revoke: "fst (revoke_device plain_lib 3000 ''d'' with_device) = Inr True"
  by (simp add: with_device_def device_row_of_def revoke_device_def loaded_device_def u64_of_def plain_ops plain_checks)

lemma revoked_device_stays_out_witness:
  "fst (verify_cached plain_lib 10 11 ''n'' 20 plain_proof
     (serve_all plain_lib [Restart, Enroll 4000 ''code'' (plain_enrollment ''e'')]
       (serve plain_lib (Revoke 3000 ''d'') with_device))) \<noteq> Inr ()"
proof -
  from revoked_device_stays_out [OF plain_reached(2) plain_revoke,
      of "[Restart, Enroll 4000 ''code'' (plain_enrollment ''e'')]", OF _ _ _ refl, of plain_proof 10 11 "''n''" 20]
  show ?thesis by (simp add: u64_max_def plain_proof_def plain_enrollment_def)
qed

text \<open>
  The device that used a code is answered with success when it uses it again, even once it is revoked:
  the answer says enrolled, and the device has no access.
\<close>

lemma revoked_device_is_told_enrolled:
  "fst (enroll plain_lib 4000 ''code'' (plain_enrollment ''d'') (serve plain_lib (Revoke 3000 ''d'') with_device))
     = Inr \<lparr>es_device_id = ''d'', es_client_id = ''cl'', es_server_id = [], es_server_public_key = []\<rparr>
   \<and> access (serve plain_lib (Enroll 4000 ''code'' (plain_enrollment ''d'')) (serve plain_lib (Revoke 3000 ''d'') with_device)) ''d'' = None"
  by (simp add: with_device_def device_row_of_def code_used_def code_row_def enroll_def purge_stale_enrollments_def
      ENROLLMENT_RETENTION_MILLIS_def decode_public_key_def enroll_body_def find_enrollment_def used_code_def revoke_device_def
      loaded_device_def MAX_DEVICE_NAME_BYTES_def plain_enrollment_def u64_of_def access_def access_of_def rows_of_def row_view_def
      plain_ops plain_checks Let_def)

section \<open>Codes are used once\<close>

definition spent :: "device_store \<Rightarrow> string \<Rightarrow> string \<Rightarrow> bool" where
  "spent st h d \<longleftrightarrow> (case map_of (enrollment_codes (st_tables st)) h of
     None \<Rightarrow> True | Some e \<Rightarrow> en_used_at e \<noteq> None \<and> en_enrolled_device_id e = Some d)"

fun mints :: "device_lib \<Rightarrow> string \<Rightarrow> request \<Rightarrow> bool" where
  "mints lib h (CreateCode now c client_id sv ttl) \<longleftrightarrow> dl_sha256 lib c = h"
| "mints lib h _ \<longleftrightarrow> False"

lemma live_or_none:
  assumes "distinct (map fst (enrollment_codes t))"
  shows "map_of (live_codes now t) h \<in> {None, map_of (enrollment_codes t) h}"
  using live_code [OF assms] by (cases "map_of (live_codes now t) h") auto

lemma spent_codes:
  assumes "spent st h d" "map_of (enrollment_codes (st_tables st')) h \<in> {None, map_of (enrollment_codes (st_tables st)) h}"
  shows "spent st' h d"
  using assms by (auto simp: spent_def)

lemma restart_codes: "from_writer lib st = (r, st') \<Longrightarrow> enrollment_codes (st_tables st') = enrollment_codes (st_tables st)"
  unfolding from_writer_def initialize_schema_def load_devices_def
  by (auto elim!: op_bind_cases database_call_cases execute_cases select_cases simp: job_results regrant_def split: if_split_asm)

text \<open>What a request does to a code it does not mint.\<close>

lemma code_kept:
  assumes "registry_inv st" "\<not> mints lib h q" "\<And>now c request. q = Enroll now c request \<Longrightarrow> dl_sha256 lib (trim c) \<noteq> h"
  shows "map_of (enrollment_codes (st_tables (serve lib q st))) h \<in> {None, map_of (enrollment_codes (st_tables st)) h}"
proof -
  have distinct: "distinct (map fst (enrollment_codes (st_tables st)))" using assms(1) by (simp add: registry_inv_def)
  note live = live_or_none [OF distinct]
  have seen: ?thesis if "seen_only st (serve lib q st)" using that by (simp add: seen_only_def)
  show ?thesis
  proof (cases q)
    case (CreateCode now c client_id sv ttl)
    obtain row where "enrollment_codes (st_tables (serve lib q st)) \<in> {enrollment_codes (st_tables st),
        live_codes now (st_tables st), al_put (dl_sha256 lib c) row (live_codes now (st_tables st))}"
      using create_result [of lib now c client_id sv ttl st, OF prod.collapse [symmetric]] CreateCode by (metis serve.simps(1))
    then show ?thesis using live [of now h] assms(2) CreateCode by auto
  next
    case (Enroll now c request)
    obtain r st' where run: "enroll lib now c request st = (r, st')" by fastforce
    have "map_of (enrollment_codes (st_tables st')) h \<in> {None, map_of (enrollment_codes (st_tables st)) h}"
      using run
    proof (cases rule: enroll_result)
      case unchanged
      then show ?thesis using live [of now h] by auto
    next
      case (written e key)
      then show ?thesis using live [of now h] assms(3) [OF Enroll] by (simp add: enrolled_tables_def)
    qed
    then show ?thesis using run Enroll by simp
  next
    case (Revoke now d)
    obtain r st' where run: "revoke_device lib now d st = (r, st')" by fastforce
    then show ?thesis using Revoke run by (cases rule: revoke_result) simp_all
  next
    case (DeleteRevoked d)
    obtain r st' where run: "delete_revoked_device lib d st = (r, st')" by fastforce
    then show ?thesis using DeleteRevoked run by (cases rule: delete_result) simp_all
  next
    case PurgeRevoked
    obtain r st' where run: "purge_revoked_devices lib st = (r, st')" by fastforce
    then show ?thesis using PurgeRevoked run by (cases rule: purge_result) simp_all
  next
    case (Verify now sn nonce expires_at p)
    then show ?thesis using seen verify_result(1) [OF prod.collapse [symmetric]] by simp
  next
    case (VerifySession now sn nonce expires_at p)
    then show ?thesis using seen verify_session_result(1) [OF prod.collapse [symmetric]] by simp
  next
    case (VerifySplit now sn nonce expires_at p)
    then show ?thesis using seen verify_split_result(1) [OF prod.collapse [symmetric]] by simp
  next
    case (RouteAllowed d c service)
    then show ?thesis using route_allowed_result [of lib d c service st, OF prod.collapse [symmetric]] by simp
  next
    case Restart
    then show ?thesis using restart_codes [OF prod.collapse [symmetric]] by simp
  qed
qed

lemma spent_enroll:
  assumes "registry_inv st" "spent st (dl_sha256 lib (trim c)) d" "enroll lib now c request st = (r, st')"
  shows "spent st' (dl_sha256 lib (trim c)) d \<and> (r = Inr x \<longrightarrow> er_device_id request = d)"
proof -
  have distinct: "distinct (map fst (enrollment_codes (st_tables st)))" using assms(1) by (simp add: registry_inv_def)
  note live = live_or_none [OF distinct] live_code [OF distinct]
  from assms(3) show ?thesis
  proof (cases rule: enroll_result)
    case unchanged
    have "spent st' (dl_sha256 lib (trim c)) d" by (rule spent_codes [OF assms(2)]) (use unchanged(2) live(1) [of now "dl_sha256 lib (trim c)"] in auto)
    moreover have "er_device_id request = d" if "r = Inr x"
      using unchanged(3) [OF that] live(2) assms(2) by (fastforce simp: spent_def)
    ultimately show ?thesis by simp
  next
    case (written e key)
    then show ?thesis using live(2) [OF written(1)] assms(2) by (simp add: spent_def)
  qed
qed

lemma spent_serve:
  assumes "registry_inv st" "spent st h d" "\<not> mints lib h q"
  shows "spent (serve lib q st) h d"
proof (cases "\<exists>now c request. q = Enroll now c request \<and> dl_sha256 lib (trim c) = h")
  case True
  then obtain now c request where q: "q = Enroll now c request" "dl_sha256 lib (trim c) = h" by blast
  obtain r st' where "enroll lib now c request st = (r, st')" by fastforce
  then show ?thesis using spent_enroll [OF assms(1)] assms(2) q by auto
next
  case False
  then show ?thesis using spent_codes [OF assms(2) code_kept [OF assms(1,3)]] by blast
qed

lemma spent_run:
  "reached lib st \<Longrightarrow> list_all request_ok requests \<Longrightarrow> spent st h d \<Longrightarrow> list_all (\<lambda>q. \<not> mints lib h q) requests
   \<Longrightarrow> spent (serve_all lib requests st) h d"
proof (induction requests arbitrary: st)
  case (Cons q requests)
  have "spent (serve lib q st) h d" using Cons.prems spent_serve [OF reached_inv] by simp
  then show ?case using Cons.IH [of "serve lib q st"] Cons.prems served by (simp add: serve_all_def)
qed (simp add: serve_all_def)

text \<open>
  C26.  A code enrolls one device: after an enrollment has been answered with success, the same code
  is refused for every other device, whatever is requested in between and whatever statement fails,
  as long as the code is not minted again.
\<close>

theorem code_enrolls_one_device:
  assumes "reached lib st" "fst (enroll lib now c request st) = Inr response" "now \<le> u64_max"
    and "list_all request_ok requests" "list_all (\<lambda>q. \<not> mints lib (dl_sha256 lib (trim c)) q) requests"
    and "later = serve_all lib requests (serve lib (Enroll now c request) st)"
    and "trim c' = trim c" "er_device_id request' \<noteq> er_device_id request"
  shows "\<exists>e. fst (enroll lib now' c' request' later) = Inl e"
proof -
  let ?h = "dl_sha256 lib (trim c)" and ?st = "serve lib (Enroll now c request) st"
  have inv: "registry_inv st" by (rule reached_inv [OF assms(1)])
  have distinct: "distinct (map fst (enrollment_codes (st_tables st)))" using inv by (simp add: registry_inv_def)
  obtain st' where run: "enroll lib now c request st = (Inr response, st')" using assms(2) by (metis prod.collapse)
  then have "spent st' ?h (er_device_id request)"
  proof (cases rule: enroll_result)
    case unchanged
    then obtain e where e: "map_of (live_codes now (st_tables st)) ?h = Some e" "en_used_at e \<noteq> None"
      "en_enrolled_device_id e = Some (er_device_id request)" by blast
    then have "map_of (enrollment_codes (st_tables st)) ?h = Some e" using live_code [OF distinct] by blast
    then show ?thesis using unchanged(2) e by (auto simp: spent_def)
  next
    case (written e key)
    then show ?thesis by (simp add: spent_def enrolled_tables_def)
  qed
  then have "spent ?st ?h (er_device_id request)" using run by simp
  moreover have st: "reached lib ?st" using assms(1,3) by (intro served) simp_all
  ultimately have "spent later ?h (er_device_id request)" unfolding assms(6) using spent_run [OF st assms(4)] assms(5) by blast
  moreover have "registry_inv later" unfolding assms(6) using reached_inv reached_serve_all [OF st assms(4)] by blast
  ultimately have "fst (enroll lib now' c' request' later) \<noteq> Inr x" for x
    using spent_enroll [of later lib c' "er_device_id request" now' request', OF _ _ prod.collapse [symmetric]] assms(7,8) by auto
  then show ?thesis by (cases "fst (enroll lib now' c' request' later)") auto
qed

lemma code_enrolls_one_device_witness:
  "\<exists>e. fst (enroll plain_lib 5000 '' code'' (plain_enrollment ''e'')
     (serve_all plain_lib [Revoke 3000 ''d'', Restart]
       (serve plain_lib (Enroll 2000 ''code'' (plain_enrollment ''d'')) with_code))) = Inl e"
proof (rule code_enrolls_one_device [OF plain_reached(1) _ _ _ _ refl])
  show "fst (enroll plain_lib 2000 ''code'' (plain_enrollment ''d'') with_code)
      = Inr \<lparr>es_device_id = ''d'', es_client_id = ''cl'', es_server_id = [], es_server_public_key = []\<rparr>"
    by (simp add: plain_enroll)
  show "trim '' code'' = trim ''code''" by code_simp
qed (simp_all add: u64_max_def plain_enrollment_def)

end
