(* ===== verification/Spec2Isabelle.thy ===== *)
theory Spec2Isabelle
  imports Harness_Properties Conversation_Handles Tunnel_Wire Tunnel_Auth Tunnel_Routes Pool_Loop
    Command_Policy Patch_Hunk Exec_Wave Patch_Atomic Edit_Guards Output_Polling Session_Snapshot
    Session_Registry Exec_Gate Edit_Safety Device_Security
begin

text \<open>
  Coding Tools MCP: a desktop service (\<open>src-tauri/\<close>) that offers an AI client tools on a
  workspace over the Model Context Protocol, the tunnel through which a public server reaches it
  (\<open>crates/tunnel-protocol\<close>, \<open>services/tunnel-server\<close>), and shared command limits
  (\<open>crates/command-policy\<close>).  This development models the parts whose behaviour is decided by
  their own code rather than by the operating system, and proves what makes them correct.

  \<^bold>\<open>Conventions.\<close>  A Rust \<open>str\<close> is its bytes (\<open>Rust_Str\<close>); \<open>u64\<close>/\<open>usize\<close> values that only meet
  saturating or comparing operations are naturals, the others words (\<open>Prelude\<close>); \<open>Err\<close> is \<open>Inl\<close>
  and \<open>Ok\<close> is \<open>Inr\<close>; \<open>serde_json\<close> values are \<open>Json.json\<close>; a \<open>HashMap\<close> is an association list
  with distinct keys or a map.  Randomness, time, hashing, canonical paths, file contents and the
  processes that commands run are arguments of the definitions that use them.

  \<^bold>\<open>Tunnel.\<close>  \<open>Tunnel_Wire\<close> is the binary frame format of \<open>multiplex.rs\<close>: encoding and decoding are
  inverse (an instance of the locale \<open>codec\<close>).  \<open>Tunnel_Policy\<close> holds the policies and their
  validation, \<open>Tunnel_Auth\<close> the texts the two sides sign: equal texts mean equal statements, up to the
  fields it names, from the locale \<open>self_delimiting\<close> of \<open>Json\<close>.
  \<open>Tunnel_Routes\<close>: no path belongs to two clients, only read-only calls are replayed.
  \<open>Pool_Policy\<close> is \<open>tunnel/builtin/pool_policy.rs\<close>: no decision leads
  beyond the policy (locale \<open>pool_controller\<close>), and the diagnosis of a pool that does not grow is exact.
  \<open>Pool_Loop\<close> is the loop of \<open>tunnel/builtin.rs\<close> around it, under any schedule of reports: the pool
  exceeds its maximum only by the retiring connections that report once more, and it can.

  \<^bold>\<open>Devices.\<close>  \<open>Device_Registry\<close> is \<open>services/tunnel-server/src/device_auth.rs\<close>: codes, devices and
  routes in tables with a cache in front, every statement of which may fail as the environment
  decides.  \<open>Device_Effects\<close> lists what an operation can leave behind, \<open>Device_Access\<close> holds the
  requests, the reachable states and the invariant that ties the cache to the tables;
  \<open>Device_Security\<close> refines the registry to an abstract access control and shows that a revoked
  device stays out and that a code enrolls one device.

  \<^bold>\<open>Commands.\<close>  \<open>Command_Policy\<close> resolves timeouts (\<open>execution_timeout.rs\<close>).  \<open>Exec_Batch\<close>,
  \<open>Exec_Schedule\<close>, \<open>Exec_Dag\<close> and \<open>Exec_Wave\<close> are \<open>tools/dispatch/exec_many.rs\<close>: reading a batch,
  deciding whether it may run in parallel (with \<open>Parallel_Stats\<close>, the evidence of
  \<open>parallel_stats.rs\<close>), the cycle check (a partial function shown to return, accepting exactly the
  acyclic graphs), and running it in waves, which gives the results of running it one command at
  a time when dependencies are listed first, nothing stops the batch early and the outcome of a command
  does not depend on when it runs.  The loop of the runner carries no fuel: every pass consumes a pending command.

  \<^bold>\<open>Patches.\<close>  \<open>Patch_Parser\<close> reads both patch formats (round trip), \<open>Patch_Hunk\<close> places and applies
  hunks (sound, exact for exact line numbers; the search is an instance of \<open>hunk_locator\<close>).
  \<open>Disk\<close> is the file system the commit works on (a tree of files and directories, operations that may
  fail as the environment decides), \<open>Patch_Transaction\<close> and \<open>Patch_Commit\<close> are
  \<open>patch/transaction.rs\<close>: staging, the conflict check, the commit loop and its rollback;
  \<open>Patch_Atomic\<close> shows what a commit leaves behind when it succeeds, when it fails and rolls back,
  and where the code leaves a temporary file.

  \<^bold>\<open>Precise edits.\<close>  \<open>Line_Distance\<close>, \<open>Edit_Match\<close>, \<open>Precise_Edit\<close> and \<open>Edit_Guards\<close> are
  \<open>patch/precise_edit.rs\<close>: the bounded line diff (least, when it is within the bound), how a text is
  found in a file, the contract of a script and its application, and the guards on the result.  The
  \<open>regex\<close> crate is the record \<open>regex_lib\<close>, a panic is the outcome \<open>Panics\<close>.  \<open>Edit_Exact\<close> shows that a
  script acts as one substitution on the original text, \<open>Edit_Properties\<close> what line edits do and
  where the error report panics.

  \<^bold>\<open>Patch tools.\<close>  \<open>Patch_Support\<close> (\<open>support.rs\<close>), \<open>Patch_Apply\<close> (\<open>apply_ops.rs\<close>), \<open>File_Ops\<close>
  (\<open>file_ops.rs\<close>), \<open>Edit_Proposal\<close> (\<open>proposal.rs\<close>) and \<open>Edit_Tools\<close> (\<open>edit_ops.rs\<close>) take a tool call
  from its arguments to the commit over \<open>Disk\<close> and the store of proposals.  \<open>Patch_Preview\<close> and
  \<open>Edit_Safety\<close> show that an applied call leaves exactly the text it announced, that previews and
  conflicts change no file, and that a proposal changes only its place.

  \<^bold>\<open>Workspace.\<close>  \<open>Workspace_Paths\<close> is the path confinement of \<open>tools/workspace.rs\<close>: a path that is
  accepted for writing lies under an allowed root, for any file system in which canonical paths are
  what they claim to be.

  \<^bold>\<open>Gate.\<close>  \<open>Security_Policy\<close> is the configuration of \<open>workspace/model.rs\<close>, \<open>Tool_Policy\<close> the checks of
  \<open>tools/policy.rs\<close> before a tool runs, \<open>Exec_Spec\<close> the program, the environment and the post checks
  of a command.  \<open>Exec_Gate\<close> states which programs an accepted command can start and what its
  environment holds, and where a blank passes the allowlist.

  \<^bold>\<open>Processes.\<close>  \<open>Utf8\<close> is the part of \<open>core::str\<close> the code relies on (strict and lossy decoding).
  \<open>Process_Output\<close> is \<open>session/output.rs\<close>, the bounded buffers (1 MiB of bytes, 1 MiB of text) with
  their incremental decoder; \<open>Output_Pages\<close> pages through them (a loop that may not end, hence a
  partial function, with the condition under which it ends); \<open>Output_Events\<close> is the log behind
  incremental polls, \<open>Output_Polling\<close> composes them: what successive polls return is what the
  process wrote, and a client that keeps polling catches up, while the log of 1 MiB holds what it has
  not read.  UTF-16 decoding is in the definitions, the text theorems are for UTF-8 without NUL.
  \<open>Session_Snapshot\<close> is the status and the result a client sees, with what is withheld of it,
  \<open>Session_Registry\<close> the table of sessions with its lookup, pruning and limits.

  \<^bold>\<open>Conversations.\<close>  \<open>Conversation_Handles\<close> is \<open>mcp/conversation_handles.rs\<close>: a handle serves only
  its owner, routing identities stay apart in every reachable store, handle arguments reach no
  tool.

  \<^bold>\<open>Harness.\<close>  \<open>Harness_Model\<close> is the data and the store of \<open>harness/model.rs\<close> and \<open>store.rs\<close>;
  operations are functions on the store that may fail at any write and keep what they wrote.
  \<open>Operations\<close> is this kind of function, shared with \<open>Disk\<close> and the device registry.
  \<open>Harness_State\<close> is \<open>state.rs\<close>, \<open>Harness_Context\<close> and \<open>Harness_Tools\<close> are \<open>tools.rs\<close>.
  \<open>Harness_Slots\<close> and \<open>Harness_Discipline\<close> hold the invariant that one task occupies the slot of a
  scope and that the state file lists exactly those tasks; \<open>Harness_Runs\<close> states what an operation
  must keep for every tool to keep it (locale \<open>kept_by_operations\<close>, interpreted for the discipline
  there and for the history of the tasks in \<open>Harness_History\<close>); \<open>Harness_Properties\<close> draws the
  conclusions, with and without failing writes.

  \<^bold>\<open>Not modelled.\<close>  Sockets, HTTP, processes, sandboxes, git and desktop automation (operating
  system); the user interface and the TypeScript node agent; the log file behind
  \<open>Parallel_Stats\<close>; the dispatch of tool calls and the HTTP and JSON-RPC transport, which pass
  requests on to the parts above; the tunnel server's asynchronous connections; the knowledge base,
  whose content is SQL and text ranking, apart from the task outcomes the harness hands to it.
\<close>

end
